(* ===== verification/Prelude.thy ===== *)
theory Prelude
  imports Main "HOL-Library.Word"
begin

text \<open>
  Shared vocabulary of the development: the Rust machine types, results as sums, checked and
  wrapping arithmetic, byte strings and slices, and the generic lemmas the components use.

  Conventions. \<open>u8\<close>, \<open>u16\<close>, \<open>u32\<close> and \<open>u64\<close> are words, so unchecked
  \<open>+\<close>, \<open>-\<close> and \<open>*\<close> wrap as in the release profile (the workspace sets no
  \<open>overflow-checks\<close>). A \<open>usize\<close> counts bytes or elements of a slice and is a
  \<open>nat\<close>; where the source uses checked \<open>usize\<close> arithmetic the 64-bit bound is
  written out (\<open>usize_add\<close>). \<open>Result<T, E>\<close> is \<open>E + T\<close>, with \<open>Inl\<close>
  the error, and the operator \<open>?\<close> is \<open>rbind\<close>.
\<close>

unbundle bit_operations_syntax

type_synonym u8 = "8 word"
type_synonym u16 = "16 word"
type_synonym u32 = "32 word"
type_synonym u64 = "64 word"
type_synonym bytes = "u8 list"

named_theorems result_simps \<open>unfolding of results and of checked operations\<close>
named_theorems checked_simps \<open>characterisations of checked arithmetic that succeeds\<close>

section \<open>Results\<close>

definition rbind :: "'e + 'a \<Rightarrow> ('a \<Rightarrow> 'e + 'b) \<Rightarrow> 'e + 'b" where
  "rbind r f = (case r of Inl e \<Rightarrow> Inl e | Inr x \<Rightarrow> f x)"

definition ok_or :: "'e \<Rightarrow> 'a option \<Rightarrow> 'e + 'a" where
  "ok_or e m = (case m of None \<Rightarrow> Inl e | Some x \<Rightarrow> Inr x)"

definition map_err :: "('e \<Rightarrow> 'f) \<Rightarrow> 'e + 'a \<Rightarrow> 'f + 'a" where
  "map_err f r = (case r of Inl e \<Rightarrow> Inl (f e) | Inr x \<Rightarrow> Inr x)"

definition guard_err :: "'e \<Rightarrow> bool \<Rightarrow> 'e + unit" where
  "guard_err e b = (if b then Inr () else Inl e)"

lemma rbind_simps [simp]: "rbind (Inl e) f = Inl e" "rbind (Inr x) f = f x"
  by (simp_all add: rbind_def)

lemma rbind_eq_Inr [result_simps]: "rbind r f = Inr y \<longleftrightarrow> (\<exists>x. r = Inr x \<and> f x = Inr y)"
  by (cases r) simp_all

lemma rbind_InrE: "rbind r f = Inr y \<Longrightarrow> (\<And>x. r = Inr x \<Longrightarrow> f x = Inr y \<Longrightarrow> P) \<Longrightarrow> P"
  by (auto simp: rbind_eq_Inr)

lemma rbind_InrE2:
  "rbind r (\<lambda>(a, b). f a b) = Inr y \<Longrightarrow> (\<And>a b. r = Inr (a, b) \<Longrightarrow> f a b = Inr y \<Longrightarrow> P) \<Longrightarrow> P"
  by (auto simp: rbind_eq_Inr)

lemma rbind_eq_Inl [result_simps]:
  "rbind r f = Inl e \<longleftrightarrow> r = Inl e \<or> (\<exists>x. r = Inr x \<and> f x = Inl e)"
  by (cases r) simp_all

lemma ok_or_simps [simp]: "ok_or e None = Inl e" "ok_or e (Some x) = Inr x"
  by (simp_all add: ok_or_def)

lemma ok_or_eq_Inr [result_simps]: "ok_or e m = Inr x \<longleftrightarrow> m = Some x"
  by (cases m) simp_all

lemma ok_or_eq_Inl [result_simps]: "ok_or e m = Inl e' \<longleftrightarrow> m = None \<and> e' = e"
  by (cases m) auto

lemma map_err_simps [simp]: "map_err f (Inl e) = Inl (f e)" "map_err f (Inr x) = Inr x"
  by (simp_all add: map_err_def)

lemma map_err_eq_Inr [result_simps]: "map_err f r = Inr x \<longleftrightarrow> r = Inr x"
  by (cases r) simp_all

lemma guard_err_eq_Inr [result_simps]: "guard_err e b = Inr u \<longleftrightarrow> b"
  by (simp add: guard_err_def)

lemma guard_err_eq_Inl [result_simps]: "guard_err e b = Inl e' \<longleftrightarrow> \<not> b \<and> e' = e"
  by (auto simp: guard_err_def)

lemma guard_err_simps [simp]: "guard_err e True = Inr ()" "guard_err e False = Inl e"
  by (simp_all add: guard_err_def)

text \<open>A loop that threads a state through a list and stops at the first error.\<close>

fun try_fold :: "('s \<Rightarrow> 'a \<Rightarrow> 'e + 's) \<Rightarrow> 's \<Rightarrow> 'a list \<Rightarrow> 'e + 's" where
  "try_fold f s [] = Inr s"
| "try_fold f s (x # xs) = rbind (f s x) (\<lambda>s'. try_fold f s' xs)"

lemma try_fold_append:
  "try_fold f s (xs @ ys) = rbind (try_fold f s xs) (\<lambda>s'. try_fold f s' ys)"
proof (induction xs arbitrary: s)
  case (Cons x xs)
  then show ?case by (cases "f s x") simp_all
qed simp

lemma try_fold_invariant:
  assumes "try_fold f s xs = Inr t" and "I s"
    and "\<And>s x s'. I s \<Longrightarrow> x \<in> set xs \<Longrightarrow> f s x = Inr s' \<Longrightarrow> I s'"
  shows "I t"
  using assms
proof (induction xs arbitrary: s)
  case (Cons x xs)
  from Cons.prems(1) obtain s' where s': "f s x = Inr s'" "try_fold f s' xs = Inr t"
    by (auto simp: result_simps)
  have "I s'" by (rule Cons.prems(3) [OF Cons.prems(2) _ s'(1)]) simp
  with s'(2) show ?case by (rule Cons.IH) (rule Cons.prems(3), simp_all)
qed simp

lemma try_fold_all_Inr:
  "try_fold f s xs = Inr t \<Longrightarrow> x \<in> set xs \<Longrightarrow> \<exists>u v. f u x = Inr v"
  by (induction xs arbitrary: s) (auto simp: result_simps)

lemma try_fold_Inl: "try_fold f s xs = Inl e \<Longrightarrow> \<exists>u x. x \<in> set xs \<and> f u x = Inl e"
  by (induction xs arbitrary: s) (fastforce simp: result_simps)+

lemma map_all_Inr: "(\<And>x. x \<in> set xs \<Longrightarrow> \<exists>y. f x = Inr y) \<Longrightarrow> \<exists>ys. map f xs = map Inr ys"
proof (induction xs)
  case (Cons x xs)
  then obtain y ys where "f x = Inr y" "map f xs = map Inr ys" by fastforce
  then show ?case by (intro exI [of _ "y # ys"]) simp
qed simp

lemma try_fold_cong:
  assumes "\<And>s x. x \<in> set xs \<Longrightarrow> f s x = g s x"
  shows "try_fold f s xs = try_fold g s xs"
  using assms
proof (induction xs arbitrary: s)
  case (Cons x xs)
  then show ?case by (cases "g s x") auto
qed simp

text \<open>A loop without state that stops at the first error.\<close>

definition try_each :: "('a \<Rightarrow> 'e + unit) \<Rightarrow> 'a list \<Rightarrow> 'e + unit" where
  "try_each f xs = try_fold (\<lambda>_. f) () xs"

lemma try_each_simps [simp]:
  "try_each f [] = Inr ()" "try_each f (x # xs) = rbind (f x) (\<lambda>_. try_each f xs)"
  by (simp_all add: try_each_def)

lemma try_each_append: "try_each f (xs @ ys) = rbind (try_each f xs) (\<lambda>_. try_each f ys)"
  by (simp add: try_each_def try_fold_append)

lemma try_each_Inr: "try_each f xs = Inr u \<longleftrightarrow> (\<forall>x\<in>set xs. f x = Inr ())"
  by (induction xs) (auto simp: result_simps)

lemma try_fold_concat: "try_fold (\<lambda>s x. try_fold f s (g x)) s xs = try_fold f s (concat (map g xs))"
  by (induction xs arbitrary: s) (simp_all add: try_fold_append)

lemma try_fold_single: "try_fold f s [x] = f s x"
  by (cases "f s x") simp_all

lemma try_fold_map: "try_fold f s (map g xs) = try_fold (\<lambda>s x. f s (g x)) s xs"
  by (induction xs arbitrary: s) simp_all

section \<open>Checked arithmetic\<close>

definition checked_add :: "'a::len word \<Rightarrow> 'a word \<Rightarrow> 'a word option" where
  "checked_add a b = (if a \<le> a + b then Some (a + b) else None)"

definition checked_sub :: "'a::len word \<Rightarrow> 'a word \<Rightarrow> 'a word option" where
  "checked_sub a b = (if b \<le> a then Some (a - b) else None)"

definition saturating_add :: "'a::len word \<Rightarrow> 'a word \<Rightarrow> 'a word" where
  "saturating_add a b = (if a \<le> a + b then a + b else - 1)"

text \<open>\<open>x << n\<close> of a release build masks the shift amount to the width.\<close>

definition shl64 :: "u64 \<Rightarrow> u32 \<Rightarrow> u64" where
  "shl64 x n = push_bit (unat n mod 64) x"

definition usize_max :: nat where
  "usize_max = 2 ^ 64 - 1"

definition usize_add :: "nat \<Rightarrow> nat \<Rightarrow> nat option" where
  "usize_add a b = (if a + b \<le> usize_max then Some (a + b) else None)"

definition usize_mul :: "nat \<Rightarrow> nat \<Rightarrow> nat option" where
  "usize_mul a b = (if a * b \<le> usize_max then Some (a * b) else None)"

lemma no_overflow_iff: "(a \<le> a + b) \<longleftrightarrow> unat a + unat b < 2 ^ LENGTH('a)"
  for a b :: "'a::len word"
proof
  assume le: "a \<le> a + b"
  show "unat a + unat b < 2 ^ LENGTH('a)"
  proof (rule ccontr)
    assume "\<not> ?thesis"
    then have ge: "2 ^ LENGTH('a) \<le> unat a + unat b" by simp
    obtain d where d: "unat a + unat b = 2 ^ LENGTH('a) + d"
      using ge by (auto simp: le_iff_add)
    have lt: "unat a < 2 ^ LENGTH('a)" "unat b < 2 ^ LENGTH('a)"
      by (rule unsigned_less)+
    have "unat (a + b) = (2 ^ LENGTH('a) + d) mod 2 ^ LENGTH('a)"
      by (simp only: unat_word_ariths d)
    also have "\<dots> = d"
    proof -
      have "d < 2 ^ LENGTH('a)" using d lt by linarith
      then show ?thesis by simp
    qed
    finally have "unat (a + b) < unat a" using d lt by linarith
    with le show False by (simp add: word_le_nat_alt)
  qed
next
  assume "unat a + unat b < 2 ^ LENGTH('a)"
  then have "unat (a + b) = unat a + unat b" by (simp add: unat_word_ariths)
  then show "a \<le> a + b" by (simp add: word_le_nat_alt)
qed

lemma checked_add_eq_Some [checked_simps]:
  "checked_add a b = Some c \<longleftrightarrow> unat c = unat a + unat b"
  for a b c :: "'a::len word"
proof
  assume "checked_add a b = Some c"
  then show "unat c = unat a + unat b"
    by (auto simp: checked_add_def no_overflow_iff unat_word_ariths split: if_splits)
next
  assume eq: "unat c = unat a + unat b"
  have "unat c < 2 ^ LENGTH('a)" by (rule unsigned_less)
  with eq have lt: "unat a + unat b < 2 ^ LENGTH('a)" by simp
  then have "unat (a + b) = unat c" using eq by (simp add: unat_word_ariths)
  then have "a + b = c" by (rule word_unat_eq_iff [THEN iffD2])
  moreover from lt have "a \<le> a + b" by (rule no_overflow_iff [THEN iffD2])
  ultimately show "checked_add a b = Some c" by (simp add: checked_add_def)
qed

lemma checked_add_eq_None [checked_simps]:
  "checked_add a b = None \<longleftrightarrow> 2 ^ LENGTH('a) \<le> unat a + unat b"
  for a b :: "'a::len word"
  by (auto simp: checked_add_def no_overflow_iff)

lemma unat_u64_less: "unat (w :: u64) < 2 ^ 64"
  using unsigned_less [of w, where 'a = nat] by simp

lemma unat_u32_less: "unat (w :: u32) < 2 ^ 32"
  using unsigned_less [of w, where 'a = nat] by simp

lemma unat_Suc_word: "unat w + 1 < 2 ^ LENGTH('a) \<Longrightarrow> unat (w + 1) = Suc (unat w)"
  for w :: "'a::len word"
  using unat_add_lem [of w 1] by (simp add: unat_word_ariths)

lemma unat_u8_less: "unat (w :: u8) < 2 ^ 8"
  using unsigned_less [of w, where 'a = nat] by simp

lemma unat_ucast_up: "LENGTH('a) \<le> LENGTH('b) \<Longrightarrow> unat (ucast w :: 'b::len word) = unat w"
  for w :: "'a::len word"
proof -
  assume le: "LENGTH('a) \<le> LENGTH('b)"
  have "unat w < 2 ^ LENGTH('a)" by (rule unsigned_less)
  also have "(2::nat) ^ LENGTH('a) \<le> 2 ^ LENGTH('b)" using le by simp
  finally show ?thesis by (simp add: unsigned_ucast_eq take_bit_nat_eq_self)
qed

lemma checked_add_u64_Some:
  "unat a + unat b < 2 ^ 64 \<Longrightarrow> \<exists>c. checked_add a b = Some c" for a b :: u64
  by (simp add: checked_add_def no_overflow_iff)

lemma checked_sub_eq_Some [checked_simps]:
  "checked_sub a b = Some c \<longleftrightarrow> unat b \<le> unat a \<and> unat c = unat a - unat b"
  for a b c :: "'a::len word"
  by (auto simp: checked_sub_def unat_sub word_le_nat_alt word_unat_eq_iff)

lemma checked_sub_eq_None [checked_simps]:
  "checked_sub a b = None \<longleftrightarrow> unat a < unat b"
  for a b :: "'a::len word"
  by (auto simp: checked_sub_def word_le_nat_alt)

lemma usize_add_eq_Some [checked_simps]:
  "usize_add a b = Some c \<longleftrightarrow> c = a + b \<and> a + b \<le> usize_max"
  by (auto simp: usize_add_def)

text \<open>The same on integers, for evaluation.\<close>

lemma usize_max_eq: "usize_max = 0xFFFFFFFFFFFFFFFF"
  by (simp add: usize_max_def)

lemma usize_add_code [code]:
  "usize_add a b = (if int a + int b \<le> 0xFFFFFFFFFFFFFFFF then Some (a + b) else None)"
proof -
  have "int a + int b \<le> 0xFFFFFFFFFFFFFFFF \<longleftrightarrow> a + b \<le> usize_max"
    unfolding of_nat_add [symmetric] of_nat_le_numeral_iff usize_max_eq ..
  then show ?thesis by (simp add: usize_add_def)
qed

lemma usize_mul_code [code]:
  "usize_mul a b = (if int a * int b \<le> 0xFFFFFFFFFFFFFFFF then Some (a * b) else None)"
proof -
  have "int a * int b \<le> 0xFFFFFFFFFFFFFFFF \<longleftrightarrow> a * b \<le> usize_max"
    unfolding of_nat_mult [symmetric] of_nat_le_numeral_iff usize_max_eq ..
  then show ?thesis by (simp add: usize_mul_def)
qed

lemma usize_mul_eq_Some [checked_simps]:
  "usize_mul a b = Some c \<longleftrightarrow> c = a * b \<and> a * b \<le> usize_max"
  by (auto simp: usize_mul_def)

section \<open>Alignment masks\<close>

text \<open>\<open>x & !(a - 1)\<close> rounds down to a multiple of \<open>a\<close> when \<open>a\<close> is a power of two.\<close>

lemma pow2_minus_1: "(2 ^ k :: 'a::len word) - 1 = mask k"
  by (simp add: mask_eq_exp_minus_1)

lemma and_not_mask_eq: "x AND NOT (mask k) = push_bit k (drop_bit k x)"
  for x :: "'a::len word"
  by (rule bit_word_eqI) (auto simp: bit_simps)

lemma unat_and_not_mask: "unat (x AND NOT (mask k)) = unat x div 2 ^ k * 2 ^ k"
  for x :: "'a::len word"
proof -
  have "unat x div 2 ^ k * 2 ^ k \<le> unat x" by simp
  also have "\<dots> < 2 ^ LENGTH('a)" by (rule unsigned_less)
  finally have lt: "unat x div 2 ^ k * 2 ^ k < 2 ^ LENGTH('a)" .
  have "unat (x AND NOT (mask k)) = unat (push_bit k (drop_bit k x))"
    by (simp only: and_not_mask_eq)
  also have "\<dots> = take_bit LENGTH('a) (push_bit k (drop_bit k (unat x)))"
    by (simp only: unsigned_push_bit_eq unsigned_drop_bit_eq take_bit_push_bit)
      (simp add: take_bit_nat_eq_self)
  also have "\<dots> = unat x div 2 ^ k * 2 ^ k"
    using lt by (simp add: push_bit_eq_mult drop_bit_eq_div take_bit_nat_eq_self)
  finally show ?thesis .
qed

text \<open>
  The common shape of the source's \<open>align_up\<close> functions. It never goes below \<open>v\<close>,
  whatever \<open>a\<close> is; for a power of two it is the least multiple of \<open>a\<close> that is
  not below \<open>v\<close>.
\<close>

definition align_up_word :: "'a::len word \<Rightarrow> 'a word \<Rightarrow> 'a word option" where
  "align_up_word v a = map_option (\<lambda>x. x AND NOT (a - 1)) (checked_add v (a - 1))"

lemma and_not_diff: "x AND NOT m = x - (x AND m)" for x m :: "'a::len word"
proof -
  have "(x AND m) + (x AND NOT m) = x"
  proof -
    have "(x AND m) + (x AND NOT m) = (x AND m) OR (x AND NOT m)"
      by (rule disjunctive_add) (auto simp: bit_simps)
    also have "\<dots> = x" by (rule bit_word_eqI) (auto simp: bit_simps)
    finally show ?thesis .
  qed
  then show ?thesis by (metis add_diff_cancel_left')
qed

lemma align_up_word_ge: "align_up_word v a = Some x \<Longrightarrow> unat v \<le> unat x"
  for v a x :: "'a::len word"
proof -
  assume "align_up_word v a = Some x"
  then obtain y where y: "checked_add v (a - 1) = Some y" "x = y AND NOT (a - 1)"
    by (auto simp: align_up_word_def)
  have uy: "unat y = unat v + unat (a - 1)" using y(1) by (simp add: checked_simps)
  have "y AND (a - 1) \<le> y" "y AND (a - 1) \<le> a - 1" by (simp_all add: word_and_le1 word_and_le2)
  then have "unat x = unat y - unat (y AND (a - 1))" "unat (y AND (a - 1)) \<le> unat (a - 1)"
    using y(2) by (simp_all add: and_not_diff unat_sub word_le_nat_alt)
  with uy show ?thesis by simp
qed

lemma unat_pow2: "k < LENGTH('a) \<Longrightarrow> unat (2 ^ k :: 'a::len word) = 2 ^ k"
  using unat_of_nat [of "2 ^ k", where 'a = 'a] by simp

lemma unat_mask_eq: "k \<le> LENGTH('a) \<Longrightarrow> unat (mask k :: 'a::len word) = 2 ^ k - 1"
proof -
  assume k: "k \<le> LENGTH('a)"
  then have "(2::nat) ^ k \<le> 2 ^ LENGTH('a)" by (simp add: power_increasing)
  moreover have "(1::nat) \<le> 2 ^ k" by simp
  ultimately have lt: "(2::nat) ^ k - 1 < 2 ^ LENGTH('a)" by linarith
  have "(mask k :: 'a word) = word_of_nat (2 ^ k - 1)"
    by (simp add: mask_eq_exp_minus_1 of_nat_diff)
  then have "unat (mask k :: 'a word) = (2 ^ k - 1) mod 2 ^ LENGTH('a)"
    by (simp only: unat_of_nat)
  with lt show ?thesis by simp
qed

lemma align_up_word_pow2:
  fixes v :: "'a::len word"
  assumes "k < LENGTH('a)"
  shows "align_up_word v (2 ^ k) =
    (if unat v + (2 ^ k - 1) < 2 ^ LENGTH('a)
     then Some (word_of_nat ((unat v + (2 ^ k - 1)) div 2 ^ k * 2 ^ k)) else None)"
proof -
  have m: "(2 ^ k :: 'a word) - 1 = mask k" by (rule pow2_minus_1)
  have um: "unat (mask k :: 'a word) = 2 ^ k - 1" using assms by (simp add: unat_mask_eq)
  show ?thesis
  proof (cases "unat v + (2 ^ k - 1) < 2 ^ LENGTH('a)")
    case True
    then have "checked_add v (mask k) = Some (v + mask k)"
      by (simp add: checked_simps um unat_word_ariths)
    moreover have "unat ((v + mask k) AND NOT (mask k)) = (unat v + (2 ^ k - 1)) div 2 ^ k * 2 ^ k"
      using True by (simp add: unat_and_not_mask unat_word_ariths um)
    then have "(v + mask k) AND NOT (mask k)
        = word_of_nat ((unat v + (2 ^ k - 1)) div 2 ^ k * 2 ^ k)"
      by (metis of_nat_unat ucast_id)
    ultimately show ?thesis using True by (simp add: align_up_word_def m)
  next
    case False
    then have "checked_add v (mask k) = None" by (simp add: checked_simps um)
    with False show ?thesis by (simp add: align_up_word_def m)
  qed
qed

lemma round_up_nat_least:
  fixes v a g :: nat
  assumes "0 < a" and "a dvd g" and "v \<le> g"
  shows "(v + (a - 1)) div a * a \<le> g"
proof -
  obtain q where q: "g = a * q" using assms(2) by (rule dvdE)
  have "(v + (a - 1)) div a \<le> (a * q + (a - 1)) div a"
    using assms(3) q by (intro div_le_mono) simp
  also have "\<dots> = q"
  proof -
    have "(a * q + r) div a = q" if "r < a" for r using that by simp
    then show ?thesis using assms(1) by (metis diff_less zero_less_one)
  qed
  finally have "(v + (a - 1)) div a * a \<le> q * a" by (rule mult_le_mono1)
  then show ?thesis unfolding q by (simp only: mult.commute)
qed

lemma round_up_nat_ge: "0 < a \<Longrightarrow> v \<le> (v + (a - 1)) div a * a" for v a :: nat
proof -
  assume a: "0 < a"
  have "(v + (a - 1)) mod a \<le> a - 1" using a by (metis Suc_pred' less_Suc_eq_le mod_less_divisor)
  then show ?thesis using div_mult_mod_eq [of "v + (a - 1)" a] by linarith
qed

lemma align_up_word_pow2_Some:
  fixes v x :: "'a::len word"
  assumes "align_up_word v (2 ^ k) = Some x" and "k < LENGTH('a)"
  shows "unat x = (unat v + (2 ^ k - 1)) div 2 ^ k * 2 ^ k" and "2 ^ k dvd unat x"
    and "unat x < unat v + 2 ^ k"
proof -
  let ?r = "(unat v + (2 ^ k - 1)) div 2 ^ k * 2 ^ k"
  from assms have lt: "unat v + (2 ^ k - 1) < 2 ^ LENGTH('a)" and x: "x = word_of_nat ?r"
    by (simp_all add: align_up_word_pow2 split: if_splits)
  have le: "?r \<le> unat v + (2 ^ k - 1)" by simp
  with lt have "?r < 2 ^ LENGTH('a)" by linarith
  then show eq: "unat x = ?r"
    unfolding x by (simp only: unat_of_nat mod_less)
  show "2 ^ k dvd unat x" by (simp add: eq)
  have "(1::nat) \<le> 2 ^ k" by simp
  with le show "unat x < unat v + 2 ^ k" unfolding eq by linarith
qed

section \<open>Byte strings\<close>

text \<open>Little-endian and big-endian encodings of a word in \<open>n\<close> bytes, and their decoders.\<close>

fun le_bytes :: "nat \<Rightarrow> 'a::len word \<Rightarrow> bytes" where
  "le_bytes 0 w = []"
| "le_bytes (Suc n) w = ucast w # le_bytes n (drop_bit 8 w)"

definition be_bytes :: "nat \<Rightarrow> 'a::len word \<Rightarrow> bytes" where
  "be_bytes n w = rev (le_bytes n w)"

fun from_le :: "bytes \<Rightarrow> 'a::len word" where
  "from_le [] = 0"
| "from_le (b # bs) = ucast b OR push_bit 8 (from_le bs)"

definition from_be :: "bytes \<Rightarrow> 'a::len word" where
  "from_be bs = from_le (rev bs)"

lemma length_le_bytes [simp]: "length (le_bytes n w) = n"
  by (induction n arbitrary: w) simp_all

lemma length_be_bytes [simp]: "length (be_bytes n w) = n"
  by (simp add: be_bytes_def)

lemma from_le_le_bytes: "from_le (le_bytes n w) = take_bit (8 * n) w"
  for w :: "'a::len word"
proof (induction n arbitrary: w)
  case (Suc n)
  show ?case
    by (rule bit_word_eqI) (auto simp: Suc bit_simps bit_ucast_iff)
qed simp

lemma from_le_le_bytes_full: "LENGTH('a) \<le> 8 * n \<Longrightarrow> from_le (le_bytes n w) = w"
  for w :: "'a::len word"
  by (simp add: from_le_le_bytes take_bit_word_eq_self)

lemma from_be_be_bytes_full: "LENGTH('a) \<le> 8 * n \<Longrightarrow> from_be (be_bytes n w) = w"
  for w :: "'a::len word"
  by (simp add: from_be_def be_bytes_def from_le_le_bytes_full)

lemma from_le_append:
  "from_le (xs @ ys) = (from_le xs OR push_bit (8 * length xs) (from_le ys) :: 'a::len word)"
  by (induction xs) (auto simp: push_bit_or bit_simps or.assoc add.commute push_bit_push_bit)

lemma from_be_append:
  "from_be (xs @ ys) = (push_bit (8 * length ys) (from_be xs) OR from_be ys :: 'a::len word)"
  by (simp add: from_be_def from_le_append or.commute)

text \<open>The same by arithmetic, for evaluation.\<close>

lemma from_le_code [code]: "from_le bs = word_of_int (foldr (\<lambda>b a. uint b + 256 * a) bs 0)"
proof (induction bs)
  case (Cons b bs)
  let ?a = "foldr (\<lambda>b a. uint b + 256 * a) bs 0"
  have "\<not> bit (ucast b :: 'a word) i \<or> \<not> bit (push_bit 8 (word_of_int ?a) :: 'a word) i" for i
    by (auto simp: bit_simps dest: bit_imp_le_length)
  then have "(ucast b OR push_bit 8 (word_of_int ?a) :: 'a word) = ucast b + push_bit 8 (word_of_int ?a)"
    by (simp add: disjunctive_add)
  then show ?case
    unfolding from_le.simps Cons by (simp add: push_bit_eq_mult mult.commute)
qed simp

lemma bit_from_le: "bit (from_le bs :: 'a::len word) i \<longleftrightarrow>
   i < LENGTH('a) \<and> i div 8 < length bs \<and> bit (bs ! (i div 8)) (i mod 8)"
proof (induction bs arbitrary: i)
  case (Cons b bs)
  show ?case
  proof (cases "i < 8")
    case True
    then show ?thesis by (auto simp: bit_simps)
  next
    case False
    then obtain j where j: "i = 8 + j" by (metis le_iff_add not_less)
    have "\<not> bit b i" using False by (auto dest: bit_imp_le_length)
    moreover have "(8 + j) div 8 = Suc (j div 8)" by simp
    ultimately show ?thesis by (auto simp: bit_simps Cons.IH j)
  qed
qed simp

lemma ucast_from_le:
  "8 * length bs \<le> LENGTH('a) \<Longrightarrow> LENGTH('a) \<le> LENGTH('b) \<Longrightarrow>
    (ucast (from_le bs :: 'a::len word) :: 'b::len word) = from_le bs"
  by (rule bit_word_eqI) (auto simp: bit_simps bit_from_le)

lemma ucast_from_be:
  "8 * length bs \<le> LENGTH('a) \<Longrightarrow> LENGTH('a) \<le> LENGTH('b) \<Longrightarrow>
    (ucast (from_be bs :: 'a::len word) :: 'b::len word) = from_be bs"
  by (simp add: from_be_def ucast_from_le)

lemma from_be_be_bytes: "from_be (be_bytes n w) = take_bit (8 * n) w"
  by (simp add: from_be_def be_bytes_def from_le_le_bytes)

lemma from_be_Nil [simp]: "from_be [] = 0"
  by (simp add: from_be_def)

section \<open>Slices\<close>

text \<open>\<open>s.get(a..b)\<close>: \<open>None\<close> when the range does not lie in the slice.\<close>

definition get_range :: "'a list \<Rightarrow> nat \<Rightarrow> nat \<Rightarrow> 'a list option" where
  "get_range xs a b = (if a \<le> b \<and> b \<le> length xs then Some (take (b - a) (drop a xs)) else None)"

text \<open>\<open>s[p..p + n].copy_from_slice(ys)\<close> for a range known to be in bounds.\<close>

definition copy_at :: "'a list \<Rightarrow> nat \<Rightarrow> 'a list \<Rightarrow> 'a list" where
  "copy_at xs p ys = take p xs @ ys @ drop (p + length ys) xs"

text \<open>\<open>iter().position(p)\<close>.\<close>

fun position :: "('a \<Rightarrow> bool) \<Rightarrow> 'a list \<Rightarrow> nat option" where
  "position p [] = None"
| "position p (x # xs) = (if p x then Some 0 else map_option Suc (position p xs))"

lemma get_range_eq_Some [checked_simps]:
  "get_range xs a b = Some ys \<longleftrightarrow> a \<le> b \<and> b \<le> length xs \<and> ys = take (b - a) (drop a xs)"
  by (auto simp: get_range_def)

lemma length_copy_at [simp]: "p + length ys \<le> length xs \<Longrightarrow> length (copy_at xs p ys) = length xs"
  by (simp add: copy_at_def)

lemma take_drop_copy_at:
  "p + length ys \<le> length xs \<Longrightarrow> take (length ys) (drop p (copy_at xs p ys)) = ys"
  by (simp add: copy_at_def)

lemma copy_at_disjoint_before:
  "a + n \<le> p \<Longrightarrow> p \<le> length xs \<Longrightarrow> take n (drop a (copy_at xs p ys)) = take n (drop a xs)"
  by (simp add: copy_at_def take_drop min_def)

lemma copy_at_disjoint_after:
  "p + length ys \<le> a \<Longrightarrow> p + length ys \<le> length xs \<Longrightarrow>
    take n (drop a (copy_at xs p ys)) = take n (drop a xs)"
  by (simp add: copy_at_def)

lemma position_Some_iff:
  "position p xs = Some i \<longleftrightarrow> i < length xs \<and> p (xs ! i) \<and> (\<forall>j<i. \<not> p (xs ! j))"
proof (induction xs arbitrary: i)
  case (Cons x xs)
  show ?case
    by (cases i) (auto simp: Cons.IH nth_Cons less_Suc_eq_0_disj split: nat.splits)
qed simp

lemma position_None_iff: "position p xs = None \<longleftrightarrow> (\<forall>x\<in>set xs. \<not> p x)"
  by (induction xs) auto

lemma concat_slice:
  assumes "\<And>x. x \<in> set xs \<Longrightarrow> length (f x) = k" and "i < length xs"
  shows "take k (drop (i * k) (concat (map f xs))) = f (xs ! i)"
  using assms
proof (induction xs arbitrary: i)
  case (Cons x xs)
  then have k: "length (f x) = k" by simp
  show ?case
  proof (cases i)
    case 0
    then show ?thesis using k by simp
  next
    case (Suc j)
    with Cons k show ?thesis by simp
  qed
qed simp

lemma length_concat_map:
  "(\<And>x. x \<in> set xs \<Longrightarrow> length (f x) = k) \<Longrightarrow> length (concat (map f xs)) = length xs * k"
  by (induction xs) simp_all

end
