(* ===== verification/Planner.thy ===== *)
theory Planner
  imports Prelude
begin

text \<open>
  The guest-physical address planner of \<open>arma\<close> (\<open>src/src/planner.rs\<close>): the
  carve-outs, the greedy first-fit search, the placement order and the device band. The
  section on the interface \<open>slot_allocator\<close> states what a placement strategy promises its
  client and proves once what a sequence of placements then keeps; \<open>first_fit\<close> is its
  implementation.
\<close>

section \<open>Data\<close>

record gpa_range =
  rstart :: u64
  rend :: u64

definition mk_range :: "u64 \<Rightarrow> u64 \<Rightarrow> gpa_range" where
  "mk_range a b = \<lparr>rstart = a, rend = b\<rparr>"

definition GRAN :: u64 where "GRAN = 2 * 1024 * 1024"
definition SERIAL_SIZE :: u64 where "SERIAL_SIZE = 0x1000"
definition VIRTIO_SIZE :: u64 where "VIRTIO_SIZE = 0x200"
definition ECAM_PER_BUS :: u64 where "ECAM_PER_BUS = 0x100000"
definition ECAM_BUSES :: u64 where "ECAM_BUSES = 16"
definition ECAM_SIZE :: u64 where "ECAM_SIZE = ECAM_BUSES * ECAM_PER_BUS"

record args_spec =
  a_serial :: bool
  a_mmio_slots :: u32
  a_pci_slots :: u32
  a_window_bits :: u32
  a_addr_space_bits :: u32

record kernel_spec =
  k_size :: u64
  k_align :: u64
  k_min_gpa :: u64

record planner =
  p_args :: args_spec
  p_reserved :: "gpa_range list"
  p_kernel :: kernel_spec
  p_initrd_size :: "u64 option"
  p_bootconfig :: bool
  p_relocs_size :: "u64 option"

record layout =
  l_serial :: "gpa_range option"
  l_virtio :: "gpa_range list"
  l_ecam :: "gpa_range option"
  l_pci_window :: "gpa_range option"
  l_linux :: gpa_range
  l_initrd :: "gpa_range option"
  l_bootconfig :: "gpa_range option"
  l_relocs :: "gpa_range option"

datatype plan_error =
    DoesNotFit string u64
  | WindowTooLarge u32 u32
  | PlanOverflow

section \<open>Rounding and the first-fit search\<close>

definition align_up :: "u64 \<Rightarrow> u64 \<Rightarrow> u64 option" where
  "align_up v a = map_option (\<lambda>x. x AND NOT (a - 1)) (checked_add v (a - 1))"

definition round_out :: "gpa_range \<Rightarrow> gpa_range" where
  "round_out r =
     mk_range (rstart r AND NOT (GRAN - 1)) ((rend r + (GRAN - 1)) AND NOT (GRAN - 1))"

definition round_up :: "u64 \<Rightarrow> u64 \<Rightarrow> u64" where
  "round_up v a = (v + (a - 1)) AND NOT (a - 1)"

text \<open>The test \<open>r.start < end && g < r.end\<close> of the search and of the band check.\<close>

definition overlaps :: "gpa_range \<Rightarrow> u64 \<Rightarrow> u64 \<Rightarrow> bool" where
  "overlaps r g e \<longleftrightarrow> rstart r < e \<and> g < rend r"

lemma align_up_eq_word: "align_up = align_up_word"
  by (simp add: fun_eq_iff align_up_def align_up_word_def)

lemma align_up_dvd: "align_up v (2 ^ k) = Some x \<Longrightarrow> k < 64 \<Longrightarrow> 2 ^ k dvd unat x"
  using align_up_word_pow2_Some(2) [of v k x] by (simp add: align_up_eq_word)

lemma align_up_ge: "align_up v a = Some x \<Longrightarrow> unat v \<le> unat x"
  by (simp add: align_up_eq_word align_up_word_ge)

text \<open>
  The search loop. Every hop moves strictly up, past the end of the conflicting carve-out, so
  the loop ends after at most one iteration per address; no assumption on \<open>align\<close> is
  needed for that.
\<close>

function first_fit_loop ::
  "string \<Rightarrow> gpa_range list \<Rightarrow> u64 \<Rightarrow> u64 \<Rightarrow> u64 \<Rightarrow> plan_error + gpa_range" where
  "first_fit_loop region sorted_occ sz align g =
     (case checked_add g sz of
        None \<Rightarrow> Inl PlanOverflow
      | Some e \<Rightarrow>
          (case find (\<lambda>r. overlaps r g e) sorted_occ of
             None \<Rightarrow> Inr (mk_range g e)
           | Some c \<Rightarrow>
               (case align_up (rend c) align of
                  None \<Rightarrow> Inl PlanOverflow
                | Some g' \<Rightarrow>
                    if g' = - 1 then Inl (DoesNotFit region sz)
                    else first_fit_loop region sorted_occ sz align g')))"
  by pat_completeness auto
termination
proof (relation "measure (\<lambda>(_, _, _, _, g). 2 ^ 64 - unat g)", goal_cases)
  case (2 region sorted_occ sz align g e c g')
  from 2(2) have "overlaps c g e" by (auto simp: find_Some_iff)
  then have "unat g < unat (rend c)" by (simp add: overlaps_def word_less_nat_alt)
  also have "unat (rend c) \<le> unat g'" using 2(3) by (rule align_up_ge)
  finally have "unat g < unat g'" .
  moreover have "unat g' < 2 ^ 64" using unsigned_less [of g'] by simp
  ultimately show ?case by simp
qed simp

declare first_fit_loop.simps [simp del]

definition first_fit ::
  "u64 \<Rightarrow> u64 \<Rightarrow> u64 \<Rightarrow> gpa_range list \<Rightarrow> string \<Rightarrow> plan_error + gpa_range" where
  "first_fit start sz align occupied region =
     (let sorted_occ = sort_key rstart (filter (\<lambda>r. rend r > rstart r) occupied)
      in rbind (ok_or PlanOverflow (align_up start align))
           (\<lambda>g. first_fit_loop region sorted_occ sz align g))"

section \<open>The device band\<close>

definition band_geometry :: "args_spec \<Rightarrow> u64 \<times> u64" where
  "band_geometry a =
     (let size0 = (if a_pci_slots a > 0 then ECAM_SIZE else 0);
          size1 = (if a_serial a then size0 + SERIAL_SIZE else size0);
          sz = size1 + ucast (a_mmio_slots a) * VIRTIO_SIZE
      in if sz = 0 then (0, GRAN) else (round_up sz GRAN, GRAN))"

fun carve_virtio :: "nat \<Rightarrow> u64 \<Rightarrow> gpa_range list" where
  "carve_virtio 0 cur = []"
| "carve_virtio (Suc n) cur = mk_range cur (cur + VIRTIO_SIZE) # carve_virtio n (cur + VIRTIO_SIZE)"

definition carve_band ::
  "args_spec \<Rightarrow> u64 \<Rightarrow> gpa_range option \<times> gpa_range list \<times> gpa_range option" where
  "carve_band a base =
     (let (ecam, cur1) = (if a_pci_slots a > 0
            then (Some (mk_range base (base + ECAM_SIZE)), base + ECAM_SIZE) else (None, base));
          (serial, cur2) = (if a_serial a
            then (Some (mk_range cur1 (cur1 + SERIAL_SIZE)), cur1 + SERIAL_SIZE) else (None, cur1))
      in (serial, carve_virtio (unat (a_mmio_slots a)) cur2, ecam))"

section \<open>The plan\<close>

text \<open>
  \<open>Planner::plan\<close>, one definition per numbered step of the source. Each step returns what
  it placed; \<open>plan\<close> threads the list \<open>occupied\<close> through them in the source's order.
\<close>

definition plan_window :: "args_spec \<Rightarrow> plan_error + gpa_range option" where
  "plan_window args =
     (if a_pci_slots args > 0 then
        let a = a_addr_space_bits args; b = a_window_bits args
        in if b + 2 > a then Inl (WindowTooLarge b a)
           else let base = shl64 1 (a - 1); sz = shl64 1 b
                in Inr (Some (mk_range base (base + sz)))
      else Inr None)"

definition plan_kernel :: "kernel_spec \<Rightarrow> gpa_range list \<Rightarrow> plan_error + gpa_range" where
  "plan_kernel k occupied =
     first_fit (k_min_gpa k) (k_size k) (max (k_align k) GRAN) occupied ''kernel''"

text \<open>The archive, its fill and the carve-out that covers both.\<close>

definition plan_initrd ::
  "u64 option \<Rightarrow> bool \<Rightarrow> gpa_range list \<Rightarrow>
    plan_error + (gpa_range option \<times> gpa_range option \<times> gpa_range list)" where
  "plan_initrd initrd_size bootconfig occupied =
     (case initrd_size of
        Some sz \<Rightarrow>
          if sz > 0 then
            rbind (ok_or PlanOverflow (align_up sz GRAN)) (\<lambda>archive_size.
            rbind (ok_or PlanOverflow (checked_add archive_size (if bootconfig then GRAN else 0)))
              (\<lambda>total.
            rbind (first_fit 0 total GRAN occupied ''initrd + bootconfig'') (\<lambda>r.
            let archive_end = rstart r + archive_size
            in Inr (Some (mk_range (rstart r) archive_end),
                    (if bootconfig then Some (mk_range archive_end (rend r)) else None),
                    [round_out r]))))
          else Inr (None, None, [])
      | None \<Rightarrow> Inr (None, None, []))"

definition plan_relocs :: "u64 option \<Rightarrow> gpa_range list \<Rightarrow> plan_error + gpa_range option" where
  "plan_relocs relocs_size occupied =
     (case relocs_size of
        Some sz \<Rightarrow>
          if sz > 0 then rbind (first_fit 0 sz GRAN occupied ''relocs'') (\<lambda>r. Inr (Some r))
          else Inr None
      | None \<Rightarrow> Inr None)"

definition plan_band ::
  "args_spec \<Rightarrow> gpa_range list \<Rightarrow>
    plan_error + (gpa_range option \<times> gpa_range list \<times> gpa_range option)" where
  "plan_band args occupied =
     (let band_size = fst (band_geometry args)
      in if band_size > 0 then
           let high_floor = shl64 1 (a_addr_space_bits args - 1)
           in rbind (ok_or PlanOverflow (checked_sub high_floor band_size)) (\<lambda>band_start.
              if \<exists>r \<in> set occupied. overlaps r band_start high_floor
              then Inl (DoesNotFit ''device band'' band_size)
              else Inr (carve_band args band_start))
         else Inr (None, [], None))"

definition opt_list :: "'a option \<Rightarrow> 'a list" where
  "opt_list m = (case m of None \<Rightarrow> [] | Some x \<Rightarrow> [x])"

definition plan :: "planner \<Rightarrow> plan_error + layout" where
  "plan p =
     (let occupied0 = map round_out (p_reserved p)
      in rbind (plan_window (p_args p)) (\<lambda>pci_window.
         let occupied1 = occupied0 @ map round_out (opt_list pci_window)
         in rbind (plan_kernel (p_kernel p) occupied1) (\<lambda>linux.
         let occupied2 = occupied1 @ [round_out linux]
         in rbind (plan_initrd (p_initrd_size p) (p_bootconfig p) occupied2)
              (\<lambda>(initrd, bootconfig, carved).
         let occupied3 = occupied2 @ carved
         in rbind (plan_relocs (p_relocs_size p) occupied3) (\<lambda>relocs.
         let occupied4 = occupied3 @ map round_out (opt_list relocs)
         in rbind (plan_band (p_args p) occupied4) (\<lambda>(serial, virtio, ecam).
         Inr \<lparr>l_serial = serial, l_virtio = virtio, l_ecam = ecam, l_pci_window = pci_window,
              l_linux = linux, l_initrd = initrd, l_bootconfig = bootconfig,
              l_relocs = relocs\<rparr>))))))"

section \<open>Address sets\<close>

definition cells :: "gpa_range \<Rightarrow> nat set" where
  "cells r = {unat (rstart r)..<unat (rend r)}"

definition apart :: "gpa_range \<Rightarrow> gpa_range \<Rightarrow> bool" where
  "apart r s \<longleftrightarrow> cells r \<inter> cells s = {}"

definition clear_of :: "gpa_range \<Rightarrow> gpa_range list \<Rightarrow> bool" where
  "clear_of r occ \<longleftrightarrow> (\<forall>s \<in> set occ. apart r s)"

lemma mk_range_sel [simp]: "rstart (mk_range a b) = a" "rend (mk_range a b) = b"
  by (simp_all add: mk_range_def)

lemma apart_sym: "apart r s = apart s r"
  by (simp add: apart_def Int_commute)

lemma apart_mono: "apart r s \<Longrightarrow> cells r' \<subseteq> cells r \<Longrightarrow> cells s' \<subseteq> cells s \<Longrightarrow> apart r' s'"
  by (auto simp: apart_def)

lemma clear_of_append [simp]: "clear_of r (xs @ ys) \<longleftrightarrow> clear_of r xs \<and> clear_of r ys"
  by (auto simp: clear_of_def)

lemma clear_of_Nil [simp]: "clear_of r []"
  by (simp add: clear_of_def)

lemma clear_of_Cons [simp]: "clear_of r (s # ss) \<longleftrightarrow> apart r s \<and> clear_of r ss"
  by (simp add: clear_of_def)

lemma not_overlaps_apart: "\<not> overlaps s (rstart r) (rend r) \<Longrightarrow> apart r s"
  by (auto simp: overlaps_def apart_def cells_def word_less_nat_alt)

lemma apart_not_overlaps:
  assumes "apart r s" and "rstart r < rend r" and "rstart s < rend s"
  shows "\<not> overlaps s (rstart r) (rend r)"
proof
  assume "overlaps s (rstart r) (rend r)"
  then have "max (unat (rstart r)) (unat (rstart s)) \<in> cells r \<inter> cells s"
    using assms(2,3) by (auto simp: overlaps_def cells_def word_less_nat_alt)
  with assms(1) show False by (auto simp: apart_def)
qed

section \<open>What the search loop returns\<close>

lemma first_fit_loop_Inr:
  assumes "first_fit_loop region occ sz al g = Inr r"
  shows "unat (rend r) = unat (rstart r) + unat sz \<and>
    (\<forall>s \<in> set occ. \<not> overlaps s (rstart r) (rend r)) \<and>
    (rstart r = g \<or> (\<exists>c \<in> set occ. align_up (rend c) al = Some (rstart r)))"
  using assms
proof (induction region occ sz al g rule: first_fit_loop.induct)
  case (1 region occ sz al g)
  from "1.prems" obtain e where e: "checked_add g sz = Some e"
    by (subst (asm) first_fit_loop.simps) (auto split: option.splits)
  show ?case
  proof (cases "find (\<lambda>r. overlaps r g e) occ")
    case None
    then have "r = mk_range g e"
      using "1.prems" e by (subst (asm) first_fit_loop.simps) simp
    with None e show ?thesis by (auto simp: checked_simps find_None_iff)
  next
    case (Some c)
    then obtain g' where g': "align_up (rend c) al = Some g'" "g' \<noteq> - 1"
      and rec: "first_fit_loop region occ sz al g' = Inr r"
      using "1.prems" e by (subst (asm) first_fit_loop.simps) (auto split: option.splits if_splits)
    have "c \<in> set occ" using Some by (auto simp: find_Some_iff)
    with "1.IH" [OF e Some g' rec] g'(1) show ?thesis by auto
  qed
qed

lemma first_fit_loop_ge:
  "first_fit_loop region occ sz al g = Inr r \<Longrightarrow> unat g \<le> unat (rstart r)"
proof (induction region occ sz al g rule: first_fit_loop.induct)
  case (1 region occ sz al g)
  from "1.prems" obtain e where e: "checked_add g sz = Some e"
    by (subst (asm) first_fit_loop.simps) (auto split: option.splits)
  show ?case
  proof (cases "find (\<lambda>r. overlaps r g e) occ")
    case None
    then show ?thesis using "1.prems" e by (subst (asm) first_fit_loop.simps) auto
  next
    case (Some c)
    then obtain g' where g': "align_up (rend c) al = Some g'" "g' \<noteq> - 1"
      and rec: "first_fit_loop region occ sz al g' = Inr r"
      using "1.prems" e by (subst (asm) first_fit_loop.simps) (auto split: option.splits if_splits)
    have "unat g \<le> unat (rend c)"
      using Some by (auto simp: find_Some_iff overlaps_def word_less_nat_alt)
    also have "\<dots> \<le> unat g'" using g'(1) by (rule align_up_ge)
    also have "\<dots> \<le> unat (rstart r)" using "1.IH" [OF e Some g' rec] .
    finally show ?thesis .
  qed
qed

lemma align_up_reaches:
  assumes "2 ^ k dvd s" and "unat v \<le> s" and "s < 2 ^ 64" and "k < 64"
  shows "\<exists>x. align_up v (2 ^ k) = Some x \<and> unat x \<le> s \<and> 2 ^ k dvd unat x"
proof -
  have "(2::nat) ^ k dvd 2 ^ 64 - s"
    using assms(1,4) by (intro dvd_diff_nat le_imp_power_dvd) simp_all
  then have "2 ^ k \<le> 2 ^ 64 - s" using assms(3) by (intro dvd_imp_le) simp_all
  then have "unat v + (2 ^ k - 1) < 2 ^ 64" using assms(2,3) by linarith
  then obtain x where x: "align_up v (2 ^ k) = Some x"
    using align_up_word_pow2 [of k v] assms(4) by (simp add: align_up_eq_word)
  then have "unat x = (unat v + (2 ^ k - 1)) div 2 ^ k * 2 ^ k" "2 ^ k dvd unat x"
    using assms(4) align_up_word_pow2_Some [of v k x] by (simp_all add: align_up_eq_word)
  moreover have "(unat v + (2 ^ k - 1)) div 2 ^ k * 2 ^ k \<le> s"
    using assms(1,2) by (intro round_up_nat_least) simp_all
  ultimately show ?thesis using x by metis
qed

lemma first_fit_loop_lowest:
  assumes "al = 2 ^ k" and "0 < k" and "k < 64" and "2 ^ k dvd unat s" and "unat g \<le> unat s"
    and "unat e = unat s + unat sz" and "\<forall>c \<in> set occ. \<not> overlaps c s e"
  shows "\<exists>r. first_fit_loop region occ sz al g = Inr r \<and> unat (rstart r) \<le> unat s"
  using assms
proof (induction region occ sz al g rule: first_fit_loop.induct)
  case (1 region occ sz al g)
  have "unat g + unat sz < 2 ^ 64"
    using "1.prems"(5,6) unat_u64_less [of e] by linarith
  then obtain ge where ge: "checked_add g sz = Some ge"
    using checked_add_u64_Some by blast
  then have ge_le: "unat ge \<le> unat e" using "1.prems"(5,6) by (simp add: checked_simps)
  show ?case
  proof (cases "find (\<lambda>r. overlaps r g ge) occ")
    case None
    then show ?thesis using ge "1.prems"(5) by (subst first_fit_loop.simps) simp
  next
    case (Some c)
    then have c: "overlaps c g ge" "c \<in> set occ" by (auto simp: find_Some_iff)
    with "1.prems"(7) ge_le have "unat (rend c) \<le> unat s"
      by (auto simp: overlaps_def word_less_nat_alt not_less)
    then obtain g' where g': "align_up (rend c) al = Some g'" "unat g' \<le> unat s" "2 ^ k dvd unat g'"
      using align_up_reaches [of k "unat s" "rend c"] "1.prems"(1,3,4) unat_u64_less [of s]
      by auto
    have "\<not> 2 ^ k dvd unat (- 1 :: u64)"
    proof
      assume "2 ^ k dvd unat (- 1 :: u64)"
      then have "2 dvd unat (- 1 :: u64)" using "1.prems"(2) by (metis dvd_power dvd_trans)
      then show False by (simp add: unsigned_minus_1_eq_mask mask_eq_exp_minus_1)
    qed
    with g'(3) have ne: "g' \<noteq> - 1" by metis
    from "1.IH" [OF ge Some g'(1) ne "1.prems"(1-4) g'(2) "1.prems"(6,7)]
    show ?thesis using ge Some g'(1) ne by (subst first_fit_loop.simps) simp
  qed
qed

section \<open>The interface of a placement strategy\<close>

text \<open>
  What \<open>plan\<close> relies on when it places a region: the slot satisfies the request, avoids
  every carve-out, and is the lowest such slot whenever there is one. The lemmas proved from
  these laws are what a planner can conclude without knowing how slots are searched.
\<close>

locale slot_allocator =
  fixes alloc :: "'q \<Rightarrow> gpa_range list \<Rightarrow> 'e + gpa_range"
    and valid :: "'q \<Rightarrow> bool"
    and fits :: "'q \<Rightarrow> gpa_range \<Rightarrow> bool"
  assumes alloc_fits: "valid q \<Longrightarrow> alloc q occ = Inr r \<Longrightarrow> fits q r"
    and alloc_clear: "alloc q occ = Inr r \<Longrightarrow> clear_of r occ"
    and alloc_lowest: "valid q \<Longrightarrow> fits q s \<Longrightarrow> clear_of s occ \<Longrightarrow>
      \<exists>r. alloc q occ = Inr r \<and> unat (rstart r) \<le> unat (rstart s)"
begin

lemma alloc_complete:
  "valid q \<Longrightarrow> (\<exists>r. alloc q occ = Inr r) \<longleftrightarrow> (\<exists>s. fits q s \<and> clear_of s occ)"
  by (meson alloc_clear alloc_fits alloc_lowest)

lemma alloc_mono:
  assumes "valid q" and "set occ \<subseteq> set occ'"
    and "alloc q occ = Inr r" and "alloc q occ' = Inr r'"
  shows "unat (rstart r) \<le> unat (rstart r')"
proof -
  have "clear_of r' occ" using alloc_clear [OF assms(4)] assms(2) by (auto simp: clear_of_def)
  with alloc_lowest [OF assms(1) alloc_fits [OF assms(1,4)]] assms(3) show ?thesis by fastforce
qed

lemma alloc_order_irrelevant:
  assumes "valid q" and "set occ = set occ'" and "alloc q occ = Inr r"
  shows "\<exists>r'. alloc q occ' = Inr r' \<and> rstart r' = rstart r"
proof -
  have "clear_of r occ'" using alloc_clear [OF assms(3)] assms(2) by (auto simp: clear_of_def)
  then obtain r' where r': "alloc q occ' = Inr r'" "unat (rstart r') \<le> unat (rstart r)"
    using alloc_lowest [OF assms(1) alloc_fits [OF assms(1,3)]] by blast
  moreover have "unat (rstart r) \<le> unat (rstart r')"
    using alloc_mono [OF assms(1) _ assms(3) r'(1)] assms(2) by simp
  ultimately show ?thesis by (auto simp: word_unat_eq_iff)
qed

end

record slot_req =
  q_start :: u64
  q_size :: u64
  q_align :: u64
  q_region :: string

definition req_alloc :: "slot_req \<Rightarrow> gpa_range list \<Rightarrow> plan_error + gpa_range" where
  "req_alloc q occ = first_fit (q_start q) (q_size q) (q_align q) occ (q_region q)"

definition req_valid :: "slot_req \<Rightarrow> bool" where
  "req_valid q \<longleftrightarrow> 0 < q_size q \<and> (\<exists>k. 0 < k \<and> k < 64 \<and> q_align q = 2 ^ k)"

definition req_fits :: "slot_req \<Rightarrow> gpa_range \<Rightarrow> bool" where
  "req_fits q r \<longleftrightarrow> unat (q_start q) \<le> unat (rstart r) \<and> unat (q_align q) dvd unat (rstart r) \<and>
     unat (rend r) = unat (rstart r) + unat (q_size q)"

lemma first_fit_Inr_iff:
  "first_fit start sz al occ region = Inr r \<longleftrightarrow>
    (\<exists>g. align_up start al = Some g \<and> first_fit_loop region
      (sort_key rstart (filter (\<lambda>r. rend r > rstart r) occ)) sz al g = Inr r)"
  by (simp add: first_fit_def result_simps Let_def)

lemma first_fit_clear:
  assumes "first_fit start sz al occ region = Inr r"
  shows "clear_of r occ"
  unfolding clear_of_def
proof
  fix s assume s: "s \<in> set occ"
  obtain g where "first_fit_loop region
      (sort_key rstart (filter (\<lambda>r. rend r > rstart r) occ)) sz al g = Inr r"
    using assms by (auto simp: first_fit_Inr_iff)
  then have *: "\<forall>s \<in> {s \<in> set occ. rstart s < rend s}. \<not> overlaps s (rstart r) (rend r)"
    by (auto dest!: first_fit_loop_Inr)
  show "apart r s"
  proof (cases "rstart s < rend s")
    case True
    with * s show ?thesis by (auto intro: not_overlaps_apart)
  next
    case False
    then show ?thesis by (auto simp: apart_def cells_def word_less_nat_alt)
  qed
qed

lemma first_fit_fits:
  assumes "first_fit start sz (2 ^ k) occ region = Inr r" and "k < 64"
  shows "unat start \<le> unat (rstart r)" and "2 ^ k dvd unat (rstart r)"
    and "unat (rend r) = unat (rstart r) + unat sz"
proof -
  let ?occ = "sort_key rstart (filter (\<lambda>r. rend r > rstart r) occ)"
  obtain g where g: "align_up start (2 ^ k) = Some g"
    and l: "first_fit_loop region ?occ sz (2 ^ k) g = Inr r"
    using assms(1) by (auto simp: first_fit_Inr_iff)
  note L = first_fit_loop_Inr [OF l]
  from L show "unat (rend r) = unat (rstart r) + unat sz" by simp
  from L consider "rstart r = g" | c :: gpa_range where "align_up (rend c) (2 ^ k) = Some (rstart r)" by blast
  then show "2 ^ k dvd unat (rstart r)"
    using g assms(2) by cases (auto intro: align_up_dvd)
  show "unat start \<le> unat (rstart r)"
    using first_fit_loop_ge [OF l] align_up_ge [OF g] by simp
qed

lemma first_fit_lowest_slot:
  assumes "0 < k" and "k < 64" and "0 < sz" and "unat start \<le> unat (rstart s)"
    and "2 ^ k dvd unat (rstart s)" and "unat (rend s) = unat (rstart s) + unat sz"
    and "clear_of s occ"
  shows "\<exists>r. first_fit start sz (2 ^ k) occ region = Inr r \<and> unat (rstart r) \<le> unat (rstart s)"
proof -
  let ?occ = "sort_key rstart (filter (\<lambda>r. rend r > rstart r) occ)"
  have ne: "rstart s < rend s" using assms(3,6) by (simp add: word_less_nat_alt)
  have free: "\<forall>c \<in> set ?occ. \<not> overlaps c (rstart s) (rend s)"
  proof
    fix c assume "c \<in> set ?occ"
    then have "c \<in> set occ" "rstart c < rend c" by simp_all
    with assms(7) ne show "\<not> overlaps c (rstart s) (rend s)"
      by (intro apart_not_overlaps) (simp_all add: clear_of_def)
  qed
  obtain g where g: "align_up start (2 ^ k) = Some g" "unat g \<le> unat (rstart s)"
    using align_up_reaches [OF assms(5,4) unat_u64_less assms(2)] by blast
  from first_fit_loop_lowest [OF refl assms(1,2,5) g(2) assms(6) free]
  show ?thesis using g(1) by (auto simp: first_fit_Inr_iff)
qed

interpretation ff: slot_allocator req_alloc req_valid req_fits
proof (unfold_locales, goal_cases)
  case (1 q occ r)
  then obtain k where k: "k < 64" "q_align q = 2 ^ k" by (auto simp: req_valid_def)
  then have "unat (q_align q) = 2 ^ k" using unat_pow2 [of k, where 'a = 64] by simp
  with k 1(2) show ?case
    using first_fit_fits [of "q_start q" "q_size q" k occ "q_region q" r]
    by (simp add: req_alloc_def req_fits_def)
next
  case (2 q occ r)
  then show ?case by (auto simp: req_alloc_def intro: first_fit_clear)
next
  case (3 q s occ)
  then obtain k where k: "0 < k" "k < 64" "q_align q = 2 ^ k" "0 < q_size q"
    by (auto simp: req_valid_def)
  then have "unat (q_align q) = 2 ^ k" using unat_pow2 [of k, where 'a = 64] by simp
  with k 3(2,3) show ?case
    using first_fit_lowest_slot [of k "q_size q" "q_start q" s occ "q_region q"]
    by (auto simp: req_alloc_def req_fits_def)
qed

section \<open>Granularity\<close>

lemma GRAN_pow2: "GRAN = 2 ^ 21" "GRAN - 1 = mask 21" "unat GRAN = 2 ^ 21"
  by (simp_all add: GRAN_def mask_eq_exp_minus_1)

definition gran_aligned :: "gpa_range \<Rightarrow> bool" where
  "gran_aligned r \<longleftrightarrow> 2 ^ 21 dvd unat (rstart r) \<and> 2 ^ 21 dvd unat (rend r)"

lemma unat_rstart_round_out: "unat (rstart (round_out r)) = unat (rstart r) div 2 ^ 21 * 2 ^ 21"
  by (simp only: round_out_def mk_range_sel GRAN_pow2(2) unat_and_not_mask)

lemma unat_rend_round_out:
  assumes "unat (rend r) + (2 ^ 21 - 1) < 2 ^ 64"
  shows "unat (rend (round_out r)) = (unat (rend r) + (2 ^ 21 - 1)) div 2 ^ 21 * 2 ^ 21"
proof -
  have m: "unat (mask 21 :: u64) = 2 ^ 21 - 1" by (simp add: unat_mask_eq)
  have "unat (rend r + mask 21) = unat (rend r) + (2 ^ 21 - 1)"
    using assms m unat_add_lem [of "rend r" "mask 21"] by simp
  then show ?thesis by (simp only: round_out_def mk_range_sel GRAN_pow2(2) unat_and_not_mask)
qed

lemma gran_aligned_round_out: "gran_aligned (round_out r)"
  by (simp only: gran_aligned_def round_out_def mk_range_sel GRAN_pow2(2) unat_and_not_mask
      dvd_triv_right simp_thms)

lemma cells_subset_round_out:
  assumes "unat (rend r) + (2 ^ 21 - 1) < 2 ^ 64"
  shows "cells r \<subseteq> cells (round_out r)"
proof -
  have "unat (rstart r) div 2 ^ 21 * 2 ^ 21 \<le> unat (rstart r)" by simp
  moreover have "unat (rend r) \<le> (unat (rend r) + (2 ^ 21 - 1)) div 2 ^ 21 * 2 ^ 21"
    by (rule round_up_nat_ge) simp
  ultimately show ?thesis
    by (auto simp: cells_def unat_rstart_round_out unat_rend_round_out [OF assms])
qed

text \<open>
  A slot that starts on a granule and is clear of carve-outs made of whole granules stays clear
  of them when it is rounded out in turn: this is why rounding every carve-out keeps two
  regions out of one 2 MiB unit.
\<close>

lemma apart_round_out:
  assumes "apart r s" and "gran_aligned s" and "2 ^ 21 dvd unat (rstart r)"
    and "unat (rend r) + (2 ^ 21 - 1) < 2 ^ 64" and "rstart r < rend r"
  shows "apart (round_out r) s"
proof (cases "rstart s < rend s")
  case True
  have "unat (rend r) \<le> unat (rstart s) \<or> unat (rend s) \<le> unat (rstart r)"
    using apart_not_overlaps [OF assms(1,5) True] by (auto simp: overlaps_def word_less_nat_alt)
  then show ?thesis
  proof
    assume "unat (rend r) \<le> unat (rstart s)"
    then have "(unat (rend r) + (2 ^ 21 - 1)) div 2 ^ 21 * 2 ^ 21 \<le> unat (rstart s)"
      using assms(2) by (intro round_up_nat_least) (simp_all add: gran_aligned_def)
    then show ?thesis
      by (auto simp: apart_def cells_def unat_rend_round_out [OF assms(4)])
  next
    assume "unat (rend s) \<le> unat (rstart r)"
    then have "unat (rend s) \<le> unat (rstart (round_out r))"
      using assms(3) by (simp add: unat_rstart_round_out)
    then show ?thesis by (auto simp: apart_def cells_def)
  qed
next
  case False
  then show ?thesis by (auto simp: apart_def cells_def word_less_nat_alt)
qed

section \<open>One placement\<close>

definition occ_ok :: "nat \<Rightarrow> gpa_range list \<Rightarrow> bool" where
  "occ_ok M occ \<longleftrightarrow> (\<forall>s \<in> set occ. gran_aligned s \<and> unat (rend s) \<le> M)"

lemma occ_ok_append [simp]: "occ_ok M (xs @ ys) \<longleftrightarrow> occ_ok M xs \<and> occ_ok M ys"
  by (auto simp: occ_ok_def)

lemma occ_ok_Nil [simp]: "occ_ok M []"
  by (simp add: occ_ok_def)

lemma occ_ok_mono: "occ_ok M occ \<Longrightarrow> M \<le> M' \<Longrightarrow> occ_ok M' occ"
  by (fastforce simp: occ_ok_def)

lemma first_fit_bounded:
  assumes "0 < k" and "k < 64" and "0 < sz" and "\<forall>s \<in> set occ. unat (rend s) \<le> M"
    and "unat start \<le> M" and "M + 2 ^ k + unat sz \<le> 2 ^ 64"
  shows "\<exists>r. first_fit start sz (2 ^ k) occ region = Inr r \<and> unat (rstart r) < M + 2 ^ k"
proof -
  define m where "m = (M + (2 ^ k - 1)) div 2 ^ k * 2 ^ k"
  have "M \<le> m" unfolding m_def by (rule round_up_nat_ge) simp
  have "m \<le> M + (2 ^ k - 1)" unfolding m_def by simp
  moreover have "(1::nat) \<le> 2 ^ k" by simp
  ultimately have m: "m < M + 2 ^ k" by linarith
  define s where "s = mk_range (word_of_nat m) (word_of_nat (m + unat sz))"
  have us: "unat (rstart s) = m" "unat (rend s) = m + unat sz"
    using m assms(6) by (simp_all add: s_def unat_of_nat del: of_nat_add)
  have "clear_of s occ"
    unfolding clear_of_def apart_def cells_def us using assms(4) \<open>M \<le> m\<close> by fastforce
  moreover have "2 ^ k dvd unat (rstart s)" unfolding us(1) by (simp add: m_def)
  ultimately obtain r where r: "first_fit start sz (2 ^ k) occ region = Inr r"
    "unat (rstart r) \<le> unat (rstart s)"
    using first_fit_lowest_slot [OF assms(1-3), of start s occ region] us \<open>M \<le> m\<close> assms(5) by auto
  with us(1) m show ?thesis by auto
qed

lemma placement:
  assumes "first_fit start sz (2 ^ k) occ region = Inr r" and "occ_ok M occ"
    and "21 \<le> k" and "k < 64" and "0 < sz" and "unat start \<le> M"
    and "M + 2 ^ k + unat sz + 2 ^ 21 \<le> 2 ^ 64"
  shows "clear_of (round_out r) occ" and "cells r \<subseteq> cells (round_out r)"
    and "occ_ok (M + 2 ^ k + unat sz + 2 ^ 21) [round_out r]"
    and "unat (rend r) = unat (rstart r) + unat sz" and "2 ^ 21 dvd unat (rstart r)"
    and "unat (rend r) < M + 2 ^ k + unat sz"
proof -
  have "unat (rstart r) < M + 2 ^ k"
    using first_fit_bounded [of k sz occ M start region] assms by (auto simp: occ_ok_def)
  moreover show eq: "unat (rend r) = unat (rstart r) + unat sz"
    using first_fit_fits(3) [OF assms(1,4)] .
  ultimately show lt: "unat (rend r) < M + 2 ^ k + unat sz" by simp
  have "(2::nat) ^ 21 dvd 2 ^ k" using assms(3) by (rule le_imp_power_dvd)
  then show dvd: "2 ^ 21 dvd unat (rstart r)"
    using first_fit_fits(2) [OF assms(1,4)] dvd_trans by blast
  from lt assms(7) have nw: "unat (rend r) + (2 ^ 21 - 1) < 2 ^ 64" by linarith
  then show "cells r \<subseteq> cells (round_out r)" by (rule cells_subset_round_out)
  have ne: "rstart r < rend r" using eq assms(5) by (simp add: word_less_nat_alt)
  show "clear_of (round_out r) occ"
    unfolding clear_of_def
  proof
    fix s assume s: "s \<in> set occ"
    then have "apart r s" "gran_aligned s"
      using first_fit_clear [OF assms(1)] assms(2) by (auto simp: clear_of_def occ_ok_def)
    then show "apart (round_out r) s" using dvd nw ne by (rule apart_round_out)
  qed
  have "unat (rend (round_out r)) \<le> unat (rend r) + (2 ^ 21 - 1)"
    unfolding unat_rend_round_out [OF nw] by simp
  with lt have "unat (rend (round_out r)) \<le> M + 2 ^ k + unat sz + 2 ^ 21" by linarith
  then show "occ_ok (M + 2 ^ k + unat sz + 2 ^ 21) [round_out r]"
    using gran_aligned_round_out by (simp add: occ_ok_def)
qed

section \<open>Chains of ranges\<close>

text \<open>\<open>chain a rs b\<close>: the ranges follow each other without a gap from \<open>a\<close> to \<open>b\<close>.\<close>

fun chain :: "u64 \<Rightarrow> gpa_range list \<Rightarrow> u64 \<Rightarrow> bool" where
  "chain a [] b \<longleftrightarrow> a = b"
| "chain a (r # rs) b \<longleftrightarrow> rstart r = a \<and> a \<le> rend r \<and> chain (rend r) rs b"

lemma chain_le: "chain a rs b \<Longrightarrow> a \<le> b"
proof (induction rs arbitrary: a)
  case (Cons r rs)
  then show ?case by (auto intro: order_trans)
qed simp

lemma chain_append: "chain a (rs @ ss) c \<longleftrightarrow> (\<exists>b. chain a rs b \<and> chain b ss c)"
  by (induction rs arbitrary: a) auto

lemma chain_cells: "chain a rs b \<Longrightarrow> r \<in> set rs \<Longrightarrow> cells r \<subseteq> {unat a..<unat b}"
proof (induction rs arbitrary: a)
  case (Cons s rs)
  have "a \<le> rend s" "rend s \<le> b" using Cons.prems(1) chain_le by auto
  then have le: "unat a \<le> unat (rend s)" "unat (rend s) \<le> unat b"
    by (simp_all add: word_le_nat_alt)
  show ?case
  proof (cases "r = s")
    case True
    then show ?thesis using Cons.prems(1) le by (auto simp: cells_def)
  next
    case False
    then have "cells r \<subseteq> {unat (rend s)..<unat b}" using Cons by auto
    with le show ?thesis by fastforce
  qed
qed simp

lemma chain_apart: "chain a rs b \<Longrightarrow> sorted_wrt apart rs"
proof (induction rs arbitrary: a)
  case (Cons r rs)
  have "apart r s" if "s \<in> set rs" for s
  proof -
    have "cells s \<subseteq> {unat (rend r)..<unat b}" using Cons.prems that by (auto dest: chain_cells)
    then show ?thesis unfolding apart_def by (fastforce simp: cells_def)
  qed
  with Cons show ?case by auto
qed simp

section \<open>The device band\<close>

text \<open>The bytes the generic devices occupy, before the band is rounded to whole granules.\<close>

definition band_bytes :: "args_spec \<Rightarrow> nat" where
  "band_bytes a = (if a_pci_slots a > 0 then 2 ^ 24 else 0) + (if a_serial a then 2 ^ 12 else 0)
     + unat (a_mmio_slots a) * 2 ^ 9"

definition devices :: "layout \<Rightarrow> gpa_range list" where
  "devices lay = opt_list (l_ecam lay) @ opt_list (l_serial lay) @ l_virtio lay"

definition span :: "gpa_range \<Rightarrow> nat" where
  "span r = unat (rend r) - unat (rstart r)"

lemma opt_list_simps [simp]: "opt_list None = []" "opt_list (Some x) = [x]"
  by (simp_all add: opt_list_def)

lemma device_sizes: "unat SERIAL_SIZE = 2 ^ 12" "unat VIRTIO_SIZE = 2 ^ 9" "unat ECAM_SIZE = 2 ^ 24"
  by (simp_all add: SERIAL_SIZE_def VIRTIO_SIZE_def ECAM_SIZE_def ECAM_BUSES_def ECAM_PER_BUS_def)

lemma band_bytes_less: "band_bytes a < 2 ^ 42"
  using unat_u32_less [of "a_mmio_slots a"] by (simp add: band_bytes_def)

lemma unat_add_u64: "unat a + unat b < 2 ^ 64 \<Longrightarrow> unat (a + b) = unat a + unat b" for a b :: u64
  using unat_add_lem [of a b] by simp

lemma unat_virtio_bytes:
  "unat (ucast (a_mmio_slots a) * VIRTIO_SIZE) = unat (a_mmio_slots a) * 2 ^ 9"
proof -
  have u: "unat (ucast (a_mmio_slots a) :: u64) = unat (a_mmio_slots a)"
    by (rule unat_ucast_up) simp
  have "unat (ucast (a_mmio_slots a) :: u64) * unat VIRTIO_SIZE < 2 ^ 64"
    using unat_u32_less [of "a_mmio_slots a"] by (simp add: u device_sizes)
  then have "unat (ucast (a_mmio_slots a) * VIRTIO_SIZE)
      = unat (ucast (a_mmio_slots a) :: u64) * unat VIRTIO_SIZE"
    using unat_mult_lem [of "ucast (a_mmio_slots a) :: u64" VIRTIO_SIZE] by simp
  then show ?thesis by (simp add: u device_sizes)
qed

lemma carve_virtio_chain:
  assumes "unat cur + n * 2 ^ 9 < 2 ^ 64"
  shows "\<exists>e. chain cur (carve_virtio n cur) e \<and> unat e = unat cur + n * 2 ^ 9 \<and>
    (\<forall>r \<in> set (carve_virtio n cur). span r = 2 ^ 9)"
  using assms
proof (induction n arbitrary: cur)
  case (Suc n)
  have u: "unat (cur + VIRTIO_SIZE) = unat cur + 2 ^ 9"
    using Suc.prems by (subst unat_add_u64) (simp_all add: device_sizes)
  then obtain e where e: "chain (cur + VIRTIO_SIZE) (carve_virtio n (cur + VIRTIO_SIZE)) e"
    "unat e = unat cur + 2 ^ 9 + n * 2 ^ 9"
    "\<forall>r \<in> set (carve_virtio n (cur + VIRTIO_SIZE)). span r = 2 ^ 9"
    using Suc.IH [of "cur + VIRTIO_SIZE"] Suc.prems by auto
  have "cur \<le> cur + VIRTIO_SIZE" using u by (simp add: word_le_nat_alt)
  with e u show ?case by (auto simp: span_def)
qed simp

lemma carve_band_chain:
  assumes "carve_band a base = (serial, virtio, ecam)" and "unat base + band_bytes a < 2 ^ 64"
  shows "\<exists>e. chain base (opt_list ecam @ opt_list serial @ virtio) e \<and>
    unat e = unat base + band_bytes a"
proof -
  define cur1 where "cur1 = (if a_pci_slots a > 0 then base + ECAM_SIZE else base)"
  define cur2 where "cur2 = (if a_serial a then cur1 + SERIAL_SIZE else cur1)"
  have c1: "unat cur1 = unat base + (if a_pci_slots a > 0 then 2 ^ 24 else 0)"
    using assms(2) unfolding cur1_def band_bytes_def
    by (auto simp: unat_add_u64 device_sizes split: if_splits)
  have c2: "unat cur2 = unat cur1 + (if a_serial a then 2 ^ 12 else 0)"
    using assms(2) c1 unfolding cur2_def band_bytes_def
    by (auto simp: unat_add_u64 device_sizes split: if_splits)
  have parts: "ecam = (if a_pci_slots a > 0 then Some (mk_range base cur1) else None)"
    "serial = (if a_serial a then Some (mk_range cur1 cur2) else None)"
    "virtio = carve_virtio (unat (a_mmio_slots a)) cur2"
    using assms(1) by (auto simp: carve_band_def cur1_def cur2_def split: if_splits)
  have "unat cur2 + unat (a_mmio_slots a) * 2 ^ 9 < 2 ^ 64"
    using assms(2) c1 c2 by (simp add: band_bytes_def)
  then obtain e where e: "chain cur2 virtio e" "unat e = unat cur2 + unat (a_mmio_slots a) * 2 ^ 9"
    using carve_virtio_chain parts(3) by blast
  have "chain base (opt_list ecam) cur1" "chain cur1 (opt_list serial) cur2"
    using c1 c2 by (auto simp: parts cur1_def cur2_def word_le_nat_alt)
  with e(1) have "chain base (opt_list ecam @ opt_list serial @ virtio) e"
    unfolding chain_append by blast
  moreover have "unat e = unat base + band_bytes a"
    using e(2) c1 c2 by (simp add: band_bytes_def)
  ultimately show ?thesis by blast
qed

lemma shl64_pow2: "unat n < 64 \<Longrightarrow> shl64 1 n = 2 ^ unat n"
  by (simp add: shl64_def)

lemma unat_shl64_1: "unat n < 64 \<Longrightarrow> unat (shl64 1 n) = 2 ^ unat n"
  using unat_pow2 [of "unat n", where 'a = 64] by (simp add: shl64_pow2)

lemma unat_addr_minus_1: "0 < unat n \<Longrightarrow> unat (n - 1) = unat n - 1" for n :: u32
  by (simp add: unat_minus_one unat_gt_0)

lemma unat_band_size:
  "unat (fst (band_geometry a)) = (band_bytes a + (2 ^ 21 - 1)) div 2 ^ 21 * 2 ^ 21"
proof -
  define s0 where "s0 = (if a_pci_slots a > 0 then ECAM_SIZE else 0)"
  define s1 where "s1 = (if a_serial a then s0 + SERIAL_SIZE else s0)"
  define sz where "sz = s1 + ucast (a_mmio_slots a) * VIRTIO_SIZE"
  have u0: "unat s0 = (if a_pci_slots a > 0 then 2 ^ 24 else 0)"
    by (simp add: s0_def device_sizes)
  have u1: "unat s1 = unat s0 + (if a_serial a then 2 ^ 12 else 0)"
    using u0 by (auto simp: s1_def unat_add_u64 device_sizes)
  have "unat s1 + unat (a_mmio_slots a) * 2 ^ 9 < 2 ^ 64"
    using u0 u1 unat_u32_less [of "a_mmio_slots a"] by (simp split: if_splits)
  then have u: "unat sz = band_bytes a"
    using u0 u1 unfolding sz_def
    by (subst unat_add_u64) (simp_all add: unat_virtio_bytes band_bytes_def)
  have g: "fst (band_geometry a) = (if sz = 0 then 0 else round_up sz GRAN)"
    by (simp add: band_geometry_def s0_def s1_def sz_def Let_def)
  have m: "unat (mask 21 :: u64) = 2 ^ 21 - 1" by (simp add: unat_mask_eq)
  have "unat sz + unat (mask 21 :: u64) < 2 ^ 64" using band_bytes_less [of a] by (simp add: u m)
  then have "unat (sz + mask 21) = band_bytes a + (2 ^ 21 - 1)" by (simp add: unat_add_u64 u m)
  then have "unat (round_up sz GRAN) = (band_bytes a + (2 ^ 21 - 1)) div 2 ^ 21 * 2 ^ 21"
    by (simp only: round_up_def GRAN_pow2(2) unat_and_not_mask)
  moreover have "band_bytes a = 0" if "sz = 0" using that u by simp
  ultimately show ?thesis unfolding g by auto
qed

text \<open>
  A band that was placed: its devices follow each other from its start, the band ends where
  the BAR window begins, and no carve-out reaches into it.
\<close>

lemma plan_band_Inr:
  assumes "plan_band a occ = Inr (serial, virtio, ecam)"
    and "0 < unat (a_addr_space_bits a)" and "unat (a_addr_space_bits a) \<le> 62"
  shows "sorted_wrt apart (opt_list ecam @ opt_list serial @ virtio)"
    and "\<forall>d \<in> set (opt_list ecam @ opt_list serial @ virtio). clear_of d occ \<and>
      cells d \<subseteq> {2 ^ (unat (a_addr_space_bits a) - 1) - unat (fst (band_geometry a))
        ..<2 ^ (unat (a_addr_space_bits a) - 1)}"
proof -
  let ?H = "shl64 1 (a_addr_space_bits a - 1)"
  let ?B = "fst (band_geometry a)"
  have H: "unat ?H = 2 ^ (unat (a_addr_space_bits a) - 1)"
    using assms(2,3) unat_addr_minus_1 [of "a_addr_space_bits a"] by (simp add: unat_shl64_1)
  have "sorted_wrt apart (opt_list ecam @ opt_list serial @ virtio) \<and>
    (\<forall>d \<in> set (opt_list ecam @ opt_list serial @ virtio). clear_of d occ \<and>
      cells d \<subseteq> {unat ?H - unat ?B..<unat ?H})"
  proof (cases "?B > 0")
    case True
    then obtain base where base: "checked_sub ?H ?B = Some base"
      and free: "\<not> (\<exists>r \<in> set occ. overlaps r base ?H)"
      and carve: "carve_band a base = (serial, virtio, ecam)"
      using assms(1) by (auto simp: plan_band_def Let_def result_simps split: if_splits)
    from base have ub: "unat base = unat ?H - unat ?B" "unat ?B \<le> unat ?H"
      by (auto simp: checked_simps)
    have le: "band_bytes a \<le> unat ?B" unfolding unat_band_size by (rule round_up_nat_ge) simp
    have "unat base + band_bytes a < 2 ^ 64"
      using le ub unat_u64_less [of ?H] by linarith
    from carve_band_chain [OF carve this] obtain e
      where ch: "chain base (opt_list ecam @ opt_list serial @ virtio) e"
        and e: "unat e = unat base + band_bytes a" by blast
    have in_band: "cells d \<subseteq> {unat base..<unat ?H}"
      if "d \<in> set (opt_list ecam @ opt_list serial @ virtio)" for d
    proof -
      have "unat e \<le> unat ?H" using e le ub by linarith
      then show ?thesis by (intro subset_trans [OF chain_cells [OF ch that]]) simp
    qed
    have "clear_of d occ" if "d \<in> set (opt_list ecam @ opt_list serial @ virtio)" for d
      unfolding clear_of_def
    proof
      fix r assume "r \<in> set occ"
      with free have "\<not> overlaps r base ?H" by blast
      then show "apart d r"
        using in_band [OF that]
        by (fastforce simp: overlaps_def apart_def cells_def word_less_nat_alt)
    qed
    with in_band ub(1) chain_apart [OF ch] show ?thesis by auto
  next
    case False
    then show ?thesis using assms(1) by (simp add: plan_band_def Let_def)
  qed
  with H show "sorted_wrt apart (opt_list ecam @ opt_list serial @ virtio)"
    and "\<forall>d \<in> set (opt_list ecam @ opt_list serial @ virtio). clear_of d occ \<and>
      cells d \<subseteq> {2 ^ (unat (a_addr_space_bits a) - 1) - unat (fst (band_geometry a))
        ..<2 ^ (unat (a_addr_space_bits a) - 1)}"
    by simp_all
qed

section \<open>The steps of the plan\<close>

text \<open>The archive and its fill as the one extent the planner places.\<close>

definition archive_and_fill :: "gpa_range option \<Rightarrow> gpa_range option \<Rightarrow> gpa_range option" where
  "archive_and_fill initrd fill = (case initrd of None \<Rightarrow> None
     | Some a \<Rightarrow> Some (mk_range (rstart a) (case fill of None \<Rightarrow> rend a | Some f \<Rightarrow> rend f)))"

text \<open>
  Bounds under which no address computation of the planner wraps: 62 address bits at most,
  carve-outs below \<open>2^62\<close>, payloads of at most \<open>2^60\<close> bytes and a power-of-two kernel
  alignment of at most \<open>2^40\<close> (the source asserts the power of two in debug builds).
\<close>

definition plan_bounded :: "planner \<Rightarrow> bool" where
  "plan_bounded p \<longleftrightarrow>
     (\<forall>r \<in> set (p_reserved p). unat (rend r) \<le> 2 ^ 62) \<and>
     (\<exists>j\<le>40. k_align (p_kernel p) = 2 ^ j) \<and> unat (k_min_gpa (p_kernel p)) \<le> 2 ^ 62 \<and>
     0 < unat (k_size (p_kernel p)) \<and> unat (k_size (p_kernel p)) \<le> 2 ^ 60 \<and>
     (case p_initrd_size p of None \<Rightarrow> True | Some sz \<Rightarrow> unat sz \<le> 2 ^ 60) \<and>
     (case p_relocs_size p of None \<Rightarrow> True | Some sz \<Rightarrow> unat sz \<le> 2 ^ 60) \<and>
     22 \<le> unat (a_addr_space_bits (p_args p)) \<and> unat (a_addr_space_bits (p_args p)) \<le> 62 \<and>
     unat (a_window_bits (p_args p)) \<le> 2 ^ 16"

lemma occ_ok_round_out:
  assumes "unat (rend r) \<le> M" and "2 ^ 21 dvd M" and "M \<le> 2 ^ 63"
  shows "occ_ok M [round_out r]" and "cells r \<subseteq> cells (round_out r)"
proof -
  have nw: "unat (rend r) + (2 ^ 21 - 1) < 2 ^ 64" using assms(1,3) by simp
  then show "cells r \<subseteq> cells (round_out r)" by (rule cells_subset_round_out)
  have "unat (rend (round_out r)) \<le> M"
    unfolding unat_rend_round_out [OF nw] using assms(1,2) by (intro round_up_nat_least) simp_all
  then show "occ_ok M [round_out r]" using gran_aligned_round_out by (simp add: occ_ok_def)
qed

lemma plan_window_Inr:
  assumes "plan_window a = Inr (Some w)"
    and "unat (a_addr_space_bits a) \<le> 62" and "unat (a_window_bits a) \<le> 2 ^ 16"
  shows "unat (rstart w) = 2 ^ (unat (a_addr_space_bits a) - 1)"
    and "unat (rend w) = unat (rstart w) + 2 ^ unat (a_window_bits a)"
    and "unat (a_window_bits a) + 2 \<le> unat (a_addr_space_bits a)"
    and "unat (rend w) \<le> 2 ^ 62"
proof -
  let ?a = "a_addr_space_bits a" and ?b = "a_window_bits a"
  have w: "w = mk_range (shl64 1 (?a - 1)) (shl64 1 (?a - 1) + shl64 1 ?b)" "\<not> ?a < ?b + 2"
    using assms(1) by (auto simp: plan_window_def Let_def split: if_splits)
  have "unat (?b + 2) = unat ?b + 2"
    using assms(3) unat_add_lem [of ?b 2] by simp
  then show ab: "unat ?b + 2 \<le> unat ?a" using w(2) by (simp add: word_less_nat_alt)
  have ua: "unat (?a - 1) = unat ?a - 1" using ab by (intro unat_addr_minus_1) simp
  then show base: "unat (rstart w) = 2 ^ (unat ?a - 1)"
    using w(1) assms(2) by (simp add: unat_shl64_1)
  have sz: "unat (shl64 1 ?b) = 2 ^ unat ?b" using ab assms(2) by (simp add: unat_shl64_1)
  have p1: "(2::nat) ^ (unat ?a - 1) \<le> 2 ^ 61" using assms(2) by (intro power_increasing) simp_all
  have p2: "(2::nat) ^ unat ?b \<le> 2 ^ 60" using ab assms(2) by (intro power_increasing) simp_all
  have "unat (rstart w) + unat (shl64 1 ?b) < 2 ^ 64" using p1 p2 base sz by simp
  then show e: "unat (rend w) = unat (rstart w) + 2 ^ unat ?b"
    using w(1) sz by (simp add: unat_add_u64)
  show "unat (rend w) \<le> 2 ^ 62" unfolding e base using p1 p2 by simp
qed

lemma max_align_pow2:
  assumes "j \<le> 40"
  shows "\<exists>k. max (2 ^ j :: u64) GRAN = 2 ^ k \<and> 21 \<le> k \<and> k \<le> 40"
proof (cases "21 \<le> j")
  case True
  have "GRAN \<le> 2 ^ j"
    using True assms unat_pow2 [of j, where 'a = 64]
    by (simp add: word_le_nat_alt GRAN_pow2(3) power_increasing [of 21 j "2::nat", simplified])
  then show ?thesis using True assms by (intro exI [of _ j]) (simp add: max_def)
next
  case False
  then have "(2 ^ j :: u64) \<le> GRAN"
    using unat_pow2 [of j, where 'a = 64] power_increasing [of j 21 "2::nat"]
    by (simp add: word_le_nat_alt GRAN_pow2(3))
  then show ?thesis by (intro exI [of _ 21]) (auto simp: max_def GRAN_pow2(1))
qed

lemma plan_kernel_Inr:
  assumes "plan_kernel k occ = Inr r" and "occ_ok M occ" and "k_align k = 2 ^ j" and "j \<le> 40"
    and "unat (k_min_gpa k) \<le> M" and "0 < unat (k_size k)" and "unat (k_size k) \<le> 2 ^ 60"
    and "M \<le> 2 ^ 63"
  shows "clear_of (round_out r) occ" and "cells r \<subseteq> cells (round_out r)"
    and "occ_ok (M + 2 ^ 61) [round_out r]"
    and "unat (rend r) = unat (rstart r) + unat (k_size k)"
proof -
  obtain n where n: "max (2 ^ j :: u64) GRAN = 2 ^ n" "21 \<le> n" "n \<le> 40"
    using max_align_pow2 [OF assms(4)] by blast
  have ff: "first_fit (k_min_gpa k) (k_size k) (2 ^ n) occ ''kernel'' = Inr r"
    using assms(1,3) n(1) by (simp add: plan_kernel_def)
  have p: "(2::nat) ^ n \<le> 2 ^ 40" using n(3) by (intro power_increasing) simp_all
  have sz: "0 < k_size k" using assms(6) by (simp add: word_less_nat_alt)
  have b: "M + 2 ^ n + unat (k_size k) + 2 ^ 21 \<le> M + 2 ^ 61" using p assms(7) by simp
  then have bound: "M + 2 ^ n + unat (k_size k) + 2 ^ 21 \<le> 2 ^ 64" using assms(8) by simp
  note P = placement [OF ff assms(2) n(2) _ sz assms(5) bound]
  show "clear_of (round_out r) occ" "cells r \<subseteq> cells (round_out r)"
    "unat (rend r) = unat (rstart r) + unat (k_size k)"
    using P(1,2,4) n(3) by simp_all
  show "occ_ok (M + 2 ^ 61) [round_out r]" using P(3) b n(3) by (auto intro: occ_ok_mono)
qed

text \<open>A slot asked for at one granule's alignment from address 0, as archives and relocs are.\<close>

lemma gran_slot:
  assumes "first_fit 0 sz GRAN occ region = Inr r" and "occ_ok M occ" and "0 < unat sz"
    and "unat sz \<le> 2 ^ 60 + 2 ^ 22" and "M \<le> 2 ^ 63"
  shows "clear_of (round_out r) occ" and "cells r \<subseteq> cells (round_out r)"
    and "occ_ok (M + 2 ^ 61) [round_out r]" and "2 ^ 21 dvd unat (rstart r)"
    and "unat (rend r) = unat (rstart r) + unat sz"
proof -
  have sz: "0 < sz" using assms(3) by (simp add: word_less_nat_alt)
  have b: "M + 2 ^ 21 + unat sz + 2 ^ 21 \<le> M + 2 ^ 61" using assms(4) by simp
  then have bound: "M + 2 ^ 21 + unat sz + 2 ^ 21 \<le> 2 ^ 64" using assms(5) by simp
  have ff: "first_fit 0 sz (2 ^ 21) occ region = Inr r" using assms(1) by (simp add: GRAN_pow2(1))
  note P = placement [OF ff assms(2) order_refl _ sz _ bound]
  show "clear_of (round_out r) occ" "cells r \<subseteq> cells (round_out r)" "2 ^ 21 dvd unat (rstart r)"
    "unat (rend r) = unat (rstart r) + unat sz"
    using P(1,2,5,4) by simp_all
  show "occ_ok (M + 2 ^ 61) [round_out r]" using P(3) b by (auto intro: occ_ok_mono)
qed

lemma plan_initrd_None:
  assumes "isz = None \<or> isz = Some 0"
  shows "plan_initrd isz boot occ = Inr (None, None, [])"
  using assms by (auto simp: plan_initrd_def)

text \<open>A placed archive: whole granules, its fill right behind it, one slot for both.\<close>

lemma plan_initrd_Some:
  assumes "plan_initrd (Some sz) boot occ = Inr (initrd, fill, carved)" and "0 < sz"
    and "unat sz \<le> 2 ^ 60" and "occ_ok M occ" and "M \<le> 2 ^ 63"
  obtains a hull where "initrd = Some a" "archive_and_fill initrd fill = Some hull"
    and "carved = [round_out hull]" and "clear_of (round_out hull) occ"
    and "cells hull \<subseteq> cells (round_out hull)" and "occ_ok (M + 2 ^ 61) [round_out hull]"
    and "2 ^ 21 dvd unat (rstart a)"
    and "unat (rend a) = unat (rstart a) + (unat sz + (2 ^ 21 - 1)) div 2 ^ 21 * 2 ^ 21"
    and "fill = (if boot then Some (mk_range (rend a) (rend hull)) else None)"
    and "unat (rend hull) = unat (rend a) + (if boot then 2 ^ 21 else 0)"
proof -
  let ?up = "(unat sz + (2 ^ 21 - 1)) div 2 ^ 21 * 2 ^ 21"
  obtain asz total r where asz: "align_up sz GRAN = Some asz"
    and total: "checked_add asz (if boot then GRAN else 0) = Some total"
    and r: "first_fit 0 total GRAN occ ''initrd + bootconfig'' = Inr r"
    and out: "initrd = Some (mk_range (rstart r) (rstart r + asz))"
      "fill = (if boot then Some (mk_range (rstart r + asz) (rend r)) else None)"
      "carved = [round_out r]"
    using assms(1,2) by (auto simp: plan_initrd_def result_simps Let_def)
  have ua: "unat asz = ?up"
    using asz align_up_word_pow2_Some(1) [of sz 21 asz]
    by (simp add: align_up_eq_word GRAN_pow2(1))
  have ut: "unat total = ?up + (if boot then 2 ^ 21 else 0)"
    using total ua by (simp add: checked_simps GRAN_pow2(3) split: if_splits)
  have up: "unat sz \<le> ?up" "?up \<le> unat sz + (2 ^ 21 - 1)"
    by (rule round_up_nat_ge, simp, simp)
  have sz: "0 < unat sz" using assms(2) by (simp add: word_less_nat_alt)
  have pos: "0 < unat total" "unat total \<le> 2 ^ 60 + 2 ^ 22"
    using ut up sz assms(3) by (auto split: if_splits)
  note G = gran_slot [OF r assms(4) pos assms(5)]
  have ra: "unat (rstart r + asz) = unat (rstart r) + ?up"
    using G(5) ut ua unat_u64_less [of "rend r"] by (subst unat_add_u64) auto
  have hull: "archive_and_fill initrd fill = Some (mk_range (rstart r) (rend r))"
  proof (cases boot)
    case False
    have "rstart r + asz = rend r" using ra G(5) ut False by (simp add: word_unat_eq_iff)
    with False show ?thesis by (simp add: archive_and_fill_def out)
  qed (simp add: archive_and_fill_def out)
  have rr: "mk_range (rstart r) (rend r) = r" by (simp add: mk_range_def)
  show ?thesis
    using G ra ut hull [unfolded rr]
    by (intro that [of "mk_range (rstart r) (rstart r + asz)" r]) (auto simp: out)
qed

lemma plan_relocs_Inr:
  assumes "plan_relocs rsz occ = Inr relocs" and "occ_ok M occ" and "M \<le> 2 ^ 63"
    and "case rsz of None \<Rightarrow> True | Some sz \<Rightarrow> unat sz \<le> 2 ^ 60"
  shows "\<forall>r \<in> set (opt_list relocs). clear_of (round_out r) occ \<and>
      cells r \<subseteq> cells (round_out r) \<and> occ_ok (M + 2 ^ 61) [round_out r]"
proof (cases relocs)
  case (Some r)
  then obtain sz where sz: "rsz = Some sz" "0 < sz" "first_fit 0 sz GRAN occ ''relocs'' = Inr r"
    using assms(1) by (auto simp: plan_relocs_def result_simps split: option.splits if_splits)
  have "0 < unat sz" "unat sz \<le> 2 ^ 60 + 2 ^ 22"
    using sz(1,2) assms(4) by (simp_all add: word_less_nat_alt)
  from gran_slot [OF sz(3) assms(2) this assms(3)] show ?thesis using Some by simp
qed simp

section \<open>The whole plan\<close>

lemma plan_InrE:
  assumes "plan p = Inr lay"
  obtains carved occ0 occ1 occ2 occ3 occ4 where
    "plan_window (p_args p) = Inr (l_pci_window lay)"
    and "plan_kernel (p_kernel p) occ1 = Inr (l_linux lay)"
    and "plan_initrd (p_initrd_size p) (p_bootconfig p) occ2
      = Inr (l_initrd lay, l_bootconfig lay, carved)"
    and "plan_relocs (p_relocs_size p) occ3 = Inr (l_relocs lay)"
    and "plan_band (p_args p) occ4 = Inr (l_serial lay, l_virtio lay, l_ecam lay)"
    and "occ0 = map round_out (p_reserved p)"
    and "occ1 = occ0 @ map round_out (opt_list (l_pci_window lay))"
    and "occ2 = occ1 @ [round_out (l_linux lay)]" and "occ3 = occ2 @ carved"
    and "occ4 = occ3 @ map round_out (opt_list (l_relocs lay))"
  using assms by (auto simp: plan_def Let_def result_simps)

text \<open>The regions that hold memory or the BAR window, at the extent the planner carves out.\<close>

definition memory_regions :: "layout \<Rightarrow> gpa_range list" where
  "memory_regions lay = opt_list (l_pci_window lay) @ [l_linux lay]
     @ opt_list (archive_and_fill (l_initrd lay) (l_bootconfig lay)) @ opt_list (l_relocs lay)"

lemma sorted_wrt_apart_append:
  assumes "sorted_wrt apart xs" and "sorted_wrt apart ys" and "\<And>y. y \<in> set ys \<Longrightarrow> clear_of y xs"
  shows "sorted_wrt apart (xs @ ys)"
proof -
  have "apart x y" if "x \<in> set xs" "y \<in> set ys" for x y
    using assms(3) [OF that(2)] that(1) by (simp add: clear_of_def apart_sym [of x y])
  with assms(1,2) show ?thesis by (simp add: sorted_wrt_append)
qed

lemma sorted_wrt_opt_list: "sorted_wrt P (map f (opt_list m))"
  by (cases m) simp_all

definition ram_regions :: "layout \<Rightarrow> gpa_range list" where
  "ram_regions lay = [l_linux lay]
     @ opt_list (archive_and_fill (l_initrd lay) (l_bootconfig lay)) @ opt_list (l_relocs lay)"

lemma plan_initrd_carves:
  assumes "plan_initrd isz boot occ = Inr (initrd, fill, carved)" and "occ_ok M occ"
    and "M \<le> 2 ^ 63" and "case isz of None \<Rightarrow> True | Some sz \<Rightarrow> unat sz \<le> 2 ^ 60"
  shows "carved = map round_out (opt_list (archive_and_fill initrd fill)) \<and>
    occ_ok (M + 2 ^ 61) carved \<and>
    (\<forall>h \<in> set (opt_list (archive_and_fill initrd fill)).
      clear_of (round_out h) occ \<and> cells h \<subseteq> cells (round_out h))"
proof (cases "isz = None \<or> isz = Some 0")
  case True
  then show ?thesis using assms(1) plan_initrd_None [OF True, of boot occ]
    by (simp add: archive_and_fill_def)
next
  case False
  then obtain sz where sz: "isz = Some sz" "0 < sz" by (auto simp: word_gt_0)
  from plan_initrd_Some [OF assms(1) [unfolded sz(1)] sz(2) _ assms(2,3)] assms(4) sz(1)
  obtain a hull where "archive_and_fill initrd fill = Some hull" "carved = [round_out hull]"
    "clear_of (round_out hull) occ" "cells hull \<subseteq> cells (round_out hull)"
    "occ_ok (M + 2 ^ 61) [round_out hull]"
    by auto
  then show ?thesis by simp
qed

text \<open>
  The carve-outs at each step: whole granules below a bound that leaves room for the steps to
  come.
\<close>

definition occ_start :: "planner \<Rightarrow> gpa_range option \<Rightarrow> gpa_range list" where
  "occ_start p w = map round_out (p_reserved p) @ map round_out (opt_list w)"

lemma bounded_initrd:
  "plan_bounded p \<Longrightarrow> case p_initrd_size p of None \<Rightarrow> True | Some sz \<Rightarrow> unat sz \<le> 2 ^ 60"
  unfolding plan_bounded_def by blast

lemma bounded_relocs:
  "plan_bounded p \<Longrightarrow> case p_relocs_size p of None \<Rightarrow> True | Some sz \<Rightarrow> unat sz \<le> 2 ^ 60"
  unfolding plan_bounded_def by blast

lemma bounded_addr:
  assumes "plan_bounded p"
  shows "0 < unat (a_addr_space_bits (p_args p))" "unat (a_addr_space_bits (p_args p)) \<le> 62"
    "unat (a_window_bits (p_args p)) \<le> 2 ^ 16"
  using assms unfolding plan_bounded_def by (linarith, blast, blast)

lemma reserved_footprint:
  assumes "plan_bounded p" and "r \<in> set (p_reserved p)"
  shows "occ_ok (2 ^ 62) [round_out r]" and "cells r \<subseteq> cells (round_out r)"
proof -
  have "unat (rend r) \<le> 2 ^ 62" using assms unfolding plan_bounded_def by blast
  then show "occ_ok (2 ^ 62) [round_out r]" "cells r \<subseteq> cells (round_out r)"
    using occ_ok_round_out [of r "2 ^ 62"] by simp_all
qed

lemma window_footprint:
  assumes "plan_bounded p" and "plan_window (p_args p) = Inr w" and "r \<in> set (opt_list w)"
  shows "occ_ok (2 ^ 62) [round_out r]" and "cells r \<subseteq> cells (round_out r)"
proof -
  have "w = Some r" using assms(3) by (cases w) simp_all
  then have "unat (rend r) \<le> 2 ^ 62"
    using plan_window_Inr(4) assms(2) bounded_addr [OF assms(1)] by blast
  then show "occ_ok (2 ^ 62) [round_out r]" "cells r \<subseteq> cells (round_out r)"
    using occ_ok_round_out [of r "2 ^ 62"] by simp_all
qed

lemma occ_start_ok:
  assumes "plan_bounded p" and "plan_window (p_args p) = Inr w"
  shows "occ_ok (2 ^ 62) (occ_start p w)"
  using reserved_footprint(1) [OF assms(1)] window_footprint(1) [OF assms]
  by (auto simp: occ_start_def occ_ok_def)

lemma kernel_footprint:
  assumes "plan_bounded p" and "plan_window (p_args p) = Inr w"
    and "plan_kernel (p_kernel p) (occ_start p w) = Inr l"
  shows "clear_of (round_out l) (occ_start p w)" and "cells l \<subseteq> cells (round_out l)"
    and "occ_ok (2 ^ 62 + 2 ^ 61) (occ_start p w @ [round_out l])"
proof -
  obtain j where j: "k_align (p_kernel p) = 2 ^ j" "j \<le> 40" "unat (k_min_gpa (p_kernel p)) \<le> 2 ^ 62"
    "0 < unat (k_size (p_kernel p))" "unat (k_size (p_kernel p)) \<le> 2 ^ 60"
    using assms(1) unfolding plan_bounded_def by blast
  note K = plan_kernel_Inr [OF assms(3) occ_start_ok [OF assms(1,2)] j]
  show "clear_of (round_out l) (occ_start p w)" "cells l \<subseteq> cells (round_out l)"
    using K(1,2) by simp_all
  show "occ_ok (2 ^ 62 + 2 ^ 61) (occ_start p w @ [round_out l])"
    using K(3) occ_ok_mono [OF occ_start_ok [OF assms(1,2)]] by simp
qed

lemma archive_footprint:
  assumes "plan_bounded p" and "occ_ok (2 ^ 62 + 2 ^ 61) occ"
    and "plan_initrd (p_initrd_size p) boot occ = Inr (initrd, fill, carved)"
  shows "carved = map round_out (opt_list (archive_and_fill initrd fill))"
    and "\<forall>h \<in> set (opt_list (archive_and_fill initrd fill)).
      clear_of (round_out h) occ \<and> cells h \<subseteq> cells (round_out h)"
    and "occ_ok (2 ^ 63) (occ @ carved)"
proof -
  have le: "(2::nat) ^ 62 + 2 ^ 61 \<le> 2 ^ 63" and eq: "(2::nat) ^ 62 + 2 ^ 61 + 2 ^ 61 = 2 ^ 63"
    by simp_all
  note I = plan_initrd_carves [OF assms(3,2) le bounded_initrd [OF assms(1)]]
  from I show "carved = map round_out (opt_list (archive_and_fill initrd fill))"
    and "\<forall>h \<in> set (opt_list (archive_and_fill initrd fill)).
      clear_of (round_out h) occ \<and> cells h \<subseteq> cells (round_out h)"
    by blast+
  have "occ_ok (2 ^ 63) carved" using I unfolding eq by blast
  then show "occ_ok (2 ^ 63) (occ @ carved)" using occ_ok_mono [OF assms(2) le] by simp
qed

text \<open>
  The invariant of the placement sequence: at every step the new region, rounded out to whole
  granules, is clear of everything carved out before.
\<close>

lemma plan_steps:
  assumes "plan_bounded p" and "plan p = Inr lay"
  shows "sorted_wrt apart (map round_out (memory_regions lay) @ devices lay) \<and>
    (\<forall>r \<in> set (memory_regions lay). cells r \<subseteq> cells (round_out r)) \<and>
    (\<forall>r \<in> set (map round_out (ram_regions lay) @ devices lay). clear_of r (p_reserved p))"
proof -
  let ?W = "opt_list (l_pci_window lay)" and ?L = "l_linux lay" and ?R = "opt_list (l_relocs lay)"
  let ?A = "opt_list (archive_and_fill (l_initrd lay) (l_bootconfig lay))"
  let ?o1 = "occ_start p (l_pci_window lay)" let ?o2 = "?o1 @ [round_out ?L]"
  let ?o3 = "?o2 @ map round_out ?A" let ?o4 = "?o3 @ map round_out ?R"
  obtain carved where W: "plan_window (p_args p) = Inr (l_pci_window lay)"
    and K: "plan_kernel (p_kernel p) ?o1 = Inr ?L"
    and I: "plan_initrd (p_initrd_size p) (p_bootconfig p) ?o2
      = Inr (l_initrd lay, l_bootconfig lay, carved)"
    and R': "plan_relocs (p_relocs_size p) (?o2 @ carved) = Inr (l_relocs lay)"
    and D': "plan_band (p_args p) ((?o2 @ carved) @ map round_out ?R)
      = Inr (l_serial lay, l_virtio lay, l_ecam lay)"
    by (rule plan_InrE [OF assms(2)]) (simp add: occ_start_def)
  note kern = kernel_footprint [OF assms(1) W K]
  note ini = archive_footprint [OF assms(1) kern(3) I]
  have ok3: "occ_ok (2 ^ 63) ?o3" using ini(1,3) by simp
  have R: "plan_relocs (p_relocs_size p) ?o3 = Inr (l_relocs lay)"
    and D: "plan_band (p_args p) ?o4 = Inr (l_serial lay, l_virtio lay, l_ecam lay)"
    using R' D' ini(1) by simp_all
  have rel: "\<forall>r \<in> set ?R. clear_of (round_out r) ?o3 \<and> cells r \<subseteq> cells (round_out r)"
    using plan_relocs_Inr [OF R ok3 order_refl bounded_relocs [OF assms(1)]] by blast
  have dev: "sorted_wrt apart (devices lay)" "\<forall>d \<in> set (devices lay). clear_of d ?o4"
    using plan_band_Inr [OF D bounded_addr(1,2) [OF assms(1)]] by (simp_all add: devices_def)
  have mem: "map round_out (memory_regions lay)
      = map round_out ?W @ [round_out ?L] @ map round_out ?A @ map round_out ?R"
    by (simp add: memory_regions_def)
  have "sorted_wrt apart (map round_out (memory_regions lay) @ devices lay)"
    unfolding mem append_assoc [symmetric] using kern(1) ini(2) rel dev
    by (intro sorted_wrt_apart_append) (auto simp: sorted_wrt_opt_list occ_start_def)
  moreover have "\<forall>r \<in> set (memory_regions lay). cells r \<subseteq> cells (round_out r)"
    using window_footprint(2) [OF assms(1) W] kern(2) ini(2) rel by (auto simp: memory_regions_def)
  moreover have "clear_of r (p_reserved p)"
    if "r \<in> set (map round_out (ram_regions lay) @ devices lay)" for r
  proof -
    have "clear_of r (map round_out (p_reserved p))"
      using that kern(1) ini(2) rel dev(2) by (auto simp: ram_regions_def occ_start_def)
    then show ?thesis using reserved_footprint(2) [OF assms(1)]
      by (auto simp: clear_of_def intro: apart_mono)
  qed
  ultimately show ?thesis by blast
qed

section \<open>Which errors a plan can end in\<close>

lemma gran_slot_exists:
  assumes "occ_ok M occ" and "0 < unat sz" and "unat sz \<le> 2 ^ 60 + 2 ^ 22" and "M \<le> 2 ^ 63"
  shows "\<exists>r. first_fit 0 sz GRAN occ region = Inr r"
proof -
  have "0 < sz" using assms(2) by (simp add: word_less_nat_alt)
  moreover have "M + 2 ^ 21 + unat sz \<le> 2 ^ 64" using assms(3,4) by simp
  ultimately show ?thesis
    using first_fit_bounded [of 21 sz occ M 0 region] assms(1)
    by (auto simp: occ_ok_def GRAN_pow2(1))
qed

lemma plan_kernel_total:
  assumes "occ_ok M occ" and "k_align k = 2 ^ j" and "j \<le> 40"
    and "unat (k_min_gpa k) \<le> M" and "0 < unat (k_size k)" and "unat (k_size k) \<le> 2 ^ 60"
    and "M \<le> 2 ^ 63"
  shows "\<exists>r. plan_kernel k occ = Inr r"
proof -
  obtain n where n: "max (2 ^ j :: u64) GRAN = 2 ^ n" "21 \<le> n" "n \<le> 40"
    using max_align_pow2 [OF assms(3)] by blast
  have p: "(2::nat) ^ n \<le> 2 ^ 40" using n(3) by (intro power_increasing) simp_all
  have "0 < k_size k" using assms(5) by (simp add: word_less_nat_alt)
  moreover have "M + 2 ^ n + unat (k_size k) \<le> 2 ^ 64" using p assms(6,7) by simp
  ultimately show ?thesis
    using first_fit_bounded [of n "k_size k" occ M "k_min_gpa k" "''kernel''"] assms(1,2,4) n
    by (auto simp: occ_ok_def plan_kernel_def)
qed

lemma plan_initrd_total:
  assumes "occ_ok M occ" and "M \<le> 2 ^ 63"
    and "case isz of None \<Rightarrow> True | Some sz \<Rightarrow> unat sz \<le> 2 ^ 60"
  shows "\<exists>r. plan_initrd isz boot occ = Inr r"
proof (cases "isz = None \<or> isz = Some 0")
  case True
  then show ?thesis using plan_initrd_None by blast
next
  case False
  then obtain sz where sz: "isz = Some sz" "0 < sz" by (auto simp: word_gt_0)
  have le: "unat sz \<le> 2 ^ 60" using assms(3) sz(1) by simp
  let ?up = "(unat sz + (2 ^ 21 - 1)) div 2 ^ 21 * 2 ^ 21"
  have up: "unat sz \<le> ?up" "?up \<le> unat sz + (2 ^ 21 - 1)"
    by (rule round_up_nat_ge, simp, simp)
  have "unat sz + (2 ^ 21 - 1) < 2 ^ 64" using le by simp
  then obtain asz where asz: "align_up sz GRAN = Some asz"
    using align_up_word_pow2 [of 21 sz] by (simp add: align_up_eq_word GRAN_pow2(1))
  then have ua: "unat asz = ?up"
    using align_up_word_pow2_Some(1) [of sz 21 asz] by (simp add: align_up_eq_word GRAN_pow2(1))
  define fillsz where "fillsz = (if boot then GRAN else 0)"
  have fs: "unat fillsz \<le> 2 ^ 21" by (simp add: fillsz_def GRAN_pow2(3))
  have "unat asz + unat fillsz < 2 ^ 64" using fs ua up(2) le by simp
  then obtain total where total: "checked_add asz fillsz = Some total"
    using checked_add_u64_Some by blast
  then have ut: "unat total = ?up + unat fillsz" using ua by (simp add: checked_simps)
  have "0 < unat total" "unat total \<le> 2 ^ 60 + 2 ^ 22"
    using ut fs up le sz(2) by (simp_all add: word_less_nat_alt)
  then obtain r where "first_fit 0 total GRAN occ ''initrd + bootconfig'' = Inr r"
    using gran_slot_exists [OF assms(1) _ _ assms(2)] by blast
  then show ?thesis using sz asz total
    by (simp add: plan_initrd_def result_simps Let_def fillsz_def)
qed

lemma plan_relocs_total:
  assumes "occ_ok M occ" and "M \<le> 2 ^ 63"
    and "case rsz of None \<Rightarrow> True | Some sz \<Rightarrow> unat sz \<le> 2 ^ 60"
  shows "\<exists>r. plan_relocs rsz occ = Inr r"
proof (cases "\<exists>sz. rsz = Some sz \<and> 0 < sz")
  case True
  then obtain sz where sz: "rsz = Some sz" "0 < sz" by blast
  then have "0 < unat sz" "unat sz \<le> 2 ^ 60 + 2 ^ 22"
    using assms(3) by (simp_all add: word_less_nat_alt)
  then obtain r where "first_fit 0 sz GRAN occ ''relocs'' = Inr r"
    using gran_slot_exists [OF assms(1) _ _ assms(2)] by blast
  then show ?thesis using sz by (simp add: plan_relocs_def)
qed (auto simp: plan_relocs_def split: option.splits)

lemma plan_band_Inl:
  "plan_band a occ = Inl e \<Longrightarrow>
    e = PlanOverflow \<and>
      unat (shl64 1 (a_addr_space_bits a - 1)) < unat (fst (band_geometry a)) \<or>
    e = DoesNotFit ''device band'' (fst (band_geometry a))"
  by (auto simp: plan_band_def Let_def result_simps checked_simps split: if_splits)

section \<open>Properties\<close>

text \<open>
  C3. Every region the planner places is apart from every other one, at the granularity of
  whole 2 MiB units for everything but the device registers inside their band: the BAR window,
  the kernel, the archive with its bootconfig fill, the relocation table and each device range.
\<close>

theorem plan_regions_apart:
  assumes "plan_bounded p" and "plan p = Inr lay"
  shows "sorted_wrt apart (map round_out (memory_regions lay) @ devices lay)"
  using plan_steps [OF assms] by blast

text \<open>
  C5. No RAM region of the layout, rounded out to whole 2 MiB units, and no device range
  overlaps a reserved carve-out, and every placed memory region lies in its rounded footprint.
\<close>

theorem plan_avoids_reserved:
  assumes "plan_bounded p" and "plan p = Inr lay"
  shows "(\<forall>r \<in> set (map round_out (ram_regions lay) @ devices lay). clear_of r (p_reserved p)) \<and>
    (\<forall>r \<in> set (memory_regions lay). cells r \<subseteq> cells (round_out r))"
  using plan_steps [OF assms] by blast

text \<open>
  C4. The first-fit search is exactly the reference "lowest aligned free slot": it returns a
  slot iff that slot satisfies the request, is clear of every carve-out and no lower slot does.
\<close>

theorem first_fit_is_least:
  assumes "0 < k" and "k < 64" and "0 < sz"
  shows "first_fit start sz (2 ^ k) occ region = Inr r \<longleftrightarrow>
    (let fit = (\<lambda>s. unat start \<le> unat (rstart s) \<and> 2 ^ k dvd unat (rstart s) \<and>
       unat (rend s) = unat (rstart s) + unat sz \<and> clear_of s occ)
     in fit r \<and> (\<forall>s :: gpa_range. fit s \<longrightarrow> unat (rstart r) \<le> unat (rstart s)))"
proof -
  define q where "q = \<lparr>q_start = start, q_size = sz, q_align = 2 ^ k, q_region = region\<rparr>"
  have v: "req_valid q" using assms by (auto simp: q_def req_valid_def)
  have ua: "unat (2 ^ k :: u64) = 2 ^ k" using assms(2) by (simp add: unat_pow2)
  have al: "req_alloc q occ = first_fit start sz (2 ^ k) occ region"
    by (simp add: q_def req_alloc_def)
  have fit: "req_fits q s \<longleftrightarrow> unat start \<le> unat (rstart s) \<and> 2 ^ k dvd unat (rstart s) \<and>
    unat (rend s) = unat (rstart s) + unat sz" for s
    by (simp add: q_def req_fits_def ua)
  have "req_alloc q occ = Inr r \<longleftrightarrow> req_fits q r \<and> clear_of r occ \<and>
    (\<forall>s. req_fits q s \<and> clear_of s occ \<longrightarrow> unat (rstart r) \<le> unat (rstart s))"
    (is "?L \<longleftrightarrow> ?R")
  proof
    assume ?L
    then show ?R using ff.alloc_fits [OF v] ff.alloc_clear ff.alloc_lowest [OF v] by fastforce
  next
    assume R: ?R
    then obtain r' where r': "req_alloc q occ = Inr r'" "unat (rstart r') \<le> unat (rstart r)"
      using ff.alloc_lowest [OF v] by blast
    then have f': "req_fits q r'" "clear_of r' occ"
      using ff.alloc_fits [OF v] ff.alloc_clear by blast+
    then have "unat (rstart r) \<le> unat (rstart r')" using R by blast
    with r'(2) have "rstart r = rstart r'" by (simp add: word_unat_eq_iff)
    moreover from this have "rend r = rend r'"
      using R f'(1) by (simp add: fit word_unat_eq_iff)
    ultimately have "r = r'" by simp
    with r'(1) show ?L by simp
  qed
  then show ?thesis unfolding al fit by (simp add: Let_def conj_assoc)
qed

text \<open>
  A requested archive occupies its size rounded up to whole 2 MiB units, starts on a 2 MiB
  boundary, and the bootconfig fill is present exactly when requested: 2 MiB that begin at the
  archive's end.
\<close>

lemma plan_archive_and_fill:
  assumes "plan_bounded p" and "plan p = Inr lay" and "p_initrd_size p = Some sz" and "0 < sz"
  shows "\<exists>a. l_initrd lay = Some a \<and> 2 ^ 21 dvd unat (rstart a) \<and>
    unat (rend a) = unat (rstart a) + (unat sz + (2 ^ 21 - 1)) div 2 ^ 21 * 2 ^ 21 \<and>
    (if p_bootconfig p
     then \<exists>f. l_bootconfig lay = Some f \<and> rstart f = rend a \<and>
       unat (rend f) = unat (rstart f) + 2 ^ 21
     else l_bootconfig lay = None)"
proof -
  let ?o1 = "occ_start p (l_pci_window lay)" let ?o2 = "?o1 @ [round_out (l_linux lay)]"
  obtain carved where W: "plan_window (p_args p) = Inr (l_pci_window lay)"
    and K: "plan_kernel (p_kernel p) ?o1 = Inr (l_linux lay)"
    and I: "plan_initrd (Some sz) (p_bootconfig p) ?o2
      = Inr (l_initrd lay, l_bootconfig lay, carved)"
    by (rule plan_InrE [OF assms(2)]) (simp add: occ_start_def assms(3))
  have sz: "unat sz \<le> 2 ^ 60" using bounded_initrd [OF assms(1)] assms(3) by simp
  have "(2::nat) ^ 62 + 2 ^ 61 \<le> 2 ^ 63" by simp
  then show ?thesis
  proof (rule plan_initrd_Some [OF I assms(4) sz kernel_footprint(3) [OF assms(1) W K]], goal_cases)
    case (1 a hull)
    then show ?case by simp
  qed
qed

text \<open>
  C6. Under the planner's bounds a plan fails only because the BAR window is too large for the
  address space or because the device band does not fit below the window; the kernel, archive
  and relocation placements always succeed.
\<close>

theorem plan_error_cases:
  assumes "plan_bounded p" and "plan p = Inl e"
  shows "(\<exists>b a. e = WindowTooLarge b a \<and> b = a_window_bits (p_args p) \<and>
      a = a_addr_space_bits (p_args p) \<and> unat a < unat b + 2) \<or>
    (e = PlanOverflow \<and> 2 ^ (unat (a_addr_space_bits (p_args p)) - 1)
      < unat (fst (band_geometry (p_args p)))) \<or>
    e = DoesNotFit ''device band'' (fst (band_geometry (p_args p)))"
proof -
  consider (W) "plan_window (p_args p) = Inl e"
    | (K) w where "plan_window (p_args p) = Inr w" "plan_kernel (p_kernel p) (occ_start p w) = Inl e"
    | (I) w l where "plan_window (p_args p) = Inr w" "plan_kernel (p_kernel p) (occ_start p w) = Inr l"
        "plan_initrd (p_initrd_size p) (p_bootconfig p) (occ_start p w @ [round_out l]) = Inl e"
    | (R) w l i f c where "plan_window (p_args p) = Inr w"
        "plan_kernel (p_kernel p) (occ_start p w) = Inr l"
        "plan_initrd (p_initrd_size p) (p_bootconfig p) (occ_start p w @ [round_out l]) = Inr (i, f, c)"
        "plan_relocs (p_relocs_size p) ((occ_start p w @ [round_out l]) @ c) = Inl e"
    | (B) occ where "plan_band (p_args p) occ = Inl e"
    using assms(2) by (auto simp: plan_def Let_def result_simps occ_start_def)
  then show ?thesis
  proof cases
    case W
    have "unat (a_window_bits (p_args p) + 2) = unat (a_window_bits (p_args p)) + 2"
      using bounded_addr(3) [OF assms(1)] unat_add_lem [of "a_window_bits (p_args p)" 2] by simp
    with W show ?thesis
      by (auto simp: plan_window_def Let_def word_less_nat_alt split: if_splits)
  next
    case K
    obtain j where j: "k_align (p_kernel p) = 2 ^ j" "j \<le> 40"
      "unat (k_min_gpa (p_kernel p)) \<le> 2 ^ 62" "0 < unat (k_size (p_kernel p))"
      "unat (k_size (p_kernel p)) \<le> 2 ^ 60"
      using assms(1) unfolding plan_bounded_def by blast
    from plan_kernel_total [OF occ_start_ok [OF assms(1) K(1)] j] K(2) show ?thesis by simp
  next
    case I
    have "(2::nat) ^ 62 + 2 ^ 61 \<le> 2 ^ 63" by simp
    from plan_initrd_total [OF kernel_footprint(3) [OF assms(1) I(1,2)] this
        bounded_initrd [OF assms(1)], of "p_bootconfig p"] I(3) show ?thesis by simp
  next
    case R
    from plan_relocs_total [OF archive_footprint(3) [OF assms(1)
          kernel_footprint(3) [OF assms(1) R(1,2)] R(3)] order_refl bounded_relocs [OF assms(1)]]
      R(4) show ?thesis by simp
  next
    case B
    have "unat (shl64 1 (a_addr_space_bits (p_args p) - 1))
        = 2 ^ (unat (a_addr_space_bits (p_args p)) - 1)"
      using bounded_addr(1,2) [OF assms(1)] unat_addr_minus_1 [of "a_addr_space_bits (p_args p)"]
      by (simp add: unat_shl64_1)
    with plan_band_Inl [OF B] show ?thesis by auto
  qed
qed

section \<open>Witnesses\<close>

text \<open>
  The x86-64 layout of the source's tests: \<open>tatu\<close> in the first 2 MiB, a 4 MiB kernel, a
  one-byte archive with its fill, a relocation table, serial, three virtio slots and a bridge.
\<close>

definition example_planner :: planner where
  "example_planner =
     \<lparr>p_args = \<lparr>a_serial = True, a_mmio_slots = 3, a_pci_slots = 1, a_window_bits = 37,
                a_addr_space_bits = 39\<rparr>,
      p_reserved = [mk_range 0 0x200000],
      p_kernel = \<lparr>k_size = 0x400000, k_align = 0x200000, k_min_gpa = 0\<rparr>,
      p_initrd_size = Some 1, p_bootconfig = True, p_relocs_size = Some 4096\<rparr>"

definition example_layout :: layout where
  "example_layout =
     \<lparr>l_serial = Some (mk_range 0x3FFFE00000 0x3FFFE01000),
      l_virtio = [mk_range 0x3FFFE01000 0x3FFFE01200, mk_range 0x3FFFE01200 0x3FFFE01400,
                  mk_range 0x3FFFE01400 0x3FFFE01600],
      l_ecam = Some (mk_range 0x3FFEE00000 0x3FFFE00000),
      l_pci_window = Some (mk_range 0x4000000000 0x6000000000),
      l_linux = mk_range 0x200000 0x600000,
      l_initrd = Some (mk_range 0x600000 0x800000),
      l_bootconfig = Some (mk_range 0x800000 0xA00000),
      l_relocs = Some (mk_range 0xA00000 0xA01000)\<rparr>"

lemma example_bounded: "plan_bounded example_planner"
  by (auto simp: plan_bounded_def example_planner_def intro!: exI [of _ "21::nat"])

lemma example_plan: "plan example_planner = Inr example_layout"
  by code_simp

theorem plan_regions_apart_witness:
  "plan_bounded example_planner \<and> plan example_planner = Inr example_layout \<and>
    sorted_wrt apart (map round_out (memory_regions example_layout) @ devices example_layout)"
  using example_bounded example_plan plan_regions_apart [OF example_bounded example_plan] by blast

theorem plan_avoids_reserved_witness:
  "plan_bounded example_planner \<and> plan example_planner = Inr example_layout \<and>
    list_all (\<lambda>r. clear_of r (p_reserved example_planner))
      (map round_out (ram_regions example_layout) @ devices example_layout)"
  using example_bounded example_plan plan_avoids_reserved [OF example_bounded example_plan]
  unfolding list_all_iff by blast

theorem first_fit_is_least_witness:
  "first_fit 0 0x1000 (2 ^ 21) [mk_range 0 0x200000] ''x'' = Inr (mk_range 0x200000 0x201000) \<and>
    clear_of (mk_range 0x200000 0x201000) [mk_range 0 0x200000]"
proof -
  have "first_fit 0 0x1000 (2 ^ 21) [mk_range 0 0x200000] ''x'' = Inr (mk_range 0x200000 0x201000)"
    by code_simp
  with first_fit_is_least [of 21 "0x1000" 0 "[mk_range 0 0x200000]" "''x''"
      "mk_range 0x200000 0x201000"]
  show ?thesis by (simp add: Let_def)
qed

lemma plan_archive_and_fill_witness:
  "\<exists>a. l_initrd example_layout = Some a \<and> 2 ^ 21 dvd unat (rstart a) \<and>
    unat (rend a) = unat (rstart a) + 2 ^ 21 \<and>
    (\<exists>f. l_bootconfig example_layout = Some f \<and> rstart f = rend a \<and>
      unat (rend f) = unat (rstart f) + 2 ^ 21)"
proof -
  have h: "p_initrd_size example_planner = Some 1" "p_bootconfig example_planner"
    by (simp_all add: example_planner_def)
  have up: "(unat (1 :: u64) + (2 ^ 21 - 1)) div 2 ^ 21 * 2 ^ 21 = 2 ^ 21" and pos: "0 < (1 :: u64)"
    by simp_all
  from plan_archive_and_fill [OF example_bounded example_plan h(1) pos]
  show ?thesis by (simp only: up h(2) if_True)
qed

theorem plan_error_cases_witness:
  "let p = example_planner\<lparr>p_args := (p_args example_planner)\<lparr>a_window_bits := 38\<rparr>\<rparr>
   in plan p = Inl (WindowTooLarge 38 39) \<and> unat (39 :: u32) < unat (38 :: u32) + 2"
proof -
  let ?p = "example_planner\<lparr>p_args := (p_args example_planner)\<lparr>a_window_bits := 38\<rparr>\<rparr>"
  have b: "plan_bounded ?p"
    by (auto simp: plan_bounded_def example_planner_def intro!: exI [of _ "21::nat"])
  have e: "plan ?p = Inl (WindowTooLarge 38 39)" by code_simp
  from plan_error_cases [OF b e] e show ?thesis by (auto simp: Let_def)
qed

text \<open>
  The check that the BAR window fits the address space adds 2 to an unvalidated 32-bit
  option; in a release build the sum wraps, so a window of \<open>u32::MAX\<close> bits passes and is
  then taken modulo 64: a window of \<open>2^63\<close> bytes in a 39-bit address space.
\<close>

lemma window_check_wraps:
  "plan_window \<lparr>a_serial = False, a_mmio_slots = 0, a_pci_slots = 1, a_window_bits = - 1,
     a_addr_space_bits = 39\<rparr> = Inr (Some (mk_range 0x4000000000 0x8000004000000000))"
  by (simp add: plan_window_def shl64_def push_bit_eq_mult unsigned_minus_1_eq_mask
      mask_eq_exp_minus_1)

end
