(* ===== verification/Devtree.thy ===== *)
theory Devtree
  imports Prelude
begin

text \<open>
  The devicetree as the crate \<open>dtb2acpi\<close> sees it.

  The parser is the third-party crate \<open>devtree\<close>; its traits \<open>TreeView\<close>,
  \<open>NodeView\<close> and \<open>PropertyView\<close> are the record \<open>dt_view\<close>, a parameter of
  every definition that reads the tree. \<open>error.rs\<close> gives the error types and \<open>dtb.rs\<close> the
  node wrapper that carries the cell counts of the parent, the \<open>reg\<close> and \<open>ranges\<close>
  iterators and the big-endian cell decoder. An iterator is a record with its position and a
  \<open>next\<close> function; the list it yields is collected with the length of the property as
  fuel, which is enough because every item consumes at least one cell
  (\<open>reg_items_eq\<close>, \<open>pci_items_complete\<close>).

  \<open>dt_tree\<close> is a concrete tree with the documented behaviour of the parser; only the
  witnesses use it.
\<close>

section \<open>Errors (error.rs)\<close>

datatype site = SiteRoot | SiteCpus | SiteCpu | SiteIntc | SitePciHost | SiteMemory
  | SiteSysconPoweroff | SiteSysconReboot | SiteDistanceMap | SiteSerial | SiteVirtioMmio

datatype numa_incomplete = CpuUntagged | MemoryUntagged

datatype dtb_error =
    MissingNode site
  | MissingProperty site string
  | MalformedProperty site string
  | UnsupportedAddressCells site u32
  | UnsupportedSizeCells site u32
  | ValueOutOfRange site string
  | PartialNuma numa_incomplete
  | BootCpuNotEnabled
  | TooManyCpus nat
  | UnsupportedProperty site
  | UnsupportedNode site
  | Internal

datatype emit_error = BufferTooSmall nat nat | EmitDtb dtb_error

text \<open>The text after the site name ends in an em dash, three bytes of UTF-8.\<close>

definition allowed_properties :: "site \<Rightarrow> string" where
  "allowed_properties s = (case s of
     SiteSerial \<Rightarrow> ''compatible, reg, interrupts, interrupt-parent, reg-shift, '' @
       ''reg-io-width, clock-frequency, current-speed''
   | _ \<Rightarrow> ''(coverage rule not yet enforced at this site '' @
       [CHR 0xE2, CHR 0x80, CHR 0x94] @ '' see issue #12)'')"

section \<open>The tree interface\<close>

record ('n, 'p) dt_view =
  tree_root :: 'n
  find_path :: "string \<Rightarrow> 'n option"
  node_name :: "'n \<Rightarrow> string"
  node_children :: "'n \<Rightarrow> 'n list"
  node_child :: "'n \<Rightarrow> string \<Rightarrow> 'n option"
  node_property :: "'n \<Rightarrow> string \<Rightarrow> 'p option"
  node_properties :: "'n \<Rightarrow> 'p list"
  node_property_subset3 :: "'n \<Rightarrow> string \<Rightarrow> string \<Rightarrow> string \<Rightarrow> 'p option \<times> 'p option \<times> 'p option"
  prop_name :: "'p \<Rightarrow> string"
  prop_bytes :: "'p \<Rightarrow> bytes"
  as_u32 :: "'p \<Rightarrow> u32 option"
  as_u32s :: "'p \<Rightarrow> u32 list option"
  as_str :: "'p \<Rightarrow> string option"
  as_strs :: "'p \<Rightarrow> string list option"

section \<open>Cells\<close>

text \<open>\<open>fold_be_cells\<close> advances \<open>pos\<close> in place, also when it then fails; the new
  position is the second component.\<close>

fun fold_be_loop :: "bytes \<Rightarrow> u64 \<Rightarrow> nat \<Rightarrow> nat \<Rightarrow> u64 option \<times> nat" where
  "fold_be_loop raw acc pos 0 = (Some acc, pos)"
| "fold_be_loop raw acc pos (Suc n) =
    (case usize_add pos 4 of
       None \<Rightarrow> (None, pos)
     | Some e \<Rightarrow>
        (case get_range raw pos e of
           None \<Rightarrow> (None, pos)
         | Some s \<Rightarrow> fold_be_loop raw (push_bit 32 acc OR ucast (from_be s :: u32)) e n))"

definition fold_be_cells :: "bytes \<Rightarrow> nat \<Rightarrow> u32 \<Rightarrow> u64 option \<times> nat" where
  "fold_be_cells raw pos n_cells = fold_be_loop raw 0 pos (unat n_cells)"

text \<open>\<open>as_chunks::<4>().0\<close>: the whole chunks, a shorter rest is dropped.\<close>

fun chunks4 :: "'a list \<Rightarrow> 'a list list" where
  "chunks4 (a # b # c # d # xs) = [a, b, c, d] # chunks4 xs"
| "chunks4 _ = []"

definition cells_as_u32s :: "bytes \<Rightarrow> u32 list" where
  "cells_as_u32s raw = map from_be (chunks4 raw)"

section \<open>reg\<close>

record reg_iter =
  ri_raw :: bytes
  ri_addr_cells :: u32
  ri_size_cells :: u32
  ri_pos :: nat

definition reg_iter_new :: "bytes \<Rightarrow> u32 \<Rightarrow> u32 \<Rightarrow> site \<Rightarrow> dtb_error + reg_iter" where
  "reg_iter_new raw addr_cells size_cells st =
    (if \<not> (1 \<le> addr_cells \<and> addr_cells \<le> 2) then Inl (UnsupportedAddressCells st addr_cells)
     else if \<not> size_cells \<le> 2 then Inl (UnsupportedSizeCells st size_cells)
     else Inr \<lparr>ri_raw = raw, ri_addr_cells = addr_cells, ri_size_cells = size_cells, ri_pos = 0\<rparr>)"

definition reg_next :: "reg_iter \<Rightarrow> (u64 \<times> u64) option \<times> reg_iter" where
  "reg_next it =
    (case fold_be_cells (ri_raw it) (ri_pos it) (ri_addr_cells it) of
       (None, p) \<Rightarrow> (None, it\<lparr>ri_pos := p\<rparr>)
     | (Some base, p) \<Rightarrow>
        (case fold_be_cells (ri_raw it) p (ri_size_cells it) of
           (None, q) \<Rightarrow> (None, it\<lparr>ri_pos := q\<rparr>)
         | (Some sz, q) \<Rightarrow> (Some (base, sz), it\<lparr>ri_pos := q\<rparr>)))"

fun reg_collect :: "nat \<Rightarrow> reg_iter \<Rightarrow> (u64 \<times> u64) list" where
  "reg_collect 0 it = []"
| "reg_collect (Suc fuel) it =
    (case reg_next it of
       (None, _) \<Rightarrow> []
     | (Some r, it') \<Rightarrow> r # reg_collect fuel it')"

text \<open>The items a \<open>for\<close> loop over the iterator sees.\<close>

definition reg_items :: "reg_iter \<Rightarrow> (u64 \<times> u64) list" where
  "reg_items it = reg_collect (length (ri_raw it)) it"

section \<open>ranges of a PCI host bridge\<close>

record pci_range =
  space_code :: u8
  parent_addr :: u64
  range_size :: u64

record pci_ranges_iter =
  pi_raw :: bytes
  pi_parent_addr_cells :: u32
  pi_pos :: nat

definition pci_ranges_iter_new :: "bytes \<Rightarrow> u32 \<Rightarrow> site \<Rightarrow> dtb_error + pci_ranges_iter" where
  "pci_ranges_iter_new raw cells st =
    (if \<not> (1 \<le> cells \<and> cells \<le> 2) then Inl (UnsupportedAddressCells st cells)
     else Inr \<lparr>pi_raw = raw, pi_parent_addr_cells = cells, pi_pos = 0\<rparr>)"

definition pci_next :: "pci_ranges_iter \<Rightarrow> pci_range option \<times> pci_ranges_iter" where
  "pci_next it =
    (case fold_be_cells (pi_raw it) (pi_pos it) 1 of
       (None, p) \<Rightarrow> (None, it\<lparr>pi_pos := p\<rparr>)
     | (Some phys_hi, p) \<Rightarrow>
    (case fold_be_cells (pi_raw it) p 2 of
       (None, q) \<Rightarrow> (None, it\<lparr>pi_pos := q\<rparr>)
     | (Some _, q) \<Rightarrow>
    (case fold_be_cells (pi_raw it) q (pi_parent_addr_cells it) of
       (None, r) \<Rightarrow> (None, it\<lparr>pi_pos := r\<rparr>)
     | (Some addr, r) \<Rightarrow>
    (case fold_be_cells (pi_raw it) r 2 of
       (None, t) \<Rightarrow> (None, it\<lparr>pi_pos := t\<rparr>)
     | (Some sz, t) \<Rightarrow>
        (Some \<lparr>space_code = ucast (drop_bit 24 phys_hi AND 3), parent_addr = addr, range_size = sz\<rparr>,
         it\<lparr>pi_pos := t\<rparr>)))))"

fun pci_collect :: "nat \<Rightarrow> pci_ranges_iter \<Rightarrow> pci_range list" where
  "pci_collect 0 it = []"
| "pci_collect (Suc fuel) it =
    (case pci_next it of
       (None, _) \<Rightarrow> []
     | (Some r, it') \<Rightarrow> r # pci_collect fuel it')"

definition pci_items :: "pci_ranges_iter \<Rightarrow> pci_range list" where
  "pci_items it = pci_collect (length (pi_raw it)) it"

section \<open>Nodes\<close>

record 'n dtb_node =
  dn_node :: 'n
  parent_addr_cells :: u32
  parent_size_cells :: u32
  dn_site :: site

definition root_of :: "'n \<Rightarrow> 'n dtb_node" where
  "root_of r = \<lparr>dn_node = r, parent_addr_cells = 2, parent_size_cells = 1, dn_site = SiteRoot\<rparr>"

definition property_u32_opt ::
  "('n, 'p) dt_view \<Rightarrow> 'n dtb_node \<Rightarrow> string \<Rightarrow> dtb_error + u32 option" where
  "property_u32_opt V n name =
    (case node_property V (dn_node n) name of
       None \<Rightarrow> Inr None
     | Some p \<Rightarrow>
        rbind (ok_or (MalformedProperty (dn_site n) name) (as_u32 V p)) (\<lambda>v. Inr (Some v)))"

definition own_cells :: "('n, 'p) dt_view \<Rightarrow> 'n dtb_node \<Rightarrow> dtb_error + u32 \<times> u32" where
  "own_cells V n =
    rbind (property_u32_opt V n ''#address-cells'') (\<lambda>a.
    rbind (property_u32_opt V n ''#size-cells'') (\<lambda>s.
      Inr (case a of None \<Rightarrow> 2 | Some x \<Rightarrow> x, case s of None \<Rightarrow> 1 | Some x \<Rightarrow> x)))"

definition child ::
  "('n, 'p) dt_view \<Rightarrow> 'n dtb_node \<Rightarrow> string \<Rightarrow> site \<Rightarrow> dtb_error + 'n dtb_node option" where
  "child V n name child_site =
    (case node_child V (dn_node n) name of
       None \<Rightarrow> Inr None
     | Some c \<Rightarrow>
        rbind (own_cells V n) (\<lambda>(a, s).
          Inr (Some \<lparr>dn_node = c, parent_addr_cells = a, parent_size_cells = s,
                     dn_site = child_site\<rparr>)))"

definition children :: "('n, 'p) dt_view \<Rightarrow> 'n dtb_node \<Rightarrow> dtb_error + 'n dtb_node list" where
  "children V n =
    rbind (own_cells V n) (\<lambda>(a, s).
      Inr (map (\<lambda>c. \<lparr>dn_node = c, parent_addr_cells = a, parent_size_cells = s,
                      dn_site = dn_site n\<rparr>)
               (node_children V (dn_node n))))"

definition dn_name :: "('n, 'p) dt_view \<Rightarrow> 'n dtb_node \<Rightarrow> string" where
  "dn_name V n = node_name V (dn_node n)"

definition has_compatible ::
  "('n, 'p) dt_view \<Rightarrow> 'n dtb_node \<Rightarrow> string \<Rightarrow> dtb_error + bool" where
  "has_compatible V n want =
    (case node_property V (dn_node n) ''compatible'' of
       None \<Rightarrow> Inr False
     | Some p \<Rightarrow>
        rbind (ok_or (MalformedProperty (dn_site n) ''compatible'') (as_strs V p)) (\<lambda>ss.
          Inr (list_ex (\<lambda>s. s = want) ss)))"

definition reg ::
  "('n, 'p) dt_view \<Rightarrow> 'n dtb_node \<Rightarrow> site \<Rightarrow> dtb_error + reg_iter" where
  "reg V n st =
    rbind (ok_or (MissingProperty st ''reg'') (node_property V (dn_node n) ''reg'')) (\<lambda>p.
      reg_iter_new (prop_bytes V p) (parent_addr_cells n) (parent_size_cells n) st)"

definition property_u32 ::
  "('n, 'p) dt_view \<Rightarrow> 'n dtb_node \<Rightarrow> string \<Rightarrow> site \<Rightarrow> dtb_error + u32" where
  "property_u32 V n name st =
    rbind (ok_or (MissingProperty st name) (node_property V (dn_node n) name)) (\<lambda>p.
      ok_or (MalformedProperty st name) (as_u32 V p))"

definition decode_interrupts_2 ::
  "('n, 'p) dt_view \<Rightarrow> 'n dtb_node \<Rightarrow> site \<Rightarrow> dtb_error + u32 \<times> u32" where
  "decode_interrupts_2 V n st =
    rbind (ok_or (MissingProperty st ''interrupts'') (node_property V (dn_node n) ''interrupts'')) (\<lambda>p.
    rbind (ok_or (MalformedProperty st ''interrupts'') (as_u32s V p)) (\<lambda>cells.
      case cells of
        [gsi, sense] \<Rightarrow> Inr (gsi, sense)
      | _ \<Rightarrow> Inl (MalformedProperty st ''interrupts'')))"

definition pci_ranges ::
  "('n, 'p) dt_view \<Rightarrow> 'n dtb_node \<Rightarrow> dtb_error + pci_ranges_iter option" where
  "pci_ranges V n =
    (case node_property V (dn_node n) ''ranges'' of
       None \<Rightarrow> Inr None
     | Some p \<Rightarrow>
        rbind (pci_ranges_iter_new (prop_bytes V p) (parent_addr_cells n) SitePciHost) (\<lambda>it.
          Inr (Some it)))"

section \<open>What the decoders return\<close>

text \<open>Enough bytes: the cells are the big-endian number at the position. Too few: \<open>None\<close>.\<close>

lemma fold_be_loop_enough:
  assumes "pos + 4 * n \<le> length raw" and "length raw \<le> usize_max"
  shows "fold_be_loop raw acc pos n =
    (Some (push_bit (32 * n) acc OR from_be (take (4 * n) (drop pos raw))), pos + 4 * n)"
  using assms(1)
proof (induction n arbitrary: acc pos)
  case (Suc n)
  have len: "length (take 4 (drop pos raw)) = 4" using Suc.prems by simp
  have split: "take (4 * Suc n) (drop pos raw) = take 4 (drop pos raw) @ take (4 * n) (drop (pos + 4) raw)"
    by (simp add: take_add add.commute)
  have len2: "length (take (4 * n) (drop (pos + 4) raw)) = 4 * n" using Suc.prems by simp
  have step: "fold_be_loop raw acc pos (Suc n) = fold_be_loop raw
      (push_bit 32 acc OR ucast (from_be (take 4 (drop pos raw)) :: u32)) (pos + 4) n"
    using Suc.prems assms(2) by (simp add: usize_add_def get_range_def)
  have "(ucast (from_be (take 4 (drop pos raw)) :: u32) :: u64) = from_be (take 4 (drop pos raw))"
    by (rule ucast_from_be) (simp_all add: len)
  then show ?case
    unfolding step split using Suc.prems len2
    by (simp add: Suc.IH from_be_append push_bit_or push_bit_push_bit or.assoc add.commute)
qed simp

lemma fold_be_loop_short:
  assumes "length raw < pos + 4 * n" and "0 < n" and "length raw \<le> usize_max"
  shows "fst (fold_be_loop raw acc pos n) = None"
  using assms(1,2)
proof (induction n arbitrary: acc pos)
  case (Suc n)
  show ?case
  proof (cases "pos + 4 \<le> length raw")
    case True
    then have "0 < n" using Suc.prems(1) by (cases n) simp_all
    then have "\<And>acc. fst (fold_be_loop raw acc (pos + 4) n) = None"
      using Suc.prems(1) by (intro Suc.IH) simp_all
    with True show ?thesis using assms(3) by (simp add: usize_add_def get_range_def)
  next
    case False
    then show ?thesis by (simp add: usize_add_def get_range_def)
  qed
qed simp

lemma fold_be_cells_enough:
  "pos + 4 * unat n \<le> length raw \<Longrightarrow> length raw \<le> usize_max \<Longrightarrow>
    fold_be_cells raw pos n = (Some (from_be (take (4 * unat n) (drop pos raw))), pos + 4 * unat n)"
  by (simp add: fold_be_cells_def fold_be_loop_enough)

lemma fold_be_cells_short:
  assumes "length raw < pos + 4 * unat n" and "0 < unat n" and "length raw \<le> usize_max"
  obtains p where "fold_be_cells raw pos n = (None, p)"
  using fold_be_loop_short [OF assms, of 0] that
  by (metis fold_be_cells_def prod.collapse)

definition reg_stride :: "reg_iter \<Rightarrow> nat" where
  "reg_stride it = 4 * unat (ri_addr_cells it) + 4 * unat (ri_size_cells it)"

definition reg_item :: "reg_iter \<Rightarrow> nat \<Rightarrow> u64 \<times> u64" where
  "reg_item it p =
    (from_be (take (4 * unat (ri_addr_cells it)) (drop p (ri_raw it))),
     from_be (take (4 * unat (ri_size_cells it)) (drop (p + 4 * unat (ri_addr_cells it)) (ri_raw it))))"

lemma reg_next_enough:
  assumes "ri_pos it + reg_stride it \<le> length (ri_raw it)" and "length (ri_raw it) \<le> usize_max"
  shows "reg_next it = (Some (reg_item it (ri_pos it)), it\<lparr>ri_pos := ri_pos it + reg_stride it\<rparr>)"
  using assms
  by (simp add: reg_next_def reg_stride_def fold_be_cells_enough reg_item_def add.assoc)

lemma reg_next_short:
  assumes "length (ri_raw it) < ri_pos it + reg_stride it" and "0 < unat (ri_addr_cells it)"
    and "length (ri_raw it) \<le> usize_max"
  obtains it' where "reg_next it = (None, it')"
proof (cases "ri_pos it + 4 * unat (ri_addr_cells it) \<le> length (ri_raw it)")
  case True
  let ?p = "ri_pos it + 4 * unat (ri_addr_cells it)"
  have "length (ri_raw it) < ?p + 4 * unat (ri_size_cells it)" "0 < unat (ri_size_cells it)"
    using assms(1) True by (auto simp: reg_stride_def)
  from fold_be_cells_short [OF this assms(3)] obtain q where
    q: "fold_be_cells (ri_raw it) ?p (ri_size_cells it) = (None, q)" by metis
  show ?thesis
    by (rule that) (simp add: reg_next_def fold_be_cells_enough [OF True assms(3)] q)
next
  case False
  then have "length (ri_raw it) < ri_pos it + 4 * unat (ri_addr_cells it)" by simp
  from fold_be_cells_short [OF this assms(2,3)] obtain q where
    q: "fold_be_cells (ri_raw it) (ri_pos it) (ri_addr_cells it) = (None, q)" by metis
  show ?thesis by (rule that) (simp add: reg_next_def q)
qed

lemma reg_collect_eq:
  assumes "0 < unat (ri_addr_cells it)" and "length (ri_raw it) \<le> usize_max"
    and "(length (ri_raw it) - ri_pos it) div reg_stride it \<le> fuel"
  shows "reg_collect fuel it = map (\<lambda>i. reg_item it (ri_pos it + i * reg_stride it))
    [0..<(length (ri_raw it) - ri_pos it) div reg_stride it]"
  using assms
proof (induction fuel arbitrary: it)
  case (Suc fuel)
  have pos: "0 < reg_stride it" using Suc.prems(1) by (simp add: reg_stride_def)
  show ?case
  proof (cases "ri_pos it + reg_stride it \<le> length (ri_raw it)")
    case True
    let ?it = "it\<lparr>ri_pos := ri_pos it + reg_stride it\<rparr>"
    have st: "reg_stride ?it = reg_stride it" by (simp add: reg_stride_def)
    have itm: "reg_item ?it = reg_item it" by (simp add: reg_item_def fun_eq_iff)
    have n: "(length (ri_raw it) - ri_pos it) div reg_stride it
        = Suc ((length (ri_raw it) - (ri_pos it + reg_stride it)) div reg_stride it)"
    proof -
      have "length (ri_raw it) - ri_pos it
          = reg_stride it + (length (ri_raw it) - (ri_pos it + reg_stride it))" using True by simp
      then show ?thesis using pos by (metis add.commute div_add_self2 less_numeral_extra(3) plus_1_eq_Suc)
    qed
    have IH: "reg_collect fuel ?it = map (\<lambda>i. reg_item it (ri_pos it + reg_stride it + i * reg_stride it))
      [0..<(length (ri_raw it) - (ri_pos it + reg_stride it)) div reg_stride it]"
      using Suc.IH [of ?it] Suc.prems n by (simp add: st itm)
    show ?thesis
      unfolding n upt_conv_Cons [OF zero_less_Suc] using reg_next_enough [OF True Suc.prems(2)] IH
      by (simp add: map_Suc_upt [symmetric] add.assoc del: upt_Suc)
  next
    case False
    then have "length (ri_raw it) < ri_pos it + reg_stride it" by simp
    then obtain it' where "reg_next it = (None, it')"
      by (rule reg_next_short) (use Suc.prems in auto)
    with False pos show ?thesis by simp
  qed
qed simp


lemma reg_iter_new_Inr:
  "reg_iter_new raw a s st = Inr it \<longleftrightarrow> 1 \<le> a \<and> a \<le> 2 \<and> s \<le> 2 \<and>
    it = \<lparr>ri_raw = raw, ri_addr_cells = a, ri_size_cells = s, ri_pos = 0\<rparr>"
  by (auto simp: reg_iter_new_def)

lemma addr_cells_pos: "1 \<le> a \<Longrightarrow> 0 < unat a" for a :: u32
  by (metis gr0I not_less unat_eq_zero word_le_0_iff zero_neq_one word_not_simps(3) word_zero_le antisym)

lemma reg_items_eq:
  assumes "reg_iter_new raw a s st = Inr it" and "length raw \<le> usize_max"
  shows "reg_items it = map (\<lambda>i. reg_item it (i * reg_stride it)) [0..<length raw div reg_stride it]"
proof -
  have "reg_collect (length raw) it = map (\<lambda>i. reg_item it (ri_pos it + i * reg_stride it))
      [0..<(length (ri_raw it) - ri_pos it) div reg_stride it]"
    by (rule reg_collect_eq) (use assms in \<open>auto simp: reg_iter_new_Inr addr_cells_pos\<close>)
  with assms show ?thesis by (auto simp: reg_items_def reg_iter_new_Inr)
qed

definition enc_reg :: "u32 \<Rightarrow> u32 \<Rightarrow> u64 \<times> u64 \<Rightarrow> bytes" where
  "enc_reg a s r = be_bytes (4 * unat a) (fst r) @ be_bytes (4 * unat s) (snd r)"

definition reg_fits :: "u32 \<Rightarrow> u32 \<Rightarrow> u64 \<times> u64 \<Rightarrow> bool" where
  "reg_fits a s r = (take_bit (32 * unat a) (fst r) = fst r \<and> take_bit (32 * unat s) (snd r) = snd r)"

text \<open>Decoding a \<open>reg\<close> property gives back the (base, size) pairs it encodes, for every
  supported combination of \<open>#address-cells\<close> and \<open>#size-cells\<close>: the iterator of
  \<open>dtb.rs\<close> yields each pair once, in order, and stops at the end of the property.\<close>

lemma reg_items_roundtrip:
  assumes new: "reg_iter_new (concat (map (enc_reg a s) rs)) a s st = Inr it"
    and fits: "list_all (reg_fits a s) rs"
    and len: "length (concat (map (enc_reg a s) rs)) \<le> usize_max"
  shows "reg_items it = rs"
proof (rule nth_equalityI)
  let ?k = "4 * unat a + 4 * unat s"
  have k: "\<And>r. length (enc_reg a s r) = ?k" by (simp add: enc_reg_def)
  have it: "it = \<lparr>ri_raw = concat (map (enc_reg a s) rs), ri_addr_cells = a, ri_size_cells = s, ri_pos = 0\<rparr>"
    and a: "0 < unat a"
    using new by (auto simp: reg_iter_new_Inr addr_cells_pos)
  have stride: "reg_stride it = ?k" by (simp add: reg_stride_def it)
  have n: "length (concat (map (enc_reg a s) rs)) div ?k = length rs"
    using a by (simp add: length_concat_map [of rs, OF k])
  have eq: "reg_items it = map (\<lambda>i. reg_item it (i * ?k)) [0..<length rs]"
    using reg_items_eq [OF new len] by (simp only: stride n)
  then show "length (reg_items it) = length rs" by simp
  fix i assume "i < length (reg_items it)"
  then have i: "i < length rs" by (simp add: eq)
  have slice: "take ?k (drop (i * ?k) (concat (map (enc_reg a s) rs))) = enc_reg a s (rs ! i)"
    by (rule concat_slice [OF k i])
  have "take (4 * unat a) (drop (i * ?k) (ri_raw it)) = take (4 * unat a) (enc_reg a s (rs ! i))"
    unfolding slice [symmetric] by (simp add: it min_def)
  moreover have "take (4 * unat s) (drop (i * ?k + 4 * unat a) (ri_raw it)) = drop (4 * unat a) (enc_reg a s (rs ! i))"
    unfolding slice [symmetric] by (simp add: it drop_take add.commute)
  moreover have "reg_fits a s (rs ! i)" using fits i by (simp add: list_all_length)
  ultimately have "reg_item it (i * ?k) = rs ! i"
    by (simp add: reg_item_def it enc_reg_def reg_fits_def from_be_be_bytes)
  then show "reg_items it ! i = rs ! i" using i by (simp add: eq)
qed


lemma reg_items_roundtrip_witness:
  "reg_items \<lparr>ri_raw = concat (map (enc_reg 2 1) [(0x100000000, 0x1000), (0xfee00000, 0x20)]),
     ri_addr_cells = 2, ri_size_cells = 1, ri_pos = 0\<rparr> = [(0x100000000, 0x1000), (0xfee00000, 0x20)]"
proof (rule reg_items_roundtrip)
  show "reg_iter_new (concat (map (enc_reg 2 1) [(0x100000000, 0x1000), (0xfee00000, 0x20)])) 2 1 SiteMemory =
    Inr \<lparr>ri_raw = concat (map (enc_reg 2 1) [(0x100000000, 0x1000), (0xfee00000, 0x20)]),
     ri_addr_cells = 2, ri_size_cells = 1, ri_pos = 0\<rparr>"
    by (simp add: reg_iter_new_def)
  show "list_all (reg_fits 2 1) [(0x100000000, 0x1000), (0xfee00000, 0x20)]"
    by code_simp
  show "length (concat (map (enc_reg 2 1) [(0x100000000, 0x1000), (0xfee00000, 0x20)])) \<le> usize_max"
    by (simp add: enc_reg_def usize_max_def)
qed

section \<open>ranges\<close>

definition pci_stride :: "pci_ranges_iter \<Rightarrow> nat" where
  "pci_stride it = 20 + 4 * unat (pi_parent_addr_cells it)"

definition pci_item :: "pci_ranges_iter \<Rightarrow> nat \<Rightarrow> pci_range" where
  "pci_item it p = (let c = 4 * unat (pi_parent_addr_cells it) in
    \<lparr>space_code = ucast (drop_bit 24 (from_be (take 4 (drop p (pi_raw it))) :: u64) AND 3),
     parent_addr = from_be (take c (drop (p + 12) (pi_raw it))),
     range_size = from_be (take 8 (drop (p + 12 + c) (pi_raw it)))\<rparr>)"

lemma pci_next_enough:
  assumes "pi_pos it + pci_stride it \<le> length (pi_raw it)" and "length (pi_raw it) \<le> usize_max"
  shows "pci_next it = (Some (pci_item it (pi_pos it)), it\<lparr>pi_pos := pi_pos it + pci_stride it\<rparr>)"
  using assms
  by (simp add: pci_next_def pci_stride_def fold_be_cells_enough pci_item_def add.assoc Let_def)

lemma fold_be_cells_cases:
  assumes "length raw \<le> usize_max"
  obtains (some) v where "fold_be_cells raw pos n = (Some v, pos + 4 * unat n)"
      "unat n = 0 \<or> pos + 4 * unat n \<le> length raw"
    | (none) p where "fold_be_cells raw pos n = (None, p)"
proof (cases "unat n = 0 \<or> pos + 4 * unat n \<le> length raw")
  case True
  then show ?thesis
  proof
    assume "unat n = 0"
    then show ?thesis by (intro some) (simp_all add: fold_be_cells_def)
  next
    assume "pos + 4 * unat n \<le> length raw"
    then show ?thesis by (intro some) (simp_all add: fold_be_cells_enough assms)
  qed
next
  case False
  then have "length raw < pos + 4 * unat n" "0 < unat n" by simp_all
  then obtain p where "fold_be_cells raw pos n = (None, p)"
    by (rule fold_be_cells_short [OF _ _ assms])
  then show ?thesis by (rule none)
qed

lemma pci_next_short:
  assumes "length (pi_raw it) < pi_pos it + pci_stride it" and "length (pi_raw it) \<le> usize_max"
  obtains it' where "pci_next it = (None, it')"
proof -
  let ?p1 = "pi_pos it + 4" and ?c = "4 * unat (pi_parent_addr_cells it)"
  consider "length (pi_raw it) < pi_pos it + 4"
    | "pi_pos it + 4 \<le> length (pi_raw it)" "length (pi_raw it) < pi_pos it + 12"
    | "pi_pos it + 12 \<le> length (pi_raw it)" "length (pi_raw it) < pi_pos it + 20 + ?c"
    using assms(1) by (auto simp: pci_stride_def) linarith
  then show ?thesis
  proof cases
    case 1
    obtain q where "fold_be_cells (pi_raw it) (pi_pos it) 1 = (None, q)"
      by (rule fold_be_cells_short [of "pi_raw it" "pi_pos it" 1]) (use 1 assms(2) in auto)
    then show ?thesis by (intro that) (simp add: pci_next_def)
  next
    case 2
    obtain q where "fold_be_cells (pi_raw it) (pi_pos it + 4) 2 = (None, q)"
      by (rule fold_be_cells_short [of "pi_raw it" "pi_pos it + 4" 2]) (use 2 assms(2) in auto)
    then show ?thesis using 2 by (intro that) (simp add: pci_next_def fold_be_cells_enough assms(2))
  next
    case 3
    note e = fold_be_cells_enough [of _ _ "pi_raw it", OF _ assms(2)]
    show ?thesis
    proof (cases rule: fold_be_cells_cases
        [OF assms(2), of "pi_pos it + 12" "pi_parent_addr_cells it", case_names some none])
      case (some v)
      obtain q where "fold_be_cells (pi_raw it) (pi_pos it + 12 + ?c) 2 = (None, q)"
        by (rule fold_be_cells_short [of "pi_raw it" "pi_pos it + 12 + ?c" 2]) (use 3 assms(2) in auto)
      then show ?thesis using 3 some by (intro that) (simp add: pci_next_def e add.assoc)
    next
      case (none q)
      then show ?thesis using 3 by (intro that) (simp add: pci_next_def e add.assoc)
    qed
  qed
qed

lemma pci_collect_eq:
  assumes "length (pi_raw it) \<le> usize_max"
    and "(length (pi_raw it) - pi_pos it) div pci_stride it \<le> fuel"
  shows "pci_collect fuel it = map (\<lambda>i. pci_item it (pi_pos it + i * pci_stride it))
    [0..<(length (pi_raw it) - pi_pos it) div pci_stride it]"
  using assms
proof (induction fuel arbitrary: it)
  case (Suc fuel)
  have pos: "0 < pci_stride it" by (simp add: pci_stride_def)
  show ?case
  proof (cases "pi_pos it + pci_stride it \<le> length (pi_raw it)")
    case True
    let ?it = "it\<lparr>pi_pos := pi_pos it + pci_stride it\<rparr>"
    have st: "pci_stride ?it = pci_stride it" by (simp add: pci_stride_def)
    have itm: "pci_item ?it = pci_item it" by (simp add: pci_item_def fun_eq_iff)
    have n: "(length (pi_raw it) - pi_pos it) div pci_stride it
        = Suc ((length (pi_raw it) - (pi_pos it + pci_stride it)) div pci_stride it)"
    proof -
      have "length (pi_raw it) - pi_pos it
          = pci_stride it + (length (pi_raw it) - (pi_pos it + pci_stride it))" using True by simp
      then show ?thesis using pos by (metis add.commute div_add_self2 less_numeral_extra(3) plus_1_eq_Suc)
    qed
    have IH: "pci_collect fuel ?it = map (\<lambda>i. pci_item it (pi_pos it + pci_stride it + i * pci_stride it))
      [0..<(length (pi_raw it) - (pi_pos it + pci_stride it)) div pci_stride it]"
      using Suc.IH [of ?it] Suc.prems n by (simp add: st itm)
    show ?thesis
      unfolding n upt_conv_Cons [OF zero_less_Suc] using pci_next_enough [OF True Suc.prems(1)] IH
      by (simp add: map_Suc_upt [symmetric] add.assoc del: upt_Suc)
  next
    case False
    then have "length (pi_raw it) < pi_pos it + pci_stride it" by simp
    then obtain it' where "pci_next it = (None, it')"
      by (rule pci_next_short) (use Suc.prems in auto)
    with False pos show ?thesis by simp
  qed
qed simp

text \<open>The collected list is every whole entry of the property, so the fuel is enough.\<close>

lemma pci_items_complete:
  assumes "pci_ranges_iter_new raw c st = Inr it" and "length raw \<le> usize_max"
  shows "pci_items it = map (\<lambda>i. pci_item it (i * pci_stride it)) [0..<length raw div pci_stride it]"
proof -
  have it: "it = \<lparr>pi_raw = raw, pi_parent_addr_cells = c, pi_pos = 0\<rparr>"
    using assms(1) by (auto simp: pci_ranges_iter_new_def split: if_splits)
  have "pci_collect (length raw) it = map (\<lambda>i. pci_item it (pi_pos it + i * pci_stride it))
      [0..<(length (pi_raw it) - pi_pos it) div pci_stride it]"
    by (rule pci_collect_eq) (use assms(2) in \<open>simp_all add: it\<close>)
  then show ?thesis by (simp add: pci_items_def it)
qed

section \<open>A concrete tree for the witnesses\<close>

datatype dnode = DNode string "(string \<times> bytes) list" "dnode list"

fun dnode_name :: "dnode \<Rightarrow> string" where
  "dnode_name (DNode n _ _) = n"

fun dnode_props :: "dnode \<Rightarrow> (string \<times> bytes) list" where
  "dnode_props (DNode _ ps _) = ps"

fun dnode_children :: "dnode \<Rightarrow> dnode list" where
  "dnode_children (DNode _ _ cs) = cs"

fun find_first :: "('a \<Rightarrow> bool) \<Rightarrow> 'a list \<Rightarrow> 'a option" where
  "find_first p [] = None"
| "find_first p (x # xs) = (if p x then Some x else find_first p xs)"

fun split_on :: "'a \<Rightarrow> 'a list \<Rightarrow> 'a list list" where
  "split_on a [] = [[]]"
| "split_on a (x # xs) =
    (if x = a then [] # split_on a xs
     else (case split_on a xs of [] \<Rightarrow> [[x]] | y # ys \<Rightarrow> (x # y) # ys))"

fun dnode_descend :: "string list \<Rightarrow> dnode \<Rightarrow> dnode option" where
  "dnode_descend [] n = Some n"
| "dnode_descend (s # ss) n =
    (case find_first (\<lambda>c. dnode_name c = s) (dnode_children n) of
       None \<Rightarrow> None | Some c \<Rightarrow> dnode_descend ss c)"

definition nul_strings :: "bytes \<Rightarrow> string list option" where
  "nul_strings bs = (if bs = [] \<or> last bs \<noteq> 0 then None
    else Some (map (map (\<lambda>b. char_of (uint b))) (split_on 0 (butlast bs))))"

definition str_bytes :: "string \<Rightarrow> bytes" where
  "str_bytes s = map of_char s"

definition nul_str :: "string \<Rightarrow> bytes" where
  "nul_str s = str_bytes s @ [0]"

definition prop_of :: "dnode \<Rightarrow> string \<Rightarrow> (string \<times> bytes) option" where
  "prop_of n name = find_first (\<lambda>p. fst p = name) (dnode_props n)"

definition dt_tree :: "dnode \<Rightarrow> (dnode, string \<times> bytes) dt_view" where
  "dt_tree r = \<lparr>
     tree_root = r,
     find_path = (\<lambda>path. dnode_descend (filter (\<lambda>s. s \<noteq> []) (split_on CHR ''/'' path)) r),
     node_name = dnode_name,
     node_children = dnode_children,
     node_child = (\<lambda>n name. find_first (\<lambda>c. dnode_name c = name) (dnode_children n)),
     node_property = prop_of,
     node_properties = dnode_props,
     node_property_subset3 = (\<lambda>n a b c. (prop_of n a, prop_of n b, prop_of n c)),
     prop_name = fst,
     prop_bytes = snd,
     as_u32 = (\<lambda>p. if length (snd p) = 4 then Some (from_be (snd p)) else None),
     as_u32s = (\<lambda>p. if length (snd p) mod 4 = 0 then Some (map from_be (chunks4 (snd p))) else None),
     as_str = (\<lambda>p. case nul_strings (snd p) of Some [s] \<Rightarrow> Some s | _ \<Rightarrow> None),
     as_strs = (\<lambda>p. nul_strings (snd p))\<rparr>"

text \<open>Property values as the compiler of a tree writes them.\<close>

definition u32_cells :: "u32 list \<Rightarrow> bytes" where
  "u32_cells ws = concat (map (be_bytes 4) ws)"

end
