(* ===== verification/Acpi.thy ===== *)
theory Acpi
  imports Devtree
begin

text \<open>
  The bytes of an ACPI table: \<open>oem.rs\<close>, the helpers of \<open>emit/mod.rs\<close> and the
  header and register descriptors of \<open>emit/sdt.rs\<close>.

  A function that fills a \<open>&mut [u8]\<close> returns the new contents of the slice, with the
  position after the write where the source returns one. After an error the caller does not
  look at the slice, so the error carries no contents. A \<open>repr(C)\<close> structure with
  \<open>zerocopy\<close>'s \<open>IntoBytes\<close> is a record and a function to its bytes, field by
  field, little-endian.

  \<open>write_entry_compose\<close> is the algebra of the writers: writing \<open>a\<close> and then
  \<open>b\<close> behind it is writing \<open>a @ b\<close>, errors included. The locale
  \<open>table_emitter\<close> is the contract between a table module and
  \<open>AcpiBuffer::populate\<close>; each table module interprets it.
\<close>

unbundle bit_operations_syntax

section \<open>oem.rs\<close>

record oem_identity =
  oem_id :: bytes
  oem_table_id :: bytes
  oem_revision :: u32
  creator_id :: bytes
  creator_revision :: u32

text \<open>The array lengths of the structure.\<close>

definition oem_ok :: "oem_identity \<Rightarrow> bool" where
  "oem_ok oem = (length (oem_id oem) = 6 \<and> length (oem_table_id oem) = 8 \<and> length (creator_id oem) = 4)"

text \<open>An identity for the witnesses.\<close>

definition demo_oem :: oem_identity where
  "demo_oem = \<lparr>oem_id = str_bytes ''DEMO  '', oem_table_id = str_bytes ''DEMOTABL'', oem_revision = 1,
    creator_id = str_bytes ''DEMO'', creator_revision = 1\<rparr>"

section \<open>emit/mod.rs\<close>

definition u32_of_len :: "nat \<Rightarrow> u32 option" where
  "u32_of_len n = (if n < 2 ^ 32 then Some (word_of_nat n) else None)"

lemma u32_of_len_code [code]:
  "u32_of_len n = (if int n < 0x100000000 then Some (word_of_int (int n)) else None)"
  by (auto simp: u32_of_len_def)

definition sdt_length_from_slot :: "bytes \<Rightarrow> dtb_error + u32" where
  "sdt_length_from_slot slot = ok_or Internal (u32_of_len (length slot))"

definition sum_bytes :: "bytes \<Rightarrow> u8" where
  "sum_bytes bs = foldl (+) 0 bs"

definition checksum :: "bytes \<Rightarrow> u8" where
  "checksum bs = 0 - sum_bytes bs"

definition set_sdt_checksum :: "bytes \<Rightarrow> dtb_error + bytes" where
  "set_sdt_checksum slot =
    (if 9 < length slot
     then (let s = slot[9 := 0]; c = checksum s in Inr (s[9 := c]))
     else Inl Internal)"

definition write_header :: "bytes \<Rightarrow> bytes \<Rightarrow> dtb_error + bytes" where
  "write_header slot h =
    rbind (ok_or Internal (get_range slot 0 (length h))) (\<lambda>_. Inr (copy_at slot 0 h))"

definition write_entry :: "bytes \<Rightarrow> nat \<Rightarrow> bytes \<Rightarrow> dtb_error + bytes \<times> nat" where
  "write_entry slot pos bs =
    rbind (ok_or Internal (usize_add pos (length bs))) (\<lambda>e.
    rbind (ok_or Internal (get_range slot pos e)) (\<lambda>_.
      Inr (copy_at slot pos bs, e)))"

section \<open>emit/sdt.rs\<close>

record sdt_header =
  sdt_signature :: bytes
  sdt_length :: u32
  sdt_revision :: u8
  sdt_checksum :: u8
  sdt_oem_id :: bytes
  sdt_oem_table_id :: bytes
  sdt_oem_revision :: u32
  sdt_creator_id :: bytes
  sdt_creator_revision :: u32

definition sdt_header_bytes :: "sdt_header \<Rightarrow> bytes" where
  "sdt_header_bytes h =
    sdt_signature h @ le_bytes 4 (sdt_length h) @ [sdt_revision h, sdt_checksum h] @
    sdt_oem_id h @ sdt_oem_table_id h @ le_bytes 4 (sdt_oem_revision h) @
    sdt_creator_id h @ le_bytes 4 (sdt_creator_revision h)"

definition SDT_HEADER_SIZE :: nat where "SDT_HEADER_SIZE = 36"
definition DSDT_REVISION :: u8 where "DSDT_REVISION = 2"
definition S5_AML_LEN :: nat where "S5_AML_LEN = 13"

definition sdt_header_new :: "string \<Rightarrow> u32 \<Rightarrow> u8 \<Rightarrow> oem_identity \<Rightarrow> sdt_header" where
  "sdt_header_new signature len revn oem =
    \<lparr>sdt_signature = str_bytes signature, sdt_length = len, sdt_revision = revn, sdt_checksum = 0,
     sdt_oem_id = oem_id oem, sdt_oem_table_id = oem_table_id oem,
     sdt_oem_revision = oem_revision oem, sdt_creator_id = creator_id oem,
     sdt_creator_revision = creator_revision oem\<rparr>"

definition s5_aml :: "u8 \<Rightarrow> bytes" where
  "s5_aml sleep_value = (let slp_typ = drop_bit 2 sleep_value AND 7 in
    [0x08, 0x5C, 0x5F, 0x53, 0x35, 0x5F, 0x12, 0x06, 0x03, 0x0A, slp_typ, 0x00, 0x00])"

record generic_address =
  address_space_id :: u8
  register_bit_width :: u8
  register_bit_offset :: u8
  access_size :: u8
  gas_address :: u64

definition gas_bytes :: "generic_address \<Rightarrow> bytes" where
  "gas_bytes g = [address_space_id g, register_bit_width g, register_bit_offset g, access_size g] @
    le_bytes 8 (gas_address g)"

definition GAS_ZERO :: generic_address where
  "GAS_ZERO = \<lparr>address_space_id = 0, register_bit_width = 0, register_bit_offset = 0,
    access_size = 0, gas_address = 0\<rparr>"

definition SYSTEM_MEMORY :: u8 where "SYSTEM_MEMORY = 0"

definition system_memory_byte :: "u64 \<Rightarrow> generic_address" where
  "system_memory_byte a = \<lparr>address_space_id = SYSTEM_MEMORY, register_bit_width = 8,
    register_bit_offset = 0, access_size = 1, gas_address = a\<rparr>"

section \<open>Facts about the writers\<close>

named_theorems slot_simps \<open>lengths and prefixes of slots after a write\<close>

lemma sum_bytes_Nil [simp]: "sum_bytes [] = 0"
  by (simp add: sum_bytes_def)

lemma foldl_plus_word: "foldl (+) a bs = a + foldl (+) 0 bs" for a :: u8
proof (induction bs arbitrary: a)
  case (Cons b bs)
  have "foldl (+) a (b # bs) = a + b + foldl (+) 0 bs" using Cons.IH [of "a + b"] by simp
  moreover have "foldl (+) 0 (b # bs) = b + foldl (+) 0 bs" using Cons.IH [of b] by simp
  ultimately show ?case by (simp only: add.assoc)
qed simp

lemma sum_bytes_Cons [simp]: "sum_bytes (b # bs) = b + sum_bytes bs"
  using foldl_plus_word [of b bs] by (simp add: sum_bytes_def)

lemma sum_bytes_append [simp]: "sum_bytes (xs @ ys) = sum_bytes xs + sum_bytes ys"
  by (induction xs) (simp_all add: add.assoc)

lemma sum_bytes_update:
  "i < length bs \<Longrightarrow> sum_bytes (bs[i := v]) = sum_bytes bs - bs ! i + v"
proof (induction bs arbitrary: i)
  case (Cons b bs)
  then show ?case by (cases i) (auto simp: algebra_simps)
qed simp

lemma length_str_bytes [simp]: "length (str_bytes s) = length s"
  by (simp add: str_bytes_def)

lemma set_sdt_checksum_Inr:
  assumes "set_sdt_checksum slot = Inr s"
  shows "length s = length slot" and "9 < length slot" and "sum_bytes s = 0"
    and "take 9 s = take 9 slot" and "drop 10 s = drop 10 slot"
proof -
  from assms have len: "9 < length slot" and s: "s = slot[9 := checksum (slot[9 := 0])]"
    by (auto simp: set_sdt_checksum_def Let_def split: if_splits)
  from len show "9 < length slot" .
  from s show "length s = length slot" by simp
  show "sum_bytes s = 0" using len by (simp add: s checksum_def sum_bytes_update)
  show "take 9 s = take 9 slot" "drop 10 s = drop 10 slot" by (simp_all add: s)
qed

lemma set_sdt_checksum_ok: "9 < length slot \<Longrightarrow> \<exists>s. set_sdt_checksum slot = Inr s"
  by (simp add: set_sdt_checksum_def Let_def)

lemma write_header_Inr:
  "write_header slot h = Inr s \<longleftrightarrow> length h \<le> length slot \<and> s = copy_at slot 0 h"
  by (auto simp: write_header_def result_simps get_range_def)

lemma write_entry_eq:
  "write_entry slot pos bs =
    (if pos + length bs \<le> length slot \<and> pos + length bs \<le> usize_max
     then Inr (copy_at slot pos bs, pos + length bs) else Inl Internal)"
  by (auto simp: write_entry_def usize_add_def get_range_def)

lemma copy_at_copy_at:
  "p + length (a @ b) \<le> length s \<Longrightarrow> copy_at (copy_at s p a) (p + length a) b = copy_at s p (a @ b)"
  by (simp add: copy_at_def add.commute add.left_commute)

text \<open>The algebra of the writers.\<close>

lemma write_entry_compose:
  "rbind (write_entry slot pos a) (\<lambda>(s, p). write_entry s p b) = write_entry slot pos (a @ b)"
  by (auto simp: write_entry_eq copy_at_copy_at add.assoc)

lemma write_entry_compose_pair:
  "rbind (write_entry slot pos a) (\<lambda>x. write_entry (fst x) (snd x) b) = write_entry slot pos (a @ b)"
  using write_entry_compose [of slot pos a b] by (simp add: case_prod_unfold)

lemma rbind_assoc: "rbind (rbind r f) g = rbind r (\<lambda>x. rbind (f x) g)"
  by (cases r) simp_all

text \<open>A chain of writes in the middle of a longer computation.\<close>

lemma write_entry_chain:
  "rbind (write_entry slot pos a) (\<lambda>(s, p). rbind (write_entry s p b) k) =
    rbind (write_entry slot pos (a @ b)) k"
  by (auto simp: write_entry_eq copy_at_copy_at add.assoc)

lemma write_entry_Nil: "pos \<le> length slot \<Longrightarrow> pos \<le> usize_max \<Longrightarrow> write_entry slot pos [] = Inr (slot, pos)"
  by (simp add: write_entry_eq copy_at_def)

text \<open>A loop whose every step writes the bytes of its item writes their concatenation.\<close>

lemma try_fold_write_entry:
  assumes "pos \<le> length slot" and "pos \<le> usize_max"
    and step: "\<And>s p x. x \<in> set xs \<Longrightarrow> f (s, p) x = write_entry s p (enc x)"
  shows "try_fold f (slot, pos) xs = write_entry slot pos (concat (map enc xs))"
  using assms
proof (induction xs arbitrary: slot pos)
  case Nil
  then show ?case by (simp add: write_entry_Nil)
next
  case (Cons x xs)
  show ?case
  proof (cases "write_entry slot pos (enc x)")
    case (Inl e)
    then have "\<not> (pos + length (enc x) \<le> length slot \<and> pos + length (enc x) \<le> usize_max)"
      and "e = Internal"
      by (auto simp: write_entry_eq split: if_splits)
    moreover have "f (slot, pos) x = Inl e" using Cons.prems(3) [of x slot pos] Inl by simp
    ultimately show ?thesis by (auto simp: write_entry_eq)
  next
    case (Inr r)
    obtain s p where r: "r = (s, p)" by (cases r)
    have s: "pos + length (enc x) \<le> length slot" "pos + length (enc x) \<le> usize_max"
      "s = copy_at slot pos (enc x)" "p = pos + length (enc x)"
      using Inr r by (auto simp: write_entry_eq split: if_splits)
    have "f (slot, pos) x = Inr (s, p)" using Cons.prems(3) [of x slot pos] Inr r by simp
    moreover have "try_fold f (s, p) xs = write_entry s p (concat (map enc xs))"
      by (rule Cons.IH) (use s Cons.prems(3) in auto)
    ultimately have "try_fold f (slot, pos) (x # xs) =
        rbind (write_entry slot pos (enc x)) (\<lambda>(s, p). write_entry s p (concat (map enc xs)))"
      using Inr r by simp
    then show ?thesis by (simp add: write_entry_compose)
  qed
qed

text \<open>The same when the steps may fail for another reason: if the loop succeeds, it has
  written the bytes of its items.\<close>

lemma try_fold_writes:
  assumes "try_fold f (slot, pos) xs = Inr r" and "pos \<le> length slot" and "pos \<le> usize_max"
    and step: "\<And>s p x r. x \<in> set xs \<Longrightarrow> f (s, p) x = Inr r \<Longrightarrow> write_entry s p (enc x) = Inr r"
  shows "write_entry slot pos (concat (map enc xs)) = Inr r"
  using assms
proof (induction xs arbitrary: slot pos)
  case Nil
  then show ?case by (simp add: write_entry_Nil)
next
  case (Cons x xs)
  from Cons.prems(1) obtain s p where sp: "f (slot, pos) x = Inr (s, p)"
    and rest: "try_fold f (s, p) xs = Inr r" by (auto simp: result_simps)
  have w: "write_entry slot pos (enc x) = Inr (s, p)" by (rule Cons.prems(4) [OF _ sp]) simp
  then have "p \<le> length s" "p \<le> usize_max" by (auto simp: write_entry_eq split: if_splits)
  then have "write_entry s p (concat (map enc xs)) = Inr r"
    by (rule Cons.IH [OF rest]) (use Cons.prems(4) in auto)
  with w write_entry_compose [of slot pos "enc x"] show ?case by simp
qed

text \<open>A slot of \<open>n\<close> bytes that took a header and a body from its first byte on.\<close>

lemma write_entry_after_header:
  assumes "write_header slot h = Inr s" and "write_entry s (length h) body = Inr (s', p)"
  shows "s' = copy_at slot 0 (h @ body)" and "length (h @ body) \<le> length slot"
    and "p = length h + length body"
  using assms copy_at_copy_at [of 0 h body slot]
  by (auto simp: write_header_Inr write_entry_eq split: if_splits)

lemma length_sdt_header_bytes:
  "oem_ok oem \<Longrightarrow> length signature = 4 \<Longrightarrow> length (sdt_header_bytes (sdt_header_new signature n r oem)) = 36"
  by (simp add: sdt_header_bytes_def sdt_header_new_def oem_ok_def)

lemma length_gas_bytes [simp]: "length (gas_bytes g) = 12"
  by (simp add: gas_bytes_def)

lemma length_s5_aml [simp]: "length (s5_aml v) = S5_AML_LEN"
  by (simp add: s5_aml_def S5_AML_LEN_def Let_def)

section \<open>Tables\<close>

text \<open>The first 36 bytes of a table are the header, up to the checksum byte; all bytes sum to 0.\<close>

definition table_ok :: "string \<Rightarrow> u8 \<Rightarrow> oem_identity \<Rightarrow> bytes \<Rightarrow> bool" where
  "table_ok signature revn oem t =
    (36 \<le> length t \<and> length t < 2 ^ 32 \<and> sum_bytes t = 0 \<and>
     (\<exists>c. take 36 t =
        sdt_header_bytes (sdt_header_new signature (word_of_nat (length t)) revn oem\<lparr>sdt_checksum := c\<rparr>)))"

text \<open>A slot filled from its header on: header bytes, body, rest of the slot as it was.\<close>

lemma header_then_body:
  assumes "length h \<le> length slot" and "length slot \<le> usize_max"
  shows "rbind (write_header slot h) (\<lambda>s. rbind (write_entry s (length h) body) k) =
    rbind (write_entry slot 0 (h @ body)) k"
  using assms
  by (auto simp: write_header_def get_range_def write_entry_eq copy_at_copy_at [of 0, simplified])

text \<open>A slot that a header and a body fill exactly, once its checksum is set.\<close>

lemma set_sdt_checksum_table:
  assumes "set_sdt_checksum (sdt_header_bytes (sdt_header_new sig (word_of_nat (36 + length body)) revn oem) @ body) = Inr t"
    and "oem_ok oem" and "length sig = 4" and "36 + length body < 2 ^ 32"
  shows "table_ok sig revn oem t \<and> length t = 36 + length body \<and> drop 36 t = body"
proof -
  let ?h = "sdt_header_new sig (word_of_nat (36 + length body)) revn oem"
  let ?s = "sdt_header_bytes ?h @ body"
  have lh: "length (sdt_header_bytes ?h) = 36" by (rule length_sdt_header_bytes [OF assms(2,3)])
  note f = set_sdt_checksum_Inr [OF assms(1)]
  have len: "length t = 36 + length body" using f(1) lh by simp
  have t: "t = take 9 ?s @ [t ! 9] @ drop 10 ?s"
    using f(4,5) len id_take_nth_drop [of 9 t] by simp
  define pre where "pre = str_bytes sig @ le_bytes 4 (word_of_nat (36 + length body) :: u32) @ [revn]"
  define post where "post = oem_id oem @ oem_table_id oem @ le_bytes 4 (oem_revision oem) @
    creator_id oem @ le_bytes 4 (creator_revision oem)"
  have hb: "sdt_header_bytes (?h\<lparr>sdt_checksum := c\<rparr>) = pre @ [c] @ post" for c
    by (simp add: sdt_header_bytes_def sdt_header_new_def pre_def post_def)
  have hb0: "sdt_header_bytes ?h = pre @ [0] @ post"
    by (simp add: sdt_header_bytes_def sdt_header_new_def pre_def post_def)
  have lp: "length pre = 9" "length post = 26" using assms(2,3) by (simp_all add: pre_def post_def oem_ok_def)
  have t2: "t = (pre @ [t ! 9] @ post) @ body"
    by (subst t) (simp only: hb0, simp add: lp)
  have t36: "take 36 t = pre @ [t ! 9] @ post" "drop 36 t = body"
    by (subst t2, simp add: lp)+
  have "take 36 t = sdt_header_bytes (sdt_header_new sig (word_of_nat (length t)) revn oem\<lparr>sdt_checksum := t ! 9\<rparr>)"
    unfolding t36(1) len hb ..
  with len assms(4) f(3) t36(2) show ?thesis by (auto simp: table_ok_def)
qed

section \<open>The contract of a table module\<close>

text \<open>\<open>emit slot\<close> fills a slot of \<open>size\<close> bytes: it either fails or leaves a
  table of exactly that length.\<close>

locale table_emitter =
  fixes emit :: "bytes \<Rightarrow> dtb_error + bytes"
    and signature :: string and revn :: u8 and oem :: oem_identity and size_ok :: "nat \<Rightarrow> bool"
  assumes emit_table: "size_ok (length slot) \<Longrightarrow> emit slot = Inr t \<Longrightarrow>
      table_ok signature revn oem t \<and> length t = length slot"
begin

text \<open>What a module leaves has the length of the slot it was given.\<close>

lemma emit_length: "size_ok (length slot) \<Longrightarrow> emit slot = Inr t \<Longrightarrow> length t = length slot"
  using emit_table by blast

end

end
