(* ===== verification/RustText.thy ===== *)
theory RustText
  imports Acpi "HOL-Library.List_Lexorder" "HOL-Library.Char_ord"
begin

text \<open>
  The parts of Rust's standard library that the crate \<open>arma\<close> uses on text and on ordered
  collections. A \<open>&str\<close> is the string of its UTF-8 bytes, each byte a \<open>char\<close>; the
  order of strings is then the bytewise order of \<open>Ord for str\<close>.

  A \<open>BTreeSet<String>\<close> is a strictly increasing list of strings and a
  \<open>BTreeMap<String, V>\<close> a list of pairs with strictly increasing keys: iteration is the
  list, \<open>insert\<close> puts the key at its place. What the clients rely on is the locale
  \<open>ordered_map\<close>, interpreted on the lists.
\<close>

lemma rbind_Inr [simp]: "rbind r Inr = r"
  by (cases r) simp_all

lemma bind_SomeE:
  "Option.bind m f = Some y \<Longrightarrow> (\<And>x. m = Some x \<Longrightarrow> f x = Some y \<Longrightarrow> P) \<Longrightarrow> P"
  by (auto simp: bind_eq_Some_conv)

lemma if_NoneE: "(if c then None else m) = Some y \<Longrightarrow> (\<not> c \<Longrightarrow> m = Some y \<Longrightarrow> P) \<Longrightarrow> P"
  by (auto split: if_splits)

section \<open>Text\<close>

definition newline :: char where "newline = CHR 0x0A"

fun strip_prefix :: "'a list \<Rightarrow> 'a list \<Rightarrow> 'a list option" where
  "strip_prefix [] s = Some s"
| "strip_prefix (p # ps) [] = None"
| "strip_prefix (p # ps) (c # s) = (if p = c then strip_prefix ps s else None)"

definition strip_suffix :: "'a list \<Rightarrow> 'a list \<Rightarrow> 'a list option" where
  "strip_suffix p s = map_option rev (strip_prefix (rev p) (rev s))"

definition starts_with :: "'a list \<Rightarrow> 'a list \<Rightarrow> bool" where
  "starts_with p s = (strip_prefix p s \<noteq> None)"

text \<open>\<open>split_once\<close> at the first occurrence of a character, \<open>rsplit_once\<close> at the last.\<close>

fun split_once :: "'a \<Rightarrow> 'a list \<Rightarrow> ('a list \<times> 'a list) option" where
  "split_once c [] = None"
| "split_once c (x # xs) =
    (if x = c then Some ([], xs) else map_option (\<lambda>(a, b). (x # a, b)) (split_once c xs))"

definition rsplit_once :: "'a \<Rightarrow> 'a list \<Rightarrow> ('a list \<times> 'a list) option" where
  "rsplit_once c xs = map_option (\<lambda>(a, b). (rev b, rev a)) (split_once c (rev xs))"

text \<open>\<open>str::lines\<close>: a final newline opens no further line, and a carriage return is dropped
  only before a newline.\<close>

definition strip_cr :: "string \<Rightarrow> string" where
  "strip_cr l = (case strip_suffix [CHR 0x0D] l of None \<Rightarrow> l | Some l' \<Rightarrow> l')"

fun lines_loop :: "string \<Rightarrow> string \<Rightarrow> string list" where
  "lines_loop acc [] = (if acc = [] then [] else [rev acc])"
| "lines_loop acc (c # s) =
    (if c = newline then strip_cr (rev acc) # lines_loop [] s else lines_loop (c # acc) s)"

definition str_lines :: "string \<Rightarrow> string list" where
  "str_lines s = lines_loop [] s"

text \<open>The length of the \<open>White_Space\<close> character a text starts with, 0 if it starts with none.\<close>

definition space1 :: "nat \<Rightarrow> bool" where
  "space1 b \<longleftrightarrow> (9 \<le> b \<and> b \<le> 13) \<or> b = 32"

definition space2 :: "nat \<Rightarrow> nat \<Rightarrow> bool" where
  "space2 b c \<longleftrightarrow> b = 0xC2 \<and> (c = 0x85 \<or> c = 0xA0)"

definition space3 :: "nat \<Rightarrow> nat \<Rightarrow> nat \<Rightarrow> bool" where
  "space3 b c d \<longleftrightarrow> (b = 0xE1 \<and> c = 0x9A \<and> d = 0x80)
     \<or> (b = 0xE2 \<and> c = 0x80 \<and> ((0x80 \<le> d \<and> d \<le> 0x8A) \<or> d = 0xA8 \<or> d = 0xA9 \<or> d = 0xAF))
     \<or> (b = 0xE2 \<and> c = 0x81 \<and> d = 0x9F)
     \<or> (b = 0xE3 \<and> c = 0x80 \<and> d = 0x80)"

fun space_len :: "string \<Rightarrow> nat" where
  "space_len [] = 0"
| "space_len [b] = (if space1 (of_char b) then 1 else 0)"
| "space_len [b, c] =
    (if space1 (of_char b) then 1 else if space2 (of_char b) (of_char c) then 2 else 0)"
| "space_len (b # c # d # s) =
    (if space1 (of_char b) then 1 else if space2 (of_char b) (of_char c) then 2
     else if space3 (of_char b) (of_char c) (of_char d) then 3 else 0)"

lemma space_len_le: "space_len s \<le> length s"
  by (induction s rule: space_len.induct) simp_all

function trim_start :: "string \<Rightarrow> string" where
  "trim_start s = (if space_len s = 0 then s else trim_start (drop (space_len s) s))"
  by pat_completeness auto

termination trim_start
proof (relation "measure length")
  fix s assume "space_len s \<noteq> 0"
  with space_len_le [of s] show "(drop (space_len s) s, s) \<in> measure length" by simp
qed simp

declare trim_start.simps [simp del]

text \<open>\<open>split_whitespace\<close> and \<open>split_ascii_whitespace\<close>: the maximal runs without a
  separator. A whitespace character is always a whole character, so a step over a character of
  another length is a step over its bytes.\<close>

function split_ws :: "string \<Rightarrow> string \<Rightarrow> string list" where
  "split_ws acc s =
    (case s of
       [] \<Rightarrow> (if acc = [] then [] else [rev acc])
     | c # cs \<Rightarrow>
        if space_len s = 0 then split_ws (c # acc) cs
        else (if acc = [] then [] else [rev acc]) @ split_ws [] (drop (space_len s) s))"
  by pat_completeness auto

termination split_ws
proof (relation "measure (length \<circ> snd)")
  fix acc s c cs assume "s = c # cs" "space_len s \<noteq> 0"
  with space_len_le [of s] show "(([], drop (space_len s) s), acc, s) \<in> measure (length \<circ> snd)"
    by simp
qed auto

declare split_ws.simps [simp del]

definition split_whitespace :: "string \<Rightarrow> string list" where
  "split_whitespace s = split_ws [] s"

definition ascii_whitespace :: "char \<Rightarrow> bool" where
  "ascii_whitespace c \<longleftrightarrow> c \<in> {CHR 0x20, CHR 0x09, CHR 0x0A, CHR 0x0C, CHR 0x0D}"

fun split_ascii_loop :: "string \<Rightarrow> string \<Rightarrow> string list" where
  "split_ascii_loop acc [] = (if acc = [] then [] else [rev acc])"
| "split_ascii_loop acc (c # s) =
    (if ascii_whitespace c
     then (if acc = [] then [] else [rev acc]) @ split_ascii_loop [] s
     else split_ascii_loop (c # acc) s)"

definition split_ascii_whitespace :: "string \<Rightarrow> string list" where
  "split_ascii_whitespace s = split_ascii_loop [] s"

text \<open>\<open>iter().find_map(f)\<close> and \<open>windows(w.len()).position(|x| x == w)\<close> for a nonempty
  \<open>w\<close>.\<close>

fun find_map :: "('a \<Rightarrow> 'b option) \<Rightarrow> 'a list \<Rightarrow> 'b option" where
  "find_map f [] = None"
| "find_map f (x # xs) = (case f x of Some y \<Rightarrow> Some y | None \<Rightarrow> find_map f xs)"

fun find_window :: "'a list \<Rightarrow> 'a list \<Rightarrow> nat option" where
  "find_window w [] = None"
| "find_window w (x # xs) =
    (if starts_with w (x # xs) then Some 0 else map_option Suc (find_window w xs))"

text \<open>\<open>[parts].join("/")\<close>\<close>

fun join_slash :: "string list \<Rightarrow> string" where
  "join_slash [] = []"
| "join_slash [p] = p"
| "join_slash (p # ps) = p @ ''/'' @ join_slash ps"

definition bytes_str :: "bytes \<Rightarrow> string" where
  "bytes_str bs = map (\<lambda>b. char_of (uint b)) bs"

text \<open>\<open>str::from_utf8\<close> accepts exactly the well-formed sequences of the Unicode standard.\<close>

definition cont_byte :: "nat \<Rightarrow> bool" where
  "cont_byte b \<longleftrightarrow> 0x80 \<le> b \<and> b \<le> 0xBF"

fun utf8_bytes :: "nat list \<Rightarrow> bool" where
  "utf8_bytes [] = True"
| "utf8_bytes (b # s) =
    (if b < 0x80 then utf8_bytes s
     else case s of
       [] \<Rightarrow> False
     | c # s2 \<Rightarrow>
        if 0xC2 \<le> b \<and> b \<le> 0xDF then cont_byte c \<and> utf8_bytes s2
        else case s2 of
          [] \<Rightarrow> False
        | d # s3 \<Rightarrow>
           if 0xE0 \<le> b \<and> b \<le> 0xEF then
             (if b = 0xE0 then 0xA0 \<le> c \<and> c \<le> 0xBF else if b = 0xED then 0x80 \<le> c \<and> c \<le> 0x9F
              else cont_byte c) \<and> cont_byte d \<and> utf8_bytes s3
           else case s3 of
             [] \<Rightarrow> False
           | e # s4 \<Rightarrow>
              0xF0 \<le> b \<and> b \<le> 0xF4
              \<and> (if b = 0xF0 then 0x90 \<le> c \<and> c \<le> 0xBF else if b = 0xF4 then 0x80 \<le> c \<and> c \<le> 0x8F
                 else cont_byte c) \<and> cont_byte d \<and> cont_byte e \<and> utf8_bytes s4)"

definition utf8_ok :: "string \<Rightarrow> bool" where
  "utf8_ok s = utf8_bytes (map of_char s)"

text \<open>Formatting of numbers: \<open>{:x}\<close>, \<open>{:08X}\<close> and decimal.\<close>

definition hex_digit :: "nat \<Rightarrow> char" where
  "hex_digit d = char_of (if d < 10 then 48 + d else 87 + d)"

definition hex_digit_upper :: "nat \<Rightarrow> u8" where
  "hex_digit_upper d = word_of_nat (if d < 10 then 48 + d else 55 + d)"

fun format_digits :: "nat \<Rightarrow> nat \<Rightarrow> string" where
  "format_digits base n =
    (if n < base \<or> base < 2 then [hex_digit n]
     else format_digits base (n div base) @ [hex_digit (n mod base)])"

declare format_digits.simps [simp del]

definition format_hex :: "u64 \<Rightarrow> string" where
  "format_hex w = format_digits 16 (unat w)"

definition format_dec :: "nat \<Rightarrow> string" where
  "format_dec n = format_digits 10 n"

lemma uint_of_char: "uint (of_char c :: u8) = of_char c"
proof -
  have w: "(of_char c :: u8) = word_of_int (of_char c)"
    by (cases c) (simp add: of_char_def)
  have "(of_char c :: int) = int (of_char c)" by (simp only: of_nat_of_char)
  moreover have "int (of_char c) < 256" using nat_of_char_less_256 [of c] by linarith
  ultimately have "0 \<le> (of_char c :: int)" "(of_char c :: int) < 2 ^ 8" by simp_all
  then show ?thesis unfolding w by (simp add: unsigned_of_int take_bit_int_eq_self of_nat_of_char)
qed

lemma bytes_str_str_bytes [simp]: "bytes_str (str_bytes s) = s"
  by (simp add: bytes_str_def str_bytes_def comp_def uint_of_char)

lemma str_bytes_inj [simp]: "str_bytes a = str_bytes b \<longleftrightarrow> a = b"
  by (metis bytes_str_str_bytes)

lemma zero_in_str_bytes [simp]: "0 \<in> set (str_bytes s) \<longleftrightarrow> CHR 0x00 \<in> set s"
proof -
  have "of_char c = (0 :: u8) \<longleftrightarrow> c = CHR 0x00" for c :: char
  proof
    assume "of_char c = (0 :: u8)"
    then have "of_char c = (0 :: int)" using uint_of_char [of c] by simp
    moreover have "of_char (CHR 0x00) = (0 :: int)" by simp
    ultimately show "c = CHR 0x00" by (metis of_char_eq_iff)
  qed simp
  then show ?thesis by (auto simp: str_bytes_def image_iff)
qed

lemma strip_prefix_Some: "strip_prefix p s = Some r \<longleftrightarrow> s = p @ r"
  by (induction p s rule: strip_prefix.induct) auto

lemma strip_suffix_Some: "strip_suffix p s = Some r \<longleftrightarrow> s = r @ p"
proof
  assume "strip_suffix p s = Some r"
  then have "rev s = rev p @ rev r" by (auto simp: strip_suffix_def strip_prefix_Some)
  then have "rev (rev s) = rev (rev p @ rev r)" by simp
  then show "s = r @ p" by simp
next
  assume "s = r @ p"
  then have "strip_prefix (rev p) (rev s) = Some (rev r)" by (simp add: strip_prefix_Some)
  then show "strip_suffix p s = Some r" by (simp add: strip_suffix_def)
qed

lemma split_once_Some:
  "split_once c s = Some (a, b) \<longleftrightarrow> s = a @ c # b \<and> c \<notin> set a"
proof (induction s arbitrary: a)
  case (Cons x s)
  then show ?case by (cases a) auto
qed simp

lemma split_once_None: "split_once c s = None \<longleftrightarrow> c \<notin> set s"
  by (induction s) auto

lemma rsplit_once_Some:
  "rsplit_once c s = Some (a, b) \<longleftrightarrow> s = a @ c # b \<and> c \<notin> set b"
proof -
  have "rsplit_once c s = Some (a, b) \<longleftrightarrow> split_once c (rev s) = Some (rev b, rev a)"
    by (auto simp: rsplit_once_def)
  also have "\<dots> \<longleftrightarrow> rev s = rev (a @ c # b) \<and> c \<notin> set b"
    by (simp add: split_once_Some)
  also have "\<dots> \<longleftrightarrow> s = a @ c # b \<and> c \<notin> set b" by (simp only: rev_is_rev_conv)
  finally show ?thesis .
qed

section \<open>Ordered collections\<close>

abbreviation ascending :: "'a::linorder list \<Rightarrow> bool" where
  "ascending xs \<equiv> sorted_wrt (<) xs"

fun set_insert :: "'a::linorder \<Rightarrow> 'a list \<Rightarrow> 'a list" where
  "set_insert x [] = [x]"
| "set_insert x (y # ys) =
    (if x < y then x # y # ys else if x = y then y # ys else y # set_insert x ys)"

lemma set_set_insert [simp]: "set (set_insert x xs) = insert x (set xs)"
  by (induction xs) auto

lemma ascending_set_insert: "ascending xs \<Longrightarrow> ascending (set_insert x xs)"
  by (induction xs) auto

lemma set_insert_member: "ascending xs \<Longrightarrow> x \<in> set xs \<Longrightarrow> set_insert x xs = xs"
  by (induction xs) (auto dest: less_asym)

lemma ascending_filter: "ascending xs \<Longrightarrow> ascending (filter p xs)"
  by (rule sorted_wrt_filter)

lemma ascending_distinct: "ascending xs \<Longrightarrow> distinct xs"
  by (induction xs) auto

fun map_insert :: "'k::linorder \<Rightarrow> 'v \<Rightarrow> ('k \<times> 'v) list \<Rightarrow> ('k \<times> 'v) list" where
  "map_insert k v [] = [(k, v)]"
| "map_insert k v ((k', v') # kvs) =
    (if k < k' then (k, v) # (k', v') # kvs
     else if k = k' then (k, v) # kvs else (k', v') # map_insert k v kvs)"

abbreviation map_ok :: "('k::linorder \<times> 'v) list \<Rightarrow> bool" where
  "map_ok kvs \<equiv> ascending (map fst kvs)"

lemma set_map_insert [simp]: "fst ` set (map_insert k v kvs) = insert k (fst ` set kvs)"
  by (induction k v kvs rule: map_insert.induct) auto

lemma map_ok_insert: "map_ok kvs \<Longrightarrow> map_ok (map_insert k v kvs)"
proof (induction k v kvs rule: map_insert.induct)
  case (2 k v k' v' kvs)
  show ?case
  proof (cases "k' < k")
    case True
    then have ne: "\<not> k < k'" "k \<noteq> k'" by auto
    then have eq: "map_insert k v ((k', v') # kvs) = (k', v') # map_insert k v kvs" by simp
    have "\<forall>x\<in>fst ` set (map_insert k v kvs). k' < x"
      using True 2(2) by (simp add: set_map_insert)
    moreover have "map_ok (map_insert k v kvs)" using ne 2 by simp
    ultimately show ?thesis unfolding eq by simp
  next
    case False
    then show ?thesis using 2(2) by (auto intro: less_trans)
  qed
qed simp

lemma map_of_map_insert: "map_of (map_insert k v kvs) = (map_of kvs)(k \<mapsto> v)"
  by (induction k v kvs rule: map_insert.induct) (auto simp: fun_upd_twist)

text \<open>What the clients of a \<open>BTreeMap\<close> rely on: the content after an insertion, and
  iteration in ascending order of the keys.\<close>

locale ordered_map =
  fixes lookup :: "'m \<Rightarrow> 'k::linorder \<Rightarrow> 'v option"
    and update :: "'k \<Rightarrow> 'v \<Rightarrow> 'm \<Rightarrow> 'm"
    and entries :: "'m \<Rightarrow> ('k \<times> 'v) list"
    and inv :: "'m \<Rightarrow> bool"
  assumes lookup_update: "lookup (update k v m) = (lookup m)(k \<mapsto> v)"
    and inv_update: "inv m \<Longrightarrow> inv (update k v m)"
    and entries_ascending: "inv m \<Longrightarrow> ascending (map fst (entries m))"
    and entries_lookup: "inv m \<Longrightarrow> (k, v) \<in> set (entries m) \<longleftrightarrow> lookup m k = Some v"
begin

definition insert_all :: "('k \<times> 'v) list \<Rightarrow> 'm \<Rightarrow> 'm" where
  "insert_all kvs m = fold (\<lambda>(k, v). update k v) kvs m"

lemma inv_insert_all: "inv m \<Longrightarrow> inv (insert_all kvs m)"
  unfolding insert_all_def by (induction kvs arbitrary: m) (auto simp: inv_update)

lemma lookup_insert_all:
  "lookup (insert_all kvs m) k = (case map_of (rev kvs) k of Some v \<Rightarrow> Some v | None \<Rightarrow> lookup m k)"
  unfolding insert_all_def
proof (induction kvs arbitrary: m)
  case (Cons kv kvs)
  obtain k' v' where kv: "kv = (k', v')" by (cases kv)
  show ?case
    by (auto simp: kv Cons.IH lookup_update map_add_def split: option.splits)
qed simp

lemma keys_of_entries: "inv m \<Longrightarrow> k \<in> fst ` set (entries m) \<longleftrightarrow> lookup m k \<noteq> None"
proof
  assume "inv m" "k \<in> fst ` set (entries m)"
  then obtain v where "(k, v) \<in> set (entries m)" by auto
  with \<open>inv m\<close> show "lookup m k \<noteq> None" by (simp add: entries_lookup)
next
  assume "inv m" "lookup m k \<noteq> None"
  then obtain v where "(k, v) \<in> set (entries m)" by (auto simp: entries_lookup)
  then show "k \<in> fst ` set (entries m)" by force
qed

lemma entries_distinct: "inv m \<Longrightarrow> distinct (map fst (entries m))"
  using entries_ascending by (blast intro: ascending_distinct)

end

interpretation btree: ordered_map map_of map_insert "\<lambda>kvs. kvs" map_ok
proof (unfold_locales, goal_cases)
  case (1 k v m)
  show ?case by (rule map_of_map_insert)
next
  case (2 m k v)
  then show ?case by (rule map_ok_insert)
next
  case (3 m)
  then show ?case .
next
  case (4 m k v)
  then show ?case by (metis ascending_distinct map_of_eq_Some_iff)
qed

end
