(* ===== verification/KernelRelease.thy ===== *)
theory KernelRelease
  imports RustText
begin

text \<open>
  The release of the target kernel (\<open>kernel_release.rs\<close>), and the ELF file as the crate
  \<open>arma\<close> sees it. The ELF parser is the third-party crate \<open>goblin\<close>: the record
  \<open>goblin\<close> holds its three entry points, a parameter of every definition that parses a file,
  and \<open>elf_file\<close> the fields of its result that the source reads.
\<close>

section \<open>ELF files\<close>

record elf_section =
  sh_name :: nat
  sh_type :: u32
  sh_flags :: u64
  sh_addr :: u64
  sh_offset :: u64
  sh_size :: u64
  sh_link :: u32
  sh_info :: u32
  sh_entsize :: u64

record elf_segment =
  p_type :: u32
  p_offset :: u64
  p_vaddr :: u64
  p_paddr :: u64
  p_filesz :: u64
  p_memsz :: u64

record elf_sym =
  st_name :: nat
  st_shndx :: nat
  st_value :: u64
  st_size :: u64

record elf_rel =
  r_offset :: u64
  r_sym :: nat
  r_type :: u32

record elf_file =
  elf_is_64 :: bool
  elf_little_endian :: bool
  e_machine :: "16 word"
  e_shoff :: u64
  e_shnum :: "16 word"
  e_shentsize :: "16 word"
  e_entry :: u64
  program_headers :: "elf_segment list"
  section_headers :: "elf_section list"
  elf_syms :: "elf_sym list"
  elf_strtab :: "nat \<Rightarrow> string option"
  elf_dynsyms :: "elf_sym list"
  elf_dynstrtab :: "nat \<Rightarrow> string option"
  shdr_strtab :: "nat \<Rightarrow> string option"
  shdr_relocs :: "(nat \<times> elf_rel list) list"
  elf_interpreter :: "string option"

text \<open>\<open>Elf::parse\<close>, \<open>Symtab::parse\<close> (offset, count, 64-bit, little-endian) and
  \<open>Strtab::parse\<close> (offset, length) followed by \<open>get_at\<close>.\<close>

record goblin =
  parse_elf :: "bytes \<Rightarrow> elf_file option"
  parse_symtab :: "bytes \<Rightarrow> nat \<Rightarrow> nat \<Rightarrow> bool \<Rightarrow> bool \<Rightarrow> elf_sym list option"
  parse_strtab :: "bytes \<Rightarrow> nat \<Rightarrow> nat \<Rightarrow> (nat \<Rightarrow> string option) option"

definition PT_LOAD :: u32 where "PT_LOAD = 1"
definition PT_INTERP :: u32 where "PT_INTERP = 3"
definition SHT_PROGBITS :: u32 where "SHT_PROGBITS = 1"
definition SHT_STRTAB :: u32 where "SHT_STRTAB = 3"
definition SHT_NOTE :: u32 where "SHT_NOTE = 7"
definition SHT_NOBITS :: u32 where "SHT_NOBITS = 8"
definition SHT_DYNSYM :: u32 where "SHT_DYNSYM = 11"
definition SHF_ALLOC :: u64 where "SHF_ALLOC = 2"
definition SHN_LORESERVE :: nat where "SHN_LORESERVE = 0xFF00"

definition ELF_MAGIC :: bytes where "ELF_MAGIC = [0x7F, 0x45, 0x4C, 0x46]"

section \<open>Release components\<close>

datatype release_error = ReleaseMissing | Malformed string | Conflicting string string

definition MAX_BANNER :: nat where "MAX_BANNER = 4096"
definition MAX_RELEASE :: nat where "MAX_RELEASE = 255"

definition PREFIX :: bytes where "PREFIX = str_bytes ''Linux version ''"

definition graphic :: "char \<Rightarrow> bool" where
  "graphic c = (let n = of_char c :: nat in 0x21 \<le> n \<and> n \<le> 0x7E)"

definition component_char :: "char \<Rightarrow> bool" where
  "component_char c \<longleftrightarrow> graphic c \<and> c \<noteq> CHR ''/'' \<and> c \<noteq> CHR 0x5C \<and> c \<noteq> CHR '':''"

definition validate_component :: "string \<Rightarrow> release_error + unit" where
  "validate_component release =
    (if release = [] \<or> MAX_RELEASE < length release \<or> release = ''.'' \<or> release = ''..''
        \<or> \<not> list_all component_char release
     then Inl (Malformed ''unsafe release directory component'') else Inr ())"

section \<open>The banner\<close>

definition merge_release :: "string option \<Rightarrow> string \<Rightarrow> release_error + string option" where
  "merge_release release candidate =
    (case release of
       Some first \<Rightarrow> if first \<noteq> candidate then Inl (Conflicting first candidate) else Inr release
     | None \<Rightarrow> Inr (Some candidate))"

definition parse_banner :: "bytes \<Rightarrow> release_error + string" where
  "parse_banner bytes =
    (let bounded = take (min (length bytes) (MAX_BANNER + 1)) bytes in
     rbind (ok_or (Malformed ''missing bounded NUL terminator'')
       (position (\<lambda>b. b = 0) bounded)) (\<lambda>stop.
     let line = take stop bounded;
         line = (case strip_suffix [0x0A] line of Some t \<Rightarrow> t | None \<Rightarrow> line) in
     rbind (ok_or (Malformed ''linux_banner has wrong prefix'') (strip_prefix PREFIX line)) (\<lambda>tail.
     rbind (ok_or (Malformed ''missing build identity'') (position (\<lambda>b. b = 0x20) tail)) (\<lambda>split.
     let release = bytes_str (take split tail) in
     rbind (guard_err (Malformed ''release is not valid UTF-8'') (utf8_ok release)) (\<lambda>_.
     rbind (validate_component release) (\<lambda>_.
     rbind (ok_or (Malformed ''missing parenthesized build identity'')
       (strip_prefix [0x20, 0x28] (drop split tail))) (\<lambda>identity.
     if position (\<lambda>b. b = 0x29) identity \<in> {None, Some 0}
     then Inl (Malformed ''incomplete build identity'') else Inr release)))))))"

text \<open>The bytes of a symbol: its section and every load segment that holds its address must
  agree on the place in the file.\<close>

definition bad_symbol :: release_error where
  "bad_symbol = Malformed ''linux_banner is not bounded file-backed ELF data''"

definition nth_section :: "elf_file \<Rightarrow> nat \<Rightarrow> elf_section option" where
  "nth_section elf i =
    (if i < length (section_headers elf) then Some (section_headers elf ! i) else None)"

definition segment_step ::
  "bytes \<Rightarrow> elf_sym \<Rightarrow> u64 \<Rightarrow> bool \<times> u64 \<Rightarrow> elf_segment \<Rightarrow> release_error + (bool \<times> u64)" where
  "segment_step bytes sy start st seg = (case st of (backed, len) \<Rightarrow>
    if p_type seg \<noteq> PT_LOAD then Inr (backed, len)
    else case checked_sub (st_value sy) (p_vaddr seg) of
      None \<Rightarrow> Inr (backed, len)
    | Some delta \<Rightarrow>
       if p_memsz seg \<le> delta then Inr (backed, len)
       else case checked_sub (p_filesz seg) delta of
         None \<Rightarrow> Inl bad_symbol
       | Some remaining \<Rightarrow>
          if \<not> 0 < remaining then Inl bad_symbol
          else if p_memsz seg < p_filesz seg
            \<or> checked_add (p_vaddr seg) (p_memsz seg) = None
            \<or> (case checked_add (p_offset seg) (p_filesz seg) of
                 None \<Rightarrow> True | Some e \<Rightarrow> length bytes < unat e)
            \<or> checked_add (p_offset seg) delta \<noteq> Some start
            \<or> (st_size sy \<noteq> 0 \<and> remaining < len)
          then Inl bad_symbol
          else Inr (True, min len remaining))"

definition symbol_bytes :: "bytes \<Rightarrow> elf_file \<Rightarrow> elf_sym \<Rightarrow> release_error + bytes" where
  "symbol_bytes bytes elf sy =
    (if st_shndx sy = 0 \<or> SHN_LORESERVE \<le> st_shndx sy then Inl bad_symbol
     else
     rbind (ok_or bad_symbol (nth_section elf (st_shndx sy))) (\<lambda>sec.
     if sh_type sec = SHT_NOBITS \<or> sh_flags sec AND SHF_ALLOC = 0 then Inl bad_symbol
     else
     rbind (ok_or bad_symbol (checked_add (sh_addr sec) (sh_size sec))) (\<lambda>_.
     rbind (ok_or bad_symbol (checked_add (sh_offset sec) (sh_size sec))) (\<lambda>section_end.
     if length bytes < unat section_end then Inl bad_symbol
     else
     rbind (ok_or bad_symbol (checked_sub (st_value sy) (sh_addr sec))) (\<lambda>relative.
     rbind (ok_or bad_symbol (checked_sub (sh_size sec) relative)) (\<lambda>available.
     if \<not> 0 < available then Inl bad_symbol
     else
     let len = (if st_size sy = 0 then available else st_size sy) in
     if available < len then Inl bad_symbol
     else
     rbind (ok_or bad_symbol (checked_add (sh_offset sec) relative)) (\<lambda>start.
     rbind (try_fold (segment_step bytes sy start) (False, len) (program_headers elf)) (\<lambda>(backed, len).
     if \<not> backed then Inl bad_symbol
     else
     rbind (ok_or bad_symbol (checked_add start len)) (\<lambda>stop.
     ok_or bad_symbol (get_range bytes (unat start) (unat stop)))))))))))"

section \<open>Detection\<close>

text \<open>One symbol of a table, whose names the function \<open>names\<close> gives.\<close>

definition symbol_step ::
  "bytes \<Rightarrow> elf_file \<Rightarrow> (nat \<Rightarrow> string option) \<Rightarrow> string option \<Rightarrow> elf_sym
    \<Rightarrow> release_error + string option" where
  "symbol_step bytes elf names release sy =
    (if names (st_name sy) = Some ''linux_banner'' then
       rbind (symbol_bytes bytes elf sy) (\<lambda>s.
       rbind (parse_banner s) (\<lambda>candidate. merge_release release candidate))
     else Inr release)"

definition bad_dynsym :: release_error where
  "bad_dynsym = Malformed ''invalid ELF dynamic symbol section''"

definition dynsym_table ::
  "goblin \<Rightarrow> bytes \<Rightarrow> elf_file \<Rightarrow> elf_section \<Rightarrow> release_error + (elf_sym list \<times> (nat \<Rightarrow> string option))" where
  "dynsym_table G bytes elf sec =
    (let entry_size = (if elf_is_64 elf then 24 else 16) in
     if sh_entsize sec \<noteq> entry_size \<or> sh_size sec mod entry_size \<noteq> 0 then Inl bad_dynsym
     else
     rbind (ok_or bad_dynsym (parse_symtab G bytes (unat (sh_offset sec)) (unat (sh_size sec div entry_size))
       (elf_is_64 elf) (elf_little_endian elf))) (\<lambda>symbols.
     rbind (ok_or bad_dynsym (nth_section elf (unat (sh_link sec)))) (\<lambda>names.
     if sh_type names \<noteq> SHT_STRTAB then Inl bad_dynsym
     else
     rbind (ok_or bad_dynsym (parse_strtab G bytes (unat (sh_offset names)) (unat (sh_size names)))) (\<lambda>strings.
     Inr (symbols, strings)))))"

definition section_step ::
  "goblin \<Rightarrow> bytes \<Rightarrow> elf_file \<Rightarrow> string option \<Rightarrow> elf_section \<Rightarrow> release_error + string option" where
  "section_step G bytes elf release sec =
    (if sh_type sec \<noteq> SHT_DYNSYM then Inr release
     else rbind (dynsym_table G bytes elf sec) (\<lambda>(symbols, strings).
       try_fold (symbol_step bytes elf strings) release symbols))"

definition elf_release :: "goblin \<Rightarrow> bytes \<Rightarrow> release_error + string option" where
  "elf_release G bytes =
    rbind (ok_or (Malformed ''invalid ELF'') (parse_elf G bytes)) (\<lambda>elf.
    rbind (try_fold (section_step G bytes elf) None (section_headers elf)) (\<lambda>release.
    try_fold (\<lambda>release (symbols, strings). try_fold (symbol_step bytes elf strings) release symbols)
      release [(elf_syms elf, elf_strtab elf), (elf_dynsyms elf, elf_dynstrtab elf)]))"

definition banner_at :: "bytes \<Rightarrow> nat \<Rightarrow> bool" where
  "banner_at bytes i \<longleftrightarrow> take (length PREFIX) (drop i bytes) = PREFIX \<and> (i = 0 \<or> bytes ! (i - 1) = 0)"

definition window_step :: "bytes \<Rightarrow> string option \<Rightarrow> nat \<Rightarrow> release_error + string option" where
  "window_step bytes release i =
    (if banner_at bytes i then
       rbind (parse_banner (drop i bytes)) (\<lambda>candidate. merge_release release candidate)
     else Inr release)"

definition detect :: "goblin \<Rightarrow> bytes \<Rightarrow> release_error + string" where
  "detect G bytes =
    rbind (if starts_with ELF_MAGIC bytes then elf_release G bytes else Inr None) (\<lambda>release.
    rbind (try_fold (window_step bytes) release [0..<length bytes + 1 - length PREFIX]) (\<lambda>release.
    ok_or ReleaseMissing release))"

section \<open>What detection decides\<close>

text \<open>The candidates in the order in which they are met; a table or a symbol that is malformed
  is a candidate that is an error.\<close>

definition symbol_candidates ::
  "bytes \<Rightarrow> elf_file \<Rightarrow> (nat \<Rightarrow> string option) \<Rightarrow> elf_sym list \<Rightarrow> (release_error + string) list" where
  "symbol_candidates bytes elf names symbols =
    map (\<lambda>sy. rbind (symbol_bytes bytes elf sy) parse_banner)
      (filter (\<lambda>sy. names (st_name sy) = Some ''linux_banner'') symbols)"

definition section_candidates ::
  "goblin \<Rightarrow> bytes \<Rightarrow> elf_file \<Rightarrow> elf_section \<Rightarrow> (release_error + string) list" where
  "section_candidates G bytes elf sec =
    (if sh_type sec \<noteq> SHT_DYNSYM then []
     else case dynsym_table G bytes elf sec of
       Inl e \<Rightarrow> [Inl e]
     | Inr (symbols, strings) \<Rightarrow> symbol_candidates bytes elf strings symbols)"

definition elf_candidates :: "goblin \<Rightarrow> bytes \<Rightarrow> (release_error + string) list" where
  "elf_candidates G bytes =
    (case parse_elf G bytes of
       None \<Rightarrow> [Inl (Malformed ''invalid ELF'')]
     | Some elf \<Rightarrow>
        concat (map (section_candidates G bytes elf) (section_headers elf))
        @ symbol_candidates bytes elf (elf_strtab elf) (elf_syms elf)
        @ symbol_candidates bytes elf (elf_dynstrtab elf) (elf_dynsyms elf))"

definition release_candidates :: "goblin \<Rightarrow> bytes \<Rightarrow> (release_error + string) list" where
  "release_candidates G bytes =
    (if starts_with ELF_MAGIC bytes then elf_candidates G bytes else [])
    @ map (\<lambda>i. parse_banner (drop i bytes))
        (filter (banner_at bytes) [0..<length bytes + 1 - length PREFIX])"

definition weigh :: "string option \<Rightarrow> release_error + string \<Rightarrow> release_error + string option" where
  "weigh release c = rbind c (merge_release release)"

lemma weigh_simps [simp]:
  "weigh release (Inl e) = Inl e"
  "weigh None (Inr r) = Inr (Some r)"
  "weigh (Some q) (Inr r) = (if q \<noteq> r then Inl (Conflicting q r) else Inr (Some q))"
  by (simp_all add: weigh_def merge_release_def)

lemma symbol_step_eq:
  "symbol_step bytes elf names release sy =
    (if names (st_name sy) = Some ''linux_banner''
     then weigh release (rbind (symbol_bytes bytes elf sy) parse_banner) else Inr release)"
  by (cases "symbol_bytes bytes elf sy") (simp_all add: symbol_step_def weigh_def)

lemma symbol_step_weigh:
  "try_fold (symbol_step bytes elf names) release symbols
   = try_fold weigh release (symbol_candidates bytes elf names symbols)"
  by (induction symbols arbitrary: release) (simp_all add: symbol_step_eq symbol_candidates_def)

lemma section_step_weigh:
  "section_step G bytes elf release sec = try_fold weigh release (section_candidates G bytes elf sec)"
  by (auto simp: section_step_def section_candidates_def symbol_step_weigh
      split: sum.split)

lemma window_step_weigh:
  "try_fold (window_step bytes) release idx
   = try_fold weigh release (map (\<lambda>i. parse_banner (drop i bytes)) (filter (banner_at bytes) idx))"
  by (induction idx arbitrary: release) (simp_all add: window_step_def weigh_def [symmetric])

lemma elf_release_weigh: "elf_release G bytes = try_fold weigh None (elf_candidates G bytes)"
proof (cases "parse_elf G bytes")
  case (Some elf)
  have "try_fold (section_step G bytes elf) release secs
      = try_fold weigh release (concat (map (section_candidates G bytes elf) secs))" for release secs
    unfolding section_step_weigh by (rule try_fold_concat)
  then show ?thesis
    using Some
    by (simp add: elf_release_def elf_candidates_def symbol_step_weigh try_fold_append case_prod_beta)
qed (simp add: elf_release_def elf_candidates_def)

lemma detect_weigh:
  "detect G bytes = rbind (try_fold weigh None (release_candidates G bytes)) (ok_or ReleaseMissing)"
  by (cases "elf_release G bytes")
    (auto simp: detect_def release_candidates_def elf_release_weigh window_step_weigh try_fold_append)

lemma weigh_all:
  "try_fold weigh release cs = Inr (Some r) \<longleftrightarrow>
    (release = None \<or> release = Some r) \<and> (\<forall>c\<in>set cs. c = Inr r) \<and> (release = Some r \<or> cs \<noteq> [])"
proof (induction cs arbitrary: release)
  case (Cons c cs)
  show ?case
    by (cases c; cases release) (auto simp: Cons)
qed auto

lemma detect_eq_Inr:
  "detect G bytes = Inr r \<longleftrightarrow> release_candidates G bytes \<noteq> [] \<and> (\<forall>c\<in>set (release_candidates G bytes). c = Inr r)"
  by (auto simp: detect_weigh result_simps weigh_all)

definition safe_component :: "string \<Rightarrow> bool" where
  "safe_component r \<longleftrightarrow> r \<noteq> [] \<and> length r \<le> 255 \<and> r \<noteq> ''.'' \<and> r \<noteq> ''..''
    \<and> (\<forall>c\<in>set r. 0x21 \<le> (of_char c :: nat) \<and> (of_char c :: nat) \<le> 0x7E \<and> c \<noteq> CHR ''/''
        \<and> c \<noteq> CHR 0x5C \<and> c \<noteq> CHR '':'')"

lemma validate_component_iff: "validate_component r = Inr () \<longleftrightarrow> safe_component r"
  by (auto simp: validate_component_def safe_component_def component_char_def graphic_def Let_def
      MAX_RELEASE_def list_all_iff)

lemma parse_banner_safe: "parse_banner bytes = Inr r \<Longrightarrow> validate_component r = Inr ()"
  by (auto simp: parse_banner_def Let_def result_simps split: if_splits)

lemma symbol_candidate_parsed:
  "Inr r \<in> set (symbol_candidates bytes elf names symbols) \<Longrightarrow> \<exists>s. parse_banner s = Inr r"
proof -
  assume "Inr r \<in> set (symbol_candidates bytes elf names symbols)"
  then obtain sy where "rbind (symbol_bytes bytes elf sy) parse_banner = Inr r"
    by (auto simp: symbol_candidates_def)
  then show ?thesis by (auto simp: rbind_eq_Inr)
qed

lemma section_candidate_parsed:
  "Inr r \<in> set (section_candidates G bytes elf sec) \<Longrightarrow> \<exists>s. parse_banner s = Inr r"
  by (auto simp: section_candidates_def split: if_splits sum.splits dest: symbol_candidate_parsed)

lemma candidate_parsed:
  assumes "Inr r \<in> set (release_candidates G bytes)"
  shows "\<exists>s. parse_banner s = Inr r"
proof -
  have windows: "\<exists>s. parse_banner s = Inr r"
    if "Inr r \<in> (\<lambda>i. parse_banner (drop i bytes)) ` A" for A
    using that by (auto simp: image_iff)
  show ?thesis
    using assms windows
    by (auto simp: release_candidates_def elf_candidates_def split: if_splits option.splits
        dest: symbol_candidate_parsed section_candidate_parsed)
qed

text \<open>
  C24. The release that is detected. A release is returned exactly if there is a candidate, a
  symbol named \<open>linux_banner\<close> or a banner after a NUL or at the start of the file, and every
  candidate is well formed and gives that same release; it is then safe as one component of a
  path.
\<close>

theorem detect_release:
  "(detect G bytes = Inr r \<longleftrightarrow>
     release_candidates G bytes \<noteq> [] \<and> set (release_candidates G bytes) \<subseteq> {Inr r})
   \<and> (detect G bytes = Inr r \<longrightarrow> safe_component r)"
proof -
  have "safe_component r" if "detect G bytes = Inr r"
  proof -
    from that have "Inr r \<in> set (release_candidates G bytes)"
      by (auto simp: detect_eq_Inr) (metis list.set_intros(1) list.exhaust)
    then obtain s where "parse_banner s = Inr r" by (blast dest: candidate_parsed)
    then show ?thesis by (simp add: parse_banner_safe validate_component_iff [symmetric])
  qed
  then show ?thesis by (auto simp: detect_eq_Inr)
qed

text \<open>The bytes of a symbol lie in the file and in the symbol's section, at the offset of its
  address there, and no segment that holds the address places it elsewhere.\<close>

definition segment_holds :: "elf_segment \<Rightarrow> u64 \<Rightarrow> bool" where
  "segment_holds seg a \<longleftrightarrow> p_type seg = PT_LOAD \<and> p_vaddr seg \<le> a \<and> a - p_vaddr seg < p_memsz seg"

lemma segment_fold:
  assumes "try_fold (segment_step bytes sy start) (b, n) segs = Inr (b', n')"
  shows "n' \<le> n \<and> (0 < n \<longrightarrow> 0 < n')
     \<and> (b' \<longleftrightarrow> b \<or> (\<exists>seg\<in>set segs. segment_holds seg (st_value sy)))
     \<and> (\<forall>seg\<in>set segs. segment_holds seg (st_value sy) \<longrightarrow>
          checked_add (p_offset seg) (st_value sy - p_vaddr seg) = Some start
          \<and> n' \<le> p_filesz seg - (st_value sy - p_vaddr seg))"
  using assms
proof (induction segs arbitrary: b n)
  case (Cons seg segs)
  from Cons.prems obtain b1 n1 where
    st: "segment_step bytes sy start (b, n) seg = Inr (b1, n1)"
    and rest: "try_fold (segment_step bytes sy start) (b1, n1) segs = Inr (b', n')"
    by (auto simp: result_simps)
  note IH = Cons.IH [OF rest]
  show ?case
  proof (cases "segment_holds seg (st_value sy)")
    case True
    then have "p_type seg = PT_LOAD" "checked_sub (st_value sy) (p_vaddr seg) = Some (st_value sy - p_vaddr seg)"
      "\<not> p_memsz seg \<le> st_value sy - p_vaddr seg"
      by (auto simp: segment_holds_def checked_sub_def)
    with st have s: "b1" "n1 = min n (p_filesz seg - (st_value sy - p_vaddr seg))"
      "0 < p_filesz seg - (st_value sy - p_vaddr seg)"
      "checked_add (p_offset seg) (st_value sy - p_vaddr seg) = Some start"
      by (auto simp: segment_step_def checked_sub_def split: option.splits if_splits)
    then show ?thesis using IH True by (auto simp: min_def split: if_splits)
  next
    case False
    then have "(b1, n1) = (b, n)"
      using st by (auto simp: segment_step_def segment_holds_def checked_sub_def split: option.splits if_splits)
    then show ?thesis using IH False by auto
  qed
qed simp

lemma symbol_bytes_place:
  assumes "symbol_bytes bytes elf sy = Inr s"
  obtains sec where "nth_section elf (st_shndx sy) = Some sec" "sh_type sec \<noteq> SHT_NOBITS"
    "unat (sh_offset sec) + unat (sh_size sec) \<le> length bytes"
    "unat (sh_addr sec) \<le> unat (st_value sy)" "s \<noteq> []"
    "unat (st_value sy) - unat (sh_addr sec) + length s \<le> unat (sh_size sec)"
    "s = take (length s) (drop (unat (sh_offset sec) + (unat (st_value sy) - unat (sh_addr sec))) bytes)"
    "\<exists>seg\<in>set (program_headers elf). segment_holds seg (st_value sy)"
    "\<forall>seg\<in>set (program_headers elf). segment_holds seg (st_value sy) \<longrightarrow>
       unat (p_offset seg) + (unat (st_value sy) - unat (p_vaddr seg))
       = unat (sh_offset sec) + (unat (st_value sy) - unat (sh_addr sec))"
proof -
  from assms obtain sec se rel av start n stop where
    sec: "nth_section elf (st_shndx sy) = Some sec" "sh_type sec \<noteq> SHT_NOBITS"
    and se: "checked_add (sh_offset sec) (sh_size sec) = Some se" "unat se \<le> length bytes"
    and rel: "checked_sub (st_value sy) (sh_addr sec) = Some rel"
    and av: "checked_sub (sh_size sec) rel = Some av" "av \<noteq> 0"
    and len: "(if st_size sy = 0 then av else st_size sy) \<le> av"
    and start: "checked_add (sh_offset sec) rel = Some start"
    and fold: "try_fold (segment_step bytes sy start)
      (False, if st_size sy = 0 then av else st_size sy) (program_headers elf) = Inr (True, n)"
    and stop: "checked_add start n = Some stop"
    and s: "get_range bytes (unat start) (unat stop) = Some s"
    by (auto simp: symbol_bytes_def Let_def result_simps not_less split: if_splits prod.splits)
  define n0 where "n0 = (if st_size sy = 0 then av else st_size sy)"
  have n0: "0 < n0" "n0 \<le> av" using av(2) len by (auto simp: n0_def word_neq_0_conv)
  note seg = segment_fold [OF fold [folded n0_def]]
  have n: "0 < unat n" "unat n \<le> unat av"
    using seg n0 by (auto simp: word_less_nat_alt word_le_nat_alt)
  have ls: "s = take (unat n) (drop (unat start) bytes)" "length s = unat n"
    using s stop by (auto simp: checked_simps)
  have ust: "unat start = unat (sh_offset sec) + (unat (st_value sy) - unat (sh_addr sec))"
    using start rel by (simp add: checked_simps)
  show thesis
  proof (rule that [OF sec])
    show "unat (sh_offset sec) + unat (sh_size sec) \<le> length bytes"
      using se by (simp add: checked_simps)
    show "unat (sh_addr sec) \<le> unat (st_value sy)" using rel by (simp add: checked_simps)
    show "s \<noteq> []" using ls n by auto
    show "unat (st_value sy) - unat (sh_addr sec) + length s \<le> unat (sh_size sec)"
      using ls(2) n av rel by (simp add: checked_simps)
    show "s = take (length s) (drop (unat (sh_offset sec) + (unat (st_value sy) - unat (sh_addr sec))) bytes)"
      using ls ust by simp
    show "\<exists>seg\<in>set (program_headers elf). segment_holds seg (st_value sy)" using seg by simp
    show "\<forall>seg\<in>set (program_headers elf). segment_holds seg (st_value sy) \<longrightarrow>
       unat (p_offset seg) + (unat (st_value sy) - unat (p_vaddr seg))
       = unat (sh_offset sec) + (unat (st_value sy) - unat (sh_addr sec))"
    proof (intro ballI impI)
      fix g assume g: "g \<in> set (program_headers elf)" "segment_holds g (st_value sy)"
      then have "checked_add (p_offset g) (st_value sy - p_vaddr g) = Some start" using seg by blast
      moreover have "unat (st_value sy - p_vaddr g) = unat (st_value sy) - unat (p_vaddr g)"
        using g(2) by (simp add: segment_holds_def unat_sub)
      ultimately show "unat (p_offset g) + (unat (st_value sy) - unat (p_vaddr g))
         = unat (sh_offset sec) + (unat (st_value sy) - unat (sh_addr sec))"
        using ust by (simp add: checked_simps)
    qed
  qed
qed

definition demo_goblin :: goblin where
  "demo_goblin = \<lparr>parse_elf = (\<lambda>_. None), parse_symtab = (\<lambda>_ _ _ _ _. None),
    parse_strtab = (\<lambda>_ _ _. None)\<rparr>"

definition demo_banner :: bytes where
  "demo_banner = [1, 0] @ str_bytes ''Linux version 6.1 (x) y'' @ [0]"

theorem detect_release_witness:
  "detect demo_goblin demo_banner = Inr ''6.1'' \<and> safe_component ''6.1''
   \<and> set (release_candidates demo_goblin demo_banner) \<subseteq> {Inr ''6.1''}"
proof -
  have "detect demo_goblin demo_banner = Inr ''6.1''" by code_simp
  with detect_release [of demo_goblin demo_banner "''6.1''"] show ?thesis by blast
qed

end
