(* ===== verification/Initrd.thy ===== *)
theory Initrd
  imports KernelRelease
begin

text \<open>
  The initramfs (\<open>initrd.rs\<close>): the cpio newc records, the walk over an archive, the
  wrapping of a static binary and the archive with kernel modules.

  A vector under construction is the list of the bytes written so far. The loops that pad it and
  the two nested loops of \<open>validate_cpio\<close> are recursive functions with a measure. The
  decompressors of the crates \<open>flate2\<close> and \<open>ruzstd\<close> are the record
  \<open>decoders\<close>; the loops over the members of a compressed input end only if a decoder
  consumes something, so they are partial functions, and \<open>materialize_returns\<close> shows that
  they return for every decoder that does.
\<close>

section \<open>Errors\<close>

datatype initrd_error =
    InitTooLarge nat
  | UnsupportedFormat
  | ModulesRequireStatic
  | ModulePath string
  | ArchiveTooLarge
  | MalformedArchive
  | Decompress
  | ElfParse
  | DynamicallyLinked string

definition NEWC_MAGIC :: bytes where "NEWC_MAGIC = str_bytes ''070701''"

definition is_cpio :: "bytes \<Rightarrow> bool" where
  "is_cpio bytes \<longleftrightarrow> length NEWC_MAGIC \<le> length bytes \<and> take (length NEWC_MAGIC) bytes = NEWC_MAGIC"

definition is_elf :: "bytes \<Rightarrow> bool" where
  "is_elf bytes \<longleftrightarrow> length ELF_MAGIC \<le> length bytes \<and> take (length ELF_MAGIC) bytes = ELF_MAGIC"

definition check_static_elf :: "goblin \<Rightarrow> bytes \<Rightarrow> initrd_error + unit" where
  "check_static_elf G bytes =
    rbind (ok_or ElfParse (parse_elf G bytes)) (\<lambda>elf.
    if list_ex (\<lambda>ph. p_type ph = PT_INTERP) (program_headers elf)
    then Inl (DynamicallyLinked (case elf_interpreter elf of Some i \<Rightarrow> i | None \<Rightarrow> ''<unknown>''))
    else Inr ())"

section \<open>Records (cpio_entry)\<close>

text \<open>\<open>{:08X}\<close>: at least eight upper-case digits.\<close>

fun hex_upper :: "nat \<Rightarrow> bytes" where
  "hex_upper n = (if n < 16 then [hex_digit_upper n] else hex_upper (n div 16) @ [hex_digit_upper (n mod 16)])"

declare hex_upper.simps [simp del]

definition hex08 :: "nat \<Rightarrow> bytes" where
  "hex08 n = (let h = hex_upper n in replicate (8 - length h) 0x30 @ h)"

text \<open>\<open>while !out.len().is_multiple_of(4) { out.push(0) }\<close>\<close>

function pad_to_4 :: "bytes \<Rightarrow> bytes" where
  "pad_to_4 out = (if length out mod 4 = 0 then out else pad_to_4 (out @ [0]))"
  by pat_completeness auto

termination pad_to_4
  by (relation "measure (\<lambda>out. (4 - length out mod 4) mod 4)") (auto simp: mod_Suc)

declare pad_to_4.simps [simp del]

definition cpio_entry ::
  "bytes \<Rightarrow> u32 \<Rightarrow> u32 \<Rightarrow> u32 \<Rightarrow> string \<Rightarrow> bytes \<Rightarrow> (u32 \<times> u32) option \<Rightarrow> bytes" where
  "cpio_entry out ino mode nlink name data rdev =
    (let namesize = length name + 1;
         (rdevmajor, rdevminor) = (case rdev of Some r \<Rightarrow> r | None \<Rightarrow> (0, 0));
         header = NEWC_MAGIC @ hex08 (unat ino) @ hex08 (unat mode) @ hex08 0 @ hex08 0
           @ hex08 (unat nlink) @ hex08 0 @ hex08 (length data) @ hex08 0 @ hex08 0
           @ hex08 (unat rdevmajor) @ hex08 (unat rdevminor) @ hex08 namesize @ hex08 0;
         out = pad_to_4 (out @ header @ str_bytes name @ [0])
     in pad_to_4 (out @ data))"

definition S_DIR :: u32 where "S_DIR = 0x41ED"        \<comment> \<open>\<open>0o040755\<close>\<close>
definition S_CHR :: u32 where "S_CHR = 0x21B6"        \<comment> \<open>\<open>0o020666\<close>\<close>
definition S_EXEC :: u32 where "S_EXEC = 0x81ED"      \<comment> \<open>\<open>0o100755\<close>\<close>
definition S_FILE :: u32 where "S_FILE = 0x81A4"      \<comment> \<open>\<open>0o100644\<close>\<close>

definition wrap_as_cpio :: "bytes \<Rightarrow> bytes" where
  "wrap_as_cpio init_binary =
    (let out = [];
         out = cpio_entry out 1 S_DIR 3 ''.'' [] None;
         out = cpio_entry out 2 S_DIR 2 ''dev'' [] None;
         out = cpio_entry out 3 S_CHR 1 ''dev/console'' [] (Some (5, 1));
         out = cpio_entry out 4 S_EXEC 1 ''init'' init_binary None
     in cpio_entry out 0 0 1 ''TRAILER!!!'' [] None)"

text \<open>\<open>n & !3\<close> on a \<open>usize\<close>.\<close>

definition down4 :: "nat \<Rightarrow> nat" where
  "down4 n = n div 4 * 4"

definition checked_entry_size :: "nat \<Rightarrow> nat \<Rightarrow> nat \<Rightarrow> initrd_error + nat" where
  "checked_entry_size offset name_len len =
    rbind (ok_or ArchiveTooLarge (usize_add name_len 1)) (\<lambda>namesize.
    rbind (guard_err ArchiveTooLarge (namesize < 2 ^ 32)) (\<lambda>_.
    rbind (guard_err ArchiveTooLarge (len < 2 ^ 32)) (\<lambda>_.
    rbind (ok_or ArchiveTooLarge
      (Option.bind (usize_add offset 110) (\<lambda>n.
       Option.bind (usize_add n namesize) (\<lambda>n.
       Option.bind (usize_add n 3) (\<lambda>n.
       Option.bind (usize_add (down4 n) len) (\<lambda>n.
       map_option down4 (usize_add n 3))))))) (\<lambda>stop.
    if offset \<le> stop then Inr (stop - offset) else Inl ArchiveTooLarge))))"

text \<open>\<open>try_reserve\<close> is taken to succeed.\<close>

definition checked_entry ::
  "bytes \<Rightarrow> u32 \<Rightarrow> u32 \<Rightarrow> u32 \<Rightarrow> string \<Rightarrow> bytes \<Rightarrow> (u32 \<times> u32) option \<Rightarrow> initrd_error + bytes" where
  "checked_entry out ino mode nlink name data rdev =
    rbind (checked_entry_size (length out) (length name) (length data)) (\<lambda>_.
    Inr (cpio_entry out ino mode nlink name data rdev))"

section \<open>Walking an archive (validate_cpio)\<close>

definition is_hex :: "u8 \<Rightarrow> bool" where
  "is_hex b \<longleftrightarrow> (0x30 \<le> b \<and> b \<le> 0x39) \<or> (0x41 \<le> b \<and> b \<le> 0x46) \<or> (0x61 \<le> b \<and> b \<le> 0x66)"

definition hex_value :: "u8 \<Rightarrow> nat" where
  "hex_value b = (if b \<le> 0x39 then unat b - 0x30 else if b \<le> 0x46 then unat b - 55 else unat b - 87)"

text \<open>\<open>u32::from_str_radix(_, 16)\<close> on eight digits, which cannot overflow.\<close>

definition parse_hex :: "bytes \<Rightarrow> nat option" where
  "parse_hex h = (if list_all is_hex h then Some (foldl (\<lambda>n b. 16 * n + hex_value b) 0 h) else None)"

fun chunks8 :: "'a list \<Rightarrow> 'a list list" where
  "chunks8 (a # b # c # d # e # f # g # h # xs) = [a, b, c, d, e, f, g, h] # chunks8 xs"
| "chunks8 _ = []"

fun all_some :: "'a option list \<Rightarrow> 'a list option" where
  "all_some [] = Some []"
| "all_some (None # _) = None"
| "all_some (Some x # xs) = map_option ((#) x) (all_some xs)"

text \<open>One round of the inner loop: the rest of the input, and whether the record was the
  trailer that ends the loop.\<close>

definition cpio_round :: "bytes \<Rightarrow> (bytes \<times> bool) option" where
  "cpio_round bytes =
    Option.bind (get_range bytes 0 110) (\<lambda>header.
    if \<not> starts_with NEWC_MAGIC header then None
    else
    Option.bind (all_some (map parse_hex (chunks8 (drop 6 header)))) (\<lambda>fields.
    let len = fields ! 6; namesize = fields ! 11 in
    Option.bind (usize_add 110 namesize) (\<lambda>name_end.
    Option.bind (get_range bytes 110 name_end) (\<lambda>name.
    if name = [] \<or> last name \<noteq> 0 \<or> 0 \<in> set (butlast name) \<or> fields ! 12 \<noteq> 0 then None
    else
    Option.bind (map_option down4 (usize_add name_end 3)) (\<lambda>data_start.
    Option.bind (usize_add data_start len) (\<lambda>data_end.
    Option.bind (map_option down4 (usize_add data_end 3)) (\<lambda>next_record.
    if length bytes < next_record then None
    else
    let rest = drop next_record bytes in
    if name = str_bytes ''TRAILER!!!'' @ [0] then (if len \<noteq> 0 then None else Some (rest, True))
    else Some (rest, False))))))))"

lemma down4_ge: "n \<le> down4 (n + 3)"
  by (simp add: down4_def)

lemma cpio_round_Some:
  assumes "cpio_round bytes = Some (rest, b)"
  obtains header fields name_end name data_start data_end n where
    "get_range bytes 0 110 = Some header" "starts_with NEWC_MAGIC header"
    "all_some (map parse_hex (chunks8 (drop 6 header))) = Some fields"
    "usize_add 110 (fields ! 11) = Some name_end" "get_range bytes 110 name_end = Some name"
    "map_option down4 (usize_add name_end 3) = Some data_start"
    "usize_add data_start (fields ! 6) = Some data_end"
    "map_option down4 (usize_add data_end 3) = Some n" "n \<le> length bytes" "rest = drop n bytes"
    "b \<longleftrightarrow> name = str_bytes ''TRAILER!!!'' @ [0]"
  using assms unfolding cpio_round_def Let_def
  by (elim bind_SomeE if_NoneE)
    (rule that, assumption, simp, (assumption)+, simp, (auto split: if_splits)[2])

lemma cpio_round_shorter:
  assumes "cpio_round bytes = Some (rest, b)"
  shows "length rest < length bytes"
proof -
  from assms obtain fields name_end data_start data_end n where
    n: "usize_add 110 (fields ! 11 :: nat) = Some name_end"
    "map_option down4 (usize_add name_end 3) = Some data_start"
    "usize_add data_start (fields ! 6) = Some data_end"
    "map_option down4 (usize_add data_end 3) = Some n" "rest = drop n bytes" "n \<le> length bytes"
    by (rule cpio_round_Some) blast
  have "name_end \<le> data_start" "data_end \<le> n"
    using n(2,4) down4_ge [of name_end] down4_ge [of data_end] by (auto simp: checked_simps)
  then have "110 \<le> n" using n(1,3) by (simp add: checked_simps)
  with n(5,6) show ?thesis by simp
qed

function cpio_records :: "bytes \<Rightarrow> bytes option" where
  "cpio_records bytes =
    (case cpio_round bytes of
       None \<Rightarrow> None
     | Some (rest, ends) \<Rightarrow> if ends then Some rest else cpio_records rest)"
  by pat_completeness auto

termination cpio_records
  by (relation "measure length") (auto dest: cpio_round_shorter)

declare cpio_records.simps [simp del]

lemma cpio_records_shorter: "cpio_records bytes = Some rest \<Longrightarrow> length rest < length bytes"
proof (induction bytes rule: cpio_records.induct)
  case (1 bytes)
  obtain r ends where r: "cpio_round bytes = Some (r, ends)"
    using "1.prems" by (cases "cpio_round bytes") (auto simp: cpio_records.simps [of bytes])
  note shorter = cpio_round_shorter [OF r]
  show ?case
  proof (cases ends)
    case True
    then show ?thesis using "1.prems" r shorter by (simp add: cpio_records.simps [of bytes])
  next
    case False
    then have "cpio_records r = Some rest"
      using "1.prems" r by (simp add: cpio_records.simps [of bytes])
    then have "length rest < length r" by (rule "1.IH" [OF r refl False])
    with shorter show ?thesis by simp
  qed
qed

definition skip_padding :: "bytes \<Rightarrow> bytes" where
  "skip_padding bytes =
    drop (case position (\<lambda>b. b \<noteq> 0) bytes of Some i \<Rightarrow> i | None \<Rightarrow> length bytes) bytes"

lemma skip_padding_le: "length (skip_padding bytes) \<le> length bytes"
  by (simp add: skip_padding_def)

function validate_cpio :: "bytes \<Rightarrow> bool" where
  "validate_cpio bytes =
    (case cpio_records bytes of
       None \<Rightarrow> False
     | Some rest \<Rightarrow> if skip_padding rest = [] then True else validate_cpio (skip_padding rest))"
  by pat_completeness auto

termination validate_cpio
proof (relation "measure length")
  fix bytes rest assume "cpio_records bytes = Some rest"
  then have "length rest < length bytes" by (rule cpio_records_shorter)
  with skip_padding_le [of rest] show "(skip_padding rest, bytes) \<in> measure length" by simp
qed simp

declare validate_cpio.simps [simp del]

section \<open>What a record holds\<close>

text \<open>The reference reader of the newc format: the fields at their fixed places, the name
  after the header and the data at the next multiple of four.\<close>

record cpio_record =
  cr_ino :: u32
  cr_mode :: u32
  cr_nlink :: u32
  cr_name :: string
  cr_data :: bytes
  cr_rdev :: "u32 \<times> u32"

definition up4 :: "nat \<Rightarrow> nat" where
  "up4 n = (n + 3) div 4 * 4"

definition newc_field :: "nat \<Rightarrow> bytes \<Rightarrow> nat option" where
  "newc_field i bytes = parse_hex (take 8 (drop (6 + 8 * i) bytes))"

definition read_record :: "bytes \<Rightarrow> (cpio_record \<times> bytes) option" where
  "read_record bytes =
    (if length bytes < 110 \<or> \<not> starts_with NEWC_MAGIC bytes then None
     else case all_some (map (\<lambda>i. newc_field i bytes) [0, 1, 4, 6, 9, 10, 11]) of
       Some [ino, mode, nlink, len, major, minor, namesize] \<Rightarrow>
         let data_at = up4 (110 + namesize); stop = up4 (data_at + len) in
         if namesize = 0 \<or> length bytes < stop then None
         else Some (\<lparr>cr_ino = word_of_nat ino, cr_mode = word_of_nat mode, cr_nlink = word_of_nat nlink,
           cr_name = bytes_str (take (namesize - 1) (drop 110 bytes)),
           cr_data = take len (drop data_at bytes),
           cr_rdev = (word_of_nat major, word_of_nat minor)\<rparr>, drop stop bytes)
     | _ \<Rightarrow> None)"

definition TRAILER :: string where "TRAILER = ''TRAILER!!!''"

fun read_archive :: "nat \<Rightarrow> bytes \<Rightarrow> (cpio_record list \<times> bytes) option" where
  "read_archive 0 bytes = None"
| "read_archive (Suc fuel) bytes =
    (case read_record bytes of
       None \<Rightarrow> None
     | Some (r, rest) \<Rightarrow>
        if cr_name r = TRAILER then Some ([], rest)
        else map_option (\<lambda>(rs, rest'). (r # rs, rest')) (read_archive fuel rest))"

text \<open>Every record takes at least 110 bytes, so the length of the input is fuel enough.\<close>

definition archive_records :: "bytes \<Rightarrow> cpio_record list option" where
  "archive_records bytes =
    (case read_archive (length bytes) bytes of Some (rs, []) \<Rightarrow> Some rs | _ \<Rightarrow> None)"

definition record_ok :: "cpio_record \<Rightarrow> bool" where
  "record_ok r \<longleftrightarrow> length (cr_name r) + 1 < 2 ^ 32 \<and> length (cr_data r) < 2 ^ 32 \<and> CHR 0x00 \<notin> set (cr_name r)"

definition emit_record :: "bytes \<Rightarrow> cpio_record \<Rightarrow> bytes" where
  "emit_record out r =
    cpio_entry out (cr_ino r) (cr_mode r) (cr_nlink r) (cr_name r) (cr_data r) (Some (cr_rdev r))"

definition trailer_record :: cpio_record where
  "trailer_record = \<lparr>cr_ino = 0, cr_mode = 0, cr_nlink = 1, cr_name = TRAILER, cr_data = [],
    cr_rdev = (0, 0)\<rparr>"

definition archive_of :: "cpio_record list \<Rightarrow> bytes" where
  "archive_of rs = foldl emit_record [] (rs @ [trailer_record])"

section \<open>Hexadecimal fields\<close>

lemma hex_digit_upper_ok: "d < 16 \<Longrightarrow> is_hex (hex_digit_upper d) \<and> hex_value (hex_digit_upper d) = d"
proof -
  have "\<forall>d\<in>set [0..<16]. is_hex (hex_digit_upper d) \<and> hex_value (hex_digit_upper d) = d"
    by code_simp
  then show "d < 16 \<Longrightarrow> is_hex (hex_digit_upper d) \<and> hex_value (hex_digit_upper d) = d" by simp
qed

lemma hex_upper_digits: "list_all is_hex (hex_upper n)"
  by (induction n rule: hex_upper.induct)
    (subst hex_upper.simps, simp add: hex_digit_upper_ok)

lemma hex_upper_value: "foldl (\<lambda>n b. 16 * n + hex_value b) 0 (hex_upper n) = n"
  by (induction n rule: hex_upper.induct)
    (subst hex_upper.simps, simp add: hex_digit_upper_ok)

lemma length_hex_upper: "n < 16 ^ Suc k \<Longrightarrow> length (hex_upper n) \<le> Suc k"
proof (induction k arbitrary: n)
  case (Suc k)
  have "n div 16 < 16 ^ Suc k" using Suc.prems by (simp add: less_mult_imp_div_less)
  then show ?case using Suc.IH [of "n div 16"] by (subst hex_upper.simps) simp
qed (subst hex_upper.simps, simp)

lemma foldl_zeros: "foldl (\<lambda>n b. 16 * n + hex_value b) 0 (replicate k 0x30) = 0"
  by (induction k) (simp_all add: hex_value_def)

lemma length_hex08 [simp]: "n < 2 ^ 32 \<Longrightarrow> length (hex08 n) = 8"
  using length_hex_upper [of n 7] by (simp add: hex08_def Let_def)

lemma parse_hex08: "parse_hex (hex08 n) = Some n"
proof -
  have "list_all is_hex (replicate k 0x30)" for k by (simp add: list_all_iff is_hex_def)
  then show ?thesis
    by (simp add: parse_hex_def hex08_def Let_def hex_upper_digits foldl_zeros hex_upper_value)
qed

lemma chunks8_append: "length a = 8 \<Longrightarrow> chunks8 (a @ xs) = a # chunks8 xs"
proof -
  assume "length a = 8"
  then obtain b c d e f g h i where "a = [b, c, d, e, f, g, h, i]"
    by (auto simp: numeral_eq_Suc length_Suc_conv)
  then show ?thesis by simp
qed

section \<open>Records are written and read back\<close>

lemma pad_to_4_zeros:
  "(length out + k) mod 4 = 0 \<Longrightarrow> k < 4 \<Longrightarrow> pad_to_4 out = out @ replicate k 0"
proof (induction k arbitrary: out)
  case 0
  then show ?case by (simp add: pad_to_4.simps [of out])
next
  case (Suc k)
  then have ne: "length out mod 4 \<noteq> 0" by presburger
  have "pad_to_4 (out @ [0]) = (out @ [0]) @ replicate k 0"
    using Suc.prems by (intro Suc.IH) simp_all
  with ne show ?case by (simp add: pad_to_4.simps [of out])
qed

lemma up4_pad: "(n + (up4 n - n)) mod 4 = 0" "up4 n - n < 4" "n \<le> up4 n" "up4 n mod 4 = 0"
proof -
  show le: "n \<le> up4 n" by (simp add: up4_def)
  show "up4 n mod 4 = 0" by (simp add: up4_def)
  with le show "(n + (up4 n - n)) mod 4 = 0" by simp
  show "up4 n - n < 4" unfolding up4_def by presburger
qed

lemma pad_to_4_eq: "pad_to_4 out = out @ replicate (up4 (length out) - length out) 0"
  by (rule pad_to_4_zeros) (rule up4_pad)+

lemma length_pad_to_4 [simp]: "length (pad_to_4 out) = up4 (length out)"
  using up4_pad(3) [of "length out"] by (simp add: pad_to_4_eq)

lemma up4_add: "n mod 4 = 0 \<Longrightarrow> up4 (n + m) = n + up4 m"
  unfolding up4_def by presburger

lemma pad_to_4_append: "length a mod 4 = 0 \<Longrightarrow> pad_to_4 (a @ b) = a @ pad_to_4 b"
  by (simp add: pad_to_4_eq up4_add)

lemma down4_add3: "down4 (n + 3) = up4 n"
  by (simp add: down4_def up4_def)

text \<open>The header of a record, and the record as it stands in an archive.\<close>

definition header_fields :: "cpio_record \<Rightarrow> nat list" where
  "header_fields r = [unat (cr_ino r), unat (cr_mode r), 0, 0, unat (cr_nlink r), 0, length (cr_data r), 0, 0,
     unat (fst (cr_rdev r)), unat (snd (cr_rdev r)), length (cr_name r) + 1, 0]"

definition header_of :: "cpio_record \<Rightarrow> bytes" where
  "header_of r = NEWC_MAGIC @ concat (map hex08 (header_fields r))"

definition name_part :: "cpio_record \<Rightarrow> bytes" where
  "name_part r = pad_to_4 (header_of r @ str_bytes (cr_name r) @ [0])"

definition record_image :: "cpio_record \<Rightarrow> bytes" where
  "record_image r = name_part r @ pad_to_4 (cr_data r)"

lemma length_NEWC_MAGIC [simp]: "length NEWC_MAGIC = 6"
  by (simp add: NEWC_MAGIC_def)

lemma unat_u32_32: "unat (w :: u32) < 2 ^ 32"
  by (rule unat_u32_less)

lemma header_fields_small: "record_ok r \<Longrightarrow> n \<in> set (header_fields r) \<Longrightarrow> n < 2 ^ 32"
  using unat_u32_less [of "cr_ino r"] unat_u32_less [of "cr_mode r"] unat_u32_less [of "cr_nlink r"]
    unat_u32_less [of "fst (cr_rdev r)"] unat_u32_less [of "snd (cr_rdev r)"]
  by (auto simp: header_fields_def record_ok_def)

lemma length_header_of: "record_ok r \<Longrightarrow> length (header_of r) = 110"
proof -
  assume ok: "record_ok r"
  have "length (concat (map hex08 (header_fields r))) = length (header_fields r) * 8"
    by (rule length_concat_map) (rule length_hex08, rule header_fields_small [OF ok])
  then show ?thesis by (simp add: header_of_def header_fields_def)
qed

lemma length_name_part: "record_ok r \<Longrightarrow> length (name_part r) = up4 (110 + (length (cr_name r) + 1))"
  by (simp add: name_part_def length_header_of add.assoc)

lemma length_record_image:
  "record_ok r \<Longrightarrow> length (record_image r) = up4 (up4 (110 + (length (cr_name r) + 1)) + length (cr_data r))"
  by (simp add: record_image_def length_name_part up4_add up4_pad(4))

lemma emit_record_eq:
  assumes "length out mod 4 = 0"
  shows "emit_record out r = out @ record_image r"
proof -
  have "emit_record out r = pad_to_4 (pad_to_4 (out @ header_of r @ str_bytes (cr_name r) @ [0]) @ cr_data r)"
    by (simp add: emit_record_def cpio_entry_def header_of_def header_fields_def case_prod_beta Let_def)
  also have "\<dots> = pad_to_4 ((out @ name_part r) @ cr_data r)"
    by (simp add: pad_to_4_append [OF assms] name_part_def)
  also have "\<dots> = (out @ name_part r) @ pad_to_4 (cr_data r)"
  proof (rule pad_to_4_append)
    show "length (out @ name_part r) mod 4 = 0"
      using assms up4_pad(4) by (simp add: name_part_def mod_add_left_eq [symmetric] del: mod_add_left_eq)
  qed
  finally show ?thesis by (simp add: record_image_def)
qed

lemma chunks8_fields:
  "(\<And>n. n \<in> set fs \<Longrightarrow> n < 2 ^ 32) \<Longrightarrow> chunks8 (concat (map hex08 fs)) = map hex08 fs"
  by (induction fs) (simp_all add: chunks8_append)

lemma all_some_fields: "all_some (map parse_hex (map hex08 fs)) = Some fs"
  by (induction fs) (simp_all add: parse_hex08)

text \<open>The parts of a record at the front of an input.\<close>

lemma record_front:
  assumes ok: "record_ok r"
    and bs_def: "bs = record_image r @ rest"
  shows "take 110 bs = header_of r"
    and "take (length (cr_name r) + 1) (drop 110 bs) = str_bytes (cr_name r) @ [0]"
    and "take (length (cr_data r)) (drop (up4 (110 + (length (cr_name r) + 1))) bs) = cr_data r"
    and "drop (up4 (up4 (110 + (length (cr_name r) + 1)) + length (cr_data r))) bs = rest"
    and "length (record_image r) \<le> length bs"
proof -
  let ?n = "up4 (110 + (length (cr_name r) + 1))"
  have name: "\<exists>z. name_part r = header_of r @ str_bytes (cr_name r) @ [0] @ z"
    by (simp add: name_part_def pad_to_4_eq)
  then obtain z where z: "name_part r = header_of r @ str_bytes (cr_name r) @ [0] @ z" by blast
  obtain z' where z': "pad_to_4 (cr_data r) = cr_data r @ z'" by (simp add: pad_to_4_eq)
  have h: "length (header_of r) = 110" using ok by (rule length_header_of)
  show "take 110 bs = header_of r" by (simp add: bs_def record_image_def z h)
  show "take (length (cr_name r) + 1) (drop 110 bs) = str_bytes (cr_name r) @ [0]"
    by (simp add: bs_def record_image_def z h)
  show "take (length (cr_data r)) (drop ?n bs) = cr_data r"
    unfolding length_name_part [OF ok, symmetric] bs_def record_image_def z' by simp
  show "drop (up4 (?n + length (cr_data r))) bs = rest"
    unfolding length_record_image [OF ok, symmetric] bs_def by simp
  show "length (record_image r) \<le> length bs" by (simp add: bs_def)
qed

lemma starts_with_append: "starts_with p (p @ s)"
  by (simp add: starts_with_def strip_prefix_Some)

lemma take_drop_take: "k + n \<le> m \<Longrightarrow> take n (drop k (take m xs)) = take n (drop k xs)"
  by (simp add: drop_take min_def)

lemma usize_small: "a + b < 0x10000000000 \<Longrightarrow> usize_add a b = Some (a + b)"
  by (simp add: usize_add_def usize_max_eq)

lemma up4_le: "up4 n \<le> n + 3"
  by (simp add: up4_def)

text \<open>The walk accepts a record and goes on behind it.\<close>

lemma cpio_round_record:
  assumes ok: "record_ok r" and tr: "cr_name r = TRAILER \<Longrightarrow> cr_data r = []"
  shows "cpio_round (record_image r @ rest) = Some (rest, cr_name r = TRAILER)"
proof -
  let ?bs = "record_image r @ rest"
  let ?ne = "110 + (length (cr_name r) + 1)"
  note fr = record_front [OF ok refl, of rest]
  have small: "?ne < 0x200000000" "length (cr_data r) < 0x100000000"
    using ok by (simp_all add: record_ok_def)
  then have small2: "?ne + 3 < 0x400000000" "up4 ?ne + length (cr_data r) + 3 < 0x800000000"
    using up4_le [of ?ne] by linarith+
  have len: "up4 (up4 ?ne + length (cr_data r)) \<le> length ?bs"
    using fr(5) by (simp add: length_record_image [OF ok])
  have le: "?ne \<le> up4 (up4 ?ne + length (cr_data r))"
    using up4_pad(3) [of ?ne] up4_pad(3) [of "up4 ?ne + length (cr_data r)"] by linarith
  have header: "get_range ?bs 0 110 = Some (header_of r)"
    using fr(1) le len by (simp add: get_range_def)
  have fields: "all_some (map parse_hex (chunks8 (drop 6 (header_of r)))) = Some (header_fields r)"
  proof -
    have "drop 6 (header_of r) = concat (map hex08 (header_fields r))" by (simp add: header_of_def)
    then show ?thesis by (simp only: chunks8_fields [OF header_fields_small [OF ok]] all_some_fields)
  qed
  have name: "get_range ?bs 110 ?ne = Some (str_bytes (cr_name r) @ [0])"
    using fr(2) le len by (simp add: get_range_def)
  have us: "usize_add 110 (length (cr_name r) + 1) = Some ?ne" "usize_add ?ne 3 = Some (?ne + 3)"
    "usize_add (up4 ?ne) (length (cr_data r)) = Some (up4 ?ne + length (cr_data r))"
    "usize_add (up4 ?ne + length (cr_data r)) 3 = Some (up4 ?ne + length (cr_data r) + 3)"
    using small small2 by (simp_all add: usize_small)
  have fs: "header_fields r ! 11 = length (cr_name r) + 1" "header_fields r ! 6 = length (cr_data r)"
    "header_fields r ! 12 = 0"
    by (simp_all add: header_fields_def)
  have nul: "CHR 0x00 \<notin> set (cr_name r)" using ok by (simp add: record_ok_def)
  have sw: "starts_with NEWC_MAGIC (header_of r)" by (simp add: header_of_def starts_with_append)
  have tname: "str_bytes (cr_name r) @ [0] = str_bytes ''TRAILER!!!'' @ [0] \<longleftrightarrow> cr_name r = TRAILER"
    by (simp add: TRAILER_def)
  show ?thesis
    unfolding cpio_round_def Let_def header Option.bind.simps sw not_True_eq_False if_False fields fs us
      name option.map down4_add3 fr(4) tname
    using nul len tr sw by simp
qed

lemma newc_field_record:
  assumes ok: "record_ok r" and i: "i < 13"
  shows "newc_field i (record_image r @ rest) = Some (header_fields r ! i)"
proof -
  let ?bs = "record_image r @ rest"
  have len: "length (header_fields r) = 13" by (simp add: header_fields_def)
  have "take 8 (drop (6 + 8 * i) ?bs) = take 8 (drop (6 + 8 * i) (take 110 ?bs))"
    using i by (intro take_drop_take [symmetric]) simp
  also have "\<dots> = take 8 (drop (i * 8) (concat (map hex08 (header_fields r))))"
    unfolding record_front(1) [OF ok refl] header_of_def by (simp add: mult.commute)
  also have "\<dots> = hex08 (header_fields r ! i)"
    using i len header_fields_small [OF ok] by (intro concat_slice) auto
  finally show ?thesis by (simp add: newc_field_def parse_hex08)
qed

lemma read_record_record:
  assumes ok: "record_ok r"
  shows "read_record (record_image r @ rest) = Some (r, rest)"
proof -
  let ?bs = "record_image r @ rest"
  note fr = record_front [OF ok refl, of rest]
  have len: "up4 (up4 (110 + (length (cr_name r) + 1)) + length (cr_data r)) \<le> length ?bs"
    using fr(5) by (simp add: length_record_image [OF ok])
  have "110 \<le> up4 (up4 (110 + (length (cr_name r) + 1)) + length (cr_data r))"
    using up4_pad(3) [of "110 + (length (cr_name r) + 1)"]
      up4_pad(3) [of "up4 (110 + (length (cr_name r) + 1)) + length (cr_data r)"] by linarith
  with len have "\<not> length ?bs < 110" by simp
  moreover have "starts_with NEWC_MAGIC ?bs"
  proof -
    have "?bs = header_of r @ drop 110 ?bs" using fr(1) by (metis append_take_drop_id)
    also have "\<dots> = NEWC_MAGIC @ concat (map hex08 (header_fields r)) @ drop 110 ?bs"
      by (simp add: header_of_def)
    finally show ?thesis using starts_with_append by metis
  qed
  moreover have "all_some (map (\<lambda>i. newc_field i ?bs) [0, 1, 4, 6, 9, 10, 11])
      = Some [unat (cr_ino r), unat (cr_mode r), unat (cr_nlink r), length (cr_data r),
          unat (fst (cr_rdev r)), unat (snd (cr_rdev r)), length (cr_name r) + 1]"
    by (simp add: newc_field_record [OF ok] header_fields_def)
  moreover have "take (length (cr_name r) + 1 - 1) (drop 110 ?bs) = str_bytes (cr_name r)"
  proof -
    have "take (length (cr_name r)) (drop 110 ?bs)
        = take (length (cr_name r)) (take (length (cr_name r) + 1) (drop 110 ?bs))"
      using take_drop_take [of 0 "length (cr_name r)" "length (cr_name r) + 1" "drop 110 ?bs"] by simp
    then show ?thesis unfolding fr(2) by simp
  qed
  ultimately show ?thesis
    using len unfolding read_record_def by (simp add: Let_def fr(3,4) [simplified])
qed

lemma length_record_image_mod: "length (record_image r) mod 4 = 0"
proof -
  have "length (record_image r)
      = up4 (length (header_of r @ str_bytes (cr_name r) @ [0])) + up4 (length (cr_data r))"
    unfolding record_image_def name_part_def length_append length_pad_to_4 by (rule refl)
  then show ?thesis using up4_pad(4) by (metis add_0 mod_add_eq mod_0)
qed

lemma emit_records_eq:
  "length out mod 4 = 0 \<Longrightarrow> foldl emit_record out rs = out @ concat (map record_image rs)"
proof (induction rs arbitrary: out)
  case (Cons r rs)
  have "length (out @ record_image r) mod 4 = 0"
    using Cons.prems length_record_image_mod [of r] by (metis add_0 length_append mod_add_eq mod_0)
  then show ?case using Cons by (simp add: emit_record_eq)
qed simp

lemma archive_of_eq: "archive_of rs = concat (map record_image rs) @ record_image trailer_record"
  using emit_records_eq [of "[]" "rs @ [trailer_record]"] by (simp add: archive_of_def del: foldl_append)

lemma trailer_ok: "record_ok trailer_record"
  by (simp add: record_ok_def trailer_record_def TRAILER_def)

lemma trailer_fields [simp]: "cr_name trailer_record = TRAILER" "cr_data trailer_record = []"
  by (simp_all add: trailer_record_def)

definition members_ok :: "cpio_record list \<Rightarrow> bool" where
  "members_ok rs \<longleftrightarrow> (\<forall>r\<in>set rs. record_ok r \<and> cr_name r \<noteq> TRAILER)"

lemma cpio_records_archive:
  "members_ok rs \<Longrightarrow>
    cpio_records (concat (map record_image rs) @ record_image trailer_record @ rest) = Some rest"
proof (induction rs)
  case Nil
  show ?case
    by (simp add: cpio_records.simps [of "record_image trailer_record @ rest"]
        cpio_round_record [OF trailer_ok])
next
  case (Cons r rs)
  let ?rest = "concat (map record_image rs) @ record_image trailer_record @ rest"
  have "cpio_round (record_image r @ ?rest) = Some (?rest, False)"
    using Cons.prems by (subst cpio_round_record) (simp_all add: members_ok_def)
  then show ?case
    using Cons by (simp add: cpio_records.simps [of "record_image r @ ?rest"] members_ok_def)
qed

lemma read_archive_archive:
  "members_ok rs \<Longrightarrow> length rs < fuel \<Longrightarrow>
    read_archive fuel (concat (map record_image rs) @ record_image trailer_record @ rest) = Some (rs, rest)"
proof (induction rs arbitrary: fuel)
  case Nil
  then obtain k where k: "fuel = Suc k" by (cases fuel) simp_all
  then show ?case by (simp add: k read_record_record [OF trailer_ok])
next
  case (Cons r rs)
  then obtain k where k: "fuel = Suc k" by (cases fuel) simp_all
  then show ?case using Cons by (simp add: read_record_record members_ok_def)
qed

lemma length_members: "members_ok rs \<Longrightarrow> length rs \<le> length (concat (map record_image rs))"
proof (induction rs)
  case (Cons r rs)
  have "110 \<le> length (record_image r)"
    using Cons.prems up4_pad(3) [of "110 + (length (cr_name r) + 1)"]
      up4_pad(3) [of "up4 (110 + (length (cr_name r) + 1)) + length (cr_data r)"]
    by (simp add: length_record_image members_ok_def)
  with Cons show ?case by (simp add: members_ok_def)
qed simp

lemma archive_roundtrip:
  assumes "members_ok rs"
  shows "validate_cpio (archive_of rs)" and "archive_records (archive_of rs) = Some rs"
proof -
  have "cpio_records (archive_of rs) = Some []"
    using cpio_records_archive [OF assms, of "[]"] by (simp add: archive_of_eq)
  then show "validate_cpio (archive_of rs)"
    by (simp add: validate_cpio.simps [of "archive_of rs"] skip_padding_def)
  have "110 \<le> length (record_image trailer_record)"
    using up4_pad(3) [of "121"] by (simp add: length_record_image [OF trailer_ok] TRAILER_def up4_def)
  then have "length rs < length (archive_of rs)"
    using length_members [OF assms] by (simp add: archive_of_eq)
  then show "archive_records (archive_of rs) = Some rs"
    using read_archive_archive [OF assms, of "length (archive_of rs)" "[]"]
    by (simp add: archive_records_def archive_of_eq)
qed

section \<open>materialize\<close>

text \<open>A decoder gets the rest of the input and returns its output and what it left; a zstd
  frame also has its declared size and the checksums.\<close>

record zstd_frame =
  zf_content :: bytes
  zf_content_size :: u64
  zf_checksum_data :: "u32 option"
  zf_checksum_calculated :: "u32 option"
  zf_rest :: bytes

record decoders =
  gunzip_member :: "bytes \<Rightarrow> (bytes \<times> bytes) option"
  zstd_frame_at :: "bytes \<Rightarrow> zstd_frame option"

partial_function (option) gzip_members ::
  "decoders \<Rightarrow> bytes \<Rightarrow> bytes \<Rightarrow> (initrd_error + bytes) option" where
  "gzip_members D decoded remaining =
    (if remaining = [] then Some (Inr decoded)
     else case gunzip_member D remaining of
       None \<Rightarrow> Some (Inl Decompress)
     | Some (out, rest) \<Rightarrow> gzip_members D (decoded @ out) (skip_padding rest))"

definition zstd_round :: "decoders \<Rightarrow> bytes \<Rightarrow> bytes \<Rightarrow> initrd_error + (bytes \<times> bytes)" where
  "zstd_round D decoded remaining =
    rbind (ok_or MalformedArchive (if 4 < length remaining then Some (remaining ! 4) else None)) (\<lambda>descriptor.
    if descriptor AND 0x08 \<noteq> 0 then Inl MalformedArchive
    else
    rbind (ok_or Decompress (zstd_frame_at D remaining)) (\<lambda>frame.
    if descriptor AND 0xE0 \<noteq> 0 \<and> zf_content_size frame \<noteq> word_of_nat (length (zf_content frame))
    then Inl MalformedArchive
    else if (case zf_checksum_data frame of
               Some expected \<Rightarrow> zf_checksum_calculated frame \<noteq> Some expected | None \<Rightarrow> False)
    then Inl Decompress
    else Inr (decoded @ zf_content frame, skip_padding (zf_rest frame))))"

partial_function (option) zstd_frames ::
  "decoders \<Rightarrow> bytes \<Rightarrow> bytes \<Rightarrow> (initrd_error + bytes) option" where
  "zstd_frames D decoded remaining =
    (if remaining = [] then Some (Inr decoded)
     else case zstd_round D decoded remaining of
       Inl e \<Rightarrow> Some (Inl e)
     | Inr (decoded', remaining') \<Rightarrow> zstd_frames D decoded' remaining')"

definition accept_archive :: "bytes \<Rightarrow> bytes \<Rightarrow> initrd_error + bytes" where
  "accept_archive input decoded = (if validate_cpio decoded then Inr input else Inl MalformedArchive)"

definition materialize :: "decoders \<Rightarrow> goblin \<Rightarrow> bytes \<Rightarrow> (initrd_error + bytes) option" where
  "materialize D G input =
    (if is_cpio input then Some (accept_archive input input)
     else if starts_with [0x1F, 0x8B] input then
       map_option (\<lambda>r. rbind r (accept_archive input)) (gzip_members D [] input)
     else if starts_with [0x28, 0xB5, 0x2F, 0xFD] input then
       map_option (\<lambda>r. rbind r (accept_archive input)) (zstd_frames D [] input)
     else if is_elf input then
       Some (rbind (check_static_elf G input) (\<lambda>_.
         if 2 ^ 32 \<le> length input then Inl (InitTooLarge (length input)) else Inr (wrap_as_cpio input)))
     else Some (Inl UnsupportedFormat))"

text \<open>Decoders that consume what they decode.\<close>

definition consuming :: "decoders \<Rightarrow> bool" where
  "consuming D \<longleftrightarrow>
    (\<forall>bs out rest. gunzip_member D bs = Some (out, rest) \<longrightarrow> length rest < length bs)
    \<and> (\<forall>bs f. zstd_frame_at D bs = Some f \<longrightarrow> length (zf_rest f) < length bs)"

lemma gzip_members_returns: "consuming D \<Longrightarrow> \<exists>r. gzip_members D decoded remaining = Some r"
proof (induction "length remaining" arbitrary: decoded remaining rule: less_induct)
  case less
  show ?case
  proof (cases "gunzip_member D remaining")
    case (Some p)
    obtain out rest where p: "p = (out, rest)" by (cases p)
    have "length (skip_padding rest) < length remaining"
      using less.prems Some p skip_padding_le [of rest] by (fastforce simp: consuming_def)
    then show ?thesis
      using less Some p by (subst gzip_members.simps) simp
  qed (subst gzip_members.simps, simp)
qed

lemma zstd_frames_returns: "consuming D \<Longrightarrow> \<exists>r. zstd_frames D decoded remaining = Some r"
proof (induction "length remaining" arbitrary: decoded remaining rule: less_induct)
  case less
  show ?case
  proof (cases "zstd_round D decoded remaining")
    case (Inr p)
    obtain d' r' where p: "p = (d', r')" by (cases p)
    obtain frame where "zstd_frame_at D remaining = Some frame" "r' = skip_padding (zf_rest frame)"
      using Inr p by (auto simp: zstd_round_def result_simps split: if_splits)
    then have "length r' < length remaining"
      using less.prems skip_padding_le [of "zf_rest frame"] by (fastforce simp: consuming_def)
    then show ?thesis
      using less Inr p by (subst zstd_frames.simps) simp
  qed (subst zstd_frames.simps, simp)
qed

text \<open>What an image unpacks to: itself, or the output of the decoder its magic selects.\<close>

definition unpacks :: "decoders \<Rightarrow> bytes \<Rightarrow> bytes \<Rightarrow> bool" where
  "unpacks D img archive \<longleftrightarrow>
    (if is_cpio img then archive = img
     else if starts_with [0x1F, 0x8B] img then gzip_members D [] img = Some (Inr archive)
     else zstd_frames D [] img = Some (Inr archive))"

definition init_records :: "bytes \<Rightarrow> cpio_record list" where
  "init_records binary =
    [\<lparr>cr_ino = 1, cr_mode = S_DIR, cr_nlink = 3, cr_name = ''.'', cr_data = [], cr_rdev = (0, 0)\<rparr>,
     \<lparr>cr_ino = 2, cr_mode = S_DIR, cr_nlink = 2, cr_name = ''dev'', cr_data = [], cr_rdev = (0, 0)\<rparr>,
     \<lparr>cr_ino = 3, cr_mode = S_CHR, cr_nlink = 1, cr_name = ''dev/console'', cr_data = [], cr_rdev = (5, 1)\<rparr>,
     \<lparr>cr_ino = 4, cr_mode = S_EXEC, cr_nlink = 1, cr_name = ''init'', cr_data = binary, cr_rdev = (0, 0)\<rparr>]"

lemma cpio_entry_None: "cpio_entry out i m n nm d None = cpio_entry out i m n nm d (Some (0, 0))"
  by (simp add: cpio_entry_def)

lemma wrap_as_cpio_archive: "wrap_as_cpio binary = archive_of (init_records binary)"
  by (simp add: wrap_as_cpio_def archive_of_def init_records_def emit_record_def trailer_record_def
      TRAILER_def cpio_entry_None Let_def)

lemma init_records_ok: "length binary < 2 ^ 32 \<Longrightarrow> members_ok (init_records binary)"
  by (simp add: members_ok_def init_records_def record_ok_def TRAILER_def)

lemma is_cpio_archive_of: "members_ok rs \<Longrightarrow> is_cpio (archive_of rs)"
proof -
  assume "members_ok rs"
  then obtain r rest where r: "archive_of rs = record_image r @ rest" "record_ok r"
    using trailer_ok by (cases rs) (auto simp: archive_of_eq members_ok_def)
  have "take 6 (archive_of rs) = take 6 (take 110 (archive_of rs))" by (simp add: min_def)
  also have "\<dots> = NEWC_MAGIC"
    unfolding record_front(1) [OF r(2) r(1)] by (simp add: header_of_def)
  finally have eq: "take 6 (archive_of rs) = NEWC_MAGIC" .
  then have "6 \<le> length (archive_of rs)" by (metis length_NEWC_MAGIC length_take min.cobounded1)
  with eq show ?thesis by (simp add: is_cpio_def)
qed

text \<open>
  C25. The wrapped init. Every archive that is written from records that fit their fields is
  accepted by the code's own walk, and a reader of the newc format finds exactly those records
  in it. Wrapping a static binary of less than 4 GiB gives the archive of the root, \<open>dev\<close>, the
  console device and \<open>init\<close> with the bytes of the binary.
\<close>

theorem cpio_roundtrip:
  "(members_ok rs \<longrightarrow>
      validate_cpio (archive_of rs) \<and> archive_records (archive_of rs) = Some rs)
   \<and> (length binary < 2 ^ 32 \<longrightarrow>
      validate_cpio (wrap_as_cpio binary)
      \<and> archive_records (wrap_as_cpio binary) = Some (init_records binary))"
  by (simp add: archive_roundtrip wrap_as_cpio_archive init_records_ok)

theorem cpio_roundtrip_witness:
  "archive_records (archive_of (init_records [1, 2, 3])) = Some (init_records [1, 2, 3])
   \<and> validate_cpio (wrap_as_cpio [0x7F])
   \<and> archive_records (wrap_as_cpio [0x7F]) = Some (init_records [0x7F])"
  using cpio_roundtrip [of "init_records [1, 2, 3]" "[0x7F]"] init_records_ok [of "[1, 2, 3]"]
  by simp

text \<open>
  C26. Materialization returns for all decoders that consume what they decode, and what it
  returns is the input, if that unpacks to a complete archive, or the archive made of a static
  ELF binary; either way it unpacks to an archive the walk accepts.
\<close>

theorem materialize_returns:
  "consuming D \<Longrightarrow>
    \<exists>r. materialize D G input = Some r
      \<and> (\<forall>out. r = Inr out \<longrightarrow>
           (\<exists>archive. unpacks D out archive \<and> validate_cpio archive)
           \<and> (out = input \<or> is_elf input \<and> check_static_elf G input = Inr () \<and> out = wrap_as_cpio input))"
proof -
  assume D: "consuming D"
  consider "is_cpio input" | "\<not> is_cpio input" "starts_with [0x1F, 0x8B] input"
    | "\<not> is_cpio input" "\<not> starts_with [0x1F, 0x8B] input" "starts_with [0x28, 0xB5, 0x2F, 0xFD] input"
    | "\<not> is_cpio input" "\<not> starts_with [0x1F, 0x8B] input"
      "\<not> starts_with [0x28, 0xB5, 0x2F, 0xFD] input"
    by blast
  then show ?thesis
  proof cases
    case 1
    then show ?thesis by (simp add: materialize_def accept_archive_def unpacks_def)
  next
    case 2
    obtain r where "gzip_members D [] input = Some r" using gzip_members_returns [OF D] by blast
    with 2 show ?thesis by (auto simp: materialize_def accept_archive_def unpacks_def result_simps split: if_splits)
  next
    case 3
    obtain r where "zstd_frames D [] input = Some r" using zstd_frames_returns [OF D] by blast
    with 3 show ?thesis by (auto simp: materialize_def accept_archive_def unpacks_def result_simps split: if_splits)
  next
    case 4
    have "unpacks D (wrap_as_cpio input) (wrap_as_cpio input)" "validate_cpio (wrap_as_cpio input)"
      if "length input < 2 ^ 32"
      using that is_cpio_archive_of [OF init_records_ok] archive_roundtrip(1) [OF init_records_ok]
      by (simp_all add: unpacks_def wrap_as_cpio_archive)
    with 4 show ?thesis
      by (auto simp: materialize_def result_simps not_le split: if_splits)
  qed
qed

definition demo_decoders :: decoders where
  "demo_decoders = \<lparr>
     gunzip_member = (\<lambda>bs. if 2 \<le> length bs then Some (drop 2 bs, []) else None),
     zstd_frame_at = (\<lambda>_. None)\<rparr>"

theorem materialize_returns_witness:
  "\<exists>out archive. materialize demo_decoders demo_goblin ([0x1F, 0x8B] @ wrap_as_cpio []) = Some (Inr out)
     \<and> unpacks demo_decoders out archive \<and> validate_cpio archive"
proof -
  let ?in = "[0x1F, 0x8B] @ wrap_as_cpio []"
  have "consuming demo_decoders" by (auto simp: consuming_def demo_decoders_def split: if_splits)
  from materialize_returns [OF this, of demo_goblin ?in]
  obtain r where r: "materialize demo_decoders demo_goblin ?in = Some r"
    "\<And>out. r = Inr out \<Longrightarrow> \<exists>archive. unpacks demo_decoders out archive \<and> validate_cpio archive"
    by blast
  have "validate_cpio (wrap_as_cpio [])" using archive_roundtrip(1) [OF init_records_ok]
    by (simp add: wrap_as_cpio_archive)
  moreover have "gzip_members demo_decoders [] ?in = Some (Inr (wrap_as_cpio []))"
  proof -
    have "skip_padding [] = []" by (simp add: skip_padding_def)
    then show ?thesis by (simp add: gzip_members.simps demo_decoders_def)
  qed
  moreover have "\<not> is_cpio ?in" by (simp add: is_cpio_def NEWC_MAGIC_def str_bytes_def)
  moreover have "starts_with [0x1F, 0x8B] ?in" by (simp add: starts_with_def)
  ultimately have "materialize demo_decoders demo_goblin ?in = Some (Inr ?in)"
    by (simp add: materialize_def accept_archive_def)
  with r show ?thesis by auto
qed

section \<open>Archives with modules\<close>

text \<open>\<open>Path::components\<close> of the standard library on a Unix host.\<close>

datatype path_component = RootDir | CurDir | ParentDir | Normal string

definition component_of :: "bool \<Rightarrow> string \<Rightarrow> path_component list" where
  "component_of leading s =
    (if s = [] then [] else if s = ''.'' then (if leading then [CurDir] else [])
     else if s = ''..'' then [ParentDir] else [Normal s])"

definition path_components :: "string \<Rightarrow> path_component list" where
  "path_components p =
    (if starts_with ''/'' p then [RootDir] else []) @
    (case split_on (CHR ''/'') p of
       [] \<Rightarrow> []
     | s # ss \<Rightarrow> component_of True s @ concat (map (component_of False) ss))"

text \<open>\<open>char::is_control\<close> on UTF-8: the bytes below 0x20, 0x7F and U+0080 to U+009F.\<close>

fun has_control :: "nat list \<Rightarrow> bool" where
  "has_control [] = False"
| "has_control (b # s) =
    (b < 0x20 \<or> b = 0x7F \<or> (b = 0xC2 \<and> (case s of [] \<Rightarrow> False | c # _ \<Rightarrow> 0x80 \<le> c \<and> c \<le> 0x9F))
     \<or> has_control s)"

definition part_ok :: "string \<Rightarrow> bool" where
  "part_ok p \<longleftrightarrow> utf8_ok p \<and> p \<noteq> [] \<and> \<not> has_control (map of_char p)
     \<and> CHR ''/'' \<notin> set p \<and> CHR 0x5C \<notin> set p \<and> CHR '':'' \<notin> set p"

record module_source =
  ms_path :: string
  ms_bytes :: bytes

definition part_step :: "string \<Rightarrow> string list \<Rightarrow> path_component \<Rightarrow> initrd_error + string list" where
  "part_step path parts c =
    (case c of
       Normal p \<Rightarrow> if part_ok p then Inr (parts @ [p]) else Inl (ModulePath path)
     | _ \<Rightarrow> Inl (ModulePath path))"

definition module_parts :: "string \<Rightarrow> initrd_error + string list" where
  "module_parts path =
    rbind (try_fold (part_step path) [] (path_components path)) (\<lambda>parts.
    if parts = [] then Inl (ModulePath path) else Inr parts)"

definition module_file :: "string \<Rightarrow> string list \<Rightarrow> string" where
  "module_file release parts = ''usr/lib/modules/'' @ release @ ''/'' @ join_slash parts"

text \<open>The loop over \<open>Path::parent\<close>. The paths it meets are built from nonempty components
  that are neither \<open>.\<close> nor \<open>..\<close>, where the parent is what stands before the last
  slash.\<close>

function parent_dirs :: "string \<Rightarrow> string list" where
  "parent_dirs path =
    (case rsplit_once (CHR ''/'') path of
       None \<Rightarrow> []
     | Some (dir, _) \<Rightarrow> if dir = [] then [] else dir # parent_dirs dir)"
  by pat_completeness auto

termination parent_dirs
  by (relation "measure length") (auto simp: rsplit_once_Some)

declare parent_dirs.simps [simp del]

definition module_step ::
  "string \<Rightarrow> string list \<times> (string \<times> bytes) list \<Rightarrow> module_source
    \<Rightarrow> initrd_error + (string list \<times> (string \<times> bytes) list)" where
  "module_step release st m = (case st of (directories, files) \<Rightarrow>
    rbind (module_parts (ms_path m)) (\<lambda>parts.
    let path = module_file release parts;
        directories = fold set_insert (parent_dirs path) directories;
        previous = map_of files path;
        files = map_insert path (ms_bytes m) files in
    if previous \<noteq> None \<and> previous \<noteq> Some (ms_bytes m) then Inl (ModulePath path)
    else Inr (directories, files)))"

definition parent_of :: "string \<Rightarrow> string" where
  "parent_of directory = (case rsplit_once (CHR ''/'') directory of None \<Rightarrow> ''.'' | Some (p, _) \<Rightarrow> p)"

definition link_step :: "(string \<times> u32) list \<Rightarrow> string \<Rightarrow> initrd_error + (string \<times> u32) list" where
  "link_step links directory =
    (if directory = ''.'' then Inr links
     else
       let parent = parent_of directory;
           count = (case map_of links parent of Some n \<Rightarrow> n | None \<Rightarrow> 2) in
       rbind (ok_or ArchiveTooLarge (checked_add count 1)) (\<lambda>n. Inr (map_insert parent n links)))"

definition next_ino :: "u32 \<Rightarrow> initrd_error + u32" where
  "next_ino ino = ok_or ArchiveTooLarge (checked_add ino 1)"

definition dir_step ::
  "(string \<times> u32) list \<Rightarrow> bytes \<times> u32 \<Rightarrow> string \<Rightarrow> initrd_error + (bytes \<times> u32)" where
  "dir_step links st directory = (case st of (out, ino) \<Rightarrow>
    rbind (next_ino ino) (\<lambda>ino.
    let link_count = (case map_of links directory of Some n \<Rightarrow> n | None \<Rightarrow> 2) in
    rbind (checked_entry out ino S_DIR link_count directory [] None) (\<lambda>out. Inr (out, ino))))"

definition file_step :: "bytes \<times> u32 \<Rightarrow> string \<times> bytes \<Rightarrow> initrd_error + (bytes \<times> u32)" where
  "file_step st file = (case st of (out, ino) \<Rightarrow> case file of (name, data) \<Rightarrow>
    rbind (next_ino ino) (\<lambda>ino.
    rbind (checked_entry out ino S_FILE 1 name data None) (\<lambda>out. Inr (out, ino))))"

definition check_module_init :: "goblin \<Rightarrow> bytes \<Rightarrow> initrd_error + unit" where
  "check_module_init G input =
    (if \<not> is_elf input then Inl ModulesRequireStatic else check_static_elf G input)"

definition module_archive ::
  "bytes \<Rightarrow> string \<Rightarrow> module_source list \<Rightarrow> initrd_error + bytes" where
  "module_archive input release modules =
    rbind (map_err (\<lambda>_. ModulePath release) (validate_component release)) (\<lambda>_.
    rbind (try_fold (module_step release) ([''.'', ''dev''], []) modules) (\<lambda>(directories, files).
    if list_ex (\<lambda>(name, _). name \<in> set directories) files
    then Inl (ModulePath ''file/directory collision'')
    else
    rbind (try_fold link_step [] directories) (\<lambda>links.
    rbind (try_fold (dir_step links) ([], 0) directories) (\<lambda>(out, ino).
    rbind (next_ino ino) (\<lambda>ino.
    rbind (checked_entry out ino S_CHR 1 ''dev/console'' [] (Some (5, 1))) (\<lambda>out.
    rbind (next_ino ino) (\<lambda>ino.
    rbind (checked_entry out ino S_EXEC 1 ''init'' input None) (\<lambda>out.
    rbind (try_fold file_step (out, ino) files) (\<lambda>(out, ino).
    checked_entry out 0 0 1 ''TRAILER!!!'' [] None)))))))))"

definition materialize_modules ::
  "decoders \<Rightarrow> goblin \<Rightarrow> bytes \<Rightarrow> string \<Rightarrow> module_source list \<Rightarrow> (initrd_error + bytes) option" where
  "materialize_modules D G input release modules =
    (case rbind (check_module_init G input) (\<lambda>_. checked_entry_size 0 (length ''init'') (length input)) of
       Inl e \<Rightarrow> Some (Inl e)
     | Inr _ \<Rightarrow>
        if modules = [] then materialize D G input
        else Some (module_archive input release modules))"

end
