(* ===== verification/ModuleArchive.thy ===== *)
theory ModuleArchive
  imports Initrd
begin

text \<open>
  What the archive with kernel modules holds (\<open>materialize_modules\<close> of \<open>initrd.rs\<close>):
  the directories and the files are kept in ordered sets and maps, so the archive lists every
  directory once and after its parents, then the console, the init and every file once.
\<close>

section \<open>Entries\<close>

definition fits :: "cpio_record \<Rightarrow> bool" where
  "fits r \<longleftrightarrow> length (cr_name r) + 1 < 2 ^ 32 \<and> length (cr_data r) < 2 ^ 32"

definition rdev_pair :: "(u32 \<times> u32) option \<Rightarrow> u32 \<times> u32" where
  "rdev_pair rdev = (case rdev of Some p \<Rightarrow> p | None \<Rightarrow> (0, 0))"

lemma cpio_entry_record:
  "cpio_entry out ino mode nlink name data rdev = emit_record out
    \<lparr>cr_ino = ino, cr_mode = mode, cr_nlink = nlink, cr_name = name, cr_data = data, cr_rdev = rdev_pair rdev\<rparr>"
  by (simp add: emit_record_def rdev_pair_def cpio_entry_def split: option.split)

lemma checked_entry_Inr:
  "checked_entry out ino mode nlink name data rdev = Inr out' \<Longrightarrow>
    \<exists>r. out' = emit_record out r \<and> fits r \<and> cr_ino r = ino \<and> cr_mode r = mode \<and> cr_nlink r = nlink
      \<and> cr_name r = name \<and> cr_data r = data"
  by (auto simp: checked_entry_def checked_entry_size_def result_simps cpio_entry_record fits_def
      checked_simps split: if_splits intro!: exI)

text \<open>A run of entries: the records that are appended, numbered on from the last inode.\<close>

definition batch :: "bytes \<times> u32 \<Rightarrow> cpio_record list \<Rightarrow> bytes \<times> u32 \<Rightarrow> bool" where
  "batch st rs st' \<longleftrightarrow>
    fst st' = foldl emit_record (fst st) rs \<and> (\<forall>r\<in>set rs. fits r)
    \<and> unat (snd st') = unat (snd st) + length rs
    \<and> map (\<lambda>r. unat (cr_ino r)) rs = [Suc (unat (snd st))..<Suc (unat (snd st'))]"

lemma batch_Nil: "batch st [] st' \<longleftrightarrow> fst st' = fst st \<and> snd st' = snd st"
  by (auto simp: batch_def word_unat_eq_iff)

lemma batch_append: "batch st rs st' \<Longrightarrow> batch st' rs' st'' \<Longrightarrow> batch st (rs @ rs') st''"
proof -
  assume b: "batch st rs st'" "batch st' rs' st''"
  then have "unat (snd st) \<le> unat (snd st')" "unat (snd st') \<le> unat (snd st'')" by (simp_all add: batch_def)
  then have "[Suc (unat (snd st))..<Suc (unat (snd st''))]
      = [Suc (unat (snd st))..<Suc (unat (snd st'))] @ [Suc (unat (snd st'))..<Suc (unat (snd st''))]"
    by (metis Suc_le_mono le_Suc_ex upt_add_eq_append)
  with b show ?thesis by (auto simp: batch_def)
qed

lemma entry_batch:
  assumes "next_ino ino = Inr ino'" and "checked_entry out ino' mode nlink name data rdev = Inr out'"
  shows "\<exists>r. batch (out, ino) [r] (out', ino') \<and> cr_mode r = mode \<and> cr_nlink r = nlink
    \<and> cr_name r = name \<and> cr_data r = data"
proof -
  have "unat ino' = Suc (unat ino)"
    using assms(1) by (simp add: next_ino_def result_simps checked_simps)
  with checked_entry_Inr [OF assms(2)] show ?thesis by (auto simp: batch_def)
qed

lemma dir_batch:
  "try_fold (dir_step links) st ds = Inr st' \<Longrightarrow>
    \<exists>rs. batch st rs st' \<and> map cr_name rs = ds \<and> map cr_data rs = map (\<lambda>_. []) ds
      \<and> map cr_nlink rs = map (\<lambda>d. case map_of links d of Some n \<Rightarrow> n | None \<Rightarrow> 2) ds"
proof (induction ds arbitrary: st)
  case Nil
  then show ?case by (auto simp: batch_Nil)
next
  case (Cons d ds)
  then obtain st1 where st1: "dir_step links st d = Inr st1" "try_fold (dir_step links) st1 ds = Inr st'"
    by (auto simp: result_simps)
  then obtain ino out where "next_ino (snd st) = Inr ino" "st1 = (out, ino)"
    "checked_entry (fst st) ino S_DIR (case map_of links d of Some n \<Rightarrow> n | None \<Rightarrow> 2) d [] None = Inr out"
    by (auto simp: dir_step_def case_prod_beta Let_def result_simps)
  from entry_batch [OF this(1,3)] this(2) obtain r where r: "batch st [r] st1"
    "cr_nlink r = (case map_of links d of Some n \<Rightarrow> n | None \<Rightarrow> 2)" "cr_name r = d" "cr_data r = []"
    by auto
  from Cons.IH [OF st1(2)] obtain rs where rs: "batch st1 rs st'" "map cr_name rs = ds"
    "map cr_data rs = map (\<lambda>_. []) ds"
    "map cr_nlink rs = map (\<lambda>d. case map_of links d of Some n \<Rightarrow> n | None \<Rightarrow> 2) ds"
    by blast
  with batch_append [OF r(1) rs(1)] r show ?case by (intro exI [of _ "r # rs"]) simp
qed

lemma file_batch:
  "try_fold file_step st fs = Inr st' \<Longrightarrow>
    \<exists>rs. batch st rs st' \<and> map cr_name rs = map fst fs \<and> map cr_data rs = map snd fs"
proof (induction fs arbitrary: st)
  case Nil
  then show ?case by (auto simp: batch_Nil)
next
  case (Cons f fs)
  then obtain st1 where st1: "file_step st f = Inr st1" "try_fold file_step st1 fs = Inr st'"
    by (auto simp: result_simps)
  then obtain ino out where "next_ino (snd st) = Inr ino" "st1 = (out, ino)"
    "checked_entry (fst st) ino S_FILE 1 (fst f) (snd f) None = Inr out"
    by (auto simp: file_step_def case_prod_beta result_simps)
  from entry_batch [OF this(1,3)] this(2) obtain r where r: "batch st [r] st1"
    "cr_name r = fst f" "cr_data r = snd f"
    by auto
  from Cons.IH [OF st1(2)] obtain rs where rs: "batch st1 rs st'" "map cr_name rs = map fst fs"
    "map cr_data rs = map snd fs"
    by blast
  with batch_append [OF r(1) rs(1)] r show ?case by (intro exI [of _ "r # rs"]) simp
qed

section \<open>Directories\<close>

lemma parent_dirs_Some:
  "rsplit_once (CHR ''/'') p = Some (d, f) \<Longrightarrow> d \<noteq> [] \<Longrightarrow> parent_dirs p = d # parent_dirs d"
  by (simp add: parent_dirs.simps [of p])

lemma parent_dirsE:
  assumes "d \<in> set (parent_dirs p)"
  obtains e f where "rsplit_once (CHR ''/'') p = Some (e, f)" "e \<noteq> []" "d = e \<or> d \<in> set (parent_dirs e)"
proof (cases "rsplit_once (CHR ''/'') p")
  case None
  with assms show ?thesis by (simp add: parent_dirs.simps [of p])
next
  case (Some ef)
  with assms show ?thesis
    using that by (cases ef) (auto simp: parent_dirs.simps [of p] split: if_splits)
qed

lemma parent_dirs_prefix:
  "d \<in> set (parent_dirs p) \<Longrightarrow> d \<noteq> [] \<and> (\<exists>f. p = d @ CHR ''/'' # f)"
proof (induction p rule: parent_dirs.induct)
  case (1 p)
  obtain e f where sp: "rsplit_once (CHR ''/'') p = Some (e, f)" and e: "e \<noteq> []"
    and d: "d = e \<or> d \<in> set (parent_dirs e)"
    using "1.prems" by (rule parent_dirsE)
  have p: "p = e @ CHR ''/'' # f" using sp by (simp add: rsplit_once_Some)
  from d show ?case
  proof
    assume "d \<in> set (parent_dirs e)"
    from "1.IH" [OF sp refl e this] obtain g where "d \<noteq> []" "e = d @ CHR ''/'' # g" by blast
    with p show ?thesis by simp
  qed (use e p in blast)
qed

lemma parent_dirs_trans: "d \<in> set (parent_dirs p) \<Longrightarrow> set (parent_dirs d) \<subseteq> set (parent_dirs p)"
proof (induction p rule: parent_dirs.induct)
  case (1 p)
  obtain e f where sp: "rsplit_once (CHR ''/'') p = Some (e, f)" and e: "e \<noteq> []"
    and d: "d = e \<or> d \<in> set (parent_dirs e)"
    using "1.prems" by (rule parent_dirsE)
  have "set (parent_dirs d) \<subseteq> set (parent_dirs e)" using d "1.IH" [OF sp refl e] by blast
  then show ?case using parent_dirs_Some [OF sp e] by auto
qed

lemma prefix_less: "(d :: string) < d @ c # f"
  by (induction d) simp_all

lemma ascending_take:
  assumes "ascending xs" and "x \<in> set xs" and "i < length xs" and "x < xs ! i"
  shows "x \<in> set (take i xs)"
proof -
  obtain j where j: "j < length xs" "xs ! j = x" using assms(2) by (auto simp: in_set_conv_nth)
  have "j < i"
  proof (rule ccontr)
    assume "\<not> j < i"
    then have "xs ! i = x \<or> xs ! i < x"
      using assms(1,3) j by (cases "i = j") (auto simp: sorted_wrt_iff_nth_less)
    with assms(4) show False by auto
  qed
  with j assms(3) show ?thesis by (auto simp: in_set_conv_nth intro!: exI [of _ j])
qed

text \<open>The link counts: two and one for every child directory.\<close>

definition children :: "string list \<Rightarrow> string \<Rightarrow> string list" where
  "children ds d = filter (\<lambda>e. e \<noteq> ''.'' \<and> parent_of e = d) ds"

lemma link_fold:
  "try_fold link_step links ds = Inr links' \<Longrightarrow>
    unat (case map_of links' d of Some n \<Rightarrow> n | None \<Rightarrow> (2 :: u32))
    = unat (case map_of links d of Some n \<Rightarrow> n | None \<Rightarrow> (2 :: u32)) + length (children ds d)"
proof (induction ds arbitrary: links)
  case (Cons e ds)
  then obtain l where l: "link_step links e = Inr l" "try_fold link_step l ds = Inr links'"
    by (auto simp: result_simps)
  have "unat (case map_of l d of Some n \<Rightarrow> n | None \<Rightarrow> (2 :: u32))
      = unat (case map_of links d of Some n \<Rightarrow> n | None \<Rightarrow> (2 :: u32)) + length (children [e] d)"
    using l(1) by (auto simp: link_step_def children_def Let_def result_simps checked_simps
        btree.lookup_update split: if_splits)
  then show ?case using Cons.IH [OF l(2)] by (simp add: children_def)
qed (simp add: children_def)

section \<open>The files and directories of the modules\<close>

text \<open>All names but the two fixed directories start with the \<open>u\<close> of \<open>usr\<close>.\<close>

definition tree_name :: "string \<Rightarrow> bool" where
  "tree_name n \<longleftrightarrow> n \<noteq> [] \<and> hd n = CHR ''u'' \<and> CHR 0x00 \<notin> set n"

definition tree_ok :: "string \<Rightarrow> module_source list \<Rightarrow> string list \<times> (string \<times> bytes) list \<Rightarrow> bool" where
  "tree_ok release ms st \<longleftrightarrow> (case st of (ds, fs) \<Rightarrow>
     ascending ds \<and> map_ok fs \<and> {''.'', ''dev''} \<subseteq> set ds
     \<and> (\<forall>d\<in>set ds. d = ''.'' \<or> d = ''dev'' \<or> tree_name d)
     \<and> (\<forall>d\<in>set ds. set (parent_dirs d) \<subseteq> set ds)
     \<and> (\<forall>p\<in>fst ` set fs. tree_name p \<and> set (parent_dirs p) \<subseteq> set ds)
     \<and> set fs = {(module_file release parts, ms_bytes m) | m parts.
          m \<in> set ms \<and> module_parts (ms_path m) = Inr parts})"

lemma tree_okD:
  assumes "tree_ok release ms (ds, fs)"
  shows "ascending ds" "map_ok fs" "{''.'', ''dev''} \<subseteq> set ds"
    "\<And>d. d \<in> set ds \<Longrightarrow> d = ''.'' \<or> d = ''dev'' \<or> tree_name d"
    "\<And>d. d \<in> set ds \<Longrightarrow> set (parent_dirs d) \<subseteq> set ds"
    "\<And>p. p \<in> fst ` set fs \<Longrightarrow> tree_name p" "\<And>p. p \<in> fst ` set fs \<Longrightarrow> set (parent_dirs p) \<subseteq> set ds"
    "set fs = {(module_file release parts, ms_bytes m) | m parts.
      m \<in> set ms \<and> module_parts (ms_path m) = Inr parts}"
  using assms unfolding tree_ok_def prod.case by blast+

lemma ascending_fold_insert: "ascending ds \<Longrightarrow> ascending (fold set_insert xs ds)"
  by (induction xs arbitrary: ds) (simp_all add: ascending_set_insert)

lemma set_fold_insert [simp]: "set (fold set_insert xs ds) = set xs \<union> set ds"
  by (induction xs arbitrary: ds) auto

lemma part_step_ok:
  "try_fold (part_step path) parts cs = Inr parts' \<Longrightarrow> list_all part_ok parts \<Longrightarrow> list_all part_ok parts'"
  by (induction cs arbitrary: parts)
    (auto simp: result_simps part_step_def split: path_component.splits if_splits)

lemma module_parts_ok: "module_parts path = Inr parts \<Longrightarrow> parts \<noteq> [] \<and> list_all part_ok parts"
  by (auto simp: module_parts_def result_simps split: if_splits dest: part_step_ok)

lemma has_control_zero: "0 \<in> set bs \<Longrightarrow> has_control bs"
  by (induction bs) auto

lemma part_ok_nul: "part_ok p \<Longrightarrow> CHR 0x00 \<notin> set p"
proof
  assume ok: "part_ok p" and "CHR 0x00 \<in> set p"
  then have "of_char (CHR 0x00) \<in> (of_char ` set p :: nat set)" by blast
  then have "has_control (map of_char p)" by (intro has_control_zero) simp
  with ok show False by (simp add: part_ok_def)
qed

lemma set_join_slash: "set (join_slash ps) \<subseteq> insert (CHR ''/'') (\<Union> (set ` set ps))"
  by (induction ps rule: join_slash.induct) auto

lemma module_file_name:
  assumes "safe_component release" and "module_parts path = Inr parts"
  shows "tree_name (module_file release parts)"
proof -
  have "CHR 0x00 \<notin> set release"
  proof
    assume "CHR 0x00 \<in> set release"
    then have "0x21 \<le> (of_char (CHR 0x00) :: nat)"
      using assms(1) unfolding safe_component_def by blast
    then show False by simp
  qed
  moreover have "CHR 0x00 \<notin> set (join_slash parts)"
    using set_join_slash [of parts] module_parts_ok [OF assms(2)] part_ok_nul
    by (auto simp: list_all_iff)
  ultimately show ?thesis by (simp add: tree_name_def module_file_def)
qed

lemma parent_tree_name: "tree_name p \<Longrightarrow> d \<in> set (parent_dirs p) \<Longrightarrow> tree_name d"
  using parent_dirs_prefix [of d p] by (auto simp: tree_name_def)

lemma module_step_ok:
  assumes rel: "safe_component release" and ok: "tree_ok release ms st"
    and step: "module_step release st m = Inr st'"
  shows "tree_ok release (ms @ [m]) st'"
proof -
  obtain ds fs where st: "st = (ds, fs)" by (cases st)
  obtain parts where parts: "module_parts (ms_path m) = Inr parts"
    using step by (auto simp: st module_step_def Let_def result_simps)
  let ?p = "module_file release parts"
  have conflict: "map_of fs ?p = None \<or> map_of fs ?p = Some (ms_bytes m)"
    and st': "st' = (fold set_insert (parent_dirs ?p) ds, map_insert ?p (ms_bytes m) fs)"
    using step parts by (auto simp: st module_step_def Let_def split: if_splits)
  have nm: "tree_name ?p" by (rule module_file_name [OF rel parts])
  note old = tree_okD [OF ok [unfolded st]]
  have fs: "map_ok fs" by (rule old)
  then have fs': "map_ok (map_insert ?p (ms_bytes m) fs)" by (rule btree.inv_update)
  have entries: "set (map_insert ?p (ms_bytes m) fs) = insert (?p, ms_bytes m) (set fs)"
  proof (rule set_eqI)
    fix kv :: "string \<times> bytes"
    obtain k v where kv: "kv = (k, v)" by (cases kv)
    have "kv \<in> set (map_insert ?p (ms_bytes m) fs) \<longleftrightarrow> ((map_of fs)(?p \<mapsto> ms_bytes m)) k = Some v"
      unfolding kv btree.entries_lookup [OF fs'] btree.lookup_update ..
    also have "\<dots> \<longleftrightarrow> kv \<in> insert (?p, ms_bytes m) (set fs)"
      using conflict btree.entries_lookup [OF fs] by (auto simp: kv)
    finally show "kv \<in> set (map_insert ?p (ms_bytes m) fs) \<longleftrightarrow> kv \<in> insert (?p, ms_bytes m) (set fs)" .
  qed
  have files: "insert (?p, ms_bytes m) (set fs) = {(module_file release parts, ms_bytes m') | m' parts.
      m' \<in> set (ms @ [m]) \<and> module_parts (ms_path m') = Inr parts}"
  proof -
    have "set fs = {(module_file release parts, ms_bytes m') | m' parts.
        m' \<in> set ms \<and> module_parts (ms_path m') = Inr parts}"
      by (rule old)
    then show ?thesis using parts by auto
  qed
  show ?thesis
    unfolding st' tree_ok_def prod.case entries
  proof (intro conjI)
    show "ascending (fold set_insert (parent_dirs ?p) ds)"
      by (intro ascending_fold_insert old)
    show "map_ok (map_insert ?p (ms_bytes m) fs)" by (rule fs')
    show "{''.'', ''dev''} \<subseteq> set (fold set_insert (parent_dirs ?p) ds)" using old(3) by auto
    show "\<forall>d\<in>set (fold set_insert (parent_dirs ?p) ds). d = ''.'' \<or> d = ''dev'' \<or> tree_name d"
      using old(4) parent_tree_name [OF nm] by auto
    show "\<forall>d\<in>set (fold set_insert (parent_dirs ?p) ds).
        set (parent_dirs d) \<subseteq> set (fold set_insert (parent_dirs ?p) ds)"
      using old(5) parent_dirs_trans [of _ ?p] by auto
    show "\<forall>q\<in>fst ` insert (?p, ms_bytes m) (set fs). tree_name q \<and>
        set (parent_dirs q) \<subseteq> set (fold set_insert (parent_dirs ?p) ds)"
      using old(6,7) nm by auto
    show "insert (?p, ms_bytes m) (set fs) = {(module_file release parts, ms_bytes m') | m' parts.
        m' \<in> set (ms @ [m]) \<and> module_parts (ms_path m') = Inr parts}" by (rule files)
  qed
qed

lemma module_fold_ok:
  "safe_component release \<Longrightarrow> tree_ok release ms st \<Longrightarrow>
    try_fold (module_step release) st modules = Inr st' \<Longrightarrow> tree_ok release (ms @ modules) st'"
proof (induction modules arbitrary: ms st)
  case (Cons m modules)
  then obtain st1 where st1: "module_step release st m = Inr st1"
    "try_fold (module_step release) st1 modules = Inr st'"
    by (auto simp: result_simps)
  from Cons.IH [OF Cons.prems(1) module_step_ok [OF Cons.prems(1,2) st1(1)] st1(2)] show ?case by simp
qed simp

lemma tree_ok_start: "tree_ok release [] ([''.'', ''dev''], [])"
  by (simp add: tree_ok_def parent_dirs.simps rsplit_once_def)

lemma module_archive_steps:
  assumes "module_archive input release modules = Inr out"
  obtains ds fs links rs where "tree_ok release modules (ds, fs)" "fst ` set fs \<inter> set ds = {}"
    "try_fold link_step [] ds = Inr links" "out = archive_of rs" "\<forall>r\<in>set rs. fits r"
    "map (\<lambda>r. unat (cr_ino r)) rs = [1..<Suc (length rs)]"
    "map cr_name rs = ds @ [''dev/console'', ''init''] @ map fst fs"
    "map cr_data rs = map (\<lambda>_. []) ds @ [[], input] @ map snd fs"
    "take (length ds) (map cr_nlink rs) = map (\<lambda>d. case map_of links d of Some n \<Rightarrow> n | None \<Rightarrow> 2) ds"
proof -
  from assms obtain ds fs links out1 i1 i2 out2 i3 out3 out4 i4 where
    rel: "validate_component release = Inr ()"
    and tree: "try_fold (module_step release) ([''.'', ''dev''], []) modules = Inr (ds, fs)"
    and apart: "\<not> list_ex (\<lambda>(name, _). name \<in> set ds) fs"
    and links: "try_fold link_step [] ds = Inr links"
    and dirs: "try_fold (dir_step links) ([], 0) ds = Inr (out1, i1)"
    and con: "next_ino i1 = Inr i2" "checked_entry out1 i2 S_CHR 1 ''dev/console'' [] (Some (5, 1)) = Inr out2"
    and init: "next_ino i2 = Inr i3" "checked_entry out2 i3 S_EXEC 1 ''init'' input None = Inr out3"
    and files: "try_fold file_step (out3, i3) fs = Inr (out4, i4)"
    and trail: "checked_entry out4 0 0 1 ''TRAILER!!!'' [] None = Inr out"
    by (auto simp: module_archive_def result_simps split: if_splits)
  obtain rs1 where rs1: "batch ([], 0) rs1 (out1, i1)" "map cr_name rs1 = ds"
    "map cr_data rs1 = map (\<lambda>_. []) ds"
    "map cr_nlink rs1 = map (\<lambda>d. case map_of links d of Some n \<Rightarrow> n | None \<Rightarrow> 2) ds"
    using dir_batch [OF dirs] by blast
  obtain r2 where r2: "batch (out1, i1) [r2] (out2, i2)" "cr_name r2 = ''dev/console''" "cr_data r2 = []"
    using entry_batch [OF con] by blast
  obtain r3 where r3: "batch (out2, i2) [r3] (out3, i3)" "cr_name r3 = ''init''" "cr_data r3 = input"
    using entry_batch [OF init] by blast
  obtain rs4 where rs4: "batch (out3, i3) rs4 (out4, i4)" "map cr_name rs4 = map fst fs"
    "map cr_data rs4 = map snd fs"
    using file_batch [OF files] by blast
  define rs where "rs = ((rs1 @ [r2]) @ [r3]) @ rs4"
  have b: "batch ([], 0) rs (out4, i4)"
    unfolding rs_def by (intro batch_append) (rule rs1(1) r2(1) r3(1) rs4(1))+
  have "out = emit_record out4 trailer_record"
    using trail unfolding checked_entry_def cpio_entry_record rdev_pair_def trailer_record_def TRAILER_def
    by (auto simp: result_simps)
  then have out: "out = archive_of rs" using b by (simp add: archive_of_def batch_def)
  have "safe_component release" using rel by (simp add: validate_component_iff)
  then have ok: "tree_ok release modules (ds, fs)"
    using module_fold_ok [OF _ tree_ok_start tree] by simp
  show thesis
  proof (rule that [OF ok _ links out])
    show "fst ` set fs \<inter> set ds = {}" using apart by (fastforce simp: list_ex_iff)
    show "\<forall>r\<in>set rs. fits r" using b by (simp add: batch_def)
    show "map (\<lambda>r. unat (cr_ino r)) rs = [1..<Suc (length rs)]" using b by (simp add: batch_def)
    show "map cr_name rs = ds @ [''dev/console'', ''init''] @ map fst fs"
      using rs1(2) r2(2) r3(2) rs4(2) by (simp add: rs_def)
    show "map cr_data rs = map (\<lambda>_. []) ds @ [[], input] @ map snd fs"
      using rs1(3) r2(3) r3(3) rs4(3) by (simp add: rs_def)
    have "length rs1 = length ds" using rs1(2) by (metis length_map)
    then show "take (length ds) (map cr_nlink rs) = map (\<lambda>d. case map_of links d of Some n \<Rightarrow> n | None \<Rightarrow> 2) ds"
      using rs1(4) by (simp add: rs_def)
  qed
qed

lemma tree_ok_names:
  assumes "tree_ok release ms (ds, fs)" and "fst ` set fs \<inter> set ds = {}"
  shows "distinct (ds @ [''dev/console'', ''init''] @ map fst fs)"
    and "\<And>n. n \<in> set (ds @ [''dev/console'', ''init''] @ map fst fs) \<Longrightarrow> n \<noteq> TRAILER \<and> CHR 0x00 \<notin> set n"
proof -
  note ds = tree_okD(4) [OF assms(1)] and fs = tree_okD(6) [OF assms(1)]
  have "distinct ds" "distinct (map fst fs)"
    using tree_okD(1,2) [OF assms(1)] by (auto intro: ascending_distinct)
  moreover have "''dev/console'' \<notin> set ds" "''init'' \<notin> set ds"
    using ds [of "''dev/console''"] ds [of "''init''"] by (auto simp: tree_name_def)
  moreover have "''dev/console'' \<notin> fst ` set fs" "''init'' \<notin> fst ` set fs"
    using fs by (force simp: tree_name_def)+
  ultimately show "distinct (ds @ [''dev/console'', ''init''] @ map fst fs)"
    using assms(2) by auto
  show "n \<noteq> TRAILER \<and> CHR 0x00 \<notin> set n"
    if "n \<in> set (ds @ [''dev/console'', ''init''] @ map fst fs)" for n
  proof -
    from that consider "n = ''.''" | "n = ''dev''" | "n = ''dev/console''" | "n = ''init''" | "tree_name n"
      using ds fs by auto
    then show ?thesis by cases (auto simp: TRAILER_def tree_name_def)
  qed
qed

lemma tree_ok_parents_first:
  assumes "tree_ok release ms (ds, fs)" and "i < length ds"
  shows "set (parent_dirs (ds ! i)) \<subseteq> set (take i ds)"
proof
  fix d assume d: "d \<in> set (parent_dirs (ds ! i))"
  have "d \<in> set ds" "ascending ds" 
    using tree_okD(1) [OF assms(1)] tree_okD(5) [OF assms(1), of "ds ! i"] assms(2) d by auto
  moreover have "d < ds ! i" using parent_dirs_prefix [OF d] prefix_less by metis
  ultimately show "d \<in> set (take i ds)" using assms(2) by (blast intro: ascending_take)
qed

text \<open>
  C27. The archive with modules. When it is built, the walk accepts it and a reader finds: the
  directories, every one after its parents and with the link count two plus its child
  directories; the console; the init; and exactly the files of the modules, each under the path
  of the release and below directories that are there. Inodes count from 1 and no name is
  listed twice.
\<close>

theorem module_archive_content:
  assumes "materialize_modules D G input release modules = Some (Inr out)" and "modules \<noteq> []"
  shows "\<exists>ds fs rs. validate_cpio out \<and> archive_records out = Some rs
    \<and> map cr_name rs = ds @ [''dev/console'', ''init''] @ map fst fs
    \<and> map cr_data rs = map (\<lambda>_. []) ds @ [[], input] @ map snd fs
    \<and> map (\<lambda>r. unat (cr_ino r)) rs = [1..<Suc (length rs)] \<and> distinct (map cr_name rs)
    \<and> (\<forall>i<length ds. set (parent_dirs (ds ! i)) \<subseteq> set (take i ds)
         \<and> unat (cr_nlink (rs ! i)) = 2 + length (children ds (ds ! i)))
    \<and> (\<forall>p\<in>fst ` set fs. set (parent_dirs p) \<subseteq> set ds)
    \<and> set fs = {(module_file release parts, ms_bytes m) | m parts.
         m \<in> set modules \<and> module_parts (ms_path m) = Inr parts}"
proof -
  have "module_archive input release modules = Inr out"
    using assms by (auto simp: materialize_modules_def split: sum.splits)
  then obtain ds fs links rs where ok: "tree_ok release modules (ds, fs)"
    and apart: "fst ` set fs \<inter> set ds = {}" and links: "try_fold link_step [] ds = Inr links"
    and out: "out = archive_of rs" and fits: "\<forall>r\<in>set rs. fits r"
    and inos: "map (\<lambda>r. unat (cr_ino r)) rs = [1..<Suc (length rs)]"
    and names: "map cr_name rs = ds @ [''dev/console'', ''init''] @ map fst fs"
    and datas: "map cr_data rs = map (\<lambda>_. []) ds @ [[], input] @ map snd fs"
    and nlinks: "take (length ds) (map cr_nlink rs) = map (\<lambda>d. case map_of links d of Some n \<Rightarrow> n | None \<Rightarrow> 2) ds"
    by (rule module_archive_steps) blast
  have "members_ok rs"
    unfolding members_ok_def
  proof
    fix r assume r: "r \<in> set rs"
    then have "cr_name r \<in> set (map cr_name rs)" by simp
    from tree_ok_names(2) [OF ok apart this [unfolded names]] fits r
    show "record_ok r \<and> cr_name r \<noteq> TRAILER" by (simp add: record_ok_def fits_def)
  qed
  note rt = archive_roundtrip [OF this, folded out]
  have nlink: "unat (cr_nlink (rs ! i)) = 2 + length (children ds (ds ! i))" if i: "i < length ds" for i
  proof -
    have "length (map cr_name rs) = length (ds @ [''dev/console'', ''init''] @ map fst fs)"
      by (simp only: names)
    then have "length ds \<le> length rs" by simp
    then have "cr_nlink (rs ! i) = take (length ds) (map cr_nlink rs) ! i" using i by simp
    then show ?thesis using link_fold [OF links, of "ds ! i"] i by (simp add: nlinks)
  qed
  show ?thesis
  proof (intro exI [of _ ds] exI [of _ fs] exI [of _ rs] conjI)
    show "distinct (map cr_name rs)" unfolding names by (rule tree_ok_names(1) [OF ok apart])
    show "\<forall>i<length ds. set (parent_dirs (ds ! i)) \<subseteq> set (take i ds)
         \<and> unat (cr_nlink (rs ! i)) = 2 + length (children ds (ds ! i))"
      using tree_ok_parents_first [OF ok] nlink by blast
    show "\<forall>p\<in>fst ` set fs. set (parent_dirs p) \<subseteq> set ds" using tree_okD(7) [OF ok] by blast
  qed (rule rt names datas inos tree_okD(8) [OF ok])+
qed

section \<open>A concrete archive\<close>

text \<open>When nothing is close to the field limits an entry is written.\<close>

lemma checked_entry_room:
  assumes "length name < 0x1000" and "length data < 0x1000" and "length out < 0x1000000"
  shows "\<exists>out'. checked_entry out ino mode nlink name data rdev = Inr out' \<and> length out' < length out + 0x3000"
proof -
  let ?n = "length out + 110 + (length name + 1)"
  have up: "up4 ?n \<le> ?n + 3" "up4 (up4 ?n + length data) \<le> up4 ?n + length data + 3" by (rule up4_le)+
  have us: "usize_add (length name) 1 = Some (length name + 1)"
    "usize_add (length out) 110 = Some (length out + 110)"
    "usize_add (length out + 110) (length name + 1) = Some ?n" "usize_add ?n 3 = Some (?n + 3)"
    "usize_add (up4 ?n) (length data) = Some (up4 ?n + length data)"
    "usize_add (up4 ?n + length data) 3 = Some (up4 ?n + length data + 3)"
    using assms up by (simp_all add: usize_small)
  have le: "length out \<le> up4 (up4 ?n + length data)"
    using up4_pad(3) [of ?n] up4_pad(3) [of "up4 ?n + length data"] by linarith
  have "checked_entry out ino mode nlink name data rdev
      = Inr (cpio_entry out ino mode nlink name data rdev)"
    unfolding checked_entry_def checked_entry_size_def us ok_or_simps rbind_simps Option.bind.simps
      option.map down4_add3
    using assms(1,2) le by simp
  moreover have "length (cpio_entry out ino mode nlink name data rdev) < length out + 0x3000"
  proof -
    let ?r = "\<lparr>cr_ino = ino, cr_mode = mode, cr_nlink = nlink, cr_name = name, cr_data = data,
      cr_rdev = rdev_pair rdev\<rparr>"
    have "length (header_of ?r) = 6 + length (concat (map hex08 (header_fields ?r)))"
      by (simp add: header_of_def)
    also have "length (concat (map hex08 (header_fields ?r))) = length (header_fields ?r) * 8"
    proof (rule length_concat_map)
      fix n assume "n \<in> set (header_fields ?r)"
      then show "length (hex08 n) = 8"
        using assms(1,2) unat_u32_less [of ino] unat_u32_less [of mode] unat_u32_less [of nlink]
          unat_u32_less [of "fst (rdev_pair rdev)"] unat_u32_less [of "snd (rdev_pair rdev)"]
        by (auto simp: header_fields_def)
    qed
    finally have h: "length (header_of ?r) = 110" by (simp add: header_fields_def)
    have eq: "emit_record out ?r = pad_to_4 (pad_to_4 (out @ header_of ?r @ str_bytes name @ [0]) @ data)"
      by (simp add: emit_record_def cpio_entry_def header_of_def header_fields_def case_prod_beta Let_def)
    have "length (emit_record out ?r) = up4 (up4 ?n + length data)"
      unfolding eq by (simp add: h ac_simps)
    then show ?thesis using up assms(1,2) by (simp add: cpio_entry_record)
  qed
  ultimately show ?thesis by blast
qed

definition demo_elf :: elf_file where
  "demo_elf = \<lparr>elf_is_64 = True, elf_little_endian = True, e_machine = 0x3E, e_shoff = 0, e_shnum = 0,
    e_shentsize = 0, e_entry = 0, program_headers = [], section_headers = [], elf_syms = [],
    elf_strtab = (\<lambda>_. None), elf_dynsyms = [], elf_dynstrtab = (\<lambda>_. None), shdr_strtab = (\<lambda>_. None),
    shdr_relocs = [], elf_interpreter = None\<rparr>"

definition demo_static :: goblin where
  "demo_static = demo_goblin\<lparr>parse_elf := \<lambda>_. Some demo_elf\<rparr>"

definition demo_module :: module_source where
  "demo_module = \<lparr>ms_path = ''a.ko'', ms_bytes = [5]\<rparr>"

lemma next_ino_room: "unat ino < 1000 \<Longrightarrow> \<exists>ino'. next_ino ino = Inr ino' \<and> unat ino' = unat ino + 1"
proof -
  assume "unat ino < 1000"
  then have "checked_add ino 1 \<noteq> None" by (simp add: checked_simps)
  then obtain c where c: "checked_add ino 1 = Some c" by blast
  then have "unat c = unat ino + 1" by (simp add: checked_simps)
  then show ?thesis by (simp add: next_ino_def c)
qed

lemma dirs_room:
  "\<forall>d\<in>set ds. length d < 0x1000 \<Longrightarrow> length out + length ds * 0x3000 < 0x1000000 \<Longrightarrow>
    unat ino + length ds < 1000 \<Longrightarrow>
    \<exists>out' ino'. try_fold (dir_step links) (out, ino) ds = Inr (out', ino')
      \<and> length out' \<le> length out + length ds * 0x3000 \<and> unat ino' = unat ino + length ds"
proof (induction ds arbitrary: out ino)
  case (Cons d ds)
  obtain ino1 where i: "next_ino ino = Inr ino1" "unat ino1 = unat ino + 1"
    using next_ino_room [of ino] Cons.prems(3) by auto
  obtain out1 where o1: "checked_entry out ino1 S_DIR (case map_of links d of Some n \<Rightarrow> n | None \<Rightarrow> 2) d [] None = Inr out1"
    "length out1 < length out + 0x3000"
    using checked_entry_room [of d "[]" out ino1] Cons.prems(1,2) by fastforce
  have "\<exists>out' ino'. try_fold (dir_step links) (out1, ino1) ds = Inr (out', ino')
      \<and> length out' \<le> length out1 + length ds * 0x3000 \<and> unat ino' = unat ino1 + length ds"
    by (rule Cons.IH) (use Cons.prems o1(2) i(2) in simp_all)
  moreover have "dir_step links (out, ino) d = Inr (out1, ino1)" by (simp add: dir_step_def i(1) Let_def o1(1))
  ultimately show ?case using o1(2) i(2) by auto
qed simp

lemma demo_archive: "\<exists>out. module_archive (ELF_MAGIC @ [1]) ''6.1'' [demo_module] = Inr out"
proof -
  define ds where "ds = [''.'', ''dev'', ''usr'', ''usr/lib'', ''usr/lib/modules'', ''usr/lib/modules/6.1'']"
  define f where "f = ''usr/lib/modules/6.1/a.ko''"
  have tree: "try_fold (module_step ''6.1'') ([''.'', ''dev''], []) [demo_module] = Inr (ds, [(f, [5])])"
    unfolding ds_def f_def by code_simp
  have "case try_fold link_step [] ds of Inr _ \<Rightarrow> True | Inl _ \<Rightarrow> False" unfolding ds_def by code_simp
  then obtain links where links: "try_fold link_step [] ds = Inr links" by (auto split: sum.splits)
  have rel: "validate_component ''6.1'' = Inr ()" by code_simp
  have len: "length ds = 6" "\<forall>d\<in>set ds. length d < 0x1000" by (simp_all add: ds_def)
  obtain o1 i1 where s1: "try_fold (dir_step links) ([], 0) ds = Inr (o1, i1)" "length o1 \<le> 6 * 0x3000" "unat i1 = 6"
    using dirs_room [OF len(2), of "[]" 0 links] len(1) by auto
  obtain i2 where i2: "next_ino i1 = Inr i2" "unat i2 = 7" using next_ino_room [of i1] s1(3) by auto
  obtain o2 where o2: "checked_entry o1 i2 S_CHR 1 ''dev/console'' [] (Some (5, 1)) = Inr o2" "length o2 < 7 * 0x3000"
    using checked_entry_room [of "''dev/console''" "[]" o1 i2 S_CHR 1 "Some (5, 1)"] s1(2) by auto
  obtain i3 where i3: "next_ino i2 = Inr i3" "unat i3 = 8" using next_ino_room [of i2] i2(2) by auto
  obtain o3 where o3: "checked_entry o2 i3 S_EXEC 1 ''init'' (ELF_MAGIC @ [1]) None = Inr o3" "length o3 < 8 * 0x3000"
    using checked_entry_room [of "''init''" "ELF_MAGIC @ [1]" o2 i3 S_EXEC 1 None] o2(2)
    by (auto simp: ELF_MAGIC_def)
  obtain i4 where i4: "next_ino i3 = Inr i4" using next_ino_room [of i3] i3(2) by auto
  obtain o4 where o4: "checked_entry o3 i4 S_FILE 1 f [5] None = Inr o4" "length o4 < 9 * 0x3000"
    using checked_entry_room [of f "[5]" o3 i4 S_FILE 1 None] o3(2) by (auto simp: f_def)
  obtain o5 where o5: "checked_entry o4 0 0 1 ''TRAILER!!!'' [] None = Inr o5"
    using checked_entry_room [of "''TRAILER!!!''" "[]" o4 0 0 1 None] o4(2) by auto
  have "\<not> list_ex (\<lambda>(name, _). name \<in> set ds) [(f, [5 :: u8])]" by (simp add: ds_def f_def)
  then have "module_archive (ELF_MAGIC @ [1]) ''6.1'' [demo_module] = Inr o5"
    unfolding module_archive_def rel map_err_simps rbind_simps tree prod.case links s1(1) i2(1) o2(1) i3(1) o3(1)
    by (simp add: file_step_def i4 o4(1) o5)
  then show ?thesis by blast
qed

theorem module_archive_content_witness:
  "\<exists>out ds fs rs. archive_records out = Some rs \<and> validate_cpio out \<and> distinct (map cr_name rs)
    \<and> map cr_name rs = ds @ [''dev/console'', ''init''] @ map fst fs
    \<and> set fs = {(''usr/lib/modules/6.1/a.ko'', [5 :: u8])}"
proof -
  obtain out where out: "module_archive (ELF_MAGIC @ [1]) ''6.1'' [demo_module] = Inr out"
    using demo_archive by blast
  have "check_module_init demo_static (ELF_MAGIC @ [1]) = Inr ()" by code_simp
  moreover have "checked_entry_size 0 (length ''init'') (length (ELF_MAGIC @ [1])) = Inr 124"
    by (simp add: checked_entry_size_def ELF_MAGIC_def usize_add_def usize_max_eq down4_def)
  ultimately have "rbind (check_module_init demo_static (ELF_MAGIC @ [1]))
      (\<lambda>_. checked_entry_size 0 (length ''init'') (length (ELF_MAGIC @ [1]))) = Inr 124"
    by simp
  then have mat: "materialize_modules demo_decoders demo_static (ELF_MAGIC @ [1]) ''6.1'' [demo_module] = Some (Inr out)"
    unfolding materialize_modules_def by (simp add: out)
  have parts: "module_parts ''a.ko'' = Inr [''a.ko'']" by code_simp
  have path: "module_file ''6.1'' [''a.ko''] = ''usr/lib/modules/6.1/a.ko''" by code_simp
  have fs: "{(module_file ''6.1'' parts, ms_bytes m) | m parts.
      m \<in> set [demo_module] \<and> module_parts (ms_path m) = Inr parts} = {(''usr/lib/modules/6.1/a.ko'', [5 :: u8])}"
    by (auto simp: demo_module_def parts path)
  have ne: "[demo_module] \<noteq> []" by simp
  obtain ds fs' rs where "validate_cpio out" "archive_records out = Some rs" "distinct (map cr_name rs)"
    "map cr_name rs = ds @ [''dev/console'', ''init''] @ map fst fs'"
    "set fs' = {(''usr/lib/modules/6.1/a.ko'', [5 :: u8])}"
    using module_archive_content [OF mat ne, unfolded fs] by (elim exE conjE) (rule that)
  then show ?thesis by (intro exI conjI)
qed

end
