(* ===== verification/Kconfig.thy ===== *)
theory Kconfig
  imports RustText
begin

text \<open>
  What \<open>arma\<close> reads from a kernel's build configuration and command line
  (\<open>kconfig.rs\<close>, \<open>kernel_cmdline.rs\<close>, \<open>Arch\<close> of \<open>kernel.rs\<close>).

  The scan for the argument \<open>bootconfig\<close> is a \<open>loop\<close> without a bound and is a
  \<open>partial_function\<close>; \<open>bootconfig_scan\<close> shows that it always returns and that
  its answer is that of the kernel's own tokenizer, given here as \<open>kernel_args\<close>.
\<close>

datatype arch = X86_64 | Aarch64

definition pe_machine :: "arch \<Rightarrow> 16 word" where
  "pe_machine a = (case a of X86_64 \<Rightarrow> 0x8664 | Aarch64 \<Rightarrow> 0xAA64)"

section \<open>Kernel arguments (kernel_cmdline.rs)\<close>

definition CAPACITY :: nat where "CAPACITY = 2048"

definition is_space :: "u8 \<Rightarrow> bool" where
  "is_space c \<longleftrightarrow> c = 0x20 \<or> (0x09 \<le> c \<and> c \<le> 0x0D) \<or> c = 0xA0"

definition QUOTE :: u8 where "QUOTE = 0x22"
definition EQUALS :: u8 where "EQUALS = 0x3D"

text \<open>The closure of \<open>find_map\<close>, with the variables it captures: the end, if a separator is
  found, and the position of the first equals sign, 0 if there is none.\<close>

fun scan_arg :: "nat \<Rightarrow> bool \<Rightarrow> nat \<Rightarrow> bytes \<Rightarrow> nat option \<times> nat" where
  "scan_arg i in_quote equals [] = (None, equals)"
| "scan_arg i in_quote equals (c # cs) =
    (if is_space c \<and> \<not> in_quote then (Some i, equals)
     else scan_arg (Suc i) (if c = QUOTE then \<not> in_quote else in_quote)
       (if equals = 0 \<and> c = EQUALS then i else equals) cs)"

text \<open>One round of the loop: it returns, or goes on with the rest.\<close>

datatype arg_round = Returns bool | Continues bytes

definition scan_round :: "bytes \<Rightarrow> arg_round" where
  "scan_round rest0 =
    (let rest = dropWhile is_space rest0 in
     if rest = [] then Returns False
     else
       let quoted = hd rest = QUOTE;
           rest = drop (if quoted then 1 else 0) rest;
           (found, equals) = scan_arg 0 quoted 0 rest;
           stop = (case found of Some i \<Rightarrow> i | None \<Rightarrow> length rest);
           name = take (if equals = 0 then stop else equals) rest;
           name = (if quoted \<and> equals = 0 \<and> name \<noteq> [] \<and> last name = QUOTE then butlast name else name)
       in if equals = 0 \<and> name = str_bytes ''--'' then Returns False
          else if name = str_bytes ''bootconfig'' then Returns True
          else Continues (drop stop rest))"

partial_function (option) bootconfig_loop :: "bytes \<Rightarrow> bool option" where
  "bootconfig_loop rest =
    (case scan_round rest of Returns b \<Rightarrow> Some b | Continues rest' \<Rightarrow> bootconfig_loop rest')"

definition bootconfig_requested :: "bytes \<Rightarrow> bool" where
  "bootconfig_requested s = (bootconfig_loop (takeWhile (\<lambda>c. c \<noteq> 0) s) = Some True)"

subsection \<open>The arguments of a command line\<close>

text \<open>
  The reference: a command line is a list of words. A word ends at a space outside quotes; a
  quote that opens the word is dropped. An equals sign that is not the first character ends the
  name. A quoted word without a value loses its closing quote.
\<close>

fun arg_word :: "bool \<Rightarrow> bytes \<Rightarrow> bytes \<times> bytes" where
  "arg_word q [] = ([], [])"
| "arg_word q (c # cs) =
    (if is_space c \<and> \<not> q then ([], c # cs)
     else (case arg_word (q \<noteq> (c = QUOTE)) cs of (w, r) \<Rightarrow> (c # w, r)))"

definition arg_name :: "bytes \<Rightarrow> bytes \<times> bool" where
  "arg_name w = (case w of
     [] \<Rightarrow> ([], False)
   | c # cs \<Rightarrow> if EQUALS \<in> set cs then (c # takeWhile (\<lambda>b. b \<noteq> EQUALS) cs, True) else (w, False))"

definition unquote_name :: "bool \<Rightarrow> bytes \<times> bool \<Rightarrow> bytes \<times> bool" where
  "unquote_name quoted nv = (case nv of (name, has_value) \<Rightarrow>
     (if quoted \<and> \<not> has_value \<and> name \<noteq> [] \<and> last name = QUOTE then butlast name else name,
      has_value))"

lemma arg_word_append: "arg_word q s = (w, r) \<Longrightarrow> s = w @ r"
  by (induction q s arbitrary: w rule: arg_word.induct) (auto split: if_splits prod.splits)

lemma arg_word_nonempty: "arg_word q (c # s) = (w, r) \<Longrightarrow> \<not> is_space c \<or> q \<Longrightarrow> w \<noteq> []"
  by (auto split: if_splits prod.splits)

function kernel_args :: "bytes \<Rightarrow> (bytes \<times> bool) list" where
  "kernel_args s =
    (case dropWhile is_space s of
       [] \<Rightarrow> []
     | c # cs \<Rightarrow>
        if c = QUOTE
        then unquote_name True (arg_name (fst (arg_word True cs))) # kernel_args (snd (arg_word True cs))
        else arg_name (fst (arg_word False (c # cs))) # kernel_args (snd (arg_word False (c # cs))))"
  by pat_completeness auto

lemma arg_word_rest_le: "length (snd (arg_word q s)) \<le> length s"
  by (induction q s rule: arg_word.induct) (auto split: prod.splits)

lemma arg_word_rest_less: "\<not> is_space c \<Longrightarrow> length (snd (arg_word q (c # s))) \<le> length s"
  using arg_word_rest_le [of "q \<noteq> (c = QUOTE)" s] by (auto split: prod.splits)

termination kernel_args
proof (relation "measure length", goal_cases)
  case (2 s c cs)
  have "length (c # cs) \<le> length s" using 2(1) by (metis length_dropWhile_le)
  with arg_word_rest_le [of True cs] show ?case by simp
next
  case (3 s c cs)
  have "length (c # cs) \<le> length s" using 3(1) by (metis length_dropWhile_le)
  moreover have "\<not> is_space c" using 3(1) by (metis hd_dropWhile list.sel(1) list.distinct(1))
  ultimately show ?case using arg_word_rest_less [of c False cs] by simp
qed simp

declare kernel_args.simps [simp del]

text \<open>The arguments before \<open>--\<close> are the kernel's; the rest goes to init.\<close>

definition names_bootconfig :: "(bytes \<times> bool) list \<Rightarrow> bool" where
  "names_bootconfig args \<longleftrightarrow>
    str_bytes ''bootconfig'' \<in> fst ` set (takeWhile (\<lambda>nv. nv \<noteq> (str_bytes ''--'', False)) args)"

subsection \<open>The loop returns what the arguments say\<close>

fun equals_at :: "nat \<Rightarrow> bytes \<Rightarrow> nat" where
  "equals_at i [] = 0"
| "equals_at i (c # cs) = (if i \<noteq> 0 \<and> c = EQUALS then i else equals_at (Suc i) cs)"

lemma equals_at_Suc:
  "equals_at (Suc i) w =
    (if EQUALS \<in> set w then Suc i + length (takeWhile (\<lambda>b. b \<noteq> EQUALS) w) else 0)"
  by (induction w arbitrary: i) auto

lemma scan_arg_Cons:
  "scan_arg i q e (c # cs) =
    (if is_space c \<and> \<not> q then (Some i, e)
     else scan_arg (Suc i) (q \<noteq> (c = QUOTE)) (if e = 0 \<and> c = EQUALS then i else e) cs)"
  by simp

lemma arg_word_Cons:
  "arg_word q (c # cs) =
    (if is_space c \<and> \<not> q then ([], c # cs)
     else (c # fst (arg_word (q \<noteq> (c = QUOTE)) cs), snd (arg_word (q \<noteq> (c = QUOTE)) cs)))"
  by (simp split: prod.split)

lemma scan_arg_stop:
  "(case fst (scan_arg i q e s) of Some k \<Rightarrow> k | None \<Rightarrow> i + length s) = i + length (fst (arg_word q s))"
proof (induction s arbitrary: i q e)
  case (Cons c s)
  show ?case
  proof (cases "is_space c \<and> \<not> q")
    case False
    have len: "i + length (c # s) = Suc i + length s" by simp
    show ?thesis
      unfolding scan_arg_Cons arg_word_Cons if_not_P [OF False] len Cons by simp
  qed simp
qed simp

lemma scan_arg_equals:
  "snd (scan_arg i q e s) = (if e = 0 then equals_at i (fst (arg_word q s)) else e)"
proof (induction s arbitrary: i q e)
  case (Cons c s)
  show ?case
  proof (cases "is_space c \<and> \<not> q")
    case False
    show ?thesis
      unfolding scan_arg_Cons arg_word_Cons if_not_P [OF False] Cons by simp
  qed simp
qed simp

text \<open>The name the scan takes is that of the word.\<close>

lemma scan_arg_name:
  assumes "scan_arg 0 q 0 s = (found, e)" and "arg_word q s = (w, r)"
  shows "take (if e = 0 then case found of Some i \<Rightarrow> i | None \<Rightarrow> length s else e) s = fst (arg_name w)"
    and "e = 0 \<longleftrightarrow> \<not> snd (arg_name w)"
    and "drop (case found of Some i \<Rightarrow> i | None \<Rightarrow> length s) s = r"
proof -
  have s: "s = w @ r" using assms(2) by (rule arg_word_append)
  have stop: "(case found of Some i \<Rightarrow> i | None \<Rightarrow> length s) = length w"
    using scan_arg_stop [where i = 0 and q = q and e = 0 and s = s] unfolding assms
    by (simp split: option.splits)
  have e: "e = equals_at 0 w" using scan_arg_equals [where i = 0 and q = q and e = 0 and s = s] assms by simp
  show "drop (case found of Some i \<Rightarrow> i | None \<Rightarrow> length s) s = r" unfolding stop by (simp add: s)
  show "e = 0 \<longleftrightarrow> \<not> snd (arg_name w)"
    unfolding e arg_name_def by (cases w) (auto simp: equals_at_Suc)
  have "take (length (c # takeWhile (\<lambda>b. b \<noteq> EQUALS) cs)) ((c # cs) @ r)
      = c # takeWhile (\<lambda>b. b \<noteq> EQUALS) cs" for c and cs :: bytes
  proof -
    have "(c # cs) @ r = (c # takeWhile (\<lambda>b. b \<noteq> EQUALS) cs) @ dropWhile (\<lambda>b. b \<noteq> EQUALS) cs @ r"
      by simp
    then show ?thesis by (metis append_eq_conv_conj)
  qed
  then show "take (if e = 0 then case found of Some i \<Rightarrow> i | None \<Rightarrow> length s else e) s = fst (arg_name w)"
    unfolding stop unfolding e arg_name_def s by (cases w) (simp_all add: equals_at_Suc)
qed

definition arg_at :: "bytes \<Rightarrow> (bytes \<times> bool) \<times> bytes" where
  "arg_at s = (if hd s = QUOTE
     then (unquote_name True (arg_name (fst (arg_word True (tl s)))), snd (arg_word True (tl s)))
     else (arg_name (fst (arg_word False s)), snd (arg_word False s)))"

lemma scan_round_Nil: "dropWhile is_space s = [] \<Longrightarrow> scan_round s = Returns False"
  by (simp add: scan_round_def)

lemma scan_round_Cons:
  assumes s: "dropWhile is_space s = c # cs"
  shows "scan_round s =
    (if fst (arg_at (c # cs)) = (str_bytes ''--'', False) then Returns False
     else if fst (fst (arg_at (c # cs))) = str_bytes ''bootconfig'' then Returns True
     else Continues (snd (arg_at (c # cs))))"
proof -
  define q t where "q = (c = QUOTE)" and "t = (if c = QUOTE then cs else c # cs)"
  obtain found e where sc: "scan_arg 0 q 0 t = (found, e)" by fastforce
  obtain w r where aw: "arg_word q t = (w, r)" by fastforce
  have drop: "drop (if q then 1 else 0) (c # cs) = t" by (simp add: q_def t_def)
  note nm = scan_arg_name [OF sc aw]
  obtain n v where nv: "arg_name w = (n, v)" by fastforce
  have at: "arg_at (c # cs) = (if q then unquote_name True (n, v) else (n, v), r)"
    using aw nv by (auto simp: arg_at_def q_def t_def split: if_splits)
  define stop name where "stop = (case found of Some i \<Rightarrow> i | None \<Rightarrow> length t)"
    and "name = take (if e = 0 then stop else e) t"
  have round: "scan_round s =
      (let name = (if q \<and> e = 0 \<and> name \<noteq> [] \<and> last name = QUOTE then butlast name else name)
       in if e = 0 \<and> name = str_bytes ''--'' then Returns False
          else if name = str_bytes ''bootconfig'' then Returns True
          else Continues (drop stop t))"
    unfolding scan_round_def s Let_def list.sel q_def [symmetric] drop sc prod.case
    unfolding stop_def [symmetric] name_def [symmetric] by (simp split del: if_split)
  have eqs: "name = n" "e = 0 \<longleftrightarrow> \<not> v" "drop stop t = r"
    using nm unfolding name_def stop_def nv by (simp_all split: if_splits)
  define m where "m = (if q \<and> \<not> v \<and> n \<noteq> [] \<and> last n = QUOTE then butlast n else n)"
  have "arg_at (c # cs) = ((m, v), r)"
    unfolding at m_def unquote_name_def by simp
  then show ?thesis
    unfolding round Let_def eqs m_def [symmetric] by auto
qed

lemma kernel_args_Nil: "dropWhile is_space s = [] \<Longrightarrow> kernel_args s = []"
  by (subst kernel_args.simps) (simp del: dropWhile_eq_Nil_conv)

lemma kernel_args_Cons:
  "dropWhile is_space s = c # cs \<Longrightarrow>
    kernel_args s = fst (arg_at (c # cs)) # kernel_args (snd (arg_at (c # cs)))"
  by (subst kernel_args.simps) (simp add: arg_at_def)

lemma bootconfig_loop_returns: "bootconfig_loop s = Some (names_bootconfig (kernel_args s))"
proof (induction s rule: kernel_args.induct)
  case (1 s)
  show ?case
  proof (cases "dropWhile is_space s")
    case Nil
    then show ?thesis
      by (subst bootconfig_loop.simps) (simp add: scan_round_Nil kernel_args_Nil names_bootconfig_def)
  next
    case (Cons c cs)
    let ?a = "fst (arg_at (c # cs))" and ?r = "snd (arg_at (c # cs))"
    have IH: "bootconfig_loop ?r = Some (names_bootconfig (kernel_args ?r))"
      using 1 [OF Cons] by (cases "c = QUOTE") (simp_all add: arg_at_def)
    have args: "kernel_args s = ?a # kernel_args ?r"
      using Cons by (rule kernel_args_Cons)
    show ?thesis
      by (subst bootconfig_loop.simps)
        (auto simp: scan_round_Cons [OF Cons] args IH names_bootconfig_def intro: rev_image_eqI)
  qed
qed

text \<open>
  C23. The scan for \<open>bootconfig\<close> terminates on every command line, and it answers whether
  an argument of that name stands among the kernel's arguments, that is before \<open>--\<close> and
  before the first NUL.
\<close>

theorem bootconfig_scan:
  "bootconfig_loop (takeWhile (\<lambda>c. c \<noteq> 0) s) \<noteq> None
   \<and> bootconfig_requested s = names_bootconfig (kernel_args (takeWhile (\<lambda>c. c \<noteq> 0) s))"
  by (simp add: bootconfig_requested_def bootconfig_loop_returns)

section \<open>The build configuration (kconfig.rs)\<close>

text \<open>\<open>KernelConfig\<close> holds the text; a symbol is looked up line by line on demand.\<close>

record kernel_config =
  config_text :: string

datatype slot_error = NoTransport | MmioUnsupported | NoBuiltinTransport | PciUnsupported

datatype poweroff_support = Psci | PowerAcpi | SysconDriver | PowerUnsupported

datatype bootconfig_error = MissingSupport string | Inactive

record module_config_error =
  mce_path :: string
  mce_option :: string

definition set_to :: "string list \<Rightarrow> string \<Rightarrow> string \<Rightarrow> bool" where
  "set_to values symb line =
    (case strip_prefix symb (trim_start line) of
       None \<Rightarrow> False
     | Some rest \<Rightarrow> (case strip_prefix ''='' rest of None \<Rightarrow> False | Some v \<Rightarrow> v \<in> set values))"

definition is_set :: "kernel_config \<Rightarrow> string \<Rightarrow> bool" where
  "is_set k symb = list_ex (set_to [''y'', ''m''] symb) (str_lines (config_text k))"

definition is_builtin :: "kernel_config \<Rightarrow> string \<Rightarrow> bool" where
  "is_builtin k symb = list_ex (set_to [''y''] symb) (str_lines (config_text k))"

text \<open>A backslash stands before the character it escapes; a last one stands for itself.\<close>

definition BACKSLASH :: char where "BACKSLASH = CHR 0x5C"

fun unescape :: "string \<Rightarrow> string" where
  "unescape [] = []"
| "unescape [c] = [c]"
| "unescape (c # d # s) = (if c = BACKSLASH then d # unescape s else c # unescape (d # s))"

definition builtin_cmdline :: "kernel_config \<Rightarrow> string" where
  "builtin_cmdline k =
    (let found = find_map (\<lambda>line.
         case strip_prefix (''CONFIG_CMDLINE='' @ [CHR 0x22]) (trim_start line) of
           None \<Rightarrow> None
         | Some rest \<Rightarrow> strip_suffix [CHR 0x22] rest) (str_lines (config_text k))
     in unescape (case found of None \<Rightarrow> [] | Some v \<Rightarrow> v))"

text \<open>The command line the kernel will see, before the last truncation.\<close>

definition effective_cmdline :: "kernel_config \<Rightarrow> arch \<Rightarrow> string \<Rightarrow> bytes" where
  "effective_cmdline k a cmdline =
    (let effective = take (CAPACITY - 1) (str_bytes cmdline);
         builtin = builtin_cmdline k in
     case a of
       X86_64 \<Rightarrow>
         if is_builtin k ''CONFIG_CMDLINE_BOOL'' then
           (if is_builtin k ''CONFIG_CMDLINE_OVERRIDE'' then str_bytes builtin
            else if builtin \<noteq> [] then str_bytes builtin @ [0x20] @ effective
            else effective)
         else effective
     | Aarch64 \<Rightarrow>
         if is_builtin k ''CONFIG_CMDLINE_EXTEND'' then effective @ [0x20] @ str_bytes builtin
         else if is_builtin k ''CONFIG_CMDLINE_FORCE'' then str_bytes builtin
         else effective)"

definition require_builtin :: "kernel_config \<Rightarrow> string \<Rightarrow> bootconfig_error + unit" where
  "require_builtin k opt = (if is_builtin k opt then Inr () else Inl (MissingSupport opt))"

definition check_bootconfig :: "kernel_config \<Rightarrow> arch \<Rightarrow> string \<Rightarrow> bootconfig_error + unit" where
  "check_bootconfig k a cmdline =
    rbind (try_each (require_builtin k)
      [''CONFIG_BOOT_CONFIG'', ''CONFIG_BLK_DEV_INITRD'', ''CONFIG_PROC_FS'']) (\<lambda>_.
    if is_builtin k ''CONFIG_BOOT_CONFIG_FORCE'' then Inr ()
    else if bootconfig_requested (take (CAPACITY - 1) (effective_cmdline k a cmdline)) then Inr ()
    else Inl Inactive)"

text \<open>\<open>ModulePacking\<close> is declared in \<open>modules.rs\<close>. The extension of a path is what
  follows the last dot of its last component, if something precedes that dot.\<close>

datatype module_packing = Keep | Gzip | Xz | Zstd

definition file_name :: "string \<Rightarrow> string" where
  "file_name path = (case rsplit_once (CHR ''/'') path of None \<Rightarrow> path | Some (_, f) \<Rightarrow> f)"

definition path_extension :: "string \<Rightarrow> string option" where
  "path_extension path =
    (if file_name path = ''..'' then None
     else case rsplit_once (CHR ''.'') (file_name path) of
       None \<Rightarrow> None
     | Some (before, after) \<Rightarrow> if before = [] then None else Some after)"

definition check_module :: "kernel_config \<Rightarrow> string \<Rightarrow> module_config_error + module_packing" where
  "check_module k path =
    (if \<not> is_builtin k ''CONFIG_MODULES'' then Inl \<lparr>mce_path = path, mce_option = ''CONFIG_MODULES''\<rparr>
     else
       let packed = (\<lambda>packing opt.
         if is_builtin k ''CONFIG_MODULE_DECOMPRESS'' \<and> is_builtin k opt then Inr Keep else Inr packing) in
       case path_extension path of
         None \<Rightarrow> Inr Keep
       | Some ext \<Rightarrow>
          if ext = ''xz'' then packed Xz ''CONFIG_MODULE_COMPRESS_XZ''
          else if ext = ''gz'' then packed Gzip ''CONFIG_MODULE_COMPRESS_GZIP''
          else if ext = ''zst'' then packed Zstd ''CONFIG_MODULE_COMPRESS_ZSTD''
          else Inr Keep)"

text \<open>The embedded configuration. The gzip decoder of the crate \<open>flate2\<close>, read to a string,
  is the parameter \<open>gunzip\<close>: \<open>None\<close> when it fails or its output is no UTF-8.\<close>

definition from_ikconfig :: "(bytes \<Rightarrow> string option) \<Rightarrow> bytes \<Rightarrow> kernel_config option" where
  "from_ikconfig gunzip vmlinux =
    (case find_window (str_bytes ''IKCFG_ST'') vmlinux of
       None \<Rightarrow> None
     | Some i \<Rightarrow>
        let start = i + 8 in
        case find_window (str_bytes ''IKCFG_ED'') (drop start vmlinux) of
          None \<Rightarrow> None
        | Some n \<Rightarrow> map_option (\<lambda>t. \<lparr>config_text = t\<rparr>) (gunzip (take n (drop start vmlinux))))"

definition isa_floor :: "kernel_config \<Rightarrow> arch \<Rightarrow> string" where
  "isa_floor k a = (case a of
     X86_64 \<Rightarrow>
       if is_set k ''CONFIG_X86_64_V4'' then ''x86-64-v4''
       else if is_set k ''CONFIG_X86_64_V3'' then ''x86-64-v3''
       else if is_set k ''CONFIG_X86_64_V2'' then ''x86-64-v2''
       else ''x86-64-v1''
   | Aarch64 \<Rightarrow> ''armv8.0-a'')"

definition supports_virtio_mmio :: "kernel_config \<Rightarrow> bool" where
  "supports_virtio_mmio k = is_set k ''CONFIG_VIRTIO_MMIO''"

definition builtin_virtio_mmio :: "kernel_config \<Rightarrow> bool" where
  "builtin_virtio_mmio k = is_builtin k ''CONFIG_VIRTIO_MMIO''"

definition supports_pci :: "kernel_config \<Rightarrow> arch \<Rightarrow> bool" where
  "supports_pci k a \<longleftrightarrow> is_set k ''CONFIG_PCI'' \<and> is_set k ''CONFIG_VIRTIO_PCI''
     \<and> (a \<noteq> Aarch64 \<or> is_set k ''CONFIG_PCI_HOST_GENERIC'')"

definition builtin_pci :: "kernel_config \<Rightarrow> arch \<Rightarrow> bool" where
  "builtin_pci k a \<longleftrightarrow> is_builtin k ''CONFIG_PCI'' \<and> is_builtin k ''CONFIG_VIRTIO_PCI''
     \<and> (a \<noteq> Aarch64 \<or> is_builtin k ''CONFIG_PCI_HOST_GENERIC'')"

definition poweroff_support_of :: "kernel_config \<Rightarrow> arch \<Rightarrow> poweroff_support" where
  "poweroff_support_of k a = (case a of
     Aarch64 \<Rightarrow>
       if is_set k ''CONFIG_ARM_PSCI_FW'' \<or> is_set k ''CONFIG_ARM_PSCI'' then Psci else PowerUnsupported
   | X86_64 \<Rightarrow>
       if is_set k ''CONFIG_ACPI'' then PowerAcpi
       else if is_set k ''CONFIG_POWER_RESET_SYSCON_POWEROFF'' then SysconDriver
       else PowerUnsupported)"

definition infer_slots ::
  "kernel_config \<Rightarrow> arch \<Rightarrow> u32 option \<Rightarrow> u32 option \<Rightarrow> slot_error + (u32 \<times> u32)" where
  "infer_slots k a mmio_override pci_override =
    (let mmio_drivable = supports_virtio_mmio k;
         mmio_builtin = builtin_virtio_mmio k;
         pci_drivable = supports_pci k a;
         pci_builtin = builtin_pci k a in
     if \<not> mmio_drivable \<and> \<not> pci_drivable then Inl NoTransport
     else case (mmio_override, pci_override) of
       (None, None) \<Rightarrow>
         (case (mmio_builtin, pci_builtin) of
            (True, True) \<Rightarrow> Inr (8, 8)
          | (True, False) \<Rightarrow> Inr (16, 0)
          | (False, True) \<Rightarrow> Inr (0, 16)
          | (False, False) \<Rightarrow> Inl NoBuiltinTransport)
     | (m, p) \<Rightarrow>
         let mmio = (case m of Some n \<Rightarrow> n | None \<Rightarrow> 0);
             pci = (case p of Some n \<Rightarrow> n | None \<Rightarrow> 0) in
         if 0 < mmio \<and> \<not> mmio_drivable then Inl MmioUnsupported
         else if 0 < pci \<and> \<not> pci_drivable then Inl PciUnsupported
         else Inr (mmio, pci))"

section \<open>The profile floor\<close>

definition isa_levels :: "arch \<Rightarrow> string list" where
  "isa_levels a = (case a of
     X86_64 \<Rightarrow> [''x86-64-v1'', ''x86-64-v2'', ''x86-64-v3'', ''x86-64-v4'']
   | Aarch64 \<Rightarrow> [''armv8.0-a'', ''armv8.1-a'', ''armv8.2-a'', ''armv8.3-a'', ''armv8.4-a'',
       ''armv8.5-a'', ''armv8.6-a''])"

definition isa_rank :: "arch \<Rightarrow> string \<Rightarrow> nat option" where
  "isa_rank a p = position (\<lambda>l. l = p) (isa_levels a)"

definition raise_to_floor :: "string \<Rightarrow> string \<Rightarrow> arch \<Rightarrow> string" where
  "raise_to_floor chosen least a =
    (case (isa_rank a chosen, isa_rank a least) of
       (Some c, Some f) \<Rightarrow> if c < f then least else chosen
     | _ \<Rightarrow> chosen)"

lemma set_to_Cons: "set_to [''y''] symb line \<Longrightarrow> set_to [''y'', ''m''] symb line"
  by (auto simp: set_to_def split: option.splits)

lemma is_builtin_is_set: "is_builtin k symb \<Longrightarrow> is_set k symb"
  by (auto simp: is_builtin_def is_set_def list_ex_iff dest: set_to_Cons)

lemma builtin_pci_supports: "builtin_pci k a \<Longrightarrow> supports_pci k a"
  by (auto simp: builtin_pci_def supports_pci_def dest: is_builtin_is_set)

lemma builtin_mmio_supports: "builtin_virtio_mmio k \<Longrightarrow> supports_virtio_mmio k"
  by (simp add: builtin_virtio_mmio_def supports_virtio_mmio_def is_builtin_is_set)

text \<open>The floor of a kernel is a level, so a recognised profile never ends below it, and one
  that is not recognised is left alone.\<close>

lemma isa_floor_rank: "\<exists>r. isa_rank a (isa_floor k a) = Some r"
  by (cases a) (simp_all add: isa_floor_def isa_rank_def isa_levels_def)

lemma raise_to_floor_rank:
  assumes "isa_rank a chosen = Some c" and "isa_rank a least = Some f"
  shows "isa_rank a (raise_to_floor chosen least a) = Some (max c f)"
  using assms by (auto simp: raise_to_floor_def max_def)

lemma raise_to_floor_unknown: "isa_rank a chosen = None \<Longrightarrow> raise_to_floor chosen least a = chosen"
  by (simp add: raise_to_floor_def)

text \<open>
  Slot inference. A board is only given slots for a transport the kernel can drive. A
  default board has 16 slots, all on transports that are built in; explicit numbers are taken as
  they are, a missing one as 0. It fails only if the kernel drives neither transport, if a
  default board has no built-in one, or if slots are asked for on an undrivable one.
\<close>

lemma infer_slots_drivable:
  "(case infer_slots k a m p of
      Inr (mmio, pci) \<Rightarrow>
        (0 < mmio \<longrightarrow> supports_virtio_mmio k) \<and> (0 < pci \<longrightarrow> supports_pci k a)
        \<and> (if m = None \<and> p = None
           then unat mmio + unat pci = 16 \<and> (0 < mmio \<longrightarrow> builtin_virtio_mmio k)
             \<and> (0 < pci \<longrightarrow> builtin_pci k a)
           else mmio = (case m of Some n \<Rightarrow> n | None \<Rightarrow> 0) \<and> pci = (case p of Some n \<Rightarrow> n | None \<Rightarrow> 0))
    | Inl NoTransport \<Rightarrow> \<not> supports_virtio_mmio k \<and> \<not> supports_pci k a
    | Inl NoBuiltinTransport \<Rightarrow> m = None \<and> p = None \<and> \<not> builtin_virtio_mmio k \<and> \<not> builtin_pci k a
    | Inl MmioUnsupported \<Rightarrow> (\<exists>n. m = Some n \<and> 0 < n) \<and> \<not> supports_virtio_mmio k
    | Inl PciUnsupported \<Rightarrow> (\<exists>n. p = Some n \<and> 0 < n) \<and> \<not> supports_pci k a)"
  using builtin_mmio_supports [of k] builtin_pci_supports [of k a]
  by (cases m; cases p) (auto simp: infer_slots_def Let_def split: bool.splits)

definition demo_config :: kernel_config where
  "demo_config = \<lparr>config_text = ''CONFIG_VIRTIO_MMIO=m'' @ [newline] @ ''CONFIG_PCI=y'' @ [newline] @
    ''CONFIG_VIRTIO_PCI=y'' @ [newline]\<rparr>"

lemma infer_slots_drivable_witness:
  "infer_slots demo_config X86_64 None None = Inr (0, 16)
   \<and> supports_pci demo_config X86_64 \<and> builtin_pci demo_config X86_64"
proof -
  have "infer_slots demo_config X86_64 None None = Inr (0, 16)" by code_simp
  with infer_slots_drivable [of demo_config X86_64 None None] show ?thesis by simp
qed

end
