(* ===== verification/Modules.thy ===== *)
theory Modules
  imports ModuleArchive Kconfig
begin

text \<open>
  Module selection (\<open>src/modules.rs\<close>): the index files of a kernel's module tree are parsed,
  checked as a whole and closed under dependencies.

  The file system is a parameter, the record \<open>filesystem\<close> of the calls the code makes of
  \<open>std::fs\<close>; the tree is read-only while it is resolved, as the code assumes. A path is the
  list of its components, which is how \<open>Path\<close> compares. The decompressors are parameters of
  the unpacking of a file. Error texts are constructors, with the values they quote.
\<close>

section \<open>Errors and names\<close>

type_synonym path = "path_component list"

datatype module_error =
    InvalidName string
  | UnsafeRelease string release_error
  | NotDirectory path
  | IoError path
  | TreeCount string nat
  | AmbiguousName string
  | UnsupportedSuffix string
  | UnsafePath string
  | NonregularEntry path
  | EscapesTree path
  | NotNewcSized path
  | ExceedsNewc path
  | InvalidUtf8 string
  | MalformedLine string
  | DuplicateDependency string
  | DuplicateDefinition string
  | MissingDefinition string string
  | DependencyCycle string
  | UnknownModule string
  | DecompressModule string
  | NoEntry string          \<comment> \<open>the panic of \<open>definitions[&path]\<close>\<close>

definition is_alnum :: "char \<Rightarrow> bool" where
  "is_alnum c = (let n = of_char c :: nat in (48 \<le> n \<and> n \<le> 57) \<or> (65 \<le> n \<and> n \<le> 90) \<or> (97 \<le> n \<and> n \<le> 122))"

definition validate_name :: "string \<Rightarrow> module_error + string" where
  "validate_name name =
    (case name of
       [] \<Rightarrow> Inl (InvalidName name)
     | c # cs \<Rightarrow>
        if (is_alnum c \<or> c = CHR ''_'') \<and> list_all (\<lambda>c. is_alnum c \<or> c = CHR ''_'' \<or> c = CHR ''-'') cs
        then Inr (map (\<lambda>c. if c = CHR ''-'' then CHR ''_'' else c) name)
        else Inl (InvalidName name))"

definition path_part_ok :: "string \<Rightarrow> bool" where
  "path_part_ok part \<longleftrightarrow> part \<noteq> [] \<and> part \<noteq> ''.'' \<and> part \<noteq> ''..''
     \<and> list_all (\<lambda>c. is_alnum c \<or> c \<in> set ''._+-'') part"

definition validate_path :: "string \<Rightarrow> module_error + unit" where
  "validate_path p =
    (if p = [] \<or> list_ex (\<lambda>part. \<not> path_part_ok part) (split_on (CHR ''/'') p)
     then Inl (UnsafePath p) else Inr ())"

definition module_suffixes :: "string list" where
  "module_suffixes = [''.ko'', ''.ko.xz'', ''.ko.gz'', ''.ko.zst'']"

definition module_path :: "string \<Rightarrow> module_error + string" where
  "module_path p =
    rbind (validate_path p) (\<lambda>_.
    let filename = last (split_on (CHR ''/'') p) in
    rbind (ok_or (UnsupportedSuffix p) (find_map (\<lambda>s. strip_suffix s filename) module_suffixes)) (\<lambda>stem.
    validate_name stem))"

definition insert_name ::
  "(string \<times> string option) list \<Rightarrow> string list \<Rightarrow> string \<Rightarrow> string option
    \<Rightarrow> module_error + (string \<times> string option) list" where
  "insert_name names roots name p =
    (if name \<in> set roots then
       (if map_of names name \<noteq> None then Inl (AmbiguousName name) else Inr (map_insert name p names))
     else Inr names)"

section \<open>Dependency closure\<close>

type_synonym definitions = "(string \<times> string list) list"

text \<open>The loop over one root's stack. An entry that is marked leaves its node.\<close>

function closure_loop ::
  "definitions \<Rightarrow> string list \<Rightarrow> string list \<Rightarrow> (string \<times> bool) list
    \<Rightarrow> module_error + (string list \<times> string list)" where
  "closure_loop defs done active stack =
    (case stack of
       [] \<Rightarrow> Inr (done, active)
     | (p, leaving) # rest \<Rightarrow>
        if leaving then closure_loop defs (set_insert p done) (filter (\<lambda>q. q \<noteq> p) active) rest
        else if p \<in> set done then closure_loop defs done active rest
        else if p \<in> set active then Inl (DependencyCycle p)
        else (case map_of defs p of
               None \<Rightarrow> Inl (NoEntry p)
             | Some deps \<Rightarrow>
                closure_loop defs done (set_insert p active)
                  (fold (\<lambda>d st. (d, False) # st) (rev deps) ((p, True) # rest))))"
  by pat_completeness auto

definition unvisited :: "definitions \<Rightarrow> string list \<Rightarrow> string list \<Rightarrow> string set" where
  "unvisited defs done active = fst ` set defs - (set done \<union> set active)"

lemma unvisited_leave:
  "card (unvisited defs (set_insert p done) (filter (\<lambda>q. q \<noteq> p) active)) \<le> card (unvisited defs done active)"
  unfolding unvisited_def by (rule card_mono) auto

lemma unvisited_enter:
  assumes "map_of defs p = Some deps" "p \<notin> set done" "p \<notin> set active"
  shows "card (unvisited defs done (set_insert p active)) < card (unvisited defs done active)"
proof (rule psubset_card_mono)
  have "p \<in> fst ` set defs" using assms(1) by (force dest: map_of_SomeD)
  then show "unvisited defs done (set_insert p active) \<subset> unvisited defs done active"
    using assms(2,3) by (auto simp: unvisited_def)
qed (simp add: unvisited_def)

termination closure_loop
proof (relation "measures [\<lambda>(defs, done, active, _). card (unvisited defs done active),
    \<lambda>(_, _, _, stack). length stack]", goal_cases)
  case (2 defs dn active stack x rest p leaving)
  then show ?case using unvisited_leave [of defs p dn active] by (auto simp: le_less)
next
  case (4 defs dn active stack x rest p leaving deps)
  then show ?case using unvisited_enter [of defs p deps dn active] by simp
qed auto

declare closure_loop.simps [simp del]

lemma closure_loop_Nil: "closure_loop defs dn active [] = Inr (dn, active)"
  and closure_loop_leave: "closure_loop defs dn active ((p, True) # rest) =
    closure_loop defs (set_insert p dn) (filter (\<lambda>q. q \<noteq> p) active) rest"
  and closure_loop_skip: "p \<in> set dn \<Longrightarrow>
    closure_loop defs dn active ((p, False) # rest) = closure_loop defs dn active rest"
  and closure_loop_cycle: "p \<notin> set dn \<Longrightarrow> p \<in> set active \<Longrightarrow>
    closure_loop defs dn active ((p, False) # rest) = Inl (DependencyCycle p)"
  and closure_loop_enter: "p \<notin> set dn \<Longrightarrow> p \<notin> set active \<Longrightarrow> map_of defs p = Some deps \<Longrightarrow>
    closure_loop defs dn active ((p, False) # rest) =
      closure_loop defs dn (set_insert p active) (fold (\<lambda>d st. (d, False) # st) (rev deps) ((p, True) # rest))"
  by (subst closure_loop.simps; simp)+

lemmas closure_loop_steps =
  closure_loop_Nil closure_loop_leave closure_loop_skip closure_loop_cycle closure_loop_enter

definition closure :: "definitions \<Rightarrow> string list \<Rightarrow> module_error + string list" where
  "closure defs roots =
    rbind (try_fold (\<lambda>(done, active) root. closure_loop defs done active [(root, False)])
      ([], []) roots) (\<lambda>(done, _). Inr done)"


subsection \<open>The closure is the set of reachable modules\<close>

definition depends :: "definitions \<Rightarrow> (string \<times> string) set" where
  "depends defs = {(p, d). \<exists>deps. map_of defs p = Some deps \<and> d \<in> set deps}"

definition index_closed :: "definitions \<Rightarrow> bool" where
  "index_closed defs \<longleftrightarrow> (\<forall>(p, deps)\<in>set defs. set deps \<subseteq> fst ` set defs)"

lemma index_closed_depends: "index_closed defs \<Longrightarrow> (p, d) \<in> depends defs \<Longrightarrow> d \<in> fst ` set defs"
  by (auto simp: index_closed_def depends_def dest!: map_of_SomeD)

lemma Image_rtrancl_closed: "r `` X \<subseteq> X \<Longrightarrow> r\<^sup>* `` X = X"
  by (rule Image_closed_trancl)

lemma rtrancl_Image_step: "r `` (r\<^sup>* `` X) \<subseteq> r\<^sup>* `` X"
  by (auto intro: rtrancl_into_rtrancl)

text \<open>What the entries of a stack owe each other: below a mark, the node's dependencies are done
  or still above it, and everything above it depends on it.\<close>

fun stack_ok :: "(string \<times> string) set \<Rightarrow> string set \<Rightarrow> string set \<Rightarrow> (string \<times> bool) list \<Rightarrow> bool" where
  "stack_ok E D abv [] = True"
| "stack_ok E D abv ((p, leaving) # rest) =
    ((leaving \<longrightarrow> E `` {p} \<subseteq> D \<union> abv \<and> abv \<subseteq> E\<^sup>+ `` {p})
     \<and> stack_ok E D (insert p abv) rest)"

definition marks :: "(string \<times> bool) list \<Rightarrow> string list" where
  "marks stack = map fst (filter snd stack)"

lemma marks_simps [simp]:
  "marks [] = []" "marks ((p, True) # st) = p # marks st" "marks ((p, False) # st) = marks st"
  by (simp_all add: marks_def)

lemma marks_mark: "p \<in> set (marks st) \<longleftrightarrow> (p, True) \<in> set st"
  by (force simp: marks_def)

lemma stack_ok_weaken:
  "stack_ok E D abv st \<Longrightarrow> D \<subseteq> D' \<Longrightarrow> abv \<subseteq> D' \<union> abv' \<Longrightarrow> abv' \<subseteq> E\<^sup>* `` abv \<Longrightarrow>
    stack_ok E D' abv' st"
proof (induction E D abv st arbitrary: abv' rule: stack_ok.induct)
  case (2 E D abv p leaving rest)
  have "stack_ok E D' (insert p abv') rest"
    by (rule "2.IH") (use 2 in auto)
  moreover have "abv' \<subseteq> E\<^sup>+ `` {p}" if "abv \<subseteq> E\<^sup>+ `` {p}"
  proof
    fix x assume "x \<in> abv'"
    then obtain y where "y \<in> abv" "(y, x) \<in> E\<^sup>*" using 2 by blast
    with that show "x \<in> E\<^sup>+ `` {p}" by (meson ImageE Image_singleton_iff in_mono trancl_rtrancl_trancl)
  qed
  ultimately show ?case using 2 by auto
qed simp

lemma stack_ok_mark:
  "stack_ok E D abv st \<Longrightarrow> (p, True) \<in> set st \<Longrightarrow> abv \<subseteq> E\<^sup>+ `` {p}"
proof (induction E D abv st rule: stack_ok.induct)
  case (2 E D abv q leaving rest)
  then show ?case by (cases "(p, True) = (q, leaving)") auto
qed simp

text \<open>The invariant of the search from the roots \<open>R\<close>.\<close>

definition search_ok ::
  "definitions \<Rightarrow> string set \<Rightarrow> string list \<Rightarrow> string list \<Rightarrow> (string \<times> bool) list \<Rightarrow> bool" where
  "search_ok defs R dn active stack \<longleftrightarrow>
     ascending dn \<and> depends defs `` set dn \<subseteq> set dn
     \<and> (\<forall>x\<in>set dn. (x, x) \<notin> (depends defs)\<^sup>+)
     \<and> set dn \<union> fst ` set stack \<subseteq> (depends defs)\<^sup>* `` R
     \<and> set dn \<union> fst ` set stack \<subseteq> fst ` set defs
     \<and> set active = set (marks stack) \<and> distinct (marks stack) \<and> set active \<inter> set dn = {}
     \<and> stack_ok (depends defs) (set dn) {} stack"

lemma search_leave:
  assumes "search_ok defs R dn active ((p, True) # rest)"
  shows "search_ok defs R (set_insert p dn) (filter (\<lambda>q. q \<noteq> p) active) rest"
proof -
  let ?E = "depends defs"
  from assms have E: "?E `` {p} \<subseteq> set dn" "?E `` set dn \<subseteq> set dn" "p \<notin> set dn"
    by (auto simp: search_ok_def)
  then have "?E `` insert p (set dn) \<subseteq> insert p (set dn)" by auto
  moreover have "(p, p) \<notin> ?E\<^sup>+"
  proof
    assume "(p, p) \<in> ?E\<^sup>+"
    then obtain q where "(p, q) \<in> ?E" "(q, p) \<in> ?E\<^sup>*" by (meson tranclD)
    then have "p \<in> ?E\<^sup>* `` set dn" using E(1) by blast
    then show False using E(2,3) Image_rtrancl_closed by blast
  qed
  moreover have "stack_ok ?E (insert p (set dn)) {} rest"
    by (rule stack_ok_weaken [of _ "set dn" "{p}"]) (use assms in \<open>auto simp: search_ok_def\<close>)
  ultimately show ?thesis
    using assms by (auto simp: search_ok_def ascending_set_insert)
qed

lemma search_skip:
  assumes "search_ok defs R dn active ((p, False) # rest)" "p \<in> set dn"
  shows "search_ok defs R dn active rest"
proof -
  have "stack_ok (depends defs) (set dn) {} rest"
    by (rule stack_ok_weaken [of _ "set dn" "{p}"]) (use assms in \<open>auto simp: search_ok_def\<close>)
  then show ?thesis using assms by (auto simp: search_ok_def)
qed

lemma push_all: "fold (\<lambda>d st. (d, False) # st) (rev ds) st = map (\<lambda>d. (d, False)) ds @ st"
  by (induction ds arbitrary: st) (auto simp: fold_append)

lemma stack_ok_push:
  "stack_ok E D abv (map (\<lambda>d. (d, False)) ds @ st) = stack_ok E D (set ds \<union> abv) st"
  by (induction ds arbitrary: abv) auto

lemma marks_push: "marks (map (\<lambda>d. (d, False)) ds @ st) = marks st"
  by (induction ds) auto

lemma search_enter:
  assumes "search_ok defs R dn active ((p, False) # rest)" "p \<notin> set dn" "p \<notin> set active"
    "map_of defs p = Some deps" "index_closed defs"
  shows "search_ok defs R dn (set_insert p active) (map (\<lambda>d. (d, False)) deps @ (p, True) # rest)"
proof -
  let ?E = "depends defs"
  have deps: "?E `` {p} = set deps" using assms(4) by (auto simp: depends_def)
  have "stack_ok ?E (set dn) (insert p (set deps)) rest"
    by (rule stack_ok_weaken [of _ "set dn" "{p}"]) (use assms deps in \<open>auto simp: search_ok_def\<close>)
  then have "stack_ok ?E (set dn) {} (map (\<lambda>d. (d, False)) deps @ (p, True) # rest)"
    using deps by (auto simp: stack_ok_push)
  moreover have "set deps \<subseteq> ?E\<^sup>* `` R"
    using assms(1) deps by (auto simp: search_ok_def intro: rtrancl_into_rtrancl)
  moreover have "set deps \<subseteq> fst ` set defs"
    using assms(5) deps index_closed_depends by blast
  ultimately show ?thesis
    using assms(1-3) by (auto simp: search_ok_def marks_push image_Un)
qed

lemma search_cycle:
  assumes "search_ok defs R dn active ((p, False) # rest)" "p \<in> set active"
  shows "(p, p) \<in> (depends defs)\<^sup>+"
proof -
  have "(p, True) \<in> set rest" using assms by (auto simp: search_ok_def marks_mark)
  moreover have "stack_ok (depends defs) (set dn) {p} rest" using assms(1) by (simp add: search_ok_def)
  ultimately show ?thesis using stack_ok_mark by blast
qed

lemma closure_loop_result:
  assumes "search_ok defs R dn active stack" "index_closed defs"
  shows "case closure_loop defs dn active stack of
      Inr (dn', active') \<Rightarrow> search_ok defs R dn' active' [] \<and> set dn \<union> fst ` set stack \<subseteq> set dn'
    | Inl e \<Rightarrow> \<exists>p. e = DependencyCycle p \<and> p \<in> (depends defs)\<^sup>* `` R \<and> (p, p) \<in> (depends defs)\<^sup>+"
  using assms
proof (induction defs dn active stack rule: closure_loop.induct)
  case (1 defs dn active stack)
  show ?case
  proof (cases stack)
    case Nil
    then show ?thesis using "1.prems" by (simp add: closure_loop.simps [of defs])
  next
    case (Cons a rest)
    obtain p leaving where a: "a = (p, leaving)" by (cases a)
    note stack = Cons [unfolded a]
    have p: "p \<in> fst ` set defs" "p \<in> (depends defs)\<^sup>* `` R"
      using "1.prems"(1) by (auto simp: stack search_ok_def)
    consider "leaving" | "\<not> leaving" "p \<in> set dn" | "\<not> leaving" "p \<notin> set dn" "p \<in> set active"
      | deps where "\<not> leaving" "p \<notin> set dn" "p \<notin> set active" "map_of defs p = Some deps"
      using p(1) by (metis map_of_eq_None_iff not_None_eq)
    then show ?thesis
    proof cases
      case 1
      with "1.prems"(1) have ok: "search_ok defs R (set_insert p dn) (filter (\<lambda>q. q \<noteq> p) active) rest"
        by (simp add: stack search_leave)
      from "1.IH"(1) [OF stack refl 1 ok "1.prems"(2)] 1 show ?thesis
        by (simp add: stack closure_loop_leave) (auto simp: stack split: sum.splits)
    next
      case 2
      with "1.prems"(1) have ok: "search_ok defs R dn active rest" by (auto simp: stack intro: search_skip)
      from "1.IH"(2) [OF stack refl 2 ok "1.prems"(2)] 2 show ?thesis
        by (simp add: stack closure_loop_skip) (auto simp: stack split: sum.splits)
    next
      case 3
      with "1.prems"(1) have "(p, p) \<in> (depends defs)\<^sup>+" by (simp add: stack search_cycle)
      with 3 p(2) show ?thesis by (simp add: stack closure_loop_cycle)
    next
      case (4 deps)
      with "1.prems" have ok:
        "search_ok defs R dn (set_insert p active) (map (\<lambda>d. (d, False)) deps @ (p, True) # rest)"
        by (simp add: stack search_enter)
      from "1.IH"(3) [OF stack refl 4, unfolded push_all, OF ok "1.prems"(2)] 4 show ?thesis
        by (simp add: stack closure_loop_enter push_all) (auto simp: stack split: sum.splits)
    qed
  qed
qed

text \<open>The search over all roots.\<close>

lemma search_start: "ascending dn \<Longrightarrow> search_ok defs R dn [] [] \<Longrightarrow> r \<in> R \<Longrightarrow> r \<in> fst ` set defs \<Longrightarrow>
    search_ok defs R dn [] [(r, False)]"
  by (auto simp: search_ok_def)

lemma search_done: "search_ok defs R dn active [] \<Longrightarrow> active = []"
  by (simp add: search_ok_def)

lemma closure_fold:
  assumes "index_closed defs" "search_ok defs R dn [] []" "set roots \<subseteq> R" "R \<subseteq> fst ` set defs"
  shows "case try_fold (\<lambda>(dn, active) root. closure_loop defs dn active [(root, False)]) (dn, []) roots of
      Inr (dn', active') \<Rightarrow> search_ok defs R dn' active' [] \<and> set dn \<union> set roots \<subseteq> set dn'
    | Inl e \<Rightarrow> \<exists>p. e = DependencyCycle p \<and> p \<in> (depends defs)\<^sup>* `` R \<and> (p, p) \<in> (depends defs)\<^sup>+"
  using assms
proof (induction roots arbitrary: dn)
  case (Cons r roots)
  have "search_ok defs R dn [] [(r, False)]"
    using Cons.prems by (auto simp: search_ok_def)
  note loop = closure_loop_result [OF this Cons.prems(1)]
  show ?case
  proof (cases "closure_loop defs dn [] [(r, False)]")
    case (Inl e)
    with loop show ?thesis by simp
  next
    case (Inr q)
    obtain dn1 active1 where q: "q = (dn1, active1)" by (cases q)
    from loop have ok: "search_ok defs R dn1 [] []" "set dn \<subseteq> set dn1" "r \<in> set dn1" "active1 = []"
      using search_done by (auto simp: Inr q)
    from Cons.IH [OF Cons.prems(1) ok(1) _ Cons.prems(4)] Cons.prems(3) ok(2-4) show ?thesis
      by (simp add: Inr q) (auto split: sum.splits)
  qed
qed simp

lemma closure_result:
  assumes "index_closed defs" "set roots \<subseteq> fst ` set defs"
  shows "case closure defs roots of
      Inr dn \<Rightarrow> ascending dn \<and> set dn = (depends defs)\<^sup>* `` set roots \<and> (\<forall>x\<in>set dn. (x, x) \<notin> (depends defs)\<^sup>+)
    | Inl e \<Rightarrow> \<exists>p. e = DependencyCycle p \<and> p \<in> (depends defs)\<^sup>* `` set roots \<and> (p, p) \<in> (depends defs)\<^sup>+"
proof -
  have "search_ok defs (set roots) [] [] []" by (simp add: search_ok_def)
  note fold = closure_fold [OF assms(1) this order_refl assms(2)]
  have "set dn = (depends defs)\<^sup>* `` set roots"
    if "search_ok defs (set roots) dn active []" "set roots \<subseteq> set dn" for dn active
  proof
    show "set dn \<subseteq> (depends defs)\<^sup>* `` set roots" using that(1) by (simp add: search_ok_def)
    have "(depends defs)\<^sup>* `` set dn = set dn"
      using that(1) by (intro Image_rtrancl_closed) (simp add: search_ok_def)
    then show "(depends defs)\<^sup>* `` set roots \<subseteq> set dn" using that(2) by blast
  qed
  with fold show ?thesis
    by (auto simp: closure_def search_ok_def split: sum.splits)
qed

section \<open>The module tree\<close>

record file_meta =
  fm_is_file :: bool
  fm_is_dir :: bool
  fm_is_symlink :: bool
  fm_len :: nat

text \<open>An open file: \<open>File::metadata\<close>, and what \<open>take(n).read_to_end\<close> gets.\<close>

record open_file =
  of_metadata :: "file_meta option"
  of_read :: "nat \<Rightarrow> bytes option"

datatype stat_result = Found | NotFound | StatFailed

record filesystem =
  fs_canonicalize :: "path \<Rightarrow> path option"
  fs_is_dir :: "path \<Rightarrow> bool"
  fs_stat :: "path \<Rightarrow> stat_result"
  fs_symlink_metadata :: "path \<Rightarrow> file_meta option"
  fs_open :: "path \<Rightarrow> open_file option"

text \<open>\<open>PathBuf::push\<close> of a text without a slash.\<close>

definition push_part :: "path \<Rightarrow> string \<Rightarrow> path" where
  "push_part p part = p @ component_of (p = []) part"

definition posix_path :: "string \<Rightarrow> path" where
  "posix_path p = foldl push_part [] (split_on (CHR ''/'') p)"

definition validate_release :: "string \<Rightarrow> module_error + unit" where
  "validate_release release = map_err (UnsafeRelease release) (validate_component release)"

definition canonical_tree :: "filesystem \<Rightarrow> path \<Rightarrow> module_error + path" where
  "canonical_tree fs tree =
    rbind (ok_or (IoError tree) (fs_canonicalize fs tree)) (\<lambda>canonical.
    if \<not> fs_is_dir fs canonical then Inl (NotDirectory tree) else Inr canonical)"

definition candidate_step :: "filesystem \<Rightarrow> string \<Rightarrow> path list \<Rightarrow> path \<Rightarrow> module_error + path list" where
  "candidate_step fs release candidates root =
    (let p = push_part root release in
     case fs_stat fs p of
       Found \<Rightarrow> rbind (canonical_tree fs p) (\<lambda>c. Inr (List.insert c candidates))
     | NotFound \<Rightarrow> Inr candidates
     | StatFailed \<Rightarrow> Inl (IoError p))"

definition discover :: "filesystem \<Rightarrow> string \<Rightarrow> path list \<Rightarrow> module_error + path" where
  "discover fs release roots =
    rbind (validate_release release) (\<lambda>_.
    rbind (try_fold (candidate_step fs release) [] roots) (\<lambda>candidates.
    case candidates of
      [c] \<Rightarrow> Inr c
    | _ \<Rightarrow> Inl (TreeCount release (length candidates))))"

text \<open>One component of \<open>checked_file\<close>; \<open>final\<close> says that it is the last one.\<close>

definition entry_step :: "filesystem \<Rightarrow> path \<Rightarrow> string \<times> bool \<Rightarrow> module_error + path" where
  "entry_step fs p c = (case c of (component, final) \<Rightarrow>
    let p = push_part p component in
    rbind (ok_or (IoError p) (fs_symlink_metadata fs p)) (\<lambda>metadata.
    let expected = (if final then fm_is_file metadata else fm_is_dir metadata) in
    if fm_is_symlink metadata \<or> \<not> expected then Inl (NonregularEntry p) else Inr p))"

definition checked_file :: "filesystem \<Rightarrow> path \<Rightarrow> string \<Rightarrow> module_error + path" where
  "checked_file fs tree relative =
    rbind (validate_path relative) (\<lambda>_.
    let components = split_on (CHR ''/'') relative in
    rbind (try_fold (entry_step fs) tree
      (zip components (map (\<lambda>index. index + 1 = length components) [0..<length components]))) (\<lambda>p.
    rbind (ok_or (IoError p) (fs_canonicalize fs p)) (\<lambda>canonical.
    if \<not> starts_with tree canonical then Inl (EscapesTree p) else Inr p)))"

definition read_file :: "filesystem \<Rightarrow> path \<Rightarrow> string \<Rightarrow> module_error + bytes" where
  "read_file fs tree relative =
    rbind (checked_file fs tree relative) (\<lambda>p.
    rbind (ok_or (IoError p) (fs_open fs p)) (\<lambda>file.
    rbind (ok_or (IoError p) (of_metadata file)) (\<lambda>metadata.
    if \<not> fm_is_file metadata \<or> 2 ^ 32 - 1 < fm_len metadata then Inl (NotNewcSized p)
    else
    rbind (ok_or (IoError p) (of_read file (2 ^ 32))) (\<lambda>bytes.
    if 2 ^ 32 \<le> length bytes then Inl (ExceedsNewc p) else Inr bytes))))"

definition metadata_file :: "filesystem \<Rightarrow> path \<Rightarrow> string \<Rightarrow> module_error + string" where
  "metadata_file fs tree name =
    rbind (read_file fs tree name) (\<lambda>bytes.
    if utf8_ok (bytes_str bytes) then Inr (bytes_str bytes) else Inl (InvalidUtf8 name))"

section \<open>Resolving a selection (resolve)\<close>

record module_file =
  mf_relative :: path
  mf_bytes :: bytes
  mf_is_root :: bool

record selection =
  sel_tree :: path
  sel_builtins :: "string list"
  sel_files :: "module_file list"

type_synonym name_index = "(string \<times> string option) list"

definition name_step :: "string list \<Rightarrow> string \<Rightarrow> module_error + string list" where
  "name_step roots name = rbind (validate_name name) (\<lambda>n. Inr (set_insert n roots))"

definition edge_step :: "string list \<Rightarrow> string \<Rightarrow> module_error + string list" where
  "edge_step edges dependency =
    rbind (module_path dependency) (\<lambda>_.
    if dependency \<in> set edges then Inl (DuplicateDependency dependency)
    else Inr (set_insert dependency edges))"

definition dep_line :: "string list \<Rightarrow> definitions \<times> name_index \<Rightarrow> string \<Rightarrow> module_error + (definitions \<times> name_index)" where
  "dep_line roots st line = (case st of (definitions, names) \<Rightarrow>
    if line = [] then Inr (definitions, names)
    else
    rbind (ok_or (MalformedLine line) (split_once (CHR '':'') line)) (\<lambda>(p, dependencies).
    rbind (module_path p) (\<lambda>name.
    rbind (try_fold edge_step [] (split_ascii_whitespace dependencies)) (\<lambda>edges.
    if map_of definitions p \<noteq> None then Inl (DuplicateDefinition p)
    else
    rbind (insert_name names roots name (Some p)) (\<lambda>names.
    Inr (map_insert p edges definitions, names))))))"

definition builtin_line :: "string list \<Rightarrow> name_index \<Rightarrow> string \<Rightarrow> module_error + name_index" where
  "builtin_line roots names line =
    (if line = [] then Inr names
     else rbind (module_path line) (\<lambda>name. insert_name names roots name None))"

definition check_definition :: "filesystem \<Rightarrow> path \<Rightarrow> definitions \<Rightarrow> unit \<Rightarrow> string \<times> string list \<Rightarrow> module_error + unit" where
  "check_definition fs tree definitions u d = (case d of (p, dependencies) \<Rightarrow>
    rbind (checked_file fs tree p) (\<lambda>_.
    try_fold (\<lambda>u dependency.
      if map_of definitions dependency = None then Inl (MissingDefinition dependency p) else Inr u)
      () dependencies))"

definition root_step ::
  "name_index \<Rightarrow> string list \<times> string list \<Rightarrow> string \<Rightarrow> module_error + (string list \<times> string list)" where
  "root_step names st root = (case st of (builtins, selected) \<Rightarrow>
    case map_of names root of
      Some (Some p) \<Rightarrow> Inr (builtins, set_insert p selected)
    | Some None \<Rightarrow> Inr (builtins @ [root], selected)
    | None \<Rightarrow> Inl (UnknownModule root))"

definition file_entry ::
  "filesystem \<Rightarrow> path \<Rightarrow> string list \<Rightarrow> module_file list \<Rightarrow> string \<Rightarrow> module_error + module_file list" where
  "file_entry fs tree selected files relative =
    rbind (read_file fs tree relative) (\<lambda>bytes.
    Inr (files @ [\<lparr>mf_relative = posix_path relative, mf_bytes = bytes, mf_is_root = relative \<in> set selected\<rparr>]))"

definition default_trees :: "path list" where
  "default_trees = [path_components ''/usr/lib/modules'', path_components ''/lib/modules'']"

text \<open>The two index files, checked as a whole.\<close>

definition module_index :: "filesystem \<Rightarrow> path \<Rightarrow> string list \<Rightarrow> module_error + (definitions \<times> name_index)" where
  "module_index fs tree roots =
    rbind (metadata_file fs tree ''modules.dep'') (\<lambda>dep.
    rbind (try_fold (dep_line roots) ([], []) (str_lines dep)) (\<lambda>(definitions, names).
    rbind (metadata_file fs tree ''modules.builtin'') (\<lambda>builtin.
    rbind (try_fold (builtin_line roots) names (str_lines builtin)) (\<lambda>names.
    rbind (try_fold (check_definition fs tree definitions) () definitions) (\<lambda>_.
    rbind (closure definitions (map fst definitions)) (\<lambda>_.
    Inr (definitions, names)))))))"

definition resolve :: "filesystem \<Rightarrow> string \<Rightarrow> path option \<Rightarrow> string list \<Rightarrow> module_error + selection" where
  "resolve fs release tree_override roots =
    rbind (validate_release release) (\<lambda>_.
    rbind (try_fold name_step [] roots) (\<lambda>roots.
    rbind (case tree_override of Some tree \<Rightarrow> canonical_tree fs tree
             | None \<Rightarrow> discover fs release default_trees) (\<lambda>tree.
    rbind (module_index fs tree roots) (\<lambda>(definitions, names).
    rbind (try_fold (root_step names) ([], []) roots) (\<lambda>(builtins, selected).
    rbind (closure definitions selected) (\<lambda>relatives.
    rbind (try_fold (file_entry fs tree selected) [] relatives) (\<lambda>files.
    Inr \<lparr>sel_tree = tree, sel_builtins = builtins, sel_files = files\<rparr>)))))))"

section \<open>What a resolved selection is\<close>

text \<open>The content of the index, read off the texts: the paths that \<open>modules.dep\<close> defines and
  the dependencies it lists, the names the command line asks for and the names
  \<open>modules.builtin\<close> holds.\<close>

definition line_defines :: "string \<Rightarrow> string \<Rightarrow> string list \<Rightarrow> bool" where
  "line_defines l p ds \<longleftrightarrow> (\<exists>r. split_once (CHR '':'') l = Some (p, r) \<and> split_ascii_whitespace r = ds)"

definition dep_paths :: "string list \<Rightarrow> string set" where
  "dep_paths ls = {p. \<exists>l ds. l \<in> set ls \<and> line_defines l p ds}"

definition dep_edges :: "string list \<Rightarrow> (string \<times> string) set" where
  "dep_edges ls = {(p, d). \<exists>l ds. l \<in> set ls \<and> line_defines l p ds \<and> d \<in> set ds}"

definition requested :: "string list \<Rightarrow> string set" where
  "requested roots = {n. \<exists>r\<in>set roots. validate_name r = Inr n}"

definition builtin_names :: "string list \<Rightarrow> string set" where
  "builtin_names ls = {n. \<exists>l\<in>set ls. l \<noteq> [] \<and> module_path l = Inr n}"

lemma line_sets_simps [simp]:
  "dep_paths [] = {}" "dep_edges [] = {}" "requested [] = {}" "builtin_names [] = {}"
  "dep_paths (ls @ [[]]) = dep_paths ls" "dep_edges (ls @ [[]]) = dep_edges ls"
  by (auto simp: dep_paths_def dep_edges_def requested_def builtin_names_def line_defines_def)

lemma dep_sets_snoc:
  assumes "split_once (CHR '':'') l = Some (p, r)"
  shows "dep_paths (ls @ [l]) = insert p (dep_paths ls)"
    and "dep_edges (ls @ [l]) = dep_edges ls \<union> {p} \<times> set (split_ascii_whitespace r)"
  using assms by (auto simp: dep_paths_def dep_edges_def line_defines_def)

lemma edge_fold: "try_fold edge_step es ds = Inr es' \<Longrightarrow> set es' = set es \<union> set ds"
  by (induction ds arbitrary: es) (auto simp: edge_step_def result_simps split: if_splits)

lemma depends_insert:
  "map_of defs p = None \<Longrightarrow> depends (map_insert p es defs) = depends defs \<union> {p} \<times> set es"
  by (auto simp: depends_def btree.lookup_update split: if_splits)

definition index_ok :: "string list \<Rightarrow> string list \<Rightarrow> definitions \<times> name_index \<Rightarrow> bool" where
  "index_ok R ls st \<longleftrightarrow> (case st of (defs, names) \<Rightarrow>
     map_ok defs \<and> fst ` set defs = dep_paths ls \<and> depends defs = dep_edges ls
     \<and> (\<forall>r v. map_of names r = Some v \<longleftrightarrow>
          (\<exists>p. v = Some p \<and> p \<in> dep_paths ls \<and> r \<in> set R \<and> module_path p = Inr r)))"

lemma insert_name_Inr:
  assumes "insert_name names R n v = Inr names'"
  shows "map_of names' r = Some w \<longleftrightarrow> map_of names r = Some w \<or> (r = n \<and> w = v \<and> n \<in> set R)"
  using assms by (auto simp: insert_name_def btree.lookup_update split: if_splits)

lemma dep_line_ok:
  assumes "index_ok R ls st" "dep_line R st l = Inr st'"
  shows "index_ok R (ls @ [l]) st'"
proof (cases "l = []")
  case True
  with assms(2) have "st' = st" by (cases st) (simp add: dep_line_def)
  with assms(1) True show ?thesis by (simp add: index_ok_def)
next
  case False
  obtain defs names where st: "st = (defs, names)" by (cases st)
  from assms(2) False obtain p r n es names' where
    l: "split_once (CHR '':'') l = Some (p, r)" "module_path p = Inr n"
      "try_fold edge_step [] (split_ascii_whitespace r) = Inr es" "map_of defs p = None"
      "insert_name names R n (Some p) = Inr names'" "st' = (map_insert p es defs, names')"
    by (auto simp: st dep_line_def result_simps split: if_splits)
  from edge_fold [OF l(3)] have es: "set es = set (split_ascii_whitespace r)" by simp
  show ?thesis
    using assms(1) l(2) es dep_sets_snoc [OF l(1), of ls]
    by (auto simp: st l(6) index_ok_def map_ok_insert depends_insert [OF l(4)] insert_name_Inr [OF l(5)])
qed

lemma dep_fold_ok:
  "try_fold (dep_line R) ([], []) ls = Inr st \<Longrightarrow> index_ok R ls st"
proof (induction ls arbitrary: st rule: rev_induct)
  case Nil
  then show ?case by (auto simp: index_ok_def depends_def)
next
  case (snoc l ls)
  then show ?case by (auto simp: try_fold_append try_fold_single result_simps intro: dep_line_ok)
qed

lemma builtin_fold:
  "try_fold (builtin_line R) names ls = Inr names' \<Longrightarrow>
    map_of names' r = Some v \<longleftrightarrow>
      map_of names r = Some v \<or> (v = None \<and> r \<in> set R \<inter> builtin_names ls)"
proof (induction ls arbitrary: names' v rule: rev_induct)
  case (snoc l ls)
  from snoc.prems obtain names1 where n1: "try_fold (builtin_line R) names ls = Inr names1"
    "builtin_line R names1 l = Inr names'"
    by (auto simp: try_fold_append try_fold_single result_simps)
  show ?case
  proof (cases "l = []")
    case True
    with n1(2) snoc.IH [OF n1(1)] show ?thesis by (auto simp: builtin_line_def builtin_names_def)
  next
    case False
    with n1(2) obtain n where n: "module_path l = Inr n" "insert_name names1 R n None = Inr names'"
      by (auto simp: builtin_line_def result_simps)
    then have "builtin_names (ls @ [l]) = insert n (builtin_names ls)"
      using False by (auto simp: builtin_names_def)
    with snoc.IH [OF n1(1)] show ?thesis by (auto simp: insert_name_Inr [OF n(2)])
  qed
qed simp

lemma name_step_Inr: "name_step R r = Inr R' \<longleftrightarrow> (\<exists>n. validate_name r = Inr n \<and> R' = set_insert n R)"
  by (auto simp: name_step_def result_simps)

lemma name_fold:
  "try_fold name_step R0 roots = Inr R \<Longrightarrow> ascending R0 \<Longrightarrow>
    ascending R \<and> set R = set R0 \<union> requested roots \<and> (\<forall>r\<in>set roots. \<exists>n. validate_name r = Inr n)"
proof (induction roots arbitrary: R0)
  case (Cons r roots)
  from Cons.prems(1) obtain n where n: "validate_name r = Inr n"
    "try_fold name_step (set_insert n R0) roots = Inr R"
    by (auto simp: name_step_Inr rbind_eq_Inr)
  from Cons.IH [OF n(2) ascending_set_insert [OF Cons.prems(2)]] n(1) show ?case
    by (auto simp: requested_def)
qed simp

lemma root_step_Some:
  "map_of names r = Some None \<Longrightarrow> root_step names (b, s) r = Inr (b @ [r], s)"
  "map_of names r = Some (Some p) \<Longrightarrow> root_step names (b, s) r = Inr (b, set_insert p s)"
  "map_of names r = None \<Longrightarrow> root_step names (b, s) r = Inl (UnknownModule r)"
  by (simp_all add: root_step_def)

lemma root_fold:
  "try_fold (root_step names) (b0, s0) R = Inr (b, s) \<Longrightarrow>
    b = b0 @ filter (\<lambda>r. map_of names r = Some None) R
    \<and> set s = set s0 \<union> {p. \<exists>r\<in>set R. map_of names r = Some (Some p)}
    \<and> (\<forall>r\<in>set R. map_of names r \<noteq> None)"
proof (induction R arbitrary: b0 s0)
  case (Cons r R)
  show ?case
  proof (cases "map_of names r")
    case None
    with Cons.prems show ?thesis by (simp add: root_step_Some)
  next
    case (Some v)
    show ?thesis
    proof (cases v)
      case None
      with Some Cons.prems have "try_fold (root_step names) (b0 @ [r], s0) R = Inr (b, s)"
        by (simp add: root_step_Some)
      from Cons.IH [OF this] Some None show ?thesis by simp
    next
      case (Some p)
      with \<open>map_of names r = Some v\<close> have r: "map_of names r = Some (Some p)" by simp
      with Cons.prems have "try_fold (root_step names) (b0, set_insert p s0) R = Inr (b, s)"
        by (simp add: root_step_Some)
      from Cons.IH [OF this] r show ?thesis by auto
    qed
  qed
qed simp

lemma check_definition_Inr:
  "check_definition fs tree defs u (p, deps) = Inr u' \<longleftrightarrow>
    (\<exists>q. checked_file fs tree p = Inr q) \<and> set deps \<subseteq> fst ` set defs"
proof -
  have "try_fold (\<lambda>u y. if map_of defs y = None then Inl (MissingDefinition y p) else Inr u) u1 ys = Inr u2
      \<longleftrightarrow> set ys \<subseteq> fst ` set defs" for ys and u1 u2 :: unit
    by (induction ys) (auto simp: map_of_eq_None_iff)
  then show ?thesis by (auto simp: check_definition_def rbind_eq_Inr)
qed

lemma check_fold:
  "try_fold (check_definition fs tree defs) () ds = Inr u \<Longrightarrow>
    \<forall>(p, deps)\<in>set ds. (\<exists>q. checked_file fs tree p = Inr q) \<and> set deps \<subseteq> fst ` set defs"
  by (induction ds) (auto simp: rbind_eq_Inr check_definition_Inr)

definition entry_of :: "filesystem \<Rightarrow> path \<Rightarrow> string list \<Rightarrow> string \<Rightarrow> module_file \<Rightarrow> bool" where
  "entry_of fs tree selected p f \<longleftrightarrow> mf_relative f = posix_path p
     \<and> read_file fs tree p = Inr (mf_bytes f) \<and> (mf_is_root f \<longleftrightarrow> p \<in> set selected)"

lemma file_entry_Inr:
  "file_entry fs tree selected files p = Inr files' \<longleftrightarrow>
    (\<exists>f. entry_of fs tree selected p f \<and> files' = files @ [f])"
  by (force simp: file_entry_def entry_of_def rbind_eq_Inr)

lemma file_fold:
  "try_fold (file_entry fs tree selected) fs0 ps = Inr files \<Longrightarrow>
    \<exists>fs1. files = fs0 @ fs1 \<and> list_all2 (entry_of fs tree selected) ps fs1"
proof (induction ps arbitrary: fs0)
  case (Cons p ps)
  from Cons.prems obtain f where f: "entry_of fs tree selected p f"
    "try_fold (file_entry fs tree selected) (fs0 @ [f]) ps = Inr files"
    by (auto simp: file_entry_Inr rbind_eq_Inr)
  from Cons.IH [OF f(2)] f(1) show ?case by auto
qed simp

lemma acyclic_if_closure:
  assumes "index_closed defs" "closure defs (map fst defs) = Inr dn"
  shows "acyclic (depends defs)"
proof -
  have "\<forall>x\<in>fst ` set defs. (x, x) \<notin> (depends defs)\<^sup>+"
    using closure_result [OF assms(1), of "map fst defs"] assms(2) by auto
  moreover have "x \<in> fst ` set defs" if "(x, x) \<in> (depends defs)\<^sup>+" for x
    using that by (rule tranclE) (use index_closed_depends [OF assms(1)] in blast)+
  ultimately show ?thesis by (auto simp: acyclic_def)
qed

lemma index_closed_iff:
  "index_closed defs \<longleftrightarrow> (\<forall>(p, deps)\<in>set defs. set deps \<subseteq> fst ` set defs)"
  by (simp add: index_closed_def)

lemma module_index_content:
  assumes "module_index fs tree R = Inr (defs, names)"
  obtains dep builtin where
    "metadata_file fs tree ''modules.dep'' = Inr dep"
    "metadata_file fs tree ''modules.builtin'' = Inr builtin"
    "fst ` set defs = dep_paths (str_lines dep)" "depends defs = dep_edges (str_lines dep)"
    "index_closed defs" "acyclic (depends defs)"
    "\<And>r v. map_of names r = Some v \<longleftrightarrow>
       (\<exists>p. v = Some p \<and> p \<in> dep_paths (str_lines dep) \<and> r \<in> set R \<and> module_path p = Inr r)
       \<or> (v = None \<and> r \<in> set R \<inter> builtin_names (str_lines builtin))"
    "\<forall>p\<in>dep_paths (str_lines dep). \<exists>q. checked_file fs tree p = Inr q"
proof -
  from assms obtain dep builtin names0 dn where f:
    "metadata_file fs tree ''modules.dep'' = Inr dep"
    "metadata_file fs tree ''modules.builtin'' = Inr builtin"
    "try_fold (dep_line R) ([], []) (str_lines dep) = Inr (defs, names0)"
    "try_fold (builtin_line R) names0 (str_lines builtin) = Inr names"
    "try_fold (check_definition fs tree defs) () defs = Inr ()"
    "closure defs (map fst defs) = Inr dn"
    unfolding module_index_def by (elim rbind_InrE rbind_InrE2) auto
  note ok = dep_fold_ok [OF f(3), unfolded index_ok_def prod.case]
  note chk = check_fold [OF f(5)]
  have closed: "index_closed defs" using chk by (auto simp: index_closed_def)
  from ok have eq: "fst ` set defs = dep_paths (str_lines dep)" "depends defs = dep_edges (str_lines dep)"
    by simp_all
  have files: "\<forall>p\<in>dep_paths (str_lines dep). \<exists>q. checked_file fs tree p = Inr q"
    using chk unfolding eq(1) [symmetric] by fastforce
  have names: "map_of names r = Some v \<longleftrightarrow>
       (\<exists>p. v = Some p \<and> p \<in> dep_paths (str_lines dep) \<and> r \<in> set R \<and> module_path p = Inr r)
       \<or> (v = None \<and> r \<in> set R \<inter> builtin_names (str_lines builtin))" for r v
    using ok by (simp only: builtin_fold [OF f(4)])
  show thesis
    by (rule that [OF f(1,2) eq closed acyclic_if_closure [OF closed f(6)] names files])
qed

text \<open>
  C28. Dependency closure. For an index in which every listed dependency is defined, the
  search from any defined roots ends without a panic. It returns, in ascending order, exactly
  the modules that the roots reach through the dependency relation, and then none of them is on
  a cycle; otherwise it reports a cycle that the roots do reach.
\<close>

theorem closure_is_reachability:
  assumes "index_closed defs" "set roots \<subseteq> fst ` set defs"
  shows "case closure defs roots of
      Inr dn \<Rightarrow> ascending dn \<and> set dn = (depends defs)\<^sup>* `` set roots
        \<and> (\<forall>x\<in>set dn. (x, x) \<notin> (depends defs)\<^sup>+)
    | Inl e \<Rightarrow> \<exists>p. e = DependencyCycle p \<and> p \<in> (depends defs)\<^sup>* `` set roots \<and> (p, p) \<in> (depends defs)\<^sup>+"
  using assms by (rule closure_result)

definition demo_index :: definitions where
  "demo_index = [(''a'', [''b'', ''c'']), (''b'', [''c'']), (''c'', []), (''x'', [''y'']), (''y'', [''x''])]"

theorem closure_is_reachability_witness:
  "(depends demo_index)\<^sup>* `` {''a''} = {''a'', ''b'', ''c''}
   \<and> closure demo_index [''x''] = Inl (DependencyCycle ''x'') \<and> (''x'', ''x'') \<in> (depends demo_index)\<^sup>+"
proof -
  have closed: "index_closed demo_index" by (simp add: index_closed_def demo_index_def)
  have a: "closure demo_index [''a''] = Inr [''a'', ''b'', ''c'']" by code_simp
  have x: "closure demo_index [''x''] = Inl (DependencyCycle ''x'')" by code_simp
  have "set [''a''] \<subseteq> fst ` set demo_index" "set [''x''] \<subseteq> fst ` set demo_index"
    by (simp_all add: demo_index_def)
  then show ?thesis
    using closure_is_reachability [OF closed, of "[''a'']"] closure_is_reachability [OF closed, of "[''x'']"]
    by (simp add: a x)
qed

text \<open>The paths of the requested modules.\<close>

definition wanted :: "string list \<Rightarrow> string list \<Rightarrow> string set" where
  "wanted ls roots = {p \<in> dep_paths ls. \<exists>n\<in>requested roots. module_path p = Inr n}"

text \<open>
  C29. Module selection. A selection that succeeds was made from readable index files whose
  dependency relation is acyclic, only lists paths without \<open>..\<close> that are regular files of the
  tree, and knows every requested name, either as a built-in or as exactly one path. The files
  are, in ascending order and each once, those of the requested modules and of everything they
  depend on, directly or not, with the bytes read from the tree; the ones asked for by name are
  marked, and the built-in names are reported apart.
\<close>

theorem resolve_selects:
  assumes "resolve fs release tree_override roots = Inr sel"
  shows "\<exists>dep builtin rel.
    metadata_file fs (sel_tree sel) ''modules.dep'' = Inr dep
    \<and> metadata_file fs (sel_tree sel) ''modules.builtin'' = Inr builtin
    \<and> acyclic (dep_edges (str_lines dep)) \<and> Range (dep_edges (str_lines dep)) \<subseteq> dep_paths (str_lines dep)
    \<and> (\<forall>p\<in>dep_paths (str_lines dep). \<exists>q. checked_file fs (sel_tree sel) p = Inr q)
    \<and> ascending rel \<and> set rel = (dep_edges (str_lines dep))\<^sup>* `` wanted (str_lines dep) roots
    \<and> list_all2 (\<lambda>p f. mf_relative f = posix_path p \<and> read_file fs (sel_tree sel) p = Inr (mf_bytes f)
         \<and> (mf_is_root f \<longleftrightarrow> p \<in> wanted (str_lines dep) roots)) rel (sel_files sel)
    \<and> (\<forall>n\<in>requested roots.
         if n \<in> set (sel_builtins sel)
         then n \<in> builtin_names (str_lines builtin) \<and> \<not> (\<exists>p\<in>dep_paths (str_lines dep). module_path p = Inr n)
         else \<exists>!p. p \<in> dep_paths (str_lines dep) \<and> module_path p = Inr n)
    \<and> ascending (sel_builtins sel) \<and> set (sel_builtins sel) \<subseteq> requested roots"
proof -
  from assms obtain R tree defs names builtins selected rel files where r:
    "try_fold name_step [] roots = Inr R" "module_index fs tree R = Inr (defs, names)"
    "try_fold (root_step names) ([], []) R = Inr (builtins, selected)"
    "closure defs selected = Inr rel" "try_fold (file_entry fs tree selected) [] rel = Inr files"
    "sel = \<lparr>sel_tree = tree, sel_builtins = builtins, sel_files = files\<rparr>"
    unfolding resolve_def by (elim rbind_InrE rbind_InrE2) auto
  have R: "ascending R" "set R = requested roots" using name_fold [OF r(1)] by simp_all
  from module_index_content [OF r(2)] obtain dep builtin where i:
    "metadata_file fs tree ''modules.dep'' = Inr dep"
    "metadata_file fs tree ''modules.builtin'' = Inr builtin"
    "fst ` set defs = dep_paths (str_lines dep)" "depends defs = dep_edges (str_lines dep)"
    "index_closed defs" "acyclic (depends defs)"
    "\<And>r v. map_of names r = Some v \<longleftrightarrow>
       (\<exists>p. v = Some p \<and> p \<in> dep_paths (str_lines dep) \<and> r \<in> set R \<and> module_path p = Inr r)
       \<or> (v = None \<and> r \<in> set R \<inter> builtin_names (str_lines builtin))"
    "\<forall>p\<in>dep_paths (str_lines dep). \<exists>q. checked_file fs tree p = Inr q"
    by blast
  note roots = root_fold [OF r(3), simplified]
  have sel: "set selected = wanted (str_lines dep) roots"
    using roots by (auto simp: wanted_def i(7) R(2))
  then have sub: "set selected \<subseteq> fst ` set defs" by (auto simp: wanted_def i(3))
  have rel: "ascending rel" "set rel = (depends defs)\<^sup>* `` set selected"
    using closure_result [OF i(5) sub] by (simp_all add: r(4))
  have files: "list_all2 (entry_of fs tree selected) rel files" using file_fold [OF r(5)] by simp
  have names: "if n \<in> set builtins
         then n \<in> builtin_names (str_lines builtin) \<and> \<not> (\<exists>p\<in>dep_paths (str_lines dep). module_path p = Inr n)
         else \<exists>!p. p \<in> dep_paths (str_lines dep) \<and> module_path p = Inr n" if n: "n \<in> set R" for n
  proof (cases "map_of names n")
    case None
    with roots n show ?thesis by auto
  next
    case (Some v)
    have b: "n \<in> set builtins \<longleftrightarrow> v = None" using roots n Some by auto
    have "w = v" if "map_of names n = Some w" for w using that Some by simp
    note unique = this [unfolded i(7)]
    from Some [unfolded i(7)] n b show ?thesis
      by (cases v) (use unique [of None] unique [of "Some _"] in auto)
  qed
  have "Range (depends defs) \<subseteq> fst ` set defs" using index_closed_depends [OF i(5)] by auto
  moreover have "ascending builtins" "set builtins \<subseteq> set R"
    using roots R(1) by (auto intro: ascending_filter)
  moreover have "list_all2 (\<lambda>p f. mf_relative f = posix_path p \<and> read_file fs tree p = Inr (mf_bytes f)
         \<and> (mf_is_root f \<longleftrightarrow> p \<in> set selected)) rel files"
    using files unfolding entry_of_def [abs_def] .
  ultimately show ?thesis
    using i(1,2,6,8) rel ballI [OF names]
    unfolding r(6) selection.simps R(2) i(3) i(4) sel by (intro exI conjI) assumption+
qed

text \<open>A tree with a module \<open>a\<close> that depends on \<open>b\<close>, and a built-in \<open>c\<close>.\<close>

definition demo_tree :: path where
  "demo_tree = [RootDir, Normal ''m'']"

definition demo_dep :: string where
  "demo_dep = ''a.ko: b.ko'' @ [newline] @ ''b.ko:'' @ [newline]"

definition demo_contents :: "(string \<times> bytes) list" where
  "demo_contents = [(''modules.dep'', str_bytes demo_dep), (''modules.builtin'', str_bytes ''c.ko''),
     (''a.ko'', [1]), (''b.ko'', [2])]"

definition demo_file :: "path \<Rightarrow> bytes option" where
  "demo_file p = (case p of [RootDir, Normal m, Normal n] \<Rightarrow>
     if m = ''m'' then map_of demo_contents n else None | _ \<Rightarrow> None)"

definition demo_fs :: filesystem where
  "demo_fs = \<lparr>
     fs_canonicalize = Some, fs_is_dir = (\<lambda>p. p = demo_tree),
     fs_stat = (\<lambda>p. NotFound),
     fs_symlink_metadata = (\<lambda>p. map_option (\<lambda>bs.
       \<lparr>fm_is_file = True, fm_is_dir = False, fm_is_symlink = False, fm_len = 40\<rparr>) (demo_file p)),
     fs_open = (\<lambda>p. map_option (\<lambda>bs. \<lparr>of_metadata =
         Some \<lparr>fm_is_file = True, fm_is_dir = False, fm_is_symlink = False, fm_len = 40\<rparr>,
       of_read = (\<lambda>n. Some (take n bs))\<rparr>) (demo_file p))\<rparr>"

lemma demo_read:
  assumes "checked_file demo_fs demo_tree name = Inr p" "demo_file p = Some bs" "length bs < 100"
  shows "read_file demo_fs demo_tree name = Inr bs"
  using assms by (simp add: read_file_def demo_fs_def)

lemma demo_files:
  "read_file demo_fs demo_tree ''modules.dep'' = Inr (str_bytes demo_dep)"
  "read_file demo_fs demo_tree ''modules.builtin'' = Inr (str_bytes ''c.ko'')"
  "read_file demo_fs demo_tree ''a.ko'' = Inr [1]"
  "read_file demo_fs demo_tree ''b.ko'' = Inr [2]"
proof -
  show "read_file demo_fs demo_tree ''modules.dep'' = Inr (str_bytes demo_dep)"
    by (rule demo_read [of _ "demo_tree @ [Normal ''modules.dep'']"], code_simp, code_simp)
      (simp add: demo_dep_def str_bytes_def)
  show "read_file demo_fs demo_tree ''modules.builtin'' = Inr (str_bytes ''c.ko'')"
    by (rule demo_read [of _ "demo_tree @ [Normal ''modules.builtin'']"], code_simp, code_simp)
      (simp add: str_bytes_def)
  show "read_file demo_fs demo_tree ''a.ko'' = Inr [1]"
    by (rule demo_read [of _ "demo_tree @ [Normal ''a.ko'']"], code_simp, code_simp) simp
  show "read_file demo_fs demo_tree ''b.ko'' = Inr [2]"
    by (rule demo_read [of _ "demo_tree @ [Normal ''b.ko'']"], code_simp, code_simp) simp
qed

lemma demo_index_ok:
  "module_index demo_fs demo_tree [''a'', ''c''] =
    Inr ([(''a.ko'', [''b.ko'']), (''b.ko'', [])], [(''a'', Some ''a.ko''), (''c'', None)])"
proof -
  have utf: "utf8_ok demo_dep" "utf8_ok ''c.ko''" by code_simp+
  have dep: "try_fold (dep_line [''a'', ''c'']) ([], []) (str_lines demo_dep) =
      Inr ([(''a.ko'', [''b.ko'']), (''b.ko'', [])], [(''a'', Some ''a.ko'')])" by code_simp
  have builtin: "try_fold (builtin_line [''a'', ''c'']) [(''a'', Some ''a.ko'')] (str_lines ''c.ko'') =
      Inr [(''a'', Some ''a.ko''), (''c'', None)]" by code_simp
  have chk: "try_fold (check_definition demo_fs demo_tree [(''a.ko'', [''b.ko'']), (''b.ko'', [])]) ()
      [(''a.ko'', [''b.ko'']), (''b.ko'', [])] = Inr ()" by code_simp
  have cl: "closure [(''a.ko'', [''b.ko'']), (''b.ko'', [])] (map fst [(''a.ko'', [''b.ko'']), (''b.ko'', [])])
      = Inr [''a.ko'', ''b.ko'']" by code_simp
  show ?thesis
    unfolding module_index_def metadata_file_def demo_files rbind_simps bytes_str_str_bytes
    by (simp only: utf if_True rbind_simps prod.case dep builtin chk cl)
qed

lemma demo_resolve:
  "resolve demo_fs ''6.1'' (Some demo_tree) [''c'', ''a''] = Inr \<lparr>sel_tree = demo_tree, sel_builtins = [''c''],
     sel_files = [\<lparr>mf_relative = [Normal ''a.ko''], mf_bytes = [1], mf_is_root = True\<rparr>,
                  \<lparr>mf_relative = [Normal ''b.ko''], mf_bytes = [2], mf_is_root = False\<rparr>]\<rparr>"
proof -
  have rel: "validate_release ''6.1'' = Inr ()" by code_simp
  have names: "try_fold name_step [] [''c'', ''a''] = Inr [''a'', ''c'']" by code_simp
  have tree: "canonical_tree demo_fs demo_tree = Inr demo_tree" by code_simp
  have roots: "try_fold (root_step [(''a'', Some ''a.ko''), (''c'', None)]) ([], []) [''a'', ''c''] =
      Inr ([''c''], [''a.ko''])" by code_simp
  have cl: "closure [(''a.ko'', [''b.ko'']), (''b.ko'', [])] [''a.ko''] = Inr [''a.ko'', ''b.ko'']" by code_simp
  have paths: "posix_path ''a.ko'' = [Normal ''a.ko'']" "posix_path ''b.ko'' = [Normal ''b.ko'']" by code_simp+
  show ?thesis
    unfolding resolve_def rel rbind_simps names option.case tree demo_index_ok prod.case roots cl
    by (simp add: file_entry_def demo_files paths)
qed

theorem resolve_selects_witness:
  "\<exists>dep rel. metadata_file demo_fs demo_tree ''modules.dep'' = Inr dep \<and> length rel = 2
    \<and> set rel = (dep_edges (str_lines dep))\<^sup>* `` wanted (str_lines dep) [''c'', ''a'']
    \<and> \<not> (\<exists>p\<in>dep_paths (str_lines dep). module_path p = Inr ''c'')"
proof -
  have c: "''c'' \<in> requested [''c'', ''a'']"
  proof -
    have "validate_name ''c'' = Inr ''c''" by code_simp
    then show ?thesis by (force simp: requested_def)
  qed
  from resolve_selects [OF demo_resolve, simplified selection.simps] obtain dep rel where
    d: "metadata_file demo_fs demo_tree ''modules.dep'' = Inr dep"
    "set rel = (dep_edges (str_lines dep))\<^sup>* `` wanted (str_lines dep) [''c'', ''a'']"
    "list_all2 (\<lambda>p f. mf_relative f = posix_path p \<and> read_file demo_fs demo_tree p = Inr (mf_bytes f)
         \<and> (mf_is_root f \<longleftrightarrow> p \<in> wanted (str_lines dep) [''c'', ''a''])) rel
      [\<lparr>mf_relative = [Normal ''a.ko''], mf_bytes = [1], mf_is_root = True\<rparr>,
       \<lparr>mf_relative = [Normal ''b.ko''], mf_bytes = [2], mf_is_root = False\<rparr>]"
    "\<forall>n\<in>requested [''c'', ''a'']. n = ''c'' \<longrightarrow> \<not> (\<exists>p\<in>dep_paths (str_lines dep). module_path p = Inr n)"
    by auto
  from d(3) have "length rel = 2" by (auto dest: list_all2_lengthD)
  with d(1,2,4) c show ?thesis by blast
qed

section \<open>Unpacking a module (ModulePacking::pack)\<close>

text \<open>A decoder is the bytes it produces and whether it fails after them; \<open>take(n)\<close> reads no
  further than \<open>n\<close> bytes. The decoders are parameters: gzip and xz read a whole file, zstd a
  frame, and leaves the rest of the input.\<close>

record stream =
  st_content :: bytes
  st_fails :: bool

record unpackers =
  gzip_stream :: "bytes \<Rightarrow> stream"
  xz_stream :: "bytes \<Rightarrow> stream"
  zstd_stream :: "bytes \<Rightarrow> (stream \<times> bytes) option"

definition MAX_DECOMPRESSED_SIZE :: nat where
  "MAX_DECOMPRESSED_SIZE = 64 * 1024 * 1024"

definition read_bounded :: "stream \<Rightarrow> bytes \<Rightarrow> nat \<Rightarrow> bytes option" where
  "read_bounded decoder bytes limit =
    (let n = limit - length bytes + 1 in
     if length (st_content decoder) < n \<and> st_fails decoder then None
     else
       let bytes = bytes @ take n (st_content decoder) in
       if limit < length bytes then None else Some bytes)"

lemma read_bounded_length:
  "read_bounded decoder bytes limit = Some out \<Longrightarrow> length out \<le> limit \<and> (\<exists>xs. out = bytes @ xs)"
  by (auto simp: read_bounded_def Let_def split: if_splits)

text \<open>The loop over zstd frames: a header that cannot be read is an error, and the input left by
  a frame decides whether there is another round.\<close>

partial_function (option) zstd_loop ::
  "unpackers \<Rightarrow> nat \<Rightarrow> bytes \<Rightarrow> bytes \<Rightarrow> bytes option option" where
  "zstd_loop U limit bytes input =
    (case zstd_stream U input of
       None \<Rightarrow> Some None
     | Some (decoder, rest) \<Rightarrow>
        (case read_bounded decoder bytes limit of
           None \<Rightarrow> Some None
         | Some bytes \<Rightarrow> if rest = [] then Some (Some bytes) else zstd_loop U limit bytes rest))"

text \<open>\<open>PathBuf::set_extension("")\<close>\<close>

definition strip_extension :: "string \<Rightarrow> string" where
  "strip_extension name =
    (case rsplit_once (CHR ''.'') name of
       Some (stem, _) \<Rightarrow> if stem = [] then name else stem
     | None \<Rightarrow> name)"

definition drop_extension :: "path \<Rightarrow> path" where
  "drop_extension p =
    (case rev p of Normal name # dirs \<Rightarrow> rev dirs @ [Normal (strip_extension name)] | _ \<Rightarrow> p)"

definition posix_relative :: "module_file \<Rightarrow> string" where
  "posix_relative f =
    join_slash (concat (map (\<lambda>c. case c of Normal part \<Rightarrow> if utf8_ok part then [part] else [] | _ \<Rightarrow> [])
      (mf_relative f)))"

definition unpack :: "unpackers \<Rightarrow> module_packing \<Rightarrow> bytes \<Rightarrow> nat \<Rightarrow> bytes option option" where
  "unpack U packing input limit =
    (case packing of
       Keep \<Rightarrow> Some None
     | Gzip \<Rightarrow> Some (read_bounded (gzip_stream U input) [] limit)
     | Xz \<Rightarrow> Some (read_bounded (xz_stream U input) [] limit)
     | Zstd \<Rightarrow> zstd_loop U limit [] input)"

definition pack_with_limit ::
  "unpackers \<Rightarrow> module_packing \<Rightarrow> module_file \<Rightarrow> nat \<Rightarrow> (module_error + module_file) option" where
  "pack_with_limit U packing file limit =
    (if packing = Keep then Some (Inr file)
     else map_option (\<lambda>result.
       rbind (ok_or (DecompressModule (posix_relative file)) result) (\<lambda>bytes.
       Inr (file\<lparr>mf_relative := drop_extension (mf_relative file), mf_bytes := bytes\<rparr>)))
       (unpack U packing (mf_bytes file) limit))"

definition pack :: "unpackers \<Rightarrow> module_packing \<Rightarrow> module_file \<Rightarrow> (module_error + module_file) option" where
  "pack U packing file = pack_with_limit U packing file MAX_DECOMPRESSED_SIZE"

lemma zstd_loop_length:
  assumes "zstd_loop U limit bytes input = Some (Some out)"
  shows "length out \<le> limit"
proof -
  have "case Some out of Some out \<Rightarrow> length out \<le> limit | None \<Rightarrow> True"
    by (rule zstd_loop.raw_induct
        [of "\<lambda>U limit bytes input r. case r of Some out \<Rightarrow> length out \<le> limit | None \<Rightarrow> True", OF _ assms])
      (fastforce dest: read_bounded_length split: option.splits prod.splits if_splits)
  then show ?thesis by simp
qed

lemma zstd_loop_returns:
  assumes "\<And>bs d rest. zstd_stream U bs = Some (d, rest) \<Longrightarrow> length rest < length bs"
  shows "\<exists>r. zstd_loop U limit bytes input = Some r"
proof (induction "length input" arbitrary: bytes input rule: less_induct)
  case less
  show ?case
  proof (cases "zstd_stream U input")
    case (Some q)
    obtain d rest where q: "q = (d, rest)" by (cases q)
    have "length rest < length input" using assms Some by (simp add: q)
    from less [OF this] Some show ?thesis
      by (subst zstd_loop.simps) (auto simp: q split: option.splits)
  qed (subst zstd_loop.simps, simp)
qed

text \<open>What is packed is the file itself, or at most the budget of decompressed bytes under the
  name without the compression suffix.\<close>

lemma pack_bounded:
  assumes "pack U packing file = Some (Inr file')"
  shows "file' = file \<and> packing = Keep
    \<or> mf_relative file' = drop_extension (mf_relative file) \<and> length (mf_bytes file') \<le> MAX_DECOMPRESSED_SIZE
      \<and> mf_is_root file' = mf_is_root file"
  using assms
  by (auto simp: pack_def pack_with_limit_def unpack_def result_simps
      dest: read_bounded_length zstd_loop_length split: if_splits module_packing.splits)

end
