(* ===== verification/Layout.thy ===== *)
theory Layout
  imports Acpi
begin

text \<open>
  The data that \<open>count.rs\<close> hands to the table modules: the \<open>status\<close> of a node,
  the per-cpu cache, the set of NUMA domains, the slots of the output buffer; and the decoding of
  bindings that counting and emitting share.

  \<open>cpu_cache\<close> keeps the three arrays of 256 cells and the count; \<open>cache_list\<close> is
  the list of cpus it stands for, and the first property shows that pushing is
  appending to that list, with the 257th cpu rejected. \<open>domains\<close> is the array of ids and
  its 8-bit length; the second property shows that it is a list without duplicates of
  at most 255 ids, and \<open>index_of\<close> its inverse.
\<close>

unbundle bit_operations_syntax

definition IOAPIC_GSI_STRIDE :: u32 where "IOAPIC_GSI_STRIDE = 24"

section \<open>status\<close>

datatype dt_status = StOkay | StDisabled | StReserved | StFail

definition starts_with :: "'a list \<Rightarrow> 'a list \<Rightarrow> bool" where
  "starts_with p s = (take (length p) s = p)"

definition from_dt_str :: "string \<Rightarrow> dt_status option" where
  "from_dt_str s =
    (if s = ''okay'' then Some StOkay
     else if s = ''disabled'' then Some StDisabled
     else if s = ''reserved'' then Some StReserved
     else if s = ''fail'' \<or> starts_with ''fail-'' s then Some StFail
     else None)"

definition status_to_u8 :: "dt_status \<Rightarrow> u8" where
  "status_to_u8 s = (case s of StOkay \<Rightarrow> 0 | StDisabled \<Rightarrow> 1 | StReserved \<Rightarrow> 2 | StFail \<Rightarrow> 3)"

definition status_from_u8 :: "u8 \<Rightarrow> dt_status" where
  "status_from_u8 b = (if b = 0 then StOkay else if b = 1 then StDisabled
    else if b = 2 then StReserved else StFail)"

lemma status_roundtrip [simp]: "status_from_u8 (status_to_u8 s) = s"
  by (cases s) (simp_all add: status_from_u8_def status_to_u8_def)

section \<open>CpuCache\<close>

definition CPU_CACHE_CAP :: nat where "CPU_CACHE_CAP = 256"

definition NUMA_TAG_NONE :: u32 where "NUMA_TAG_NONE = - 1"

record cpu_cache =
  cc_apic_ids :: "u32 list"
  cc_numa_tags :: "u32 list"
  cc_statuses :: "u8 list"
  cc_n :: u32

definition cpu_cache_new :: cpu_cache where
  "cpu_cache_new = \<lparr>cc_apic_ids = replicate CPU_CACHE_CAP 0,
    cc_numa_tags = replicate CPU_CACHE_CAP NUMA_TAG_NONE,
    cc_statuses = replicate CPU_CACHE_CAP 0, cc_n = 0\<rparr>"

text \<open>\<open>*xs.get_mut(i).ok_or(Internal)? = v\<close>.\<close>

definition set_cell :: "'a list \<Rightarrow> nat \<Rightarrow> 'a \<Rightarrow> dtb_error + 'a list" where
  "set_cell xs i v = (if i < length xs then Inr (xs[i := v]) else Inl Internal)"

definition cpu_cache_push ::
  "cpu_cache \<Rightarrow> u32 \<Rightarrow> u32 option \<Rightarrow> dt_status \<Rightarrow> dtb_error + cpu_cache" where
  "cpu_cache_push c apic_id numa_tag status =
    (let idx = unat (cc_n c) in
     if CPU_CACHE_CAP \<le> idx then Inl (TooManyCpus CPU_CACHE_CAP)
     else
      rbind (set_cell (cc_apic_ids c) idx apic_id) (\<lambda>apics.
      rbind (set_cell (cc_numa_tags c) idx (case numa_tag of None \<Rightarrow> NUMA_TAG_NONE | Some t \<Rightarrow> t)) (\<lambda>tags.
      rbind (set_cell (cc_statuses c) idx (status_to_u8 status)) (\<lambda>sts.
      rbind (ok_or Internal (checked_add (cc_n c) 1)) (\<lambda>n.
        Inr \<lparr>cc_apic_ids = apics, cc_numa_tags = tags, cc_statuses = sts, cc_n = n\<rparr>)))))"

definition cpu_cache_entries :: "cpu_cache \<Rightarrow> (u32 \<times> u32 \<times> u32 option \<times> dt_status) list" where
  "cpu_cache_entries c =
    map (\<lambda>(i, apic, numa_raw, status_b).
          (word_of_nat i, apic, if numa_raw = NUMA_TAG_NONE then None else Some numa_raw,
           status_from_u8 status_b))
      (zip [0..<CPU_CACHE_CAP]
        (take (unat (cc_n c)) (zip (cc_apic_ids c) (zip (cc_numa_tags c) (cc_statuses c)))))"

definition cache_ok :: "cpu_cache \<Rightarrow> bool" where
  "cache_ok c = (length (cc_apic_ids c) = CPU_CACHE_CAP \<and> length (cc_numa_tags c) = CPU_CACHE_CAP \<and>
    length (cc_statuses c) = CPU_CACHE_CAP \<and> unat (cc_n c) \<le> CPU_CACHE_CAP)"

text \<open>The cpus a cache stands for, without their processor ids.\<close>

definition cache_list :: "cpu_cache \<Rightarrow> (u32 \<times> u32 option \<times> dt_status) list" where
  "cache_list c = map snd (cpu_cache_entries c)"

section \<open>Domains\<close>

record domains =
  dom_ids :: "u32 list"
  dom_n :: u8

definition domains_new :: domains where
  "domains_new = \<lparr>dom_ids = replicate 256 0, dom_n = 0\<rparr>"

definition domains_len :: "domains \<Rightarrow> u8" where
  "domains_len d = dom_n d"

definition domains_ids :: "domains \<Rightarrow> u32 list" where
  "domains_ids d = (case get_range (dom_ids d) 0 (unat (dom_n d)) of None \<Rightarrow> [] | Some xs \<Rightarrow> xs)"

definition domains_insert :: "domains \<Rightarrow> u32 \<Rightarrow> dtb_error + domains" where
  "domains_insert d pd =
    (if pd \<in> set (domains_ids d) then Inr d
     else
      rbind (ok_or (ValueOutOfRange SiteDistanceMap ''numa-node-id'') (checked_add (dom_n d) 1)) (\<lambda>new_n.
      rbind (set_cell (dom_ids d) (unat (dom_n d)) pd) (\<lambda>cells.
        Inr \<lparr>dom_ids = cells, dom_n = new_n\<rparr>)))"

definition domains_index_of :: "domains \<Rightarrow> u32 \<Rightarrow> u8 option" where
  "domains_index_of d pd =
    (case position (\<lambda>x. x = pd) (domains_ids d) of
       None \<Rightarrow> None
     | Some i \<Rightarrow> if i < 256 then Some (word_of_nat i) else None)"

definition domains_ok :: "domains \<Rightarrow> bool" where
  "domains_ok d = (length (dom_ids d) = 256 \<and> distinct (domains_ids d))"

section \<open>Slots and offsets\<close>

record slot =
  sl_offset :: nat
  sl_len :: nat

definition slot_gpa :: "slot \<Rightarrow> u64 \<Rightarrow> dtb_error + u64" where
  "slot_gpa s base_gpa =
    rbind (ok_or Internal (if sl_offset s < 2 ^ 64 then Some (word_of_nat (sl_offset s)) else None)) (\<lambda>off.
      ok_or Internal (checked_add base_gpa off))"

lemma slot_gpa_code [code]:
  "slot_gpa s base_gpa =
    rbind (ok_or Internal (if int (sl_offset s) < 0x10000000000000000
             then Some (word_of_int (int (sl_offset s))) else None)) (\<lambda>off.
      ok_or Internal (checked_add base_gpa off))"
  by (simp add: slot_gpa_def)

definition slot_carve :: "nat \<Rightarrow> nat \<Rightarrow> dtb_error + slot \<times> nat" where
  "slot_carve cur n =
    rbind (ok_or Internal (usize_add cur n)) (\<lambda>cur'.
      Inr (\<lparr>sl_offset = cur, sl_len = n\<rparr>, cur'))"

text \<open>\<open>carve_in\<close> borrows the bytes of a slot; what the borrower leaves there is
  written back.\<close>

definition carve_in :: "slot \<Rightarrow> bytes \<Rightarrow> dtb_error + bytes" where
  "carve_in s buf =
    rbind (ok_or Internal (usize_add (sl_offset s) (sl_len s))) (\<lambda>e.
      ok_or Internal (get_range buf (sl_offset s) e))"

definition in_slot :: "slot \<Rightarrow> (bytes \<Rightarrow> dtb_error + bytes) \<Rightarrow> bytes \<Rightarrow> dtb_error + bytes" where
  "in_slot s f buf =
    rbind (carve_in s buf) (\<lambda>b. rbind (f b) (\<lambda>b'. Inr (copy_at buf (sl_offset s) b')))"

record offsets =
  off_rsdp :: slot
  off_dsdt :: slot
  off_fadt :: slot
  off_madt :: slot
  off_mcfg :: "slot option"
  off_spcr :: "slot option"
  off_srat :: "slot option"
  off_slit :: "slot option"
  off_xsdt :: slot
  off_total :: nat

definition option_slots :: "slot option list \<Rightarrow> slot list" where
  "option_slots xs = concat (map (\<lambda>m. case m of None \<Rightarrow> [] | Some s \<Rightarrow> [s]) xs)"

definition xsdt_targets :: "offsets \<Rightarrow> slot list" where
  "xsdt_targets off = option_slots
    [Some (off_fadt off), Some (off_madt off), off_mcfg off, off_spcr off, off_srat off, off_slit off]"

record fadt_plan =
  sleep_control_reg :: generic_address
  sleep_status_reg :: generic_address
  reset_reg :: "generic_address option"
  reset_value :: u8
  sleep_value :: u8

section \<open>Bindings\<close>

definition base_name_is :: "string \<Rightarrow> string \<Rightarrow> bool" where
  "base_name_is name prefix = (takeWhile (\<lambda>c. c \<noteq> CHR ''@'') name = prefix)"

definition decode_status :: "('n, 'p) dt_view \<Rightarrow> 'n dtb_node \<Rightarrow> site \<Rightarrow> dtb_error + dt_status" where
  "decode_status V n st =
    (case node_property V (dn_node n) ''status'' of
       None \<Rightarrow> Inr StOkay
     | Some p \<Rightarrow>
        rbind (ok_or (MalformedProperty st ''status'') (as_str V p)) (\<lambda>s.
          ok_or (MalformedProperty st ''status'') (from_dt_str s)))"

definition decode_memory_hotpluggable :: "('n, 'p) dt_view \<Rightarrow> 'n dtb_node \<Rightarrow> bool" where
  "decode_memory_hotpluggable V n = (node_property V (dn_node n) ''hotpluggable'' \<noteq> None)"

definition u32_of_u64 :: "u64 \<Rightarrow> u32 option" where
  "u32_of_u64 w = (if unat w < 2 ^ 32 then Some (ucast w) else None)"

definition u8_of_u32 :: "u32 \<Rightarrow> u8 option" where
  "u8_of_u32 w = (if unat w < 2 ^ 8 then Some (ucast w) else None)"

lemma u32_of_u64_code [code]: "u32_of_u64 w = (if w < 0x100000000 then Some (ucast w) else None)"
  by (simp add: u32_of_u64_def word_less_nat_alt)

lemma u8_of_u32_code [code]: "u8_of_u32 w = (if w < 0x100 then Some (ucast w) else None)"
  by (simp add: u8_of_u32_def word_less_nat_alt)

definition decode_cpu_subset ::
  "('n, 'p) dt_view \<Rightarrow> 'n dtb_node \<Rightarrow> dtb_error + u32 \<times> u32 option \<times> dt_status" where
  "decode_cpu_subset V n =
    (case node_property_subset3 V (dn_node n) ''reg'' ''numa-node-id'' ''status'' of
       (reg_prop, numa_prop, status_prop) \<Rightarrow>
    rbind (ok_or (MissingProperty SiteCpu ''reg'') reg_prop) (\<lambda>rp.
    rbind (reg_iter_new (prop_bytes V rp) (parent_addr_cells n) (parent_size_cells n) SiteCpu) (\<lambda>it.
    rbind (ok_or (MalformedProperty SiteCpu ''reg'') (fst (reg_next it))) (\<lambda>(apic_id_u64, _).
    rbind (ok_or (ValueOutOfRange SiteCpu ''reg'') (u32_of_u64 apic_id_u64)) (\<lambda>apic_id.
    rbind (case numa_prop of
             None \<Rightarrow> Inr None
           | Some p \<Rightarrow>
              rbind (ok_or (MalformedProperty (dn_site n) ''numa-node-id'') (as_u32 V p)) (\<lambda>v.
                if v = NUMA_TAG_NONE then Inl (ValueOutOfRange (dn_site n) ''numa-node-id'')
                else Inr (Some v))) (\<lambda>numa.
    rbind (case status_prop of
             None \<Rightarrow> Inr StOkay
           | Some p \<Rightarrow>
              rbind (ok_or (MalformedProperty SiteCpu ''status'') (as_str V p)) (\<lambda>s.
                ok_or (MalformedProperty SiteCpu ''status'') (from_dt_str s))) (\<lambda>status.
      Inr (apic_id, numa, status))))))))"

definition decode_pci_bus_range :: "('n, 'p) dt_view \<Rightarrow> 'n dtb_node \<Rightarrow> dtb_error + u8 \<times> u8" where
  "decode_pci_bus_range V n =
    rbind (ok_or (MissingProperty SitePciHost ''bus-range'')
            (node_property V (dn_node n) ''bus-range'')) (\<lambda>p.
      case cells_as_u32s (prop_bytes V p) of
        start # stop # _ \<Rightarrow>
          rbind (ok_or (ValueOutOfRange SitePciHost ''bus-range'') (u8_of_u32 start)) (\<lambda>bus_start.
          rbind (ok_or (ValueOutOfRange SitePciHost ''bus-range'') (u8_of_u32 stop)) (\<lambda>bus_end.
            if bus_start > bus_end then Inl (MalformedProperty SitePciHost ''bus-range'')
            else Inr (bus_start, bus_end)))
      | _ \<Rightarrow> Inl (MalformedProperty SitePciHost ''bus-range''))"

text \<open>A search that stops at the first child that has the binding; an error on the way is
  the result.\<close>

fun find_compatible ::
  "('n, 'p) dt_view \<Rightarrow> string \<Rightarrow> 'n dtb_node list \<Rightarrow> dtb_error + 'n dtb_node option" where
  "find_compatible V want [] = Inr None"
| "find_compatible V want (c # cs) =
    rbind (has_compatible V c want) (\<lambda>b. if b then Inr (Some c) else find_compatible V want cs)"

definition find_lapic :: "('n, 'p) dt_view \<Rightarrow> 'n dtb_node \<Rightarrow> dtb_error + 'n dtb_node" where
  "find_lapic V n =
    rbind (children V n) (\<lambda>cs.
    rbind (find_compatible V ''intel,ce4100-lapic'' cs) (\<lambda>m.
      ok_or (MissingNode SiteIntc) m))"

definition ioapic_nodes :: "('n, 'p) dt_view \<Rightarrow> 'n dtb_node \<Rightarrow> dtb_error + 'n dtb_node list" where
  "ioapic_nodes V n =
    rbind (children V n) (\<lambda>cs.
      Inr (filter (\<lambda>c. has_compatible V c ''intel,ce4100-ioapic'' = Inr True) cs))"

text \<open>\<open>for child in children { if !child.has_compatible(want)? { continue; } ... }\<close>\<close>

definition for_compatible ::
  "('n, 'p) dt_view \<Rightarrow> string \<Rightarrow> ('s \<Rightarrow> 'n dtb_node \<Rightarrow> dtb_error + 's) \<Rightarrow> 's \<Rightarrow> 'n dtb_node list
    \<Rightarrow> dtb_error + 's" where
  "for_compatible V want step st cs =
    try_fold (\<lambda>s c. rbind (has_compatible V c want) (\<lambda>b. if b then step s c else Inr s)) st cs"

definition compatible_nodes :: "('n, 'p) dt_view \<Rightarrow> string \<Rightarrow> 'n dtb_node list \<Rightarrow> 'n dtb_node list" where
  "compatible_nodes V want cs = filter (\<lambda>c. has_compatible V c want = Inr True) cs"

lemma for_compatible_Inr:
  "for_compatible V want step st cs = Inr r \<longleftrightarrow>
    (\<forall>c\<in>set cs. \<exists>b. has_compatible V c want = Inr b) \<and>
    try_fold step st (compatible_nodes V want cs) = Inr r"
proof (induction cs arbitrary: st)
  case (Cons c cs)
  show ?case
  proof (cases "has_compatible V c want")
    case (Inr b)
    note h = Inr
    show ?thesis
    proof (cases b)
      case True
      then show ?thesis using h Cons.IH
        by (cases "step st c") (auto simp: for_compatible_def compatible_nodes_def)
    next
      case False
      then show ?thesis using h Cons.IH [of st]
        by (auto simp: for_compatible_def compatible_nodes_def)
    qed
  qed (auto simp: for_compatible_def)
qed (simp add: for_compatible_def compatible_nodes_def)

text \<open>\<open>for child in children { if !base_name_is(child.name(), prefix) { continue; } ... }\<close>\<close>

definition for_named ::
  "('n, 'p) dt_view \<Rightarrow> string \<Rightarrow> ('s \<Rightarrow> 'n dtb_node \<Rightarrow> dtb_error + 's) \<Rightarrow> 's \<Rightarrow> 'n dtb_node list
    \<Rightarrow> dtb_error + 's" where
  "for_named V prefix step st cs =
    try_fold (\<lambda>s c. if \<not> base_name_is (dn_name V c) prefix then Inr s else step s c) st cs"

definition named_nodes :: "('n, 'p) dt_view \<Rightarrow> string \<Rightarrow> 'n dtb_node list \<Rightarrow> 'n dtb_node list" where
  "named_nodes V prefix cs = filter (\<lambda>c. base_name_is (dn_name V c) prefix) cs"

lemma for_named_eq: "for_named V prefix step st cs = try_fold step st (named_nodes V prefix cs)"
proof (induction cs arbitrary: st)
  case (Cons c cs)
  then show ?case
    by (cases "step st c") (simp_all add: for_named_def named_nodes_def)
qed (simp add: for_named_def named_nodes_def)

section \<open>The cache as a list of cpus\<close>

definition cache_rows :: "cpu_cache \<Rightarrow> (u32 \<times> u32 \<times> u8) list" where
  "cache_rows c = take (unat (cc_n c)) (zip (cc_apic_ids c) (zip (cc_numa_tags c) (cc_statuses c)))"

definition row_cpu :: "u32 \<times> u32 \<times> u8 \<Rightarrow> u32 \<times> u32 option \<times> dt_status" where
  "row_cpu r = (case r of (apic, numa_raw, status_b) \<Rightarrow>
    (apic, if numa_raw = NUMA_TAG_NONE then None else Some numa_raw, status_from_u8 status_b))"

lemma cpu_cache_entries_rows:
  "cpu_cache_entries c = map (\<lambda>(i, r). (word_of_nat i, row_cpu r)) (zip [0..<CPU_CACHE_CAP] (cache_rows c))"
  by (simp add: cpu_cache_entries_def cache_rows_def row_cpu_def case_prod_unfold)

lemma length_cache_rows: "cache_ok c \<Longrightarrow> length (cache_rows c) = unat (cc_n c)"
  by (auto simp: cache_rows_def cache_ok_def)

lemma cache_list_rows: "cache_ok c \<Longrightarrow> cache_list c = map row_cpu (cache_rows c)"
proof -
  assume ok: "cache_ok c"
  have "cache_list c = map row_cpu (map snd (zip [0..<CPU_CACHE_CAP] (cache_rows c)))"
    by (simp add: cache_list_def cpu_cache_entries_rows case_prod_unfold comp_def)
  also have "map snd (zip [0..<CPU_CACHE_CAP] (cache_rows c)) = cache_rows c"
    using length_cache_rows [OF ok] ok by (simp add: map_snd_zip_take cache_ok_def)
  finally show ?thesis .
qed

lemma length_cache_list: "cache_ok c \<Longrightarrow> length (cache_list c) = unat (cc_n c)"
  by (simp add: cache_list_rows length_cache_rows)

text \<open>The processor id of a cpu is its position.\<close>

lemma cpu_cache_entries_eq:
  assumes "cache_ok c"
  shows "cpu_cache_entries c =
    map (\<lambda>i. (word_of_nat i, cache_list c ! i)) [0..<length (cache_list c)]"
proof (rule nth_equalityI)
  have n: "unat (cc_n c) \<le> CPU_CACHE_CAP" using assms by (simp add: cache_ok_def)
  then show "length (cpu_cache_entries c) =
      length (map (\<lambda>i. (word_of_nat i :: u32, cache_list c ! i)) [0..<length (cache_list c)])"
    by (simp add: cpu_cache_entries_rows length_cache_rows length_cache_list assms)
  fix i assume "i < length (cpu_cache_entries c)"
  then have "i < unat (cc_n c)" "i < CPU_CACHE_CAP"
    using n by (simp_all add: cpu_cache_entries_rows length_cache_rows assms)
  then show "cpu_cache_entries c ! i =
      map (\<lambda>i. (word_of_nat i, cache_list c ! i)) [0..<length (cache_list c)] ! i"
    by (simp add: cpu_cache_entries_rows length_cache_list length_cache_rows cache_list_rows assms)
qed

lemma cache_rows_push:
  assumes "cache_ok c" and "unat (cc_n c) < CPU_CACHE_CAP"
  shows "cache_rows \<lparr>cc_apic_ids = (cc_apic_ids c)[unat (cc_n c) := a],
      cc_numa_tags = (cc_numa_tags c)[unat (cc_n c) := t],
      cc_statuses = (cc_statuses c)[unat (cc_n c) := s], cc_n = cc_n c + 1\<rparr> = cache_rows c @ [(a, t, s)]"
proof -
  let ?i = "unat (cc_n c)" and ?z = "zip (cc_apic_ids c) (zip (cc_numa_tags c) (cc_statuses c))"
  have n: "unat (cc_n c + 1) = Suc ?i" using assms(2)
    by (simp add: CPU_CACHE_CAP_def unat_Suc_word)
  have "zip ((cc_apic_ids c)[?i := a]) (zip ((cc_numa_tags c)[?i := t]) ((cc_statuses c)[?i := s])) = ?z[?i := (a, t, s)]"
    by (simp add: zip_update)
  moreover have "?i < length ?z" using assms by (simp add: cache_ok_def)
  ultimately show ?thesis by (simp add: cache_rows_def n take_Suc_conv_app_nth)
qed

lemma cpu_cache_push_step:
  assumes "cache_ok c" and "tag \<noteq> Some NUMA_TAG_NONE"
  shows "if length (cache_list c) = 256 then cpu_cache_push c apic tag st = Inl (TooManyCpus 256)
    else (\<exists>c'. cpu_cache_push c apic tag st = Inr c' \<and> cache_ok c' \<and>
      cache_list c' = cache_list c @ [(apic, tag, st)])"
proof (cases "length (cache_list c) = 256")
  case True
  then show ?thesis using assms(1) by (simp add: length_cache_list cpu_cache_push_def CPU_CACHE_CAP_def)
next
  case False
  let ?t = "case tag of None \<Rightarrow> NUMA_TAG_NONE | Some t \<Rightarrow> t"
  let ?c = "\<lparr>cc_apic_ids = (cc_apic_ids c)[unat (cc_n c) := apic],
      cc_numa_tags = (cc_numa_tags c)[unat (cc_n c) := ?t],
      cc_statuses = (cc_statuses c)[unat (cc_n c) := status_to_u8 st], cc_n = cc_n c + 1\<rparr>"
  have lt: "unat (cc_n c) < CPU_CACHE_CAP"
    using False assms(1) by (simp add: length_cache_list cache_ok_def CPU_CACHE_CAP_def)
  have n: "unat (cc_n c + 1) = Suc (unat (cc_n c))"
    using lt by (simp add: CPU_CACHE_CAP_def unat_word_ariths)
  have "checked_add (cc_n c) 1 = Some (cc_n c + 1)"
    using lt by (simp add: checked_simps CPU_CACHE_CAP_def n)
  then have push: "cpu_cache_push c apic tag st = Inr ?c"
    using lt assms(1) by (simp add: cpu_cache_push_def Let_def set_cell_def cache_ok_def)
  have ok: "cache_ok ?c" using assms(1) lt by (simp add: cache_ok_def n)
  have "row_cpu (apic, ?t, status_to_u8 st) = (apic, tag, st)"
    using assms(2) by (cases tag) (auto simp: row_cpu_def)
  then have "cache_list ?c = cache_list c @ [(apic, tag, st)]"
    unfolding cache_list_rows [OF ok] cache_list_rows [OF assms(1)] cache_rows_push [OF assms(1) lt]
    by simp
  then show ?thesis using False push ok by auto
qed

lemma cache_ok_new: "cache_ok cpu_cache_new" "cache_list cpu_cache_new = []"
  by (simp_all add: cache_ok_def cpu_cache_new_def cache_list_def cpu_cache_entries_def)

text \<open>C14. The cpu cache refines a list of cpus: on a well-formed cache, pushing appends the cpu
  (its \<open>u32::MAX\<close> sentinel never loses a tag the decoder lets through), keeps the cache
  well-formed, and fails with \<open>TooManyCpus\<close> exactly when 256 cpus are already there.\<close>

theorem cpu_cache_push_refines:
  assumes "cache_ok c" and "tag \<noteq> Some NUMA_TAG_NONE"
  shows "if length (cache_list c) = 256 then cpu_cache_push c apic tag st = Inl (TooManyCpus 256)
    else (\<exists>c'. cpu_cache_push c apic tag st = Inr c' \<and> cache_ok c' \<and>
      cache_list c' = cache_list c @ [(apic, tag, st)])"
  by (rule cpu_cache_push_step [OF assms])

theorem cpu_cache_push_refines_witness:
  "\<exists>c'. cpu_cache_push cpu_cache_new 3 (Some 1) StOkay = Inr c' \<and> cache_ok c' \<and>
      cache_list c' = cache_list cpu_cache_new @ [(3, Some 1, StOkay)]"
  using cpu_cache_push_refines [of cpu_cache_new "Some 1" 3 StOkay]
  by (simp add: cache_ok_new NUMA_TAG_NONE_def)

section \<open>The domain set as a list without duplicates\<close>

lemma domains_ids_eq: "domains_ok d \<Longrightarrow> domains_ids d = take (unat (dom_n d)) (dom_ids d)"
  using unat_u8_less [of "dom_n d"]
  by (auto simp: domains_ids_def domains_ok_def get_range_def)

lemma length_domains_ids: "domains_ok d \<Longrightarrow> length (domains_ids d) = unat (dom_n d)"
  using unat_u8_less [of "dom_n d"] by (simp add: domains_ids_eq) (simp add: domains_ok_def)

lemma domains_insert_step:
  assumes "domains_ok d"
  shows "if pd \<in> set (domains_ids d) then domains_insert d pd = Inr d
    else if length (domains_ids d) = 255 then
      domains_insert d pd = Inl (ValueOutOfRange SiteDistanceMap ''numa-node-id'')
    else (\<exists>d'. domains_insert d pd = Inr d' \<and> domains_ok d' \<and> domains_ids d' = domains_ids d @ [pd])"
proof -
  let ?n = "unat (dom_n d)"
  consider "pd \<in> set (domains_ids d)" | "pd \<notin> set (domains_ids d)" "?n = 255"
    | "pd \<notin> set (domains_ids d)" "?n < 255"
    using unat_u8_less [of "dom_n d"] by fastforce
  then show ?thesis
  proof cases
    case 1
    then show ?thesis by (simp add: domains_insert_def)
  next
    case 2
    then have "checked_add (dom_n d) 1 = None" by (simp add: checked_simps)
    with 2 show ?thesis using assms by (simp add: domains_insert_def length_domains_ids)
  next
    case 3
    let ?d = "\<lparr>dom_ids = (dom_ids d)[?n := pd], dom_n = dom_n d + 1\<rparr>"
    have n: "unat (dom_n d + 1) = Suc ?n" by (rule unat_Suc_word) (use 3 in simp)
    have len: "length (dom_ids d) = 256" using assms by (simp add: domains_ok_def)
    have "checked_add (dom_n d) 1 = Some (dom_n d + 1)" using 3 by (simp add: checked_simps n)
    then have ins: "domains_insert d pd = Inr ?d"
      using 3 len by (simp add: domains_insert_def set_cell_def)
    have ids: "domains_ids ?d = domains_ids d @ [pd]"
      using 3 len by (simp add: domains_ids_def get_range_def n take_Suc_conv_app_nth)
    then have "domains_ok ?d" using assms 3 len by (simp add: domains_ok_def)
    with 3 ins ids show ?thesis using assms by (auto simp: length_domains_ids)
  qed
qed

lemma domains_ok_new: "domains_ok domains_new" "domains_ids domains_new = []"
  by (simp_all add: domains_ok_def domains_new_def domains_ids_def get_range_def)

text \<open>The NUMA domain set refines a list without duplicates in order of first occurrence:
  inserting a known domain changes nothing, a new one is appended, and the only failure is the
  255-domain limit of its 8-bit length.\<close>

lemma domains_insert_refines:
  assumes "domains_ok d"
  shows "if pd \<in> set (domains_ids d) then domains_insert d pd = Inr d
    else if length (domains_ids d) = 255 then
      domains_insert d pd = Inl (ValueOutOfRange SiteDistanceMap ''numa-node-id'')
    else (\<exists>d'. domains_insert d pd = Inr d' \<and> domains_ok d' \<and> domains_ids d' = domains_ids d @ [pd])"
  by (rule domains_insert_step [OF assms])

lemma domains_insert_refines_witness:
  "\<exists>d'. domains_insert domains_new 7 = Inr d' \<and> domains_ok d' \<and> domains_ids d' = domains_ids domains_new @ [7]"
  using domains_insert_refines [of domains_new 7] by (simp add: domains_ok_new)

lemma domains_index_of_iff:
  assumes "domains_ok d"
  shows "domains_index_of d pd = Some i \<longleftrightarrow> unat i < length (domains_ids d) \<and> domains_ids d ! unat i = pd"
proof -
  let ?xs = "domains_ids d"
  have len: "length ?xs < 256"
    using length_domains_ids [OF assms] unat_u8_less [of "dom_n d"] by simp
  have dist: "distinct ?xs" using assms by (simp add: domains_ok_def)
  have "domains_index_of d pd = Some i \<longleftrightarrow> position (\<lambda>x. x = pd) ?xs = Some (unat i)"
  proof (cases "position (\<lambda>x. x = pd) ?xs")
    case (Some j)
    then have "j < 256" using len by (simp add: position_Some_iff)
    then show ?thesis using Some
      by (auto simp: domains_index_of_def unat_of_nat)
  qed (simp add: domains_index_of_def)
  also have "\<dots> \<longleftrightarrow> unat i < length ?xs \<and> ?xs ! unat i = pd"
    using dist by (auto simp: position_Some_iff nth_eq_iff_index_eq)
  finally show ?thesis .
qed


end
