(* ===== verification/FixedTables.thy ===== *)
theory FixedTables
  imports Layout
begin

text \<open>
  The tables of fixed shape: the root pointer (\<open>emit/rsdp.rs\<close>), the FADT
  (\<open>emit/fadt.rs\<close>) and the table of tables (\<open>emit/xsdt.rs\<close>).

  A long \<open>repr(C)\<close> structure is the list of its fields, each with its name and its
  bytes, in the order of the declaration; \<open>field_at\<close> finds the bytes of a field at the offset
  the layout gives it.
\<close>

unbundle bit_operations_syntax

section \<open>Structures as lists of fields\<close>

type_synonym fields = "(string \<times> bytes) list"

definition fields_bytes :: "fields \<Rightarrow> bytes" where
  "fields_bytes fs = concat (map snd fs)"

fun field_offset :: "string \<Rightarrow> fields \<Rightarrow> nat" where
  "field_offset n [] = 0"
| "field_offset n (f # fs) = (if fst f = n then 0 else length (snd f) + field_offset n fs)"

definition u8_field :: "u8 \<Rightarrow> bytes" where "u8_field v = [v]"
definition u16_field :: "u16 \<Rightarrow> bytes" where "u16_field v = le_bytes 2 v"
definition u32_field :: "u32 \<Rightarrow> bytes" where "u32_field v = le_bytes 4 v"
definition u64_field :: "u64 \<Rightarrow> bytes" where "u64_field v = le_bytes 8 v"

lemma length_fields [simp]:
  "length (u8_field v8) = 1" "length (u16_field v16) = 2"
  "length (u32_field v32) = 4" "length (u64_field v64) = 8"
  by (simp_all add: u8_field_def u16_field_def u32_field_def u64_field_def)

section \<open>RSDP\<close>

record rsdp =
  rsdp_signature :: bytes
  rsdp_checksum :: u8
  rsdp_oem_id :: bytes
  rsdp_revision :: u8
  rsdp_rsdt_address :: u32
  rsdp_length :: u32
  rsdp_xsdt_address :: u64
  rsdp_extended_checksum :: u8
  rsdp_reserved :: bytes

definition rsdp_bytes :: "rsdp \<Rightarrow> bytes" where
  "rsdp_bytes r = rsdp_signature r @ [rsdp_checksum r] @ rsdp_oem_id r @ [rsdp_revision r] @
    le_bytes 4 (rsdp_rsdt_address r) @ le_bytes 4 (rsdp_length r) @ le_bytes 8 (rsdp_xsdt_address r) @
    [rsdp_extended_checksum r] @ rsdp_reserved r"

definition RSDP_SIZE :: nat where "RSDP_SIZE = 36"

definition rsdp_emit :: "u64 \<Rightarrow> oem_identity \<Rightarrow> bytes \<Rightarrow> dtb_error + bytes" where
  "rsdp_emit xsdt_gpa oem slot =
    (let len = (case u32_of_len RSDP_SIZE of None \<Rightarrow> - 1 | Some n \<Rightarrow> n);
         r = \<lparr>rsdp_signature = str_bytes ''RSD PTR '', rsdp_checksum = 0, rsdp_oem_id = oem_id oem,
              rsdp_revision = 2, rsdp_rsdt_address = 0, rsdp_length = len,
              rsdp_xsdt_address = xsdt_gpa, rsdp_extended_checksum = 0, rsdp_reserved = [0, 0, 0]\<rparr>;
         bytes_for_short = (case get_range (rsdp_bytes r) 0 20 of None \<Rightarrow> [] | Some b \<Rightarrow> b);
         r1 = r\<lparr>rsdp_checksum := checksum bytes_for_short\<rparr>;
         r2 = r1\<lparr>rsdp_extended_checksum := checksum (rsdp_bytes r1)\<rparr>
     in write_header slot (rsdp_bytes r2))"

section \<open>FADT\<close>

definition FADT_REVISION :: u8 where "FADT_REVISION = 6"
definition MINOR_VERSION :: u8 where "MINOR_VERSION = 5"
definition RESET_REG_SUP :: u32 where "RESET_REG_SUP = push_bit 10 1"
definition HW_REDUCED_ACPI :: u32 where "HW_REDUCED_ACPI = push_bit 20 1"
definition IAPC_BOOT_ARCH_NO_LEGACY :: u16 where
  "IAPC_BOOT_ARCH_NO_LEGACY = push_bit 2 1 OR push_bit 5 1"
definition FADT_SIZE :: nat where "FADT_SIZE = 276"

definition fadt_fields ::
  "sdt_header \<Rightarrow> u32 \<Rightarrow> u32 \<Rightarrow> generic_address \<Rightarrow> u8 \<Rightarrow> u64 \<Rightarrow> generic_address \<Rightarrow> generic_address \<Rightarrow> fields" where
  "fadt_fields header dsdt32 flags reset_gas reset_val dsdt_gpa sleep_ctl sleep_sts =
   [(''header'', sdt_header_bytes header), (''firmware_ctrl'', u32_field 0), (''dsdt'', u32_field dsdt32),
    (''reserved_1'', u8_field 0), (''preferred_pm_profile'', u8_field 0), (''sci_int'', u16_field 0),
    (''smi_cmd'', u32_field 0), (''acpi_enable'', u8_field 0), (''acpi_disable'', u8_field 0),
    (''s4bios_req'', u8_field 0), (''pstate_cnt'', u8_field 0), (''pm1a_evt_blk'', u32_field 0),
    (''pm1b_evt_blk'', u32_field 0), (''pm1a_cnt_blk'', u32_field 0), (''pm1b_cnt_blk'', u32_field 0),
    (''pm2_cnt_blk'', u32_field 0), (''pm_tmr_blk'', u32_field 0), (''gpe0_blk'', u32_field 0),
    (''gpe1_blk'', u32_field 0), (''pm1_evt_len'', u8_field 0), (''pm1_cnt_len'', u8_field 0),
    (''pm2_cnt_len'', u8_field 0), (''pm_tmr_len'', u8_field 0), (''gpe0_blk_len'', u8_field 0),
    (''gpe1_blk_len'', u8_field 0), (''gpe1_base'', u8_field 0), (''cst_cnt'', u8_field 0),
    (''p_lvl2_lat'', u16_field 0), (''p_lvl3_lat'', u16_field 0), (''flush_size'', u16_field 0),
    (''flush_stride'', u16_field 0), (''duty_offset'', u8_field 0), (''duty_width'', u8_field 0),
    (''day_alrm'', u8_field 0), (''mon_alrm'', u8_field 0), (''century'', u8_field 0),
    (''iapc_boot_arch'', u16_field IAPC_BOOT_ARCH_NO_LEGACY), (''reserved_2'', u8_field 0),
    (''flags'', u32_field flags), (''reset_reg'', gas_bytes reset_gas), (''reset_value'', u8_field reset_val),
    (''arm_boot_arch'', u16_field 0), (''fadt_minor_version'', u8_field MINOR_VERSION),
    (''x_firmware_ctrl'', u64_field 0), (''x_dsdt'', u64_field dsdt_gpa),
    (''x_pm1a_evt_blk'', gas_bytes GAS_ZERO), (''x_pm1b_evt_blk'', gas_bytes GAS_ZERO),
    (''x_pm1a_cnt_blk'', gas_bytes GAS_ZERO), (''x_pm1b_cnt_blk'', gas_bytes GAS_ZERO),
    (''x_pm2_cnt_blk'', gas_bytes GAS_ZERO), (''x_pm_tmr_blk'', gas_bytes GAS_ZERO),
    (''x_gpe0_blk'', gas_bytes GAS_ZERO), (''x_gpe1_blk'', gas_bytes GAS_ZERO),
    (''sleep_control_reg'', gas_bytes sleep_ctl), (''sleep_status_reg'', gas_bytes sleep_sts),
    (''hypervisor_vendor_identity'', u64_field 0)]"

definition fadt_emit :: "u64 \<Rightarrow> fadt_plan \<Rightarrow> oem_identity \<Rightarrow> bytes \<Rightarrow> dtb_error + bytes" where
  "fadt_emit dsdt_gpa plan oem slot =
    rbind (ok_or Internal (u32_of_len FADT_SIZE)) (\<lambda>len.
      let dsdt32 = (case u32_of_u64 dsdt_gpa of None \<Rightarrow> 0 | Some w \<Rightarrow> w);
          flags = (if reset_reg plan \<noteq> None then HW_REDUCED_ACPI OR RESET_REG_SUP else HW_REDUCED_ACPI);
          f = fadt_fields (sdt_header_new ''FACP'' len FADT_REVISION oem) dsdt32 flags
                (case reset_reg plan of None \<Rightarrow> GAS_ZERO | Some g \<Rightarrow> g) (reset_value plan) dsdt_gpa
                (sleep_control_reg plan) (sleep_status_reg plan)
      in rbind (write_header slot (fields_bytes f)) set_sdt_checksum)"

section \<open>XSDT\<close>

definition XSDT_REVISION :: u8 where "XSDT_REVISION = 1"
definition XSDT_ENTRY_SIZE :: nat where "XSDT_ENTRY_SIZE = 8"

definition xsdt_total_size :: "nat \<Rightarrow> dtb_error + nat" where
  "xsdt_total_size n_entries =
    rbind (ok_or Internal (usize_mul n_entries XSDT_ENTRY_SIZE)) (\<lambda>entries_bytes.
      ok_or Internal (usize_add SDT_HEADER_SIZE entries_bytes))"

text \<open>Unlike \<open>write_entry\<close>, an entry that does not fit is dropped silently.\<close>

definition append_gpa :: "bytes \<Rightarrow> nat \<Rightarrow> u64 \<Rightarrow> dtb_error + bytes \<times> nat" where
  "append_gpa slot pos gpa =
    rbind (ok_or Internal (usize_add pos XSDT_ENTRY_SIZE)) (\<lambda>e.
      Inr (case get_range slot pos e of
             None \<Rightarrow> (slot, e)
           | Some _ \<Rightarrow> (copy_at slot pos (le_bytes 8 gpa), e)))"

definition xsdt_emit :: "oem_identity \<Rightarrow> u64 \<Rightarrow> offsets \<Rightarrow> bytes \<Rightarrow> dtb_error + bytes" where
  "xsdt_emit oem base_gpa off slot =
    rbind (sdt_length_from_slot slot) (\<lambda>len.
    rbind (write_header slot (sdt_header_bytes (sdt_header_new ''XSDT'' len XSDT_REVISION oem))) (\<lambda>slot1.
    rbind (try_fold (\<lambda>(s, pos) target.
             rbind (slot_gpa target base_gpa) (\<lambda>gpa. append_gpa s pos gpa))
           (slot1, SDT_HEADER_SIZE) (xsdt_targets off)) (\<lambda>(slot2, _).
      set_sdt_checksum slot2)))"

section \<open>What the tables hold\<close>

lemma copy_at_0_all: "length xs = length slot \<Longrightarrow> copy_at slot 0 xs = xs"
  by (simp add: copy_at_def)

text \<open>A table whose header was written in front of bytes that stay as they are.\<close>

lemma set_sdt_checksum_slot:
  assumes "set_sdt_checksum s = Inr t" and "oem_ok oem" and "length sig = 4"
    and "length s < 2 ^ 32" and "36 \<le> length s"
    and "take 36 s = sdt_header_bytes (sdt_header_new sig (word_of_nat (length s)) revn oem)"
  shows "table_ok sig revn oem t \<and> length t = length s \<and> drop 36 t = drop 36 s"
proof -
  have len: "36 + length (drop 36 s) = length s" using assms(5) by simp
  have "s = sdt_header_bytes (sdt_header_new sig (word_of_nat (36 + length (drop 36 s))) revn oem) @ drop 36 s"
    using assms(6) append_take_drop_id [of 36 s] unfolding len by simp
  then have "set_sdt_checksum (sdt_header_bytes (sdt_header_new sig (word_of_nat (36 + length (drop 36 s))) revn oem) @ drop 36 s) = Inr t"
    using assms(1) by simp
  from set_sdt_checksum_table [OF this assms(2,3)] len assms(4) show ?thesis by simp
qed

text \<open>A table written as header, further header fields, entries, checksum.\<close>

lemma finish_table:
  assumes "write_header slot (sdt_header_bytes (sdt_header_new sig (word_of_nat (length slot)) revn oem) @ x) = Inr s1"
    and "write_entry s1 (36 + length x) body = Inr (s2, p)" and "set_sdt_checksum s2 = Inr t"
    and "oem_ok oem" and "length sig = 4" and "length slot < 2 ^ 32"
  shows "table_ok sig revn oem t" and "length t = length slot"
    and "take (length x + length body) (drop 36 t) = x @ body"
    and "p = 36 + length x + length body" and "36 + length x + length body \<le> length slot"
proof -
  let ?h = "sdt_header_bytes (sdt_header_new sig (word_of_nat (length slot)) revn oem)"
  have lh: "length ?h = 36" by (rule length_sdt_header_bytes [OF assms(4,5)])
  have "write_entry s1 (length (?h @ x)) body = Inr (s2, p)" using assms(2) lh by simp
  note w = write_entry_after_header [OF assms(1) this]
  have le: "36 + length x + length body \<le> length slot" using w(2) lh by simp
  have ls: "length s2 = length slot" using w(1,2) by simp
  have s2: "s2 = ?h @ (x @ body @ drop (36 + length x + length body) slot)"
    using w(1) lh by (simp add: copy_at_def add.assoc)
  have t36: "take 36 s2 = ?h" using lh by (simp add: s2)
  have d36: "drop 36 s2 = x @ body @ drop (36 + length x + length body) slot" using lh by (simp add: s2)
  have res: "table_ok sig revn oem t \<and> length t = length s2 \<and> drop 36 t = drop 36 s2"
    by (rule set_sdt_checksum_slot [OF assms(3,4,5)]) (use ls le assms(6) t36 in simp_all)
  then show "table_ok sig revn oem t" "length t = length slot" using ls by simp_all
  show "take (length x + length body) (drop 36 t) = x @ body" using res d36 by simp
  show "p = 36 + length x + length body" using w(3) lh by simp
  show "36 + length x + length body \<le> length slot" by (rule le)
qed

text \<open>The same chain always succeeds in a slot with room for it.\<close>

lemma table_succeeds:
  assumes "oem_ok oem" and "length sig = 4" and "36 + length x + length body \<le> length slot"
    and "length slot < 2 ^ 32"
  shows "\<exists>s1 s2 p t.
    write_header slot (sdt_header_bytes (sdt_header_new sig (word_of_nat (length slot)) revn oem) @ x) = Inr s1 \<and>
    length s1 = length slot \<and> write_entry s1 (36 + length x) body = Inr (s2, p) \<and> set_sdt_checksum s2 = Inr t"
proof -
  let ?h = "sdt_header_bytes (sdt_header_new sig (word_of_nat (length slot)) revn oem)"
  have lh: "length ?h = 36" by (rule length_sdt_header_bytes [OF assms(1,2)])
  let ?s1 = "copy_at slot 0 (?h @ x)"
  have l1: "length ?s1 = length slot" using assms(3) lh by simp
  have w1: "write_header slot (?h @ x) = Inr ?s1" using assms(3) lh by (simp add: write_header_Inr)
  have w2: "write_entry ?s1 (36 + length x) body = Inr (copy_at ?s1 (36 + length x) body, 36 + length x + length body)"
    using assms(3,4) l1 by (simp add: write_entry_eq usize_max_def)
  obtain t where "set_sdt_checksum (copy_at ?s1 (36 + length x) body) = Inr t"
    using set_sdt_checksum_ok [of "copy_at ?s1 (36 + length x) body"] l1 assms(3) by auto
  with w1 w2 l1 show ?thesis by blast
qed

lemma sdt_length_from_slot_Inr:
  "sdt_length_from_slot slot = Inr n \<longleftrightarrow> length slot < 2 ^ 32 \<and> n = word_of_nat (length slot)"
  by (auto simp: sdt_length_from_slot_def u32_of_len_def result_simps)

text \<open>RSDP: both checksums hold and the address of the XSDT is where readers look for it.\<close>

lemma rsdp_emit_eq:
  assumes "oem_ok oem" and "length slot = RSDP_SIZE" and "rsdp_emit xsdt_gpa oem slot = Inr t"
  shows "length t = RSDP_SIZE \<and> sum_bytes t = 0 \<and> sum_bytes (take 20 t) = 0 \<and>
    take 8 t = str_bytes ''RSD PTR '' \<and> from_le (take 8 (drop 24 t)) = xsdt_gpa"
proof -
  define pre where "pre = str_bytes ''RSD PTR ''"
  define post where "post = oem_id oem @ [2] @ le_bytes 4 (0 :: u32)"
  define tl where "tl = le_bytes 4 (word_of_nat RSDP_SIZE :: u32) @ le_bytes 8 xsdt_gpa"
  have lens: "length pre = 8" "length post = 11" "length tl = 12"
    using assms(1) by (simp_all add: pre_def post_def tl_def oem_ok_def)
  define c1 where "c1 = checksum (pre @ [0] @ post)"
  define c2 where "c2 = checksum (pre @ [c1] @ post @ tl @ [0] @ [0, 0, 0])"
  have u: "u32_of_len RSDP_SIZE = Some (word_of_nat RSDP_SIZE)" by (simp add: u32_of_len_def RSDP_SIZE_def)
  have short: "get_range (pre @ [0] @ post @ tl @ [0] @ [0, 0, 0]) 0 20 = Some (pre @ [0] @ post)"
    using lens by (simp add: get_range_def)
  have "rsdp_emit xsdt_gpa oem slot = write_header slot (pre @ [c1] @ post @ tl @ [c2] @ [0, 0, 0])"
    using short by (simp add: rsdp_emit_def u rsdp_bytes_def Let_def pre_def [symmetric] post_def tl_def c1_def c2_def)
  then have "write_header slot (pre @ [c1] @ post @ tl @ [c2] @ [0, 0, 0]) = Inr t"
    using assms(3) by simp
  then have t: "t = pre @ [c1] @ post @ tl @ [c2] @ [0, 0, 0]"
    unfolding write_header_Inr using assms(2) lens by (simp add: copy_at_0_all RSDP_SIZE_def)
  have c1: "sum_bytes (pre @ [c1] @ post) = 0" by (simp add: c1_def checksum_def)
  have "sum_bytes t = 0" by (simp add: t c2_def checksum_def)
  moreover have "take 20 t = pre @ [c1] @ post" using lens by (simp add: t)
  moreover have "take 8 t = pre" using lens by (simp add: t)
  moreover have "take 8 (drop 24 t) = le_bytes 8 xsdt_gpa" using lens by (simp add: t tl_def)
  moreover have "length t = RSDP_SIZE" using lens by (simp add: t RSDP_SIZE_def)
  ultimately show ?thesis using c1 by (simp add: from_le_le_bytes_full pre_def)
qed

text \<open>The bytes of a structure hold a field at its offset.\<close>

lemma field_at:
  "map_of fs n = Some b \<Longrightarrow> take (length b) (drop (field_offset n fs) (fields_bytes fs)) = b"
  by (induction fs) (auto simp: fields_bytes_def split: if_splits)

lemma length_fadt_fields:
  "length (sdt_header_bytes h) = 36 \<Longrightarrow> length (fields_bytes (fadt_fields h d fl g v x a b)) = FADT_SIZE"
  by (simp add: fields_bytes_def fadt_fields_def FADT_SIZE_def)

lemma fadt_offsets:
  assumes "length (sdt_header_bytes h) = 36"
  shows "field_offset ''flags'' (fadt_fields h d fl g v x a b) = 112"
    and "field_offset ''reset_reg'' (fadt_fields h d fl g v x a b) = 116"
    and "field_offset ''x_dsdt'' (fadt_fields h d fl g v x a b) = 140"
    and "field_offset ''sleep_control_reg'' (fadt_fields h d fl g v x a b) = 244"
  using assms by (simp_all add: fadt_fields_def)

lemma fadt_map_of:
  "map_of (fadt_fields h d fl g v x a b) ''flags'' = Some (u32_field fl)"
  "map_of (fadt_fields h d fl g v x a b) ''reset_reg'' = Some (gas_bytes g)"
  "map_of (fadt_fields h d fl g v x a b) ''x_dsdt'' = Some (u64_field x)"
  "map_of (fadt_fields h d fl g v x a b) ''sleep_control_reg'' = Some (gas_bytes a)"
  by (simp_all add: fadt_fields_def)

lemma fadt_emit_table:
  assumes "oem_ok oem" and "length slot = FADT_SIZE" and "fadt_emit dsdt_gpa plan oem slot = Inr t"
  shows "table_ok ''FACP'' FADT_REVISION oem t \<and> length t = length slot \<and>
    from_le (take 8 (drop 140 t)) = dsdt_gpa \<and>
    from_le (take 4 (drop 112 t)) =
      (if reset_reg plan = None then HW_REDUCED_ACPI else HW_REDUCED_ACPI OR RESET_REG_SUP) \<and>
    take 12 (drop 116 t) = gas_bytes (case reset_reg plan of None \<Rightarrow> GAS_ZERO | Some g \<Rightarrow> g) \<and>
    take 12 (drop 244 t) = gas_bytes (sleep_control_reg plan)"
proof -
  define h where "h = sdt_header_new ''FACP'' (word_of_nat FADT_SIZE) FADT_REVISION oem"
  define fl where "fl = (if reset_reg plan = None then HW_REDUCED_ACPI else HW_REDUCED_ACPI OR RESET_REG_SUP)"
  define g where "g = (case reset_reg plan of None \<Rightarrow> GAS_ZERO | Some g \<Rightarrow> g)"
  define f where "f = fadt_fields h (case u32_of_u64 dsdt_gpa of None \<Rightarrow> 0 | Some w \<Rightarrow> w) fl g
    (reset_value plan) dsdt_gpa (sleep_control_reg plan) (sleep_status_reg plan)"
  have lh: "length (sdt_header_bytes h) = 36"
    unfolding h_def by (rule length_sdt_header_bytes) (simp_all add: assms(1))
  have lf: "length (fields_bytes f) = FADT_SIZE" by (simp add: f_def length_fadt_fields lh)
  have u: "u32_of_len FADT_SIZE = Some (word_of_nat FADT_SIZE)" by (simp add: u32_of_len_def FADT_SIZE_def)
  have "fadt_emit dsdt_gpa plan oem slot = rbind (write_header slot (fields_bytes f)) set_sdt_checksum"
    unfolding fadt_emit_def u f_def fl_def g_def h_def
    by (cases "reset_reg plan") (simp_all add: Let_def)
  then have cs: "set_sdt_checksum (fields_bytes f) = Inr t"
    using assms(2,3) lf by (simp add: write_header_def get_range_def copy_at_0_all)
  have t36: "take 36 (fields_bytes f) = sdt_header_bytes h"
    using lh by (simp add: f_def fields_bytes_def fadt_fields_def)
  have res: "table_ok ''FACP'' FADT_REVISION oem t \<and> length t = length (fields_bytes f) \<and>
      drop 36 t = drop 36 (fields_bytes f)"
    by (rule set_sdt_checksum_slot [OF cs assms(1)]) (simp_all add: lf FADT_SIZE_def t36 h_def)
  have dr: "drop n t = drop n (fields_bytes f)" if "36 \<le> n" for n
    using res that by (metis drop_drop le_add_diff_inverse2)
  note fa = field_at [of f] and offs = fadt_offsets [OF lh] fadt_map_of
  have "take 8 (drop 140 t) = u64_field dsdt_gpa"
    using fa [of "''x_dsdt''" "u64_field dsdt_gpa"] by (simp add: dr f_def offs)
  moreover have "take 4 (drop 112 t) = u32_field fl"
    using fa [of "''flags''" "u32_field fl"] by (simp add: dr f_def offs)
  moreover have "take 12 (drop 116 t) = gas_bytes g"
    using fa [of "''reset_reg''" "gas_bytes g"] by (simp add: dr f_def offs)
  moreover have "take 12 (drop 244 t) = gas_bytes (sleep_control_reg plan)"
    using fa [of "''sleep_control_reg''" "gas_bytes (sleep_control_reg plan)"] by (simp add: dr f_def offs)
  ultimately show ?thesis using res lf assms(2)
    by (simp add: u64_field_def u32_field_def from_le_le_bytes_full fl_def g_def)
qed

section \<open>XSDT entries\<close>

lemma append_gpa_fits:
  "pos + 8 \<le> length slot \<Longrightarrow> length slot \<le> usize_max \<Longrightarrow>
    append_gpa slot pos gpa = write_entry slot pos (le_bytes 8 gpa)"
  by (simp add: append_gpa_def write_entry_eq usize_add_def get_range_def XSDT_ENTRY_SIZE_def)

text \<open>The loop writes the addresses one after the other, when there is room for them.\<close>

lemma xsdt_loop:
  assumes "try_fold (\<lambda>(s, pos) target. rbind (slot_gpa target base_gpa) (append_gpa s pos))
      (slot, pos) ts = Inr (slot', pos')"
    and "pos + 8 * length ts \<le> length slot" and "length slot \<le> usize_max"
  shows "\<exists>gs. map (\<lambda>t. slot_gpa t base_gpa) ts = map Inr gs \<and>
    slot' = copy_at slot pos (concat (map (le_bytes 8) gs)) \<and> pos' = pos + 8 * length ts"
  using assms
proof (induction ts arbitrary: slot pos)
  case Nil
  then show ?case by (auto simp: copy_at_def)
next
  case (Cons t ts)
  from Cons.prems(1) obtain g s p where g: "slot_gpa t base_gpa = Inr g"
    and sp: "append_gpa slot pos g = Inr (s, p)"
    and rest: "try_fold (\<lambda>(s, pos) target. rbind (slot_gpa target base_gpa) (append_gpa s pos)) (s, p) ts = Inr (slot', pos')"
    by (auto simp: result_simps)
  have s: "s = copy_at slot pos (le_bytes 8 g)" "p = pos + 8"
    using sp Cons.prems(2,3) by (simp_all add: append_gpa_fits write_entry_eq split: if_splits)
  have ls: "length s = length slot" using s Cons.prems(2) by simp
  obtain gs where gs: "map (\<lambda>t. slot_gpa t base_gpa) ts = map Inr gs"
      "slot' = copy_at s p (concat (map (le_bytes 8) gs))" "pos' = p + 8 * length ts"
    using Cons.IH [OF rest] Cons.prems(2,3) ls s by auto
  have lgs: "length gs = length ts" using gs(1) by (metis length_map)
  have "slot' = copy_at slot pos (le_bytes 8 g @ concat (map (le_bytes 8) gs))"
    unfolding gs(2) s using copy_at_copy_at [of pos "le_bytes 8 g" "concat (map (le_bytes 8) gs)" slot]
      Cons.prems(2) lgs by (simp add: length_concat_map [of gs "le_bytes 8" 8])
  then show ?case using g gs s by (intro exI [of _ "g # gs"]) simp
qed

lemma xsdt_emit_table:
  assumes "oem_ok oem" and "length slot = 36 + 8 * length (xsdt_targets off)" and "length slot < 2 ^ 32"
    and "xsdt_emit oem base_gpa off slot = Inr t"
  shows "table_ok ''XSDT'' XSDT_REVISION oem t \<and> length t = length slot \<and>
    (\<exists>gs. map (\<lambda>s. slot_gpa s base_gpa) (xsdt_targets off) = map Inr gs \<and>
      drop 36 t = concat (map (le_bytes 8) gs))"
proof -
  let ?n = "word_of_nat (length slot) :: u32"
  let ?h = "sdt_header_bytes (sdt_header_new ''XSDT'' ?n XSDT_REVISION oem)"
  have lh: "length ?h = 36" by (rule length_sdt_header_bytes) (simp_all add: assms(1))
  have um: "length slot \<le> usize_max" using assms(3) by (simp add: usize_max_def)
  from assms(4) obtain slot2 p where
    loop: "try_fold (\<lambda>(s, pos) target. rbind (slot_gpa target base_gpa) (append_gpa s pos))
        (copy_at slot 0 ?h, 36) (xsdt_targets off) = Inr (slot2, p)"
    and cs: "set_sdt_checksum slot2 = Inr t"
    by (auto simp: xsdt_emit_def sdt_length_from_slot_def u32_of_len_def SDT_HEADER_SIZE_def
        result_simps write_header_Inr split: if_splits)
  have l1: "length (copy_at slot 0 ?h) = length slot" using lh assms(2) by simp
  obtain gs where gs: "map (\<lambda>s. slot_gpa s base_gpa) (xsdt_targets off) = map Inr gs"
    "slot2 = copy_at (copy_at slot 0 ?h) 36 (concat (map (le_bytes 8) gs))"
    using xsdt_loop [OF loop] l1 assms(2) um by auto
  have lgs: "length gs = length (xsdt_targets off)" using gs(1) by (metis length_map)
  let ?body = "concat (map (le_bytes 8) gs)"
  have lb: "length ?body = 8 * length (xsdt_targets off)"
    by (simp add: length_concat_map [of gs "le_bytes 8" 8] lgs)
  have "slot2 = copy_at slot 0 (?h @ ?body)"
    unfolding gs(2) using copy_at_copy_at [of 0 ?h ?body slot] lh lb assms(2) by simp
  also have "\<dots> = ?h @ ?body" by (rule copy_at_0_all) (use lh lb assms(2) in simp)
  finally have s2: "slot2 = ?h @ ?body" .
  have l2: "length slot2 = length slot" using s2 lh lb assms(2) by simp
  have t36: "take 36 slot2 = ?h" "drop 36 slot2 = ?body" using s2 lh by simp_all
  have "table_ok ''XSDT'' XSDT_REVISION oem t \<and> length t = length slot2 \<and> drop 36 t = drop 36 slot2"
    by (rule set_sdt_checksum_slot [OF cs assms(1)]) (use l2 assms(2,3) t36 in simp_all)
  then show ?thesis using l2 t36 gs(1) by auto
qed

end
