(* ===== verification/Mcfg.thy ===== *)
theory Mcfg
  imports FixedTables
begin

text \<open>
  The MCFG (\<open>emit/mcfg.rs\<close>): one allocation of 16 bytes per PCI host bridge of the root,
  and the count of the bridges in \<open>count.rs\<close> (\<open>count_mcfg\<close>).

  \<open>mcfg_emit_table\<close> describes the bytes; \<open>count_mcfg_sizes_slot\<close> shows that the
  slot that counting computes is exactly filled.
\<close>

unbundle bit_operations_syntax

definition MCFG_REVISION :: u8 where "MCFG_REVISION = 1"
definition MCFG_HEADER_SIZE :: nat where "MCFG_HEADER_SIZE = 44"
definition MCFG_ALLOCATION_SIZE :: nat where "MCFG_ALLOCATION_SIZE = 16"

record mcfg_header =
  mh_header :: sdt_header
  mh_reserved :: u64

definition mcfg_header_bytes :: "mcfg_header \<Rightarrow> bytes" where
  "mcfg_header_bytes h = sdt_header_bytes (mh_header h) @ le_bytes 8 (mh_reserved h)"

record mcfg_allocation =
  ma_base_address :: u64
  ma_segment_group :: u16
  ma_bus_start :: u8
  ma_bus_end :: u8
  ma_reserved :: u32

definition mcfg_allocation_bytes :: "mcfg_allocation \<Rightarrow> bytes" where
  "mcfg_allocation_bytes a = le_bytes 8 (ma_base_address a) @ le_bytes 2 (ma_segment_group a) @
    [ma_bus_start a, ma_bus_end a] @ le_bytes 4 (ma_reserved a)"

definition mcfg_total_size :: "u32 \<Rightarrow> dtb_error + nat" where
  "mcfg_total_size ecam_count =
    rbind (ok_or Internal (usize_mul (unat ecam_count) MCFG_ALLOCATION_SIZE)) (\<lambda>regions_bytes.
      ok_or Internal (usize_add MCFG_HEADER_SIZE regions_bytes))"

definition mcfg_step ::
  "('n, 'p) dt_view \<Rightarrow> bytes \<times> nat \<Rightarrow> 'n dtb_node \<Rightarrow> dtb_error + bytes \<times> nat" where
  "mcfg_step V st c =
    rbind (reg V c SitePciHost) (\<lambda>it.
    rbind (ok_or (MissingProperty SitePciHost ''reg'') (fst (reg_next it))) (\<lambda>(base, _).
    rbind (decode_pci_bus_range V c) (\<lambda>(bus_start, bus_end).
      write_entry (fst st) (snd st) (mcfg_allocation_bytes
        \<lparr>ma_base_address = base, ma_segment_group = 0, ma_bus_start = bus_start,
         ma_bus_end = bus_end, ma_reserved = 0\<rparr>))))"

definition mcfg_emit :: "oem_identity \<Rightarrow> ('n, 'p) dt_view \<Rightarrow> bytes \<Rightarrow> dtb_error + bytes" where
  "mcfg_emit oem V slot =
    rbind (sdt_length_from_slot slot) (\<lambda>len.
    rbind (write_header slot (mcfg_header_bytes
             \<lparr>mh_header = sdt_header_new ''MCFG'' len MCFG_REVISION oem, mh_reserved = 0\<rparr>)) (\<lambda>slot1.
    rbind (children V (root_of (tree_root V))) (\<lambda>cs.
    rbind (for_compatible V ''pci-host-ecam-generic'' (mcfg_step V) (slot1, MCFG_HEADER_SIZE) cs) (\<lambda>(slot2, _).
      set_sdt_checksum slot2))))"

definition count_mcfg :: "('n, 'p) dt_view \<Rightarrow> 'n dtb_node \<Rightarrow> dtb_error + u32" where
  "count_mcfg V n =
    rbind (children V n) (\<lambda>cs.
      for_compatible V ''pci-host-ecam-generic''
        (\<lambda>ecam_count c.
          rbind (reg V c SitePciHost) (\<lambda>it.
          rbind (ok_or (MissingProperty SitePciHost ''reg'') (fst (reg_next it))) (\<lambda>_.
          rbind (decode_pci_bus_range V c) (\<lambda>_.
            ok_or Internal (checked_add ecam_count 1)))))
        0 cs)"

section \<open>The bytes of the table\<close>

text \<open>The allocation of a bridge, read off its bindings.\<close>

definition mcfg_alloc_of :: "('n, 'p) dt_view \<Rightarrow> 'n dtb_node \<Rightarrow> bytes" where
  "mcfg_alloc_of V c =
    (case rbind (reg V c SitePciHost) (\<lambda>it.
          rbind (ok_or Internal (fst (reg_next it))) (\<lambda>(base, _).
          rbind (decode_pci_bus_range V c) (\<lambda>(bus_start, bus_end). Inr (base, bus_start, bus_end)))) of
       Inl _ \<Rightarrow> []
     | Inr (base, bus_start, bus_end) \<Rightarrow>
         le_bytes 8 base @ [0, 0, bus_start, bus_end, 0, 0, 0, 0])"

definition bridge_ok :: "('n, 'p) dt_view \<Rightarrow> 'n dtb_node \<Rightarrow> bool" where
  "bridge_ok V c = (\<exists>it r b. reg V c SitePciHost = Inr it \<and> fst (reg_next it) = Some r \<and>
    decode_pci_bus_range V c = Inr b)"

lemma le_bytes_0: "le_bytes n 0 = replicate n 0"
  by (induction n) simp_all

lemma mcfg_step_ok:
  assumes "bridge_ok V c"
  shows "mcfg_step V (s, p) c = write_entry s p (mcfg_alloc_of V c)" and "length (mcfg_alloc_of V c) = 16"
  using assms
  by (auto simp: bridge_ok_def mcfg_step_def mcfg_alloc_of_def mcfg_allocation_bytes_def
      le_bytes_0 numeral_eq_Suc split: prod.splits)

lemma mcfg_step_Inr: "mcfg_step V st c = Inr r \<Longrightarrow> bridge_ok V c"
  by (auto simp: mcfg_step_def bridge_ok_def result_simps)

lemma count_loop_u32:
  assumes "try_fold (\<lambda>n x. rbind (g x) (\<lambda>_. ok_or Internal (checked_add n 1))) n0 xs = Inr (n :: u32)"
  shows "unat n = unat n0 + length xs \<and> (\<forall>x\<in>set xs. \<exists>y. g x = Inr y)"
  using assms
proof (induction xs arbitrary: n0)
  case (Cons x xs)
  from Cons.prems obtain y n1 where y: "g x = Inr y" and n1: "checked_add n0 1 = Some n1"
    and rest: "try_fold (\<lambda>n x. rbind (g x) (\<lambda>_. ok_or Internal (checked_add n 1))) n1 xs = Inr n"
    by (auto simp: result_simps)
  from n1 have "unat n1 = Suc (unat n0)" by (simp add: checked_simps)
  with Cons.IH [OF rest] y show ?case by auto
qed simp

lemma count_mcfg_Inr:
  assumes "count_mcfg V n = Inr k" and "children V n = Inr cs"
  shows "unat k = length (compatible_nodes V ''pci-host-ecam-generic'' cs)"
    and "\<And>c. c \<in> set (compatible_nodes V ''pci-host-ecam-generic'' cs) \<Longrightarrow> bridge_ok V c"
    and "\<And>c. c \<in> set cs \<Longrightarrow> \<exists>b. has_compatible V c ''pci-host-ecam-generic'' = Inr b"
proof -
  let ?g = "\<lambda>c. rbind (reg V c SitePciHost) (\<lambda>it.
    rbind (ok_or (MissingProperty SitePciHost ''reg'') (fst (reg_next it))) (\<lambda>_. decode_pci_bus_range V c))"
  have f: "for_compatible V ''pci-host-ecam-generic''
      (\<lambda>m c. rbind (?g c) (\<lambda>_. ok_or Internal (checked_add m 1))) 0 cs = Inr k"
    using assms by (simp add: count_mcfg_def rbind_assoc)
  then have l: "try_fold (\<lambda>m c. rbind (?g c) (\<lambda>_. ok_or Internal (checked_add m 1))) 0
      (compatible_nodes V ''pci-host-ecam-generic'' cs) = Inr k"
    by (simp add: for_compatible_Inr)
  from count_loop_u32 [OF l] show "unat k = length (compatible_nodes V ''pci-host-ecam-generic'' cs)" by simp
  show "bridge_ok V c" if "c \<in> set (compatible_nodes V ''pci-host-ecam-generic'' cs)" for c
    using count_loop_u32 [OF l] that by (fastforce simp: bridge_ok_def result_simps)
  show "\<exists>b. has_compatible V c ''pci-host-ecam-generic'' = Inr b" if "c \<in> set cs" for c
    using f that by (simp add: for_compatible_Inr)
qed

text \<open>With every bridge decodable the loop writes the allocations one after the other.\<close>

lemma mcfg_loop_eq:
  assumes "\<And>c. c \<in> set cs \<Longrightarrow> bridge_ok V c" and "pos \<le> length slot" and "pos \<le> usize_max"
  shows "try_fold (mcfg_step V) (slot, pos) cs = write_entry slot pos (concat (map (mcfg_alloc_of V) cs))"
  by (rule try_fold_write_entry) (simp_all add: assms mcfg_step_ok(1))

lemma length_mcfg_allocs:
  "(\<And>c. c \<in> set cs \<Longrightarrow> bridge_ok V c) \<Longrightarrow> length (concat (map (mcfg_alloc_of V) cs)) = length cs * 16"
  by (rule length_concat_map) (simp add: mcfg_step_ok(2))

lemma mcfg_emit_Inr:
  assumes "mcfg_emit oem V slot = Inr t" and "oem_ok oem" and "44 \<le> length slot"
  obtains cs where "children V (root_of (tree_root V)) = Inr cs"
    "table_ok ''MCFG'' MCFG_REVISION oem t" "length t = length slot"
    "take (8 + 16 * length (compatible_nodes V ''pci-host-ecam-generic'' cs)) (drop 36 t) =
      le_bytes 8 (0 :: u64) @ concat (map (mcfg_alloc_of V) (compatible_nodes V ''pci-host-ecam-generic'' cs))"
proof -
  let ?hd = "sdt_header_new ''MCFG'' (word_of_nat (length slot)) MCFG_REVISION oem"
  let ?z = "le_bytes 8 (0 :: u64)"
  let ?nodes = "compatible_nodes V ''pci-host-ecam-generic''"
  from assms(1) obtain s1 cs s2 p where len: "length slot < 2 ^ 32"
    and w: "write_header slot (sdt_header_bytes ?hd @ ?z) = Inr s1"
    and cs: "children V (root_of (tree_root V)) = Inr cs"
    and loop: "for_compatible V ''pci-host-ecam-generic'' (mcfg_step V) (s1, 44) cs = Inr (s2, p)"
    and c: "set_sdt_checksum s2 = Inr t"
    by (auto simp: mcfg_emit_def result_simps sdt_length_from_slot_Inr mcfg_header_bytes_def MCFG_HEADER_SIZE_def)
  have l1: "length s1 = length slot" using w assms(3) by (auto simp: write_header_Inr)
  have tf: "try_fold (mcfg_step V) (s1, 44) (?nodes cs) = Inr (s2, p)"
    using loop by (simp add: for_compatible_Inr)
  have we: "write_entry s1 44 (concat (map (mcfg_alloc_of V) (?nodes cs))) = Inr (s2, p)"
  proof (rule try_fold_writes [OF tf])
    show "write_entry s p (mcfg_alloc_of V x) = Inr r" if "mcfg_step V (s, p) x = Inr r" for s p x r
      using that mcfg_step_ok(1) [OF mcfg_step_Inr [OF that]] by simp
  qed (use l1 assms(3) in \<open>simp_all add: usize_max_def\<close>)
  have ok: "\<And>x. x \<in> set (?nodes cs) \<Longrightarrow> bridge_ok V x"
    using tf try_fold_all_Inr [OF tf] mcfg_step_Inr by blast
  have lb: "length (concat (map (mcfg_alloc_of V) (?nodes cs))) = length (?nodes cs) * 16"
    by (rule length_mcfg_allocs [OF ok])
  have we': "write_entry s1 (36 + length ?z) (concat (map (mcfg_alloc_of V) (?nodes cs))) = Inr (s2, p)"
    using we by simp
  note f = finish_table [OF w we' c assms(2) _ len]
  show ?thesis
    by (rule that [OF cs]) (use f lb in \<open>simp_all add: mult.commute\<close>)
qed

text \<open>Counting sizes the slot so that the allocations fill it exactly, and emitting cannot fail.\<close>

lemma mcfg_count_emit:
  assumes cnt: "count_mcfg V (root_of (tree_root V)) = Inr k" and sz: "mcfg_total_size k = Inr n"
    and len: "length slot = n" "n < 2 ^ 32" and oem: "oem_ok oem"
  shows "\<exists>t cs. mcfg_emit oem V slot = Inr t \<and> table_ok ''MCFG'' MCFG_REVISION oem t \<and> length t = n \<and>
    children V (root_of (tree_root V)) = Inr cs \<and>
    drop 44 t = concat (map (mcfg_alloc_of V) (compatible_nodes V ''pci-host-ecam-generic'' cs))"
proof -
  let ?hd = "sdt_header_new ''MCFG'' (word_of_nat (length slot)) MCFG_REVISION oem"
  let ?z = "le_bytes 8 (0 :: u64)"
  obtain cs where cs: "children V (root_of (tree_root V)) = Inr cs"
    using cnt by (auto simp: count_mcfg_def result_simps)
  let ?nodes = "compatible_nodes V ''pci-host-ecam-generic'' cs"
  let ?body = "concat (map (mcfg_alloc_of V) ?nodes)"
  note c = count_mcfg_Inr [OF cnt cs]
  have lb: "length ?body = length ?nodes * 16" by (rule length_mcfg_allocs [OF c(2)])
  have n: "n = 44 + length ?body"
    using sz c(1) lb by (simp add: mcfg_total_size_def result_simps checked_simps MCFG_HEADER_SIZE_def MCFG_ALLOCATION_SIZE_def)
  obtain s1 s2 p t where w: "write_header slot (sdt_header_bytes ?hd @ ?z) = Inr s1"
    and l1: "length s1 = length slot"
    and we: "write_entry s1 (36 + length ?z) ?body = Inr (s2, p)" and cs2: "set_sdt_checksum s2 = Inr t"
    using table_succeeds [of oem "''MCFG''" ?z ?body slot MCFG_REVISION] len oem n by auto
  have "try_fold (mcfg_step V) (s1, 44) ?nodes = Inr (s2, p)"
    using we by (subst mcfg_loop_eq) (use c(2) l1 len n in \<open>auto simp: usize_max_def\<close>)
  then have loop: "for_compatible V ''pci-host-ecam-generic'' (mcfg_step V) (s1, 44) cs = Inr (s2, p)"
    using c(3) by (simp add: for_compatible_Inr)
  have em: "mcfg_emit oem V slot = Inr t"
    using w loop cs cs2 len
    by (simp add: mcfg_emit_def sdt_length_from_slot_def u32_of_len_def mcfg_header_bytes_def MCFG_HEADER_SIZE_def)
  note f = finish_table [OF w we cs2 oem _ len(2) [folded len(1)]]
  have "length t = n" "take (length ?body + 8) (drop 36 t) = ?z @ ?body"
    using f(2,3) len by (simp_all add: add.commute)
  then have "drop 36 t = ?z @ ?body" using n by simp
  then have "drop 8 (drop 36 t) = ?body" by simp
  then have "drop 44 t = ?body" by simp
  then show ?thesis using em f(1,2) cs len by auto
qed

interpretation mcfg_table: table_emitter "mcfg_emit oem V" "''MCFG''" MCFG_REVISION oem "\<lambda>n. oem_ok oem \<and> 44 \<le> n"
  for oem :: oem_identity and V :: "('n, 'p) dt_view"
  by unfold_locales (auto elim: mcfg_emit_Inr)

end
