(* ===== verification/Madt.thy ===== *)
theory Madt
  imports Mcfg
begin

text \<open>
  The MADT (\<open>emit/madt.rs\<close>) and the part of \<open>count.rs\<close> that sizes it
  (\<open>intc_base\<close>, \<open>count_intc\<close>).

  Each cpu of the cache gets a local APIC and an NMI entry, in the xAPIC or in the x2APIC form;
  after them each IOAPIC gets an entry with the next id and the next base of 24 interrupts.
  \<open>madt_count_emit\<close> gives the bytes of the whole table for at most 255 IOAPICs, and
  \<open>madt_too_many_ioapics\<close> the failure from the 256th on.
\<close>

unbundle bit_operations_syntax

section \<open>Entries\<close>

definition MADT_REVISION :: u8 where "MADT_REVISION = 5"
definition LOCAL_APIC :: u8 where "LOCAL_APIC = 0"
definition IO_APIC :: u8 where "IO_APIC = 1"
definition LOCAL_APIC_NMI :: u8 where "LOCAL_APIC_NMI = 4"
definition PROCESSOR_LOCAL_X2APIC :: u8 where "PROCESSOR_LOCAL_X2APIC = 9"
definition LOCAL_X2APIC_NMI :: u8 where "LOCAL_X2APIC_NMI = 10"
definition XAPIC_ID_MAX :: u32 where "XAPIC_ID_MAX = 254"
definition LAPIC_ENABLED :: u32 where "LAPIC_ENABLED = push_bit 0 1"
definition LAPIC_ONLINE_CAPABLE :: u32 where "LAPIC_ONLINE_CAPABLE = push_bit 1 1"
definition NMI_EDGE_HIGH :: u16 where "NMI_EDGE_HIGH = 5"
definition LINT_NMI :: u8 where "LINT_NMI = 1"
definition MADT_HEADER_SIZE :: nat where "MADT_HEADER_SIZE = 44"
definition LOCAL_APIC_ENTRY_SIZE :: nat where "LOCAL_APIC_ENTRY_SIZE = 8"
definition LOCAL_X2APIC_ENTRY_SIZE :: nat where "LOCAL_X2APIC_ENTRY_SIZE = 16"
definition IO_APIC_ENTRY_SIZE :: nat where "IO_APIC_ENTRY_SIZE = 12"
definition LOCAL_APIC_NMI_ENTRY_SIZE :: nat where "LOCAL_APIC_NMI_ENTRY_SIZE = 6"
definition LOCAL_X2APIC_NMI_ENTRY_SIZE :: nat where "LOCAL_X2APIC_NMI_ENTRY_SIZE = 12"

definition madt_header_fields :: "sdt_header \<Rightarrow> u32 \<Rightarrow> fields" where
  "madt_header_fields h lapic_base = [(''header'', sdt_header_bytes h),
    (''local_apic_address'', u32_field lapic_base), (''flags'', u32_field 0)]"

definition local_apic_entry :: "u8 \<Rightarrow> u8 \<Rightarrow> u32 \<Rightarrow> fields" where
  "local_apic_entry processor_id apic_id flags =
    [(''entry_type'', u8_field LOCAL_APIC), (''length'', u8_field 8),
     (''processor_id'', u8_field processor_id), (''apic_id'', u8_field apic_id),
     (''flags'', u32_field flags)]"

definition local_x2apic_entry :: "u32 \<Rightarrow> u32 \<Rightarrow> u32 \<Rightarrow> fields" where
  "local_x2apic_entry processor_id apic_id flags =
    [(''entry_type'', u8_field PROCESSOR_LOCAL_X2APIC), (''length'', u8_field 16),
     (''reserved'', [0, 0]), (''x2apic_id'', u32_field apic_id), (''flags'', u32_field flags),
     (''uid'', u32_field processor_id)]"

definition io_apic_entry :: "u8 \<Rightarrow> u32 \<Rightarrow> u32 \<Rightarrow> fields" where
  "io_apic_entry io_apic_id address gsi_base =
    [(''entry_type'', u8_field IO_APIC), (''length'', u8_field 12), (''io_apic_id'', u8_field io_apic_id),
     (''reserved'', u8_field 0), (''io_apic_address'', u32_field address),
     (''global_system_interrupt_base'', u32_field gsi_base)]"

definition local_apic_nmi_entry :: "u8 \<Rightarrow> fields" where
  "local_apic_nmi_entry processor_id =
    [(''entry_type'', u8_field LOCAL_APIC_NMI), (''length'', u8_field 6),
     (''processor_id'', u8_field processor_id), (''flags'', u16_field NMI_EDGE_HIGH),
     (''lint'', u8_field LINT_NMI)]"

definition local_x2apic_nmi_entry :: "u32 \<Rightarrow> fields" where
  "local_x2apic_nmi_entry uid =
    [(''entry_type'', u8_field LOCAL_X2APIC_NMI), (''length'', u8_field 12),
     (''flags'', u16_field NMI_EDGE_HIGH), (''uid'', u32_field uid), (''lint'', u8_field LINT_NMI),
     (''reserved'', [0, 0, 0])]"

definition lapic_flags :: "dt_status \<Rightarrow> u32" where
  "lapic_flags st = (case st of
     StOkay \<Rightarrow> LAPIC_ENABLED
   | StDisabled \<Rightarrow> LAPIC_ONLINE_CAPABLE
   | StReserved \<Rightarrow> 0
   | StFail \<Rightarrow> 0)"

definition lapic_entry_size_for_apic :: "u32 \<Rightarrow> u32 \<Rightarrow> nat" where
  "lapic_entry_size_for_apic apic_id processor_id =
    (if apic_id \<le> XAPIC_ID_MAX \<and> processor_id \<le> XAPIC_ID_MAX
     then LOCAL_APIC_ENTRY_SIZE else LOCAL_X2APIC_ENTRY_SIZE)"

definition nmi_entry_size_for_uid :: "u32 \<Rightarrow> nat" where
  "nmi_entry_size_for_uid uid =
    (if uid \<le> XAPIC_ID_MAX then LOCAL_APIC_NMI_ENTRY_SIZE else LOCAL_X2APIC_NMI_ENTRY_SIZE)"

definition madt_total_size :: "u32 \<Rightarrow> nat \<Rightarrow> dtb_error + nat" where
  "madt_total_size ioapic_count vcpu_entries_bytes =
    rbind (ok_or Internal (usize_mul (unat ioapic_count) IO_APIC_ENTRY_SIZE)) (\<lambda>ioapics_bytes.
    rbind (ok_or Internal (usize_add MADT_HEADER_SIZE vcpu_entries_bytes)) (\<lambda>s.
      ok_or Internal (usize_add s ioapics_bytes)))"

section \<open>Emitting\<close>

definition emit_lapic_entry ::
  "bytes \<Rightarrow> nat \<Rightarrow> u32 \<Rightarrow> u32 \<Rightarrow> dt_status \<Rightarrow> dtb_error + bytes \<times> nat" where
  "emit_lapic_entry slot pos processor_id apic_id status =
    (let flags = lapic_flags status in
     if apic_id \<le> XAPIC_ID_MAX \<and> processor_id \<le> XAPIC_ID_MAX then
       rbind (ok_or Internal (u8_of_u32 processor_id)) (\<lambda>proc_u8.
       rbind (ok_or Internal (u8_of_u32 apic_id)) (\<lambda>apic_u8.
         write_entry slot pos (fields_bytes (local_apic_entry proc_u8 apic_u8 flags))))
     else write_entry slot pos (fields_bytes (local_x2apic_entry processor_id apic_id flags)))"

definition emit_nmi_entry :: "bytes \<Rightarrow> nat \<Rightarrow> u32 \<Rightarrow> dtb_error + bytes \<times> nat" where
  "emit_nmi_entry slot pos processor_id =
    (if processor_id \<le> XAPIC_ID_MAX then
       rbind (ok_or Internal (u8_of_u32 processor_id)) (\<lambda>proc_u8.
         write_entry slot pos (fields_bytes (local_apic_nmi_entry proc_u8)))
     else write_entry slot pos (fields_bytes (local_x2apic_nmi_entry processor_id)))"

definition madt_cpu_step ::
  "bytes \<times> nat \<Rightarrow> u32 \<times> u32 \<times> u32 option \<times> dt_status \<Rightarrow> dtb_error + bytes \<times> nat" where
  "madt_cpu_step st e = (case (st, e) of ((s, pos), processor_id, apic_id, _, status) \<Rightarrow>
    rbind (emit_lapic_entry s pos processor_id apic_id status) (\<lambda>(s1, pos1).
      emit_nmi_entry s1 pos1 processor_id))"

definition madt_ioapic_step ::
  "('n, 'p) dt_view \<Rightarrow> (bytes \<times> nat) \<times> u8 \<times> u32 \<Rightarrow> 'n dtb_node \<Rightarrow> dtb_error + (bytes \<times> nat) \<times> u8 \<times> u32" where
  "madt_ioapic_step V st n = (case st of ((s, pos), io_id, gsi_base) \<Rightarrow>
    rbind (reg V n SiteIntc) (\<lambda>it.
    rbind (ok_or Internal (fst (reg_next it))) (\<lambda>(base, _).
    rbind (ok_or Internal (u32_of_u64 base)) (\<lambda>base32.
    rbind (write_entry s pos (fields_bytes (io_apic_entry io_id base32 gsi_base))) (\<lambda>w.
    rbind (ok_or Internal (checked_add io_id 1)) (\<lambda>io_id'.
    rbind (ok_or Internal (checked_add gsi_base IOAPIC_GSI_STRIDE)) (\<lambda>gsi_base'.
      Inr (w, io_id', gsi_base'))))))))"

definition madt_emit ::
  "oem_identity \<Rightarrow> ('n, 'p) dt_view \<Rightarrow> u32 \<Rightarrow> cpu_cache \<Rightarrow> bytes \<Rightarrow> dtb_error + bytes" where
  "madt_emit oem V lapic_base cache slot =
    rbind (sdt_length_from_slot slot) (\<lambda>len.
    rbind (write_header slot (fields_bytes
      (madt_header_fields (sdt_header_new ''APIC'' len MADT_REVISION oem) lapic_base))) (\<lambda>slot1.
    rbind (try_fold madt_cpu_step (slot1, MADT_HEADER_SIZE) (cpu_cache_entries cache)) (\<lambda>w.
    rbind (ioapic_nodes V (root_of (tree_root V))) (\<lambda>ns.
    rbind (try_fold (madt_ioapic_step V) (w, 0, 0) ns) (\<lambda>((slot2, _), _, _).
      set_sdt_checksum slot2)))))"

section \<open>Counting\<close>

definition intc_base :: "('n, 'p) dt_view \<Rightarrow> 'n dtb_node \<Rightarrow> dtb_error + u32" where
  "intc_base V n =
    rbind (reg V n SiteIntc) (\<lambda>it.
    rbind (ok_or (MalformedProperty SiteIntc ''reg'') (fst (reg_next it))) (\<lambda>(base, _).
      ok_or (ValueOutOfRange SiteIntc ''reg'') (u32_of_u64 base)))"

definition count_intc :: "('n, 'p) dt_view \<Rightarrow> 'n dtb_node \<Rightarrow> dtb_error + u32 \<times> u32" where
  "count_intc V n =
    rbind (rbind (find_lapic V n) (intc_base V)) (\<lambda>lapic_base.
    rbind (ioapic_nodes V n) (\<lambda>ns.
    rbind (try_fold (\<lambda>k c. rbind (intc_base V c) (\<lambda>_. ok_or Internal (checked_add k 1))) 0 ns) (\<lambda>k.
      Inr (lapic_base, k))))"

section \<open>The bytes of the entries\<close>

text \<open>What a cpu contributes: the entry forms are chosen by its ids alone.\<close>

definition madt_cpu_bytes :: "u32 \<times> u32 \<times> u32 option \<times> dt_status \<Rightarrow> bytes" where
  "madt_cpu_bytes e = (case e of (pid, apic, _, st) \<Rightarrow>
    (if apic \<le> XAPIC_ID_MAX \<and> pid \<le> XAPIC_ID_MAX
     then fields_bytes (local_apic_entry (ucast pid) (ucast apic) (lapic_flags st))
     else fields_bytes (local_x2apic_entry pid apic (lapic_flags st))) @
    (if pid \<le> XAPIC_ID_MAX then fields_bytes (local_apic_nmi_entry (ucast pid))
     else fields_bytes (local_x2apic_nmi_entry pid)))"

fun ioapics_bytes :: "u8 \<Rightarrow> u32 \<Rightarrow> u32 list \<Rightarrow> bytes" where
  "ioapics_bytes i g [] = []"
| "ioapics_bytes i g (b # bs) =
    fields_bytes (io_apic_entry i b g) @ ioapics_bytes (i + 1) (g + IOAPIC_GSI_STRIDE) bs"

lemma xapic_u8: "w \<le> XAPIC_ID_MAX \<Longrightarrow> u8_of_u32 w = Some (ucast w)"
proof -
  assume "w \<le> XAPIC_ID_MAX"
  then have "unat w \<le> unat XAPIC_ID_MAX" by (simp add: word_le_nat_alt)
  then show ?thesis by (simp add: u8_of_u32_def XAPIC_ID_MAX_def)
qed

lemma madt_cpu_step_eq: "madt_cpu_step (s, p) e = write_entry s p (madt_cpu_bytes e)"
proof -
  obtain pid apic tag st where e: "e = (pid, apic, tag, st)" by (cases e)
  have l: "emit_lapic_entry s p pid apic st = write_entry s p
      (if apic \<le> XAPIC_ID_MAX \<and> pid \<le> XAPIC_ID_MAX
       then fields_bytes (local_apic_entry (ucast pid) (ucast apic) (lapic_flags st))
       else fields_bytes (local_x2apic_entry pid apic (lapic_flags st)))" for s p
    by (simp add: emit_lapic_entry_def xapic_u8 Let_def)
  have n: "emit_nmi_entry s p pid = write_entry s p
      (if pid \<le> XAPIC_ID_MAX then fields_bytes (local_apic_nmi_entry (ucast pid))
       else fields_bytes (local_x2apic_nmi_entry pid))" for s p
    by (simp add: emit_nmi_entry_def xapic_u8)
  show ?thesis by (simp only: e madt_cpu_step_def prod.case l n write_entry_compose madt_cpu_bytes_def)
qed

lemma length_madt_cpu_bytes:
  "length (madt_cpu_bytes (pid, apic, tag, st)) =
    lapic_entry_size_for_apic apic pid + nmi_entry_size_for_uid pid"
  by (simp add: madt_cpu_bytes_def fields_bytes_def local_apic_entry_def local_x2apic_entry_def
      local_apic_nmi_entry_def local_x2apic_nmi_entry_def lapic_entry_size_for_apic_def
      nmi_entry_size_for_uid_def LOCAL_APIC_ENTRY_SIZE_def LOCAL_X2APIC_ENTRY_SIZE_def
      LOCAL_APIC_NMI_ENTRY_SIZE_def LOCAL_X2APIC_NMI_ENTRY_SIZE_def)

lemma length_io_apic_entry [simp]: "length (fields_bytes (io_apic_entry i b g)) = 12"
  by (simp add: fields_bytes_def io_apic_entry_def)

lemma length_ioapics_bytes [simp]: "length (ioapics_bytes i g bs) = 12 * length bs"
  by (induction bs arbitrary: i g) simp_all

lemma intc_base_Inr:
  "intc_base V n = Inr b \<longleftrightarrow>
    (\<exists>it r. reg V n SiteIntc = Inr it \<and> fst (reg_next it) = Some r \<and> u32_of_u64 (fst r) = Some b)"
  by (auto simp: intc_base_def result_simps)

lemma ioapic_loop_eq:
  assumes "map (intc_base V) ns = map Inr bs" and "unat i + length ns \<le> 255"
    and "unat g + 24 * length ns < 2 ^ 32" and "pos \<le> length slot" and "pos \<le> usize_max"
  shows "\<exists>i' g'. try_fold (madt_ioapic_step V) ((slot, pos), i, g) ns =
    rbind (write_entry slot pos (ioapics_bytes i g bs)) (\<lambda>w. Inr (w, i', g'))"
  using assms
proof (induction ns arbitrary: bs i g slot pos)
  case Nil
  then show ?case by (auto simp: write_entry_Nil)
next
  case (Cons n ns)
  then obtain b bs' where bs: "bs = b # bs'" "intc_base V n = Inr b" "map (intc_base V) ns = map Inr bs'"
    by (cases bs) auto
  have ui: "unat (i + 1) = Suc (unat i)" by (rule unat_Suc_word) (use Cons.prems(2) in simp)
  have ci: "checked_add i 1 = Some (i + 1)" using ui by (simp add: checked_simps)
  have ug: "unat (g + IOAPIC_GSI_STRIDE) = unat g + 24"
    using unat_add_lem [of g IOAPIC_GSI_STRIDE] Cons.prems(3) by (simp add: IOAPIC_GSI_STRIDE_def)
  have cg: "checked_add g IOAPIC_GSI_STRIDE = Some (g + IOAPIC_GSI_STRIDE)"
    using ug by (simp add: checked_simps IOAPIC_GSI_STRIDE_def)
  let ?e = "fields_bytes (io_apic_entry i b g)"
  have step: "madt_ioapic_step V ((slot, pos), i, g) n =
      rbind (write_entry slot pos ?e) (\<lambda>w. Inr (w, i + 1, g + IOAPIC_GSI_STRIDE))"
    using bs(2) by (auto simp: madt_ioapic_step_def intc_base_Inr ci cg)
  show ?case
  proof (cases "write_entry slot pos ?e")
    case (Inl e)
    then have "write_entry slot pos (?e @ x) = Inl e" for x
      using write_entry_compose [of slot pos ?e x] by simp
    with Inl step bs(1) show ?thesis by simp
  next
    case (Inr w)
    obtain s p where w: "w = (s, p)" by (cases w)
    have sp: "p = pos + 12" "pos + 12 \<le> length slot" "pos + 12 \<le> usize_max" "s = copy_at slot pos ?e"
      using Inr w by (auto simp: write_entry_eq split: if_splits)
    obtain i' g' where "try_fold (madt_ioapic_step V) ((s, p), i + 1, g + IOAPIC_GSI_STRIDE) ns =
        rbind (write_entry s p (ioapics_bytes (i + 1) (g + IOAPIC_GSI_STRIDE) bs')) (\<lambda>w. Inr (w, i', g'))"
      using Cons.IH [OF bs(3), of "i + 1" "g + IOAPIC_GSI_STRIDE" p s] ui ug Cons.prems(2,3) sp by auto
    moreover have "write_entry s p x = write_entry slot pos (?e @ x)" for x
      using write_entry_compose [of slot pos ?e x] Inr w by simp
    ultimately show ?thesis using step Inr w bs(1) by auto
  qed
qed

section \<open>The bytes of the table\<close>

lemma count_intc_Inr:
  assumes "count_intc V n = Inr (lb, k)"
  obtains ns bs where "ioapic_nodes V n = Inr ns" "map (intc_base V) ns = map Inr bs"
    "unat k = length ns" "length bs = length ns"
proof -
  from assms obtain ns where ns: "ioapic_nodes V n = Inr ns"
    and l: "try_fold (\<lambda>k c. rbind (intc_base V c) (\<lambda>_. ok_or Internal (checked_add k 1))) 0 ns = Inr k"
    by (auto simp: count_intc_def result_simps)
  obtain bs where bs: "map (intc_base V) ns = map Inr bs"
    using map_all_Inr [of ns "intc_base V"] count_loop_u32 [OF l] by auto
  show ?thesis by (rule that [OF ns bs]) (use count_loop_u32 [OF l] map_eq_imp_length_eq [OF bs] in auto)
qed

lemma madt_cpus_loop:
  assumes "pos \<le> length slot" and "pos \<le> usize_max"
  shows "try_fold madt_cpu_step (slot, pos) es = write_entry slot pos (concat (map madt_cpu_bytes es))"
  by (rule try_fold_write_entry) (simp_all add: assms madt_cpu_step_eq)

definition madt_head :: "u32 \<Rightarrow> bytes" where
  "madt_head lapic_base = u32_field lapic_base @ u32_field 0"

lemma madt_header_bytes: "fields_bytes (madt_header_fields h lb) = sdt_header_bytes h @ madt_head lb"
  by (simp add: fields_bytes_def madt_header_fields_def madt_head_def)

lemma length_madt_head [simp]: "length (madt_head lb) = 8"
  by (simp add: madt_head_def)

text \<open>With the slot that counting sizes, emitting writes exactly these bytes.\<close>

lemma madt_count_emit:
  assumes cnt: "count_intc V (root_of (tree_root V)) = Inr (lb, k)" and few: "unat k \<le> 255"
    and vb: "vb = length (concat (map madt_cpu_bytes (cpu_cache_entries cache)))"
    and sz: "madt_total_size k vb = Inr n" and len: "length slot = n" "n < 2 ^ 32" and oem: "oem_ok oem"
  shows "\<exists>t ns bs. madt_emit oem V lb cache slot = Inr t \<and> table_ok ''APIC'' MADT_REVISION oem t \<and>
    length t = n \<and> ioapic_nodes V (root_of (tree_root V)) = Inr ns \<and>
    map (intc_base V) ns = map Inr bs \<and>
    drop 36 t = madt_head lb @ concat (map madt_cpu_bytes (cpu_cache_entries cache)) @ ioapics_bytes 0 0 bs"
proof -
  let ?hd = "sdt_header_new ''APIC'' (word_of_nat (length slot)) MADT_REVISION oem"
  let ?cpus = "concat (map madt_cpu_bytes (cpu_cache_entries cache))"
  obtain ns bs where ns: "ioapic_nodes V (root_of (tree_root V)) = Inr ns"
      "map (intc_base V) ns = map Inr bs" "unat k = length ns" "length bs = length ns"
    by (rule count_intc_Inr [OF cnt])
  let ?body = "?cpus @ ioapics_bytes 0 0 bs"
  have n: "n = 44 + length ?body"
    using sz ns(3,4) vb
    by (simp add: madt_total_size_def result_simps checked_simps MADT_HEADER_SIZE_def IO_APIC_ENTRY_SIZE_def)
  obtain s1 s2 p t where w: "write_header slot (sdt_header_bytes ?hd @ madt_head lb) = Inr s1"
    and l1: "length s1 = length slot"
    and we: "write_entry s1 (36 + length (madt_head lb)) ?body = Inr (s2, p)"
    and cs: "set_sdt_checksum s2 = Inr t"
    using table_succeeds [of oem "''APIC''" "madt_head lb" ?body slot MADT_REVISION] len oem n by auto
  have um: "length slot \<le> usize_max" using len by (simp add: usize_max_def)
  have we44: "write_entry s1 44 (?cpus @ ioapics_bytes 0 0 bs) = Inr (s2, p)" using we by simp
  obtain sc pc where c: "write_entry s1 44 ?cpus = Inr (sc, pc)"
      "write_entry sc pc (ioapics_bytes 0 0 bs) = Inr (s2, p)"
    using we44 unfolding write_entry_compose [symmetric] by (auto simp: rbind_eq_Inr)
  have loop1: "try_fold madt_cpu_step (s1, 44) (cpu_cache_entries cache) = Inr (sc, pc)"
    using madt_cpus_loop [of 44 s1] l1 um len n c(1) by simp
  have pc: "pc \<le> length sc" "pc \<le> usize_max" using c(1) by (auto simp: write_entry_eq split: if_splits)
  obtain i' g' where "try_fold (madt_ioapic_step V) ((sc, pc), 0, 0) ns = Inr ((s2, p), i', g')"
    using ioapic_loop_eq [OF ns(2) _ _ pc, of 0 0] few ns(3) c(2) by auto
  then have em: "madt_emit oem V lb cache slot = Inr t"
    using w loop1 ns(1) cs len
    by (simp add: madt_emit_def sdt_length_from_slot_def u32_of_len_def madt_header_bytes MADT_HEADER_SIZE_def)
  note f = finish_table [OF w we cs oem _ len(2) [folded len(1)]]
  have "drop 36 t = madt_head lb @ ?body" using f(2,3) len n by simp
  with em f(1,2) ns(1,2) len show ?thesis by auto
qed

lemma madt_ioapic_loop_bound:
  "try_fold (madt_ioapic_step V) (w, i, g) ns = Inr r \<Longrightarrow> unat i + length ns \<le> 255"
proof (induction ns arbitrary: w i g)
  case Nil
  then show ?case using unat_u8_less [of i] by simp
next
  case (Cons n ns)
  then obtain w' i' g' where st: "madt_ioapic_step V (w, i, g) n = Inr (w', i', g')"
    and rest: "try_fold (madt_ioapic_step V) (w', i', g') ns = Inr r"
    by (auto simp: result_simps)
  have "checked_add i 1 = Some i'" using st by (auto simp: madt_ioapic_step_def result_simps split: prod.splits)
  then have "unat i' = Suc (unat i)" by (simp add: checked_simps)
  with Cons.IH [OF rest] show ?case by simp
qed

text \<open>From the 256th IOAPIC on emitting fails, although counting accepts the tree.\<close>

lemma madt_emit_many:
  assumes cnt: "count_intc V (root_of (tree_root V)) = Inr (lb, k)" and many: "256 \<le> unat k"
  shows "madt_emit oem V lb cache slot = Inl Internal"
proof -
  obtain ns bs where ns: "ioapic_nodes V (root_of (tree_root V)) = Inr ns"
      "map (intc_base V) ns = map Inr bs" "unat k = length ns"
    by (rule count_intc_Inr [OF cnt])
  have ok: "\<exists>b. intc_base V n = Inr b" if "n \<in> set ns" for n
    using ns(2) that by (metis (no_types, lifting) ex_map_conv list.set_map image_iff)
  have step: "e = Internal" if "madt_ioapic_step V u x = Inl e" "x \<in> set ns" for u x e
    using ok [OF that(2)] that(1)
    by (auto simp: madt_ioapic_step_def intc_base_Inr result_simps write_entry_eq split: prod.splits if_splits)
  have cpu: "e = Internal" if "madt_cpu_step u x = Inl e" for u x e
    using that by (cases u) (auto simp: madt_cpu_step_eq write_entry_eq split: if_splits)
  show ?thesis
  proof (cases "madt_emit oem V lb cache slot")
    case (Inl e)
    then have "e = Internal"
      by (auto simp: madt_emit_def result_simps sdt_length_from_slot_def write_header_def ns(1)
          set_sdt_checksum_def Let_def dest!: try_fold_Inl dest: step cpu split: if_splits)
    with Inl show ?thesis by simp
  next
    case (Inr t)
    then obtain w r where "try_fold (madt_ioapic_step V) (w, 0, 0) ns = Inr r"
      using ns(1) by (auto simp: madt_emit_def result_simps)
    from madt_ioapic_loop_bound [OF this] ns(3) many show ?thesis by simp
  qed
qed

text \<open>Any successful run leaves a table, whatever the length of the slot.\<close>

lemma madt_ioapic_writes:
  assumes "try_fold (madt_ioapic_step V) ((slot, pos), i, g) ns = Inr ((slot', pos'), r)"
    and "pos \<le> length slot" and "pos \<le> usize_max"
  shows "\<exists>b. write_entry slot pos b = Inr (slot', pos')"
  using assms
proof (induction ns arbitrary: slot pos i g)
  case Nil
  then show ?case by (auto intro!: exI [of _ "[]"] simp: write_entry_Nil)
next
  case (Cons n ns)
  then obtain s p i' g' where st: "madt_ioapic_step V ((slot, pos), i, g) n = Inr ((s, p), i', g')"
    and rest: "try_fold (madt_ioapic_step V) ((s, p), i', g') ns = Inr ((slot', pos'), r)"
    by (auto simp: result_simps)
  obtain b where b: "write_entry slot pos b = Inr (s, p)"
    using st by (auto simp: madt_ioapic_step_def result_simps)
  then have "p \<le> length s" "p \<le> usize_max" by (auto simp: write_entry_eq split: if_splits)
  then obtain b' where "write_entry s p b' = Inr (slot', pos')" using Cons.IH [OF rest] by blast
  with b write_entry_compose [of slot pos b b'] show ?case by auto
qed

lemma madt_emit_Inr:
  assumes "madt_emit oem V lb cache slot = Inr t" and "oem_ok oem" and "44 \<le> length slot"
  shows "table_ok ''APIC'' MADT_REVISION oem t \<and> length t = length slot"
proof -
  let ?hd = "sdt_header_new ''APIC'' (word_of_nat (length slot)) MADT_REVISION oem"
  from assms(1) obtain s1 sc pc ns s2 p r where len: "length slot < 2 ^ 32"
    and w: "write_header slot (sdt_header_bytes ?hd @ madt_head lb) = Inr s1"
    and c: "try_fold madt_cpu_step (s1, 44) (cpu_cache_entries cache) = Inr (sc, pc)"
    and i: "try_fold (madt_ioapic_step V) ((sc, pc), 0, 0) ns = Inr ((s2, p), r)"
    and cs: "set_sdt_checksum s2 = Inr t"
    by (auto simp: madt_emit_def result_simps sdt_length_from_slot_Inr madt_header_bytes MADT_HEADER_SIZE_def)
  have l1: "length s1 = length slot" using w assms(3) by (auto simp: write_header_Inr)
  have wc: "write_entry s1 44 (concat (map madt_cpu_bytes (cpu_cache_entries cache))) = Inr (sc, pc)"
    using madt_cpus_loop [of 44 s1] c l1 assms(3) by (simp add: usize_max_def)
  then have "pc \<le> length sc" "pc \<le> usize_max" by (auto simp: write_entry_eq split: if_splits)
  then obtain b where "write_entry sc pc b = Inr (s2, p)" using madt_ioapic_writes [OF i] by blast
  then have "write_entry s1 (36 + length (madt_head lb)) (concat (map madt_cpu_bytes (cpu_cache_entries cache)) @ b) = Inr (s2, p)"
    using wc write_entry_compose [of s1 44 "concat (map madt_cpu_bytes (cpu_cache_entries cache))" b] by simp
  from finish_table(1,2) [OF w this cs assms(2) _ len] show ?thesis by simp
qed

interpretation madt_table: table_emitter "madt_emit oem V lb cache" "''APIC''" MADT_REVISION oem
    "\<lambda>n. oem_ok oem \<and> 44 \<le> n"
  for oem :: oem_identity and V :: "('n, 'p) dt_view" and lb :: u32 and cache :: cpu_cache
  by unfold_locales (auto dest: madt_emit_Inr)

end
