(* ===== verification/Srat.thy ===== *)
theory Srat
  imports Madt
begin

text \<open>
  The SRAT (\<open>emit/srat.rs\<close>) and the NUMA part of \<open>count.rs\<close> (\<open>count_numa\<close>).

  Every cpu of the cache gets an affinity entry, every \<open>reg\<close> pair of every memory node
  another. \<open>count_numa_Inr\<close> says what the count guarantees: either nothing is tagged, or
  every cpu and every memory node is, and the number of regions is right.
  \<open>srat_count_emit\<close> gives the bytes of the table.
\<close>

unbundle bit_operations_syntax

section \<open>Entries\<close>

definition SRAT_REVISION :: u8 where "SRAT_REVISION = 3"
definition SRAT_PROCESSOR_LOCAL_APIC :: u8 where "SRAT_PROCESSOR_LOCAL_APIC = 0"
definition SRAT_MEMORY_AFFINITY :: u8 where "SRAT_MEMORY_AFFINITY = 1"
definition SRAT_PROCESSOR_LOCAL_X2APIC :: u8 where "SRAT_PROCESSOR_LOCAL_X2APIC = 2"
definition SRAT_HEADER_SIZE :: nat where "SRAT_HEADER_SIZE = 48"
definition LOCAL_APIC_AFFINITY_SIZE :: nat where "LOCAL_APIC_AFFINITY_SIZE = 16"
definition X2APIC_AFFINITY_SIZE :: nat where "X2APIC_AFFINITY_SIZE = 24"
definition MEMORY_AFFINITY_SIZE :: nat where "MEMORY_AFFINITY_SIZE = 40"
definition AFFINITY_ENABLED :: u32 where "AFFINITY_ENABLED = push_bit 0 1"
definition AFFINITY_HOT_PLUGGABLE :: u32 where "AFFINITY_HOT_PLUGGABLE = push_bit 1 1"

definition srat_header_fields :: "sdt_header \<Rightarrow> fields" where
  "srat_header_fields h = [(''header'', sdt_header_bytes h), (''table_revision'', u32_field 1),
    (''reserved'', u64_field 0)]"

definition processor_local_apic_affinity :: "u8 \<Rightarrow> u32 \<Rightarrow> u32 \<Rightarrow> fields" where
  "processor_local_apic_affinity apic_id proximity_domain flags =
    (let pd = le_bytes 4 proximity_domain in
     [(''entry_type'', u8_field SRAT_PROCESSOR_LOCAL_APIC), (''length'', u8_field 16),
      (''proximity_domain_lo'', [pd ! 0]), (''apic_id'', u8_field apic_id), (''flags'', u32_field flags),
      (''local_sapic_eid'', u8_field 0), (''proximity_domain_hi'', [pd ! 1, pd ! 2, pd ! 3]),
      (''clock_domain'', u32_field 0)])"

definition x2apic_affinity :: "u32 \<Rightarrow> u32 \<Rightarrow> u32 \<Rightarrow> fields" where
  "x2apic_affinity apic_id proximity_domain flags =
    [(''entry_type'', u8_field SRAT_PROCESSOR_LOCAL_X2APIC), (''length'', u8_field 24),
     (''reserved_1'', [0, 0]), (''proximity_domain'', u32_field proximity_domain),
     (''x2apic_id'', u32_field apic_id), (''flags'', u32_field flags), (''clock_domain'', u32_field 0),
     (''reserved_2'', [0, 0, 0, 0])]"

definition low32 :: "u64 \<Rightarrow> u32" where
  "low32 w = (case u32_of_u64 (w AND 0xFFFFFFFF) of None \<Rightarrow> 0 | Some x \<Rightarrow> x)"

definition high32 :: "u64 \<Rightarrow> u32" where
  "high32 w = (case u32_of_u64 (drop_bit 32 w AND 0xFFFFFFFF) of None \<Rightarrow> 0 | Some x \<Rightarrow> x)"

definition memory_affinity :: "u32 \<Rightarrow> u64 \<Rightarrow> u64 \<Rightarrow> u32 \<Rightarrow> fields" where
  "memory_affinity proximity_domain base len flags =
    [(''entry_type'', u8_field SRAT_MEMORY_AFFINITY), (''length'', u8_field 40),
     (''proximity_domain'', u32_field proximity_domain), (''reserved_1'', u16_field 0),
     (''base_addr_low'', u32_field (low32 base)), (''base_addr_high'', u32_field (high32 base)),
     (''length_low'', u32_field (low32 len)), (''length_high'', u32_field (high32 len)),
     (''reserved_2'', u32_field 0), (''flags'', u32_field flags), (''reserved_3'', u64_field 0)]"

definition cpu_affinity_flags :: "dt_status \<Rightarrow> u32" where
  "cpu_affinity_flags st = (case st of
     StOkay \<Rightarrow> AFFINITY_ENABLED
   | StDisabled \<Rightarrow> AFFINITY_ENABLED
   | StReserved \<Rightarrow> 0
   | StFail \<Rightarrow> 0)"

definition flags_for_memory :: "dt_status \<Rightarrow> bool \<Rightarrow> u32" where
  "flags_for_memory status hotpluggable =
    (let enabled = (status = StOkay);
         hot = (hotpluggable \<and> (status = StOkay \<or> status = StDisabled));
         f0 = 0;
         f1 = (if enabled then f0 OR AFFINITY_ENABLED else f0)
     in if hot then f1 OR AFFINITY_HOT_PLUGGABLE else f1)"

definition cpu_affinity_size_for_apic :: "u32 \<Rightarrow> nat" where
  "cpu_affinity_size_for_apic apic_id =
    (if apic_id \<le> XAPIC_ID_MAX then LOCAL_APIC_AFFINITY_SIZE else X2APIC_AFFINITY_SIZE)"

definition srat_total_size :: "u32 \<Rightarrow> nat \<Rightarrow> dtb_error + nat" where
  "srat_total_size memory_region_count cpu_entries_bytes =
    rbind (ok_or Internal (usize_mul (unat memory_region_count) MEMORY_AFFINITY_SIZE)) (\<lambda>mem_bytes.
    rbind (ok_or Internal (usize_add SRAT_HEADER_SIZE cpu_entries_bytes)) (\<lambda>s.
      ok_or Internal (usize_add s mem_bytes)))"

section \<open>Emitting\<close>

definition emit_cpu_affinity ::
  "bytes \<Rightarrow> nat \<Rightarrow> u32 \<Rightarrow> u32 \<Rightarrow> dt_status \<Rightarrow> dtb_error + bytes \<times> nat" where
  "emit_cpu_affinity slot pos apic_id proximity_domain status =
    (let flags = cpu_affinity_flags status in
     if apic_id \<le> XAPIC_ID_MAX then
       rbind (ok_or Internal (u8_of_u32 apic_id)) (\<lambda>apic_u8.
         write_entry slot pos (fields_bytes (processor_local_apic_affinity apic_u8 proximity_domain flags)))
     else write_entry slot pos (fields_bytes (x2apic_affinity apic_id proximity_domain flags)))"

definition srat_cpu_step ::
  "bytes \<times> nat \<Rightarrow> u32 \<times> u32 \<times> u32 option \<times> dt_status \<Rightarrow> dtb_error + bytes \<times> nat" where
  "srat_cpu_step st e = (case (st, e) of ((s, pos), _, apic_id, numa, status) \<Rightarrow>
    rbind (ok_or (PartialNuma CpuUntagged) numa) (\<lambda>pd. emit_cpu_affinity s pos apic_id pd status))"

definition srat_memory_step ::
  "('n, 'p) dt_view \<Rightarrow> bytes \<times> nat \<Rightarrow> 'n dtb_node \<Rightarrow> dtb_error + bytes \<times> nat" where
  "srat_memory_step V w c =
    rbind (property_u32_opt V c ''numa-node-id'') (\<lambda>tag.
    rbind (ok_or (PartialNuma MemoryUntagged) tag) (\<lambda>pd.
    rbind (decode_status V c SiteMemory) (\<lambda>mem_status.
      let flags = flags_for_memory mem_status (decode_memory_hotpluggable V c) in
      rbind (reg V c SiteMemory) (\<lambda>it.
        try_fold (\<lambda>(s, pos) (base, len). write_entry s pos (fields_bytes (memory_affinity pd base len flags)))
          w (reg_items it)))))"

definition srat_emit ::
  "oem_identity \<Rightarrow> ('n, 'p) dt_view \<Rightarrow> cpu_cache \<Rightarrow> bytes \<Rightarrow> dtb_error + bytes" where
  "srat_emit oem V cache slot =
    rbind (sdt_length_from_slot slot) (\<lambda>len.
    rbind (write_header slot (fields_bytes
      (srat_header_fields (sdt_header_new ''SRAT'' len SRAT_REVISION oem)))) (\<lambda>slot1.
    rbind (try_fold srat_cpu_step (slot1, SRAT_HEADER_SIZE) (cpu_cache_entries cache)) (\<lambda>w.
    rbind (children V (root_of (tree_root V))) (\<lambda>cs.
    rbind (for_named V ''memory'' (srat_memory_step V) w cs) (\<lambda>(slot2, _).
      set_sdt_checksum slot2)))))"

section \<open>Counting\<close>

record cpu_walk =
  cw_vcpu_entries_bytes :: nat
  cw_cpu_entries_bytes :: nat
  cw_cpu_tagged_count :: u32
  cw_cpu_untagged_count :: u32

record memory_walk =
  mw_region_count :: u32
  mw_tagged_count :: u32
  mw_total_count :: u32
  mw_domains :: domains

definition count_u32 :: "u32 \<Rightarrow> dtb_error + u32" where
  "count_u32 n = ok_or Internal (checked_add n 1)"

definition count_memory_step ::
  "('n, 'p) dt_view \<Rightarrow> memory_walk \<Rightarrow> 'n dtb_node \<Rightarrow> dtb_error + memory_walk" where
  "count_memory_step V w c =
    rbind (count_u32 (mw_total_count w)) (\<lambda>total.
    rbind (decode_status V c SiteMemory) (\<lambda>_.
    rbind (property_u32_opt V c ''numa-node-id'') (\<lambda>tag.
    rbind (case tag of
             None \<Rightarrow> Inr (mw_tagged_count w, mw_domains w)
           | Some pd \<Rightarrow>
              if pd = NUMA_TAG_NONE then Inl (ValueOutOfRange SiteMemory ''numa-node-id'')
              else rbind (count_u32 (mw_tagged_count w)) (\<lambda>tagged.
                   rbind (domains_insert (mw_domains w) pd) (\<lambda>d. Inr (tagged, d)))) (\<lambda>(tagged, d).
    rbind (reg V c SiteMemory) (\<lambda>it.
    rbind (try_fold (\<lambda>k _. count_u32 k) (mw_region_count w) (reg_items it)) (\<lambda>regions.
      Inr \<lparr>mw_region_count = regions, mw_tagged_count = tagged, mw_total_count = total,
           mw_domains = d\<rparr>))))))"

definition count_numa ::
  "('n, 'p) dt_view \<Rightarrow> 'n dtb_node \<Rightarrow> cpu_walk \<Rightarrow> domains \<Rightarrow> dtb_error + (bool \<times> u32 \<times> bool) \<times> domains" where
  "count_numa V n cw d0 =
    rbind (children V n) (\<lambda>cs.
    rbind (for_named V ''memory'' (count_memory_step V)
             \<lparr>mw_region_count = 0, mw_tagged_count = 0, mw_total_count = 0, mw_domains = d0\<rparr> cs) (\<lambda>w.
      let cpu_tagged = (cw_cpu_tagged_count cw > 0);
          memory_tagged = (mw_tagged_count w > 0);
          d = mw_domains w
      in if \<not> cpu_tagged \<and> \<not> memory_tagged then Inr ((False, 0, False), d)
         else if cw_cpu_untagged_count cw > 0 then Inl (PartialNuma CpuUntagged)
         else if mw_tagged_count w \<noteq> mw_total_count w then Inl (PartialNuma MemoryUntagged)
         else
           rbind (if domains_len d > 1 then
                    rbind (child V n ''distance-map'' SiteDistanceMap) (\<lambda>m.
                      case m of
                        None \<Rightarrow> Inr False
                      | Some node \<Rightarrow>
                          rbind (ok_or (MissingProperty SiteDistanceMap ''distance-matrix'')
                                  (node_property V (dn_node node) ''distance-matrix'')) (\<lambda>_. Inr True))
                  else Inr False) (\<lambda>has_distances.
             Inr ((True, mw_region_count w, has_distances), d))))"

section \<open>What counting guarantees\<close>

definition memory_ok :: "('n, 'p) dt_view \<Rightarrow> 'n dtb_node \<Rightarrow> bool" where
  "memory_ok V c = (\<exists>pd st it. property_u32_opt V c ''numa-node-id'' = Inr (Some pd) \<and>
    decode_status V c SiteMemory = Inr st \<and> reg V c SiteMemory = Inr it)"

definition memory_regions :: "('n, 'p) dt_view \<Rightarrow> 'n dtb_node \<Rightarrow> (u64 \<times> u64) list" where
  "memory_regions V c = (case reg V c SiteMemory of Inl _ \<Rightarrow> [] | Inr it \<Rightarrow> reg_items it)"

lemma count_u32_Inr: "count_u32 n = Inr m \<longleftrightarrow> unat m = Suc (unat n)"
  by (auto simp: count_u32_def result_simps checked_simps)

lemma count_items: "try_fold (\<lambda>k _. count_u32 k) n xs = Inr m \<Longrightarrow> unat m = unat n + length xs"
proof (induction xs arbitrary: n)
  case (Cons x xs)
  then obtain n' where "count_u32 n = Inr n'" "try_fold (\<lambda>k _. count_u32 k) n' xs = Inr m"
    by (auto simp: result_simps)
  with Cons.IH [of n'] show ?case by (simp add: count_u32_Inr)
qed simp

lemma count_memory_step_Inr:
  assumes "count_memory_step V w c = Inr w'"
  shows "unat (mw_total_count w') = Suc (unat (mw_total_count w))"
    and "unat (mw_region_count w') = unat (mw_region_count w) + length (memory_regions V c)"
    and "unat (mw_tagged_count w') = unat (mw_tagged_count w) \<or>
         unat (mw_tagged_count w') = Suc (unat (mw_tagged_count w)) \<and> memory_ok V c"
proof -
  from assms obtain total st tag tagged d it regions where
    c: "count_u32 (mw_total_count w) = Inr total" "decode_status V c SiteMemory = Inr st"
      "property_u32_opt V c ''numa-node-id'' = Inr tag" "reg V c SiteMemory = Inr it"
    and t: "(case tag of None \<Rightarrow> Inr (mw_tagged_count w, mw_domains w)
           | Some pd \<Rightarrow>
              if pd = NUMA_TAG_NONE then Inl (ValueOutOfRange SiteMemory ''numa-node-id'')
              else rbind (count_u32 (mw_tagged_count w)) (\<lambda>tagged.
                   rbind (domains_insert (mw_domains w) pd) (\<lambda>d. Inr (tagged, d)))) = Inr (tagged, d)"
    and r: "try_fold (\<lambda>k _. count_u32 k) (mw_region_count w) (reg_items it) = Inr regions"
    and w': "w' = \<lparr>mw_region_count = regions, mw_tagged_count = tagged, mw_total_count = total, mw_domains = d\<rparr>"
    by (auto simp: count_memory_step_def result_simps)
  show "unat (mw_total_count w') = Suc (unat (mw_total_count w))" using c(1) w' by (simp add: count_u32_Inr)
  show "unat (mw_region_count w') = unat (mw_region_count w) + length (memory_regions V c)"
    using count_items [OF r] w' c(4) by (simp add: memory_regions_def)
  show "unat (mw_tagged_count w') = unat (mw_tagged_count w) \<or>
      unat (mw_tagged_count w') = Suc (unat (mw_tagged_count w)) \<and> memory_ok V c"
    using t w' c by (cases tag) (auto simp: count_u32_Inr result_simps memory_ok_def split: if_splits)
qed

lemma count_memory_loop:
  assumes "try_fold (count_memory_step V) w cs = Inr w'"
  shows "unat (mw_total_count w') = unat (mw_total_count w) + length cs \<and>
    unat (mw_region_count w') = unat (mw_region_count w) + length (concat (map (memory_regions V) cs)) \<and>
    unat (mw_tagged_count w') \<le> unat (mw_tagged_count w) + length cs \<and>
    (unat (mw_tagged_count w') = unat (mw_tagged_count w) + length cs \<longrightarrow> (\<forall>c\<in>set cs. memory_ok V c))"
  using assms
proof (induction cs arbitrary: w)
  case (Cons c cs)
  from Cons.prems obtain w1 where s: "count_memory_step V w c = Inr w1"
    and r: "try_fold (count_memory_step V) w1 cs = Inr w'" by (auto simp: result_simps)
  note a = count_memory_step_Inr [OF s] and b = Cons.IH [OF r]
  have "\<forall>c\<in>set (c # cs). memory_ok V c"
    if "unat (mw_tagged_count w') = unat (mw_tagged_count w) + length (c # cs)"
  proof -
    have "unat (mw_tagged_count w') \<le> unat (mw_tagged_count w1) + length cs" using b by blast
    with a(3) that have "memory_ok V c" "unat (mw_tagged_count w') = unat (mw_tagged_count w1) + length cs"
      by auto
    with b show ?thesis by simp
  qed
  with a b show ?case by auto
qed simp

text \<open>If counting reports NUMA, no cpu is untagged and every memory node is tagged and
  decodable; the region count is the number of \<open>reg\<close> pairs of the memory nodes.\<close>

lemma count_numa_Inr:
  assumes "count_numa V n cw d0 = Inr ((True, regions, dist), d)"
  obtains cs where "children V n = Inr cs" "unat (cw_cpu_untagged_count cw) = 0"
    "\<forall>c\<in>set (named_nodes V ''memory'' cs). memory_ok V c"
    "unat regions = length (concat (map (memory_regions V) (named_nodes V ''memory'' cs)))"
proof -
  let ?w0 = "\<lparr>mw_region_count = 0, mw_tagged_count = 0, mw_total_count = 0, mw_domains = d0\<rparr>"
  from assms obtain cs w where cs: "children V n = Inr cs"
    and l: "try_fold (count_memory_step V) ?w0 (named_nodes V ''memory'' cs) = Inr w"
    and u: "\<not> cw_cpu_untagged_count cw > 0" and e: "mw_tagged_count w = mw_total_count w"
    and r: "regions = mw_region_count w"
    by (auto simp: count_numa_def result_simps for_named_eq Let_def split: if_splits)
  note b = count_memory_loop [OF l]
  have "cw_cpu_untagged_count cw = 0" using u by (metis word_gt_0)
  then have "unat (cw_cpu_untagged_count cw) = 0" by simp
  moreover have "\<forall>c\<in>set (named_nodes V ''memory'' cs). memory_ok V c" using b e by simp
  ultimately show ?thesis using that [OF cs] b r by simp
qed

section \<open>The bytes of the table\<close>

definition srat_cpu_bytes :: "u32 \<times> u32 \<times> u32 option \<times> dt_status \<Rightarrow> bytes" where
  "srat_cpu_bytes e = (case e of (_, apic, tag, st) \<Rightarrow>
    (case tag of None \<Rightarrow> []
     | Some pd \<Rightarrow>
        if apic \<le> XAPIC_ID_MAX
        then fields_bytes (processor_local_apic_affinity (ucast apic) pd (cpu_affinity_flags st))
        else fields_bytes (x2apic_affinity apic pd (cpu_affinity_flags st))))"

definition srat_memory_bytes :: "('n, 'p) dt_view \<Rightarrow> 'n dtb_node \<Rightarrow> bytes" where
  "srat_memory_bytes V c =
    (case (property_u32_opt V c ''numa-node-id'', decode_status V c SiteMemory) of
       (Inr (Some pd), Inr st) \<Rightarrow>
         concat (map (\<lambda>(base, len). fields_bytes (memory_affinity pd base len
            (flags_for_memory st (decode_memory_hotpluggable V c)))) (memory_regions V c))
     | _ \<Rightarrow> [])"

definition srat_head :: bytes where
  "srat_head = u32_field 1 @ u64_field 0"

lemma srat_header_bytes: "fields_bytes (srat_header_fields h) = sdt_header_bytes h @ srat_head"
  by (simp add: fields_bytes_def srat_header_fields_def srat_head_def)

lemma length_srat_head [simp]: "length srat_head = 12"
  by (simp add: srat_head_def)

lemma srat_cpu_step_eq:
  "srat_cpu_step (s, p) (pid, apic, Some pd, st) = write_entry s p (srat_cpu_bytes (pid, apic, Some pd, st))"
  by (simp add: srat_cpu_step_def emit_cpu_affinity_def srat_cpu_bytes_def xapic_u8 Let_def)

lemma srat_cpu_step_Inr: "srat_cpu_step (s, p) e = Inr r \<Longrightarrow> write_entry s p (srat_cpu_bytes e) = Inr r"
  by (cases e) (auto simp: srat_cpu_step_eq, auto simp: srat_cpu_step_def result_simps
      emit_cpu_affinity_def srat_cpu_bytes_def xapic_u8 Let_def split: if_splits)

lemma length_srat_cpu_bytes:
  "length (srat_cpu_bytes (pid, apic, Some pd, st)) = cpu_affinity_size_for_apic apic"
  by (simp add: srat_cpu_bytes_def fields_bytes_def processor_local_apic_affinity_def Let_def
      x2apic_affinity_def cpu_affinity_size_for_apic_def LOCAL_APIC_AFFINITY_SIZE_def X2APIC_AFFINITY_SIZE_def)

lemma length_memory_affinity [simp]: "length (fields_bytes (memory_affinity pd b l f)) = 40"
  by (simp add: fields_bytes_def memory_affinity_def)

lemma srat_memory_loop:
  assumes "p \<le> length s" and "p \<le> usize_max"
  shows "try_fold (\<lambda>(s, pos) (base, len). write_entry s pos (fields_bytes (memory_affinity pd base len f)))
      (s, p) rs =
    write_entry s p (concat (map (\<lambda>(base, len). fields_bytes (memory_affinity pd base len f)) rs))"
  by (rule try_fold_write_entry) (simp_all add: assms case_prod_unfold)

lemma srat_memory_step_eq:
  assumes "memory_ok V c" and "p \<le> length s" and "p \<le> usize_max"
  shows "srat_memory_step V (s, p) c = write_entry s p (srat_memory_bytes V c)"
  using assms
  by (auto simp: memory_ok_def srat_memory_step_def srat_memory_bytes_def memory_regions_def
      srat_memory_loop Let_def)

lemma srat_memory_step_Inr: "srat_memory_step V w c = Inr r \<Longrightarrow> memory_ok V c"
  by (auto simp: srat_memory_step_def memory_ok_def result_simps Let_def)

lemma length_srat_memory_bytes:
  "memory_ok V c \<Longrightarrow> length (srat_memory_bytes V c) = length (memory_regions V c) * 40"
  by (auto simp: memory_ok_def srat_memory_bytes_def intro!: length_concat_map)

lemma srat_memories_loop:
  assumes "\<And>c. c \<in> set cs \<Longrightarrow> memory_ok V c" and "pos \<le> length slot" and "pos \<le> usize_max"
  shows "try_fold (srat_memory_step V) (slot, pos) cs =
    write_entry slot pos (concat (map (srat_memory_bytes V) cs))"
  using assms
proof (induction cs arbitrary: slot pos)
  case Nil
  then show ?case by (simp add: write_entry_Nil)
next
  case (Cons c cs)
  have step: "srat_memory_step V (slot, pos) c = write_entry slot pos (srat_memory_bytes V c)"
    by (rule srat_memory_step_eq) (use Cons.prems in simp_all)
  show ?case
  proof (cases "write_entry slot pos (srat_memory_bytes V c)")
    case (Inl e)
    with step write_entry_compose [of slot pos "srat_memory_bytes V c"] show ?thesis by simp
  next
    case (Inr w)
    obtain s p where w: "w = (s, p)" by (cases w)
    have "p \<le> length s" "p \<le> usize_max" using Inr w by (auto simp: write_entry_eq split: if_splits)
    then have "try_fold (srat_memory_step V) (s, p) cs = write_entry s p (concat (map (srat_memory_bytes V) cs))"
      by (intro Cons.IH) (use Cons.prems in auto)
    with step Inr w write_entry_compose [of slot pos "srat_memory_bytes V c"] show ?thesis by simp
  qed
qed

lemma length_srat_memories:
  "(\<And>c. c \<in> set cs \<Longrightarrow> memory_ok V c) \<Longrightarrow>
    length (concat (map (srat_memory_bytes V) cs)) = 40 * length (concat (map (memory_regions V) cs))"
  by (induction cs) (simp_all add: length_srat_memory_bytes)

lemma srat_count_emit:
  assumes cnt: "count_numa V (root_of (tree_root V)) cw d0 = Inr ((True, regions, dist), d)"
    and tags: "\<And>e. e \<in> set (cpu_cache_entries cache) \<Longrightarrow> fst (snd (snd e)) \<noteq> None"
    and cb: "cb = length (concat (map srat_cpu_bytes (cpu_cache_entries cache)))"
    and sz: "srat_total_size regions cb = Inr n" and len: "length slot = n" "n < 2 ^ 32" and oem: "oem_ok oem"
  shows "\<exists>t cs. srat_emit oem V cache slot = Inr t \<and> table_ok ''SRAT'' SRAT_REVISION oem t \<and>
    length t = n \<and> children V (root_of (tree_root V)) = Inr cs \<and>
    drop 36 t = srat_head @ concat (map srat_cpu_bytes (cpu_cache_entries cache)) @
      concat (map (srat_memory_bytes V) (named_nodes V ''memory'' cs))"
proof -
  let ?hd = "sdt_header_new ''SRAT'' (word_of_nat (length slot)) SRAT_REVISION oem"
  let ?cpus = "concat (map srat_cpu_bytes (cpu_cache_entries cache))"
  obtain cs where cs: "children V (root_of (tree_root V)) = Inr cs"
    and "unat (cw_cpu_untagged_count cw) = 0"
    and all: "\<forall>c\<in>set (named_nodes V ''memory'' cs). memory_ok V c"
    and cs3: "unat regions = length (concat (map (memory_regions V) (named_nodes V ''memory'' cs)))"
    by (rule count_numa_Inr [OF cnt])
  have cs2: "\<And>c. c \<in> set (named_nodes V ''memory'' cs) \<Longrightarrow> memory_ok V c" using all by blast
  let ?mems = "concat (map (srat_memory_bytes V) (named_nodes V ''memory'' cs))"
  let ?body = "?cpus @ ?mems"
  have n: "n = 48 + length ?body"
    using sz cs3 cb length_srat_memories [OF cs2]
    by (simp add: srat_total_size_def result_simps checked_simps SRAT_HEADER_SIZE_def MEMORY_AFFINITY_SIZE_def)
  obtain s1 s2 p t where w: "write_header slot (sdt_header_bytes ?hd @ srat_head) = Inr s1"
    and l1: "length s1 = length slot"
    and we: "write_entry s1 (36 + length srat_head) ?body = Inr (s2, p)"
    and c: "set_sdt_checksum s2 = Inr t"
    using table_succeeds [of oem "''SRAT''" srat_head ?body slot SRAT_REVISION] len oem n by auto
  have um: "length slot \<le> usize_max" using len by (simp add: usize_max_def)
  have we48: "write_entry s1 48 (?cpus @ ?mems) = Inr (s2, p)" using we by simp
  obtain sc pc where wc: "write_entry s1 48 ?cpus = Inr (sc, pc)" "write_entry sc pc ?mems = Inr (s2, p)"
    using we48 unfolding write_entry_compose [symmetric] by (auto simp: rbind_eq_Inr)
  have "try_fold srat_cpu_step (s1, 48) (cpu_cache_entries cache) = write_entry s1 48 ?cpus"
  proof (rule try_fold_write_entry)
    fix s p x assume x: "x \<in> set (cpu_cache_entries cache)"
    obtain pid apic tag st where e: "x = (pid, apic, tag, st)" by (cases x)
    with tags [OF x] obtain pd where "x = (pid, apic, Some pd, st)" by auto
    then show "srat_cpu_step (s, p) x = write_entry s p (srat_cpu_bytes x)"
      by (simp add: srat_cpu_step_eq)
  qed (use l1 um len n in auto)
  then have loop1: "try_fold srat_cpu_step (s1, 48) (cpu_cache_entries cache) = Inr (sc, pc)"
    using wc(1) by simp
  have pc: "pc \<le> length sc" "pc \<le> usize_max" using wc(1) by (auto simp: write_entry_eq split: if_splits)
  have "for_named V ''memory'' (srat_memory_step V) (sc, pc) cs = Inr (s2, p)"
    unfolding for_named_eq by (subst srat_memories_loop [OF cs2 pc]) (use wc(2) in simp_all)
  then have em: "srat_emit oem V cache slot = Inr t"
    using w loop1 cs c len
    by (simp add: srat_emit_def sdt_length_from_slot_def u32_of_len_def srat_header_bytes SRAT_HEADER_SIZE_def)
  note f = finish_table [OF w we c oem _ len(2) [folded len(1)]]
  have "drop 36 t = srat_head @ ?body" using f(2,3) len n by simp
  with em f(1,2) cs len show ?thesis by auto
qed

lemma srat_emit_Inr:
  assumes "srat_emit oem V cache slot = Inr t" and "oem_ok oem" and "48 \<le> length slot"
  shows "table_ok ''SRAT'' SRAT_REVISION oem t \<and> length t = length slot"
proof -
  let ?hd = "sdt_header_new ''SRAT'' (word_of_nat (length slot)) SRAT_REVISION oem"
  let ?cpus = "concat (map srat_cpu_bytes (cpu_cache_entries cache))"
  from assms(1) obtain s1 sc pc cs s2 p where len: "length slot < 2 ^ 32"
    and w: "write_header slot (sdt_header_bytes ?hd @ srat_head) = Inr s1"
    and c: "try_fold srat_cpu_step (s1, 48) (cpu_cache_entries cache) = Inr (sc, pc)"
    and m: "try_fold (srat_memory_step V) (sc, pc) (named_nodes V ''memory'' cs) = Inr (s2, p)"
    and k: "set_sdt_checksum s2 = Inr t"
    by (auto simp: srat_emit_def result_simps sdt_length_from_slot_Inr srat_header_bytes SRAT_HEADER_SIZE_def for_named_eq)
  have l1: "length s1 = length slot" using w assms(3) by (auto simp: write_header_Inr)
  have wc: "write_entry s1 48 ?cpus = Inr (sc, pc)"
    by (rule try_fold_writes [OF c]) (use l1 assms(3) srat_cpu_step_Inr in \<open>auto simp: usize_max_def\<close>)
  then have pc: "pc \<le> length sc" "pc \<le> usize_max" by (auto simp: write_entry_eq split: if_splits)
  have ok: "\<And>x. x \<in> set (named_nodes V ''memory'' cs) \<Longrightarrow> memory_ok V x"
    using try_fold_all_Inr [OF m] srat_memory_step_Inr by blast
  let ?b = "concat (map (srat_memory_bytes V) (named_nodes V ''memory'' cs))"
  have "write_entry sc pc ?b = Inr (s2, p)" using m by (subst (asm) srat_memories_loop [OF ok pc])
  then have "write_entry s1 (36 + length srat_head) (?cpus @ ?b) = Inr (s2, p)"
    using wc write_entry_compose [of s1 48 ?cpus ?b] by simp
  from finish_table(1,2) [OF w this k assms(2) _ len] show ?thesis by simp
qed

interpretation srat_table: table_emitter "srat_emit oem V cache" "''SRAT''" SRAT_REVISION oem
    "\<lambda>n. oem_ok oem \<and> 48 \<le> n"
  for oem :: oem_identity and V :: "('n, 'p) dt_view" and cache :: cpu_cache
  by unfold_locales (auto dest: srat_emit_Inr)

end
