(* ===== verification/Slit.thy ===== *)
theory Slit
  imports Srat
begin

text \<open>
  The SLIT (\<open>emit/slit.rs\<close>): the matrix of distances between the NUMA domains, filled
  from the (from, to, value) triples of \<open>/distance-map\<close>.

  The source re-borrows the matrix out of the slot in every iteration (\<open>matrix_of\<close>,
  \<open>put_matrix\<close>). \<open>slit_loop_matrix\<close> moves the loop to the matrix alone, where the
  invariant \<open>slit_inv\<close> holds: symmetric, 10 on the diagonal, every other cell 0 or at least
  10, and every triple read so far still in place.
\<close>

unbundle bit_operations_syntax

definition SLIT_REVISION :: u8 where "SLIT_REVISION = 1"
definition SLIT_HEADER_SIZE :: nat where "SLIT_HEADER_SIZE = 44"

definition slit_header_fields :: "sdt_header \<Rightarrow> u64 \<Rightarrow> fields" where
  "slit_header_fields h n = [(''header'', sdt_header_bytes h), (''number_of_localities'', u64_field n)]"

definition slit_total_size :: "u8 \<Rightarrow> dtb_error + nat" where
  "slit_total_size n_domains =
    (let n = unat n_domains in
     rbind (ok_or Internal (usize_mul n n)) (\<lambda>matrix_bytes.
       ok_or Internal (usize_add SLIT_HEADER_SIZE matrix_bytes)))"

section \<open>Emitting\<close>

definition matrix_malformed :: dtb_error where
  "matrix_malformed = MalformedProperty SiteDistanceMap ''distance-matrix''"

text \<open>\<open>slot.get_mut(SIZE..matrix_end).unwrap_or(&mut [])\<close> and the write-back of it.\<close>

definition matrix_of :: "bytes \<Rightarrow> nat \<Rightarrow> bytes" where
  "matrix_of slot matrix_end = (case get_range slot SLIT_HEADER_SIZE matrix_end of None \<Rightarrow> [] | Some m \<Rightarrow> m)"

definition put_matrix :: "bytes \<Rightarrow> nat \<Rightarrow> bytes \<Rightarrow> bytes" where
  "put_matrix slot matrix_end m =
    (case get_range slot SLIT_HEADER_SIZE matrix_end of None \<Rightarrow> slot | Some _ \<Rightarrow> copy_at slot SLIT_HEADER_SIZE m)"

definition checked_index :: "nat \<Rightarrow> nat \<Rightarrow> nat \<Rightarrow> dtb_error + nat" where
  "checked_index i n j =
    rbind (ok_or Internal (usize_mul i n)) (\<lambda>v. ok_or Internal (usize_add v j))"

definition get_or_0 :: "bytes \<Rightarrow> nat \<Rightarrow> u8" where
  "get_or_0 m i = (if i < length m then m ! i else 0)"

definition slit_diagonal :: "nat \<Rightarrow> bytes \<Rightarrow> dtb_error + bytes" where
  "slit_diagonal n m = try_fold (\<lambda>m i. rbind (checked_index i n i) (\<lambda>idx. Inr (m[idx := 10]))) m [0..<n]"

definition slit_init :: "nat \<Rightarrow> nat \<Rightarrow> bytes \<Rightarrow> dtb_error + bytes" where
  "slit_init n matrix_end slot =
    (case get_range slot SLIT_HEADER_SIZE matrix_end of
       None \<Rightarrow> Inr slot
     | Some dst \<Rightarrow>
        rbind (slit_diagonal n (map (\<lambda>_. 0) dst)) (\<lambda>m. Inr (copy_at slot SLIT_HEADER_SIZE m)))"

definition slit_entry :: "domains \<Rightarrow> nat \<Rightarrow> nat \<Rightarrow> bytes \<Rightarrow> u32 \<Rightarrow> u32 \<Rightarrow> u32 \<Rightarrow> dtb_error + bytes" where
  "slit_entry d n matrix_end slot from_pd to_pd val =
    rbind (ok_or matrix_malformed (domains_index_of d from_pd)) (\<lambda>i.
    rbind (ok_or matrix_malformed (domains_index_of d to_pd)) (\<lambda>j.
    rbind (ok_or (ValueOutOfRange SiteDistanceMap ''distance-matrix'') (u8_of_u32 val)) (\<lambda>val_u8.
      let i_us = unat i; j_us = unat j in
      if i_us = j_us then (if val_u8 \<noteq> 10 then Inl matrix_malformed else Inr slot)
      else if val_u8 < 10 then Inl matrix_malformed
      else
        rbind (checked_index i_us n j_us) (\<lambda>idx_ij.
        rbind (checked_index j_us n i_us) (\<lambda>idx_ji.
          let m = matrix_of slot matrix_end;
              existing_ij = get_or_0 m idx_ij;
              existing_ji = get_or_0 m idx_ji
          in if (existing_ij \<noteq> 0 \<and> existing_ij \<noteq> val_u8) \<or> (existing_ji \<noteq> 0 \<and> existing_ji \<noteq> val_u8)
             then Inl matrix_malformed
             else Inr (put_matrix slot matrix_end (m[idx_ij := val_u8, idx_ji := val_u8])))))))"

fun slit_loop :: "domains \<Rightarrow> nat \<Rightarrow> nat \<Rightarrow> bytes \<Rightarrow> u32 list \<Rightarrow> dtb_error + bytes" where
  "slit_loop d n matrix_end slot [] = Inr slot"
| "slit_loop d n matrix_end slot (a # b # c # cells) =
    rbind (slit_entry d n matrix_end slot a b c) (\<lambda>slot'. slit_loop d n matrix_end slot' cells)"
| "slit_loop d n matrix_end slot _ = Inl matrix_malformed"

definition fill_default :: "bytes \<Rightarrow> bytes" where
  "fill_default m = map (\<lambda>v. if v = 0 then 20 else v) m"

definition slit_emit :: "oem_identity \<Rightarrow> ('n, 'p) dt_view \<Rightarrow> domains \<Rightarrow> bytes \<Rightarrow> dtb_error + bytes" where
  "slit_emit oem V d slot =
    (let n = unat (domains_len d) in
     rbind (ok_or Internal (usize_mul n n)) (\<lambda>matrix_bytes.
     rbind (sdt_length_from_slot slot) (\<lambda>len.
     rbind (write_header slot (fields_bytes
       (slit_header_fields (sdt_header_new ''SLIT'' len SLIT_REVISION oem) (ucast (domains_len d))))) (\<lambda>slot1.
     rbind (ok_or Internal (usize_add SLIT_HEADER_SIZE matrix_bytes)) (\<lambda>matrix_end.
     rbind (slit_init n matrix_end slot1) (\<lambda>slot2.
     rbind (child V (root_of (tree_root V)) ''distance-map'' SiteDistanceMap) (\<lambda>m.
     rbind (ok_or Internal m) (\<lambda>map_node.
     rbind (ok_or (MissingProperty SiteDistanceMap ''distance-matrix'')
             (node_property V (dn_node map_node) ''distance-matrix'')) (\<lambda>p.
       let raw = prop_bytes V p in
       if raw = [] \<or> length raw mod 12 \<noteq> 0 then Inl matrix_malformed
       else
         rbind (slit_loop d n matrix_end slot2 (cells_as_u32s raw)) (\<lambda>slot3.
           set_sdt_checksum (put_matrix slot3 matrix_end (fill_default (matrix_of slot3 matrix_end)))))))))))))"

section \<open>The matrix alone\<close>

definition slit_mentry :: "domains \<Rightarrow> nat \<Rightarrow> bytes \<Rightarrow> u32 \<Rightarrow> u32 \<Rightarrow> u32 \<Rightarrow> dtb_error + bytes" where
  "slit_mentry d n m from_pd to_pd val =
    rbind (ok_or matrix_malformed (domains_index_of d from_pd)) (\<lambda>i.
    rbind (ok_or matrix_malformed (domains_index_of d to_pd)) (\<lambda>j.
    rbind (ok_or (ValueOutOfRange SiteDistanceMap ''distance-matrix'') (u8_of_u32 val)) (\<lambda>v.
      let i = unat i; j = unat j; a = get_or_0 m (i * n + j); b = get_or_0 m (j * n + i) in
      if i = j then (if v \<noteq> 10 then Inl matrix_malformed else Inr m)
      else if v < 10 \<or> (a \<noteq> 0 \<and> a \<noteq> v) \<or> (b \<noteq> 0 \<and> b \<noteq> v) then Inl matrix_malformed
      else Inr (m[i * n + j := v, j * n + i := v]))))"

fun slit_mloop :: "domains \<Rightarrow> nat \<Rightarrow> bytes \<Rightarrow> u32 list \<Rightarrow> dtb_error + bytes" where
  "slit_mloop d n m [] = Inr m"
| "slit_mloop d n m (a # b # c # cells) = rbind (slit_mentry d n m a b c) (\<lambda>m'. slit_mloop d n m' cells)"
| "slit_mloop d n m _ = Inl matrix_malformed"

lemma matrix_of_slot: "length h = 44 \<Longrightarrow> matrix_of (h @ m @ r) (44 + length m) = m"
  by (simp add: matrix_of_def get_range_def SLIT_HEADER_SIZE_def)

lemma put_matrix_slot:
  "length h = 44 \<Longrightarrow> length m' = length m \<Longrightarrow> put_matrix (h @ m @ r) (44 + length m) m' = h @ m' @ r"
  by (simp add: put_matrix_def get_range_def copy_at_def SLIT_HEADER_SIZE_def)

lemma checked_index_eq: "i \<le> 255 \<Longrightarrow> n \<le> 255 \<Longrightarrow> j \<le> 255 \<Longrightarrow> checked_index i n j = Inr (i * n + j)"
proof -
  assume a: "i \<le> 255" "n \<le> 255" "j \<le> 255"
  then have "i * n \<le> 255 * 255" by (intro mult_le_mono)
  with a show ?thesis by (simp add: checked_index_def usize_mul_def usize_add_def usize_max_def)
qed

lemma unat_u8_le: "unat (w :: u8) \<le> 255"
  using unat_u8_less [of w] by simp

lemma slit_entry_slot:
  assumes "length h = 44" and "n \<le> 255" and "me = 44 + length m"
  shows "slit_entry d n me (h @ m @ r) a b c =
    rbind (slit_mentry d n m a b c) (\<lambda>m'. Inr (h @ m' @ r))"
  using assms
  by (auto simp: slit_entry_def slit_mentry_def Let_def matrix_of_slot put_matrix_slot checked_index_eq
      unat_u8_le split: option.split sum.split simp: rbind_def ok_or_def)

lemma slit_mentry_length: "slit_mentry d n m a b c = Inr m' \<Longrightarrow> length m' = length m"
  by (auto simp: slit_mentry_def result_simps Let_def split: if_splits)

lemma slit_loop_matrix:
  assumes "length h = 44" and "n \<le> 255" and "me = 44 + length m"
  shows "slit_loop d n me (h @ m @ r) cells = rbind (slit_mloop d n m cells) (\<lambda>m'. Inr (h @ m' @ r))"
  using assms
proof (induction d n m cells rule: slit_mloop.induct)
  case (2 d n m a b c cells)
  show ?case
  proof (cases "slit_mentry d n m a b c")
    case (Inr m')
    have "slit_loop d n me (h @ m' @ r) cells = rbind (slit_mloop d n m' cells) (\<lambda>m'. Inr (h @ m' @ r))"
      by (rule 2(1)) (use 2(2-4) slit_mentry_length [OF Inr] in simp_all)
    with 2(2-4) Inr slit_mentry_length [OF Inr] show ?thesis by (simp add: slit_entry_slot)
  qed (use 2 in \<open>simp add: slit_entry_slot\<close>)
qed simp_all

section \<open>The invariant of the loop\<close>

definition cell :: "nat \<Rightarrow> bytes \<Rightarrow> nat \<Rightarrow> nat \<Rightarrow> u8" where
  "cell n m i j = m ! (i * n + j)"

lemma cell_index: "i < n \<Longrightarrow> j < n \<Longrightarrow> i * n + j < n * n" for i j n :: nat
proof -
  assume a: "i < n" "j < n"
  then have "i * n + j < Suc i * n" by simp
  also have "\<dots> \<le> n * n" by (rule mult_le_mono1) (use a in simp)
  finally show ?thesis .
qed

lemma cell_index_eq: "j < n \<Longrightarrow> l < n \<Longrightarrow> i * n + j = k * n + l \<longleftrightarrow> i = k \<and> j = l" for i j k l n :: nat
  by (metis add.commute div_mult_self3 div_less mod_less mod_mult_self3 add_0 not_less_zero mult.commute)

definition slit_inv :: "nat \<Rightarrow> bytes \<Rightarrow> (nat \<times> nat \<times> u8) list \<Rightarrow> bool" where
  "slit_inv n m seen = (length m = n * n \<and>
    (\<forall>i<n. cell n m i i = 10) \<and>
    (\<forall>i<n. \<forall>j<n. cell n m i j = cell n m j i) \<and>
    (\<forall>i<n. \<forall>j<n. cell n m i j = 0 \<or> 10 \<le> cell n m i j) \<and>
    (\<forall>(i, j, v)\<in>set seen. i < n \<and> j < n \<and> cell n m i j = v \<and> 10 \<le> v))"

lemma length_diagonal_loop:
  assumes "n \<le> 255" and "length m = n * n" and "k \<le> n"
  shows "\<exists>m'. try_fold (\<lambda>m i. rbind (checked_index i n i) (\<lambda>idx. Inr (m[idx := 10]))) m [0..<k] = Inr m' \<and>
    length m' = n * n \<and>
    (\<forall>i<n. \<forall>j<n. cell n m' i j = (if i = j \<and> i < k then 10 else cell n m i j))"
  using assms(3)
proof (induction k)
  case 0
  then show ?case using assms(2) by simp
next
  case (Suc k)
  then obtain m' where m': "try_fold (\<lambda>m i. rbind (checked_index i n i) (\<lambda>idx. Inr (m[idx := 10]))) m [0..<k] = Inr m'"
      "length m' = n * n" "\<forall>i<n. \<forall>j<n. cell n m' i j = (if i = j \<and> i < k then 10 else cell n m i j)"
    by auto
  have "cell n (m'[k * n + k := 10]) i j = (if i = j \<and> i < Suc k then 10 else cell n m i j)"
    if "i < n" "j < n" for i j
  proof -
    have kn: "k < n" using Suc.prems by simp
    have "cell n (m'[k * n + k := 10]) i j = (if i = k \<and> j = k then 10 else cell n m' i j)"
      unfolding cell_def using cell_index [OF kn kn] m'(2)
      by (simp only: nth_list_update cell_index_eq [OF kn \<open>j < n\<close>] simp_thms) auto
    also have "\<dots> = (if i = j \<and> i < Suc k then 10 else cell n m i j)"
      using m'(3) that by (auto simp: less_Suc_eq)
    finally show ?thesis .
  qed
  then show ?case using m' Suc.prems assms(1) by (simp add: try_fold_append checked_index_eq)
qed

lemma slit_diagonal_inv:
  assumes "n \<le> 255" and "length m = n * n" and "\<forall>x\<in>set m. x = 0"
  shows "\<exists>m'. slit_diagonal n m = Inr m' \<and> slit_inv n m' []"
proof -
  obtain m' where m': "slit_diagonal n m = Inr m'" "length m' = n * n"
      "\<forall>i<n. \<forall>j<n. cell n m' i j = (if i = j \<and> i < n then 10 else cell n m i j)"
    using length_diagonal_loop [OF assms(1,2), of n] by (auto simp: slit_diagonal_def)
  have z: "cell n m i j = 0" if "i < n" "j < n" for i j
    using assms(2,3) cell_index [OF that] by (simp add: cell_def)
  show ?thesis using m' z by (auto simp: slit_inv_def)
qed

text \<open>The triple with its resolved indices.\<close>

definition resolves :: "domains \<Rightarrow> u32 \<times> u32 \<times> u32 \<Rightarrow> nat \<times> nat \<times> u8 \<Rightarrow> bool" where
  "resolves d t r = (case (t, r) of ((a, b, c), (i, j, v)) \<Rightarrow>
    (\<exists>i8 j8. domains_index_of d a = Some i8 \<and> domains_index_of d b = Some j8 \<and>
      i = unat i8 \<and> j = unat j8 \<and> u8_of_u32 c = Some v))"

lemma cell_update2:
  assumes "length m = n * n" and "i < n" and "j < n" and "k < n" and "l < n"
  shows "cell n (m[i * n + j := v, j * n + i := v]) k l =
    (if (k = i \<and> l = j) \<or> (k = j \<and> l = i) then v else cell n m k l)"
proof -
  have up: "(m[p := v, q := v]) ! x = (if x = p \<or> x = q then v else m ! x)"
    if "p < length m" "q < length m" for p q x
    using that by (simp add: nth_list_update)
  show ?thesis
    unfolding cell_def up [of "i * n + j" "j * n + i" "k * n + l", unfolded assms(1),
        OF cell_index [OF assms(2,3)] cell_index [OF assms(3,2)]]
      cell_index_eq [OF assms(5,3)] cell_index_eq [OF assms(5,2)] ..
qed

lemma domain_index_less:
  "domains_ok d \<Longrightarrow> domains_index_of d a = Some i \<Longrightarrow> unat i < unat (domains_len d)"
  by (simp add: domains_index_of_iff length_domains_ids domains_len_def)

lemma slit_mentry_inv:
  assumes "domains_ok d" and "n = unat (domains_len d)" and inv: "slit_inv n m seen"
    and st: "slit_mentry d n m a b c = Inr m'"
  shows "\<exists>r. resolves d (a, b, c) r \<and> slit_inv n m' (r # seen)"
proof -
  from st obtain i8 j8 v where ix: "domains_index_of d a = Some i8" "domains_index_of d b = Some j8"
      "u8_of_u32 c = Some v"
    and m': "(let i = unat i8; j = unat j8; x = get_or_0 m (i * n + j); y = get_or_0 m (j * n + i) in
      if i = j then (if v \<noteq> 10 then Inl matrix_malformed else Inr m)
      else if v < 10 \<or> (x \<noteq> 0 \<and> x \<noteq> v) \<or> (y \<noteq> 0 \<and> y \<noteq> v) then Inl matrix_malformed
      else Inr (m[i * n + j := v, j * n + i := v])) = Inr m'"
    by (auto simp: slit_mentry_def result_simps)
  define i j where "i = unat i8" and "j = unat j8"
  have ij: "i < n" "j < n" using domain_index_less [OF assms(1)] ix assms(2) by (simp_all add: i_def j_def)
  have res: "resolves d (a, b, c) (i, j, v)" using ix by (auto simp: resolves_def i_def j_def)
  have len: "length m = n * n" using inv by (simp add: slit_inv_def)
  have g: "get_or_0 m (k * n + l) = cell n m k l" if "k < n" "l < n" for k l
    using cell_index [OF that] len by (simp add: get_or_0_def cell_def)
  show ?thesis
  proof (cases "i = j")
    case True
    then have "v = 10" "m' = m" using m' by (simp_all add: Let_def i_def j_def split: if_splits)
    then have "slit_inv n m' ((i, j, v) # seen)" using inv ij True by (auto simp: slit_inv_def)
    with res show ?thesis by blast
  next
    case False
    then have m'eq: "m' = m[i * n + j := v, j * n + i := v]" and v: "10 \<le> v"
      and old: "cell n m i j = 0 \<or> cell n m i j = v" "cell n m j i = 0 \<or> cell n m j i = v"
      using m' g ij by (auto simp: Let_def i_def [symmetric] j_def [symmetric] not_less split: if_splits)
    note up = cell_update2 [OF len ij, where v = v, folded m'eq]
    have "v \<noteq> 0" using v by auto
    have "cell n m' k l = w" if "(k, l, w) \<in> set seen" for k l w
    proof -
      have kl: "k < n" "l < n" "cell n m k l = w" "10 \<le> w" using inv that by (auto simp: slit_inv_def)
      then have "w \<noteq> 0" by auto
      with kl old show ?thesis by (auto simp: up)
    qed
    moreover have "cell n m' k l = cell n m' l k" if "k < n" "l < n" for k l
      using inv that by (auto simp: up slit_inv_def)
    moreover have "cell n m' k l = 0 \<or> 10 \<le> cell n m' k l" if "k < n" "l < n" for k l
      using inv that v by (auto simp: up slit_inv_def)
    moreover have "cell n m' k k = 10" if "k < n" for k
      using inv that False by (auto simp: up slit_inv_def)
    moreover have "cell n m' i j = v" using ij by (simp add: up)
    moreover have "length m' = n * n" using len by (simp add: m'eq)
    moreover have "\<forall>(i, j, v)\<in>set seen. i < n \<and> j < n \<and> 10 \<le> v" using inv by (auto simp: slit_inv_def)
    ultimately have "slit_inv n m' ((i, j, v) # seen)"
      unfolding slit_inv_def using ij v by auto
    with res show ?thesis by blast
  qed
qed

fun triples :: "'a list \<Rightarrow> ('a \<times> 'a \<times> 'a) list" where
  "triples (a # b # c # xs) = (a, b, c) # triples xs"
| "triples _ = []"

lemma slit_mloop_inv:
  assumes "slit_mloop d n m cells = Inr m'" and "domains_ok d" and "n = unat (domains_len d)"
    and "slit_inv n m seen"
  shows "\<exists>seen'. slit_inv n m' (seen' @ seen) \<and> (\<forall>t\<in>set (triples cells). \<exists>r\<in>set seen'. resolves d t r)"
  using assms
proof (induction d n m cells arbitrary: seen rule: slit_mloop.induct)
  case (1 d n m)
  then show ?case by (intro exI [of _ "[]"]) simp
next
  case (2 d n m a b c cells)
  then obtain m1 where m1: "slit_mentry d n m a b c = Inr m1" "slit_mloop d n m1 cells = Inr m'"
    by (auto simp: result_simps)
  obtain r where r: "resolves d (a, b, c) r" "slit_inv n m1 (r # seen)"
    using slit_mentry_inv [OF 2(3,4,5) m1(1)] by blast
  obtain s where "slit_inv n m' (s @ r # seen)" "\<forall>t\<in>set (triples cells). \<exists>r\<in>set s. resolves d t r"
    using 2(1) [OF m1(2) 2(3,4) r(2)] by blast
  then show ?case using r(1) by (intro exI [of _ "s @ [r]"]) auto
qed simp_all

lemma slit_init_slot:
  assumes "length h = 44"
  shows "slit_init n (44 + length m) (h @ m) = rbind (slit_diagonal n (map (\<lambda>_. 0) m)) (\<lambda>m'. Inr (copy_at (h @ m) 44 m'))"
  using assms by (simp add: slit_init_def get_range_def SLIT_HEADER_SIZE_def)

lemma slit_inv_mono: "slit_inv n m (s @ seen) \<Longrightarrow> slit_inv n m s"
  by (auto simp: slit_inv_def)

text \<open>Default distances replace what no triple gave.\<close>

lemma slit_inv_fill:
  assumes "slit_inv n m seen"
  shows "slit_inv n (fill_default m) seen" and "\<And>i j. i < n \<Longrightarrow> j < n \<Longrightarrow> 10 \<le> cell n (fill_default m) i j"
proof -
  have len: "length m = n * n" using assms by (simp add: slit_inv_def)
  have f: "cell n (fill_default m) i j = (if cell n m i j = 0 then 20 else cell n m i j)"
    if "i < n" "j < n" for i j
    using cell_index [OF that] len by (simp add: cell_def fill_default_def)
  show ge: "10 \<le> cell n (fill_default m) i j" if "i < n" "j < n" for i j
    using assms that by (auto simp: f slit_inv_def)
  have "cell n (fill_default m) i j = v \<and> 10 \<le> v \<and> i < n \<and> j < n" if "(i, j, v) \<in> set seen" for i j v
  proof -
    have "i < n \<and> j < n \<and> cell n m i j = v \<and> 10 \<le> v" using assms that by (auto simp: slit_inv_def)
    then show ?thesis by (auto simp: f)
  qed
  moreover have "length (fill_default m) = n * n" using len by (simp add: fill_default_def)
  ultimately show "slit_inv n (fill_default m) seen"
    unfolding slit_inv_def using assms ge by (auto simp: f slit_inv_def)
qed

definition slit_head :: "domains \<Rightarrow> bytes" where
  "slit_head d = u64_field (ucast (domains_len d))"

lemma slit_header_bytes:
  "fields_bytes (slit_header_fields h (ucast (domains_len d))) = sdt_header_bytes h @ slit_head d"
  by (simp add: fields_bytes_def slit_header_fields_def slit_head_def)

lemma slit_emit_Inr:
  assumes em: "slit_emit oem V d slot = Inr t" and oem: "oem_ok oem" and dok: "domains_ok d"
    and n: "n = unat (domains_len d)" and len: "length slot = 44 + n * n"
  shows "table_ok ''SLIT'' SLIT_REVISION oem t \<and> length t = length slot \<and>
    (\<exists>node p seen. child V (root_of (tree_root V)) ''distance-map'' SiteDistanceMap = Inr (Some node) \<and>
      node_property V (dn_node node) ''distance-matrix'' = Some p \<and>
      slit_inv n (drop 44 t) seen \<and> (\<forall>i<n. \<forall>j<n. 10 \<le> cell n (drop 44 t) i j) \<and>
      (\<forall>x\<in>set (triples (cells_as_u32s (prop_bytes V p))). \<exists>r\<in>set seen. resolves d x r))"
proof -
  define h where "h = sdt_header_bytes (sdt_header_new ''SLIT'' (word_of_nat (length slot)) SLIT_REVISION oem) @ slit_head d"
  have lh: "length h = 44"
    unfolding h_def using length_sdt_header_bytes [OF oem, of "''SLIT''"] by (simp add: slit_head_def)
  have n255: "n \<le> 255" using n unat_u8_le by simp
  have nn: "n * n \<le> 255 * 255" using n255 by (intro mult_le_mono)
  define m0 where "m0 = drop 44 slot"
  have lm0: "length m0 = n * n" using len by (simp add: m0_def)
  have slot1: "copy_at slot 0 h = h @ m0" using lh by (simp add: copy_at_def m0_def)
  obtain m1 where m1: "slit_diagonal n (map (\<lambda>_. 0) m0) = Inr m1" "slit_inv n m1 []"
    using slit_diagonal_inv [OF n255, of "map (\<lambda>_. 0) m0"] lm0 by auto
  have lm1: "length m1 = n * n" using m1(2) by (simp add: slit_inv_def)
  have um: "usize_mul n n = Some (n * n)" "usize_add 44 (n * n) = Some (44 + n * n)"
    using nn by (simp_all add: usize_mul_def usize_add_def usize_max_def)
  have init: "slit_init n (44 + n * n) (h @ m0) = Inr (h @ m1)"
    using slit_init_slot [OF lh, of n m0] m1(1) lm0 lm1 lh by (simp add: copy_at_def)
  have wh: "write_header slot h = Inr (h @ m0)" using slot1 lh len by (simp add: write_header_Inr)
  from em obtain node p s3 where ll: "length slot < 2 ^ 32"
    and node: "child V (root_of (tree_root V)) ''distance-map'' SiteDistanceMap = Inr (Some node)"
    and p: "node_property V (dn_node node) ''distance-matrix'' = Some p"
    and loop: "slit_loop d n (44 + n * n) (h @ m1) (cells_as_u32s (prop_bytes V p)) = Inr s3"
    and cs: "set_sdt_checksum (put_matrix s3 (44 + n * n) (fill_default (matrix_of s3 (44 + n * n)))) = Inr t"
    by (auto simp: slit_emit_def result_simps sdt_length_from_slot_Inr slit_header_bytes h_def [symmetric] wh
        init n [symmetric] um SLIT_HEADER_SIZE_def Let_def split: if_splits)
  obtain m2 where m2: "slit_mloop d n m1 (cells_as_u32s (prop_bytes V p)) = Inr m2" "s3 = h @ m2"
    using loop slit_loop_matrix [OF lh n255, of "44 + n * n" m1 d "[]"] lm1 by (auto simp: result_simps)
  obtain seen where seen: "slit_inv n m2 seen" "\<forall>x\<in>set (triples (cells_as_u32s (prop_bytes V p))). \<exists>r\<in>set seen. resolves d x r"
    using slit_mloop_inv [OF m2(1) dok n m1(2)] by auto
  have lm2: "length m2 = n * n" using seen(1) by (simp add: slit_inv_def)
  have s4: "put_matrix s3 (44 + n * n) (fill_default (matrix_of s3 (44 + n * n))) = h @ fill_default m2"
    using matrix_of_slot [OF lh, of m2 "[]"] put_matrix_slot [OF lh, of "fill_default m2" m2 "[]"] lm2 m2(2)
    by (simp add: fill_default_def)
  have lf: "length (h @ fill_default m2) = length slot" using lh lm2 len by (simp add: fill_default_def)
  have t36: "take 36 (h @ fill_default m2) =
      sdt_header_bytes (sdt_header_new ''SLIT'' (word_of_nat (length slot)) SLIT_REVISION oem)"
    using length_sdt_header_bytes [OF oem, of "''SLIT''"] by (simp add: h_def)
  have res: "table_ok ''SLIT'' SLIT_REVISION oem t \<and> length t = length (h @ fill_default m2) \<and>
      drop 36 t = drop 36 (h @ fill_default m2)"
    by (rule set_sdt_checksum_slot [OF cs [unfolded s4] oem]) (use lf ll len t36 in simp_all)
  then have "drop 8 (drop 36 t) = drop 8 (drop 36 (h @ fill_default m2))" by simp
  then have "drop 44 t = fill_default m2" using lh by simp
  then show ?thesis using res lf node p seen slit_inv_fill [OF seen(1)] by auto
qed

lemma slit_inv_seen:
  "slit_inv n m seen \<Longrightarrow> (i, j, v) \<in> set seen \<Longrightarrow> i < n \<and> j < n \<and> cell n m i j = v \<and> 10 \<le> v"
proof -
  assume "slit_inv n m seen" and x: "(i, j, v) \<in> set seen"
  then have "\<forall>(i, j, v)\<in>set seen. i < n \<and> j < n \<and> cell n m i j = v \<and> 10 \<le> v"
    unfolding slit_inv_def by (elim conjE)
  from bspec [OF this x] show ?thesis by simp
qed

interpretation slit_table: table_emitter "slit_emit oem V d" "''SLIT''" SLIT_REVISION oem
    "\<lambda>k. oem_ok oem \<and> domains_ok d \<and> k = 44 + unat (domains_len d) * unat (domains_len d)"
  for oem :: oem_identity and V :: "('n, 'p) dt_view" and d :: domains
  by unfold_locales (use slit_emit_Inr in blast)

text \<open>C13. A SLIT that is emitted is a proper distance matrix for the domains of the tree:
  10 on the diagonal, symmetric, no distance below 10, and every (from, to, value) triple of
  \<open>/distance-map\<close> sits in its cell. Its checksum and header are right.\<close>

theorem slit_is_distance_matrix:
  assumes "slit_emit oem V d slot = Inr t" and "oem_ok oem" and "domains_ok d"
    and "n = unat (domains_len d)" and "length slot = 44 + n * n"
  shows "table_ok ''SLIT'' SLIT_REVISION oem t \<and>
    (\<forall>i<n. cell n (drop 44 t) i i = 10) \<and>
    (\<forall>i<n. \<forall>j<n. cell n (drop 44 t) i j = cell n (drop 44 t) j i \<and> 10 \<le> cell n (drop 44 t) i j) \<and>
    (\<exists>node p. child V (root_of (tree_root V)) ''distance-map'' SiteDistanceMap = Inr (Some node) \<and>
      node_property V (dn_node node) ''distance-matrix'' = Some p \<and>
      (\<forall>x\<in>set (triples (cells_as_u32s (prop_bytes V p))).
        \<exists>i j v. resolves d x (i, j, v) \<and> cell n (drop 44 t) i j = v))"
proof -
  obtain node p seen where n: "child V (root_of (tree_root V)) ''distance-map'' SiteDistanceMap = Inr (Some node)"
      "node_property V (dn_node node) ''distance-matrix'' = Some p"
    and inv: "slit_inv n (drop 44 t) seen" "\<forall>i<n. \<forall>j<n. 10 \<le> cell n (drop 44 t) i j"
    and tr: "\<forall>x\<in>set (triples (cells_as_u32s (prop_bytes V p))). \<exists>r\<in>set seen. resolves d x r"
    and tab: "table_ok ''SLIT'' SLIT_REVISION oem t"
    using slit_emit_Inr [OF assms] by blast
  have ex: "\<exists>i j v. resolves d x (i, j, v) \<and> cell n (drop 44 t) i j = v"
    if "x \<in> set (triples (cells_as_u32s (prop_bytes V p)))" for x
  proof -
    from bspec [OF tr that] obtain r where r: "r \<in> set seen" "resolves d x r" by (rule bexE)
    obtain i j v where e: "r = (i, j, v)" by (cases r)
    have "cell n (drop 44 t) i j = v"
      using slit_inv_seen [OF inv(1) r(1) [unfolded e]] by (elim conjE)
    with r(2) show ?thesis unfolding e by (intro exI conjI)
  qed
  have diag: "\<forall>i<n. cell n (drop 44 t) i i = 10"
    and sym: "\<forall>i<n. \<forall>j<n. cell n (drop 44 t) i j = cell n (drop 44 t) j i"
    using inv(1) unfolding slit_inv_def by - (elim conjE, assumption)+
  show ?thesis
  proof (intro conjI)
    show "table_ok ''SLIT'' SLIT_REVISION oem t" by (rule tab)
    show "\<forall>i<n. cell n (drop 44 t) i i = 10" by (rule diag)
    show "\<forall>i<n. \<forall>j<n. cell n (drop 44 t) i j = cell n (drop 44 t) j i \<and> 10 \<le> cell n (drop 44 t) i j"
      by (intro allI impI conjI) (rule sym [rule_format], assumption+, rule inv(2) [rule_format])
    show "\<exists>node p. child V (root_of (tree_root V)) ''distance-map'' SiteDistanceMap = Inr (Some node) \<and>
        node_property V (dn_node node) ''distance-matrix'' = Some p \<and>
        (\<forall>x\<in>set (triples (cells_as_u32s (prop_bytes V p))).
          \<exists>i j v. resolves d x (i, j, v) \<and> cell n (drop 44 t) i j = v)"
      by (rule exI [of _ node], rule exI [of _ p], intro conjI ballI, rule n(1), rule n(2), erule ex)
  qed
qed

definition demo_slit_tree :: dnode where
  "demo_slit_tree = DNode [] [] [DNode ''distance-map'' [(''distance-matrix'', u32_cells [0, 1, 15])] []]"

definition demo_domains :: domains where
  "demo_domains = \<lparr>dom_ids = [0, 1] @ replicate 254 0, dom_n = 2\<rparr>"

theorem slit_is_distance_matrix_witness:
  "\<exists>t. slit_emit demo_oem (dt_tree demo_slit_tree) demo_domains (replicate 48 0) = Inr t \<and>
    cell 2 (drop 44 t) 0 0 = 10 \<and> cell 2 (drop 44 t) 1 1 = 10"
proof -
  have "case slit_emit demo_oem (dt_tree demo_slit_tree) demo_domains (replicate 48 0) of
      Inr t \<Rightarrow> True | Inl _ \<Rightarrow> False"
    by code_simp
  then obtain t where t: "slit_emit demo_oem (dt_tree demo_slit_tree) demo_domains (replicate 48 0) = Inr t"
    by (auto split: sum.splits)
  have ok: "oem_ok demo_oem" by (simp add: oem_ok_def demo_oem_def)
  have dok: "domains_ok demo_domains"
    by (simp add: domains_ok_def demo_domains_def domains_ids_def get_range_def)
  have "cell 2 (drop 44 t) 0 0 = 10 \<and> cell 2 (drop 44 t) 1 1 = 10"
    using slit_is_distance_matrix [OF t ok dok, of 2] by (simp add: demo_domains_def domains_len_def)
  with t show ?thesis by blast
qed

end
