(* ===== verification/Spcr.thy ===== *)
theory Spcr
  imports Slit
begin

text \<open>
  The serial console: the SPCR (\<open>emit/spcr.rs\<close>), the search for the console named by
  \<open>/chosen/stdout-path\<close>, and the serial node that the DSDT describes.

  \<open>find_serial\<close> is what the device in the DSDT is made from, \<open>find_stdout_serial\<close>
  what the SPCR is made from. \<open>serial_checked\<close> says what both guarantee of the node they
  return; \<open>spcr_emit_Inr\<close> gives the fields of the table.
\<close>

unbundle bit_operations_syntax

section \<open>Constants\<close>

definition SPCR_REVISION :: u8 where "SPCR_REVISION = 2"
definition INTERFACE_TYPE_FULL_16550 :: u8 where "INTERFACE_TYPE_FULL_16550 = 0"
definition INTERRUPT_TYPE_IOAPIC :: u8 where "INTERRUPT_TYPE_IOAPIC = 8"
definition BAUD_RATE_115200 :: u8 where "BAUD_RATE_115200 = 7"
definition PARITY_NONE :: u8 where "PARITY_NONE = 0"
definition STOP_BITS_ONE :: u8 where "STOP_BITS_ONE = 1"
definition FLOW_CONTROL_NONE :: u8 where "FLOW_CONTROL_NONE = 0"
definition TERMINAL_TYPE_VT_UTF8 :: u8 where "TERMINAL_TYPE_VT_UTF8 = 3"
definition PCI_NOT_PRESENT_ID :: u16 where "PCI_NOT_PRESENT_ID = 0xFFFF"
definition SPCR_SIZE :: nat where "SPCR_SIZE = 80"

definition SERIAL_ALLOWED :: "string list" where
  "SERIAL_ALLOWED = [''compatible'', ''reg'', ''interrupts'', ''interrupt-parent'', ''reg-shift'',
    ''reg-io-width'', ''clock-frequency'', ''current-speed'']"

section \<open>The serial node\<close>

definition validate_property_set :: "('n, 'p) dt_view \<Rightarrow> 'n dtb_node \<Rightarrow> dtb_error + unit" where
  "validate_property_set V n =
    try_fold (\<lambda>_ p. if \<not> list_ex (\<lambda>a. a = prop_name V p) SERIAL_ALLOWED
                     then Inl (UnsupportedProperty SiteSerial) else Inr ())
      () (node_properties V (dn_node n))"

fun find_serial_in :: "('n, 'p) dt_view \<Rightarrow> 'n dtb_node list \<Rightarrow> dtb_error + 'n dtb_node option" where
  "find_serial_in V [] = Inr None"
| "find_serial_in V (c # cs) =
    (if \<not> base_name_is (dn_name V c) ''serial'' then find_serial_in V cs
     else
      rbind (has_compatible V c ''ns16550a'') (\<lambda>b.
        if \<not> b then Inl (UnsupportedNode SiteSerial)
        else rbind (validate_property_set V c) (\<lambda>_. Inr (Some c))))"

definition find_serial :: "('n, 'p) dt_view \<Rightarrow> dtb_error + 'n dtb_node option" where
  "find_serial V = rbind (children V (root_of (tree_root V))) (find_serial_in V)"

fun descend_path :: "('n, 'p) dt_view \<Rightarrow> 'n dtb_node \<Rightarrow> string list \<Rightarrow> dtb_error + 'n dtb_node option" where
  "descend_path V n [] = Inr (Some n)"
| "descend_path V n (seg # segs) =
    rbind (child V n seg SiteSerial) (\<lambda>m.
      case m of None \<Rightarrow> Inr None | Some next \<Rightarrow> descend_path V next segs)"

definition find_serial_by_path :: "('n, 'p) dt_view \<Rightarrow> string \<Rightarrow> dtb_error + 'n dtb_node option" where
  "find_serial_by_path V path =
    (case path of
       CHR ''/'' # rest \<Rightarrow>
         if rest = [] then Inr None
         else descend_path V (root_of (tree_root V)) (filter (\<lambda>s. s \<noteq> []) (split_on CHR ''/'' rest))
     | _ \<Rightarrow> Inr None)"

text \<open>\<open>s.split_once(c).unwrap_or((s, ""))\<close>: the part before the first \<open>c\<close> and the part
  after it.\<close>

definition split_once_or :: "char \<Rightarrow> string \<Rightarrow> string \<times> string" where
  "split_once_or c s = (takeWhile (\<lambda>x. x \<noteq> c) s, drop 1 (dropWhile (\<lambda>x. x \<noteq> c) s))"

definition is_ascii_digit :: "char \<Rightarrow> bool" where
  "is_ascii_digit c = (48 \<le> (of_char c :: nat) \<and> (of_char c :: nat) \<le> 57)"

text \<open>\<open>str::parse::<u32>\<close> on a string of digits.\<close>

definition parse_u32_digits :: "string \<Rightarrow> u32 option" where
  "parse_u32_digits s =
    (let v = foldl (\<lambda>a c. a * 10 + (of_char c - 48)) (0 :: int) s in
     if s \<noteq> [] \<and> v < 0x100000000 then Some (word_of_int v) else None)"

definition stdout_malformed :: dtb_error where
  "stdout_malformed = MalformedProperty SiteRoot ''stdout-path''"

definition parse_stdout_baud :: "string \<Rightarrow> dtb_error + u32 option" where
  "parse_stdout_baud opts =
    (if opts = [] then Inr None
     else
      (let digits = length (takeWhile is_ascii_digit opts) in
       if digits = 0 then Inr None
       else
        (case get_range opts 0 digits of
           None \<Rightarrow> Inl stdout_malformed
         | Some s \<Rightarrow>
            (case parse_u32_digits s of None \<Rightarrow> Inl stdout_malformed | Some v \<Rightarrow> Inr (Some v)))))"

definition stdout_target :: "('n, 'p) dt_view \<Rightarrow> string \<Rightarrow> dtb_error + 'n dtb_node option" where
  "stdout_target V target =
    (if starts_with ''/'' target then find_serial_by_path V target
     else
      (case find_path V ''/aliases'' of
         None \<Rightarrow> Inl stdout_malformed
       | Some aliases \<Rightarrow>
          rbind (ok_or stdout_malformed (node_property V aliases target)) (\<lambda>alias.
          rbind (ok_or stdout_malformed (as_str V alias)) (\<lambda>path.
            find_serial_by_path V path))))"

definition check_stdout ::
  "('n, 'p) dt_view \<Rightarrow> string \<Rightarrow> 'n dtb_node option \<Rightarrow> dtb_error + ('n dtb_node \<times> u32 option) option" where
  "check_stdout V opts serial =
    (case serial of
       None \<Rightarrow> Inl stdout_malformed
     | Some s \<Rightarrow>
        rbind (has_compatible V s ''ns16550a'') (\<lambda>b.
          if \<not> b then Inl (UnsupportedNode SiteSerial)
          else
            rbind (validate_property_set V s) (\<lambda>_.
            rbind (parse_stdout_baud opts) (\<lambda>baud. Inr (Some (s, baud))))))"

definition find_stdout_serial :: "('n, 'p) dt_view \<Rightarrow> dtb_error + ('n dtb_node \<times> u32 option) option" where
  "find_stdout_serial V =
    (case find_path V ''/chosen'' of
       None \<Rightarrow> Inr None
     | Some chosen \<Rightarrow>
    (case node_property V chosen ''stdout-path'' of
       None \<Rightarrow> Inr None
     | Some p \<Rightarrow>
        rbind (ok_or stdout_malformed (as_str V p)) (\<lambda>stdout.
        let target = fst (split_once_or CHR '':'' stdout); opts = snd (split_once_or CHR '':'' stdout) in
        rbind (stdout_target V target) (check_stdout V opts))))"

definition spcr_present :: "('n, 'p) dt_view \<Rightarrow> dtb_error + bool" where
  "spcr_present V = rbind (find_stdout_serial V) (\<lambda>m. Inr (m \<noteq> None))"

definition decode_serial :: "('n, 'p) dt_view \<Rightarrow> 'n dtb_node \<Rightarrow> dtb_error + u64 \<times> u8 \<times> u32" where
  "decode_serial V n =
    rbind (reg V n SiteSerial) (\<lambda>it.
    rbind (ok_or (MalformedProperty SiteSerial ''reg'') (fst (reg_next it))) (\<lambda>(base, _).
    rbind (property_u32 V n ''reg-io-width'' SiteSerial) (\<lambda>io_width.
    rbind (if io_width = 1 then Inr 1
           else if io_width = 2 then Inr 2
           else if io_width = 4 then Inr 3
           else if io_width = 8 then Inr 4
           else Inl (ValueOutOfRange SiteSerial ''reg-io-width'')) (\<lambda>access_sz.
    rbind (decode_interrupts_2 V n SiteSerial) (\<lambda>(pin, _).
      Inr (base, access_sz, pin))))))"

definition decode_baud_rate :: "('n, 'p) dt_view \<Rightarrow> 'n dtb_node \<Rightarrow> u32 option \<Rightarrow> dtb_error + u8" where
  "decode_baud_rate V n stdout_baud =
    rbind (property_u32_opt V n ''current-speed'') (\<lambda>speed.
      case (case stdout_baud of Some b \<Rightarrow> Some b | None \<Rightarrow> speed) of
        None \<Rightarrow> Inr 0
      | Some b \<Rightarrow>
          if b = 9600 then Inr 3
          else if b = 19200 then Inr 4
          else if b = 57600 then Inr 6
          else if b = 115200 then Inr BAUD_RATE_115200
          else Inl (ValueOutOfRange SiteSerial ''current-speed''))"

section \<open>The table\<close>

definition spcr_fields :: "sdt_header \<Rightarrow> generic_address \<Rightarrow> u32 \<Rightarrow> u8 \<Rightarrow> fields" where
  "spcr_fields header base_address gsi baud_rate =
    [(''header'', sdt_header_bytes header), (''interface_type'', u8_field INTERFACE_TYPE_FULL_16550),
     (''reserved0'', [0, 0, 0]), (''base_address'', gas_bytes base_address),
     (''interrupt_type'', u8_field INTERRUPT_TYPE_IOAPIC), (''irq'', u8_field 0), (''gsi'', u32_field gsi),
     (''baud_rate'', u8_field baud_rate), (''parity'', u8_field PARITY_NONE),
     (''stop_bits'', u8_field STOP_BITS_ONE), (''flow_control'', u8_field FLOW_CONTROL_NONE),
     (''terminal_type'', u8_field TERMINAL_TYPE_VT_UTF8), (''language'', u8_field 0),
     (''pci_device_id'', u16_field PCI_NOT_PRESENT_ID), (''pci_vendor_id'', u16_field PCI_NOT_PRESENT_ID),
     (''pci_bus'', u8_field 0), (''pci_device'', u8_field 0), (''pci_function'', u8_field 0),
     (''pci_flags'', u32_field 0), (''pci_segment'', u8_field 0), (''reserved1'', u32_field 0)]"

definition spcr_emit :: "oem_identity \<Rightarrow> ('n, 'p) dt_view \<Rightarrow> bytes \<Rightarrow> dtb_error + bytes" where
  "spcr_emit oem V slot =
    rbind (find_stdout_serial V) (\<lambda>m.
    rbind (ok_or Internal m) (\<lambda>(node, stdout_baud).
    rbind (decode_serial V node) (\<lambda>(base, access_sz, gsi).
    rbind (decode_baud_rate V node stdout_baud) (\<lambda>baud_rate.
    rbind (sdt_length_from_slot slot) (\<lambda>len.
    rbind (write_header slot (fields_bytes (spcr_fields (sdt_header_new ''SPCR'' len SPCR_REVISION oem)
        \<lparr>address_space_id = SYSTEM_MEMORY, register_bit_width = 32, register_bit_offset = 0,
         access_size = access_sz, gas_address = base\<rparr> gsi baud_rate)))
      set_sdt_checksum)))))"

section \<open>What the search guarantees\<close>

definition serial_checked :: "('n, 'p) dt_view \<Rightarrow> 'n dtb_node \<Rightarrow> bool" where
  "serial_checked V n = (has_compatible V n ''ns16550a'' = Inr True \<and>
    (\<forall>p\<in>set (node_properties V (dn_node n)). prop_name V p \<in> set SERIAL_ALLOWED))"

lemma validate_property_set_Inr:
  "validate_property_set V n = Inr u \<longleftrightarrow>
    (\<forall>p\<in>set (node_properties V (dn_node n)). prop_name V p \<in> set SERIAL_ALLOWED)"
proof -
  have "try_fold (\<lambda>_ p. if \<not> list_ex (\<lambda>a. a = prop_name V p) SERIAL_ALLOWED
      then Inl (UnsupportedProperty SiteSerial) else Inr ()) () ps = Inr u \<longleftrightarrow>
    (\<forall>p\<in>set ps. prop_name V p \<in> set SERIAL_ALLOWED)" for ps
    by (induction ps) (simp_all add: list_ex_iff)
  then show ?thesis by (simp add: validate_property_set_def)
qed

lemma find_serial_in_Some: "find_serial_in V cs = Inr (Some c) \<Longrightarrow> c \<in> set cs \<and> serial_checked V c"
  by (induction cs) (auto simp: result_simps serial_checked_def validate_property_set_Inr split: if_splits)

lemma check_stdout_Some: "check_stdout V opts m = Inr (Some (s, baud)) \<Longrightarrow> serial_checked V s"
  by (cases m) (auto simp: check_stdout_def result_simps serial_checked_def validate_property_set_Inr
      split: if_splits)

lemma find_stdout_serial_Some: "find_stdout_serial V = Inr (Some (s, baud)) \<Longrightarrow> serial_checked V s"
  by (auto simp: find_stdout_serial_def result_simps Let_def dest: check_stdout_Some split: option.splits)

lemma allowed_properties_serial:
  "allowed_properties SiteSerial = tl (tl (concat (map (\<lambda>s. '', '' @ s) SERIAL_ALLOWED)))"
  by (simp add: allowed_properties_def SERIAL_ALLOWED_def)

lemma length_spcr_fields:
  "length (sdt_header_bytes h) = 36 \<Longrightarrow> length (fields_bytes (spcr_fields h g x b)) = SPCR_SIZE"
  by (simp add: fields_bytes_def spcr_fields_def SPCR_SIZE_def)

text \<open>The table describes the console: its registers, its interrupt, its speed.\<close>

lemma spcr_emit_Inr:
  assumes "spcr_emit oem V slot = Inr t" and "oem_ok oem" and "length slot = SPCR_SIZE"
  shows "table_ok ''SPCR'' SPCR_REVISION oem t \<and> length t = length slot \<and>
    (\<exists>node stdout_baud base acc gsi baud.
      find_stdout_serial V = Inr (Some (node, stdout_baud)) \<and> serial_checked V node \<and>
      decode_serial V node = Inr (base, acc, gsi) \<and> decode_baud_rate V node stdout_baud = Inr baud \<and>
      from_le (take 8 (drop 44 t)) = base \<and> from_le (take 4 (drop 54 t)) = gsi \<and> t ! 58 = baud)"
proof -
  from assms(1) obtain node sb base acc gsi baud s1 where f: "find_stdout_serial V = Inr (Some (node, sb))"
    and d: "decode_serial V node = Inr (base, acc, gsi)" and b: "decode_baud_rate V node sb = Inr baud"
    and len: "length slot < 2 ^ 32"
    and w: "write_header slot (fields_bytes (spcr_fields
        (sdt_header_new ''SPCR'' (word_of_nat (length slot)) SPCR_REVISION oem)
        \<lparr>address_space_id = SYSTEM_MEMORY, register_bit_width = 32, register_bit_offset = 0,
         access_size = acc, gas_address = base\<rparr> gsi baud)) = Inr s1" and c1: "set_sdt_checksum s1 = Inr t"
    by (auto simp: spcr_emit_def result_simps sdt_length_from_slot_Inr)
  define h where "h = sdt_header_bytes (sdt_header_new ''SPCR'' (word_of_nat (length slot)) SPCR_REVISION oem)"
  have lh: "length h = 36" unfolding h_def by (rule length_sdt_header_bytes) (simp_all add: assms(2))
  define r where "r = [INTERFACE_TYPE_FULL_16550, 0, 0, 0, SYSTEM_MEMORY, 32, 0, acc] @ le_bytes 8 base @
    [INTERRUPT_TYPE_IOAPIC, 0] @ le_bytes 4 gsi @ [baud, PARITY_NONE, STOP_BITS_ONE, FLOW_CONTROL_NONE,
     TERMINAL_TYPE_VT_UTF8, 0] @ le_bytes 2 PCI_NOT_PRESENT_ID @ le_bytes 2 PCI_NOT_PRESENT_ID @ [0, 0, 0] @
    le_bytes 4 (0 :: u32) @ [0] @ le_bytes 4 (0 :: u32)"
  have fb: "fields_bytes (spcr_fields (sdt_header_new ''SPCR'' (word_of_nat (length slot)) SPCR_REVISION oem)
      \<lparr>address_space_id = SYSTEM_MEMORY, register_bit_width = 32, register_bit_offset = 0,
       access_size = acc, gas_address = base\<rparr> gsi baud) = h @ r"
    by (simp add: fields_bytes_def spcr_fields_def h_def r_def gas_bytes_def u8_field_def u16_field_def u32_field_def)
  have lr: "length r = 44" by (simp add: r_def)
  have cs: "set_sdt_checksum (h @ r) = Inr t"
    using w c1 lh lr assms(3) unfolding fb write_header_Inr by (simp add: copy_at_0_all SPCR_SIZE_def)
  have ls: "length (h @ r) = length slot" using lh lr assms(3) by (simp add: SPCR_SIZE_def)
  have res: "table_ok ''SPCR'' SPCR_REVISION oem t \<and> length t = length (h @ r) \<and> drop 36 t = drop 36 (h @ r)"
    by (rule set_sdt_checksum_slot [OF cs assms(2)]) (use ls len lh in \<open>simp_all add: h_def\<close>)
  then have d36: "drop 36 t = r" using lh by simp
  have dr: "drop (36 + k) t = drop k r" for k using d36 by (metis add.commute drop_drop)
  have "take 8 (drop 44 t) = le_bytes 8 base" using dr [of 8] by (simp add: r_def)
  moreover have "take 4 (drop 54 t) = le_bytes 4 gsi" using dr [of 18] by (simp add: r_def)
  moreover have "t ! 58 = baud"
  proof -
    have "36 \<le> length t" using res lh by simp
    from nth_drop [OF this, of 22] have "t ! 58 = drop 36 t ! 22" by simp
    then show ?thesis by (simp add: d36 r_def nth_append)
  qed
  ultimately show ?thesis using res ls f d b find_stdout_serial_Some [OF f]
    by (auto simp: from_le_le_bytes_full)
qed

interpretation spcr_table: table_emitter "spcr_emit oem V" "''SPCR''" SPCR_REVISION oem
    "\<lambda>n. oem_ok oem \<and> n = SPCR_SIZE"
  for oem :: oem_identity and V :: "('n, 'p) dt_view"
  by unfold_locales (use spcr_emit_Inr in blast)

interpretation fadt_table: table_emitter "fadt_emit dsdt_gpa plan oem" "''FACP''" FADT_REVISION oem
    "\<lambda>n. oem_ok oem \<and> n = FADT_SIZE"
  for dsdt_gpa :: u64 and plan :: fadt_plan and oem :: oem_identity
  by unfold_locales (use fadt_emit_table in blast)

interpretation xsdt_table: table_emitter "xsdt_emit oem base_gpa off" "''XSDT''" XSDT_REVISION oem
    "\<lambda>n. oem_ok oem \<and> n < 2 ^ 32 \<and> n = 36 + 8 * length (xsdt_targets off)"
  for oem :: oem_identity and base_gpa :: u64 and off :: offsets
  by unfold_locales (use xsdt_emit_table in blast)

text \<open>An SPCR that is emitted describes the console of \<open>/chosen/stdout-path\<close>: the node is an
  ns16550a all of whose properties are known ones, and the table carries its register base, its
  interrupt and its baud rate, which a rate in \<open>stdout-path\<close> overrides; header and checksum are
  right.\<close>

lemma spcr_describes_console:
  assumes "spcr_emit oem V slot = Inr t" and "oem_ok oem" and "length slot = SPCR_SIZE"
  shows "table_ok ''SPCR'' SPCR_REVISION oem t \<and>
    (\<exists>node stdout_baud base acc gsi baud.
      find_stdout_serial V = Inr (Some (node, stdout_baud)) \<and> has_compatible V node ''ns16550a'' = Inr True \<and>
      (\<forall>p\<in>set (node_properties V (dn_node node)). prop_name V p \<in> set SERIAL_ALLOWED) \<and>
      decode_serial V node = Inr (base, acc, gsi) \<and> decode_baud_rate V node stdout_baud = Inr baud \<and>
      from_le (take 8 (drop 44 t)) = base \<and> from_le (take 4 (drop 54 t)) = gsi \<and> t ! 58 = baud)"
proof -
  obtain node sb base acc gsi baud where t: "table_ok ''SPCR'' SPCR_REVISION oem t"
      "find_stdout_serial V = Inr (Some (node, sb))" "serial_checked V node"
      "decode_serial V node = Inr (base, acc, gsi)" "decode_baud_rate V node sb = Inr baud"
      "from_le (take 8 (drop 44 t)) = base" "from_le (take 4 (drop 54 t)) = gsi" "t ! 58 = baud"
    using spcr_emit_Inr [OF assms] by blast
  then show ?thesis unfolding serial_checked_def by blast
qed

definition demo_console :: dnode where
  "demo_console = DNode [] [(''#address-cells'', u32_cells [1]), (''#size-cells'', u32_cells [1])]
    [DNode ''chosen'' [(''stdout-path'', nul_str ''/uart:9600n8'')] [],
     DNode ''uart'' [(''compatible'', nul_str ''ns16550a''), (''reg'', u32_cells [0x1000, 256]),
       (''interrupts'', u32_cells [4, 1]), (''reg-io-width'', u32_cells [4])] []]"

lemma spcr_describes_console_witness:
  "\<exists>t. spcr_emit demo_oem (dt_tree demo_console) (replicate 80 0) = Inr t \<and>
    table_ok ''SPCR'' SPCR_REVISION demo_oem t \<and> t ! 58 = 3"
proof -
  have "case spcr_emit demo_oem (dt_tree demo_console) (replicate 80 0) of Inr t \<Rightarrow> t ! 58 = 3 | Inl _ \<Rightarrow> False"
    by code_simp
  then obtain t where t: "spcr_emit demo_oem (dt_tree demo_console) (replicate 80 0) = Inr t" "t ! 58 = 3"
    by (auto split: sum.splits)
  from spcr_describes_console [OF t(1)] t show ?thesis
    by (simp add: SPCR_SIZE_def oem_ok_def demo_oem_def)
qed

end
