(* ===== verification/Aml.thy ===== *)
theory Aml
  imports Spcr
begin

text \<open>
  The byte code of the DSDT (\<open>emit/aml.rs\<close>): names, package lengths, strings and resource
  descriptors.

  Every writer is shown equal to \<open>write_entry\<close> of a byte string (the lemmas of
  \<open>aml_simps\<close>), so a chain of writers is one write of the concatenation. The locale
  \<open>aml_writer\<close> states that contract once; the writers the device modules use interpret it.
  \<open>pkg_length_roundtrip\<close> decodes a package length as an interpreter of AML does.
\<close>

unbundle bit_operations_syntax

named_theorems aml_simps \<open>writers as one write of their bytes\<close>

section \<open>Constants\<close>

definition NAME_OP :: u8 where "NAME_OP = 0x08"
definition BYTE_PREFIX :: u8 where "BYTE_PREFIX = 0x0A"
definition WORD_PREFIX :: u8 where "WORD_PREFIX = 0x0B"
definition DWORD_PREFIX :: u8 where "DWORD_PREFIX = 0x0C"
definition STRING_PREFIX :: u8 where "STRING_PREFIX = 0x0D"
definition BUFFER_OP :: u8 where "BUFFER_OP = 0x11"
definition PACKAGE_OP :: u8 where "PACKAGE_OP = 0x12"
definition EXT_OP_PREFIX :: u8 where "EXT_OP_PREFIX = 0x5B"
definition DEVICE_OP :: u8 where "DEVICE_OP = 0x82"
definition TAG_DWORD_ADDRESS_SPACE :: u8 where "TAG_DWORD_ADDRESS_SPACE = 0x87"
definition TAG_WORD_ADDRESS_SPACE :: u8 where "TAG_WORD_ADDRESS_SPACE = 0x88"
definition TAG_EXTENDED_INTERRUPT :: u8 where "TAG_EXTENDED_INTERRUPT = 0x89"
definition TAG_QWORD_ADDRESS_SPACE :: u8 where "TAG_QWORD_ADDRESS_SPACE = 0x8A"
definition TAG_END :: u8 where "TAG_END = 0x79"
definition RES_TYPE_MEMORY :: u8 where "RES_TYPE_MEMORY = 0"
definition RES_TYPE_BUS_NUMBER :: u8 where "RES_TYPE_BUS_NUMBER = 2"
definition GENFLAGS_FIXED_RANGE :: u8 where "GENFLAGS_FIXED_RANGE = 12"
definition MEMFLAGS_READWRITE :: u8 where "MEMFLAGS_READWRITE = 1"
definition PKG_LENGTH_BYTES :: nat where "PKG_LENGTH_BYTES = 2"
definition WORD_BUS_NUMBER_BYTES :: nat where "WORD_BUS_NUMBER_BYTES = 16"
definition DWORD_MEMORY_BYTES :: nat where "DWORD_MEMORY_BYTES = 26"
definition QWORD_MEMORY_BYTES :: nat where "QWORD_MEMORY_BYTES = 46"
definition EXTENDED_INTERRUPT_BYTES :: nat where "EXTENDED_INTERRUPT_BYTES = 9"
definition END_TAG_BYTES :: nat where "END_TAG_BYTES = 2"
definition CRS_WRAPPER_BYTES :: nat where "CRS_WRAPPER_BYTES = 1 + 4 + 1 + PKG_LENGTH_BYTES + 3"

definition usize_sub :: "nat \<Rightarrow> nat \<Rightarrow> nat option" where
  "usize_sub a b = (if b \<le> a then Some (a - b) else None)"

definition sat_add :: "nat \<Rightarrow> nat \<Rightarrow> nat" where
  "sat_add a b = (case usize_add a b of None \<Rightarrow> usize_max | Some c \<Rightarrow> c)"

definition sat_mul :: "nat \<Rightarrow> nat \<Rightarrow> nat" where
  "sat_mul a b = (case usize_mul a b of None \<Rightarrow> usize_max | Some c \<Rightarrow> c)"

definition u8_sat_sub :: "u8 \<Rightarrow> u8 \<Rightarrow> u8" where
  "u8_sat_sub a b = (if b \<le> a then a - b else 0)"

definition u64_sat_sub :: "'a::len word \<Rightarrow> 'a word \<Rightarrow> 'a word" where
  "u64_sat_sub a b = (if b \<le> a then a - b else 0)"

section \<open>Writers\<close>

definition write_bytes :: "bytes \<Rightarrow> nat \<Rightarrow> bytes \<Rightarrow> dtb_error + bytes \<times> nat" where
  "write_bytes slot pos bs =
    rbind (ok_or Internal (usize_add pos (length bs))) (\<lambda>e.
    rbind (ok_or Internal (get_range slot pos e)) (\<lambda>_.
      Inr (copy_at slot pos bs, e)))"

definition write_pkg_length :: "bytes \<Rightarrow> nat \<Rightarrow> nat \<Rightarrow> dtb_error + bytes \<times> nat" where
  "write_pkg_length slot pos v =
    (if v > 0x0FFF then Inl Internal
     else
      (let b0 = 0x40 OR (word_of_nat (v mod 16) :: u8);
           b1 = word_of_nat (v div 16 mod 256) :: u8
       in write_bytes slot pos [b0, b1]))"

definition write_name_seg :: "bytes \<Rightarrow> nat \<Rightarrow> bytes \<Rightarrow> dtb_error + bytes \<times> nat" where
  "write_name_seg slot pos name = write_bytes slot pos name"

definition write_device_header :: "bytes \<Rightarrow> nat \<Rightarrow> bytes \<Rightarrow> nat \<Rightarrow> dtb_error + bytes \<times> nat" where
  "write_device_header slot pos name total_bytes =
    rbind (write_bytes slot pos [EXT_OP_PREFIX, DEVICE_OP]) (\<lambda>(slot, pos).
    rbind (ok_or Internal (usize_sub total_bytes 2)) (\<lambda>pkg_value.
    rbind (write_pkg_length slot pos pkg_value) (\<lambda>(slot, pos).
      write_name_seg slot pos name)))"

definition name_seg_indexed :: "bytes \<Rightarrow> u8 \<Rightarrow> bytes" where
  "name_seg_indexed prefix index =
    (let suffix = (if index < 10 then saturating_add 48 index
                   else saturating_add 65 (u8_sat_sub index 10))
     in [prefix ! 0, prefix ! 1, prefix ! 2, suffix])"

definition write_name_byte :: "bytes \<Rightarrow> nat \<Rightarrow> bytes \<Rightarrow> u8 \<Rightarrow> dtb_error + bytes \<times> nat" where
  "write_name_byte slot pos name v =
    rbind (write_bytes slot pos [NAME_OP]) (\<lambda>(slot, pos).
    rbind (write_name_seg slot pos name) (\<lambda>(slot, pos).
      write_bytes slot pos [BYTE_PREFIX, v]))"

definition write_name_dword :: "bytes \<Rightarrow> nat \<Rightarrow> bytes \<Rightarrow> u32 \<Rightarrow> dtb_error + bytes \<times> nat" where
  "write_name_dword slot pos name v =
    rbind (write_bytes slot pos [NAME_OP]) (\<lambda>(slot, pos).
    rbind (write_name_seg slot pos name) (\<lambda>(slot, pos).
    rbind (write_bytes slot pos [DWORD_PREFIX]) (\<lambda>(slot, pos).
      write_bytes slot pos (le_bytes 4 v))))"

definition write_string :: "bytes \<Rightarrow> nat \<Rightarrow> bytes \<Rightarrow> dtb_error + bytes \<times> nat" where
  "write_string slot pos v =
    rbind (write_bytes slot pos [STRING_PREFIX]) (\<lambda>(slot, pos).
    rbind (write_bytes slot pos v) (\<lambda>(slot, pos).
      write_bytes slot pos [0]))"

definition write_name_string :: "bytes \<Rightarrow> nat \<Rightarrow> bytes \<Rightarrow> bytes \<Rightarrow> dtb_error + bytes \<times> nat" where
  "write_name_string slot pos name v =
    rbind (write_bytes slot pos [NAME_OP]) (\<lambda>(slot, pos).
    rbind (write_name_seg slot pos name) (\<lambda>(slot, pos).
      write_string slot pos v))"

definition string_bytes :: "nat \<Rightarrow> nat" where
  "string_bytes value_len = sat_add value_len 2"

definition write_byte_buffer :: "bytes \<Rightarrow> nat \<Rightarrow> bytes \<Rightarrow> dtb_error + bytes \<times> nat" where
  "write_byte_buffer slot pos bs =
    rbind (ok_or Internal (if int (length bs) < 256 then Some (word_of_nat (length bs) :: u8) else None)) (\<lambda>len.
    rbind (write_bytes slot pos [BUFFER_OP]) (\<lambda>(slot, pos).
    rbind (ok_or Internal (usize_add PKG_LENGTH_BYTES 2)) (\<lambda>v.
    rbind (ok_or Internal (usize_add v (length bs))) (\<lambda>pkg.
    rbind (write_pkg_length slot pos pkg) (\<lambda>(slot, pos).
    rbind (write_bytes slot pos [BYTE_PREFIX, len]) (\<lambda>(slot, pos).
      write_bytes slot pos bs))))))"

definition byte_buffer_bytes :: "nat \<Rightarrow> nat" where
  "byte_buffer_bytes value_len = sat_add (sat_add value_len PKG_LENGTH_BYTES) 3"

definition hex_digit :: "u8 \<Rightarrow> u8" where
  "hex_digit c = (if 48 \<le> c \<and> c \<le> 57 then c - 48
    else if 65 \<le> c \<and> c \<le> 70 then c - 65 + 10 else 0)"

definition eisaid :: "bytes \<Rightarrow> u32" where
  "eisaid s = (let
     c0 = ucast (s ! 0 - 64); c1 = ucast (s ! 1 - 64); c2 = ucast (s ! 2 - 64);
     h0 = ucast (hex_digit (s ! 3)); h1 = ucast (hex_digit (s ! 4));
     h2 = ucast (hex_digit (s ! 5)); h3 = ucast (hex_digit (s ! 6));
     b0 = push_bit 2 c0 OR drop_bit 3 c1;
     b1 = push_bit 5 (c1 AND 7) OR c2;
     b2 = push_bit 4 h0 OR h1;
     b3 = push_bit 4 h2 OR h3
   in b0 OR push_bit 8 b1 OR push_bit 16 b2 OR push_bit 24 b3)"

section \<open>Resource descriptors\<close>

definition write_word_bus_number :: "bytes \<Rightarrow> nat \<Rightarrow> u8 \<Rightarrow> u8 \<Rightarrow> dtb_error + bytes \<times> nat" where
  "write_word_bus_number slot pos bus_min bus_max =
    (let len = ucast (saturating_add (u8_sat_sub bus_max bus_min) 1) :: u16 in
     write_bytes slot pos
      ([TAG_WORD_ADDRESS_SPACE, 0x0D, 0x00, RES_TYPE_BUS_NUMBER, GENFLAGS_FIXED_RANGE, 0] @
       le_bytes 2 (0 :: u16) @ le_bytes 2 (ucast bus_min :: u16) @ le_bytes 2 (ucast bus_max :: u16) @
       le_bytes 2 (0 :: u16) @ le_bytes 2 len))"

definition write_dword_memory :: "bytes \<Rightarrow> nat \<Rightarrow> u32 \<Rightarrow> u32 \<Rightarrow> dtb_error + bytes \<times> nat" where
  "write_dword_memory slot pos base sz =
    rbind (ok_or Internal (checked_add base sz)) (\<lambda>e.
      let mx = u64_sat_sub e 1 in
      write_bytes slot pos
       ([TAG_DWORD_ADDRESS_SPACE, 0x17, 0x00, RES_TYPE_MEMORY, GENFLAGS_FIXED_RANGE, MEMFLAGS_READWRITE] @
        le_bytes 4 (0 :: u32) @ le_bytes 4 base @ le_bytes 4 mx @ le_bytes 4 (0 :: u32) @ le_bytes 4 sz))"

definition write_qword_memory :: "bytes \<Rightarrow> nat \<Rightarrow> u64 \<Rightarrow> u64 \<Rightarrow> dtb_error + bytes \<times> nat" where
  "write_qword_memory slot pos base sz =
    rbind (ok_or Internal (checked_add base sz)) (\<lambda>e.
      let mx = u64_sat_sub e 1 in
      write_bytes slot pos
       ([TAG_QWORD_ADDRESS_SPACE, 0x2B, 0x00, RES_TYPE_MEMORY, GENFLAGS_FIXED_RANGE, MEMFLAGS_READWRITE] @
        le_bytes 8 (0 :: u64) @ le_bytes 8 base @ le_bytes 8 mx @ le_bytes 8 (0 :: u64) @ le_bytes 8 sz))"

definition write_extended_interrupt :: "bytes \<Rightarrow> nat \<Rightarrow> u32 \<Rightarrow> u32 \<Rightarrow> dtb_error + bytes \<times> nat" where
  "write_extended_interrupt slot pos gsi sense =
    (let trigger_polarity = (if sense = 2 then 6 else if sense = 4 then 0 else if sense = 8 then 4 else 2) :: u8
     in write_bytes slot pos
      ([TAG_EXTENDED_INTERRUPT, 0x06, 0x00, 1 OR trigger_polarity, 1] @ le_bytes 4 gsi))"

definition write_end_tag :: "bytes \<Rightarrow> nat \<Rightarrow> dtb_error + bytes \<times> nat" where
  "write_end_tag slot pos = write_bytes slot pos [TAG_END, 0]"

definition write_crs_buffer_header :: "bytes \<Rightarrow> nat \<Rightarrow> nat \<Rightarrow> dtb_error + bytes \<times> nat" where
  "write_crs_buffer_header slot pos descriptor_bytes =
    rbind (ok_or Internal (if int descriptor_bytes < 65536 then Some (word_of_nat descriptor_bytes :: u16) else None)) (\<lambda>buffer_size.
    rbind (ok_or Internal (usize_add PKG_LENGTH_BYTES 3)) (\<lambda>v.
    rbind (ok_or Internal (usize_add v descriptor_bytes)) (\<lambda>buf_pkg_value.
    rbind (write_bytes slot pos [NAME_OP]) (\<lambda>(slot, pos).
    rbind (write_name_seg slot pos (str_bytes ''_CRS'')) (\<lambda>(slot, pos).
    rbind (write_bytes slot pos [BUFFER_OP]) (\<lambda>(slot, pos).
    rbind (write_pkg_length slot pos buf_pkg_value) (\<lambda>(slot, pos).
    rbind (write_bytes slot pos [WORD_PREFIX]) (\<lambda>(slot, pos).
      write_bytes slot pos (le_bytes 2 buffer_size)))))))))"

section \<open>The contract of a writer\<close>

locale aml_writer =
  fixes w :: "bytes \<Rightarrow> nat \<Rightarrow> dtb_error + bytes \<times> nat" and enc :: bytes
  assumes w_eq: "w slot pos = write_entry slot pos enc"
begin

lemma advances:
  "w slot pos = Inr (s, p) \<Longrightarrow> p = pos + length enc \<and> length s = length slot \<and> p \<le> length s"
  by (auto simp: w_eq write_entry_eq split: if_splits)

lemma followed_by: "rbind (w slot pos) (\<lambda>(s, p). write_entry s p b) = write_entry slot pos (enc @ b)"
  by (simp add: w_eq write_entry_compose)

lemma content: "w slot pos = Inr (s, p) \<Longrightarrow> take (length enc) (drop pos s) = enc"
  by (auto simp: w_eq write_entry_eq take_drop_copy_at split: if_splits)

lemma fails_only_for_space: "w slot pos = Inl e \<Longrightarrow> e = Internal \<and> (length slot < pos + length enc \<or> usize_max < pos + length enc)"
  by (auto simp: w_eq write_entry_eq split: if_splits)

end

lemma write_bytes_eq [aml_simps]: "write_bytes slot pos bs = write_entry slot pos bs"
  by (simp add: write_bytes_def write_entry_def)

definition enc_pkg :: "nat \<Rightarrow> bytes" where
  "enc_pkg v = [0x40 OR word_of_nat (v mod 16), word_of_nat (v div 16 mod 256)]"

lemma write_pkg_length_eq [aml_simps]:
  "write_pkg_length slot pos v = (if v \<le> 0x0FFF then write_entry slot pos (enc_pkg v) else Inl Internal)"
  by (simp add: write_pkg_length_def enc_pkg_def write_bytes_eq Let_def not_less)

lemma length_enc_pkg [simp]: "length (enc_pkg v) = 2"
  by (simp add: enc_pkg_def)

lemma write_name_seg_eq [aml_simps]: "write_name_seg slot pos name = write_entry slot pos name"
  by (simp add: write_name_seg_def write_bytes_eq)

lemmas chain_simps = write_entry_compose append.assoc

definition enc_device :: "bytes \<Rightarrow> nat \<Rightarrow> bytes" where
  "enc_device name tot = [EXT_OP_PREFIX, DEVICE_OP] @ enc_pkg (tot - 2) @ name"

lemma write_device_header_eq [aml_simps]:
  "2 \<le> tot \<Longrightarrow> tot \<le> 0x1001 \<Longrightarrow>
    write_device_header slot pos name tot = write_entry slot pos (enc_device name tot)"
proof -
  assume t: "2 \<le> tot" "tot \<le> 0x1001"
  then have "tot - 2 \<le> 0x0FFF" by simp
  with t show ?thesis
    by (simp add: write_device_header_def write_bytes_eq write_pkg_length_eq write_name_seg_eq
        chain_simps usize_sub_def enc_device_def)
qed

definition enc_name_byte :: "bytes \<Rightarrow> u8 \<Rightarrow> bytes" where
  "enc_name_byte name v = [NAME_OP] @ name @ [BYTE_PREFIX, v]"

lemma write_name_byte_eq [aml_simps]:
  "write_name_byte slot pos name v = write_entry slot pos (enc_name_byte name v)"
  by (simp add: write_name_byte_def aml_simps chain_simps enc_name_byte_def)

definition enc_name_dword :: "bytes \<Rightarrow> u32 \<Rightarrow> bytes" where
  "enc_name_dword name v = [NAME_OP] @ name @ [DWORD_PREFIX] @ le_bytes 4 v"

lemma write_name_dword_eq [aml_simps]:
  "write_name_dword slot pos name v = write_entry slot pos (enc_name_dword name v)"
  by (simp add: write_name_dword_def aml_simps chain_simps enc_name_dword_def)

definition enc_string :: "bytes \<Rightarrow> bytes" where
  "enc_string v = [STRING_PREFIX] @ v @ [0]"

lemma write_string_eq [aml_simps]: "write_string slot pos v = write_entry slot pos (enc_string v)"
  by (simp add: write_string_def aml_simps chain_simps enc_string_def)

definition enc_name_string :: "bytes \<Rightarrow> bytes \<Rightarrow> bytes" where
  "enc_name_string name v = [NAME_OP] @ name @ enc_string v"

lemma write_name_string_eq [aml_simps]:
  "write_name_string slot pos name v = write_entry slot pos (enc_name_string name v)"
  by (simp add: write_name_string_def aml_simps chain_simps enc_name_string_def)

definition enc_byte_buffer :: "bytes \<Rightarrow> bytes" where
  "enc_byte_buffer bs = [BUFFER_OP] @ enc_pkg (4 + length bs) @ [BYTE_PREFIX, word_of_nat (length bs)] @ bs"

lemma write_byte_buffer_eq [aml_simps]:
  "length bs < 256 \<Longrightarrow> write_byte_buffer slot pos bs = write_entry slot pos (enc_byte_buffer bs)"
  by (simp add: write_byte_buffer_def aml_simps chain_simps enc_byte_buffer_def usize_add_def
      usize_max_def PKG_LENGTH_BYTES_def)

definition enc_word_bus_number :: "u8 \<Rightarrow> u8 \<Rightarrow> bytes" where
  "enc_word_bus_number bus_min bus_max =
    [TAG_WORD_ADDRESS_SPACE, 0x0D, 0x00, RES_TYPE_BUS_NUMBER, GENFLAGS_FIXED_RANGE, 0] @
    le_bytes 2 (0 :: u16) @ le_bytes 2 (ucast bus_min :: u16) @ le_bytes 2 (ucast bus_max :: u16) @
    le_bytes 2 (0 :: u16) @ le_bytes 2 (ucast (saturating_add (u8_sat_sub bus_max bus_min) 1) :: u16)"

lemma write_word_bus_number_eq [aml_simps]:
  "write_word_bus_number slot pos a b = write_entry slot pos (enc_word_bus_number a b)"
  by (simp add: write_word_bus_number_def aml_simps enc_word_bus_number_def Let_def)

definition enc_dword_memory :: "u32 \<Rightarrow> u32 \<Rightarrow> bytes" where
  "enc_dword_memory base sz =
    [TAG_DWORD_ADDRESS_SPACE, 0x17, 0x00, RES_TYPE_MEMORY, GENFLAGS_FIXED_RANGE, MEMFLAGS_READWRITE] @
    le_bytes 4 (0 :: u32) @ le_bytes 4 base @ le_bytes 4 (u64_sat_sub (base + sz) 1) @
    le_bytes 4 (0 :: u32) @ le_bytes 4 sz"

lemma write_dword_memory_eq:
  "write_dword_memory slot pos base sz =
    (if checked_add base sz = None then Inl Internal else write_entry slot pos (enc_dword_memory base sz))"
  by (auto simp: write_dword_memory_def aml_simps enc_dword_memory_def Let_def checked_add_def)

definition enc_qword_memory :: "u64 \<Rightarrow> u64 \<Rightarrow> bytes" where
  "enc_qword_memory base sz =
    [TAG_QWORD_ADDRESS_SPACE, 0x2B, 0x00, RES_TYPE_MEMORY, GENFLAGS_FIXED_RANGE, MEMFLAGS_READWRITE] @
    le_bytes 8 (0 :: u64) @ le_bytes 8 base @ le_bytes 8 (u64_sat_sub (base + sz) 1) @
    le_bytes 8 (0 :: u64) @ le_bytes 8 sz"

lemma write_qword_memory_eq:
  "write_qword_memory slot pos base sz =
    (if checked_add base sz = None then Inl Internal else write_entry slot pos (enc_qword_memory base sz))"
  by (auto simp: write_qword_memory_def aml_simps enc_qword_memory_def Let_def checked_add_def)

definition enc_extended_interrupt :: "u32 \<Rightarrow> u32 \<Rightarrow> bytes" where
  "enc_extended_interrupt gsi sense =
    [TAG_EXTENDED_INTERRUPT, 0x06, 0x00,
     1 OR (if sense = 2 then 6 else if sense = 4 then 0 else if sense = 8 then 4 else 2), 1] @ le_bytes 4 gsi"

lemma write_extended_interrupt_eq [aml_simps]:
  "write_extended_interrupt slot pos gsi sense = write_entry slot pos (enc_extended_interrupt gsi sense)"
  by (simp add: write_extended_interrupt_def aml_simps enc_extended_interrupt_def Let_def)

lemma write_end_tag_eq [aml_simps]: "write_end_tag slot pos = write_entry slot pos [TAG_END, 0]"
  by (simp add: write_end_tag_def aml_simps)

definition enc_crs_header :: "nat \<Rightarrow> bytes" where
  "enc_crs_header n = [NAME_OP] @ str_bytes ''_CRS'' @ [BUFFER_OP] @ enc_pkg (5 + n) @ [WORD_PREFIX] @
    le_bytes 2 (word_of_nat n :: u16)"

lemma write_crs_buffer_header_eq [aml_simps]:
  "n \<le> 4090 \<Longrightarrow> write_crs_buffer_header slot pos n = write_entry slot pos (enc_crs_header n)"
  by (simp add: write_crs_buffer_header_def aml_simps chain_simps enc_crs_header_def usize_add_def
      usize_max_def PKG_LENGTH_BYTES_def)

text \<open>A bigger package does not fit the two-byte form of the length.\<close>

lemma write_crs_buffer_header_big:
  "4090 < n \<Longrightarrow> write_crs_buffer_header slot pos n = Inl Internal"
  by (auto simp: write_crs_buffer_header_def aml_simps usize_add_def PKG_LENGTH_BYTES_def
      write_entry_eq rbind_def ok_or_def split: sum.splits)

lemma length_encs [simp]:
  "length (enc_device name tot) = 4 + length name"
  "length (enc_name_byte name v8) = 3 + length name"
  "length (enc_name_dword name v32) = 6 + length name"
  "length (enc_string s) = 2 + length s"
  "length (enc_name_string name s) = 3 + length name + length s"
  "length (enc_byte_buffer bs) = 5 + length bs"
  "length (enc_word_bus_number a b) = 16"
  "length (enc_dword_memory b32 s32) = 26"
  "length (enc_qword_memory b64 s64) = 46"
  "length (enc_extended_interrupt g sn) = 9"
  "length (enc_crs_header n) = 11"
  by (simp_all add: enc_device_def enc_name_byte_def enc_name_dword_def enc_string_def enc_name_string_def
      enc_byte_buffer_def enc_word_bus_number_def enc_dword_memory_def enc_qword_memory_def
      enc_extended_interrupt_def enc_crs_header_def)

section \<open>Package lengths\<close>

text \<open>How a reader decodes the two-byte form: one following byte, the low four bits in the lead byte.\<close>

definition decode_pkg :: "bytes \<Rightarrow> nat option" where
  "decode_pkg bs = (case bs of
     b0 # b1 # _ \<Rightarrow> if drop_bit 6 b0 = 1 then Some (unat (b0 AND 15) + 16 * unat b1) else None
   | _ \<Rightarrow> None)"

lemma low_nibble:
  assumes "k < 16"
  shows "(0x40 OR (word_of_nat k :: u8)) AND 15 = word_of_nat k" and "drop_bit 6 (0x40 OR (word_of_nat k :: u8)) = 1"
proof -
  have "list_all (\<lambda>k. (0x40 OR (word_of_nat k :: u8)) AND 15 = word_of_nat k \<and>
      drop_bit 6 (0x40 OR (word_of_nat k :: u8)) = 1) [0..<16]"
    by code_simp
  with assms show "(0x40 OR (word_of_nat k :: u8)) AND 15 = word_of_nat k"
    and "drop_bit 6 (0x40 OR (word_of_nat k :: u8)) = 1"
    by (simp_all add: list_all_iff)
qed

lemma pkg_length_roundtrip:
  assumes "v \<le> 0x0FFF"
  shows "decode_pkg (enc_pkg v @ rest) = Some v"
proof -
  have lo: "v mod 16 < 16" "v div 16 < 256" using assms by simp_all
  have "unat (word_of_nat (v mod 16) :: u8) = v mod 16" using lo(1) by (simp add: unat_of_nat)
  moreover have "unat (word_of_nat (v div 16 mod 256) :: u8) = v div 16" using lo(2) by (simp add: unat_of_nat)
  ultimately have "Some (unat (word_of_nat (v mod 16) :: u8) + 16 * unat (word_of_nat (v div 16 mod 256) :: u8)) = Some v"
    by simp
  then show ?thesis
    by (simp only: decode_pkg_def enc_pkg_def append_Cons append_Nil list.case low_nibble [OF lo(1)] if_True simp_thms)
qed

interpretation name_byte: aml_writer "\<lambda>s p. write_name_byte s p name v" "enc_name_byte name v" for name v
  by unfold_locales (rule write_name_byte_eq)

interpretation name_dword: aml_writer "\<lambda>s p. write_name_dword s p name v" "enc_name_dword name v" for name v
  by unfold_locales (rule write_name_dword_eq)

interpretation name_string: aml_writer "\<lambda>s p. write_name_string s p name v" "enc_name_string name v" for name v
  by unfold_locales (rule write_name_string_eq)

interpretation bus_number: aml_writer "\<lambda>s p. write_word_bus_number s p a b" "enc_word_bus_number a b" for a b
  by unfold_locales (rule write_word_bus_number_eq)

interpretation extended_interrupt:
  aml_writer "\<lambda>s p. write_extended_interrupt s p gsi sense" "enc_extended_interrupt gsi sense" for gsi sense
  by unfold_locales (rule write_extended_interrupt_eq)

interpretation end_tag: aml_writer write_end_tag "[TAG_END, 0]"
  by unfold_locales (rule write_end_tag_eq)

section \<open>What readers of the bytes see\<close>

text \<open>A package length that is written reads back: \<open>write_pkg_length\<close> accepts exactly the values
  of at most 12 bits for which two bytes fit, and a reader of the AML two-byte form finds the
  value at the position where it was written.\<close>

lemma write_pkg_length_reads_back:
  assumes "write_pkg_length slot pos v = Inr (s, p)"
  shows "v \<le> 0x0FFF \<and> p = pos + 2 \<and> length s = length slot \<and> decode_pkg (drop pos s) = Some v \<and>
    take pos s = take pos slot \<and> drop p s = drop p slot"
proof -
  from assms have v: "v \<le> 0x0FFF" and w: "write_entry slot pos (enc_pkg v) = Inr (s, p)"
    by (auto simp: write_pkg_length_eq split: if_splits)
  then have s: "s = copy_at slot pos (enc_pkg v)" and p: "p = pos + 2" and le: "pos + 2 \<le> length slot"
    by (auto simp: write_entry_eq split: if_splits)
  then have "drop pos s = enc_pkg v @ drop (pos + 2) slot" by (simp add: copy_at_def)
  with pkg_length_roundtrip [OF v] v s p le show ?thesis by (simp add: copy_at_def)
qed

lemma write_pkg_length_reads_back_witness:
  "write_pkg_length [9, 9, 9, 9] 1 300 = Inr ([9, 0x4C, 0x12, 9], 3) \<and> decode_pkg [0x4C, 0x12, 9] = Some 300"
proof -
  have w: "write_pkg_length [9, 9, 9, 9] 1 300 = Inr ([9, 0x4C, 0x12, 9], 3)" by code_simp
  from write_pkg_length_reads_back [OF w] w show ?thesis by simp
qed

lemma unat_ucast_u8_u16: "unat (ucast (w :: u8) :: u16) = unat w"
  using unat_u8_less [of w] by (simp add: unsigned_ucast_eq take_bit_nat_eq_self)

lemma unat_saturating_len:
  assumes "a \<le> b"
  shows "unat (saturating_add (u8_sat_sub b a) 1) = min (unat b - unat a + 1) 255"
proof -
  have s: "unat (u8_sat_sub b a) = unat b - unat a"
    using assms by (simp add: u8_sat_sub_def unat_sub word_le_nat_alt)
  have lt: "unat b < 256" using unat_u8_less [of b] by simp
  show ?thesis
  proof (cases "unat b - unat a = 255")
    case True
    have m: "unat (- 1 :: u8) = 255" by code_simp
    have "u8_sat_sub b a = - 1" using s True m by (simp only: word_unat_eq_iff)
    then show ?thesis using True m by (simp add: saturating_add_def)
  next
    case False
    then have "unat (u8_sat_sub b a) + 1 < 256" using s lt by simp
    then have "unat (u8_sat_sub b a + 1) = unat (u8_sat_sub b a) + 1" by (simp add: unat_Suc_word)
    moreover from this have "u8_sat_sub b a \<le> u8_sat_sub b a + 1" by (simp add: word_le_nat_alt)
    ultimately show ?thesis using s lt False by (simp add: saturating_add_def)
  qed
qed

text \<open>The bus-number descriptor carries the bus range it is given, and its length field is the
  number of buses of the range, except for the full range 0 to 255: the 8-bit arithmetic saturates
  and the field says 255 where the range has 256 buses.\<close>

lemma word_bus_number_fields:
  assumes "write_word_bus_number slot pos lo hi = Inr (s, p)" and "lo \<le> hi"
  shows "p = pos + 16 \<and>
    unat (from_le (take 2 (drop (pos + 8) s)) :: u16) = unat lo \<and>
    unat (from_le (take 2 (drop (pos + 10) s)) :: u16) = unat hi \<and>
    unat (from_le (take 2 (drop (pos + 14) s)) :: u16) =
      (if lo = 0 \<and> hi = 255 then 255 else unat hi - unat lo + 1)"
proof -
  let ?len = "saturating_add (u8_sat_sub hi lo) 1 :: u8"
  have p: "p = pos + 16" using bus_number.advances [OF assms(1)] by (simp add: enc_word_bus_number_def)
  have "take 16 (drop pos s) = enc_word_bus_number lo hi"
    using bus_number.content [OF assms(1)] by (simp add: enc_word_bus_number_def)
  then have d: "take 2 (drop k (take 16 (drop pos s))) = take 2 (drop k (enc_word_bus_number lo hi))" for k by simp
  have t: "take 2 (drop k (take 16 (drop pos s))) = take 2 (drop (pos + k) s)" if "k \<le> 14" for k
    using that by (simp add: drop_take add.commute min_def)
  have "take 2 (drop (pos + 8) s) = le_bytes 2 (ucast lo :: u16)" "take 2 (drop (pos + 10) s) = le_bytes 2 (ucast hi :: u16)"
    "take 2 (drop (pos + 14) s) = le_bytes 2 (ucast ?len :: u16)"
    using d [of 8] d [of 10] d [of 14] t [of 8] t [of 10] t [of 14]
    by (simp_all add: enc_word_bus_number_def numeral_2_eq_2)
  moreover have "unat ?len = (if lo = 0 \<and> hi = 255 then 255 else unat hi - unat lo + 1)"
  proof -
    have "unat lo \<le> unat hi" "unat hi \<le> 255" using assms(2) unat_u8_less [of hi] by (simp_all add: word_le_nat_alt)
    moreover have "lo = 0 \<and> hi = 255 \<longleftrightarrow> unat lo = 0 \<and> unat hi = 255" by (simp add: word_unat_eq_iff)
    ultimately show ?thesis using unat_saturating_len [OF assms(2)] by auto
  qed
  ultimately show ?thesis using p by (simp add: from_le_le_bytes_full unat_ucast_u8_u16)
qed

lemma word_bus_number_fields_witness:
  "(\<exists>s. write_word_bus_number (replicate 16 0) 0 0 254 = Inr (s, 16) \<and> unat (from_le (take 2 (drop 14 s)) :: u16) = 255) \<and>
   (\<exists>s. write_word_bus_number (replicate 16 0) 0 0 255 = Inr (s, 16) \<and> unat (from_le (take 2 (drop 14 s)) :: u16) = 255)"
proof -
  have "\<exists>s. write_word_bus_number (replicate 16 0) 0 0 b = Inr (s, 16)" for b
    by (simp add: write_word_bus_number_eq write_entry_eq enc_word_bus_number_def usize_max_eq)
  then obtain s t where st: "write_word_bus_number (replicate 16 0) 0 0 254 = Inr (s, 16)"
      "write_word_bus_number (replicate 16 0) 0 0 255 = Inr (t, 16)" by blast
  from word_bus_number_fields [OF st(1)] word_bus_number_fields [OF st(2)] st show ?thesis by simp
qed

end
