(* ===== verification/Dsdt.thy ===== *)
theory Dsdt
  imports Aml
begin

text \<open>
  The devices of the DSDT: the motherboard resources that reserve the ECAM windows
  (\<open>emit/motherboard_resource.rs\<close>), the PCI root bridges (\<open>emit/pci_host.rs\<close>), the
  serial port (\<open>emit/serial_device.rs\<close>), the virtio-mmio transports
  (\<open>emit/virtio_mmio.rs\<close>), and the table around them (\<open>write_dsdt_into\<close> of
  \<open>emit/sdt.rs\<close>).

  Each module computes the size of its part (\<open>*_dsdt_total_bytes\<close>) when the tree is counted
  and writes the part later. For each of them \<open>*_emit_length\<close> shows that a successful write is
  one write of exactly that many bytes.
\<close>

unbundle bit_operations_syntax

section \<open>Motherboard resources\<close>

definition MB_FIXED_NAMES_BYTES :: nat where
  "MB_FIXED_NAMES_BYTES = (1 + 4 + 1 + 4) + (1 + 4 + 1 + 1)"

definition motherboard_aml_bytes :: nat where
  "motherboard_aml_bytes =
    (let descriptors = QWORD_MEMORY_BYTES + END_TAG_BYTES;
         crs = CRS_WRAPPER_BYTES + descriptors;
         body = sat_add MB_FIXED_NAMES_BYTES crs
     in sat_add (sat_add body PKG_LENGTH_BYTES) 6)"

definition add_bytes :: "nat \<Rightarrow> nat \<Rightarrow> dtb_error + nat" where
  "add_bytes tot n = ok_or Internal (usize_add tot n)"

definition motherboard_dsdt_total_bytes :: "('n, 'p) dt_view \<Rightarrow> dtb_error + nat" where
  "motherboard_dsdt_total_bytes V =
    rbind (children V (root_of (tree_root V))) (\<lambda>cs.
      for_compatible V ''pci-host-ecam-generic'' (\<lambda>tot _. add_bytes tot motherboard_aml_bytes) 0 cs)"

definition motherboard_write_one_device ::
  "bytes \<Rightarrow> nat \<Rightarrow> u8 \<Rightarrow> u64 \<Rightarrow> u64 \<Rightarrow> dtb_error + bytes \<times> nat" where
  "motherboard_write_one_device slot pos index base sz =
    (let tot = motherboard_aml_bytes in
     rbind (write_device_header slot pos (name_seg_indexed (str_bytes ''MBR'') index) tot) (\<lambda>(slot, pos).
     rbind (write_name_dword slot pos (str_bytes ''_HID'') (eisaid (str_bytes ''PNP0C02''))) (\<lambda>(slot, pos).
     rbind (write_name_byte slot pos (str_bytes ''_UID'') index) (\<lambda>(slot, pos).
     rbind (write_crs_buffer_header slot pos (QWORD_MEMORY_BYTES + END_TAG_BYTES)) (\<lambda>(slot, pos).
     rbind (write_qword_memory slot pos base sz) (\<lambda>(slot, pos).
       write_end_tag slot pos))))))"

definition motherboard_step ::
  "('n, 'p) dt_view \<Rightarrow> (bytes \<times> nat) \<times> u8 \<Rightarrow> 'n dtb_node \<Rightarrow> dtb_error + (bytes \<times> nat) \<times> u8" where
  "motherboard_step V st c = (case st of ((slot, cursor), index) \<Rightarrow>
    rbind (reg V c SitePciHost) (\<lambda>it.
    rbind (ok_or Internal (fst (reg_next it))) (\<lambda>(base, sz).
    rbind (motherboard_write_one_device slot cursor index base sz) (\<lambda>w.
    rbind (ok_or Internal (checked_add index 1)) (\<lambda>index'.
      Inr (w, index'))))))"

definition motherboard_emit :: "('n, 'p) dt_view \<Rightarrow> bytes \<Rightarrow> nat \<Rightarrow> dtb_error + bytes \<times> nat" where
  "motherboard_emit V slot pos =
    rbind (children V (root_of (tree_root V))) (\<lambda>cs.
    rbind (for_compatible V ''pci-host-ecam-generic'' (motherboard_step V) ((slot, pos), 0) cs) (\<lambda>(w, _).
      Inr w))"

section \<open>PCI root bridges\<close>

definition PCI_FIXED_NAMES_BYTES :: nat where
  "PCI_FIXED_NAMES_BYTES = (1 + 4 + 1 + 4) * 2 + (1 + 4 + 1 + 1) * 3"

record mem_windows =
  mem32 :: nat
  mem64 :: nat

definition host_bridge_aml_bytes :: "mem_windows \<Rightarrow> nat" where
  "host_bridge_aml_bytes w =
    (let descriptors = sat_add (sat_add (sat_add WORD_BUS_NUMBER_BYTES (sat_mul DWORD_MEMORY_BYTES (mem32 w)))
                         (sat_mul QWORD_MEMORY_BYTES (mem64 w))) END_TAG_BYTES;
         crs = sat_add CRS_WRAPPER_BYTES descriptors;
         body = sat_add PCI_FIXED_NAMES_BYTES crs
     in sat_add (sat_add body PKG_LENGTH_BYTES) 6)"

definition window_count_step :: "mem_windows \<Rightarrow> pci_range \<Rightarrow> dtb_error + mem_windows" where
  "window_count_step w r =
    (if space_code r = 2 then rbind (add_bytes (mem32 w) 1) (\<lambda>k. Inr (w\<lparr>mem32 := k\<rparr>))
     else if space_code r = 3 then rbind (add_bytes (mem64 w) 1) (\<lambda>k. Inr (w\<lparr>mem64 := k\<rparr>))
     else Inr w)"

definition count_windows :: "('n, 'p) dt_view \<Rightarrow> 'n dtb_node \<Rightarrow> dtb_error + mem_windows" where
  "count_windows V n =
    rbind (pci_ranges V n) (\<lambda>ranges.
      case ranges of
        None \<Rightarrow> Inr \<lparr>mem32 = 0, mem64 = 0\<rparr>
      | Some it \<Rightarrow>
          try_fold window_count_step \<lparr>mem32 = 0, mem64 = 0\<rparr> (pci_items it))"

definition pci_dsdt_total_bytes :: "('n, 'p) dt_view \<Rightarrow> dtb_error + nat" where
  "pci_dsdt_total_bytes V =
    rbind (children V (root_of (tree_root V))) (\<lambda>cs.
      for_compatible V ''pci-host-ecam-generic''
        (\<lambda>tot c. rbind (count_windows V c) (\<lambda>windows. add_bytes tot (host_bridge_aml_bytes windows))) 0 cs)"

definition pci_window_step :: "bytes \<times> nat \<Rightarrow> pci_range \<Rightarrow> dtb_error + bytes \<times> nat" where
  "pci_window_step st r = (case st of (slot, cursor) \<Rightarrow>
    if space_code r = 2 then
      rbind (ok_or Internal (u32_of_u64 (parent_addr r))) (\<lambda>base.
      rbind (ok_or Internal (u32_of_u64 (range_size r))) (\<lambda>sz.
        write_dword_memory slot cursor base sz))
    else if space_code r = 3 then write_qword_memory slot cursor (parent_addr r) (range_size r)
    else Inr (slot, cursor))"

definition pci_descriptors_bytes :: "mem_windows \<Rightarrow> nat option" where
  "pci_descriptors_bytes w =
    (case usize_mul DWORD_MEMORY_BYTES (mem32 w) of
       None \<Rightarrow> None
     | Some a \<Rightarrow>
    (case usize_add WORD_BUS_NUMBER_BYTES a of
       None \<Rightarrow> None
     | Some b \<Rightarrow>
    (case usize_mul QWORD_MEMORY_BYTES (mem64 w) of
       None \<Rightarrow> None
     | Some c \<Rightarrow>
    (case usize_add b c of
       None \<Rightarrow> None
     | Some d \<Rightarrow> usize_add d END_TAG_BYTES))))"

definition pci_write_one_device ::
  "('n, 'p) dt_view \<Rightarrow> bytes \<Rightarrow> nat \<Rightarrow> 'n dtb_node \<Rightarrow> u8 \<Rightarrow> dtb_error + bytes \<times> nat" where
  "pci_write_one_device V slot pos n segment =
    rbind (decode_pci_bus_range V n) (\<lambda>(bus_start, bus_end).
    rbind (count_windows V n) (\<lambda>windows.
    let tot = host_bridge_aml_bytes windows in
    rbind (write_device_header slot pos (name_seg_indexed (str_bytes ''PCI'') segment) tot) (\<lambda>(slot, pos).
    rbind (write_name_dword slot pos (str_bytes ''_HID'') (eisaid (str_bytes ''PNP0A08''))) (\<lambda>(slot, pos).
    rbind (write_name_dword slot pos (str_bytes ''_CID'') (eisaid (str_bytes ''PNP0A03''))) (\<lambda>(slot, pos).
    rbind (write_name_byte slot pos (str_bytes ''_SEG'') segment) (\<lambda>(slot, pos).
    rbind (write_name_byte slot pos (str_bytes ''_UID'') segment) (\<lambda>(slot, pos).
    rbind (write_name_byte slot pos (str_bytes ''_BBN'') bus_start) (\<lambda>(slot, pos).
    rbind (ok_or Internal (pci_descriptors_bytes windows)) (\<lambda>descriptors_bytes.
    rbind (write_crs_buffer_header slot pos descriptors_bytes) (\<lambda>(slot, pos).
    rbind (write_word_bus_number slot pos bus_start bus_end) (\<lambda>(slot, pos).
    rbind (rbind (pci_ranges V n) (\<lambda>ranges.
             case ranges of None \<Rightarrow> Inr (slot, pos) | Some it \<Rightarrow> try_fold pci_window_step (slot, pos) (pci_items it)))
      (\<lambda>(slot, cursor). write_end_tag slot cursor))))))))))))"

definition pci_step ::
  "('n, 'p) dt_view \<Rightarrow> (bytes \<times> nat) \<times> u8 \<Rightarrow> 'n dtb_node \<Rightarrow> dtb_error + (bytes \<times> nat) \<times> u8" where
  "pci_step V st c = (case st of ((slot, cursor), segment) \<Rightarrow>
    rbind (pci_write_one_device V slot cursor c segment) (\<lambda>w.
    rbind (ok_or Internal (checked_add segment 1)) (\<lambda>segment'.
      Inr (w, segment'))))"

definition pci_emit :: "('n, 'p) dt_view \<Rightarrow> bytes \<Rightarrow> nat \<Rightarrow> dtb_error + bytes \<times> nat" where
  "pci_emit V slot pos =
    rbind (children V (root_of (tree_root V))) (\<lambda>cs.
    rbind (for_compatible V ''pci-host-ecam-generic'' (pci_step V) ((slot, pos), 0) cs) (\<lambda>(w, _).
      Inr w))"

section \<open>The serial port\<close>

definition package_bytes :: "nat \<Rightarrow> nat" where
  "package_bytes elements_bytes = sat_add (sat_add elements_bytes PKG_LENGTH_BYTES) 2"

definition property_package_bytes :: "nat \<Rightarrow> nat" where
  "property_package_bytes name_bytes = package_bytes (sat_add name_bytes 5)"

definition SER_FIXED_NAMES_BYTES :: nat where
  "SER_FIXED_NAMES_BYTES = (1 + 4 + string_bytes 8) + (1 + 4 + 1 + 1)"
definition CRS_DESCRIPTOR_BYTES :: nat where
  "CRS_DESCRIPTOR_BYTES = QWORD_MEMORY_BYTES + EXTENDED_INTERRUPT_BYTES + END_TAG_BYTES"
definition DSD_UUID_BYTES :: nat where "DSD_UUID_BYTES = byte_buffer_bytes 16"
definition CLOCK_FREQUENCY_PROP_BYTES :: nat where
  "CLOCK_FREQUENCY_PROP_BYTES = property_package_bytes (string_bytes (length ''clock-frequency''))"
definition REG_SHIFT_PROP_BYTES :: nat where
  "REG_SHIFT_PROP_BYTES = property_package_bytes (string_bytes (length ''reg-shift''))"
definition REG_IO_WIDTH_PROP_BYTES :: nat where
  "REG_IO_WIDTH_PROP_BYTES = property_package_bytes (string_bytes (length ''reg-io-width''))"
definition DSD_PROPERTIES_BYTES :: nat where
  "DSD_PROPERTIES_BYTES =
    package_bytes (CLOCK_FREQUENCY_PROP_BYTES + REG_SHIFT_PROP_BYTES + REG_IO_WIDTH_PROP_BYTES)"
definition DSD_PACKAGE_BYTES :: nat where
  "DSD_PACKAGE_BYTES = package_bytes (DSD_UUID_BYTES + DSD_PROPERTIES_BYTES)"
definition DSD_BYTES :: nat where "DSD_BYTES = 1 + 4 + DSD_PACKAGE_BYTES"
definition SER_DEVICE_BYTES :: nat where
  "SER_DEVICE_BYTES =
    (let crs = CRS_WRAPPER_BYTES + CRS_DESCRIPTOR_BYTES;
         body = SER_FIXED_NAMES_BYTES + crs + DSD_BYTES
     in 2 + PKG_LENGTH_BYTES + 4 + body)"

definition serial_dsdt_total_bytes :: "('n, 'p) dt_view \<Rightarrow> dtb_error + nat" where
  "serial_dsdt_total_bytes V =
    rbind (find_serial V) (\<lambda>m. Inr (if m \<noteq> None then SER_DEVICE_BYTES else 0))"

definition DEVICE_PROPERTIES_UUID :: bytes where
  "DEVICE_PROPERTIES_UUID = [0x14, 0xd8, 0xff, 0xda, 0xba, 0x6e, 0x8c, 0x4d, 0x8a, 0x91, 0xbc, 0x9b,
    0xbf, 0x4a, 0xa3, 0x01]"

definition write_dword_property :: "bytes \<Rightarrow> nat \<Rightarrow> bytes \<Rightarrow> u32 \<Rightarrow> dtb_error + bytes \<times> nat" where
  "write_dword_property slot pos name v =
    rbind (ok_or Internal (usize_add (string_bytes (length name)) 5)) (\<lambda>elements_bytes.
    rbind (write_bytes slot pos [PACKAGE_OP]) (\<lambda>(slot, pos).
    rbind (ok_or Internal (usize_add PKG_LENGTH_BYTES 1)) (\<lambda>k.
    rbind (ok_or Internal (usize_add k elements_bytes)) (\<lambda>pkg.
    rbind (write_pkg_length slot pos pkg) (\<lambda>(slot, pos).
    rbind (write_bytes slot pos [2]) (\<lambda>(slot, pos).
    rbind (write_string slot pos name) (\<lambda>(slot, pos).
    rbind (write_bytes slot pos [DWORD_PREFIX]) (\<lambda>(slot, pos).
      write_bytes slot pos (le_bytes 4 v)))))))))"

definition write_dsd :: "bytes \<Rightarrow> nat \<Rightarrow> u32 \<Rightarrow> u32 \<Rightarrow> u32 \<Rightarrow> dtb_error + bytes \<times> nat" where
  "write_dsd slot pos clock_frequency reg_shift reg_io_width =
    rbind (write_bytes slot pos [NAME_OP]) (\<lambda>(slot, pos).
    rbind (write_name_seg slot pos (str_bytes ''_DSD'')) (\<lambda>(slot, pos).
    rbind (write_bytes slot pos [PACKAGE_OP]) (\<lambda>(slot, pos).
    rbind (write_pkg_length slot pos (PKG_LENGTH_BYTES + 1 + DSD_UUID_BYTES + DSD_PROPERTIES_BYTES)) (\<lambda>(slot, pos).
    rbind (write_bytes slot pos [2]) (\<lambda>(slot, pos).
    rbind (write_byte_buffer slot pos DEVICE_PROPERTIES_UUID) (\<lambda>(slot, pos).
    rbind (write_bytes slot pos [PACKAGE_OP]) (\<lambda>(slot, pos).
    rbind (write_pkg_length slot pos (PKG_LENGTH_BYTES + 1 + CLOCK_FREQUENCY_PROP_BYTES +
             REG_SHIFT_PROP_BYTES + REG_IO_WIDTH_PROP_BYTES)) (\<lambda>(slot, pos).
    rbind (write_bytes slot pos [3]) (\<lambda>(slot, pos).
    rbind (write_dword_property slot pos (str_bytes ''clock-frequency'') clock_frequency) (\<lambda>(slot, pos).
    rbind (write_dword_property slot pos (str_bytes ''reg-shift'') reg_shift) (\<lambda>(slot, pos).
      write_dword_property slot pos (str_bytes ''reg-io-width'') reg_io_width)))))))))))"

definition serial_write_aml ::
  "('n, 'p) dt_view \<Rightarrow> bytes \<Rightarrow> nat \<Rightarrow> 'n dtb_node \<Rightarrow> u64 \<Rightarrow> u64 \<Rightarrow> u32 \<Rightarrow> u32 \<Rightarrow> u32 \<Rightarrow> u32
    \<Rightarrow> dtb_error + bytes \<times> nat" where
  "serial_write_aml V slot pos n base sz gsi reg_shift reg_io_width clock_frequency =
    rbind (write_device_header slot pos (str_bytes ''SER0'') SER_DEVICE_BYTES) (\<lambda>(slot, pos).
    rbind (write_name_string slot pos (str_bytes ''_HID'') (str_bytes ''RSCV0003'')) (\<lambda>(slot, pos).
    rbind (write_name_byte slot pos (str_bytes ''_UID'') 0) (\<lambda>(slot, pos).
    rbind (write_crs_buffer_header slot pos CRS_DESCRIPTOR_BYTES) (\<lambda>(slot, pos).
    rbind (decode_interrupts_2 V n SiteSerial) (\<lambda>(_, sense).
    rbind (write_qword_memory slot pos base sz) (\<lambda>(slot, pos).
    rbind (write_extended_interrupt slot pos gsi sense) (\<lambda>(slot, pos).
    rbind (write_end_tag slot pos) (\<lambda>(slot, pos).
      write_dsd slot pos clock_frequency reg_shift reg_io_width))))))))"

definition serial_write_device ::
  "('n, 'p) dt_view \<Rightarrow> bytes \<Rightarrow> nat \<Rightarrow> 'n dtb_node \<Rightarrow> dtb_error + bytes \<times> nat" where
  "serial_write_device V slot pos n =
    rbind (decode_serial V n) (\<lambda>(base, _, gsi).
    rbind (reg V n SiteSerial) (\<lambda>it.
    rbind (ok_or Internal (fst (reg_next it))) (\<lambda>(_, sz).
    rbind (property_u32 V n ''reg-shift'' SiteSerial) (\<lambda>reg_shift.
    rbind (property_u32 V n ''reg-io-width'' SiteSerial) (\<lambda>reg_io_width.
    rbind (property_u32 V n ''clock-frequency'' SiteSerial) (\<lambda>clock_frequency.
      serial_write_aml V slot pos n base sz gsi reg_shift reg_io_width clock_frequency))))))"

definition serial_emit :: "('n, 'p) dt_view \<Rightarrow> bytes \<Rightarrow> nat \<Rightarrow> dtb_error + bytes \<times> nat" where
  "serial_emit V slot pos =
    rbind (find_serial V) (\<lambda>m.
      case m of None \<Rightarrow> Inr (slot, pos) | Some n \<Rightarrow> serial_write_device V slot pos n)"

section \<open>virtio-mmio transports\<close>

definition VIRTIO_DEVICE_BYTES :: nat where
  "VIRTIO_DEVICE_BYTES =
    (let body = SER_FIXED_NAMES_BYTES + CRS_WRAPPER_BYTES + CRS_DESCRIPTOR_BYTES
     in 2 + PKG_LENGTH_BYTES + 4 + body)"

definition virtio_count_devices :: "('n, 'p) dt_view \<Rightarrow> dtb_error + nat" where
  "virtio_count_devices V =
    rbind (children V (root_of (tree_root V))) (\<lambda>cs.
      for_compatible V ''virtio,mmio'' (\<lambda>n _. add_bytes n 1) 0 cs)"

definition virtio_dsdt_total_bytes :: "('n, 'p) dt_view \<Rightarrow> dtb_error + nat" where
  "virtio_dsdt_total_bytes V =
    rbind (virtio_count_devices V) (\<lambda>n. ok_or Internal (usize_mul n VIRTIO_DEVICE_BYTES))"

definition virtio_name_seg :: "u8 \<Rightarrow> bytes" where
  "virtio_name_seg index = [86, 77, 48 + index div 10, 48 + index mod 10]"

definition virtio_write_one_device ::
  "('n, 'p) dt_view \<Rightarrow> bytes \<Rightarrow> nat \<Rightarrow> 'n dtb_node \<Rightarrow> u8 \<Rightarrow> dtb_error + bytes \<times> nat" where
  "virtio_write_one_device V slot pos n index =
    rbind (reg V n SiteVirtioMmio) (\<lambda>it.
    rbind (ok_or (MalformedProperty SiteVirtioMmio ''reg'') (fst (reg_next it))) (\<lambda>(base, sz).
    rbind (decode_interrupts_2 V n SiteVirtioMmio) (\<lambda>(gsi, sense).
    rbind (write_device_header slot pos (virtio_name_seg index) VIRTIO_DEVICE_BYTES) (\<lambda>(slot, pos).
    rbind (write_name_string slot pos (str_bytes ''_HID'') (str_bytes ''LNRO0005'')) (\<lambda>(slot, pos).
    rbind (write_name_byte slot pos (str_bytes ''_UID'') index) (\<lambda>(slot, pos).
    rbind (write_crs_buffer_header slot pos CRS_DESCRIPTOR_BYTES) (\<lambda>(slot, pos).
    rbind (write_qword_memory slot pos base sz) (\<lambda>(slot, pos).
    rbind (write_extended_interrupt slot pos gsi sense) (\<lambda>(slot, pos).
      write_end_tag slot pos)))))))))"

definition virtio_step ::
  "('n, 'p) dt_view \<Rightarrow> (bytes \<times> nat) \<times> u8 \<Rightarrow> 'n dtb_node \<Rightarrow> dtb_error + (bytes \<times> nat) \<times> u8" where
  "virtio_step V st c = (case st of ((slot, cursor), index) \<Rightarrow>
    rbind (virtio_write_one_device V slot cursor c index) (\<lambda>w.
    rbind (ok_or Internal (checked_add index 1)) (\<lambda>index'.
      Inr (w, index'))))"

definition virtio_emit :: "('n, 'p) dt_view \<Rightarrow> bytes \<Rightarrow> nat \<Rightarrow> dtb_error + bytes \<times> nat" where
  "virtio_emit V slot pos =
    rbind (children V (root_of (tree_root V))) (\<lambda>cs.
    rbind (for_compatible V ''virtio,mmio'' (virtio_step V) ((slot, pos), 0) cs) (\<lambda>(w, _).
      Inr w))"

section \<open>The table\<close>

definition dsdt_emit :: "oem_identity \<Rightarrow> u8 \<Rightarrow> ('n, 'p) dt_view \<Rightarrow> bytes \<Rightarrow> dtb_error + bytes" where
  "dsdt_emit oem sleep_val V slot =
    (let len = (case u32_of_len (length slot) of None \<Rightarrow> - 1 | Some n \<Rightarrow> n) in
     rbind (write_header slot (sdt_header_bytes (sdt_header_new ''DSDT'' len DSDT_REVISION oem))) (\<lambda>slot1.
     let body_start = SDT_HEADER_SIZE in
     rbind (ok_or Internal (usize_add body_start S5_AML_LEN)) (\<lambda>s5_end.
     rbind (ok_or Internal (get_range slot1 body_start s5_end)) (\<lambda>_.
     let slot2 = copy_at slot1 body_start (s5_aml sleep_val) in
     rbind (motherboard_emit V slot2 s5_end) (\<lambda>(slot3, after_motherboard).
     rbind (pci_emit V slot3 after_motherboard) (\<lambda>(slot4, after_pci).
     rbind (serial_emit V slot4 after_pci) (\<lambda>(slot5, after_serial).
     rbind (virtio_emit V slot5 after_serial) (\<lambda>(slot6, e).
       if e \<noteq> length slot6 then Inl Internal else set_sdt_checksum slot6))))))))"

section \<open>Sizes\<close>

lemma sat_add_min: "sat_add a b = min (a + b) usize_max"
  by (simp add: sat_add_def usize_add_def)

lemma sat_mul_min: "sat_mul a b = min (a * b) usize_max"
  by (simp add: sat_mul_def usize_mul_def)

lemma dsdt_sizes [simp]:
  "motherboard_aml_bytes = 84" "SER_DEVICE_BYTES = 201" "VIRTIO_DEVICE_BYTES = 98"
  "CRS_DESCRIPTOR_BYTES = 57" "DSD_UUID_BYTES = 21" "DSD_PROPERTIES_BYTES = 73"
  "CLOCK_FREQUENCY_PROP_BYTES = 26" "REG_SHIFT_PROP_BYTES = 20" "REG_IO_WIDTH_PROP_BYTES = 23"
  by (simp_all add: motherboard_aml_bytes_def SER_DEVICE_BYTES_def VIRTIO_DEVICE_BYTES_def
      CRS_DESCRIPTOR_BYTES_def DSD_UUID_BYTES_def DSD_PROPERTIES_BYTES_def CLOCK_FREQUENCY_PROP_BYTES_def
      REG_SHIFT_PROP_BYTES_def REG_IO_WIDTH_PROP_BYTES_def DSD_BYTES_def DSD_PACKAGE_BYTES_def
      SER_FIXED_NAMES_BYTES_def MB_FIXED_NAMES_BYTES_def package_bytes_def property_package_bytes_def
      byte_buffer_bytes_def string_bytes_def sat_add_min usize_max_eq CRS_WRAPPER_BYTES_def
      PKG_LENGTH_BYTES_def QWORD_MEMORY_BYTES_def EXTENDED_INTERRUPT_BYTES_def END_TAG_BYTES_def Let_def)

lemma host_bridge_aml_bytes_small:
  "host_bridge_aml_bytes w \<le> 4097 \<Longrightarrow> host_bridge_aml_bytes w = 78 + 26 * mem32 w + 46 * mem64 w"
  by (simp add: host_bridge_aml_bytes_def sat_add_min sat_mul_min Let_def WORD_BUS_NUMBER_BYTES_def
      DWORD_MEMORY_BYTES_def QWORD_MEMORY_BYTES_def END_TAG_BYTES_def CRS_WRAPPER_BYTES_def
      PCI_FIXED_NAMES_BYTES_def PKG_LENGTH_BYTES_def usize_max_eq min_def split: if_splits)

lemma add_bytes_Inr: "add_bytes a b = Inr c \<longleftrightarrow> c = a + b \<and> a + b \<le> usize_max"
  by (auto simp: add_bytes_def result_simps checked_simps)

section \<open>A successful write is one write of the promised length\<close>

definition wrote :: "bytes \<Rightarrow> nat \<Rightarrow> nat \<Rightarrow> bytes \<Rightarrow> nat \<Rightarrow> bool" where
  "wrote s p n s' p' = (\<exists>b. write_entry s p b = Inr (s', p') \<and> length b = n)"

lemma wrote_entry: "write_entry s p b = Inr (s', p') \<Longrightarrow> wrote s p (length b) s' p'"
  by (auto simp: wrote_def)

lemma wrote_refl: "p \<le> length s \<Longrightarrow> p \<le> usize_max \<Longrightarrow> wrote s p 0 s p"
  by (auto simp: wrote_def intro!: exI [of _ "[]"] write_entry_Nil)

lemma wrote_trans: "wrote s p a s1 p1 \<Longrightarrow> wrote s1 p1 b s2 p2 \<Longrightarrow> wrote s p (a + b) s2 p2"
  unfolding wrote_def using write_entry_compose [of s p] by (metis (no_types, lifting) length_append old.prod.case rbind_simps(2))

lemma wrote_bounds:
  "wrote s p n s' p' \<Longrightarrow> p' = p + n \<and> length s' = length s \<and> p' \<le> length s' \<and> p' \<le> usize_max"
  by (auto simp: wrote_def write_entry_eq split: if_splits)

text \<open>A loop over bridges or transports with a running index.\<close>

lemma wrote_loop:
  assumes "try_fold f ((s, p), i) xs = Inr ((s', p'), i')" and "p \<le> length s" and "p \<le> usize_max"
    and "\<And>s p i x s' p' i'. x \<in> set xs \<Longrightarrow> f ((s, p), i) x = Inr ((s', p'), i') \<Longrightarrow> wrote s p (len x) s' p'"
  shows "wrote s p (sum_list (map len xs)) s' p'"
  using assms
proof (induction xs arbitrary: s p i)
  case Nil
  then show ?case by (simp add: wrote_refl)
next
  case (Cons x xs)
  from Cons.prems(1) obtain s1 p1 i1 where st: "f ((s, p), i) x = Inr ((s1, p1), i1)"
    and rest: "try_fold f ((s1, p1), i1) xs = Inr ((s', p'), i')" by (auto simp: result_simps)
  have w: "wrote s p (len x) s1 p1" by (rule Cons.prems(4) [OF _ st]) simp
  have "wrote s1 p1 (sum_list (map len xs)) s' p'"
    by (rule Cons.IH [OF rest]) (use wrote_bounds [OF w] Cons.prems(4) in auto)
  with w show ?case by (simp add: wrote_trans)
qed

lemma total_loop:
  assumes "try_fold (\<lambda>t x. rbind (g x) (\<lambda>y. add_bytes t (h y))) t xs = Inr n"
    and "\<And>x y. x \<in> set xs \<Longrightarrow> g x = Inr y \<Longrightarrow> h y = len x"
  shows "n = t + sum_list (map len xs) \<and> n \<le> max t usize_max"
  using assms
proof (induction xs arbitrary: t)
  case (Cons x xs)
  from Cons.prems(1) obtain y where y: "g x = Inr y" and le: "t + h y \<le> usize_max"
    and rest: "try_fold (\<lambda>t x. rbind (g x) (\<lambda>y. add_bytes t (h y))) (t + h y) xs = Inr n"
    by (auto simp: result_simps add_bytes_Inr)
  have "h y = len x" using Cons.prems(2) y by simp
  with Cons.IH [OF rest] Cons.prems(2) le show ?case by auto
qed simp

lemma write_then_fail [simp]: "rbind (write_entry s p b) (\<lambda>(s, p). Inl Internal) = Inl Internal"
  by (simp add: write_entry_eq)

lemma length_name_seg [simp]: "length (name_seg_indexed p i) = 4" "length (virtio_name_seg i) = 4"
  by (simp_all add: name_seg_indexed_def virtio_name_seg_def Let_def)

section \<open>Motherboard\<close>

definition enc_motherboard :: "u8 \<Rightarrow> u64 \<Rightarrow> u64 \<Rightarrow> bytes" where
  "enc_motherboard index base sz =
    enc_device (name_seg_indexed (str_bytes ''MBR'') index) motherboard_aml_bytes @
    enc_name_dword (str_bytes ''_HID'') (eisaid (str_bytes ''PNP0C02'')) @
    enc_name_byte (str_bytes ''_UID'') index @ enc_crs_header 48 @ enc_qword_memory base sz @ [TAG_END, 0]"

lemma motherboard_write_eq:
  "motherboard_write_one_device slot pos index base sz =
    (if checked_add base sz = None then Inl Internal else write_entry slot pos (enc_motherboard index base sz))"
  by (cases "checked_add base sz") (simp_all add: motherboard_write_one_device_def aml_simps
      write_qword_memory_eq chain_simps enc_motherboard_def QWORD_MEMORY_BYTES_def END_TAG_BYTES_def)

lemma length_enc_motherboard: "length (enc_motherboard i b s) = motherboard_aml_bytes"
  by (simp add: enc_motherboard_def)

lemma motherboard_step_wrote:
  assumes "motherboard_step V ((s, p), i) c = Inr ((s', p'), i')"
  shows "wrote s p motherboard_aml_bytes s' p'"
proof -
  obtain base sz where "write_entry s p (enc_motherboard i base sz) = Inr (s', p')"
    using assms by (auto simp: motherboard_step_def result_simps motherboard_write_eq split: if_splits)
  from wrote_entry [OF this] show ?thesis unfolding length_enc_motherboard .
qed

section \<open>virtio\<close>

definition enc_virtio :: "u8 \<Rightarrow> u64 \<Rightarrow> u64 \<Rightarrow> u32 \<Rightarrow> u32 \<Rightarrow> bytes" where
  "enc_virtio index base sz gsi sense =
    enc_device (virtio_name_seg index) VIRTIO_DEVICE_BYTES @
    enc_name_string (str_bytes ''_HID'') (str_bytes ''LNRO0005'') @
    enc_name_byte (str_bytes ''_UID'') index @ enc_crs_header CRS_DESCRIPTOR_BYTES @
    enc_qword_memory base sz @ enc_extended_interrupt gsi sense @ [TAG_END, 0]"

lemma virtio_tail_eq:
  "rbind (write_device_header slot pos (virtio_name_seg index) VIRTIO_DEVICE_BYTES) (\<lambda>(slot, pos).
    rbind (write_name_string slot pos (str_bytes ''_HID'') (str_bytes ''LNRO0005'')) (\<lambda>(slot, pos).
    rbind (write_name_byte slot pos (str_bytes ''_UID'') index) (\<lambda>(slot, pos).
    rbind (write_crs_buffer_header slot pos CRS_DESCRIPTOR_BYTES) (\<lambda>(slot, pos).
    rbind (write_qword_memory slot pos base sz) (\<lambda>(slot, pos).
    rbind (write_extended_interrupt slot pos gsi sense) (\<lambda>(slot, pos).
      write_end_tag slot pos)))))) =
    (if checked_add base sz = None then Inl Internal
     else write_entry slot pos (enc_virtio index base sz gsi sense))"
  by (cases "checked_add base sz")
    (simp_all add: aml_simps write_qword_memory_eq chain_simps enc_virtio_def)

lemma length_enc_virtio: "length (enc_virtio i b s g n) = VIRTIO_DEVICE_BYTES"
  by (simp add: enc_virtio_def)

lemma virtio_step_wrote:
  assumes "virtio_step V ((s, p), i) c = Inr ((s', p'), i')"
  shows "wrote s p VIRTIO_DEVICE_BYTES s' p'"
proof -
  obtain base sz gsi sense where "write_entry s p (enc_virtio i base sz gsi sense) = Inr (s', p')"
    using assms unfolding virtio_step_def virtio_write_one_device_def virtio_tail_eq
    by (auto simp: result_simps split: if_splits)
  from wrote_entry [OF this] show ?thesis unfolding length_enc_virtio .
qed

section \<open>serial\<close>

definition enc_dword_property :: "bytes \<Rightarrow> u32 \<Rightarrow> bytes" where
  "enc_dword_property name v = [PACKAGE_OP] @ enc_pkg (10 + length name) @ [2] @ enc_string name @
    [DWORD_PREFIX] @ le_bytes 4 v"

lemma write_dword_property_eq:
  "length name \<le> 100 \<Longrightarrow>
    write_dword_property slot pos name v = write_entry slot pos (enc_dword_property name v)"
  by (simp add: write_dword_property_def aml_simps chain_simps enc_dword_property_def string_bytes_def
      sat_add_min usize_add_def usize_max_eq PKG_LENGTH_BYTES_def)

definition enc_dsd :: "u32 \<Rightarrow> u32 \<Rightarrow> u32 \<Rightarrow> bytes" where
  "enc_dsd clock shift width = [NAME_OP] @ str_bytes ''_DSD'' @ [PACKAGE_OP] @ enc_pkg 97 @ [2] @
    enc_byte_buffer DEVICE_PROPERTIES_UUID @ [PACKAGE_OP] @ enc_pkg 72 @ [3] @
    enc_dword_property (str_bytes ''clock-frequency'') clock @
    enc_dword_property (str_bytes ''reg-shift'') shift @ enc_dword_property (str_bytes ''reg-io-width'') width"

lemma write_dsd_eq: "write_dsd slot pos a b c = write_entry slot pos (enc_dsd a b c)"
  by (simp add: write_dsd_def aml_simps write_dword_property_eq chain_simps enc_dsd_def
      PKG_LENGTH_BYTES_def DEVICE_PROPERTIES_UUID_def)

definition enc_serial :: "u64 \<Rightarrow> u64 \<Rightarrow> u32 \<Rightarrow> u32 \<Rightarrow> u32 \<Rightarrow> u32 \<Rightarrow> u32 \<Rightarrow> bytes" where
  "enc_serial base sz gsi sense clock shift width =
    enc_device (str_bytes ''SER0'') SER_DEVICE_BYTES @
    enc_name_string (str_bytes ''_HID'') (str_bytes ''RSCV0003'') @ enc_name_byte (str_bytes ''_UID'') 0 @
    enc_crs_header CRS_DESCRIPTOR_BYTES @ enc_qword_memory base sz @ enc_extended_interrupt gsi sense @
    [TAG_END, 0] @ enc_dsd clock shift width"

lemma length_enc_serial: "length (enc_serial b s g n c h w) = SER_DEVICE_BYTES"
  by (simp add: enc_serial_def enc_dsd_def enc_dword_property_def DEVICE_PROPERTIES_UUID_def)

lemma serial_aml_wrote:
  assumes "serial_write_aml V s p n base sz gsi sh wd cl = Inr (s', p')"
  shows "wrote s p SER_DEVICE_BYTES s' p'"
proof (cases "decode_interrupts_2 V n SiteSerial")
  case (Inl e)
  with assms show ?thesis by (auto simp: serial_write_aml_def result_simps)
next
  case (Inr r)
  obtain pin sense where r: "r = (pin, sense)" by (cases r)
  show ?thesis
  proof (cases "checked_add base sz")
    case None
    with assms Inr r show ?thesis by (simp add: serial_write_aml_def aml_simps write_qword_memory_eq)
  next
    case (Some e)
    with assms Inr r have "write_entry s p (enc_serial base sz gsi sense cl sh wd) = Inr (s', p')"
      by (simp add: serial_write_aml_def aml_simps write_qword_memory_eq write_dsd_eq chain_simps enc_serial_def)
    from wrote_entry [OF this] show ?thesis unfolding length_enc_serial .
  qed
qed

lemma serial_write_wrote:
  "serial_write_device V s p n = Inr (s', p') \<Longrightarrow> wrote s p SER_DEVICE_BYTES s' p'"
  by (auto simp: serial_write_device_def result_simps simp del: dsdt_sizes dest: serial_aml_wrote)

section \<open>PCI\<close>

definition windows_of :: "('n, 'p) dt_view \<Rightarrow> 'n dtb_node \<Rightarrow> pci_range list" where
  "windows_of V n = (case pci_ranges V n of Inr (Some it) \<Rightarrow> pci_items it | _ \<Rightarrow> [])"

lemma count_windows_loop:
  assumes "try_fold window_count_step w rs = Inr w'"
  shows "mem32 w' = mem32 w + length (filter (\<lambda>r. space_code r = 2) rs) \<and>
    mem64 w' = mem64 w + length (filter (\<lambda>r. space_code r = 3) rs)"
  using assms
proof (induction rs arbitrary: w)
  case (Cons r rs)
  from Cons.prems obtain w1 where st: "window_count_step w r = Inr w1"
    and rest: "try_fold window_count_step w1 rs = Inr w'"
    by (auto simp: result_simps)
  from Cons.IH [OF rest] st show ?case
    by (auto simp: window_count_step_def result_simps add_bytes_Inr split: if_splits)
qed simp

lemma count_windows_Inr:
  assumes "count_windows V n = Inr w"
  shows "mem32 w = length (filter (\<lambda>r. space_code r = 2) (windows_of V n))"
    and "mem64 w = length (filter (\<lambda>r. space_code r = 3) (windows_of V n))"
proof -
  from assms obtain ranges where r: "pci_ranges V n = Inr ranges"
    and c: "(case ranges of None \<Rightarrow> Inr \<lparr>mem32 = 0, mem64 = 0\<rparr>
      | Some it \<Rightarrow> try_fold window_count_step \<lparr>mem32 = 0, mem64 = 0\<rparr> (pci_items it)) = Inr w"
    unfolding count_windows_def by (rule rbind_InrE)
  have "mem32 w = length (filter (\<lambda>r. space_code r = 2) (windows_of V n)) \<and>
      mem64 w = length (filter (\<lambda>r. space_code r = 3) (windows_of V n))"
  proof (cases ranges)
    case None
    then show ?thesis using r c by (auto simp: windows_of_def)
  next
    case (Some it)
    then show ?thesis using r c count_windows_loop [of "\<lparr>mem32 = 0, mem64 = 0\<rparr>" "pci_items it" w]
      by (simp add: windows_of_def)
  qed
  then show "mem32 w = length (filter (\<lambda>r. space_code r = 2) (windows_of V n))"
    and "mem64 w = length (filter (\<lambda>r. space_code r = 3) (windows_of V n))" by simp_all
qed

lemma pci_windows_wrote:
  assumes "try_fold pci_window_step (s, p) rs = Inr (s', p')" and "p \<le> length s" and "p \<le> usize_max"
  shows "wrote s p (26 * length (filter (\<lambda>r. space_code r = 2) rs) + 46 * length (filter (\<lambda>r. space_code r = 3) rs)) s' p'"
  using assms
proof (induction rs arbitrary: s p)
  case Nil
  then show ?case by (simp add: wrote_refl)
next
  case (Cons r rs)
  from Cons.prems(1) obtain s1 p1 where st: "pci_window_step (s, p) r = Inr (s1, p1)"
    and rest: "try_fold pci_window_step (s1, p1) rs = Inr (s', p')" by (auto simp: result_simps)
  let ?n = "if space_code r = 2 then 26 else if space_code r = 3 then 46 else 0"
  have w: "wrote s p ?n s1 p1"
    using st Cons.prems(2,3)
    by (auto simp: pci_window_step_def result_simps write_dword_memory_eq write_qword_memory_eq wrote_refl
        dest!: wrote_entry split: if_splits)
  have "wrote s1 p1 (26 * length (filter (\<lambda>r. space_code r = 2) rs) + 46 * length (filter (\<lambda>r. space_code r = 3) rs)) s' p'"
    by (rule Cons.IH [OF rest]) (use wrote_bounds [OF w] in auto)
  from wrote_trans [OF w this] show ?case by (simp add: add.assoc add.left_commute split: if_splits)
qed

definition enc_pci_prefix :: "mem_windows \<Rightarrow> u8 \<Rightarrow> u8 \<Rightarrow> u8 \<Rightarrow> nat \<Rightarrow> bytes" where
  "enc_pci_prefix w segment bus_start bus_end n =
    enc_device (name_seg_indexed (str_bytes ''PCI'') segment) (host_bridge_aml_bytes w) @
    enc_name_dword (str_bytes ''_HID'') (eisaid (str_bytes ''PNP0A08'')) @
    enc_name_dword (str_bytes ''_CID'') (eisaid (str_bytes ''PNP0A03'')) @
    enc_name_byte (str_bytes ''_SEG'') segment @ enc_name_byte (str_bytes ''_UID'') segment @
    enc_name_byte (str_bytes ''_BBN'') bus_start @ enc_crs_header n @ enc_word_bus_number bus_start bus_end"

lemma host_bridge_aml_bytes_ge: "2 \<le> host_bridge_aml_bytes w"
  by (simp add: host_bridge_aml_bytes_def sat_add_min Let_def min_def usize_max_eq)

lemma write_device_header_Inr:
  "write_device_header slot pos name tot = Inr r \<Longrightarrow> tot \<le> 0x1001 \<and> 2 \<le> tot"
  by (auto simp: write_device_header_def aml_simps usize_sub_def result_simps split: if_splits)

lemma write_crs_buffer_header_Inr: "write_crs_buffer_header slot pos n = Inr r \<Longrightarrow> n \<le> 4090"
  using write_crs_buffer_header_big [of n slot pos] by (cases "n \<le> 4090") auto

lemma wrote_chain:
  assumes "write_entry s p a = Inr (s1, p1)"
  shows "wrote s p (length a) s1 p1"
  using wrote_entry [OF assms] .

lemma pci_write_wrote:
  assumes "pci_write_one_device V s p n segment = Inr (s', p')"
  shows "\<exists>w. count_windows V n = Inr w \<and> wrote s p (host_bridge_aml_bytes w) s' p'"
proof -
  from assms obtain bs be w s1 p1 s2 p2 s3 p3 s4 p4 s5 p5 s6 p6 d s7 p7 s8 p8 s9 p9 ranges where
    w: "count_windows V n = Inr w"
    and s1: "write_device_header s p (name_seg_indexed (str_bytes ''PCI'') segment) (host_bridge_aml_bytes w) = Inr (s1, p1)"
    and s2: "write_name_dword s1 p1 (str_bytes ''_HID'') (eisaid (str_bytes ''PNP0A08'')) = Inr (s2, p2)"
    and s3: "write_name_dword s2 p2 (str_bytes ''_CID'') (eisaid (str_bytes ''PNP0A03'')) = Inr (s3, p3)"
    and s4: "write_name_byte s3 p3 (str_bytes ''_SEG'') segment = Inr (s4, p4)"
    and s5: "write_name_byte s4 p4 (str_bytes ''_UID'') segment = Inr (s5, p5)"
    and s6: "write_name_byte s5 p5 (str_bytes ''_BBN'') bs = Inr (s6, p6)"
    and s7: "write_crs_buffer_header s6 p6 d = Inr (s7, p7)"
    and s8: "write_word_bus_number s7 p7 bs be = Inr (s8, p8)"
    and r: "pci_ranges V n = Inr ranges"
    and s9: "(case ranges of None \<Rightarrow> Inr (s8, p8)
      | Some it \<Rightarrow> try_fold pci_window_step (s8, p8) (pci_items it)) = Inr (s9, p9)"
    and s10: "write_end_tag s9 p9 = Inr (s', p')"
    unfolding pci_write_one_device_def Let_def by (elim rbind_InrE2 rbind_InrE) (rule that, assumption+)
  have t: "host_bridge_aml_bytes w \<le> 0x1001" "2 \<le> host_bridge_aml_bytes w"
    using write_device_header_Inr [OF s1] by simp_all
  have "d \<le> 4090" by (rule write_crs_buffer_header_Inr [OF s7])
  note ws = s1 [unfolded write_device_header_eq [OF t(2,1)]] s2 [unfolded write_name_dword_eq]
    s3 [unfolded write_name_dword_eq] s4 [unfolded write_name_byte_eq] s5 [unfolded write_name_byte_eq]
    s6 [unfolded write_name_byte_eq] s7 [unfolded write_crs_buffer_header_eq [OF \<open>d \<le> 4090\<close>]]
    s8 [unfolded write_word_bus_number_eq]
  have pre: "wrote s p 76 s8 p8"
    using wrote_trans [OF wrote_trans [OF wrote_trans [OF wrote_trans [OF wrote_trans [OF wrote_trans [OF wrote_trans
      [OF wrote_entry [OF ws(1)] wrote_entry [OF ws(2)]] wrote_entry [OF ws(3)]] wrote_entry [OF ws(4)]]
      wrote_entry [OF ws(5)]] wrote_entry [OF ws(6)]] wrote_entry [OF ws(7)]] wrote_entry [OF ws(8)]] by simp
  note b8 = wrote_bounds [OF pre]
  have "wrote s8 p8 (26 * mem32 w + 46 * mem64 w) s9 p9"
  proof (cases ranges)
    case None
    then show ?thesis using r s9 b8 count_windows_Inr [OF w] by (simp add: windows_of_def wrote_refl)
  next
    case (Some it)
    then show ?thesis using r s9 b8 pci_windows_wrote [of s8 p8 "pci_items it" s9 p9] count_windows_Inr [OF w]
      by (simp add: windows_of_def)
  qed
  moreover have "wrote s9 p9 2 s' p'" using wrote_entry [OF s10 [unfolded write_end_tag_eq]] by (simp add: numeral_2_eq_2)
  ultimately have "wrote s p (76 + (26 * mem32 w + 46 * mem64 w) + 2) s' p'"
    using wrote_trans [OF wrote_trans [OF pre]] by blast
  then have "wrote s p (host_bridge_aml_bytes w) s' p'"
    using host_bridge_aml_bytes_small [of w] t by (simp add: add.commute add.left_commute)
  with w show ?thesis by blast
qed

section \<open>Counting and emitting agree\<close>

lemma motherboard_emit_length:
  assumes "motherboard_emit V s p = Inr (s', p')" and "motherboard_dsdt_total_bytes V = Inr n"
    and "p \<le> length s" and "p \<le> usize_max"
  shows "wrote s p n s' p'"
proof -
  from assms(1) obtain cs i where cs: "children V (root_of (tree_root V)) = Inr cs"
    and e: "for_compatible V ''pci-host-ecam-generic'' (motherboard_step V) ((s, p), 0) cs = Inr ((s', p'), i)"
    by (auto simp: motherboard_emit_def result_simps)
  let ?ns = "compatible_nodes V ''pci-host-ecam-generic'' cs"
  have "try_fold (\<lambda>t x. rbind (Inr () :: dtb_error + unit) (\<lambda>y. add_bytes t motherboard_aml_bytes)) 0 ?ns = Inr n"
    using assms(2) cs by (simp add: motherboard_dsdt_total_bytes_def for_compatible_Inr)
  from total_loop [OF this, of "\<lambda>_. motherboard_aml_bytes"]
  have n: "n = sum_list (map (\<lambda>_. motherboard_aml_bytes) ?ns)" by simp
  show ?thesis unfolding n
    by (rule wrote_loop [of "motherboard_step V" s p 0 ?ns s' p' i])
      (use e assms(3,4) motherboard_step_wrote in \<open>auto simp: for_compatible_Inr simp del: dsdt_sizes\<close>)
qed

lemma virtio_emit_length:
  assumes "virtio_emit V s p = Inr (s', p')" and "virtio_dsdt_total_bytes V = Inr n"
    and "p \<le> length s" and "p \<le> usize_max"
  shows "wrote s p n s' p'"
proof -
  from assms(1) obtain cs i where cs: "children V (root_of (tree_root V)) = Inr cs"
    and e: "for_compatible V ''virtio,mmio'' (virtio_step V) ((s, p), 0) cs = Inr ((s', p'), i)"
    by (auto simp: virtio_emit_def result_simps)
  let ?ns = "compatible_nodes V ''virtio,mmio'' cs"
  from assms(2) cs obtain k where
    k: "for_compatible V ''virtio,mmio'' (\<lambda>n _. add_bytes n 1) 0 cs = Inr k" "n = k * VIRTIO_DEVICE_BYTES"
    by (auto simp: virtio_dsdt_total_bytes_def virtio_count_devices_def result_simps checked_simps)
  then have "try_fold (\<lambda>t x. rbind (Inr () :: dtb_error + unit) (\<lambda>y. add_bytes t 1)) 0 ?ns = Inr k"
    by (simp add: for_compatible_Inr)
  from total_loop [OF this, of "\<lambda>_. 1"] have "k = length ?ns" by (simp add: sum_list_triv)
  then have n: "n = sum_list (map (\<lambda>_. VIRTIO_DEVICE_BYTES) ?ns)" using k(2) by (simp add: sum_list_triv)
  show ?thesis unfolding n
    by (rule wrote_loop [of "virtio_step V" s p 0 ?ns s' p' i])
      (use e assms(3,4) virtio_step_wrote in \<open>auto simp: for_compatible_Inr simp del: dsdt_sizes\<close>)
qed

lemma serial_emit_length:
  assumes "serial_emit V s p = Inr (s', p')" and "serial_dsdt_total_bytes V = Inr n"
    and "p \<le> length s" and "p \<le> usize_max"
  shows "wrote s p n s' p'"
proof -
  from assms(1) obtain m where m: "find_serial V = Inr m"
    and e: "(case m of None \<Rightarrow> Inr (s, p) | Some n \<Rightarrow> serial_write_device V s p n) = Inr (s', p')"
    unfolding serial_emit_def by (rule rbind_InrE)
  have n: "n = (if m \<noteq> None then SER_DEVICE_BYTES else 0)"
    using assms(2) m by (simp add: serial_dsdt_total_bytes_def)
  show ?thesis
  proof (cases m)
    case None
    then show ?thesis using e n assms(3,4) by (simp add: wrote_refl)
  next
    case (Some c)
    then have "serial_write_device V s p c = Inr (s', p')" using e by simp
    from serial_write_wrote [OF this] show ?thesis using Some n by simp
  qed
qed

definition bridge_bytes :: "('n, 'p) dt_view \<Rightarrow> 'n dtb_node \<Rightarrow> nat" where
  "bridge_bytes V c = (case count_windows V c of Inl _ \<Rightarrow> 0 | Inr w \<Rightarrow> host_bridge_aml_bytes w)"

lemma pci_step_wrote:
  assumes "pci_step V ((s, p), i) c = Inr ((s', p'), i')"
  shows "wrote s p (bridge_bytes V c) s' p'"
proof -
  have "pci_write_one_device V s p c i = Inr (s', p')"
    using assms by (auto simp: pci_step_def result_simps)
  from pci_write_wrote [OF this] show ?thesis by (auto simp: bridge_bytes_def)
qed

lemma pci_emit_length:
  assumes "pci_emit V s p = Inr (s', p')" and "pci_dsdt_total_bytes V = Inr n"
    and "p \<le> length s" and "p \<le> usize_max"
  shows "wrote s p n s' p'"
proof -
  from assms(1) obtain cs i where cs: "children V (root_of (tree_root V)) = Inr cs"
    and e: "for_compatible V ''pci-host-ecam-generic'' (pci_step V) ((s, p), 0) cs = Inr ((s', p'), i)"
    by (auto simp: pci_emit_def result_simps)
  let ?ns = "compatible_nodes V ''pci-host-ecam-generic'' cs"
  have "try_fold (\<lambda>t c. rbind (count_windows V c) (\<lambda>w. add_bytes t (host_bridge_aml_bytes w))) 0 ?ns = Inr n"
    using assms(2) cs by (simp add: pci_dsdt_total_bytes_def for_compatible_Inr)
  from total_loop [OF this, of "bridge_bytes V"]
  have n: "n = sum_list (map (bridge_bytes V) ?ns)" by (simp add: bridge_bytes_def)
  show ?thesis unfolding n
    by (rule wrote_loop [of "pci_step V" s p 0 ?ns s' p' i])
      (use e assms(3,4) pci_step_wrote in \<open>auto simp: for_compatible_Inr\<close>)
qed

section \<open>The whole table\<close>

text \<open>The slot is sized for the four parts; then only a device can make the table fail.\<close>

definition dsdt_start :: "oem_identity \<Rightarrow> u8 \<Rightarrow> bytes \<Rightarrow> bytes" where
  "dsdt_start oem v slot = copy_at (copy_at slot 0
    (sdt_header_bytes (sdt_header_new ''DSDT'' (word_of_nat (length slot)) DSDT_REVISION oem))) 36 (s5_aml v)"

lemma dsdt_start_props:
  assumes "oem_ok oem" and "49 \<le> length slot"
  shows "length (dsdt_start oem v slot) = length slot"
    and "take 49 (dsdt_start oem v slot) =
      sdt_header_bytes (sdt_header_new ''DSDT'' (word_of_nat (length slot)) DSDT_REVISION oem) @ s5_aml v"
  using assms length_sdt_header_bytes [OF assms(1), of "''DSDT''"]
  by (simp_all add: dsdt_start_def copy_at_def S5_AML_LEN_def)

lemma dsdt_emit_eq:
  assumes "oem_ok oem" and "49 \<le> length slot" and "length slot < 2 ^ 32"
  shows "dsdt_emit oem v V slot =
      rbind (motherboard_emit V (dsdt_start oem v slot) 49) (\<lambda>(slot3, after_motherboard).
      rbind (pci_emit V slot3 after_motherboard) (\<lambda>(slot4, after_pci).
      rbind (serial_emit V slot4 after_pci) (\<lambda>(slot5, after_serial).
      rbind (virtio_emit V slot5 after_serial) (\<lambda>(slot6, e).
        if e \<noteq> length slot6 then Inl Internal else set_sdt_checksum slot6))))"
proof -
  let ?h = "sdt_header_bytes (sdt_header_new ''DSDT'' (word_of_nat (length slot)) DSDT_REVISION oem)"
  have lh: "length ?h = 36" by (rule length_sdt_header_bytes) (simp_all add: assms(1))
  have l1: "length (copy_at slot 0 ?h) = length slot" using lh assms(2) by simp
  show ?thesis
    using lh assms(2,3) l1 by (simp add: dsdt_emit_def Let_def u32_of_len_def write_header_def get_range_def
        usize_add_def S5_AML_LEN_def SDT_HEADER_SIZE_def usize_max_eq dsdt_start_def)
qed

lemma wrote_prefix: "wrote s p n s' p' \<Longrightarrow> k \<le> p \<Longrightarrow> take k s' = take k s"
  by (auto simp: wrote_def write_entry_eq copy_at_def min_def split: if_splits)

lemma dsdt_emit_table:
  assumes tot: "motherboard_dsdt_total_bytes V = Inr mb" "pci_dsdt_total_bytes V = Inr pc"
      "serial_dsdt_total_bytes V = Inr se" "virtio_dsdt_total_bytes V = Inr vi"
    and len: "length slot = 49 + mb + pc + se + vi" "length slot < 2 ^ 32" and oem: "oem_ok oem"
    and em: "dsdt_emit oem v V slot = Inr t"
  shows "table_ok ''DSDT'' DSDT_REVISION oem t \<and> length t = length slot \<and> take 13 (drop 36 t) = s5_aml v"
proof -
  let ?h = "sdt_header_bytes (sdt_header_new ''DSDT'' (word_of_nat (length slot)) DSDT_REVISION oem)"
  have lh: "length ?h = 36" by (rule length_sdt_header_bytes) (simp_all add: oem)
  have l49: "49 \<le> length slot" using len(1) by simp
  note st = dsdt_start_props [OF oem l49, of v]
  from em obtain s3 p3 s4 p4 s5 p5 s6 p6 where
    m: "motherboard_emit V (dsdt_start oem v slot) 49 = Inr (s3, p3)" and pe: "pci_emit V s3 p3 = Inr (s4, p4)"
    and se: "serial_emit V s4 p4 = Inr (s5, p5)" and ve: "virtio_emit V s5 p5 = Inr (s6, p6)"
    and cs: "set_sdt_checksum s6 = Inr t"
    unfolding dsdt_emit_eq [OF oem l49 len(2)]
    by (elim rbind_InrE2) (simp split: if_splits)
  have w3: "wrote (dsdt_start oem v slot) 49 mb s3 p3"
    by (rule motherboard_emit_length [OF m tot(1)]) (use st(1) l49 in \<open>simp_all add: usize_max_eq\<close>)
  note b3 = wrote_bounds [OF w3]
  have w4: "wrote s3 p3 pc s4 p4" using pci_emit_length [OF pe tot(2)] b3 by simp
  note b4 = wrote_bounds [OF w4]
  have w5: "wrote s4 p4 se s5 p5" using serial_emit_length [OF se tot(3)] b4 by simp
  note b5 = wrote_bounds [OF w5]
  have w6: "wrote s5 p5 vi s6 p6" using virtio_emit_length [OF ve tot(4)] b5 by simp
  note b6 = wrote_bounds [OF w6]
  have ls: "length s6 = length slot" using b3 b4 b5 b6 st(1) by simp
  have "take 49 s6 = take 49 s5" by (rule wrote_prefix [OF w6]) (use b3 b4 b5 in simp)
  also have "\<dots> = take 49 s4" by (rule wrote_prefix [OF w5]) (use b3 b4 in simp)
  also have "\<dots> = take 49 s3" by (rule wrote_prefix [OF w4]) (use b3 in simp)
  also have "\<dots> = take 49 (dsdt_start oem v slot)" by (rule wrote_prefix [OF w3]) simp
  finally have t49: "take 49 s6 = ?h @ s5_aml v" using st(2) by simp
  have "take 36 (take 49 s6) = ?h" unfolding t49 using lh by simp
  then have t36: "take 36 s6 = ?h" by (simp add: min_def)
  have "take 13 (drop 36 s6) = drop 36 (take 49 s6)" by (simp add: drop_take)
  then have d36: "take 13 (drop 36 s6) = s5_aml v" unfolding t49 using lh by simp
  have "table_ok ''DSDT'' DSDT_REVISION oem t \<and> length t = length s6 \<and> drop 36 t = drop 36 s6"
    by (rule set_sdt_checksum_slot [OF cs oem]) (use ls len(2) l49 t36 in simp_all)
  with ls d36 show ?thesis by simp
qed

lemma dsdt_errors:
  assumes tot: "motherboard_dsdt_total_bytes V = Inr mb" "pci_dsdt_total_bytes V = Inr pc"
      "serial_dsdt_total_bytes V = Inr se" "virtio_dsdt_total_bytes V = Inr vi"
    and len: "length slot = 49 + mb + pc + se + vi" "length slot < 2 ^ 32" and oem: "oem_ok oem"
    and err: "dsdt_emit oem v V slot = Inl e"
  shows "\<exists>s p. motherboard_emit V s p = Inl e \<or> pci_emit V s p = Inl e \<or>
    serial_emit V s p = Inl e \<or> virtio_emit V s p = Inl e"
proof (rule ccontr)
  assume no: "\<not> ?thesis"
  have l49: "49 \<le> length slot" using len(1) by simp
  let ?s2 = "dsdt_start oem v slot"
  note l2 = dsdt_start_props(1) [OF oem l49, of v] and pre = dsdt_emit_eq [OF oem l49 len(2), of v V]
  have "49 \<le> length ?s2" "(49::nat) \<le> usize_max" using l2 len(1) by (simp_all add: usize_max_eq)
  moreover obtain s3 p3 where m: "motherboard_emit V ?s2 49 = Inr (s3, p3)"
    using err no unfolding pre by (cases "motherboard_emit V ?s2 49") auto
  ultimately have w3: "wrote ?s2 49 mb s3 p3" using motherboard_emit_length tot(1) by blast
  note b3 = wrote_bounds [OF w3]
  obtain s4 p4 where pcie: "pci_emit V s3 p3 = Inr (s4, p4)"
    using err no pre m by (cases "pci_emit V s3 p3") auto
  have w4: "wrote s3 p3 pc s4 p4" using pci_emit_length [OF pcie tot(2)] b3 by simp
  note b4 = wrote_bounds [OF w4]
  obtain s5 p5 where ser: "serial_emit V s4 p4 = Inr (s5, p5)"
    using err no pre m pcie by (cases "serial_emit V s4 p4") auto
  have w5: "wrote s4 p4 se s5 p5" using serial_emit_length [OF ser tot(3)] b4 by simp
  note b5 = wrote_bounds [OF w5]
  obtain s6 p6 where vir: "virtio_emit V s5 p5 = Inr (s6, p6)"
    using err no pre m pcie ser by (cases "virtio_emit V s5 p5") auto
  have w6: "wrote s5 p5 vi s6 p6" using virtio_emit_length [OF vir tot(4)] b5 by simp
  note b6 = wrote_bounds [OF w6]
  have "p6 = length s6" "9 < length s6" using b3 b4 b5 b6 l2 len(1) by simp_all
  then obtain t where "dsdt_emit oem v V slot = Inr t"
    using set_sdt_checksum_ok [of s6] by (auto simp: pre m pcie ser vir)
  with err show False by simp
qed

interpretation dsdt_table: table_emitter "dsdt_emit oem v V" "''DSDT''" DSDT_REVISION oem
    "\<lambda>n. oem_ok oem \<and> n < 2 ^ 32 \<and> (\<exists>mb pc se vi. motherboard_dsdt_total_bytes V = Inr mb \<and>
      pci_dsdt_total_bytes V = Inr pc \<and> serial_dsdt_total_bytes V = Inr se \<and>
      virtio_dsdt_total_bytes V = Inr vi \<and> n = 49 + mb + pc + se + vi)"
  for oem :: oem_identity and v :: u8 and V :: "('n, 'p) dt_view"
  by unfold_locales (use dsdt_emit_table in blast)


end
