(* ===== verification/Count.thy ===== *)
theory Count
  imports Dsdt
begin

text \<open>
  The single pass of \<open>count.rs\<close> over the tree: the walk over the cpus, the power-off and
  reset registers, the layout of the buffer, and \<open>run\<close>, which puts them together.

  \<open>walk_cpus_Inr\<close> is the contract of the walk with the MADT and SRAT modules: the byte
  counts are the lengths of what those modules write for the cpus of the cache, the first cpu is
  enabled, the untagged count is the number of cpus without a domain. \<open>offsets_new_Inr\<close>
  says that the slots follow each other without gap and have the sizes the modules computed.
\<close>

section \<open>cpus\<close>

definition walk_cpu_step ::
  "('n, 'p) dt_view \<Rightarrow> cpu_walk \<times> u32 \<times> domains \<times> cpu_cache \<Rightarrow> 'n dtb_node
    \<Rightarrow> dtb_error + cpu_walk \<times> u32 \<times> domains \<times> cpu_cache" where
  "walk_cpu_step V st c = (case st of (w, n_vcpus, doms, cache) \<Rightarrow>
    let processor_id = n_vcpus in
    rbind (decode_cpu_subset V c) (\<lambda>(apic_id, tag, status).
    if processor_id = 0 \<and> status \<noteq> StOkay then Inl BootCpuNotEnabled
    else
      rbind (ok_or Internal (usize_add (lapic_entry_size_for_apic apic_id processor_id)
                                       (nmi_entry_size_for_uid processor_id))) (\<lambda>per_vcpu.
      rbind (ok_or Internal (usize_add (cw_vcpu_entries_bytes w) per_vcpu)) (\<lambda>vcpu_bytes.
      rbind (ok_or Internal (usize_add (cw_cpu_entries_bytes w) (cpu_affinity_size_for_apic apic_id))) (\<lambda>cpu_bytes.
      rbind (case tag of
               Some pd \<Rightarrow>
                 rbind (count_u32 (cw_cpu_tagged_count w)) (\<lambda>t.
                 rbind (domains_insert doms pd) (\<lambda>d. Inr (t, cw_cpu_untagged_count w, d)))
             | None \<Rightarrow>
                 rbind (count_u32 (cw_cpu_untagged_count w)) (\<lambda>u. Inr (cw_cpu_tagged_count w, u, doms)))
        (\<lambda>(tagged, untagged, doms').
      rbind (cpu_cache_push cache apic_id tag status) (\<lambda>cache'.
      rbind (count_u32 n_vcpus) (\<lambda>n'.
        Inr (\<lparr>cw_vcpu_entries_bytes = vcpu_bytes, cw_cpu_entries_bytes = cpu_bytes,
              cw_cpu_tagged_count = tagged, cw_cpu_untagged_count = untagged\<rparr>, n', doms', cache'))))))))) "

definition walk_cpus ::
  "('n, 'p) dt_view \<Rightarrow> 'n dtb_node \<Rightarrow> domains \<Rightarrow> cpu_cache \<Rightarrow> dtb_error + cpu_walk \<times> domains \<times> cpu_cache" where
  "walk_cpus V n doms cache =
    rbind (child V n ''cpus'' SiteCpus) (\<lambda>m.
    rbind (ok_or (MissingNode SiteCpus) m) (\<lambda>cpus.
    rbind (children V cpus) (\<lambda>cs.
    rbind (for_named V ''cpu'' (walk_cpu_step V)
             (\<lparr>cw_vcpu_entries_bytes = 0, cw_cpu_entries_bytes = 0, cw_cpu_tagged_count = 0,
               cw_cpu_untagged_count = 0\<rparr>, 0, doms, cache) cs) (\<lambda>(w, n_vcpus, doms', cache').
      if n_vcpus = 0 then Inl (MissingNode SiteCpu) else Inr (w, doms', cache')))))"

section \<open>Power-off and reset\<close>

definition resolve_syscon ::
  "('n, 'p) dt_view \<Rightarrow> 'n dtb_node \<Rightarrow> site \<Rightarrow> bool \<Rightarrow> dtb_error + u64 \<times> u8" where
  "resolve_syscon V n st value_required =
    rbind (reg V n st) (\<lambda>it.
    rbind (ok_or (MalformedProperty st ''reg'') (fst (reg_next it))) (\<lambda>(addr, _).
    rbind (case node_property V (dn_node n) ''value'' of
             Some p \<Rightarrow> ok_or (MalformedProperty st ''value'') (as_u32 V p)
           | None \<Rightarrow> if value_required then Inl (MissingProperty st ''value'') else Inr 0) (\<lambda>value_u32.
    rbind (ok_or (ValueOutOfRange st ''value'') (u8_of_u32 value_u32)) (\<lambda>v.
      Inr (addr, v)))))"

definition claim_if_none ::
  "('n, 'p) dt_view \<Rightarrow> string \<Rightarrow> 'n dtb_node option \<Rightarrow> 'n dtb_node \<Rightarrow> dtb_error + 'n dtb_node option" where
  "claim_if_none V want m c =
    (case m of
       Some x \<Rightarrow> Inr (Some x)
     | None \<Rightarrow> rbind (has_compatible V c want) (\<lambda>b. Inr (if b then Some c else None)))"

fun find_syscons ::
  "('n, 'p) dt_view \<Rightarrow> 'n dtb_node option \<Rightarrow> 'n dtb_node option \<Rightarrow> 'n dtb_node list
    \<Rightarrow> dtb_error + 'n dtb_node option \<times> 'n dtb_node option" where
  "find_syscons V poweroff reboot [] = Inr (poweroff, reboot)"
| "find_syscons V poweroff reboot (c # cs) =
    rbind (claim_if_none V ''syscon-poweroff'' poweroff c) (\<lambda>p.
    rbind (claim_if_none V ''syscon-reboot'' reboot c) (\<lambda>r.
      if p \<noteq> None \<and> r \<noteq> None then Inr (p, r) else find_syscons V p r cs))"

definition extract_fadt :: "('n, 'p) dt_view \<Rightarrow> 'n dtb_node \<Rightarrow> dtb_error + fadt_plan" where
  "extract_fadt V n =
    rbind (children V n) (\<lambda>cs.
    rbind (find_syscons V None None cs) (\<lambda>(poweroff, reboot).
    rbind (ok_or (MissingNode SiteSysconPoweroff) poweroff) (\<lambda>po.
    rbind (resolve_syscon V po SiteSysconPoweroff False) (\<lambda>(sleep_addr, sleep_val).
    let sleep_ctl = system_memory_byte sleep_addr in
    rbind (case reboot of
             None \<Rightarrow> Inr (None, 0)
           | Some rb \<Rightarrow>
               rbind (resolve_syscon V rb SiteSysconReboot True) (\<lambda>(a, v).
                 Inr (Some (system_memory_byte a), v))) (\<lambda>(reset, reset_val).
      Inr \<lparr>sleep_control_reg = sleep_ctl, sleep_status_reg = sleep_ctl, reset_reg = reset,
           reset_value = reset_val, sleep_value = sleep_val\<rparr>)))))"

section \<open>Layout\<close>

record counts =
  c_vcpu_entries_bytes :: nat
  c_cpu_entries_bytes :: nat
  c_ioapic_count :: u32
  c_ecam_count :: u32
  c_pci_dsdt_bytes :: nat
  c_motherboard_dsdt_bytes :: nat
  c_serial_dsdt_bytes :: nat
  c_virtio_mmio_dsdt_bytes :: nat
  c_has_serial :: bool
  c_has_numa :: bool
  c_memory_region_count :: u32
  c_has_distances :: bool

definition carve_opt :: "bool \<Rightarrow> nat \<Rightarrow> (dtb_error + nat) \<Rightarrow> dtb_error + slot option \<times> nat" where
  "carve_opt present cur sz =
    (if present then rbind sz (\<lambda>n. rbind (slot_carve cur n) (\<lambda>(s, cur'). Inr (Some s, cur')))
     else Inr (None, cur))"

definition dsdt_size :: "counts \<Rightarrow> dtb_error + nat" where
  "dsdt_size c =
    rbind (ok_or Internal (usize_add SDT_HEADER_SIZE S5_AML_LEN)) (\<lambda>n.
    rbind (ok_or Internal (usize_add n (c_motherboard_dsdt_bytes c))) (\<lambda>n.
    rbind (ok_or Internal (usize_add n (c_pci_dsdt_bytes c))) (\<lambda>n.
    rbind (ok_or Internal (usize_add n (c_serial_dsdt_bytes c))) (\<lambda>n.
      ok_or Internal (usize_add n (c_virtio_mmio_dsdt_bytes c))))))"

definition offsets_new :: "counts \<Rightarrow> u8 \<Rightarrow> dtb_error + offsets" where
  "offsets_new c n_domains =
    rbind (slot_carve 0 RSDP_SIZE) (\<lambda>(rsdp_slot, cur).
    rbind (dsdt_size c) (\<lambda>n.
    rbind (slot_carve cur n) (\<lambda>(dsdt, cur).
    rbind (slot_carve cur FADT_SIZE) (\<lambda>(fadt, cur).
    rbind (madt_total_size (c_ioapic_count c) (c_vcpu_entries_bytes c)) (\<lambda>n.
    rbind (slot_carve cur n) (\<lambda>(madt, cur).
    rbind (carve_opt (c_ecam_count c > 0) cur (mcfg_total_size (c_ecam_count c))) (\<lambda>(mcfg, cur).
    rbind (carve_opt (c_has_serial c) cur (Inr SPCR_SIZE)) (\<lambda>(spcr, cur).
    rbind (carve_opt (c_has_numa c) cur (srat_total_size (c_memory_region_count c) (c_cpu_entries_bytes c))) (\<lambda>(srat, cur).
    rbind (carve_opt (c_has_numa c \<and> c_has_distances c) cur (slit_total_size n_domains)) (\<lambda>(slit, cur).
    rbind (ok_or Internal (usize_add 2 (length (option_slots [mcfg, spcr, srat, slit])))) (\<lambda>n_entries.
    rbind (xsdt_total_size n_entries) (\<lambda>n.
    rbind (slot_carve cur n) (\<lambda>(xsdt, cur).
      Inr \<lparr>off_rsdp = rsdp_slot, off_dsdt = dsdt, off_fadt = fadt, off_madt = madt, off_mcfg = mcfg,
           off_spcr = spcr, off_srat = srat, off_slit = slit, off_xsdt = xsdt, off_total = cur\<rparr>)))))))))))))"

section \<open>The pass\<close>

definition count_run ::
  "('n, 'p) dt_view \<Rightarrow> cpu_cache \<Rightarrow> domains \<Rightarrow> dtb_error + (offsets \<times> fadt_plan \<times> u32) \<times> cpu_cache \<times> domains" where
  "count_run V cache doms =
    (let root = root_of (tree_root V) in
     rbind (walk_cpus V root doms cache) (\<lambda>(cw, doms, cache).
     rbind (count_intc V root) (\<lambda>(lapic_base, ioapic_count).
     rbind (extract_fadt V root) (\<lambda>fadt.
     rbind (count_mcfg V root) (\<lambda>ecam_count.
     rbind (motherboard_dsdt_total_bytes V) (\<lambda>motherboard_bytes.
     rbind (pci_dsdt_total_bytes V) (\<lambda>pci_bytes.
     rbind (serial_dsdt_total_bytes V) (\<lambda>serial_bytes.
     rbind (virtio_dsdt_total_bytes V) (\<lambda>virtio_bytes.
     rbind (spcr_present V) (\<lambda>has_serial.
     rbind (count_numa V root cw doms) (\<lambda>((has_numa, regions, has_distances), doms).
     rbind (offsets_new \<lparr>c_vcpu_entries_bytes = cw_vcpu_entries_bytes cw,
              c_cpu_entries_bytes = cw_cpu_entries_bytes cw, c_ioapic_count = ioapic_count,
              c_ecam_count = ecam_count, c_pci_dsdt_bytes = pci_bytes,
              c_motherboard_dsdt_bytes = motherboard_bytes, c_serial_dsdt_bytes = serial_bytes,
              c_virtio_mmio_dsdt_bytes = virtio_bytes, c_has_serial = has_serial, c_has_numa = has_numa,
              c_memory_region_count = regions, c_has_distances = has_distances\<rparr> (domains_len doms)) (\<lambda>off.
       Inr ((off, fadt, lapic_base), cache, doms)))))))))))))"

section \<open>What the walk over the cpus guarantees\<close>

definition walk_inv :: "cpu_walk \<times> u32 \<times> domains \<times> cpu_cache \<Rightarrow> bool" where
  "walk_inv st = (case st of (w, n, d, c) \<Rightarrow>
    cache_ok c \<and> domains_ok d \<and> unat n = length (cache_list c) \<and>
    cw_vcpu_entries_bytes w = length (concat (map madt_cpu_bytes (cpu_cache_entries c))) \<and>
    cw_cpu_entries_bytes w = sum_list (map (\<lambda>e. cpu_affinity_size_for_apic (fst e)) (cache_list c)) \<and>
    unat (cw_cpu_untagged_count w) = length (filter (\<lambda>e. fst (snd e) = None) (cache_list c)) \<and>
    (\<forall>e\<in>set (cache_list c). \<forall>pd. fst (snd e) = Some pd \<longrightarrow> pd \<in> set (domains_ids d)) \<and>
    (cache_list c \<noteq> [] \<longrightarrow> snd (snd (hd (cache_list c))) = StOkay))"

lemma decode_cpu_subset_tag: "decode_cpu_subset V c = Inr (a, tag, st) \<Longrightarrow> tag \<noteq> Some NUMA_TAG_NONE"
  by (auto simp: decode_cpu_subset_def result_simps split: prod.splits option.splits if_splits)

lemma domains_insert_Inr:
  assumes "domains_insert d pd = Inr d'" and "domains_ok d"
  shows "domains_ok d' \<and> set (domains_ids d') = insert pd (set (domains_ids d))"
  using domains_insert_step [OF assms(2), of pd] assms(1) assms(2)
  by (auto split: if_splits)

lemma cpu_cache_push_Inr:
  assumes "cpu_cache_push c a tag st = Inr c'" and "cache_ok c" and "tag \<noteq> Some NUMA_TAG_NONE"
  shows "cache_ok c' \<and> cache_list c' = cache_list c @ [(a, tag, st)]"
  using cpu_cache_push_step [OF assms(2,3), of a st] assms(1) by (auto split: if_splits)

lemma cpu_cache_entries_push:
  assumes "cache_ok c" and "cache_ok c'" and "cache_list c' = cache_list c @ [(a, tag, st)]"
  shows "cpu_cache_entries c' = cpu_cache_entries c @ [(word_of_nat (length (cache_list c)), a, tag, st)]"
  unfolding cpu_cache_entries_eq [OF assms(1)] cpu_cache_entries_eq [OF assms(2)] assms(3)
  by (simp add: nth_append)

lemma walk_cpu_step_inv:
  assumes "walk_cpu_step V st c = Inr st'" and "walk_inv st"
  shows "walk_inv st'"
proof -
  obtain w n d k where st: "st = (w, n, d, k)" by (cases st)
  from assms(1) [unfolded st] obtain a tag s pv vb cb tg ut d' k' n' where
    dec: "decode_cpu_subset V c = Inr (a, tag, s)" and boot: "\<not> (n = 0 \<and> s \<noteq> StOkay)"
    and pv: "pv = lapic_entry_size_for_apic a n + nmi_entry_size_for_uid n"
    and vb: "vb = cw_vcpu_entries_bytes w + pv"
    and cb: "cb = cw_cpu_entries_bytes w + cpu_affinity_size_for_apic a"
    and tags: "(case tag of
               Some pd \<Rightarrow> rbind (count_u32 (cw_cpu_tagged_count w)) (\<lambda>t.
                 rbind (domains_insert d pd) (\<lambda>d. Inr (t, cw_cpu_untagged_count w, d)))
             | None \<Rightarrow> rbind (count_u32 (cw_cpu_untagged_count w)) (\<lambda>u. Inr (cw_cpu_tagged_count w, u, d)))
        = Inr (tg, ut, d')"
    and push: "cpu_cache_push k a tag s = Inr k'" and n': "count_u32 n = Inr n'"
    and st': "st' = (\<lparr>cw_vcpu_entries_bytes = vb, cw_cpu_entries_bytes = cb,
              cw_cpu_tagged_count = tg, cw_cpu_untagged_count = ut\<rparr>, n', d', k')"
    unfolding walk_cpu_step_def Let_def prod.case
    by (auto simp: rbind_eq_Inr ok_or_eq_Inr usize_add_eq_Some split: if_splits)
  have inv: "cache_ok k" "domains_ok d" "unat n = length (cache_list k)"
      "cw_vcpu_entries_bytes w = length (concat (map madt_cpu_bytes (cpu_cache_entries k)))"
      "cw_cpu_entries_bytes w = sum_list (map (\<lambda>e. cpu_affinity_size_for_apic (fst e)) (cache_list k))"
      "unat (cw_cpu_untagged_count w) = length (filter (\<lambda>e. fst (snd e) = None) (cache_list k))"
      "\<forall>e\<in>set (cache_list k). \<forall>pd. fst (snd e) = Some pd \<longrightarrow> pd \<in> set (domains_ids d)"
      "cache_list k \<noteq> [] \<longrightarrow> snd (snd (hd (cache_list k))) = StOkay"
    using assms(2) unfolding st walk_inv_def by simp_all
  have k': "cache_ok k'" "cache_list k' = cache_list k @ [(a, tag, s)]"
    using cpu_cache_push_Inr [OF push inv(1) decode_cpu_subset_tag [OF dec]] by simp_all
  have pid: "word_of_nat (length (cache_list k)) = n" using inv(3) [symmetric] by simp
  have ent: "cpu_cache_entries k' = cpu_cache_entries k @ [(n, a, tag, s)]"
    using cpu_cache_entries_push [OF inv(1) k'] pid by simp
  have boot': "cache_list k = [] \<longrightarrow> s = StOkay" using boot inv(3) by (auto simp: unat_eq_zero)
  have nn: "unat n' = Suc (unat n)" using n' by (simp add: count_u32_Inr)
  show ?thesis
  proof (cases tag)
    case None
    then have "d' = d" "unat ut = Suc (unat (cw_cpu_untagged_count w))"
      using tags by (auto simp: rbind_eq_Inr count_u32_Inr)
    then show ?thesis using inv k' ent boot' nn None
      by (auto simp: walk_inv_def st' vb cb pv length_madt_cpu_bytes hd_append)
  next
    case (Some pd)
    then have d': "domains_insert d pd = Inr d'" "ut = cw_cpu_untagged_count w"
      using tags by (auto simp: rbind_eq_Inr)
    then show ?thesis using inv k' ent boot' nn Some domains_insert_Inr [OF d'(1) inv(2)]
      by (auto simp: walk_inv_def st' vb cb pv length_madt_cpu_bytes hd_append)
  qed
qed

lemma walk_cpus_Inr:
  assumes "walk_cpus V n d0 cache0 = Inr (w, d, cache)"
    and "cache_ok cache0" and "cache_list cache0 = []" and "domains_ok d0"
  shows "\<exists>k. unat k > 0 \<and> walk_inv (w, k, d, cache)"
proof -
  from assms(1) obtain cs k where l: "try_fold (walk_cpu_step V)
      (\<lparr>cw_vcpu_entries_bytes = 0, cw_cpu_entries_bytes = 0, cw_cpu_tagged_count = 0,
        cw_cpu_untagged_count = 0\<rparr>, 0, d0, cache0) cs = Inr (w, k, d, cache)" and k: "k \<noteq> 0"
    unfolding walk_cpus_def for_named_eq by (elim rbind_InrE2 rbind_InrE) (auto simp: rbind_eq_Inr split: if_splits)
  have "walk_inv (\<lparr>cw_vcpu_entries_bytes = 0, cw_cpu_entries_bytes = 0, cw_cpu_tagged_count = 0,
        cw_cpu_untagged_count = 0\<rparr>, 0, d0, cache0)"
    using assms(2-4) by (simp add: walk_inv_def cpu_cache_entries_eq)
  from try_fold_invariant [where I = walk_inv, OF l this]
  have "walk_inv (w, k, d, cache)" using walk_cpu_step_inv by blast
  with k show ?thesis by (auto simp: unat_gt_0)
qed

text \<open>The cache lists the cpus of the tree in order.\<close>

lemma walk_cpu_step_list:
  assumes "walk_cpu_step V (w, n, d, k) c = Inr (w', n', d', k')" and "cache_ok k"
  shows "cache_ok k' \<and> (\<exists>x. decode_cpu_subset V c = Inr x \<and> cache_list k' = cache_list k @ [x])"
proof -
  from assms(1) obtain a tag s where dec: "decode_cpu_subset V c = Inr (a, tag, s)"
    and push: "cpu_cache_push k a tag s = Inr k'"
    unfolding walk_cpu_step_def Let_def prod.case
    by (auto simp: rbind_eq_Inr split: if_splits)
  from cpu_cache_push_Inr [OF push assms(2) decode_cpu_subset_tag [OF dec]] dec show ?thesis by blast
qed

lemma walk_cpu_loop_list:
  assumes "try_fold (walk_cpu_step V) (w, n, d, k) cs = Inr (w', n', d', k')" and "cache_ok k"
  shows "\<exists>xs. map (decode_cpu_subset V) cs = map Inr xs \<and> cache_list k' = cache_list k @ xs"
  using assms
proof (induction cs arbitrary: w n d k)
  case (Cons c cs)
  from Cons.prems(1) obtain w1 n1 d1 k1 where s: "walk_cpu_step V (w, n, d, k) c = Inr (w1, n1, d1, k1)"
    and r: "try_fold (walk_cpu_step V) (w1, n1, d1, k1) cs = Inr (w', n', d', k')" by (auto simp: result_simps)
  obtain x where x: "cache_ok k1" "decode_cpu_subset V c = Inr x" "cache_list k1 = cache_list k @ [x]"
    using walk_cpu_step_list [OF s Cons.prems(2)] by blast
  obtain xs where "map (decode_cpu_subset V) cs = map Inr xs" "cache_list k' = cache_list k1 @ xs"
    using Cons.IH [OF r x(1)] by blast
  with x show ?case by (intro exI [of _ "x # xs"]) simp
qed simp

lemma walk_cpus_list:
  assumes "walk_cpus V n d0 cache0 = Inr (w, d, cache)" and "cache_ok cache0" and "cache_list cache0 = []"
  shows "\<exists>cpus cs. child V n ''cpus'' SiteCpus = Inr (Some cpus) \<and> children V cpus = Inr cs \<and>
    map (decode_cpu_subset V) (named_nodes V ''cpu'' cs) = map Inr (cache_list cache)"
proof -
  from assms(1) obtain cpus cs k where c: "child V n ''cpus'' SiteCpus = Inr (Some cpus)" "children V cpus = Inr cs"
    and l: "try_fold (walk_cpu_step V)
      (\<lparr>cw_vcpu_entries_bytes = 0, cw_cpu_entries_bytes = 0, cw_cpu_tagged_count = 0,
        cw_cpu_untagged_count = 0\<rparr>, 0, d0, cache0) (named_nodes V ''cpu'' cs) = Inr (w, k, d, cache)"
    unfolding walk_cpus_def for_named_eq by (auto simp: result_simps split: if_splits)
  from walk_cpu_loop_list [OF l assms(2)] assms(3) c show ?thesis by auto
qed

section \<open>The layout\<close>

definition slots_of :: "offsets \<Rightarrow> slot list" where
  "slots_of off = [off_rsdp off, off_dsdt off, off_fadt off, off_madt off] @
    option_slots [off_mcfg off, off_spcr off, off_srat off, off_slit off] @ [off_xsdt off]"

fun consecutive :: "nat \<Rightarrow> slot list \<Rightarrow> nat \<Rightarrow> bool" where
  "consecutive cur [] fin \<longleftrightarrow> cur = fin"
| "consecutive cur (s # ss) fin \<longleftrightarrow> sl_offset s = cur \<and> consecutive (cur + sl_len s) ss fin"

lemma slot_carve_Inr:
  "slot_carve cur n = Inr (s, cur') \<longleftrightarrow> s = \<lparr>sl_offset = cur, sl_len = n\<rparr> \<and> cur' = cur + n \<and> cur + n \<le> usize_max"
  by (auto simp: slot_carve_def result_simps checked_simps)

lemma carve_opt_Inr:
  "carve_opt b cur sz = Inr (m, cur') \<longleftrightarrow>
    (if b then \<exists>n. sz = Inr n \<and> cur + n \<le> usize_max \<and> m = Some \<lparr>sl_offset = cur, sl_len = n\<rparr> \<and> cur' = cur + n
     else m = None \<and> cur' = cur)"
  by (auto simp: carve_opt_def result_simps slot_carve_Inr)

lemma dsdt_size_Inr: "dsdt_size c = Inr n \<Longrightarrow> n = 49 + c_motherboard_dsdt_bytes c + c_pci_dsdt_bytes c +
    c_serial_dsdt_bytes c + c_virtio_mmio_dsdt_bytes c"
  by (auto simp: dsdt_size_def result_simps checked_simps SDT_HEADER_SIZE_def S5_AML_LEN_def)

lemma option_slots_simps [simp]:
  "option_slots [] = []" "option_slots (None # ms) = option_slots ms"
  "option_slots (Some s # ms) = s # option_slots ms"
  by (simp_all add: option_slots_def)

definition len_of :: "slot option \<Rightarrow> nat option" where
  "len_of m = map_option sl_len m"

lemma offsets_new_Inr:
  assumes "offsets_new c nd = Inr off"
  shows "consecutive 0 (slots_of off) (off_total off)"
    and "sl_len (off_rsdp off) = RSDP_SIZE" and "dsdt_size c = Inr (sl_len (off_dsdt off))"
    and "sl_len (off_fadt off) = FADT_SIZE"
    and "madt_total_size (c_ioapic_count c) (c_vcpu_entries_bytes c) = Inr (sl_len (off_madt off))"
    and "off_mcfg off = Some s \<Longrightarrow> mcfg_total_size (c_ecam_count c) = Inr (sl_len s)"
    and "off_spcr off = Some s \<Longrightarrow> c_has_serial c \<and> sl_len s = SPCR_SIZE"
    and "off_srat off = Some s \<Longrightarrow> c_has_numa c \<and>
      srat_total_size (c_memory_region_count c) (c_cpu_entries_bytes c) = Inr (sl_len s)"
    and "off_slit off = Some s \<Longrightarrow> c_has_numa c \<and> c_has_distances c \<and> slit_total_size nd = Inr (sl_len s)"
    and "sl_len (off_xsdt off) = 36 + 8 * length (xsdt_targets off)"
proof -
  obtain r0 c0 n1 d1 c1 f2 c2 n3 m3 c3 mc c4 sp c5 sr c6 sl c7 ne n8 x8 c8 where
    s: "slot_carve 0 RSDP_SIZE = Inr (r0, c0)" "dsdt_size c = Inr n1" "slot_carve c0 n1 = Inr (d1, c1)"
      "slot_carve c1 FADT_SIZE = Inr (f2, c2)"
      "madt_total_size (c_ioapic_count c) (c_vcpu_entries_bytes c) = Inr n3" "slot_carve c2 n3 = Inr (m3, c3)"
      "carve_opt (c_ecam_count c > 0) c3 (mcfg_total_size (c_ecam_count c)) = Inr (mc, c4)"
      "carve_opt (c_has_serial c) c4 (Inr SPCR_SIZE) = Inr (sp, c5)"
      "carve_opt (c_has_numa c) c5 (srat_total_size (c_memory_region_count c) (c_cpu_entries_bytes c)) = Inr (sr, c6)"
      "carve_opt (c_has_numa c \<and> c_has_distances c) c6 (slit_total_size nd) = Inr (sl, c7)"
      "ok_or Internal (usize_add 2 (length (option_slots [mc, sp, sr, sl]))) = Inr ne"
      "xsdt_total_size ne = Inr n8" "slot_carve c7 n8 = Inr (x8, c8)"
    and off: "off = \<lparr>off_rsdp = r0, off_dsdt = d1, off_fadt = f2, off_madt = m3, off_mcfg = mc,
           off_spcr = sp, off_srat = sr, off_slit = sl, off_xsdt = x8, off_total = c8\<rparr>"
    using assms unfolding offsets_new_def by (elim rbind_InrE2 rbind_InrE) (rule that, assumption+, simp)
  note opt = s(7-10) [unfolded carve_opt_Inr]
  note car = s(1,3,4,6,13) [unfolded slot_carve_Inr]
  have mc: "consecutive c3 (option_slots [mc] @ ss) fin = consecutive c4 ss fin" for ss fin
    using opt(1) by (auto split: if_splits)
  have sp: "consecutive c4 (option_slots [sp] @ ss) fin = consecutive c5 ss fin" for ss fin
    using opt(2) by (auto split: if_splits)
  have sr: "consecutive c5 (option_slots [sr] @ ss) fin = consecutive c6 ss fin" for ss fin
    using opt(3) by (auto split: if_splits)
  have sl: "consecutive c6 (option_slots [sl] @ ss) fin = consecutive c7 ss fin" for ss fin
    using opt(4) by (auto split: if_splits)
  have four: "option_slots [mc, sp, sr, sl] @ ss =
      option_slots [mc] @ option_slots [sp] @ option_slots [sr] @ option_slots [sl] @ ss" for ss
    by (simp add: option_slots_def)
  have "consecutive c3 (option_slots [mc, sp, sr, sl] @ [x8]) c8"
    unfolding four mc sp sr sl using car by simp
  then show "consecutive 0 (slots_of off) (off_total off)"
    unfolding slots_of_def off using car by simp
  show "sl_len (off_rsdp off) = RSDP_SIZE" "sl_len (off_fadt off) = FADT_SIZE" using car off by simp_all
  show "dsdt_size c = Inr (sl_len (off_dsdt off))" using car off s(2) by simp
  show "madt_total_size (c_ioapic_count c) (c_vcpu_entries_bytes c) = Inr (sl_len (off_madt off))"
    using car off s(5) by simp
  show "off_mcfg off = Some s \<Longrightarrow> mcfg_total_size (c_ecam_count c) = Inr (sl_len s)"
    using opt(1) off by (auto split: if_splits)
  show "off_spcr off = Some s \<Longrightarrow> c_has_serial c \<and> sl_len s = SPCR_SIZE"
    using opt(2) off by (auto split: if_splits)
  show "off_srat off = Some s \<Longrightarrow> c_has_numa c \<and>
      srat_total_size (c_memory_region_count c) (c_cpu_entries_bytes c) = Inr (sl_len s)"
    using opt(3) off by (auto split: if_splits)
  show "off_slit off = Some s \<Longrightarrow> c_has_numa c \<and> c_has_distances c \<and> slit_total_size nd = Inr (sl_len s)"
    using opt(4) off by (auto split: if_splits)
  have "ne = length (xsdt_targets off)"
    using s(11) off by (auto simp: xsdt_targets_def result_simps checked_simps)
  moreover have "n8 = 36 + 8 * ne"
    using s(12) by (auto simp: xsdt_total_size_def result_simps checked_simps XSDT_ENTRY_SIZE_def SDT_HEADER_SIZE_def)
  ultimately show "sl_len (off_xsdt off) = 36 + 8 * length (xsdt_targets off)" using car off by simp
qed

end
