(* ===== verification/Populate.thy ===== *)
theory Populate
  imports Count
begin

text \<open>
  \<open>acpi_buffer.rs\<close>: \<open>AcpiBuffer::populate\<close>, which counts, checks the size of the
  buffer and lets each table module write its slot.

  \<open>filled f s buf\<close> says that the bytes of slot \<open>s\<close> are what the table module \<open>f\<close>
  made of a slice of that length; \<open>writes_filled\<close> shows that a run over consecutive slots
  leaves every slot filled and the rest of the buffer as it was. Through the interpretations of
  \<open>table_emitter\<close> this gives the properties of the image: its layout, its tables and the
  pointers between them.
\<close>

section \<open>populate\<close>

definition in_opt_slot :: "slot option \<Rightarrow> (bytes \<Rightarrow> dtb_error + bytes) \<Rightarrow> bytes \<Rightarrow> dtb_error + bytes" where
  "in_opt_slot m f buf = (case m of None \<Rightarrow> Inr buf | Some s \<Rightarrow> in_slot s f buf)"

definition emit_tables ::
  "('n, 'p) dt_view \<Rightarrow> oem_identity \<Rightarrow> u64 \<Rightarrow> offsets \<Rightarrow> fadt_plan \<Rightarrow> u32 \<Rightarrow> cpu_cache \<Rightarrow> domains
    \<Rightarrow> bytes \<Rightarrow> dtb_error + bytes" where
  "emit_tables V oem base_gpa off plan lapic_base cache doms buf =
    rbind (in_slot (off_rsdp off) (\<lambda>b. rbind (slot_gpa (off_xsdt off) base_gpa) (\<lambda>g. rsdp_emit g oem b)) buf) (\<lambda>buf.
    rbind (in_slot (off_dsdt off) (dsdt_emit oem (sleep_value plan) V) buf) (\<lambda>buf.
    rbind (in_slot (off_fadt off) (\<lambda>b. rbind (slot_gpa (off_dsdt off) base_gpa) (\<lambda>g. fadt_emit g plan oem b)) buf) (\<lambda>buf.
    rbind (in_slot (off_madt off) (madt_emit oem V lapic_base cache) buf) (\<lambda>buf.
    rbind (in_opt_slot (off_mcfg off) (mcfg_emit oem V) buf) (\<lambda>buf.
    rbind (in_opt_slot (off_spcr off) (spcr_emit oem V) buf) (\<lambda>buf.
    rbind (in_opt_slot (off_srat off) (srat_emit oem V cache) buf) (\<lambda>buf.
    rbind (in_opt_slot (off_slit off) (slit_emit oem V doms) buf) (\<lambda>buf.
      in_slot (off_xsdt off) (xsdt_emit oem base_gpa off) buf))))))))"

definition populate ::
  "('n, 'p) dt_view \<Rightarrow> oem_identity \<Rightarrow> u64 \<Rightarrow> bytes \<Rightarrow> emit_error + nat \<times> bytes" where
  "populate V oem base_gpa buf =
    rbind (map_err EmitDtb (count_run V cpu_cache_new domains_new)) (\<lambda>((off, plan, lapic_base), cache, doms).
      if length buf < off_total off then Inl (BufferTooSmall (off_total off) (length buf))
      else rbind (map_err EmitDtb (emit_tables V oem base_gpa off plan lapic_base cache doms buf))
             (\<lambda>buf'. Inr (off_total off, buf')))"

section \<open>Writing consecutive slots\<close>

definition slot_bytes :: "bytes \<Rightarrow> slot \<Rightarrow> bytes" where
  "slot_bytes buf s = take (sl_len s) (drop (sl_offset s) buf)"

definition filled :: "(bytes \<Rightarrow> dtb_error + bytes) \<Rightarrow> slot \<Rightarrow> bytes \<Rightarrow> bool" where
  "filled f s buf = (\<exists>b. length b = sl_len s \<and> f b = Inr (slot_bytes buf s))"

definition keeps_length :: "(bytes \<Rightarrow> dtb_error + bytes) \<Rightarrow> slot \<Rightarrow> bool" where
  "keeps_length f s = (\<forall>b t. length b = sl_len s \<longrightarrow> f b = Inr t \<longrightarrow> length t = sl_len s)"

definition writes :: "(slot \<times> (bytes \<Rightarrow> dtb_error + bytes)) list \<Rightarrow> bytes \<Rightarrow> dtb_error + bytes" where
  "writes ws buf = try_fold (\<lambda>b (s, f). in_slot s f b) buf ws"

lemma in_slot_Inr:
  assumes "in_slot s f buf = Inr buf'" and "keeps_length f s"
  shows "sl_offset s + sl_len s \<le> length buf" and "length buf' = length buf" and "filled f s buf'"
    and "\<And>a m. a + m \<le> sl_offset s \<Longrightarrow> take m (drop a buf') = take m (drop a buf)"
    and "\<And>a m. sl_offset s + sl_len s \<le> a \<Longrightarrow> take m (drop a buf') = take m (drop a buf)"
proof -
  from assms(1) obtain b b' where c: "carve_in s buf = Inr b" and f: "f b = Inr b'"
    and buf': "buf' = copy_at buf (sl_offset s) b'"
    by (auto simp: in_slot_def result_simps)
  have le: "sl_offset s + sl_len s \<le> length buf" and b: "b = take (sl_len s) (drop (sl_offset s) buf)"
    using c by (auto simp: carve_in_def result_simps checked_simps get_range_def split: if_splits)
  have lb: "length b = sl_len s" using le b by simp
  have lb': "length b' = sl_len s" using assms(2) lb f by (simp add: keeps_length_def)
  show "sl_offset s + sl_len s \<le> length buf" "length buf' = length buf" using le lb' by (simp_all add: buf')
  have "slot_bytes buf' s = b'"
    using take_drop_copy_at [of "sl_offset s" b' buf] le lb' by (simp add: slot_bytes_def buf')
  then show "filled f s buf'" using f lb by (auto simp: filled_def)
  show "take m (drop a buf') = take m (drop a buf)" if "a + m \<le> sl_offset s" for a m
    unfolding buf' by (rule copy_at_disjoint_before) (use that le in auto)
  show "take m (drop a buf') = take m (drop a buf)" if "sl_offset s + sl_len s \<le> a" for a m
    unfolding buf' by (rule copy_at_disjoint_after) (use that le lb' in auto)
qed

lemma filled_cong: "slot_bytes buf' s = slot_bytes buf s \<Longrightarrow> filled f s buf' = filled f s buf"
  by (simp add: filled_def)

lemma writes_filled:
  assumes "writes ws buf = Inr buf'" and "consecutive cur (map fst ws) fin"
    and "\<forall>(s, f)\<in>set ws. keeps_length f s"
  shows "length buf' = length buf \<and> (\<forall>(s, f)\<in>set ws. filled f s buf') \<and> cur \<le> fin \<and>
    (\<forall>a m. a + m \<le> cur \<longrightarrow> take m (drop a buf') = take m (drop a buf)) \<and>
    (\<forall>a m. fin \<le> a \<longrightarrow> take m (drop a buf') = take m (drop a buf))"
  using assms
proof (induction ws arbitrary: cur buf)
  case Nil
  then show ?case by (simp add: writes_def)
next
  case (Cons w ws)
  obtain s f where w: "w = (s, f)" by (cases w)
  from Cons.prems(1) obtain buf1 where b1: "in_slot s f buf = Inr buf1" and r: "writes ws buf1 = Inr buf'"
    by (auto simp: writes_def w result_simps)
  have off: "sl_offset s = cur" and cons: "consecutive (cur + sl_len s) (map fst ws) fin"
    and k: "keeps_length f s" using Cons.prems(2,3) by (simp_all add: w)
  note i = in_slot_Inr [OF b1 k]
  have IH: "length buf' = length buf1" "\<forall>(s, f)\<in>set ws. filled f s buf'" "cur + sl_len s \<le> fin"
    "\<And>a m. a + m \<le> cur + sl_len s \<Longrightarrow> take m (drop a buf') = take m (drop a buf1)"
    "\<And>a m. fin \<le> a \<Longrightarrow> take m (drop a buf') = take m (drop a buf1)"
    using Cons.IH [OF r cons] Cons.prems(3) by simp_all
  have "slot_bytes buf' s = slot_bytes buf1 s" unfolding slot_bytes_def by (rule IH(4)) (simp add: off)
  then have "filled f s buf'" using i(3) filled_cong by blast
  then show ?case using IH i(2,4,5) off by (simp add: w)
qed

lemma writes_Nil [simp]: "writes [] buf = Inr buf"
  by (simp add: writes_def)

lemma writes_append: "writes (xs @ ys) = (\<lambda>buf. rbind (writes xs buf) (writes ys))"
  unfolding writes_def by (simp add: try_fold_append)

lemma writes_single: "writes [(s, f)] = in_slot s f"
proof
  show "writes [(s, f)] buf = in_slot s f buf" for buf
    by (cases "in_slot s f buf") (simp_all add: writes_def)
qed

definition opt_writes :: "slot option \<Rightarrow> (bytes \<Rightarrow> dtb_error + bytes) \<Rightarrow> (slot \<times> (bytes \<Rightarrow> dtb_error + bytes)) list" where
  "opt_writes m f = (case m of None \<Rightarrow> [] | Some s \<Rightarrow> [(s, f)])"

lemma writes_opt: "writes (opt_writes m f) = in_opt_slot m f"
  by (cases m) (simp_all add: opt_writes_def in_opt_slot_def writes_single fun_eq_iff)

lemma fst_opt_writes: "map fst (opt_writes m f) = option_slots [m]"
  by (cases m) (simp_all add: opt_writes_def)

lemma set_opt_writes: "(s, g) \<in> set (opt_writes m f) \<longleftrightarrow> m = Some s \<and> g = f"
  by (cases m) (auto simp: opt_writes_def)

section \<open>The slots of the image\<close>

definition table_writes ::
  "('n, 'p) dt_view \<Rightarrow> oem_identity \<Rightarrow> u64 \<Rightarrow> offsets \<Rightarrow> fadt_plan \<Rightarrow> u32 \<Rightarrow> cpu_cache \<Rightarrow> domains
    \<Rightarrow> (slot \<times> (bytes \<Rightarrow> dtb_error + bytes)) list" where
  "table_writes V oem base_gpa off plan lapic_base cache doms =
    [(off_rsdp off, \<lambda>b. rbind (slot_gpa (off_xsdt off) base_gpa) (\<lambda>g. rsdp_emit g oem b))] @
    [(off_dsdt off, dsdt_emit oem (sleep_value plan) V)] @
    [(off_fadt off, \<lambda>b. rbind (slot_gpa (off_dsdt off) base_gpa) (\<lambda>g. fadt_emit g plan oem b))] @
    [(off_madt off, madt_emit oem V lapic_base cache)] @
    opt_writes (off_mcfg off) (mcfg_emit oem V) @ opt_writes (off_spcr off) (spcr_emit oem V) @
    opt_writes (off_srat off) (srat_emit oem V cache) @ opt_writes (off_slit off) (slit_emit oem V doms) @
    [(off_xsdt off, xsdt_emit oem base_gpa off)]"

lemma emit_tables_writes:
  "emit_tables V oem base_gpa off plan lapic_base cache doms buf =
    writes (table_writes V oem base_gpa off plan lapic_base cache doms) buf"
  unfolding emit_tables_def table_writes_def
  by (simp only: writes_append writes_opt writes_single)

lemma map_fst_table_writes:
  "map fst (table_writes V oem base_gpa off plan lapic_base cache doms) = slots_of off"
  by (simp add: table_writes_def slots_of_def fst_opt_writes option_slots_def)

context table_emitter
begin

lemma keeps: "size_ok (sl_len s) \<Longrightarrow> keeps_length emit s"
  unfolding keeps_length_def by (metis emit_length)

lemma filled_table: "filled emit s buf \<Longrightarrow> size_ok (sl_len s) \<Longrightarrow> table_ok signature revn oem (slot_bytes buf s)"
  unfolding filled_def by (metis emit_table)

end

section \<open>What counting leaves to emitting\<close>

lemma count_memory_domains:
  assumes "count_memory_step V w c = Inr w'" and "domains_ok (mw_domains w)"
  shows "domains_ok (mw_domains w')" and "set (domains_ids (mw_domains w)) \<subseteq> set (domains_ids (mw_domains w'))"
    and "property_u32_opt V c ''numa-node-id'' = Inr (Some pd) \<Longrightarrow> pd \<in> set (domains_ids (mw_domains w'))"
proof -
  from assms(1) obtain tag tagged d where tag: "property_u32_opt V c ''numa-node-id'' = Inr tag"
    and t: "(case tag of None \<Rightarrow> Inr (mw_tagged_count w, mw_domains w)
           | Some pd \<Rightarrow>
              if pd = NUMA_TAG_NONE then Inl (ValueOutOfRange SiteMemory ''numa-node-id'')
              else rbind (count_u32 (mw_tagged_count w)) (\<lambda>tagged.
                   rbind (domains_insert (mw_domains w) pd) (\<lambda>d. Inr (tagged, d)))) = Inr (tagged, d)"
    and d: "mw_domains w' = d"
    by (auto simp: count_memory_step_def result_simps)
  have "domains_ok d \<and> set (domains_ids (mw_domains w)) \<subseteq> set (domains_ids d) \<and>
      (\<forall>pd. tag = Some pd \<longrightarrow> pd \<in> set (domains_ids d))"
  proof (cases tag)
    case None
    then show ?thesis using t assms(2) by simp
  next
    case (Some pd)
    then have "domains_insert (mw_domains w) pd = Inr d" using t by (auto simp: result_simps split: if_splits)
    from domains_insert_Inr [OF this assms(2)] Some show ?thesis by auto
  qed
  then show "domains_ok (mw_domains w')" "set (domains_ids (mw_domains w)) \<subseteq> set (domains_ids (mw_domains w'))"
    "property_u32_opt V c ''numa-node-id'' = Inr (Some pd) \<Longrightarrow> pd \<in> set (domains_ids (mw_domains w'))"
    using d tag by auto
qed

lemma count_memories_domains:
  assumes "try_fold (count_memory_step V) w cs = Inr w'" and "domains_ok (mw_domains w)"
  shows "domains_ok (mw_domains w') \<and> set (domains_ids (mw_domains w)) \<subseteq> set (domains_ids (mw_domains w')) \<and>
    (\<forall>c\<in>set cs. \<forall>pd. property_u32_opt V c ''numa-node-id'' = Inr (Some pd) \<longrightarrow> pd \<in> set (domains_ids (mw_domains w')))"
  using assms
proof (induction cs arbitrary: w)
  case (Cons c cs)
  from Cons.prems(1) obtain w1 where s: "count_memory_step V w c = Inr w1"
    and r: "try_fold (count_memory_step V) w1 cs = Inr w'" by (auto simp: result_simps)
  note a = count_memory_domains [OF s Cons.prems(2)]
  from Cons.IH [OF r a(1)] a(2,3) show ?case by auto
qed simp

lemma count_numa_domains:
  assumes "count_numa V n cw d0 = Inr (r, d)" and "domains_ok d0"
  shows "domains_ok d" and "set (domains_ids d0) \<subseteq> set (domains_ids d)"
    and "children V n = Inr cs \<Longrightarrow> c \<in> set (named_nodes V ''memory'' cs) \<Longrightarrow>
      property_u32_opt V c ''numa-node-id'' = Inr (Some pd) \<Longrightarrow> pd \<in> set (domains_ids d)"
proof -
  let ?w0 = "\<lparr>mw_region_count = 0, mw_tagged_count = 0, mw_total_count = 0, mw_domains = d0\<rparr>"
  from assms(1) obtain cs' w where cs': "children V n = Inr cs'"
    and l: "try_fold (count_memory_step V) ?w0 (named_nodes V ''memory'' cs') = Inr w" and d: "d = mw_domains w"
    by (auto simp: count_numa_def result_simps for_named_eq Let_def split: if_splits)
  from count_memories_domains [OF l] assms(2) d cs'
  show "domains_ok d" "set (domains_ids d0) \<subseteq> set (domains_ids d)"
    "children V n = Inr cs \<Longrightarrow> c \<in> set (named_nodes V ''memory'' cs) \<Longrightarrow>
      property_u32_opt V c ''numa-node-id'' = Inr (Some pd) \<Longrightarrow> pd \<in> set (domains_ids d)"
    by auto
qed

text \<open>The layout of a counted tree, as the table modules see it.\<close>

definition counted ::
  "('n, 'p) dt_view \<Rightarrow> offsets \<Rightarrow> fadt_plan \<Rightarrow> u32 \<Rightarrow> cpu_cache \<Rightarrow> domains \<Rightarrow> cpu_walk \<Rightarrow> u32 \<Rightarrow> u32
    \<Rightarrow> bool \<times> u32 \<times> bool \<Rightarrow> bool" where
  "counted V off plan lb cache doms w ioapics ecams numa =
    (\<exists>k d0 mb pc se vi serial.
      walk_inv (w, k, d0, cache) \<and> unat k > 0 \<and>
      count_intc V (root_of (tree_root V)) = Inr (lb, ioapics) \<and>
      extract_fadt V (root_of (tree_root V)) = Inr plan \<and>
      count_mcfg V (root_of (tree_root V)) = Inr ecams \<and>
      motherboard_dsdt_total_bytes V = Inr mb \<and> pci_dsdt_total_bytes V = Inr pc \<and>
      serial_dsdt_total_bytes V = Inr se \<and> virtio_dsdt_total_bytes V = Inr vi \<and>
      spcr_present V = Inr serial \<and>
      count_numa V (root_of (tree_root V)) w d0 = Inr (numa, doms) \<and>
      offsets_new \<lparr>c_vcpu_entries_bytes = cw_vcpu_entries_bytes w,
              c_cpu_entries_bytes = cw_cpu_entries_bytes w, c_ioapic_count = ioapics,
              c_ecam_count = ecams, c_pci_dsdt_bytes = pc,
              c_motherboard_dsdt_bytes = mb, c_serial_dsdt_bytes = se,
              c_virtio_mmio_dsdt_bytes = vi, c_has_serial = serial, c_has_numa = fst numa,
              c_memory_region_count = fst (snd numa), c_has_distances = snd (snd numa)\<rparr> (domains_len doms) = Inr off)"

lemma count_run_Inr:
  assumes "count_run V cpu_cache_new domains_new = Inr ((off, plan, lb), cache, doms)"
  obtains w ioapics ecams numa where "counted V off plan lb cache doms w ioapics ecams numa"
proof -
  from assms obtain w d0 ioapics ecams mb pc se vi serial numa regions dist where
    w: "walk_cpus V (root_of (tree_root V)) domains_new cpu_cache_new = Inr (w, d0, cache)"
    and c: "count_intc V (root_of (tree_root V)) = Inr (lb, ioapics)"
      "extract_fadt V (root_of (tree_root V)) = Inr plan" "count_mcfg V (root_of (tree_root V)) = Inr ecams"
      "motherboard_dsdt_total_bytes V = Inr mb" "pci_dsdt_total_bytes V = Inr pc"
      "serial_dsdt_total_bytes V = Inr se" "virtio_dsdt_total_bytes V = Inr vi" "spcr_present V = Inr serial"
      "count_numa V (root_of (tree_root V)) w d0 = Inr ((numa, regions, dist), doms)"
    and o: "offsets_new \<lparr>c_vcpu_entries_bytes = cw_vcpu_entries_bytes w,
              c_cpu_entries_bytes = cw_cpu_entries_bytes w, c_ioapic_count = ioapics,
              c_ecam_count = ecams, c_pci_dsdt_bytes = pc,
              c_motherboard_dsdt_bytes = mb, c_serial_dsdt_bytes = se,
              c_virtio_mmio_dsdt_bytes = vi, c_has_serial = serial, c_has_numa = numa,
              c_memory_region_count = regions, c_has_distances = dist\<rparr> (domains_len doms) = Inr off"
    unfolding count_run_def Let_def by (auto simp: rbind_eq_Inr)
  have "cache_ok cpu_cache_new" "cache_list cpu_cache_new = []" "domains_ok domains_new"
    by (simp_all add: domains_ok_new cache_ok_def cpu_cache_new_def cache_list_def cpu_cache_entries_def)
  from walk_cpus_Inr [OF w this] obtain k where "unat k > 0" "walk_inv (w, k, d0, cache)" by blast
  with c o have "counted V off plan lb cache doms w ioapics ecams (numa, regions, dist)"
    unfolding counted_def fst_conv snd_conv by blast
  then show ?thesis by (rule that)
qed

lemma counted_layout: "counted V off plan lb cache doms w io ec numa \<Longrightarrow> consecutive 0 (slots_of off) (off_total off)"
  unfolding counted_def by (elim exE conjE) (rule offsets_new_Inr(1))

lemma counted_slots:
  assumes "counted V off plan lb cache doms w io ec numa"
  shows "sl_len (off_rsdp off) = RSDP_SIZE" and "sl_len (off_fadt off) = FADT_SIZE"
    and "\<exists>mb pc se vi. motherboard_dsdt_total_bytes V = Inr mb \<and>
      pci_dsdt_total_bytes V = Inr pc \<and> serial_dsdt_total_bytes V = Inr se \<and>
      virtio_dsdt_total_bytes V = Inr vi \<and> sl_len (off_dsdt off) = 49 + mb + pc + se + vi"
    and "madt_total_size io (cw_vcpu_entries_bytes w) = Inr (sl_len (off_madt off))"
    and "off_mcfg off = Some s \<Longrightarrow> mcfg_total_size ec = Inr (sl_len s)"
    and "off_spcr off = Some s \<Longrightarrow> sl_len s = SPCR_SIZE"
    and "off_srat off = Some s \<Longrightarrow> fst numa \<and> srat_total_size (fst (snd numa)) (cw_cpu_entries_bytes w) = Inr (sl_len s)"
    and "off_slit off = Some s \<Longrightarrow> sl_len s = 44 + unat (domains_len doms) * unat (domains_len doms)"
    and "sl_len (off_xsdt off) = 36 + 8 * length (xsdt_targets off)"
proof -
  from assms obtain mb pc se vi serial where
    t: "motherboard_dsdt_total_bytes V = Inr mb" "pci_dsdt_total_bytes V = Inr pc"
      "serial_dsdt_total_bytes V = Inr se" "virtio_dsdt_total_bytes V = Inr vi"
    and o: "offsets_new \<lparr>c_vcpu_entries_bytes = cw_vcpu_entries_bytes w,
              c_cpu_entries_bytes = cw_cpu_entries_bytes w, c_ioapic_count = io,
              c_ecam_count = ec, c_pci_dsdt_bytes = pc,
              c_motherboard_dsdt_bytes = mb, c_serial_dsdt_bytes = se,
              c_virtio_mmio_dsdt_bytes = vi, c_has_serial = serial, c_has_numa = fst numa,
              c_memory_region_count = fst (snd numa), c_has_distances = snd (snd numa)\<rparr> (domains_len doms) = Inr off"
    unfolding counted_def by blast
  note n = offsets_new_Inr [OF o, simplified counts.simps]
  show "sl_len (off_rsdp off) = RSDP_SIZE" "sl_len (off_fadt off) = FADT_SIZE"
    "madt_total_size io (cw_vcpu_entries_bytes w) = Inr (sl_len (off_madt off))"
    "sl_len (off_xsdt off) = 36 + 8 * length (xsdt_targets off)"
    by (rule n)+
  show "\<exists>mb pc se vi. motherboard_dsdt_total_bytes V = Inr mb \<and>
      pci_dsdt_total_bytes V = Inr pc \<and> serial_dsdt_total_bytes V = Inr se \<and>
      virtio_dsdt_total_bytes V = Inr vi \<and> sl_len (off_dsdt off) = 49 + mb + pc + se + vi"
    using dsdt_size_Inr [OF n(3)] t by simp
  show "off_mcfg off = Some s \<Longrightarrow> mcfg_total_size ec = Inr (sl_len s)" by (rule n(6))
  show "off_spcr off = Some s \<Longrightarrow> sl_len s = SPCR_SIZE" using n(7) by blast
  show "off_srat off = Some s \<Longrightarrow> fst numa \<and> srat_total_size (fst (snd numa)) (cw_cpu_entries_bytes w) = Inr (sl_len s)"
    by (rule n(8))
  show "off_slit off = Some s \<Longrightarrow> sl_len s = 44 + unat (domains_len doms) * unat (domains_len doms)"
    using n(9) [of s] by (auto simp: slit_total_size_def Let_def result_simps checked_simps SLIT_HEADER_SIZE_def)
qed

lemma counted_states:
  assumes "counted V off plan lb cache doms w io ec numa"
  shows "cache_ok cache" and "domains_ok doms"
proof -
  from assms obtain k d0 where wi: "walk_inv (w, k, d0, cache)"
    and cn: "count_numa V (root_of (tree_root V)) w d0 = Inr (numa, doms)"
    unfolding counted_def by blast
  then show "cache_ok cache" by (simp add: walk_inv_def)
  show "domains_ok doms" by (rule count_numa_domains(1) [OF cn]) (use wi in \<open>simp add: walk_inv_def\<close>)
qed

section \<open>The image\<close>

lemma rsdp_keeps:
  assumes "oem_ok oem" and "sl_len s = RSDP_SIZE"
  shows "keeps_length (\<lambda>b. rbind r (\<lambda>g. rsdp_emit g oem b)) s"
  unfolding keeps_length_def using rsdp_emit_eq [OF assms(1)] assms(2) by (fastforce simp: rbind_eq_Inr)

lemma fadt_keeps:
  assumes "oem_ok oem" and "sl_len s = FADT_SIZE"
  shows "keeps_length (\<lambda>b. rbind r (\<lambda>g. fadt_emit g plan oem b)) s"
  unfolding keeps_length_def using fadt_emit_table [OF assms(1)] assms(2) by (fastforce simp: rbind_eq_Inr)

lemma consecutive_bound: "consecutive cur ss fin \<Longrightarrow> s \<in> set ss \<Longrightarrow> cur \<le> sl_offset s \<and> sl_offset s + sl_len s \<le> fin"
proof (induction ss arbitrary: cur)
  case (Cons t ss)
  have le: "cur \<le> fin" if "consecutive cur us fin" for cur us
    using that by (induction us arbitrary: cur) (auto dest: add_leD1)
  show ?case
  proof (cases "s = t")
    case True
    then show ?thesis using Cons.prems(1) le [of "cur + sl_len t" ss] by simp
  next
    case False
    then show ?thesis using Cons.IH [of "cur + sl_len t"] Cons.prems by simp
  qed
qed simp

lemma table_writes_keep:
  assumes c: "counted V off plan lb cache doms w io ec numa" and oem: "oem_ok oem"
    and fit: "off_total off \<le> length buf" "length buf < 2 ^ 32"
  shows "\<forall>(s, f)\<in>set (table_writes V oem base_gpa off plan lb cache doms). keeps_length f s"
proof -
  note l = counted_slots [OF c] and st = counted_states(2) [OF c] and cons = counted_layout [OF c]
  have small: "sl_len s < 2 ^ 32" if "s \<in> set (slots_of off)" for s
    using consecutive_bound [OF cons that] fit by simp
  have d: "sl_len (off_dsdt off) < 2 ^ 32" by (rule small) (simp add: slots_of_def)
  have x: "sl_len (off_xsdt off) < 2 ^ 32" by (rule small) (simp add: slots_of_def)
  have at_least: "44 \<le> sl_len (off_madt off)" "off_mcfg off = Some s \<Longrightarrow> 44 \<le> sl_len s"
    "off_srat off = Some s \<Longrightarrow> 48 \<le> sl_len s" for s
    using l(4) l(5,7) [of s] by (auto simp: madt_total_size_def mcfg_total_size_def srat_total_size_def result_simps
        checked_simps MADT_HEADER_SIZE_def MCFG_HEADER_SIZE_def SRAT_HEADER_SIZE_def)
  show ?thesis
    unfolding table_writes_def
    using oem l(1,2,6,8,9) d x l(3) at_least st
    by (simp add: ball_Un, intro conjI)
      (auto simp: set_opt_writes intro!: rsdp_keeps fadt_keeps dsdt_table.keeps madt_table.keeps
        mcfg_table.keeps spcr_table.keeps srat_table.keeps slit_table.keeps xsdt_table.keeps)
qed

lemma emit_tables_Inr:
  assumes c: "counted V off plan lb cache doms w io ec numa" and oem: "oem_ok oem"
    and em: "emit_tables V oem base_gpa off plan lb cache doms buf = Inr buf'"
    and fit: "off_total off \<le> length buf" "length buf < 2 ^ 32"
  shows "length buf' = length buf" and "drop (off_total off) buf' = drop (off_total off) buf"
    and "\<forall>(s, f)\<in>set (table_writes V oem base_gpa off plan lb cache doms). filled f s buf'"
proof -
  let ?ws = "table_writes V oem base_gpa off plan lb cache doms"
  note r = writes_filled [OF em [unfolded emit_tables_writes]
      counted_layout [OF c, folded map_fst_table_writes [of V oem base_gpa off plan lb cache doms]]
      table_writes_keep [OF c oem fit]]
  show "length buf' = length buf" "\<forall>(s, f)\<in>set ?ws. filled f s buf'" using r by blast+
  have "take (length buf) (drop (off_total off) buf') = take (length buf) (drop (off_total off) buf)" using r by blast
  then show "drop (off_total off) buf' = drop (off_total off) buf" using r by simp
qed

section \<open>Failing\<close>

lemma carve_in_slot:
  assumes "sl_offset s + sl_len s \<le> length buf" and "length buf \<le> usize_max"
  shows "carve_in s buf = Inr (slot_bytes buf s)"
  using assms by (auto simp: carve_in_def slot_bytes_def usize_add_def get_range_def)

lemma writes_Inl:
  assumes "writes ws buf = Inl e" and "consecutive cur (map fst ws) fin" and "fin \<le> length buf"
    and "length buf \<le> usize_max" and "\<forall>(s, f)\<in>set ws. keeps_length f s"
  shows "\<exists>(s, f)\<in>set ws. f (slot_bytes buf s) = Inl e"
  using assms
proof (induction ws arbitrary: cur buf)
  case (Cons w ws)
  obtain s f where w: "w = (s, f)" by (cases w)
  have off: "sl_offset s = cur" and cons: "consecutive (cur + sl_len s) (map fst ws) fin"
    and k: "keeps_length f s" using Cons.prems(2,5) by (simp_all add: w)
  have fit: "sl_offset s + sl_len s \<le> length buf"
    using consecutive_bound [OF Cons.prems(2), of s] Cons.prems(3) by (simp add: w)
  note carve = carve_in_slot [OF fit Cons.prems(4)]
  show ?case
  proof (cases "f (slot_bytes buf s)")
    case (Inl e')
    then have "e' = e" using Cons.prems(1) by (simp add: writes_def w in_slot_def carve)
    with Inl show ?thesis by (simp add: w)
  next
    case (Inr t)
    then obtain buf1 where b1: "in_slot s f buf = Inr buf1" and r: "writes ws buf1 = Inl e"
      using Cons.prems(1) by (simp add: writes_def w in_slot_def carve)
    note i = in_slot_Inr [OF b1 k]
    from Cons.IH [OF r cons] i(2) Cons.prems(3-5)
    obtain s' f' where m: "(s', f') \<in> set ws" "f' (slot_bytes buf1 s') = Inl e" by auto
    have "s' \<in> set (map fst ws)" using m(1) by force
    from consecutive_bound [OF cons this] have "slot_bytes buf1 s' = slot_bytes buf s'"
      unfolding slot_bytes_def by (intro i(5)) (simp add: off)
    with m show ?thesis by (auto simp: w)
  qed
qed (simp add: writes_def)


section \<open>The tables that cannot fail\<close>

lemma slot_gpa_Inr:
  "slot_gpa s base = Inr g \<longleftrightarrow> unat g = unat base + sl_offset s"
proof -
  have "unat g < 2 ^ 64" by (rule unat_u64_less)
  moreover have "sl_offset s < 2 ^ 64 \<Longrightarrow> unat (word_of_nat (sl_offset s) :: u64) = sl_offset s"
    by (simp add: unat_of_nat)
  ultimately show ?thesis
    by (auto simp: slot_gpa_def result_simps checked_simps split: if_splits)
qed

lemma slot_gpa_ok:
  assumes "unat base + sl_offset s < 2 ^ 64"
  shows "\<exists>g. slot_gpa s base = Inr g"
proof -
  have "unat (word_of_nat (unat base + sl_offset s) :: u64) = unat base + sl_offset s"
    unfolding unat_of_nat using assms by simp
  then show ?thesis unfolding slot_gpa_Inr by blast
qed

lemma slot_gpa_Inl:
  "slot_gpa s base = Inl e \<Longrightarrow> e = Internal \<and> 2 ^ 64 \<le> unat base + sl_offset s"
proof -
  assume e: "slot_gpa s base = Inl e"
  then have "2 ^ 64 \<le> unat base + sl_offset s" using slot_gpa_ok [of base s] by fastforce
  moreover have "e = Internal" using e by (auto simp: slot_gpa_def result_simps split: if_splits)
  ultimately show ?thesis by simp
qed

lemma xsdt_emit_Inl: "xsdt_emit oem base_gpa off slot = Inl e \<Longrightarrow> e = Internal"
  by (auto simp: xsdt_emit_def sdt_length_from_slot_def write_header_def set_sdt_checksum_def Let_def append_gpa_def result_simps
      dest!: try_fold_Inl dest: slot_gpa_Inl split: if_splits)

lemma rsdp_emit_ok:
  assumes "oem_ok oem" and "length slot = RSDP_SIZE"
  shows "\<exists>t. rsdp_emit g oem slot = Inr t"
proof -
  have u: "u32_of_len RSDP_SIZE = Some (word_of_nat RSDP_SIZE)" by (simp add: u32_of_len_def RSDP_SIZE_def)
  show ?thesis using assms
    by (simp add: rsdp_emit_def u Let_def write_header_Inr rsdp_bytes_def oem_ok_def RSDP_SIZE_def str_bytes_def)
qed

lemma fadt_emit_ok:
  assumes "oem_ok oem" and "length slot = FADT_SIZE"
  shows "\<exists>t. fadt_emit g plan oem slot = Inr t"
proof -
  have u: "u32_of_len FADT_SIZE = Some (word_of_nat FADT_SIZE)" by (simp add: u32_of_len_def FADT_SIZE_def)
  have "\<exists>s. set_sdt_checksum (copy_at slot 0 (fields_bytes (fadt_fields h a b c d k e f))) = Inr s"
    if "length (sdt_header_bytes h) = 36" for h a b c d k e f
    by (rule set_sdt_checksum_ok) (use that assms(2) in \<open>simp add: length_fadt_fields FADT_SIZE_def\<close>)
  moreover have "length (sdt_header_bytes (sdt_header_new ''FACP'' (word_of_nat FADT_SIZE) FADT_REVISION oem)) = 36"
    by (rule length_sdt_header_bytes) (simp_all add: assms(1))
  ultimately show ?thesis using assms(2)
    by (simp add: fadt_emit_def u Let_def write_header_def get_range_def length_fadt_fields)
qed

lemma xsdt_loop_ok:
  assumes "\<forall>t\<in>set ts. \<exists>g. slot_gpa t base = Inr g" and "pos + 8 * length ts \<le> length slot" and "length slot \<le> usize_max"
  shows "\<exists>r. try_fold (\<lambda>(s, pos) target. rbind (slot_gpa target base) (append_gpa s pos)) (slot, pos) ts = Inr r"
  using assms
proof (induction ts arbitrary: slot pos)
  case (Cons t ts)
  then obtain g where g: "slot_gpa t base = Inr g" by auto
  have "append_gpa slot pos g = Inr (copy_at slot pos (le_bytes 8 g), pos + 8)"
    using Cons.prems by (simp add: append_gpa_fits write_entry_eq)
  then show ?case using Cons.IH [of "pos + 8" "copy_at slot pos (le_bytes 8 g)"] Cons.prems g by simp
qed simp

lemma counted_walk:
  assumes "counted V off plan lb cache doms w io ec numa"
  shows "cw_vcpu_entries_bytes w = length (concat (map madt_cpu_bytes (cpu_cache_entries cache)))"
    and "cache_list cache \<noteq> [] \<and> snd (snd (hd (cache_list cache))) = StOkay"
    and "count_intc V (root_of (tree_root V)) = Inr (lb, io)"
    and "count_mcfg V (root_of (tree_root V)) = Inr ec"
    and "extract_fadt V (root_of (tree_root V)) = Inr plan"
    and "\<exists>d0. count_numa V (root_of (tree_root V)) w d0 = Inr (numa, doms)"
proof -
  from assms obtain k d0 where k: "walk_inv (w, k, d0, cache)" "unat k > 0"
    and c: "count_intc V (root_of (tree_root V)) = Inr (lb, io)"
      "count_mcfg V (root_of (tree_root V)) = Inr ec" "extract_fadt V (root_of (tree_root V)) = Inr plan"
      "count_numa V (root_of (tree_root V)) w d0 = Inr (numa, doms)"
    unfolding counted_def by blast
  then have "cache_list cache \<noteq> []" by (auto simp: walk_inv_def)
  with k c show "cw_vcpu_entries_bytes w = length (concat (map madt_cpu_bytes (cpu_cache_entries cache)))"
    "cache_list cache \<noteq> [] \<and> snd (snd (hd (cache_list cache))) = StOkay"
    "count_intc V (root_of (tree_root V)) = Inr (lb, io)" "count_mcfg V (root_of (tree_root V)) = Inr ec"
    "extract_fadt V (root_of (tree_root V)) = Inr plan"
    "\<exists>d0. count_numa V (root_of (tree_root V)) w d0 = Inr (numa, doms)"
    by (auto simp: walk_inv_def)
qed

lemma entries_of_list: "e \<in> set (cpu_cache_entries c) \<Longrightarrow> snd e \<in> set (cache_list c)"
  by (simp add: cache_list_def)

lemma srat_cpus_length:
  assumes "\<forall>e\<in>set (cpu_cache_entries c). fst (snd (snd e)) \<noteq> None"
  shows "length (concat (map srat_cpu_bytes (cpu_cache_entries c))) =
    sum_list (map (\<lambda>e. cpu_affinity_size_for_apic (fst e)) (cache_list c))"
proof -
  have "length (concat (map srat_cpu_bytes es)) = sum_list (map (\<lambda>e. cpu_affinity_size_for_apic (fst (snd e))) es)"
    if "\<forall>e\<in>set es. fst (snd (snd e)) \<noteq> None" for es
    using that by (induction es) (auto simp: length_srat_cpu_bytes)
  from this [OF assms] show ?thesis by (simp add: cache_list_def comp_def)
qed

lemma counted_tagged:
  assumes "counted V off plan lb cache doms w io ec numa" and "fst numa"
  shows "\<forall>e\<in>set (cpu_cache_entries cache). \<exists>pd. fst (snd (snd e)) = Some pd \<and> pd \<in> set (domains_ids doms)"
    and "cw_cpu_entries_bytes w = length (concat (map srat_cpu_bytes (cpu_cache_entries cache)))"
proof -
  from assms(1) obtain k d0 where k: "walk_inv (w, k, d0, cache)"
    and c: "count_numa V (root_of (tree_root V)) w d0 = Inr (numa, doms)"
    unfolding counted_def by blast
  obtain r d where numa: "numa = (True, r, d)" using assms(2) by (cases numa) auto
  have "unat (cw_cpu_untagged_count w) = 0" by (rule count_numa_Inr [OF c [unfolded numa]])
  then have none: "\<forall>e\<in>set (cache_list cache). fst (snd e) \<noteq> None"
    using k by (auto simp: walk_inv_def filter_empty_conv)
  have ids: "\<forall>e\<in>set (cache_list cache). \<forall>pd. fst (snd e) = Some pd \<longrightarrow> pd \<in> set (domains_ids d0)"
    and d0: "domains_ok d0"
    and cb: "cw_cpu_entries_bytes w = sum_list (map (\<lambda>e. cpu_affinity_size_for_apic (fst e)) (cache_list cache))"
    using k by (simp_all add: walk_inv_def)
  note sub = count_numa_domains(2) [OF c d0]
  show t: "\<forall>e\<in>set (cpu_cache_entries cache). \<exists>pd. fst (snd (snd e)) = Some pd \<and> pd \<in> set (domains_ids doms)"
  proof
    fix e assume "e \<in> set (cpu_cache_entries cache)"
    then have "snd e \<in> set (cache_list cache)" by (rule entries_of_list)
    with none ids sub show "\<exists>pd. fst (snd (snd e)) = Some pd \<and> pd \<in> set (domains_ids doms)" by blast
  qed
  show "cw_cpu_entries_bytes w = length (concat (map srat_cpu_bytes (cpu_cache_entries cache)))"
    unfolding cb by (rule srat_cpus_length [symmetric]) (use t in fastforce)
qed
lemma xsdt_emit_ok:
  assumes oem: "oem_ok oem" and len: "length slot = 36 + 8 * length (xsdt_targets off)" "length slot < 2 ^ 32"
    and g: "\<forall>t\<in>set (xsdt_targets off). \<exists>g. slot_gpa t base_gpa = Inr g"
  shows "\<exists>t. xsdt_emit oem base_gpa off slot = Inr t"
proof -
  let ?h = "sdt_header_bytes (sdt_header_new ''XSDT'' (word_of_nat (length slot)) XSDT_REVISION oem)"
  have lh: "length ?h = 36" by (rule length_sdt_header_bytes) (simp_all add: oem)
  have w: "write_header slot ?h = Inr (copy_at slot 0 ?h)" using lh len by (simp add: write_header_Inr)
  have l1: "length (copy_at slot 0 ?h) = length slot" using lh len by simp
  have um: "length slot \<le> usize_max" using len by (simp add: usize_max_eq)
  obtain s2 p where r: "try_fold (\<lambda>(s, pos) target. rbind (slot_gpa target base_gpa) (append_gpa s pos))
      (copy_at slot 0 ?h, 36) (xsdt_targets off) = Inr (s2, p)"
    using xsdt_loop_ok [OF g, of 36 "copy_at slot 0 ?h"] l1 len um by auto
  have "length s2 = length slot" using xsdt_loop [OF r] l1 len um by (auto simp: length_concat_map [of _ "le_bytes 8" 8] dest: map_eq_imp_length_eq)
  then obtain t where "set_sdt_checksum s2 = Inr t" using set_sdt_checksum_ok [of s2] len by auto
  then show ?thesis using w r len
    by (simp add: xsdt_emit_def sdt_length_from_slot_def u32_of_len_def SDT_HEADER_SIZE_def)
qed

lemma counted_madt:
  assumes c: "counted V off plan lb cache doms w io ec numa" and few: "unat io \<le> 255"
    and len: "length b = sl_len (off_madt off)" "sl_len (off_madt off) < 2 ^ 32" and oem: "oem_ok oem"
  shows "\<exists>t ns bs. madt_emit oem V lb cache b = Inr t \<and> ioapic_nodes V (root_of (tree_root V)) = Inr ns \<and>
    map (intc_base V) ns = map Inr bs \<and>
    drop 36 t = madt_head lb @ concat (map madt_cpu_bytes (cpu_cache_entries cache)) @ ioapics_bytes 0 0 bs"
  using madt_count_emit [OF counted_walk(3) [OF c] few counted_walk(1) [OF c] counted_slots(4) [OF c] len oem]
  by blast

lemma counted_mcfg:
  assumes c: "counted V off plan lb cache doms w io ec numa" and s: "off_mcfg off = Some s"
    and len: "length b = sl_len s" "sl_len s < 2 ^ 32" and oem: "oem_ok oem"
  shows "\<exists>t cs. mcfg_emit oem V b = Inr t \<and> children V (root_of (tree_root V)) = Inr cs \<and>
    drop 44 t = concat (map (mcfg_alloc_of V) (compatible_nodes V ''pci-host-ecam-generic'' cs))"
  using mcfg_count_emit [OF counted_walk(4) [OF c] counted_slots(5) [OF c s] len oem] by blast

lemma counted_srat:
  assumes c: "counted V off plan lb cache doms w io ec numa" and s: "off_srat off = Some s"
    and len: "length b = sl_len s" "sl_len s < 2 ^ 32" and oem: "oem_ok oem"
  shows "\<exists>t cs. srat_emit oem V cache b = Inr t \<and> children V (root_of (tree_root V)) = Inr cs \<and>
    drop 36 t = srat_head @ concat (map srat_cpu_bytes (cpu_cache_entries cache)) @
      concat (map (srat_memory_bytes V) (named_nodes V ''memory'' cs))"
proof -
  note sz = counted_slots(7) [OF c s]
  obtain regions dist where numa: "numa = (True, regions, dist)" using sz by (cases numa) auto
  obtain d0 where cn: "count_numa V (root_of (tree_root V)) w d0 = Inr ((True, regions, dist), doms)"
    using counted_walk(6) [OF c] numa by blast
  note tg = counted_tagged [OF c conjunct1 [OF sz]]
  have tags: "fst (snd (snd e)) \<noteq> None" if "e \<in> set (cpu_cache_entries cache)" for e
    using bspec [OF tg(1) that] by auto
  have "srat_total_size regions (cw_cpu_entries_bytes w) = Inr (sl_len s)" using sz numa by simp
  from srat_count_emit [OF cn tags tg(2) this len oem] show ?thesis by blast
qed

text \<open>What emitting can still fail on, once counting has succeeded and the buffer is large enough.\<close>

lemma emit_tables_Inl:
  assumes c: "counted V off plan lb cache doms w io ec numa" and oem: "oem_ok oem"
    and em: "emit_tables V oem base_gpa off plan lb cache doms buf = Inl e"
    and fit: "off_total off \<le> length buf" "length buf < 2 ^ 32"
  shows "dsdt_emit oem (sleep_value plan) V (slot_bytes buf (off_dsdt off)) = Inl e \<or>
    (\<exists>s. off_spcr off = Some s \<and> spcr_emit oem V (slot_bytes buf s) = Inl e) \<or>
    (\<exists>s. off_slit off = Some s \<and> slit_emit oem V doms (slot_bytes buf s) = Inl e) \<or>
    e = Internal \<and> (256 \<le> unat io \<or> (\<exists>s\<in>set (slots_of off). 2 ^ 64 \<le> unat base_gpa + sl_offset s))"
proof -
  let ?ws = "table_writes V oem base_gpa off plan lb cache doms"
  note l = counted_slots [OF c] and cons = counted_layout [OF c]
  have k: "\<forall>(s, f)\<in>set ?ws. keeps_length f s" by (rule table_writes_keep [OF c oem fit])
  have um: "length buf \<le> usize_max" using fit(2) by (simp add: usize_max_eq)
  from writes_Inl [OF em [unfolded emit_tables_writes] cons [folded map_fst_table_writes [of V oem base_gpa off plan lb cache doms]] fit(1) um k]
  obtain s f where sf: "(s, f) \<in> set ?ws" "f (slot_bytes buf s) = Inl e" by auto
  have "s \<in> set (map fst ?ws)" using sf(1) by force
  then have s: "s \<in> set (slots_of off)" by (simp only: map_fst_table_writes)
  have lb: "length (slot_bytes buf s) = sl_len s" "sl_len s < 2 ^ 32"
    using consecutive_bound [OF cons s] fit by (simp_all add: slot_bytes_def)
  have members: "off_dsdt off \<in> set (slots_of off)" "off_xsdt off \<in> set (slots_of off)"
    "set (xsdt_targets off) \<subseteq> set (slots_of off)"
    by (auto simp: slots_of_def xsdt_targets_def option_slots_def)
  from sf(1) consider "s = off_rsdp off" "f = (\<lambda>b. rbind (slot_gpa (off_xsdt off) base_gpa) (\<lambda>g. rsdp_emit g oem b))"
    | "s = off_dsdt off" "f = dsdt_emit oem (sleep_value plan) V"
    | "s = off_fadt off" "f = (\<lambda>b. rbind (slot_gpa (off_dsdt off) base_gpa) (\<lambda>g. fadt_emit g plan oem b))"
    | "s = off_madt off" "f = madt_emit oem V lb cache"
    | "off_mcfg off = Some s" "f = mcfg_emit oem V"
    | "off_spcr off = Some s" "f = spcr_emit oem V"
    | "off_srat off = Some s" "f = srat_emit oem V cache"
    | "off_slit off = Some s" "f = slit_emit oem V doms"
    | "s = off_xsdt off" "f = xsdt_emit oem base_gpa off"
    by (auto simp: table_writes_def set_opt_writes)
  then show ?thesis
  proof cases
    case 1
    have ok: "\<exists>t. rsdp_emit g oem (slot_bytes buf s) = Inr t" for g using rsdp_emit_ok [OF oem] lb l(1) 1(1) by simp
    have "slot_gpa (off_xsdt off) base_gpa = Inl e"
    proof (cases "slot_gpa (off_xsdt off) base_gpa")
      case (Inr g)
      then show ?thesis using ok [of g] sf(2) 1(2) by auto
    qed (use sf(2) 1(2) in simp)
    then show ?thesis using slot_gpa_Inl members(2) by blast
  next
    case 2 then show ?thesis using sf(2) by simp
  next
    case 3
    have ok: "\<exists>t. fadt_emit g plan oem (slot_bytes buf s) = Inr t" for g using fadt_emit_ok [OF oem] lb l(2) 3(1) by simp
    have "slot_gpa (off_dsdt off) base_gpa = Inl e"
    proof (cases "slot_gpa (off_dsdt off) base_gpa")
      case (Inr g)
      then show ?thesis using ok [of g] sf(2) 3(2) by auto
    qed (use sf(2) 3(2) in simp)
    then show ?thesis using slot_gpa_Inl members(1) by blast
  next
    case 4
    show ?thesis
    proof (cases "unat io \<le> 255")
      case True
      then show ?thesis using counted_madt [OF c True _ _ oem, of "slot_bytes buf s"] 4 lb sf(2) by auto
    next
      case False
      then show ?thesis using madt_emit_many [OF counted_walk(3) [OF c]] 4(2) sf(2) by simp
    qed
  next
    case 5 then show ?thesis using counted_mcfg [OF c 5(1) lb oem] sf(2) by auto
  next
    case 6 then show ?thesis using sf(2) by blast
  next
    case 7 then show ?thesis using counted_srat [OF c 7(1) lb oem] sf(2) by auto
  next
    case 8 then show ?thesis using sf(2) by blast
  next
    case 9
    have "\<not> (\<forall>t\<in>set (xsdt_targets off). \<exists>g. slot_gpa t base_gpa = Inr g)"
      using xsdt_emit_ok [OF oem, of "slot_bytes buf s" off base_gpa] lb l(9) sf(2) 9 by auto
    then obtain t where t: "t \<in> set (xsdt_targets off)" "2 ^ 64 \<le> unat base_gpa + sl_offset t"
      using slot_gpa_ok not_less by blast
    moreover have "e = Internal" using sf(2) 9(2) by (auto dest: xsdt_emit_Inl)
    ultimately show ?thesis using members(3) by blast
  qed
qed


section \<open>The properties\<close>

lemma populate_Inr:
  assumes "populate V oem base_gpa buf = Inr (n, buf')" and "oem_ok oem" and "length buf < 2 ^ 32"
  obtains off plan lb cache doms w io ec numa where
    "count_run V cpu_cache_new domains_new = Inr ((off, plan, lb), cache, doms)"
    "counted V off plan lb cache doms w io ec numa" "n = off_total off" "n \<le> length buf"
    "length buf' = length buf" "drop n buf' = drop n buf"
    "\<forall>(s, f)\<in>set (table_writes V oem base_gpa off plan lb cache doms). filled f s buf'"
proof -
  from assms(1) obtain off plan lb cache doms where
    c: "count_run V cpu_cache_new domains_new = Inr ((off, plan, lb), cache, doms)"
    and le: "off_total off \<le> length buf" and n: "n = off_total off"
    and e: "emit_tables V oem base_gpa off plan lb cache doms buf = Inr buf'"
    by (auto simp: populate_def result_simps split: if_splits)
  obtain w io ec numa where k: "counted V off plan lb cache doms w io ec numa" by (rule count_run_Inr [OF c])
  note r = emit_tables_Inr [OF k assms(2) e le assms(3)]
  show ?thesis by (rule that [OF c k n]) (use le n r in simp_all)
qed

lemma filled_members:
  assumes "\<forall>(s, f)\<in>set (table_writes V oem base_gpa off plan lb cache doms). filled f s buf'"
  shows "filled (\<lambda>b. rbind (slot_gpa (off_xsdt off) base_gpa) (\<lambda>g. rsdp_emit g oem b)) (off_rsdp off) buf'"
    and "filled (dsdt_emit oem (sleep_value plan) V) (off_dsdt off) buf'"
    and "filled (\<lambda>b. rbind (slot_gpa (off_dsdt off) base_gpa) (\<lambda>g. fadt_emit g plan oem b)) (off_fadt off) buf'"
    and "filled (madt_emit oem V lb cache) (off_madt off) buf'"
    and "off_mcfg off = Some s \<Longrightarrow> filled (mcfg_emit oem V) s buf'"
    and "off_spcr off = Some s \<Longrightarrow> filled (spcr_emit oem V) s buf'"
    and "off_srat off = Some s \<Longrightarrow> filled (srat_emit oem V cache) s buf'"
    and "off_slit off = Some s \<Longrightarrow> filled (slit_emit oem V doms) s buf'"
    and "filled (xsdt_emit oem base_gpa off) (off_xsdt off) buf'"
  using assms by (auto simp: table_writes_def opt_writes_def split: option.splits)

lemma filled_gpa:
  assumes "filled (\<lambda>b. rbind (slot_gpa s base_gpa) (\<lambda>g. f g b)) t buf"
  shows "\<exists>g. unat g = unat base_gpa + sl_offset s \<and> filled (f g) t buf"
  using assms by (auto simp: filled_def rbind_eq_Inr slot_gpa_Inr)

lemma map_gpas:
  "map (\<lambda>s. slot_gpa s base) ss = map Inr gs \<Longrightarrow> map unat gs = map (\<lambda>s. unat base + sl_offset s) ss"
  by (induction ss arbitrary: gs) (auto simp: slot_gpa_Inr)

lemma slot_sizes:
  assumes c: "counted V off plan lb cache doms w io ec numa" and fit: "off_total off \<le> length buf" "length buf < 2 ^ 32"
  shows "sl_len (off_dsdt off) < 2 ^ 32" and "sl_len (off_xsdt off) < 2 ^ 32"
    and "44 \<le> sl_len (off_madt off)" and "off_mcfg off = Some s \<Longrightarrow> 44 \<le> sl_len s" and "off_srat off = Some s \<Longrightarrow> 48 \<le> sl_len s"
    and "s \<in> set (slots_of off) \<Longrightarrow> sl_len s < 2 ^ 32"
proof -
  note l = counted_slots [OF c]
  show small: "sl_len s < 2 ^ 32" if "s \<in> set (slots_of off)" for s
    using consecutive_bound [OF counted_layout [OF c] that] fit by simp
  show "sl_len (off_dsdt off) < 2 ^ 32" by (rule small) (simp add: slots_of_def)
  show "sl_len (off_xsdt off) < 2 ^ 32" by (rule small) (simp add: slots_of_def)
  show "44 \<le> sl_len (off_madt off)" "off_mcfg off = Some s \<Longrightarrow> 44 \<le> sl_len s" "off_srat off = Some s \<Longrightarrow> 48 \<le> sl_len s"
    using l(4) l(5,7) [of s] by (auto simp: madt_total_size_def mcfg_total_size_def srat_total_size_def result_simps
        checked_simps MADT_HEADER_SIZE_def MCFG_HEADER_SIZE_def SRAT_HEADER_SIZE_def)
qed

lemma counted_memories:
  assumes "counted V off plan lb cache doms w io ec numa" and "fst numa" and "children V (root_of (tree_root V)) = Inr cs"
  shows "\<forall>c\<in>set (named_nodes V ''memory'' cs). \<exists>pd. property_u32_opt V c ''numa-node-id'' = Inr (Some pd) \<and>
    pd \<in> set (domains_ids doms)"
proof
  from assms(1) obtain k d0 where k: "walk_inv (w, k, d0, cache)"
    and c: "count_numa V (root_of (tree_root V)) w d0 = Inr (numa, doms)"
    unfolding counted_def by blast
  obtain r d where numa: "numa = (True, r, d)" using assms(2) by (cases numa) auto
  have d0: "domains_ok d0" using k by (simp add: walk_inv_def)
  have "\<forall>c\<in>set (named_nodes V ''memory'' cs). memory_ok V c"
    by (rule count_numa_Inr [OF c [unfolded numa]]) (use assms(3) in simp)
  moreover fix m assume m: "m \<in> set (named_nodes V ''memory'' cs)"
  ultimately obtain pd where "property_u32_opt V m ''numa-node-id'' = Inr (Some pd)" by (auto simp: memory_ok_def)
  with count_numa_domains(3) [OF c d0 assms(3) m this]
  show "\<exists>pd. property_u32_opt V m ''numa-node-id'' = Inr (Some pd) \<and> pd \<in> set (domains_ids doms)" by blast
qed

lemma count_run_cpus:
  assumes "count_run V cpu_cache_new domains_new = Inr ((off, plan, lb), cache, doms)"
  shows "\<exists>cpus cs. child V (root_of (tree_root V)) ''cpus'' SiteCpus = Inr (Some cpus) \<and> children V cpus = Inr cs \<and>
    map (decode_cpu_subset V) (named_nodes V ''cpu'' cs) = map Inr (cache_list cache)"
proof -
  from assms obtain w d0 where w: "walk_cpus V (root_of (tree_root V)) domains_new cpu_cache_new = Inr (w, d0, cache)"
    unfolding count_run_def Let_def by (auto simp: rbind_eq_Inr)
  show ?thesis by (rule walk_cpus_list [OF w cache_ok_new])
qed

lemma populate_errors:
  assumes err: "populate V oem base_gpa buf = Inl err" and oem: "oem_ok oem" and small: "length buf < 2 ^ 32"
  shows "case count_run V cpu_cache_new domains_new of
      Inl e \<Rightarrow> err = EmitDtb e
    | Inr ((off, plan, lb), cache, doms) \<Rightarrow>
        if length buf < off_total off then err = BufferTooSmall (off_total off) (length buf)
        else \<exists>e. err = EmitDtb e \<and>
          (dsdt_emit oem (sleep_value plan) V (slot_bytes buf (off_dsdt off)) = Inl e \<or>
           (\<exists>s. off_spcr off = Some s \<and> spcr_emit oem V (slot_bytes buf s) = Inl e) \<or>
           (\<exists>s. off_slit off = Some s \<and> slit_emit oem V doms (slot_bytes buf s) = Inl e) \<or>
           e = Internal \<and> ((\<exists>ns. ioapic_nodes V (root_of (tree_root V)) = Inr ns \<and> 255 < length ns) \<or>
             (\<exists>s\<in>set (slots_of off). 2 ^ 64 \<le> unat base_gpa + sl_offset s)))"
proof (cases "count_run V cpu_cache_new domains_new")
  case (Inl e)
  then show ?thesis using err by (simp add: populate_def)
next
  case (Inr r)
  obtain off plan lb cache doms where r: "r = ((off, plan, lb), cache, doms)" by (cases r) auto
  note run = Inr [unfolded r]
  show ?thesis
  proof (cases "length buf < off_total off")
    case True
    then show ?thesis using err run by (simp add: populate_def)
  next
    case False
    obtain w io ec numa where c: "counted V off plan lb cache doms w io ec numa" by (rule count_run_Inr [OF run])
    obtain e where e: "emit_tables V oem base_gpa off plan lb cache doms buf = Inl e" "err = EmitDtb e"
      using err run False by (cases "emit_tables V oem base_gpa off plan lb cache doms buf") (auto simp: populate_def)
    obtain ns where ns: "ioapic_nodes V (root_of (tree_root V)) = Inr ns" "unat io = length ns"
      by (rule count_intc_Inr [OF counted_walk(3) [OF c]])
    then have "256 \<le> unat io \<longrightarrow> (\<exists>ns. ioapic_nodes V (root_of (tree_root V)) = Inr ns \<and> 255 < length ns)" by auto
    then show ?thesis using emit_tables_Inl [OF c oem e(1) _ small] False e(2) run by auto
  qed
qed

lemma populate_succeeds:
  assumes "count_run V cpu_cache_new domains_new = Inr ((off, plan, lb), cache, doms)" and "oem_ok oem"
    and "ioapic_nodes V (root_of (tree_root V)) = Inr ns" and "length ns \<le> 255"
    and "off_total off \<le> length buf" and "length buf < 2 ^ 32" and "unat base_gpa + off_total off < 2 ^ 64"
    and "dsdt_emit oem (sleep_value plan) V (slot_bytes buf (off_dsdt off)) = Inr t1"
    and "\<And>s. off_spcr off = Some s \<Longrightarrow> \<exists>t. spcr_emit oem V (slot_bytes buf s) = Inr t"
    and "\<And>s. off_slit off = Some s \<Longrightarrow> \<exists>t. slit_emit oem V doms (slot_bytes buf s) = Inr t"
  shows "\<exists>n buf'. populate V oem base_gpa buf = Inr (n, buf')"
proof (cases "populate V oem base_gpa buf")
  case (Inl err)
  have "\<not> 2 ^ 64 \<le> unat base_gpa + sl_offset s" if "s \<in> set (slots_of off)" for s
  proof -
    obtain w io ec numa where "counted V off plan lb cache doms w io ec numa" by (rule count_run_Inr [OF assms(1)])
    from consecutive_bound [OF counted_layout [OF this] that] assms(7) show ?thesis by simp
  qed
  with populate_errors [OF Inl assms(2,6)] assms(1,3,4,5,8-10) show ?thesis by fastforce
next
  case (Inr r)
  then show ?thesis by (cases r) auto
qed

text \<open>C7. A successful \<open>populate\<close> uses the buffer as its documentation says: the tables lie one
  after the other from offset 0 to the returned length, without gap or overlap; the buffer keeps
  its size and every byte after that length.\<close>

theorem populate_layout:
  assumes "populate V oem base_gpa buf = Inr (n, buf')" and "oem_ok oem" and "length buf < 2 ^ 32"
  shows "\<exists>off plan lb cache doms.
    count_run V cpu_cache_new domains_new = Inr ((off, plan, lb), cache, doms) \<and>
    n = off_total off \<and> consecutive 0 (slots_of off) n \<and> n \<le> length buf \<and>
    length buf' = length buf \<and> drop n buf' = drop n buf"
  by (rule populate_Inr [OF assms]) (use counted_layout in blast)

text \<open>C9. Every table of a successful \<open>populate\<close> is well formed: its bytes sum to zero, its
  header carries the signature, the length of its slot, the revision and the OEM fields; the RSDP
  satisfies both of its checksums.\<close>

theorem populate_tables:
  assumes "populate V oem base_gpa buf = Inr (n, buf')" and "oem_ok oem" and "length buf < 2 ^ 32"
  shows "\<exists>off plan lb cache doms.
    count_run V cpu_cache_new domains_new = Inr ((off, plan, lb), cache, doms) \<and>
    sum_bytes (slot_bytes buf' (off_rsdp off)) = 0 \<and> sum_bytes (take 20 (slot_bytes buf' (off_rsdp off))) = 0 \<and>
    take 8 (slot_bytes buf' (off_rsdp off)) = str_bytes ''RSD PTR '' \<and>
    table_ok ''DSDT'' DSDT_REVISION oem (slot_bytes buf' (off_dsdt off)) \<and>
    table_ok ''FACP'' FADT_REVISION oem (slot_bytes buf' (off_fadt off)) \<and>
    table_ok ''APIC'' MADT_REVISION oem (slot_bytes buf' (off_madt off)) \<and>
    (\<forall>s. off_mcfg off = Some s \<longrightarrow> table_ok ''MCFG'' MCFG_REVISION oem (slot_bytes buf' s)) \<and>
    (\<forall>s. off_spcr off = Some s \<longrightarrow> table_ok ''SPCR'' SPCR_REVISION oem (slot_bytes buf' s)) \<and>
    (\<forall>s. off_srat off = Some s \<longrightarrow> table_ok ''SRAT'' SRAT_REVISION oem (slot_bytes buf' s)) \<and>
    (\<forall>s. off_slit off = Some s \<longrightarrow> table_ok ''SLIT'' SLIT_REVISION oem (slot_bytes buf' s)) \<and>
    table_ok ''XSDT'' XSDT_REVISION oem (slot_bytes buf' (off_xsdt off))"
proof (rule populate_Inr [OF assms])
  fix off plan lb cache doms w io ec numa
  assume run: "count_run V cpu_cache_new domains_new = Inr ((off, plan, lb), cache, doms)"
    and c: "counted V off plan lb cache doms w io ec numa" and n: "n = off_total off" "n \<le> length buf"
    and f: "\<forall>(s, f)\<in>set (table_writes V oem base_gpa off plan lb cache doms). filled f s buf'"
  note m = filled_members [OF f] and l = counted_slots [OF c] and st = counted_states(2) [OF c]
  note sz = slot_sizes [OF c n(2) [unfolded n(1)] assms(3)]
  obtain gx gd where g: "filled (\<lambda>b. rsdp_emit gx oem b) (off_rsdp off) buf'" "filled (fadt_emit gd plan oem) (off_fadt off) buf'"
    using filled_gpa [OF m(1)] filled_gpa [OF m(3)] by blast
  have r: "sum_bytes (slot_bytes buf' (off_rsdp off)) = 0 \<and> sum_bytes (take 20 (slot_bytes buf' (off_rsdp off))) = 0 \<and>
      take 8 (slot_bytes buf' (off_rsdp off)) = str_bytes ''RSD PTR ''"
    using g(1) rsdp_emit_eq [OF assms(2)] l(1) unfolding filled_def by metis
  have d: "table_ok ''DSDT'' DSDT_REVISION oem (slot_bytes buf' (off_dsdt off))"
    by (rule dsdt_table.filled_table [OF m(2)]) (use assms(2) sz(1) l(3) in simp)
  have p: "table_ok ''FACP'' FADT_REVISION oem (slot_bytes buf' (off_fadt off))"
    by (rule fadt_table.filled_table [OF g(2)]) (use assms(2) l(2) in simp)
  have a: "table_ok ''APIC'' MADT_REVISION oem (slot_bytes buf' (off_madt off))"
    by (rule madt_table.filled_table [OF m(4)]) (use assms(2) sz(3) in simp)
  have x: "table_ok ''XSDT'' XSDT_REVISION oem (slot_bytes buf' (off_xsdt off))"
    by (rule xsdt_table.filled_table [OF m(9)]) (use assms(2) sz(2) l(9) in simp)
  have o1: "table_ok ''MCFG'' MCFG_REVISION oem (slot_bytes buf' s)" if "off_mcfg off = Some s" for s
    by (rule mcfg_table.filled_table [OF m(5) [OF that]]) (use assms(2) sz(4) [OF that] in simp)
  have o2: "table_ok ''SPCR'' SPCR_REVISION oem (slot_bytes buf' s)" if "off_spcr off = Some s" for s
    by (rule spcr_table.filled_table [OF m(6) [OF that]]) (use assms(2) l(6) [OF that] in simp)
  have o3: "table_ok ''SRAT'' SRAT_REVISION oem (slot_bytes buf' s)" if "off_srat off = Some s" for s
    by (rule srat_table.filled_table [OF m(7) [OF that]]) (use assms(2) sz(5) [OF that] in simp)
  have o4: "table_ok ''SLIT'' SLIT_REVISION oem (slot_bytes buf' s)" if "off_slit off = Some s" for s
    by (rule slit_table.filled_table [OF m(8) [OF that]]) (use assms(2) l(8) [OF that] st in simp)
  show ?thesis
    by (intro exI conjI allI impI, rule run) (use r d p a x o1 o2 o3 o4 in simp_all)
qed

text \<open>C8. The pointers of the image are guest addresses without wrap-around: the RSDP names the
  XSDT, the XSDT lists exactly the FADT, the MADT and the optional tables that are present, in
  order, and the FADT names the DSDT, each at \<open>base_gpa\<close> plus its offset.\<close>

theorem populate_pointers:
  assumes "populate V oem base_gpa buf = Inr (n, buf')" and "oem_ok oem" and "length buf < 2 ^ 32"
  shows "\<exists>off plan lb cache doms gs.
    count_run V cpu_cache_new domains_new = Inr ((off, plan, lb), cache, doms) \<and>
    unat (from_le (take 8 (drop 24 (slot_bytes buf' (off_rsdp off)))) :: u64) = unat base_gpa + sl_offset (off_xsdt off) \<and>
    drop 36 (slot_bytes buf' (off_xsdt off)) = concat (map (le_bytes 8) (gs :: u64 list)) \<and>
    map unat gs = map (\<lambda>s. unat base_gpa + sl_offset s) (xsdt_targets off) \<and>
    unat (from_le (take 8 (drop 140 (slot_bytes buf' (off_fadt off)))) :: u64) = unat base_gpa + sl_offset (off_dsdt off)"
proof (rule populate_Inr [OF assms])
  fix off plan lb cache doms w io ec numa
  assume run: "count_run V cpu_cache_new domains_new = Inr ((off, plan, lb), cache, doms)"
    and c: "counted V off plan lb cache doms w io ec numa" and n: "n = off_total off" "n \<le> length buf"
    and f: "\<forall>(s, f)\<in>set (table_writes V oem base_gpa off plan lb cache doms). filled f s buf'"
  note m = filled_members [OF f] and l = counted_slots [OF c]
  note sz = slot_sizes [OF c n(2) [unfolded n(1)] assms(3)]
  obtain gx gd where g: "unat gx = unat base_gpa + sl_offset (off_xsdt off)" "filled (\<lambda>b. rsdp_emit gx oem b) (off_rsdp off) buf'"
      "unat gd = unat base_gpa + sl_offset (off_dsdt off)" "filled (fadt_emit gd plan oem) (off_fadt off) buf'"
    using filled_gpa [OF m(1)] filled_gpa [OF m(3)] by blast
  have r: "from_le (take 8 (drop 24 (slot_bytes buf' (off_rsdp off)))) = gx"
    using g(2) rsdp_emit_eq [OF assms(2)] l(1) unfolding filled_def by metis
  have p: "from_le (take 8 (drop 140 (slot_bytes buf' (off_fadt off)))) = gd"
    using g(4) fadt_emit_table [OF assms(2)] l(2) unfolding filled_def by metis
  obtain b where b: "length b = sl_len (off_xsdt off)" "xsdt_emit oem base_gpa off b = Inr (slot_bytes buf' (off_xsdt off))"
    using m(9) by (auto simp: filled_def)
  obtain gs where gs: "map (\<lambda>s. slot_gpa s base_gpa) (xsdt_targets off) = map Inr gs"
      "drop 36 (slot_bytes buf' (off_xsdt off)) = concat (map (le_bytes 8) gs)"
    using xsdt_emit_table [OF assms(2) _ _ b(2)] b(1) l(9) sz(2) by auto
  note addrs = map_gpas [OF gs(1)]
  show ?thesis
    by (intro exI conjI, rule run) (use r p g gs(2) addrs in simp_all)
qed

text \<open>\<open>populate\<close> refuses a buffer exactly when the layout that counting computed does not
  fit it, and reports both sizes.\<close>

lemma populate_too_small:
  "populate V oem base_gpa buf = Inl (BufferTooSmall needed got) \<longleftrightarrow>
    (\<exists>off rest cache doms. count_run V cpu_cache_new domains_new = Inr ((off, rest), cache, doms) \<and>
      needed = off_total off \<and> got = length buf \<and> got < needed)"
proof (cases "count_run V cpu_cache_new domains_new")
  case (Inl e)
  then show ?thesis by (simp add: populate_def)
next
  case (Inr r)
  obtain off plan lb cache doms where r: "r = ((off, plan, lb), cache, doms)" by (cases r) auto
  have "map_err EmitDtb x \<noteq> Inl (BufferTooSmall a b)" for x :: "dtb_error + bytes" and a b
    by (cases x) simp_all
  then show ?thesis using Inr r
    by (cases "emit_tables V oem base_gpa off plan lb cache doms buf") (auto simp: populate_def)
qed

text \<open>C10. The MADT of a successful \<open>populate\<close> describes the machine of the tree completely and
  in order: one local APIC entry and one NMI entry for every \<open>cpu\<close> node of \<open>/cpus\<close>, numbered from
  0, the first of them enabled, then one I/O APIC entry for every \<open>intel,ce4100-ioapic\<close> node with
  consecutive ids and interrupt bases, of which there are at most 255.\<close>

theorem populate_madt:
  assumes "populate V oem base_gpa buf = Inr (n, buf')" and "oem_ok oem" and "length buf < 2 ^ 32"
  shows "\<exists>off plan lb cache doms cpus cs ns bs.
    count_run V cpu_cache_new domains_new = Inr ((off, plan, lb), cache, doms) \<and>
    child V (root_of (tree_root V)) ''cpus'' SiteCpus = Inr (Some cpus) \<and> children V cpus = Inr cs \<and>
    map (decode_cpu_subset V) (named_nodes V ''cpu'' cs) = map Inr (cache_list cache) \<and>
    cpu_cache_entries cache = map (\<lambda>i. (word_of_nat i, cache_list cache ! i)) [0..<length (cache_list cache)] \<and>
    cache_list cache \<noteq> [] \<and> snd (snd (hd (cache_list cache))) = StOkay \<and>
    ioapic_nodes V (root_of (tree_root V)) = Inr ns \<and> map (intc_base V) ns = map Inr bs \<and> length bs \<le> 255 \<and>
    drop 36 (slot_bytes buf' (off_madt off)) =
      madt_head lb @ concat (map madt_cpu_bytes (cpu_cache_entries cache)) @ ioapics_bytes 0 0 bs"
proof (rule populate_Inr [OF assms])
  fix off plan lb cache doms w io ec numa
  assume run: "count_run V cpu_cache_new domains_new = Inr ((off, plan, lb), cache, doms)"
    and c: "counted V off plan lb cache doms w io ec numa" and n: "n = off_total off" "n \<le> length buf"
    and f: "\<forall>(s, f)\<in>set (table_writes V oem base_gpa off plan lb cache doms). filled f s buf'"
  obtain b where b: "length b = sl_len (off_madt off)" "madt_emit oem V lb cache b = Inr (slot_bytes buf' (off_madt off))"
    using filled_members(4) [OF f] by (auto simp: filled_def)
  have few: "unat io \<le> 255"
  proof (rule ccontr)
    assume "\<not> unat io \<le> 255"
    then have "256 \<le> unat io" by simp
    from madt_emit_many [OF counted_walk(3) [OF c] this] b(2) show False by simp
  qed
  have lt: "sl_len (off_madt off) < 2 ^ 32"
    by (rule slot_sizes(6) [OF c n(2) [unfolded n(1)] assms(3)]) (simp add: slots_of_def)
  obtain ns bs where ns: "ioapic_nodes V (root_of (tree_root V)) = Inr ns" "map (intc_base V) ns = map Inr bs"
      "drop 36 (slot_bytes buf' (off_madt off)) =
        madt_head lb @ concat (map madt_cpu_bytes (cpu_cache_entries cache)) @ ioapics_bytes 0 0 bs"
    using counted_madt [OF c few b(1) lt assms(2)] b(2) by auto
  have "length bs \<le> 255"
  proof -
    obtain ns' where "ioapic_nodes V (root_of (tree_root V)) = Inr ns'" "unat io = length ns'"
      by (rule count_intc_Inr [OF counted_walk(3) [OF c]])
    with few ns(1) map_eq_imp_length_eq [OF ns(2)] show ?thesis by simp
  qed
  moreover obtain cpus cs where "child V (root_of (tree_root V)) ''cpus'' SiteCpus = Inr (Some cpus)"
      "children V cpus = Inr cs" "map (decode_cpu_subset V) (named_nodes V ''cpu'' cs) = map Inr (cache_list cache)"
    using count_run_cpus [OF run] by blast
  moreover note counted_walk(2) [OF c] cpu_cache_entries_eq [OF counted_states(1) [OF c]]
  ultimately show ?thesis using run ns
    by (intro exI conjI) (assumption | simp)+
qed

text \<open>C11. When a SRAT is emitted it is complete: one affinity entry for every cpu of the cache,
  then the entries of all regions of all \<open>memory\<close> nodes; and every domain a cpu or a memory node
  names is one of the domains that index the SLIT.\<close>

theorem populate_srat:
  assumes "populate V oem base_gpa buf = Inr (n, buf')" and "oem_ok oem" and "length buf < 2 ^ 32"
  shows "\<exists>off plan lb cache doms cs.
    count_run V cpu_cache_new domains_new = Inr ((off, plan, lb), cache, doms) \<and> domains_ok doms \<and>
    (\<forall>s. off_srat off = Some s \<longrightarrow>
      children V (root_of (tree_root V)) = Inr cs \<and>
      drop 36 (slot_bytes buf' s) = srat_head @ concat (map srat_cpu_bytes (cpu_cache_entries cache)) @
        concat (map (srat_memory_bytes V) (named_nodes V ''memory'' cs)) \<and>
      (\<forall>e\<in>set (cpu_cache_entries cache). \<exists>pd. fst (snd (snd e)) = Some pd \<and> pd \<in> set (domains_ids doms)) \<and>
      (\<forall>c\<in>set (named_nodes V ''memory'' cs). \<exists>pd. property_u32_opt V c ''numa-node-id'' = Inr (Some pd) \<and>
        pd \<in> set (domains_ids doms)))"
proof (rule populate_Inr [OF assms])
  fix off plan lb cache doms w io ec numa
  assume run: "count_run V cpu_cache_new domains_new = Inr ((off, plan, lb), cache, doms)"
    and c: "counted V off plan lb cache doms w io ec numa" and n: "n = off_total off" "n \<le> length buf"
    and f: "\<forall>(s, f)\<in>set (table_writes V oem base_gpa off plan lb cache doms). filled f s buf'"
  note dok = counted_states(2) [OF c]
  show ?thesis
  proof (cases "off_srat off")
    case None
    with run dok show ?thesis by auto
  next
    case (Some s)
    obtain b where b: "length b = sl_len s" "srat_emit oem V cache b = Inr (slot_bytes buf' s)"
      using filled_members(7) [OF f Some] by (auto simp: filled_def)
    have lt: "sl_len s < 2 ^ 32"
      by (rule slot_sizes(6) [OF c n(2) [unfolded n(1)] assms(3)]) (simp add: slots_of_def Some option_slots_def)
    obtain cs where cs: "children V (root_of (tree_root V)) = Inr cs"
        "drop 36 (slot_bytes buf' s) = srat_head @ concat (map srat_cpu_bytes (cpu_cache_entries cache)) @
        concat (map (srat_memory_bytes V) (named_nodes V ''memory'' cs))"
      using counted_srat [OF c Some b(1) lt assms(2)] b(2) by auto
    note numa = counted_slots(7) [OF c Some]
    note mems = counted_memories [OF c conjunct1 [OF numa] cs(1)]
    show ?thesis
      by (intro exI conjI allI impI, rule run)
        (use dok cs mems counted_tagged(1) [OF c conjunct1 [OF numa]] Some in auto)
  qed
qed

text \<open>C12. Every way in which \<open>populate\<close> can fail, for a buffer below 4 GiB: the error of counting
  is passed on; a buffer smaller than the layout is refused with both sizes; otherwise a device of
  the DSDT, the serial console of the SPCR or the distance matrix of the SLIT is not emitted, with
  the error of that emitter, or the failure is internal, and then there are more than 255 I/O APICs or
  the guest address of a table wraps. The MCFG, SRAT, FADT, RSDP and XSDT do not fail otherwise.\<close>

theorem populate_fails_only:
  assumes "populate V oem base_gpa buf = Inl err" and "oem_ok oem" and "length buf < 2 ^ 32"
  shows "case count_run V cpu_cache_new domains_new of
      Inl e \<Rightarrow> err = EmitDtb e
    | Inr ((off, plan, lb), cache, doms) \<Rightarrow>
        if length buf < off_total off then err = BufferTooSmall (off_total off) (length buf)
        else \<exists>e. err = EmitDtb e \<and>
          (dsdt_emit oem (sleep_value plan) V (slot_bytes buf (off_dsdt off)) = Inl e \<or>
           (\<exists>s. off_spcr off = Some s \<and> spcr_emit oem V (slot_bytes buf s) = Inl e) \<or>
           (\<exists>s. off_slit off = Some s \<and> slit_emit oem V doms (slot_bytes buf s) = Inl e) \<or>
           e = Internal \<and> ((\<exists>ns. ioapic_nodes V (root_of (tree_root V)) = Inr ns \<and> 255 < length ns) \<or>
             (\<exists>s\<in>set (slots_of off). 2 ^ 64 \<le> unat base_gpa + sl_offset s)))"
  by (rule populate_errors [OF assms])


section \<open>A machine for the witnesses\<close>

text \<open>Two cpus in two NUMA domains, an x2APIC id among them, one I/O APIC, one memory node, a
  distance map, a power-off register and a PCIe host bridge.\<close>

definition demo_tree :: dnode where
  "demo_tree = DNode [] [(''#address-cells'', u32_cells [2]), (''#size-cells'', u32_cells [2])]
    [DNode ''cpus'' [(''#address-cells'', u32_cells [1]), (''#size-cells'', u32_cells [0])]
      [DNode ''cpu@0'' [(''reg'', u32_cells [0]), (''numa-node-id'', u32_cells [0])] [],
       DNode ''cpu@1'' [(''reg'', u32_cells [300]), (''numa-node-id'', u32_cells [1])] []],
     DNode ''lapic'' [(''compatible'', nul_str ''intel,ce4100-lapic''), (''reg'', u32_cells [0, 0xfee00000, 0, 0x1000])] [],
     DNode ''ioapic'' [(''compatible'', nul_str ''intel,ce4100-ioapic''), (''reg'', u32_cells [0, 0xfec00000, 0, 0x1000])] [],
     DNode ''memory'' [(''reg'', u32_cells [0, 0, 0, 0x40000000]), (''numa-node-id'', u32_cells [0])] [],
     DNode ''distance-map'' [(''distance-matrix'', u32_cells [0, 1, 20])] [],
     DNode ''poweroff'' [(''compatible'', nul_str ''syscon-poweroff''), (''reg'', u32_cells [0, 0x600, 0, 1])] [],
     DNode ''pci'' [(''compatible'', nul_str ''pci-host-ecam-generic''),
       (''reg'', u32_cells [0, 0xe0000000, 0, 0x10000000]), (''bus-range'', u32_cells [0, 254])] []]"

lemma demo_counts: "case count_run (dt_tree demo_tree) cpu_cache_new domains_new of
    Inr ((off, plan, lb), cache, doms) \<Rightarrow> off_total off = 927 \<and> sleep_value plan = 0 \<and>
      off_dsdt off = \<lparr>sl_offset = 36, sl_len = 211\<rparr> \<and> off_spcr off = None \<and>
      off_srat off = Some \<lparr>sl_offset = 675, sl_len = 128\<rparr> \<and>
      off_slit off = Some \<lparr>sl_offset = 803, sl_len = 48\<rparr> \<and> doms = demo_domains
  | Inl _ \<Rightarrow> False"
  by code_simp

lemma demo_count_run:
  "\<exists>off plan lb cache. count_run (dt_tree demo_tree) cpu_cache_new domains_new = Inr ((off, plan, lb), cache, demo_domains) \<and>
    off_total off = 927 \<and> sleep_value plan = 0 \<and> off_dsdt off = \<lparr>sl_offset = 36, sl_len = 211\<rparr> \<and>
    off_spcr off = None \<and> off_srat off = Some \<lparr>sl_offset = 675, sl_len = 128\<rparr> \<and>
    off_slit off = Some \<lparr>sl_offset = 803, sl_len = 48\<rparr>"
  using demo_counts by (auto split: sum.splits prod.splits)

lemma demo_dsdt: "\<exists>t. dsdt_emit demo_oem 0 (dt_tree demo_tree) (replicate 211 0) = Inr t"
proof -
  have "case dsdt_emit demo_oem 0 (dt_tree demo_tree) (replicate 211 0) of Inr _ \<Rightarrow> True | Inl _ \<Rightarrow> False"
    by code_simp
  then show ?thesis by (auto split: sum.splits)
qed

lemma demo_slit: "\<exists>t. slit_emit demo_oem (dt_tree demo_tree) demo_domains (replicate 48 0) = Inr t"
proof -
  have "case slit_emit demo_oem (dt_tree demo_tree) demo_domains (replicate 48 0) of Inr _ \<Rightarrow> True | Inl _ \<Rightarrow> False"
    by code_simp
  then show ?thesis by (auto split: sum.splits)
qed

lemma demo_ioapics: "\<exists>ns. ioapic_nodes (dt_tree demo_tree) (root_of demo_tree) = Inr ns \<and> length ns = 1"
proof -
  have "case ioapic_nodes (dt_tree demo_tree) (root_of demo_tree) of Inr ns \<Rightarrow> length ns = 1 | Inl _ \<Rightarrow> False"
    by code_simp
  then show ?thesis by (auto split: sum.splits)
qed

lemma tree_root_dt_tree [simp]: "tree_root (dt_tree r) = r"
  by (simp add: dt_tree_def)

lemma demo_oem_ok: "oem_ok demo_oem"
  by (simp add: oem_ok_def demo_oem_def)

lemma slot_bytes_zeros: "sl_offset s + sl_len s \<le> n \<Longrightarrow> slot_bytes (replicate n 0) s = replicate (sl_len s) 0"
  by (simp add: slot_bytes_def)

lemma demo_populate: "\<exists>n buf'. populate (dt_tree demo_tree) demo_oem 0xf0000 (replicate 1000 0) = Inr (n, buf')"
proof -
  obtain off plan lb cache where r: "count_run (dt_tree demo_tree) cpu_cache_new domains_new = Inr ((off, plan, lb), cache, demo_domains)"
    and o: "off_total off = 927" "sleep_value plan = 0" "off_dsdt off = \<lparr>sl_offset = 36, sl_len = 211\<rparr>"
      "off_spcr off = None" "off_slit off = Some \<lparr>sl_offset = 803, sl_len = 48\<rparr>"
    using demo_count_run by blast
  obtain ns where ns: "ioapic_nodes (dt_tree demo_tree) (root_of (tree_root (dt_tree demo_tree))) = Inr ns" "length ns \<le> 255"
    using demo_ioapics by auto
  obtain t where t: "dsdt_emit demo_oem 0 (dt_tree demo_tree) (replicate 211 0) = Inr t" using demo_dsdt by blast
  show ?thesis
    by (rule populate_succeeds [OF r demo_oem_ok ns])
      (use o t demo_slit in \<open>simp_all add: slot_bytes_zeros\<close>)
qed

theorem populate_layout_witness:
  "\<exists>n buf'. populate (dt_tree demo_tree) demo_oem 0xf0000 (replicate 1000 0) = Inr (n, buf') \<and>
    n = 927 \<and> length buf' = 1000 \<and> drop 927 buf' = replicate 73 0"
proof -
  obtain n buf' where p: "populate (dt_tree demo_tree) demo_oem 0xf0000 (replicate 1000 0) = Inr (n, buf')"
    using demo_populate by blast
  from populate_layout [OF p demo_oem_ok] demo_count_run
  have "n = 927" "length buf' = 1000" "drop 927 buf' = replicate 73 0" by auto
  with p show ?thesis by blast
qed

theorem populate_tables_witness:
  "\<exists>n buf'. populate (dt_tree demo_tree) demo_oem 0xf0000 (replicate 1000 0) = Inr (n, buf') \<and>
    table_ok ''DSDT'' DSDT_REVISION demo_oem (take 211 (drop 36 buf')) \<and>
    table_ok ''SRAT'' SRAT_REVISION demo_oem (take 128 (drop 675 buf')) \<and>
    table_ok ''SLIT'' SLIT_REVISION demo_oem (take 48 (drop 803 buf'))"
proof -
  obtain n buf' where p: "populate (dt_tree demo_tree) demo_oem 0xf0000 (replicate 1000 0) = Inr (n, buf')"
    using demo_populate by blast
  from populate_tables [OF p demo_oem_ok] demo_count_run
  have "table_ok ''DSDT'' DSDT_REVISION demo_oem (take 211 (drop 36 buf'))"
    "table_ok ''SRAT'' SRAT_REVISION demo_oem (take 128 (drop 675 buf'))"
    "table_ok ''SLIT'' SLIT_REVISION demo_oem (take 48 (drop 803 buf'))" by (auto simp: slot_bytes_def)
  with p show ?thesis by blast
qed

theorem populate_pointers_witness:
  "\<exists>n buf'. populate (dt_tree demo_tree) demo_oem 0xf0000 (replicate 1000 0) = Inr (n, buf') \<and>
    (\<exists>off rest. count_run (dt_tree demo_tree) cpu_cache_new domains_new = Inr ((off, rest)) \<and>
      unat (from_le (take 8 (drop 140 (slot_bytes buf' (off_fadt (fst off))))) :: u64) = 0xf0000 + 36)"
proof -
  obtain n buf' where p: "populate (dt_tree demo_tree) demo_oem 0xf0000 (replicate 1000 0) = Inr (n, buf')"
    using demo_populate by blast
  from populate_pointers [OF p demo_oem_ok] demo_count_run
  have "\<exists>off rest. count_run (dt_tree demo_tree) cpu_cache_new domains_new = Inr ((off, rest)) \<and>
      unat (from_le (take 8 (drop 140 (slot_bytes buf' (off_fadt (fst off))))) :: u64) = 0xf0000 + 36" by auto
  with p show ?thesis by blast
qed

theorem populate_madt_witness:
  "\<exists>n buf'. populate (dt_tree demo_tree) demo_oem 0xf0000 (replicate 1000 0) = Inr (n, buf') \<and>
    (\<exists>(off :: offsets) lb cpus b. drop 36 (slot_bytes buf' (off_madt off)) = madt_head lb @ cpus @ ioapics_bytes 0 0 [b])"
proof -
  obtain n buf' where p: "populate (dt_tree demo_tree) demo_oem 0xf0000 (replicate 1000 0) = Inr (n, buf')"
    using demo_populate by blast
  have small: "(1000::nat) < 2 ^ 32" by simp
  obtain off :: offsets and lb cpus ns bs where m: "ioapic_nodes (dt_tree demo_tree) (root_of demo_tree) = Inr ns"
      "map (intc_base (dt_tree demo_tree)) ns = map Inr bs"
      "drop 36 (slot_bytes buf' (off_madt off)) = madt_head lb @ cpus @ ioapics_bytes 0 0 bs"
    using populate_madt [OF p demo_oem_ok, unfolded tree_root_dt_tree length_replicate, OF small]
    by (elim exE conjE) (rule that, assumption+)
  have "length bs = 1" using demo_ioapics m(1) map_eq_imp_length_eq [OF m(2)] by auto
  then obtain b where "bs = [b]" by (auto simp: length_Suc_conv)
  with p m(3) show ?thesis by blast
qed

theorem populate_srat_witness:
  "\<exists>n buf' rest. populate (dt_tree demo_tree) demo_oem 0xf0000 (replicate 1000 0) = Inr (n, buf') \<and>
    take 128 (drop 675 buf') = take 36 (drop 675 buf') @ srat_head @ rest"
proof -
  obtain n buf' where p: "populate (dt_tree demo_tree) demo_oem 0xf0000 (replicate 1000 0) = Inr (n, buf')"
    using demo_populate by blast
  obtain rest where "drop 36 (take 128 (drop 675 buf')) = srat_head @ rest"
    using populate_srat [OF p demo_oem_ok] demo_count_run by (auto simp: slot_bytes_def)
  then have "take 128 (drop 675 buf') = take 36 (take 128 (drop 675 buf')) @ srat_head @ rest"
    by (metis append_take_drop_id)
  with p show ?thesis by (auto simp: min_def)
qed

text \<open>A virtio device without \<open>interrupts\<close>: counting accepts it, the DSDT fails on it.\<close>

definition demo_bad_tree :: dnode where
  "demo_bad_tree = DNode [] [(''#address-cells'', u32_cells [2]), (''#size-cells'', u32_cells [2])]
    [DNode ''cpus'' [(''#address-cells'', u32_cells [1]), (''#size-cells'', u32_cells [0])]
      [DNode ''cpu@0'' [(''reg'', u32_cells [0])] []],
     DNode ''lapic'' [(''compatible'', nul_str ''intel,ce4100-lapic''), (''reg'', u32_cells [0, 0xfee00000, 0, 0x1000])] [],
     DNode ''poweroff'' [(''compatible'', nul_str ''syscon-poweroff''), (''reg'', u32_cells [0, 0x600, 0, 1])] [],
     DNode ''virtio'' [(''compatible'', nul_str ''virtio,mmio''), (''reg'', u32_cells [0, 0xd0000000, 0, 0x1000])] []]"

theorem populate_fails_only_witness:
  "(\<exists>e (plan :: fadt_plan) (off :: offsets). populate (dt_tree demo_bad_tree) demo_oem 0xf0000 (replicate 1000 0) = Inl (EmitDtb e) \<and>
    dsdt_emit demo_oem (sleep_value plan) (dt_tree demo_bad_tree) (slot_bytes (replicate 1000 0) (off_dsdt off)) = Inl e) \<and>
   populate (dt_tree demo_tree) demo_oem 0xf0000 [] = Inl (BufferTooSmall 927 0)"
proof -
  have "case count_run (dt_tree demo_bad_tree) cpu_cache_new domains_new of
      Inr ((off, _), _) \<Rightarrow> off_total off \<le> 1000 \<and> off_spcr off = None \<and> off_slit off = None | Inl _ \<Rightarrow> False" by code_simp
  then obtain off plan lb cache doms where
    r: "count_run (dt_tree demo_bad_tree) cpu_cache_new domains_new = Inr ((off, plan, lb), cache, doms)"
    and o: "off_total off \<le> 1000" "off_spcr off = None" "off_slit off = None"
    by (auto split: sum.splits prod.splits)
  have "case ioapic_nodes (dt_tree demo_bad_tree) (root_of demo_bad_tree) of Inr ns \<Rightarrow> ns = [] | Inl _ \<Rightarrow> False" by code_simp
  then have ns: "ioapic_nodes (dt_tree demo_bad_tree) (root_of (tree_root (dt_tree demo_bad_tree))) = Inr []"
    by (auto split: sum.splits)
  obtain w io ec numa where "counted (dt_tree demo_bad_tree) off plan lb cache doms w io ec numa" by (rule count_run_Inr [OF r])
  note bound = consecutive_bound [OF counted_layout [OF this]]
  have no_wrap: "\<not> 2 ^ 64 \<le> unat (0xf0000 :: u64) + sl_offset s" if "s \<in> set (slots_of off)" for s
    using bound [OF that] o(1) by simp
  have "case populate (dt_tree demo_bad_tree) demo_oem 0xf0000 (replicate 1000 0) of Inl _ \<Rightarrow> True | Inr _ \<Rightarrow> False" by code_simp
  then obtain err where e: "populate (dt_tree demo_bad_tree) demo_oem 0xf0000 (replicate 1000 0) = Inl err"
    by (auto split: sum.splits)
  from populate_fails_only [OF e demo_oem_ok] r o ns no_wrap obtain d where "err = EmitDtb d"
      "dsdt_emit demo_oem (sleep_value plan) (dt_tree demo_bad_tree) (slot_bytes (replicate 1000 0) (off_dsdt off)) = Inl d"
    by auto
  moreover have "populate (dt_tree demo_tree) demo_oem 0xf0000 [] = Inl (BufferTooSmall 927 0)"
    using demo_count_run by (auto simp: populate_def)
  ultimately show ?thesis using e by blast
qed

end
