(* ===== verification/E820.thy ===== *)
theory E820
  imports Devtree
begin

text \<open>
  The crate \<open>dtb2e820\<close> (src/deps/tatu/deps/dtb2e820/src/lib.rs): the translation of a devicetree
  into the e820 memory map of the Linux x86 boot protocol.

  The caller owns the slice of entries. An operation that succeeds returns the number of entries
  written together with the updated slice; on an error the caller drops the slice, so the error
  alone is returned. The functional description is \<open>e820_listing\<close>: the entries of the tree in
  document order, up to the first malformed \<open>reg\<close>.
\<close>

section \<open>Types\<close>

datatype e820_type = E820Invalid | E820Usable | E820Reserved | E820Acpi | E820AcpiNvs
  | E820Unusable | E820Pmem | E820Pram | E820ReservedKern | E820SoftReserved

fun e820_code :: "e820_type \<Rightarrow> u32" where
  "e820_code E820Invalid = 0"
| "e820_code E820Usable = 1"
| "e820_code E820Reserved = 2"
| "e820_code E820Acpi = 3"
| "e820_code E820AcpiNvs = 4"
| "e820_code E820Unusable = 5"
| "e820_code E820Pmem = 7"
| "e820_code E820Pram = 12"
| "e820_code E820ReservedKern = 128"
| "e820_code E820SoftReserved = 0xefffffff"

record e820_entry =
  ee_addr :: u64
  ee_size :: u64
  ee_kind :: e820_type

definition e820_default :: e820_entry where
  "e820_default = \<lparr>ee_addr = 0, ee_size = 0, ee_kind = E820Invalid\<rparr>"

datatype e820_error = BufferFull | BadRegShape

section \<open>One reg property\<close>

text \<open>The second component of \<open>entry\<close> is the iterator after the call.\<close>

fun e820_entry_next :: "e820_type \<Rightarrow> u32 list \<Rightarrow> e820_error + (e820_entry option \<times> u32 list)" where
  "e820_entry_next k [] = Inr (None, [])"
| "e820_entry_next k (addr_hi # addr_lo # size_hi # size_lo # cells) =
    Inr (Some \<lparr>ee_addr = push_bit 32 (ucast addr_hi) OR ucast addr_lo,
               ee_size = push_bit 32 (ucast size_hi) OR ucast size_lo, ee_kind = k\<rparr>, cells)"
| "e820_entry_next k _ = Inl BadRegShape"

lemma e820_entry_next_shorter:
  "e820_entry_next k cells = Inr (Some e, rest) \<Longrightarrow> length rest < length cells"
  by (induction k cells rule: e820_entry_next.induct) auto

function append_loop ::
  "e820_type \<Rightarrow> u32 list \<Rightarrow> e820_entry list \<Rightarrow> nat \<Rightarrow> e820_error + (nat \<times> e820_entry list)" where
  "append_loop k cells out n =
    (case e820_entry_next k cells of
       Inl e \<Rightarrow> Inl e
     | Inr (None, rest) \<Rightarrow> Inr (n, out)
     | Inr (Some entry, rest) \<Rightarrow>
         (if n < length out then append_loop k rest (out[n := entry]) (n + 1) else Inl BufferFull))"
  by pat_completeness auto

termination append_loop
  by (relation "measure (\<lambda>(k, cells, out, n). length cells)") (auto dest: e820_entry_next_shorter)

declare append_loop.simps [simp del]

definition append_reg ::
  "('n, 'p) dt_view \<Rightarrow> e820_type \<Rightarrow> 'n \<Rightarrow> e820_entry list \<Rightarrow> e820_error + (nat \<times> e820_entry list)" where
  "append_reg V k n out =
    (case node_property V n ''reg'' of
       None \<Rightarrow> Inr (0, out)
     | Some r \<Rightarrow>
        rbind (ok_or BadRegShape (as_u32s V r)) (\<lambda>cells. append_loop k cells out 0))"

section \<open>The walk\<close>

definition e820_has_compatible :: "('n, 'p) dt_view \<Rightarrow> 'n \<Rightarrow> string \<Rightarrow> bool" where
  "e820_has_compatible V n want =
    (case node_property V n ''compatible'' of
       None \<Rightarrow> False
     | Some p \<Rightarrow> (case as_strs V p of None \<Rightarrow> False | Some ss \<Rightarrow> list_ex (\<lambda>s. s = want) ss))"

text \<open>\<open>name.split_once('@')\<close>, the part before the separator, or the whole name.\<close>

definition before_at :: "string \<Rightarrow> string" where
  "before_at name = takeWhile (\<lambda>c. c \<noteq> CHR ''@'') name"

text \<open>\<open>n += kind.append_reg(node, &mut out[n..])?\<close>\<close>

definition append_at ::
  "('n, 'p) dt_view \<Rightarrow> e820_type \<Rightarrow> nat \<times> e820_entry list \<Rightarrow> 'n \<Rightarrow> e820_error + (nat \<times> e820_entry list)" where
  "append_at V k s n = (case s of (cnt, out) \<Rightarrow>
    rbind (append_reg V k n (drop cnt out)) (\<lambda>(m, tl'). Inr (cnt + m, take cnt out @ tl')))"

definition extract_step ::
  "('n, 'p) dt_view \<Rightarrow> nat \<times> e820_entry list \<Rightarrow> 'n \<Rightarrow> e820_error + (nat \<times> e820_entry list)" where
  "extract_step V s c =
    (let seg = before_at (node_name V c) in
     if seg = ''memory'' then append_at V E820Usable s c
     else if seg = ''reserved-memory'' then try_fold (append_at V E820Reserved) s (node_children V c)
     else if e820_has_compatible V c ''pci-host-ecam-generic'' then append_at V E820Reserved s c
     else Inr s)"

definition extract_e820 ::
  "('n, 'p) dt_view \<Rightarrow> e820_entry list \<Rightarrow> e820_error + (nat \<times> e820_entry list)" where
  "extract_e820 V out = try_fold (extract_step V) (0, out) (node_children V (tree_root V))"

section \<open>The listing of a tree\<close>

text \<open>The whole groups of four cells, and whether cells are left over.\<close>

fun cell_groups :: "u32 list \<Rightarrow> (u64 \<times> u64) list \<times> bool" where
  "cell_groups [] = ([], False)"
| "cell_groups (a # b # c # d # cells) =
    (case cell_groups cells of (gs, bad) \<Rightarrow> ((word_cat a b, word_cat c d) # gs, bad))"
| "cell_groups _ = ([], True)"

text \<open>The nodes that contribute, with their type, in document order.\<close>

definition kid_sources :: "('n, 'p) dt_view \<Rightarrow> 'n \<Rightarrow> (e820_type \<times> 'n) list" where
  "kid_sources V c = (let seg = before_at (node_name V c) in
     if seg = ''memory'' then [(E820Usable, c)]
     else if seg = ''reserved-memory'' then map (Pair E820Reserved) (node_children V c)
     else if e820_has_compatible V c ''pci-host-ecam-generic'' then [(E820Reserved, c)]
     else [])"

definition e820_sources :: "('n, 'p) dt_view \<Rightarrow> (e820_type \<times> 'n) list" where
  "e820_sources V = concat (map (kid_sources V) (node_children V (tree_root V)))"

definition source_listing :: "('n, 'p) dt_view \<Rightarrow> e820_type \<times> 'n \<Rightarrow> e820_entry list \<times> bool" where
  "source_listing V s = (case s of (k, n) \<Rightarrow>
    (case node_property V n ''reg'' of
       None \<Rightarrow> ([], False)
     | Some r \<Rightarrow>
        (case as_u32s V r of
           None \<Rightarrow> ([], True)
         | Some cells \<Rightarrow>
            (case cell_groups cells of (gs, bad) \<Rightarrow>
               (map (\<lambda>(a, z). \<lparr>ee_addr = a, ee_size = z, ee_kind = k\<rparr>) gs, bad)))))"

fun listing_of :: "('n, 'p) dt_view \<Rightarrow> (e820_type \<times> 'n) list \<Rightarrow> e820_entry list \<times> bool" where
  "listing_of V [] = ([], False)"
| "listing_of V (s # ss) =
    (case source_listing V s of (es, bad) \<Rightarrow>
       if bad then (es, True) else (case listing_of V ss of (fs, bad') \<Rightarrow> (es @ fs, bad')))"

definition e820_listing :: "('n, 'p) dt_view \<Rightarrow> e820_entry list \<times> bool" where
  "e820_listing V = listing_of V (e820_sources V)"

text \<open>What writing a listing at position \<open>n\<close> of a slice gives.\<close>

definition put_listing ::
  "e820_entry list \<times> bool \<Rightarrow> nat \<times> e820_entry list \<Rightarrow> e820_error + (nat \<times> e820_entry list)" where
  "put_listing l s = (case (l, s) of ((es, bad), (n, out)) \<Rightarrow>
     if length out < n + length es then Inl BufferFull
     else if bad then Inl BadRegShape
     else Inr (n + length es, take n out @ es @ drop (n + length es) out))"

section \<open>The walk writes the listing\<close>

lemma word_cat_eq: "push_bit 32 (ucast a) OR ucast b = (word_cat a b :: u64)" for a b :: u32
  by (rule bit_word_eqI) (auto simp: bit_simps bit_word_cat_iff dest: bit_imp_le_length)

lemma put_listing_Nil: "put_listing ([], False) (n, out) = (if n \<le> length out then Inr (n, out) else Inl BufferFull)"
  by (simp add: put_listing_def)

lemma append_loop_eq:
  assumes "n \<le> length out"
  shows "append_loop k cells out n =
    put_listing (apfst (map (\<lambda>(a, z). \<lparr>ee_addr = a, ee_size = z, ee_kind = k\<rparr>)) (cell_groups cells)) (n, out)"
  using assms
proof (induction cells arbitrary: n out rule: cell_groups.induct)
  case 1
  then show ?case by (subst append_loop.simps) (simp add: put_listing_def)
next
  case (2 a b c d cells)
  obtain gs bad where g: "cell_groups cells = (gs, bad)" by (cases "cell_groups cells")
  let ?e = "\<lparr>ee_addr = word_cat a b, ee_size = word_cat c d, ee_kind = k\<rparr>"
  show ?case
  proof (cases "n < length out")
    case True
    have "append_loop k (a # b # c # d # cells) out n = append_loop k cells (out[n := ?e]) (n + 1)"
      using True by (subst append_loop.simps) (simp add: word_cat_eq)
    also have "\<dots> = put_listing (apfst (map (\<lambda>(a, z). \<lparr>ee_addr = a, ee_size = z, ee_kind = k\<rparr>))
        (cell_groups cells)) (n + 1, out[n := ?e])"
      by (rule "2.IH") (use True in simp)
    also have "take (n + 1) (out[n := ?e]) = take n out @ [?e]"
      using True by (simp add: take_Suc_conv_app_nth)
    ultimately show ?thesis using True g by (auto simp: put_listing_def)
  next
    case False
    then have "append_loop k (a # b # c # d # cells) out n = Inl BufferFull"
      by (subst append_loop.simps) simp
    with False g "2.prems" show ?thesis by (simp add: put_listing_def)
  qed
qed (subst append_loop.simps, simp add: put_listing_def)+

lemma append_at_eq:
  assumes "n \<le> length out"
  shows "append_at V k (n, out) c = put_listing (source_listing V (k, c)) (n, out)"
proof (cases "node_property V c ''reg''")
  case None
  with assms show ?thesis by (simp add: append_at_def append_reg_def source_listing_def put_listing_def)
next
  case (Some r)
  show ?thesis
  proof (cases "as_u32s V r")
    case None
    with Some assms show ?thesis
      by (simp add: append_at_def append_reg_def source_listing_def put_listing_def)
  next
    case (Some cells)
    with \<open>node_property V c ''reg'' = Some r\<close> assms show ?thesis
      by (auto simp: append_at_def append_reg_def source_listing_def append_loop_eq put_listing_def
          apfst_def map_prod_def min_def add.commute split: prod.split)
  qed
qed

lemma put_listing_Inr:
  "put_listing l (n, out) = Inr (m, out') \<Longrightarrow> n \<le> length out \<Longrightarrow> n \<le> m \<and> m \<le> length out'"
  by (auto simp: put_listing_def split: prod.splits if_splits)

lemma put_listing_append:
  assumes "n \<le> length out"
  shows "rbind (put_listing (es, False) (n, out)) (put_listing (fs, bad)) = put_listing (es @ fs, bad) (n, out)"
  using assms by (auto simp: put_listing_def add.commute add.left_commute)

lemma append_sources_eq:
  assumes "n \<le> length out"
  shows "try_fold (\<lambda>s (k, c). append_at V k s c) (n, out) ss = put_listing (listing_of V ss) (n, out)"
  using assms
proof (induction ss arbitrary: n out)
  case Nil
  then show ?case by (simp add: put_listing_Nil)
next
  case (Cons s ss)
  obtain k c where s: "s = (k, c)" by (cases s)
  obtain es bad where l: "source_listing V (k, c) = (es, bad)" by (cases "source_listing V (k, c)")
  obtain fs bad' where l': "listing_of V ss = (fs, bad')" by (cases "listing_of V ss")
  show ?case
  proof (cases "put_listing (es, bad) (n, out)")
    case (Inl e)
    with Cons.prems show ?thesis
      by (auto simp: s append_at_eq l l' put_listing_def split: if_splits)
  next
    case (Inr t)
    then have b: "\<not> bad" by (auto simp: put_listing_def split: if_splits)
    obtain m out' where t: "t = (m, out')" by (cases t)
    have "m \<le> length out'" using put_listing_Inr [OF Inr [unfolded t] Cons.prems] by simp
    then have "try_fold (\<lambda>s (k, c). append_at V k s c) t ss = put_listing (fs, bad') t"
      by (simp add: t Cons.IH l')
    then show ?thesis
      using put_listing_append [OF Cons.prems, of es fs bad'] Inr b
      by (simp add: s append_at_eq [OF Cons.prems] l l')
  qed
qed

lemma extract_e820_sources:
  "extract_e820 V out = try_fold (\<lambda>s (k, c). append_at V k s c) (0, out) (e820_sources V)"
proof -
  have "extract_step V s c = try_fold (\<lambda>s (k, c). append_at V k s c) s (kid_sources V c)" for s c
    by (simp add: extract_step_def kid_sources_def Let_def try_fold_map try_fold_single del: try_fold.simps(2))
  then have "extract_step V = (\<lambda>s c. try_fold (\<lambda>s (k, c). append_at V k s c) s (kid_sources V c))" by blast
  then show ?thesis
    unfolding extract_e820_def e820_sources_def by (simp only: try_fold_concat)
qed

section \<open>Properties\<close>

text \<open>
  The walk writes exactly the listing of the tree: it returns the number of entries, puts them
  at the front of the slice in document order and leaves the rest of the slice alone; it reports
  \<open>BufferFull\<close> exactly when the entries before the first malformed \<open>reg\<close> do not fit and
  \<open>BadRegShape\<close> when they fit and there is a malformed one.
\<close>

lemma extract_e820_listing:
  "extract_e820 V out =
    (case e820_listing V of (es, bad) \<Rightarrow>
       if length out < length es then Inl BufferFull
       else if bad then Inl BadRegShape
       else Inr (length es, es @ drop (length es) out))"
proof -
  have "extract_e820 V out = put_listing (e820_listing V) (0, out)"
    by (simp add: extract_e820_sources append_sources_eq e820_listing_def)
  then show ?thesis by (simp add: put_listing_def split: prod.split)
qed

end
