(* ===== verification/Validate.thy ===== *)
theory Validate
  imports Devtree
begin

text \<open>
  The devicetree validation of the boot stub \<open>tatu\<close> (src/deps/tatu/src/validate.rs): the
  allowlist on the overlay that the host supplies, and the checks on the merged tree.

  The overlay parser is the crate \<open>devtree\<close>, like the tree parser: an overlay is a list of
  fragments, each a target and a node that a second \<open>dt_view\<close> reads. An \<open>ArrayVec\<close> is a
  list whose capacity is checked by the push. \<open>devtree::Error\<close> is the parameter \<open>'d\<close> of
  the error type.

  The lemmas show that either check accepts exactly the inputs of a declarative description
  (\<open>fragment_allowed\<close>, \<open>merged_ok\<close>), the latter in terms of sets of addresses.
\<close>

section \<open>Errors and limits\<close>

datatype 'd validation_error =
    HostOverlayUnsupportedTarget
  | HostOverlayProhibitedPath
  | HostOverlayCpuPhandleProhibited
  | HostOverlayConflictingProperty
  | HostOverlayMemoryOverflow
  | MemoryOverlapsDevice
  | NonCanonicalGpa
  | ZeroSize
  | AddressOverflow
  | CpuReleaseAddrUnsafe
  | TooManyCpusV
  | TooManyMemoryRegions
  | TooManyDeviceRanges
  | BadPropertyShape
  | DevtreeError 'd

definition MAX_CPUS :: nat where "MAX_CPUS = 2048"
definition MAX_MEMORY_REGIONS :: nat where "MAX_MEMORY_REGIONS = 32"
definition MAX_DEVICE_RANGES :: nat where "MAX_DEVICE_RANGES = 64"

section \<open>Regions\<close>

record region =
  rg_gpa :: u64
  rg_size :: u64

definition region_end :: "region \<Rightarrow> u64 option" where
  "region_end r = checked_add (rg_gpa r) (rg_size r)"

definition validate_region :: "region \<Rightarrow> u32 \<Rightarrow> 'd validation_error + unit" where
  "validate_region r pa_bits =
    (if rg_size r = 0 then Inl ZeroSize
     else rbind (ok_or AddressOverflow (region_end r)) (\<lambda>e.
       if shl64 1 pa_bits < e then Inl NonCanonicalGpa else Inr ()))"

definition regions_overlap :: "region \<Rightarrow> region \<Rightarrow> bool" where
  "regions_overlap a b =
    (case region_end a of None \<Rightarrow> True | Some a_end \<Rightarrow>
      (case region_end b of None \<Rightarrow> True | Some b_end \<Rightarrow> rg_gpa a < b_end \<and> rg_gpa b < a_end))"

definition region_contains :: "region \<Rightarrow> region \<Rightarrow> bool" where
  "region_contains outer inner =
    (case (region_end outer, region_end inner) of
       (Some outer_end, Some inner_end) \<Rightarrow> rg_gpa outer \<le> rg_gpa inner \<and> inner_end \<le> outer_end
     | _ \<Rightarrow> False)"

definition parse_one_region :: "bytes \<Rightarrow> region" where
  "parse_one_region chunk = \<lparr>rg_gpa = from_be (take 8 chunk), rg_size = from_be (take 8 (drop 8 chunk))\<rparr>"

definition top_segment :: "string \<Rightarrow> string" where
  "top_segment name = takeWhile (\<lambda>c. c \<noteq> CHR ''@'') name"

text \<open>\<open>as_chunks::<16>().0\<close>\<close>

definition chunks16 :: "bytes \<Rightarrow> bytes list" where
  "chunks16 bs = map (\<lambda>i. take 16 (drop (16 * i) bs)) [0..<length bs div 16]"

section \<open>The host overlay\<close>

datatype target = TargetPath string | TargetPhandle u32

record 'n fragment =
  frag_target :: target
  frag_node :: 'n

definition memory_path :: "string \<Rightarrow> bool" where
  "memory_path path =
    (if take 7 path = ''/memory'' then
       (let rest = drop 7 path in take 1 rest = ''@'' \<and> CHR ''/'' \<notin> set rest)
     else False)"

definition check_cpu_child :: "('n, 'p) dt_view \<Rightarrow> 'n \<Rightarrow> 'd validation_error + unit" where
  "check_cpu_child V c =
    (if top_segment (node_name V c) \<noteq> ''cpu'' then Inl HostOverlayProhibitedPath
     else try_each (\<lambda>p. if prop_name V p = ''phandle'' \<or> prop_name V p = ''linux,phandle''
                        then Inl HostOverlayCpuPhandleProhibited else Inr ())
            (node_properties V c))"

definition check_cpus_additions :: "('n, 'p) dt_view \<Rightarrow> 'n \<Rightarrow> 'd validation_error + unit" where
  "check_cpus_additions V n =
    rbind (try_each (\<lambda>p. if prop_name V p = ''#address-cells'' \<or> prop_name V p = ''#size-cells''
                         then Inr () else Inl HostOverlayConflictingProperty)
             (node_properties V n)) (\<lambda>_.
    try_each (check_cpu_child V) (node_children V n))"

definition check_memory_node :: "('n, 'p) dt_view \<Rightarrow> 'n \<Rightarrow> 'd validation_error + unit" where
  "check_memory_node V n =
    (case node_property V n ''reg'' of
       None \<Rightarrow> Inr ()
     | Some r \<Rightarrow>
        (let bs = prop_bytes V r in
         if length bs mod 16 \<noteq> 0 then Inl HostOverlayMemoryOverflow
         else try_each (\<lambda>chunk. if region_end (parse_one_region chunk) = None
                               then Inl HostOverlayMemoryOverflow else Inr ())
                (chunks16 bs)))"

text \<open>\<open>trim_end_matches('/')\<close>, and the root for an empty result.\<close>

definition trim_slashes :: "string \<Rightarrow> string" where
  "trim_slashes path = rev (dropWhile (\<lambda>c. c = CHR ''/'') (rev path))"

definition normal_path :: "string \<Rightarrow> string" where
  "normal_path path = (let p = trim_slashes path in if p = '''' then ''/'' else p)"

definition classify_root_child :: "('n, 'p) dt_view \<Rightarrow> 'n \<Rightarrow> 'd validation_error + unit" where
  "classify_root_child V c =
    (let seg = top_segment (node_name V c) in
     if seg = ''memory'' then check_memory_node V c
     else if seg = ''distance-map'' then Inr ()
     else if seg = ''cpus'' then check_cpus_additions V c
     else Inl HostOverlayProhibitedPath)"

definition numa_step :: "('n, 'p) dt_view \<Rightarrow> bool \<Rightarrow> 'p \<Rightarrow> 'd validation_error + bool" where
  "numa_step V saw_numa p =
    (if prop_name V p \<noteq> ''numa-node-id'' then Inl HostOverlayConflictingProperty else Inr True)"

definition classify_fragment ::
  "('n, 'p) dt_view \<Rightarrow> ('m, 'q) dt_view \<Rightarrow> string \<Rightarrow> 'n fragment \<Rightarrow> 'd validation_error + unit" where
  "classify_fragment V B path0 frag =
    (let path = normal_path path0; n = frag_node frag in
     if path = ''/'' then
       (if node_properties V n \<noteq> [] then Inl HostOverlayProhibitedPath
        else try_each (classify_root_child V) (node_children V n))
     else if path = ''/cpus'' then check_cpus_additions V n
     else if path = ''/distance-map'' then Inr ()
     else if memory_path path then check_memory_node V n
     else if find_path B path = None then Inl HostOverlayProhibitedPath
     else rbind (try_fold (numa_step V) False (node_properties V n)) (\<lambda>saw_numa.
       if node_children V n \<noteq> [] then Inl HostOverlayProhibitedPath
       else if \<not> saw_numa then Inl HostOverlayProhibitedPath
       else Inr ()))"

definition check_fragment ::
  "('n, 'p) dt_view \<Rightarrow> ('m, 'q) dt_view \<Rightarrow> 'n fragment \<Rightarrow> 'd validation_error + unit" where
  "check_fragment V B frag =
    (case frag_target frag of
       TargetPath path \<Rightarrow> classify_fragment V B path frag
     | _ \<Rightarrow> Inl HostOverlayUnsupportedTarget)"

definition validate_host_dtbo ::
  "('n, 'p) dt_view \<Rightarrow> ('m, 'q) dt_view \<Rightarrow> 'n fragment list \<Rightarrow> 'd validation_error + unit" where
  "validate_host_dtbo V B overlay = try_each (check_fragment V B) overlay"

section \<open>The merged tree\<close>

definition count_step :: "nat \<Rightarrow> 'n \<Rightarrow> 'd validation_error + nat" where
  "count_step cnt _ =
    rbind (ok_or TooManyCpusV (usize_add cnt 1)) (\<lambda>cnt.
      if MAX_CPUS < cnt then Inl TooManyCpusV else Inr cnt)"

definition count_cpus :: "('n, 'p) dt_view \<Rightarrow> 'n \<Rightarrow> nat \<Rightarrow> 'd validation_error + nat" where
  "count_cpus V n cnt = try_fold count_step cnt (node_children V n)"

text \<open>\<open>ArrayVec::try_push\<close>\<close>

definition try_push :: "nat \<Rightarrow> 'e \<Rightarrow> 'a list \<Rightarrow> 'a \<Rightarrow> 'e + 'a list" where
  "try_push cap err xs x = (if length xs < cap then Inr (xs @ [x]) else Inl err)"

definition push_chunk ::
  "nat \<Rightarrow> u32 \<Rightarrow> 'd validation_error \<Rightarrow> region list \<Rightarrow> bytes \<Rightarrow> 'd validation_error + region list" where
  "push_chunk cap pa_bits overflow_err regions chunk =
    (let r = parse_one_region chunk in
     rbind (validate_region r pa_bits) (\<lambda>_. try_push cap overflow_err regions r))"

definition extract_regs ::
  "nat \<Rightarrow> ('n, 'p) dt_view \<Rightarrow> 'n \<Rightarrow> region list \<Rightarrow> u32 \<Rightarrow> 'd validation_error \<Rightarrow>
    'd validation_error + region list" where
  "extract_regs cap V n regions pa_bits overflow_err =
    (case node_property V n ''reg'' of
       None \<Rightarrow> Inr regions
     | Some r \<Rightarrow>
        (let bs = prop_bytes V r in
         if length bs mod 16 \<noteq> 0 then Inl BadPropertyShape
         else try_fold (push_chunk cap pa_bits overflow_err) regions (chunks16 bs)))"

definition semantic_overlap_checks :: "region list \<Rightarrow> region list \<Rightarrow> 'd validation_error + unit" where
  "semantic_overlap_checks memory devices =
    try_each (\<lambda>m. try_each (\<lambda>d. if regions_overlap m d then Inl MemoryOverlapsDevice else Inr ())
                    devices) memory"

definition parse_release_addr :: "bytes \<Rightarrow> 'd validation_error + u64" where
  "parse_release_addr bs =
    (if length bs = 8 then Inr (from_be bs)
     else if length bs = 4 then Inr (ucast (from_be bs :: u32))
     else Inl BadPropertyShape)"

definition check_release_addr ::
  "('n, 'p) dt_view \<Rightarrow> region list \<Rightarrow> region list \<Rightarrow> u32 \<Rightarrow> 'n \<Rightarrow> 'd validation_error + unit" where
  "check_release_addr V memory devices pa_bits cpu =
    (case node_property V cpu ''cpu-release-addr'' of
       None \<Rightarrow> Inr ()
     | Some prop \<Rightarrow>
        rbind (parse_release_addr (prop_bytes V prop)) (\<lambda>addr.
        let target = \<lparr>rg_gpa = addr, rg_size = 8\<rparr> in
        rbind (validate_region target pa_bits) (\<lambda>_.
          if list_ex (regions_overlap target) devices then Inl CpuReleaseAddrUnsafe
          else if \<not> list_ex (\<lambda>m. region_contains m target) memory then Inl CpuReleaseAddrUnsafe
          else Inr ())))"

definition validate_cpu_release_addrs ::
  "('n, 'p) dt_view \<Rightarrow> region list \<Rightarrow> region list \<Rightarrow> u32 \<Rightarrow> 'd validation_error + unit" where
  "validate_cpu_release_addrs V memory devices pa_bits =
    try_each (\<lambda>c. if top_segment (node_name V c) \<noteq> ''cpus'' then Inr ()
        else try_each (check_release_addr V memory devices pa_bits) (node_children V c))
      (node_children V (tree_root V))"

record collected =
  cl_memory :: "region list"
  cl_devices :: "region list"
  cl_cpus :: nat

definition collect_step ::
  "('n, 'p) dt_view \<Rightarrow> u32 \<Rightarrow> collected \<Rightarrow> 'n \<Rightarrow> 'd validation_error + collected" where
  "collect_step V pa_bits st c =
    (let seg = top_segment (node_name V c) in
     if seg = ''cpus'' then
       rbind (count_cpus V c (cl_cpus st)) (\<lambda>cnt. Inr (st\<lparr>cl_cpus := cnt\<rparr>))
     else if seg = ''memory'' then
       rbind (extract_regs MAX_MEMORY_REGIONS V c (cl_memory st) pa_bits TooManyMemoryRegions) (\<lambda>rs.
         Inr (st\<lparr>cl_memory := rs\<rparr>))
     else if node_property V c ''reg'' \<noteq> None then
       rbind (extract_regs MAX_DEVICE_RANGES V c (cl_devices st) pa_bits TooManyDeviceRanges) (\<lambda>rs.
         Inr (st\<lparr>cl_devices := rs\<rparr>))
     else Inr st)"

definition validate_merged :: "('n, 'p) dt_view \<Rightarrow> u32 \<Rightarrow> 'd validation_error + unit" where
  "validate_merged V pa_bits =
    rbind (try_fold (collect_step V pa_bits) \<lparr>cl_memory = [], cl_devices = [], cl_cpus = 0\<rparr>
             (node_children V (tree_root V))) (\<lambda>st.
    rbind (semantic_overlap_checks (cl_memory st) (cl_devices st)) (\<lambda>_.
      validate_cpu_release_addrs V (cl_memory st) (cl_devices st) pa_bits))"

section \<open>Regions as sets of addresses\<close>

definition addrs :: "region \<Rightarrow> nat set" where
  "addrs r = {unat (rg_gpa r) ..< unat (rg_gpa r) + unat (rg_size r)}"

text \<open>A region that fits the guest's physical address space.\<close>

definition fits :: "u32 \<Rightarrow> region \<Rightarrow> bool" where
  "fits pa_bits r \<longleftrightarrow> 0 < unat (rg_size r) \<and>
    unat (rg_gpa r) + unat (rg_size r) \<le> 2 ^ (unat pa_bits mod 64)"

lemma unat_shl64_mod: "unat (shl64 1 n) = 2 ^ (unat n mod 64)"
  by (simp add: shl64_def push_bit_eq_mult unat_pow2)

lemma region_end_Some: "region_end r = Some e \<longleftrightarrow> unat e = unat (rg_gpa r) + unat (rg_size r)"
  by (simp add: region_end_def checked_simps)

lemma region_end_None: "region_end r = None \<longleftrightarrow> 2 ^ 64 \<le> unat (rg_gpa r) + unat (rg_size r)"
  by (simp add: region_end_def checked_simps)

lemma fits_end: "fits pa r \<Longrightarrow> \<exists>e. region_end r = Some e"
proof -
  assume f: "fits pa r"
  have "(2::nat) ^ (unat pa mod 64) < 2 ^ 64" by (rule power_strict_increasing) simp_all
  with f have "\<not> 2 ^ 64 \<le> unat (rg_gpa r) + unat (rg_size r)" by (simp add: fits_def)
  then show ?thesis using region_end_None by blast
qed

lemma validate_region_iff: "validate_region r pa = Inr u \<longleftrightarrow> fits pa r"
proof (cases "region_end r")
  case None
  then have "\<not> fits pa r" using fits_end by fastforce
  with None show ?thesis by (simp add: validate_region_def)
next
  case (Some e)
  then have e: "unat e = unat (rg_gpa r) + unat (rg_size r)" by (simp add: region_end_Some)
  have "(\<not> shl64 1 pa < e) \<longleftrightarrow> unat e \<le> 2 ^ (unat pa mod 64)"
    by (simp add: word_less_nat_alt unat_shl64_mod not_less)
  with Some e show ?thesis
    by (auto simp: validate_region_def fits_def unat_gt_0 word_neq_0_conv [symmetric])
qed

text \<open>The overlap test is sound for every region and exact for regions that fit.\<close>

lemma regions_overlap_iff:
  assumes "fits pa a" and "fits pb b"
  shows "regions_overlap a b \<longleftrightarrow> addrs a \<inter> addrs b \<noteq> {}"
proof -
  obtain ea eb where e: "region_end a = Some ea" "region_end b = Some eb"
    using fits_end [OF assms(1)] fits_end [OF assms(2)] by blast
  have u: "unat ea = unat (rg_gpa a) + unat (rg_size a)" "unat eb = unat (rg_gpa b) + unat (rg_size b)"
    using e by (simp_all add: region_end_Some)
  have p: "0 < unat (rg_size a)" "0 < unat (rg_size b)"
    using assms by (simp_all add: fits_def)
  have "regions_overlap a b \<longleftrightarrow> unat (rg_gpa a) < unat eb \<and> unat (rg_gpa b) < unat ea"
    by (simp add: regions_overlap_def e word_less_nat_alt)
  also have "\<dots> \<longleftrightarrow> addrs a \<inter> addrs b \<noteq> {}"
    using p unfolding u addrs_def Int_atLeastLessThan by (auto simp: max_def min_def)
  finally show ?thesis .
qed

lemma region_contains_iff:
  assumes "fits pa a" and "fits pb b"
  shows "region_contains a b \<longleftrightarrow> addrs b \<subseteq> addrs a"
proof -
  obtain ea eb where e: "region_end a = Some ea" "region_end b = Some eb"
    using fits_end [OF assms(1)] fits_end [OF assms(2)] by blast
  have u: "unat ea = unat (rg_gpa a) + unat (rg_size a)" "unat eb = unat (rg_gpa b) + unat (rg_size b)"
    using e by (simp_all add: region_end_Some)
  have p: "0 < unat (rg_size a)" "0 < unat (rg_size b)"
    using assms by (simp_all add: fits_def)
  have "region_contains a b \<longleftrightarrow> unat (rg_gpa a) \<le> unat (rg_gpa b) \<and> unat eb \<le> unat ea"
    by (simp add: region_contains_def e word_le_nat_alt)
  also have "\<dots> \<longleftrightarrow> addrs b \<subseteq> addrs a"
    using p unfolding u addrs_def by (simp add: ivl_subset)
  finally show ?thesis .
qed

section \<open>The collection of the regions and cpus\<close>

definition reg_whole :: "('n, 'p) dt_view \<Rightarrow> 'n \<Rightarrow> bool" where
  "reg_whole V n \<longleftrightarrow> (case node_property V n ''reg'' of
     None \<Rightarrow> True | Some r \<Rightarrow> 16 dvd length (prop_bytes V r))"

definition node_regions :: "('n, 'p) dt_view \<Rightarrow> 'n \<Rightarrow> region list" where
  "node_regions V n = (case node_property V n ''reg'' of
     None \<Rightarrow> [] | Some r \<Rightarrow> map parse_one_region (chunks16 (prop_bytes V r)))"

lemma push_chunks_iff:
  assumes "length rs \<le> cap"
  shows "try_fold (push_chunk cap pa err) rs cs = Inr rs' \<longleftrightarrow>
    (\<forall>c\<in>set cs. fits pa (parse_one_region c)) \<and> length rs + length cs \<le> cap \<and>
    rs' = rs @ map parse_one_region cs"
  using assms
proof (induction cs arbitrary: rs)
  case (Cons c cs)
  show ?case
  proof (cases "fits pa (parse_one_region c) \<and> length rs < cap")
    case True
    then have "push_chunk cap pa err rs c = Inr (rs @ [parse_one_region c])"
      by (simp add: push_chunk_def try_push_def Let_def rbind_eq_Inr validate_region_iff)
    then show ?thesis using Cons.IH [of "rs @ [parse_one_region c]"] True by auto
  next
    case False
    then have "\<exists>e. push_chunk cap pa err rs c = Inl e"
    proof (cases "validate_region (parse_one_region c) pa :: 'a validation_error + unit")
      case (Inr u)
      with False have "\<not> length rs < cap" by (simp add: validate_region_iff)
      with Inr show ?thesis by (simp add: push_chunk_def try_push_def Let_def)
    qed (simp add: push_chunk_def Let_def)
    then show ?thesis using False Cons.prems by auto
  qed
qed auto

lemma extract_regs_iff:
  assumes "length rs \<le> cap"
  shows "extract_regs cap V n rs pa err = Inr rs' \<longleftrightarrow>
    reg_whole V n \<and> (\<forall>r\<in>set (node_regions V n). fits pa r) \<and>
    length rs + length (node_regions V n) \<le> cap \<and> rs' = rs @ node_regions V n"
  using assms
  by (cases "node_property V n ''reg''")
    (auto simp: extract_regs_def Let_def reg_whole_def node_regions_def push_chunks_iff dvd_eq_mod_eq_0)

lemma count_step_eq:
  "cnt \<le> MAX_CPUS \<Longrightarrow> count_step cnt n = (if MAX_CPUS < cnt + 1 then Inl TooManyCpusV else Inr (cnt + 1))"
proof -
  assume "cnt \<le> MAX_CPUS"
  then have "usize_add cnt 1 = Some (cnt + 1)"
    by (simp add: usize_add_eq_Some MAX_CPUS_def usize_max_eq)
  then show ?thesis by (simp add: count_step_def)
qed

lemma count_steps_iff:
  "cnt \<le> MAX_CPUS \<Longrightarrow>
    try_fold count_step cnt ns = Inr cnt' \<longleftrightarrow> cnt' = cnt + length ns \<and> cnt' \<le> MAX_CPUS"
  by (induction ns arbitrary: cnt) (auto simp: count_step_eq)

lemma count_cpus_iff:
  "cnt \<le> MAX_CPUS \<Longrightarrow>
    count_cpus V n cnt = Inr cnt' \<longleftrightarrow> cnt' = cnt + length (node_children V n) \<and> cnt' \<le> MAX_CPUS"
  by (simp add: count_cpus_def count_steps_iff)

text \<open>The three groups of root children.\<close>

definition kids_with :: "(string \<Rightarrow> bool) \<Rightarrow> ('n, 'p) dt_view \<Rightarrow> 'n list \<Rightarrow> 'n list" where
  "kids_with P V ns = filter (\<lambda>c. P (top_segment (node_name V c))) ns"

abbreviation "memory_nodes V ns \<equiv> kids_with (\<lambda>s. s = ''memory'') V ns"
abbreviation "cpus_nodes V ns \<equiv> kids_with (\<lambda>s. s = ''cpus'') V ns"
abbreviation "device_nodes V ns \<equiv> kids_with (\<lambda>s. s \<noteq> ''memory'' \<and> s \<noteq> ''cpus'') V ns"

definition regions_of :: "('n, 'p) dt_view \<Rightarrow> 'n list \<Rightarrow> region list" where
  "regions_of V ns = concat (map (node_regions V) ns)"

definition cpus_of :: "('n, 'p) dt_view \<Rightarrow> 'n list \<Rightarrow> 'n list" where
  "cpus_of V ns = concat (map (node_children V) ns)"

definition within :: "collected \<Rightarrow> bool" where
  "within st \<longleftrightarrow> length (cl_memory st) \<le> MAX_MEMORY_REGIONS \<and>
    length (cl_devices st) \<le> MAX_DEVICE_RANGES \<and> cl_cpus st \<le> MAX_CPUS"

lemma collect_step_iff:
  assumes "within st"
  shows "collect_step V pa st c = Inr st' \<longleftrightarrow>
    (c \<in> set (cpus_nodes V [c]) \<or> reg_whole V c \<and> (\<forall>r\<in>set (node_regions V c). fits pa r)) \<and>
    st' = \<lparr>cl_memory = cl_memory st @ regions_of V (memory_nodes V [c]),
           cl_devices = cl_devices st @ regions_of V (device_nodes V [c]),
           cl_cpus = cl_cpus st + length (cpus_of V (cpus_nodes V [c]))\<rparr> \<and> within st'"
proof -
  consider (cpus) "top_segment (node_name V c) = ''cpus''"
    | (memory) "top_segment (node_name V c) = ''memory''"
    | (device) "top_segment (node_name V c) \<noteq> ''cpus''" "top_segment (node_name V c) \<noteq> ''memory''"
    by blast
  then show ?thesis
  proof cases
    case cpus
    then show ?thesis using assms
      by (auto simp: collect_step_def Let_def kids_with_def regions_of_def cpus_of_def within_def
          rbind_eq_Inr count_cpus_iff)
  next
    case memory
    then show ?thesis using assms
      by (auto simp: collect_step_def Let_def kids_with_def regions_of_def cpus_of_def within_def
          rbind_eq_Inr extract_regs_iff)
  next
    case device
    show ?thesis
    proof (cases "node_property V c ''reg''")
      case None
      then show ?thesis using device assms
        by (auto simp: collect_step_def Let_def kids_with_def regions_of_def cpus_of_def within_def
            reg_whole_def node_regions_def)
    next
      case (Some r)
      then show ?thesis using device assms
        by (auto simp: collect_step_def Let_def kids_with_def regions_of_def cpus_of_def within_def
            rbind_eq_Inr extract_regs_iff)
    qed
  qed
qed

lemma kids_with_Cons: "kids_with P V (c # cs) = kids_with P V [c] @ kids_with P V cs"
  by (simp add: kids_with_def)

lemma regions_of_append [simp]: "regions_of V (xs @ ys) = regions_of V xs @ regions_of V ys"
  by (simp add: regions_of_def)

lemma cpus_of_append [simp]: "cpus_of V (xs @ ys) = cpus_of V xs @ cpus_of V ys"
  by (simp add: cpus_of_def)

lemma collect_iff:
  fixes V :: "('n, 'p) dt_view" and pa :: u32 and step :: "collected \<Rightarrow> 'n \<Rightarrow> 'd validation_error + collected"
  defines "step \<equiv> collect_step V pa"
  assumes "within st"
  shows "try_fold step st ns = Inr st' \<longleftrightarrow>
    (\<forall>c\<in>set ns. top_segment (node_name V c) \<noteq> ''cpus'' \<longrightarrow>
       reg_whole V c \<and> (\<forall>r\<in>set (node_regions V c). fits pa r)) \<and>
    st' = \<lparr>cl_memory = cl_memory st @ regions_of V (memory_nodes V ns),
           cl_devices = cl_devices st @ regions_of V (device_nodes V ns),
           cl_cpus = cl_cpus st + length (cpus_of V (cpus_nodes V ns))\<rparr> \<and> within st'"
  using assms(2)
proof (induction ns arbitrary: st)
  case Nil
  then show ?case by (auto simp: kids_with_def regions_of_def cpus_of_def)
next
  case (Cons c ns)
  let ?st = "\<lparr>cl_memory = cl_memory st @ regions_of V (memory_nodes V [c]),
           cl_devices = cl_devices st @ regions_of V (device_nodes V [c]),
           cl_cpus = cl_cpus st + length (cpus_of V (cpus_nodes V [c]))\<rparr>"
  have mem: "c \<in> set (cpus_nodes V [c]) \<longleftrightarrow> top_segment (node_name V c) = ''cpus''"
    by (simp add: kids_with_def)
  let ?full = "\<lparr>cl_memory = cl_memory st @ regions_of V (memory_nodes V (c # ns)),
           cl_devices = cl_devices st @ regions_of V (device_nodes V (c # ns)),
           cl_cpus = cl_cpus st + length (cpus_of V (cpus_nodes V (c # ns)))\<rparr>"
  let ?good = "\<lambda>c. reg_whole V c \<and> (\<forall>r\<in>set (node_regions V c). fits pa r)"
  have first: "step st c = Inr x \<longleftrightarrow>
      (top_segment (node_name V c) = ''cpus'' \<or> ?good c) \<and> x = ?st \<and> within x" for x
    unfolding step_def collect_step_iff [OF Cons.prems] mem ..
  have rest: "within ?st \<Longrightarrow> try_fold step ?st ns = Inr st' \<longleftrightarrow>
      (\<forall>c\<in>set ns. top_segment (node_name V c) \<noteq> ''cpus'' \<longrightarrow> ?good c) \<and> st' = ?full \<and> within st'"
    by (subst Cons.IH) (simp_all add: kids_with_Cons [of _ V c ns] add.assoc)
  have "within ?full \<Longrightarrow> within ?st"
    by (simp add: within_def kids_with_Cons [of _ V c ns])
  then have w: "st' = ?full \<and> within st' \<Longrightarrow> within ?st" by blast
  have "try_fold step st (c # ns) = Inr st' \<longleftrightarrow>
      (\<exists>x. step st c = Inr x \<and> try_fold step x ns = Inr st')"
    by (simp add: rbind_eq_Inr)
  also have "\<dots> \<longleftrightarrow> (top_segment (node_name V c) = ''cpus'' \<or> ?good c) \<and> within ?st \<and>
      try_fold step ?st ns = Inr st'"
    unfolding first by blast
  also have "\<dots> \<longleftrightarrow> (top_segment (node_name V c) = ''cpus'' \<or> ?good c) \<and>
      (\<forall>c\<in>set ns. top_segment (node_name V c) \<noteq> ''cpus'' \<longrightarrow> ?good c) \<and> st' = ?full \<and> within st'"
    using rest w by blast
  also have "\<dots> \<longleftrightarrow> (\<forall>c\<in>set (c # ns). top_segment (node_name V c) \<noteq> ''cpus'' \<longrightarrow> ?good c) \<and>
      st' = ?full \<and> within st'"
    unfolding set_simps ball_simps(7) by blast
  finally show ?case .
qed

section \<open>What the checks accept\<close>

definition release_target :: "bytes \<Rightarrow> region option" where
  "release_target bs =
    (if length bs = 8 then Some \<lparr>rg_gpa = from_be bs, rg_size = 8\<rparr>
     else if length bs = 4 then Some \<lparr>rg_gpa = ucast (from_be bs :: u32), rg_size = 8\<rparr> else None)"

text \<open>
  A safe release address: in range, off every device, inside one memory region.
\<close>

definition release_safe :: "('n, 'p) dt_view \<Rightarrow> region list \<Rightarrow> region list \<Rightarrow> u32 \<Rightarrow> 'n \<Rightarrow> bool" where
  "release_safe V mems devs pa_bits cpu \<longleftrightarrow>
    (case node_property V cpu ''cpu-release-addr'' of
       None \<Rightarrow> True
     | Some p \<Rightarrow> (case release_target (prop_bytes V p) of
         None \<Rightarrow> False
       | Some t \<Rightarrow> fits pa_bits t \<and> (\<forall>d\<in>set devs. addrs t \<inter> addrs d = {}) \<and>
           (\<exists>m\<in>set mems. addrs t \<subseteq> addrs m)))"

lemma check_release_addr_iff:
  assumes "\<forall>r\<in>set mems \<union> set devs. fits pa r"
  shows "(check_release_addr V mems devs pa cpu :: 'd validation_error + unit) = Inr () \<longleftrightarrow> release_safe V mems devs pa cpu"
proof (cases "node_property V cpu ''cpu-release-addr''")
  case None
  then show ?thesis by (simp add: check_release_addr_def release_safe_def)
next
  case (Some p)
  show ?thesis
  proof (cases "release_target (prop_bytes V p)")
    case None
    then have "\<exists>e. (parse_release_addr (prop_bytes V p) :: 'd validation_error + u64) = Inl e"
      by (auto simp: release_target_def parse_release_addr_def split: if_splits)
    with None Some show ?thesis
      by (auto simp: check_release_addr_def release_safe_def release_target_def parse_release_addr_def
          split: if_splits)
  next
    case (Some t)
    have parse: "(parse_release_addr (prop_bytes V p) :: 'd validation_error + u64) = Inr (rg_gpa t)"
      and t: "t = \<lparr>rg_gpa = rg_gpa t, rg_size = 8\<rparr>"
      using Some by (auto simp: release_target_def parse_release_addr_def split: if_splits)
    have dev: "list_ex (regions_overlap t) devs \<longleftrightarrow> (\<exists>d\<in>set devs. addrs t \<inter> addrs d \<noteq> {})"
      if "fits pa t"
    proof -
      have "regions_overlap t d \<longleftrightarrow> addrs t \<inter> addrs d \<noteq> {}" if "d \<in> set devs" for d
        by (rule regions_overlap_iff [OF \<open>fits pa t\<close>]) (use that assms in blast)
      then show ?thesis by (auto simp: list_ex_iff)
    qed
    have mem: "list_ex (\<lambda>m. region_contains m t) mems \<longleftrightarrow> (\<exists>m\<in>set mems. addrs t \<subseteq> addrs m)"
      if "fits pa t"
    proof -
      have "region_contains m t \<longleftrightarrow> addrs t \<subseteq> addrs m" if "m \<in> set mems" for m
        by (rule region_contains_iff [OF _ \<open>fits pa t\<close>]) (use that assms in blast)
      then show ?thesis by (auto simp: list_ex_iff)
    qed
    have "(check_release_addr V mems devs pa cpu :: 'd validation_error + unit) =
        rbind (validate_region t pa) (\<lambda>_.
          if list_ex (regions_overlap t) devs then Inl CpuReleaseAddrUnsafe
          else if \<not> list_ex (\<lambda>m. region_contains m t) mems then Inl CpuReleaseAddrUnsafe
          else Inr ())"
      using \<open>node_property V cpu _ = Some p\<close> parse by (simp add: check_release_addr_def t [symmetric] Let_def)
    then have "(check_release_addr V mems devs pa cpu :: 'd validation_error + unit) = Inr () \<longleftrightarrow>
      fits pa t \<and> \<not> list_ex (regions_overlap t) devs \<and> list_ex (\<lambda>m. region_contains m t) mems"
      by (auto simp: rbind_eq_Inr validate_region_iff)
    also have "\<dots> \<longleftrightarrow> fits pa t \<and> (\<forall>d\<in>set devs. addrs t \<inter> addrs d = {}) \<and> (\<exists>m\<in>set mems. addrs t \<subseteq> addrs m)"
      using dev mem by blast
    finally show ?thesis
      using \<open>node_property V cpu _ = Some p\<close> Some by (simp add: release_safe_def)
  qed
qed

lemma release_addrs_iff:
  assumes "\<forall>r\<in>set mems \<union> set devs. fits pa r"
  shows "validate_cpu_release_addrs V mems devs pa = Inr () \<longleftrightarrow>
    (\<forall>cpu\<in>set (cpus_of V (cpus_nodes V (node_children V (tree_root V)))). release_safe V mems devs pa cpu)"
  by (auto simp: validate_cpu_release_addrs_def try_each_Inr check_release_addr_iff [OF assms]
      cpus_of_def kids_with_def split: if_splits)

lemma overlap_checks_iff:
  assumes "\<forall>r\<in>set mems \<union> set devs. fits pa r"
  shows "semantic_overlap_checks mems devs = Inr () \<longleftrightarrow>
    (\<forall>m\<in>set mems. \<forall>d\<in>set devs. addrs m \<inter> addrs d = {})"
proof -
  have "regions_overlap m d \<longleftrightarrow> addrs m \<inter> addrs d \<noteq> {}" if "m \<in> set mems" "d \<in> set devs" for m d
    by (rule regions_overlap_iff [of pa m pa d]) (use that assms in blast)+
  then show ?thesis by (auto simp: semantic_overlap_checks_def try_each_Inr split: if_splits)
qed

lemma validate_merged_iff:
  fixes V :: "('n, 'p) dt_view" and pa :: u32
  defines "kids \<equiv> node_children V (tree_root V)"
  defines "mems \<equiv> regions_of V (memory_nodes V kids)" and "devs \<equiv> regions_of V (device_nodes V kids)"
    and "cpus \<equiv> cpus_of V (cpus_nodes V kids)"
  shows "(validate_merged V pa :: 'd validation_error + unit) = Inr () \<longleftrightarrow>
    (\<forall>c\<in>set (memory_nodes V kids @ device_nodes V kids). reg_whole V c) \<and>
    (\<forall>r\<in>set (mems @ devs). fits pa r) \<and>
    length mems \<le> MAX_MEMORY_REGIONS \<and> length devs \<le> MAX_DEVICE_RANGES \<and> length cpus \<le> MAX_CPUS \<and>
    (\<forall>m\<in>set mems. \<forall>d\<in>set devs. addrs m \<inter> addrs d = {}) \<and>
    (\<forall>cpu\<in>set cpus. release_safe V mems devs pa cpu)"
proof -
  let ?st = "\<lparr>cl_memory = mems, cl_devices = devs, cl_cpus = length cpus\<rparr>"
  let ?ok = "(\<forall>c\<in>set (memory_nodes V kids @ device_nodes V kids). reg_whole V c) \<and>
    (\<forall>r\<in>set (mems @ devs). fits pa r)"
  have ok: "(\<forall>c\<in>set kids. top_segment (node_name V c) \<noteq> ''cpus'' \<longrightarrow>
      reg_whole V c \<and> (\<forall>r\<in>set (node_regions V c). fits pa r)) \<longleftrightarrow> ?ok"
  proof -
    let ?G = "\<lambda>c. reg_whole V c \<and> (\<forall>r\<in>set (node_regions V c). fits pa r)"
    have "(\<forall>c\<in>set kids. top_segment (node_name V c) \<noteq> ''cpus'' \<longrightarrow> ?G c) \<longleftrightarrow>
        (\<forall>c\<in>set (memory_nodes V kids). ?G c) \<and> (\<forall>c\<in>set (device_nodes V kids). ?G c)"
      by (auto simp: kids_with_def)
    then show ?thesis by (auto simp: mems_def devs_def regions_of_def)
  qed
  let ?init = "\<lparr>cl_memory = [], cl_devices = [], cl_cpus = 0\<rparr>"
  have w0: "within ?init" by (simp add: within_def)
  have st: "\<lparr>cl_memory = cl_memory ?init @ regions_of V (memory_nodes V kids),
      cl_devices = cl_devices ?init @ regions_of V (device_nodes V kids),
      cl_cpus = cl_cpus ?init + length (cpus_of V (cpus_nodes V kids))\<rparr> = ?st"
    by (simp add: mems_def devs_def cpus_def)
  have fold: "(try_fold (collect_step V pa) ?init kids :: 'd validation_error + collected) = Inr st \<longleftrightarrow>
      ?ok \<and> st = ?st \<and> within st" for st
    unfolding collect_iff [OF w0] ok st ..
  have "(validate_merged V pa :: 'd validation_error + unit) = Inr () \<longleftrightarrow> ?ok \<and> within ?st \<and>
    (semantic_overlap_checks mems devs :: 'd validation_error + unit) = Inr () \<and>
    (validate_cpu_release_addrs V mems devs pa :: 'd validation_error + unit) = Inr ()"
    unfolding validate_merged_def kids_def [symmetric] rbind_eq_Inr fold by force
  also have "\<dots> \<longleftrightarrow> ?ok \<and> within ?st \<and>
      (\<forall>m\<in>set mems. \<forall>d\<in>set devs. addrs m \<inter> addrs d = {}) \<and>
      (\<forall>cpu\<in>set cpus. release_safe V mems devs pa cpu)"
  proof (rule conj_cong [OF refl])
    assume ?ok
    then have fit: "\<forall>r\<in>set mems \<union> set devs. fits pa r" by simp
    show "within ?st \<and>
        (semantic_overlap_checks mems devs :: 'd validation_error + unit) = Inr () \<and>
        (validate_cpu_release_addrs V mems devs pa :: 'd validation_error + unit) = Inr () \<longleftrightarrow>
      within ?st \<and> (\<forall>m\<in>set mems. \<forall>d\<in>set devs. addrs m \<inter> addrs d = {}) \<and>
      (\<forall>cpu\<in>set cpus. release_safe V mems devs pa cpu)"
      unfolding overlap_checks_iff [OF fit] release_addrs_iff [OF fit] cpus_def kids_def ..
  qed
  finally show ?thesis unfolding within_def by auto
qed

text \<open>
  C16. The merged tree is accepted exactly when every \<open>reg\<close> of a memory node or device is a
  sequence of 16-byte pairs, every region is non-empty and ends within the physical address
  space, there are at most 32 memory regions, 64 device regions and 2048 cpus, no memory region
  shares an address with a device region, and every cpu's release address has eight bytes inside
  one memory region that no device region touches.
\<close>

theorem validate_merged_accepts:
  fixes V :: "('n, 'p) dt_view" and pa :: u32
  defines "kids \<equiv> node_children V (tree_root V)"
  defines "mems \<equiv> regions_of V (memory_nodes V kids)" and "devs \<equiv> regions_of V (device_nodes V kids)"
    and "cpus \<equiv> cpus_of V (cpus_nodes V kids)"
  shows "(validate_merged V pa :: 'd validation_error + unit) = Inr () \<longleftrightarrow>
    (\<forall>c\<in>set (memory_nodes V kids @ device_nodes V kids). reg_whole V c) \<and>
    (\<forall>r\<in>set (mems @ devs). fits pa r) \<and>
    length mems \<le> MAX_MEMORY_REGIONS \<and> length devs \<le> MAX_DEVICE_RANGES \<and> length cpus \<le> MAX_CPUS \<and>
    (\<forall>m\<in>set mems. \<forall>d\<in>set devs. addrs m \<inter> addrs d = {}) \<and>
    (\<forall>cpu\<in>set cpus. release_safe V mems devs pa cpu)"
  unfolding kids_def mems_def devs_def cpus_def by (rule validate_merged_iff)

section \<open>The allowlist\<close>

definition cpus_allowed :: "('n, 'p) dt_view \<Rightarrow> 'n \<Rightarrow> bool" where
  "cpus_allowed V n \<longleftrightarrow>
    prop_name V ` set (node_properties V n) \<subseteq> {''#address-cells'', ''#size-cells''} \<and>
    (\<forall>c\<in>set (node_children V n). top_segment (node_name V c) = ''cpu'' \<and>
       prop_name V ` set (node_properties V c) \<inter> {''phandle'', ''linux,phandle''} = {})"

definition memory_allowed :: "('n, 'p) dt_view \<Rightarrow> 'n \<Rightarrow> bool" where
  "memory_allowed V n \<longleftrightarrow> reg_whole V n \<and>
    (\<forall>r\<in>set (node_regions V n). unat (rg_gpa r) + unat (rg_size r) < 2 ^ 64)"

lemma image_disjoint_iff: "f ` A \<inter> {a, b} = {} \<longleftrightarrow> (\<forall>x\<in>A. f x \<noteq> a \<and> f x \<noteq> b)"
  by auto

lemma image_singleton_iff: "f ` set xs = {a} \<longleftrightarrow> xs \<noteq> [] \<and> f ` set xs \<subseteq> {a}"
  by (cases xs) auto

lemma check_cpu_child_iff: "check_cpu_child V c = Inr u \<longleftrightarrow> top_segment (node_name V c) = ''cpu'' \<and>
    prop_name V ` set (node_properties V c) \<inter> {''phandle'', ''linux,phandle''} = {}"
  unfolding image_disjoint_iff by (simp add: check_cpu_child_def try_each_Inr)

lemma check_cpus_additions_iff: "check_cpus_additions V n = Inr u \<longleftrightarrow> cpus_allowed V n"
  by (auto simp: check_cpus_additions_def check_cpu_child_iff cpus_allowed_def rbind_eq_Inr try_each_Inr
      split: if_splits)

lemma check_memory_node_iff: "check_memory_node V n = Inr u \<longleftrightarrow> memory_allowed V n"
  by (cases "node_property V n ''reg''")
    (auto simp: check_memory_node_def memory_allowed_def Let_def reg_whole_def node_regions_def try_each_Inr
      region_end_None not_le dvd_eq_mod_eq_0 split: if_splits)

lemma numa_fold_iff:
  "try_fold (numa_step V) b ps = Inr b' \<longleftrightarrow>
    prop_name V ` set ps \<subseteq> {''numa-node-id''} \<and> b' = (b \<or> ps \<noteq> [])"
  by (induction ps arbitrary: b) (auto simp: numa_step_def split: if_splits)

definition fragment_allowed :: "('n, 'p) dt_view \<Rightarrow> ('m, 'q) dt_view \<Rightarrow> 'n fragment \<Rightarrow> bool" where
  "fragment_allowed V B frag \<longleftrightarrow> (\<exists>path0. frag_target frag = TargetPath path0 \<and>
    (let path = normal_path path0; n = frag_node frag in
     (path = ''/'' \<and> node_properties V n = [] \<and>
        (\<forall>c\<in>set (node_children V n).
           let seg = top_segment (node_name V c) in
           seg = ''memory'' \<and> memory_allowed V c \<or> seg = ''distance-map'' \<or>
           seg = ''cpus'' \<and> cpus_allowed V c)) \<or>
     (path = ''/cpus'' \<and> cpus_allowed V n) \<or>
     path = ''/distance-map'' \<or>
     (memory_path path \<and> memory_allowed V n) \<or>
     (path \<notin> {''/'', ''/cpus'', ''/distance-map''} \<and> \<not> memory_path path \<and> find_path B path \<noteq> None \<and>
        node_children V n = [] \<and> prop_name V ` set (node_properties V n) = {''numa-node-id''})))"

lemma validate_host_dtbo_iff:
  "(validate_host_dtbo V B overlay :: 'd validation_error + unit) = Inr () \<longleftrightarrow> (\<forall>frag\<in>set overlay. fragment_allowed V B frag)"
proof -
  have root: "(classify_root_child V c :: 'd validation_error + unit) = Inr () \<longleftrightarrow>
      (let seg = top_segment (node_name V c) in
           seg = ''memory'' \<and> memory_allowed V c \<or> seg = ''distance-map'' \<or>
           seg = ''cpus'' \<and> cpus_allowed V c)" for c
    by (simp add: classify_root_child_def Let_def check_memory_node_iff check_cpus_additions_iff)
  have mp: "\<not> memory_path ''/''" "\<not> memory_path ''/cpus''" "\<not> memory_path ''/distance-map''"
    by (simp_all add: memory_path_def)
  have "(classify_fragment V B path0 frag :: 'd validation_error + unit) = Inr () \<longleftrightarrow> fragment_allowed V B frag"
    if t: "frag_target frag = TargetPath path0" for frag path0
  proof -
    consider (root) "normal_path path0 = ''/''" | (cpus) "normal_path path0 = ''/cpus''"
      | (dist) "normal_path path0 = ''/distance-map''" | (mem) "memory_path (normal_path path0)"
      | (other) "normal_path path0 \<notin> {''/'', ''/cpus'', ''/distance-map''}" "\<not> memory_path (normal_path path0)"
      by blast
    then show ?thesis
    proof cases
      case mem
      then have "normal_path path0 \<notin> {''/'', ''/cpus'', ''/distance-map''}" using mp by auto
      with mem show ?thesis
        by (simp add: classify_fragment_def fragment_allowed_def t Let_def check_memory_node_iff)
    next
      case other
      then show ?thesis
        by (auto simp: classify_fragment_def fragment_allowed_def t Let_def rbind_eq_Inr numa_fold_iff
            image_singleton_iff split: if_splits)
    qed (auto simp: classify_fragment_def fragment_allowed_def t Let_def mp try_each_Inr root
        check_cpus_additions_iff)
  qed
  then have "(check_fragment V B frag :: 'd validation_error + unit) = Inr () \<longleftrightarrow> fragment_allowed V B frag"
    for frag
    by (cases "frag_target frag") (simp_all add: check_fragment_def fragment_allowed_def)
  then show ?thesis by (simp add: validate_host_dtbo_def try_each_Inr)
qed

text \<open>
  C17. The host overlay is accepted exactly when every fragment targets a path and is one of: a root
  fragment without properties whose children are memory nodes, the distance map or the cpus
  container; the cpus container (only its two cell properties, only cpu children, none of them
  with a phandle); the distance map; a memory node (whole \<open>reg\<close> pairs that do not wrap); or
  the property \<open>numa-node-id\<close> alone on a node that the measured base declares.
\<close>

theorem validate_host_dtbo_accepts:
  "(validate_host_dtbo V B overlay :: 'd validation_error + unit) = Inr () \<longleftrightarrow> (\<forall>frag\<in>set overlay. fragment_allowed V B frag)"
  by (rule validate_host_dtbo_iff)

section \<open>Witnesses\<close>

text \<open>
  RAM, a device, and a cpu that spins in the RAM; and the overlay that adds the cpu.
\<close>

definition demo_cpus :: dnode where
  "demo_cpus = DNode ''cpus'' [(''#address-cells'', u32_cells [1]), (''#size-cells'', u32_cells [0])]
     [DNode ''cpu@0'' [(''reg'', u32_cells [0]), (''cpu-release-addr'', u32_cells [0, 0x40001000])] []]"

definition demo_memory :: dnode where
  "demo_memory = DNode ''memory@40000000'' [(''reg'', u32_cells [0, 0x40000000, 0, 0x10000000])] []"

definition demo_merged :: dnode where
  "demo_merged = DNode '''' [] [demo_memory,
     DNode ''intc@8000000'' [(''reg'', u32_cells [0, 0x8000000, 0, 0x10000])] [], demo_cpus]"

definition demo_overlay :: "dnode fragment list" where
  "demo_overlay =
    [\<lparr>frag_target = TargetPath ''/'', frag_node = DNode '''' [] [demo_memory, demo_cpus]\<rparr>,
     \<lparr>frag_target = TargetPath ''/intc@8000000/'',
      frag_node = DNode '''' [(''numa-node-id'', u32_cells [0])] []\<rparr>]"

lemma demo_merged_valid: "(validate_merged (dt_tree demo_merged) 48 :: unit validation_error + unit) = Inr ()"
  by code_simp

theorem validate_merged_accepts_witness:
  "length (regions_of (dt_tree demo_merged)
      (memory_nodes (dt_tree demo_merged) (node_children (dt_tree demo_merged) demo_merged))) \<le> MAX_MEMORY_REGIONS \<and>
   addrs \<lparr>rg_gpa = 0x40000000, rg_size = 0x10000000\<rparr> \<inter> addrs \<lparr>rg_gpa = 0x8000000, rg_size = 0x10000\<rparr> = {}"
proof -
  let ?V = "dt_tree demo_merged"
  have kids: "node_children ?V (tree_root ?V) = node_children ?V demo_merged"
    by (simp add: dt_tree_def)
  have m: "\<lparr>rg_gpa = 0x40000000, rg_size = 0x10000000\<rparr> \<in>
      set (regions_of ?V (memory_nodes ?V (node_children ?V demo_merged)))" by code_simp
  have d: "\<lparr>rg_gpa = 0x8000000, rg_size = 0x10000\<rparr> \<in>
      set (regions_of ?V (device_nodes ?V (node_children ?V demo_merged)))" by code_simp
  show ?thesis
    using validate_merged_accepts [of ?V 48, THEN iffD1, OF demo_merged_valid] m d
    unfolding kids by blast
qed

theorem validate_host_dtbo_accepts_witness:
  "fragment_allowed (dt_tree demo_merged) (dt_tree demo_merged) (hd demo_overlay)"
proof -
  have "(validate_host_dtbo (dt_tree demo_merged) (dt_tree demo_merged) demo_overlay
      :: unit validation_error + unit) = Inr ()" by code_simp
  from validate_host_dtbo_accepts [THEN iffD1, OF this]
  show ?thesis by (rule bspec) (simp add: demo_overlay_def)
qed

end
