(* ===== verification/X86Boot.thy ===== *)
theory X86Boot
  imports Populate E820 Validate
begin

text \<open>
  The x86_64 finalisation of \<open>tatu\<close> (src/deps/tatu/src/arch_x86_64.rs): the command line and
  initrd of \<open>/chosen\<close>, the zero page of the Linux boot protocol with its e820 table, the ACPI
  workspace, and the application of the kernel's relocation tables.

  The address of a property's bytes in memory, the \<open>RDRAND\<close> results and the \<open>CPUID\<close> leaf
  are arguments. \<open>boot_params_bytes\<close> is the memory image of the \<open>repr(C)\<close> structure, so the
  offsets of the protocol can be checked against it.
\<close>

section \<open>Constants\<close>

definition OEM :: oem_identity where
  "OEM = \<lparr>oem_id = str_bytes ''TATU  '', oem_table_id = str_bytes ''TATUOEM '', oem_revision = 1,
          creator_id = str_bytes ''TATU'', creator_revision = 1\<rparr>"

definition ACPI_WORKSPACE_SIZE :: nat where "ACPI_WORKSPACE_SIZE = 320 * 1024"
definition E820_MAX_ENTRIES :: nat where "E820_MAX_ENTRIES = 128"
definition HEADER_MAGIC_VAL :: u32 where "HEADER_MAGIC_VAL = 0x53726448"
definition BOOT_FLAG_VAL :: u16 where "BOOT_FLAG_VAL = 0xAA55"
definition LOADED_HIGH :: u8 where "LOADED_HIGH = 0x01"
definition LOADER_TYPE_TATU :: u8 where "LOADER_TYPE_TATU = 0xE0"
definition LOAD_PHYSICAL_ADDR :: u64 where "LOAD_PHYSICAL_ADDR = 0x1000000"
definition KERNEL_IMAGE_SIZE :: u64 where "KERNEL_IMAGE_SIZE = 0x40000000"
definition KASLR_ALIGN :: u64 where "KASLR_ALIGN = 0x200000"

section \<open>The readers of /chosen\<close>

definition read_uint :: "bytes \<Rightarrow> u64 option" where
  "read_uint bs =
    (if length bs = 4 then Some (ucast (from_be bs :: u32))
     else if length bs = 8 then Some (from_be bs) else None)"

definition cmdline_from_dtb :: "('n, 'p) dt_view \<Rightarrow> ('p \<Rightarrow> u64) \<Rightarrow> u64 option" where
  "cmdline_from_dtb V prop_addr =
    (case find_path V ''/chosen'' of None \<Rightarrow> None
     | Some chosen \<Rightarrow> map_option prop_addr (node_property V chosen ''bootargs''))"

record initrd =
  rd_gpa :: u64
  rd_size :: u64

definition initrd_none :: initrd where
  "initrd_none = \<lparr>rd_gpa = 0, rd_size = 0\<rparr>"

definition initrd_from_dtb :: "('n, 'p) dt_view \<Rightarrow> initrd" where
  "initrd_from_dtb V =
    (case find_path V ''/chosen'' of None \<Rightarrow> initrd_none
     | Some chosen \<Rightarrow>
        (case (node_property V chosen ''linux,initrd-start'', node_property V chosen ''linux,initrd-end'') of
           (Some start_p, Some end_p) \<Rightarrow>
             (case (read_uint (prop_bytes V start_p), read_uint (prop_bytes V end_p)) of
                (Some start, Some end_) \<Rightarrow>
                  (if end_ < start then initrd_none
                   else \<lparr>rd_gpa = start, rd_size = end_ - start\<rparr>)
              | _ \<Rightarrow> initrd_none)
         | _ \<Rightarrow> initrd_none))"

section \<open>The zero page\<close>

record setup_header =
  sh_setup_sects :: u8
  sh_boot_flag :: u16
  sh_header :: u32
  sh_type_of_loader :: u8
  sh_loadflags :: u8
  sh_code32_start :: u32
  sh_ramdisk_image :: u32
  sh_ramdisk_size :: u32
  sh_cmd_line_ptr :: u32

record boot_params =
  bp_acpi_rsdp_addr :: u64
  bp_e820_entries :: u8
  bp_setup_header :: setup_header
  bp_e820_table :: "e820_entry list"

definition zeros :: "nat \<Rightarrow> bytes" where
  "zeros n = replicate n 0"

definition setup_header_bytes :: "setup_header \<Rightarrow> bytes" where
  "setup_header_bytes h =
    [sh_setup_sects h] @ zeros (0x0D - 0x01) @ le_bytes 2 (sh_boot_flag h) @ zeros (0x11 - 0x0F) @
    le_bytes 4 (sh_header h) @ zeros (0x1F - 0x15) @ [sh_type_of_loader h, sh_loadflags h] @
    zeros (0x23 - 0x21) @ le_bytes 4 (sh_code32_start h) @ le_bytes 4 (sh_ramdisk_image h) @
    le_bytes 4 (sh_ramdisk_size h) @ zeros (0x37 - 0x2F) @ le_bytes 4 (sh_cmd_line_ptr h) @
    zeros (0x7F - 0x3B)"

definition e820_entry_bytes :: "e820_entry \<Rightarrow> bytes" where
  "e820_entry_bytes e = le_bytes 8 (ee_addr e) @ le_bytes 8 (ee_size e) @ le_bytes 4 (e820_code (ee_kind e))"

definition boot_params_bytes :: "boot_params \<Rightarrow> bytes" where
  "boot_params_bytes p =
    zeros 0x70 @ le_bytes 8 (bp_acpi_rsdp_addr p) @ zeros (0x1E8 - 0x78) @ [bp_e820_entries p] @
    zeros (0x1F1 - 0x1E9) @ setup_header_bytes (bp_setup_header p) @ zeros (0x2D0 - 0x270) @
    concat (map e820_entry_bytes (bp_e820_table p)) @ zeros (0x1000 - 0x2D0 - E820_MAX_ENTRIES * 20)"

definition boot_params_zeroed :: boot_params where
  "boot_params_zeroed =
    \<lparr>bp_acpi_rsdp_addr = 0, bp_e820_entries = 0,
     bp_setup_header =
       \<lparr>sh_setup_sects = 0, sh_boot_flag = 0, sh_header = 0, sh_type_of_loader = 0, sh_loadflags = 0,
        sh_code32_start = 0, sh_ramdisk_image = 0, sh_ramdisk_size = 0, sh_cmd_line_ptr = 0\<rparr>,
     bp_e820_table = replicate E820_MAX_ENTRIES e820_default\<rparr>"

fun map_e820_err :: "e820_error \<Rightarrow> 'd validation_error" where
  "map_e820_err BufferFull = TooManyMemoryRegions"
| "map_e820_err BadRegShape = BadPropertyShape"

text \<open>\<open>T::try_from(x)\<close> to a narrower unsigned type.\<close>

definition try_u32 :: "'e \<Rightarrow> u64 \<Rightarrow> 'e + u32" where
  "try_u32 e x = (if unat x < 2 ^ 32 then Inr (ucast x) else Inl e)"

definition fill_e820 :: "('n, 'p) dt_view \<Rightarrow> u64 \<Rightarrow> boot_params \<Rightarrow> 'd validation_error + boot_params" where
  "fill_e820 V rsdp_gpa bp =
    rbind (guard_err TooManyMemoryRegions (0 < length (bp_e820_table bp))) (\<lambda>_.
    let table = (bp_e820_table bp)[0 := \<lparr>ee_addr = rsdp_gpa,
          ee_size = word_of_nat ACPI_WORKSPACE_SIZE, ee_kind = E820Acpi\<rparr>] in
    rbind (guard_err TooManyMemoryRegions (1 \<le> length table)) (\<lambda>_.
    rbind (map_err map_e820_err (extract_e820 V (drop 1 table))) (\<lambda>(n, rest).
    let cnt = min (n + 1) usize_max in
    rbind (if cnt < 256 then Inr (word_of_nat cnt) else Inl TooManyMemoryRegions) (\<lambda>entries.
      Inr (bp\<lparr>bp_e820_table := take 1 table @ rest, bp_e820_entries := entries\<rparr>)))))"

definition fill_elf ::
  "u64 \<Rightarrow> initrd \<Rightarrow> u64 \<Rightarrow> ('n, 'p) dt_view \<Rightarrow> boot_params \<Rightarrow> 'd validation_error + boot_params" where
  "fill_elf cmdline rd rsdp_gpa V bp =
    rbind (try_u32 AddressOverflow cmdline) (\<lambda>cmd_line_ptr.
    rbind (try_u32 AddressOverflow (rd_gpa rd)) (\<lambda>ramdisk_image.
    rbind (try_u32 AddressOverflow (rd_size rd)) (\<lambda>ramdisk_size.
      fill_e820 V rsdp_gpa
        (bp\<lparr>bp_setup_header := (bp_setup_header bp)
             \<lparr>sh_boot_flag := BOOT_FLAG_VAL, sh_header := HEADER_MAGIC_VAL,
              sh_type_of_loader := LOADER_TYPE_TATU, sh_loadflags := LOADED_HIGH,
              sh_ramdisk_image := ramdisk_image, sh_ramdisk_size := ramdisk_size,
              sh_cmd_line_ptr := cmd_line_ptr\<rparr>,
             bp_acpi_rsdp_addr := rsdp_gpa\<rparr>))))"

definition build_boot_params_elf ::
  "u64 \<Rightarrow> initrd \<Rightarrow> u64 \<Rightarrow> ('n, 'p) dt_view \<Rightarrow> 'd validation_error + boot_params" where
  "build_boot_params_elf cmdline rd rsdp_gpa V = fill_elf cmdline rd rsdp_gpa V boot_params_zeroed"

text \<open>\<open>AcpiTables::generate\<close>: the workspace after the call and the address of the RSDP.\<close>

definition acpi_generate ::
  "('n, 'p) dt_view \<Rightarrow> u64 \<Rightarrow> bytes \<Rightarrow> 'd validation_error + u64 \<times> bytes" where
  "acpi_generate V gpa buf =
    rbind (map_err (\<lambda>_. BadPropertyShape) (populate V OEM gpa buf)) (\<lambda>(_, buf').
      Inr (gpa, buf'))"

section \<open>KASLR\<close>

definition guest_pa_bits :: "u32 \<Rightarrow> u32" where
  "guest_pa_bits eax = eax AND 0xFF"

text \<open>The results of \<open>RDRAND\<close>, a value and its carry flag; \<open>None\<close> stands for the halt.\<close>

definition rand_u64 :: "(nat \<Rightarrow> u64 \<times> bool) \<Rightarrow> u64 option" where
  "rand_u64 rdrand = map_option (\<lambda>i. fst (rdrand i)) (position (\<lambda>i. snd (rdrand i)) [0..<100])"

definition saturating_sub :: "u64 \<Rightarrow> u64 \<Rightarrow> u64" where
  "saturating_sub a b = (if b \<le> a then a - b else 0)"

definition kaslr_delta :: "u32 \<Rightarrow> u64 \<Rightarrow> u64" where
  "kaslr_delta alloc_size r =
    (let headroom = saturating_sub (saturating_sub KERNEL_IMAGE_SIZE (ucast alloc_size)) LOAD_PHYSICAL_ADDR;
         slots = headroom div KASLR_ALIGN + 1
     in (r mod slots) * KASLR_ALIGN)"

text \<open>One relocation site: read, adjust and rewrite \<open>n\<close> bytes, if they lie in the image.\<close>

definition reloc64 :: "u64 \<Rightarrow> bytes \<Rightarrow> u32 \<Rightarrow> bytes" where
  "reloc64 delta img off =
    (case get_range img (unat off) (unat off + 8) of
       None \<Rightarrow> img
     | Some s \<Rightarrow> copy_at img (unat off) (le_bytes 8 (from_le s + delta :: u64)))"

definition reloc32neg :: "u64 \<Rightarrow> bytes \<Rightarrow> u32 \<Rightarrow> bytes" where
  "reloc32neg delta img off =
    (case get_range img (unat off) (unat off + 4) of
       None \<Rightarrow> img
     | Some s \<Rightarrow> copy_at img (unat off) (le_bytes 4 (from_le s - ucast delta :: u32)))"

definition reloc32 :: "u64 \<Rightarrow> bytes \<Rightarrow> u32 \<Rightarrow> bytes" where
  "reloc32 delta img off =
    (case get_range img (unat off) (unat off + 4) of
       None \<Rightarrow> img
     | Some s \<Rightarrow> copy_at img (unat off) (le_bytes 4 (from_le s + ucast delta :: u32)))"

definition apply_relocs :: "u64 \<Rightarrow> u32 list \<Rightarrow> u32 list \<Rightarrow> u32 list \<Rightarrow> bytes \<Rightarrow> bytes" where
  "apply_relocs delta relocs64 relocs32neg relocs32 img =
    foldl (reloc32 delta) (foldl (reloc32neg delta) (foldl (reloc64 delta) img relocs64) relocs32neg)
      relocs32"

text \<open>The counts are those of the boot information, \<open>words\<close> the relocation section.\<close>

definition apply_kaslr ::
  "u32 list \<Rightarrow> u32 \<Rightarrow> u32 \<Rightarrow> u32 \<Rightarrow> u32 \<Rightarrow> (nat \<Rightarrow> u64 \<times> bool) \<Rightarrow> bytes \<Rightarrow> bytes option" where
  "apply_kaslr words c64 c32n c32 alloc_size rdrand img =
    (if words = [] then Some img
     else if unat c64 + unat c32n + unat c32 \<noteq> length words then Some img
     else
       (let relocs64 = take (unat c64) words;
            relocs32neg = take (unat c32n) (drop (unat c64) words);
            relocs32 = drop (unat c64 + unat c32n) words
        in case rand_u64 rdrand of
             None \<Rightarrow> None
           | Some r \<Rightarrow>
              (let delta = kaslr_delta alloc_size r in
               if delta = 0 then Some img
               else Some (apply_relocs delta relocs64 relocs32neg relocs32 img))))"

section \<open>Layout of the zero page\<close>

lemma length_zeros [simp]: "length (zeros n) = n"
  by (simp add: zeros_def)

lemma length_setup_header_bytes [simp]: "length (setup_header_bytes h) = 0x7F"
  by (simp add: setup_header_bytes_def)

lemma length_e820_entry_bytes [simp]: "length (e820_entry_bytes e) = 20"
  by (simp add: e820_entry_bytes_def)

text \<open>Reading a little-endian field of \<open>n\<close> bytes at an offset.\<close>

definition field :: "nat \<Rightarrow> nat \<Rightarrow> bytes \<Rightarrow> 'a::len word" where
  "field off n bs = from_le (take n (drop off bs))"

lemma field_le_bytes: "LENGTH('a) = 8 * n \<Longrightarrow> from_le (le_bytes n w) = w" for w :: "'a::len word"
  by (simp add: from_le_le_bytes_full)

text \<open>
  C19. The memory image of the zero page has 4096 bytes, and the fields tatu sets are at the
  offsets of the 64-bit boot protocol: the RSDP address at 0x70, the number of e820 entries at
  0x1E8, the boot flag, the header magic, the loader type and flags, the ramdisk and the command
  line pointer at 0x1FE to 0x228, and the e820 entries of 20 bytes from 0x2D0.
\<close>

theorem boot_params_layout:
  assumes "length (bp_e820_table p) = E820_MAX_ENTRIES"
  shows "length (boot_params_bytes p) = 4096 \<and>
    field 0x70 8 (boot_params_bytes p) = bp_acpi_rsdp_addr p \<and>
    boot_params_bytes p ! 0x1E8 = bp_e820_entries p \<and>
    field 0x1FE 2 (boot_params_bytes p) = sh_boot_flag (bp_setup_header p) \<and>
    field 0x202 4 (boot_params_bytes p) = sh_header (bp_setup_header p) \<and>
    boot_params_bytes p ! 0x210 = sh_type_of_loader (bp_setup_header p) \<and>
    boot_params_bytes p ! 0x211 = sh_loadflags (bp_setup_header p) \<and>
    field 0x218 4 (boot_params_bytes p) = sh_ramdisk_image (bp_setup_header p) \<and>
    field 0x21C 4 (boot_params_bytes p) = sh_ramdisk_size (bp_setup_header p) \<and>
    field 0x228 4 (boot_params_bytes p) = sh_cmd_line_ptr (bp_setup_header p) \<and>
    (\<forall>i<E820_MAX_ENTRIES.
      take 20 (drop (0x2D0 + i * 20) (boot_params_bytes p)) = e820_entry_bytes (bp_e820_table p ! i))"
proof (intro conjI allI impI)
  have len: "length (concat (map e820_entry_bytes (bp_e820_table p))) = 2560"
    using assms by (subst length_concat_map [where k = 20]) (simp_all add: E820_MAX_ENTRIES_def)
  note defs = boot_params_bytes_def setup_header_bytes_def field_def field_le_bytes nth_append
  show "length (boot_params_bytes p) = 4096"
    by (simp add: boot_params_bytes_def len E820_MAX_ENTRIES_def)
  show "field 0x70 8 (boot_params_bytes p) = bp_acpi_rsdp_addr p" by (simp add: defs)
  show "boot_params_bytes p ! 0x1E8 = bp_e820_entries p" by (simp add: defs)
  show "field 0x1FE 2 (boot_params_bytes p) = sh_boot_flag (bp_setup_header p)" by (simp add: defs)
  show "field 0x202 4 (boot_params_bytes p) = sh_header (bp_setup_header p)" by (simp add: defs)
  show "boot_params_bytes p ! 0x210 = sh_type_of_loader (bp_setup_header p)" by (simp add: defs)
  show "boot_params_bytes p ! 0x211 = sh_loadflags (bp_setup_header p)" by (simp add: defs)
  show "field 0x218 4 (boot_params_bytes p) = sh_ramdisk_image (bp_setup_header p)" by (simp add: defs)
  show "field 0x21C 4 (boot_params_bytes p) = sh_ramdisk_size (bp_setup_header p)" by (simp add: defs)
  show "field 0x228 4 (boot_params_bytes p) = sh_cmd_line_ptr (bp_setup_header p)" by (simp add: defs)
  fix i
  assume i: "i < E820_MAX_ENTRIES"
  have "take 20 (drop (i * 20) (concat (map e820_entry_bytes (bp_e820_table p)))) = e820_entry_bytes (bp_e820_table p ! i)"
    by (rule concat_slice) (use i assms in simp_all)
  moreover have "drop 0x2D0 (boot_params_bytes p) = concat (map e820_entry_bytes (bp_e820_table p)) @
        zeros (0x1000 - 0x2D0 - E820_MAX_ENTRIES * 20)"
    by (simp add: boot_params_bytes_def)
  then have "drop (0x2D0 + i * 20) (boot_params_bytes p) =
      drop (i * 20) (concat (map e820_entry_bytes (bp_e820_table p)) @
        zeros (0x1000 - 0x2D0 - E820_MAX_ENTRIES * 20))"
    by (metis add.commute drop_drop)
  moreover have "i * 20 + 20 \<le> length (concat (map e820_entry_bytes (bp_e820_table p)))"
    using i len by (simp add: E820_MAX_ENTRIES_def)
  ultimately show "take 20 (drop (0x2D0 + i * 20) (boot_params_bytes p)) = e820_entry_bytes (bp_e820_table p ! i)"
    by simp
qed

section \<open>Building the zero page\<close>

lemma extract_e820_fresh:
  "extract_e820 V (replicate m e820_default) =
    (case e820_listing V of (es, bad) \<Rightarrow>
       if m < length es then Inl BufferFull else if bad then Inl BadRegShape
       else Inr (length es, es @ replicate (m - length es) e820_default))"
proof -
  obtain es bad where l: "e820_listing V = (es, bad)" by (cases "e820_listing V")
  have "extract_e820 V (replicate m e820_default) = put_listing (e820_listing V) (0, replicate m e820_default)"
    by (simp add: extract_e820_sources append_sources_eq e820_listing_def)
  then show ?thesis by (simp add: l put_listing_def)
qed

lemma build_boot_params_elf_iff:
  "build_boot_params_elf cmd rd gpa V =
    (if 2 ^ 32 \<le> unat cmd \<or> 2 ^ 32 \<le> unat (rd_gpa rd) \<or> 2 ^ 32 \<le> unat (rd_size rd)
     then Inl AddressOverflow
     else case e820_listing V of (es, bad) \<Rightarrow>
       if 127 < length es then Inl TooManyMemoryRegions
       else if bad then Inl BadPropertyShape
       else Inr \<lparr>bp_acpi_rsdp_addr = gpa, bp_e820_entries = word_of_nat (length es + 1),
         bp_setup_header =
           \<lparr>sh_setup_sects = 0, sh_boot_flag = 0xAA55, sh_header = 0x53726448, sh_type_of_loader = 0xE0,
            sh_loadflags = 1, sh_code32_start = 0, sh_ramdisk_image = ucast (rd_gpa rd),
            sh_ramdisk_size = ucast (rd_size rd), sh_cmd_line_ptr = ucast cmd\<rparr>,
         bp_e820_table = \<lparr>ee_addr = gpa, ee_size = 0x50000, ee_kind = E820Acpi\<rparr> # es @
           replicate (127 - length es) e820_default\<rparr>)"
proof -
  obtain es bad where l: "e820_listing V = (es, bad)" by (cases "e820_listing V")
  have rep: "replicate 128 e820_default = e820_default # replicate 127 e820_default"
    by (simp add: numeral_eq_Suc)
  have sz: "(word_of_nat ACPI_WORKSPACE_SIZE :: u64) = 0x50000"
    by (simp add: ACPI_WORKSPACE_SIZE_def)
  have fill: "fill_e820 V gpa bp = (if 127 < length es then Inl TooManyMemoryRegions
       else if bad then Inl BadPropertyShape
       else Inr (bp\<lparr>bp_e820_table := \<lparr>ee_addr = gpa, ee_size = 0x50000, ee_kind = E820Acpi\<rparr> # es @
           replicate (127 - length es) e820_default, bp_e820_entries := word_of_nat (length es + 1)\<rparr>))"
    if "bp_e820_table bp = replicate 128 e820_default" for bp :: boot_params
    unfolding fill_e820_def that rep
    by (simp add: extract_e820_fresh l sz usize_max_eq)
  show ?thesis
    by (auto simp: build_boot_params_elf_def fill_elf_def try_u32_def l fill boot_params_zeroed_def
        E820_MAX_ENTRIES_def BOOT_FLAG_VAL_def HEADER_MAGIC_VAL_def LOADER_TYPE_TATU_def LOADED_HIGH_def)
qed

text \<open>
  The zero page is built exactly when the command line pointer and the initrd fit 32 bits and
  the tree's e820 listing is well formed and has at most 127 entries; it then carries the boot
  magic, loader id and the three values, names the ACPI workspace as RSDP and as the first e820
  entry (type 3, the whole workspace), lists the tree's memory after it and counts both. Otherwise
  the error says which limit was exceeded.
\<close>

lemma build_boot_params_elf_result:
  "build_boot_params_elf cmd rd gpa V =
    (if 2 ^ 32 \<le> unat cmd \<or> 2 ^ 32 \<le> unat (rd_gpa rd) \<or> 2 ^ 32 \<le> unat (rd_size rd)
     then Inl AddressOverflow
     else case e820_listing V of (es, bad) \<Rightarrow>
       if 127 < length es then Inl TooManyMemoryRegions
       else if bad then Inl BadPropertyShape
       else Inr \<lparr>bp_acpi_rsdp_addr = gpa, bp_e820_entries = word_of_nat (length es + 1),
         bp_setup_header =
           \<lparr>sh_setup_sects = 0, sh_boot_flag = 0xAA55, sh_header = 0x53726448, sh_type_of_loader = 0xE0,
            sh_loadflags = 1, sh_code32_start = 0, sh_ramdisk_image = ucast (rd_gpa rd),
            sh_ramdisk_size = ucast (rd_size rd), sh_cmd_line_ptr = ucast cmd\<rparr>,
         bp_e820_table = \<lparr>ee_addr = gpa, ee_size = 0x50000, ee_kind = E820Acpi\<rparr> # es @
           replicate (127 - length es) e820_default\<rparr>)"
  by (rule build_boot_params_elf_iff)

section \<open>The KASLR offset\<close>

lemma unat_saturating_sub: "unat (saturating_sub a b) = unat a - unat b"
  by (simp add: saturating_sub_def unat_sub word_le_nat_alt)

lemma kaslr_delta_nat:
  "unat (kaslr_delta alloc r) =
    unat r mod ((0x3F000000 - unat alloc) div 0x200000 + 1) * 0x200000"
proof -
  let ?h = "0x3F000000 - unat alloc"
  let ?head = "saturating_sub (saturating_sub KERNEL_IMAGE_SIZE (ucast alloc)) LOAD_PHYSICAL_ADDR"
  have head: "unat ?head = ?h"
    by (simp add: unat_saturating_sub KERNEL_IMAGE_SIZE_def LOAD_PHYSICAL_ADDR_def unat_ucast_up)
  have div: "?h div 0x200000 \<le> 0x1F8"
    using div_le_mono [of ?h "0x3F000000" "0x200000"] by simp
  have slots: "unat (?head div KASLR_ALIGN + 1) = ?h div 0x200000 + 1"
  proof -
    have d: "unat (?head div KASLR_ALIGN) = ?h div 0x200000"
      by (simp add: unat_div head KASLR_ALIGN_def)
    then show ?thesis using div by (subst unat_Suc_word) (simp_all add: d)
  qed
  have m: "unat (r mod (?head div KASLR_ALIGN + 1)) = unat r mod (?h div 0x200000 + 1)"
    by (simp only: unat_mod slots)
  have le: "unat r mod (?h div 0x200000 + 1) \<le> 0x1F8"
  proof -
    have "unat r mod (?h div 0x200000 + 1) < ?h div 0x200000 + 1" by (rule mod_less_divisor) simp
    with div show ?thesis by linarith
  qed
  have "unat (kaslr_delta alloc r) = unat (r mod (?head div KASLR_ALIGN + 1)) * unat KASLR_ALIGN mod 2 ^ 64"
    by (simp add: kaslr_delta_def Let_def unat_word_ariths)
  also have "\<dots> = unat r mod (?h div 0x200000 + 1) * 0x200000"
    unfolding m using le by (simp add: KASLR_ALIGN_def)
  finally show ?thesis .
qed

text \<open>
  C22. The KASLR offset is a multiple of 2 MiB; if the kernel fits the image window at its link
  address, it still fits after the move; and every slot of the window is the offset of some random
  value.
\<close>

theorem kaslr_delta_bounds:
  "0x200000 dvd unat (kaslr_delta alloc r) \<and>
   (0x1000000 + unat alloc \<le> 0x40000000 \<longrightarrow>
     0x1000000 + unat (kaslr_delta alloc r) + unat alloc \<le> 0x40000000) \<and>
   (0x1000000 + k * 0x200000 + unat alloc \<le> 0x40000000 \<longrightarrow>
     unat (kaslr_delta alloc (word_of_nat k)) = k * 0x200000)"
proof (intro conjI impI)
  let ?h = "0x3F000000 - unat alloc"
  show "0x200000 dvd unat (kaslr_delta alloc r)" by (simp add: kaslr_delta_nat)
  show "0x1000000 + unat (kaslr_delta alloc r) + unat alloc \<le> 0x40000000"
    if "0x1000000 + unat alloc \<le> 0x40000000"
  proof -
    have "unat r mod (?h div 0x200000 + 1) \<le> ?h div 0x200000"
      by (metis Suc_eq_plus1 less_Suc_eq_le mod_less_divisor zero_less_Suc)
    then have "unat (kaslr_delta alloc r) \<le> ?h div 0x200000 * 0x200000"
      by (simp only: kaslr_delta_nat mult_le_mono1)
    also have "\<dots> \<le> ?h" by simp
    finally show ?thesis using that by simp
  qed
  show "unat (kaslr_delta alloc (word_of_nat k)) = k * 0x200000"
    if "0x1000000 + k * 0x200000 + unat alloc \<le> 0x40000000"
  proof -
    have "k * 0x200000 \<le> ?h" using that by simp
    then have k: "k \<le> ?h div 0x200000" by (simp add: less_eq_div_iff_mult_less_eq)
    have "k < 2 ^ 64" using that by simp
    then have "unat (word_of_nat k :: u64) = k" by (simp add: unat_of_nat)
    then show ?thesis using k by (simp add: kaslr_delta_nat)
  qed
qed

section \<open>Relocation\<close>

text \<open>The sites of the three tables, as disjoint ranges, and a site's new bytes.\<close>

datatype site_kind = Abs64 | Neg32 | Abs32

fun site_width :: "site_kind \<Rightarrow> nat" where
  "site_width Abs64 = 8"
| "site_width Neg32 = 4"
| "site_width Abs32 = 4"

fun site_value :: "u64 \<Rightarrow> site_kind \<Rightarrow> bytes \<Rightarrow> bytes" where
  "site_value delta Abs64 s = le_bytes 8 (from_le s + delta :: u64)"
| "site_value delta Neg32 s = le_bytes 4 (from_le s - ucast delta :: u32)"
| "site_value delta Abs32 s = le_bytes 4 (from_le s + ucast delta :: u32)"

definition site_range :: "site_kind \<times> u32 \<Rightarrow> nat set" where
  "site_range = (\<lambda>(k, off). {unat off ..< unat off + site_width k})"

definition reloc :: "u64 \<Rightarrow> bytes \<Rightarrow> site_kind \<times> u32 \<Rightarrow> bytes" where
  "reloc delta img st = (case st of (k, off) \<Rightarrow>
    (case get_range img (unat off) (unat off + site_width k) of
       None \<Rightarrow> img
     | Some s \<Rightarrow> copy_at img (unat off) (site_value delta k s)))"

definition sites :: "u32 list \<Rightarrow> u32 list \<Rightarrow> u32 list \<Rightarrow> (site_kind \<times> u32) list" where
  "sites relocs64 relocs32neg relocs32 =
    map (Pair Abs64) relocs64 @ map (Pair Neg32) relocs32neg @ map (Pair Abs32) relocs32"

definition disjoint_sites :: "(site_kind \<times> u32) list \<Rightarrow> bool" where
  "disjoint_sites ss = sorted_wrt (\<lambda>a b. site_range a \<inter> site_range b = {}) ss"

definition slice_at :: "bytes \<Rightarrow> site_kind \<times> u32 \<Rightarrow> bytes" where
  "slice_at img st = (case st of (k, off) \<Rightarrow> take (site_width k) (drop (unat off) img))"

lemma length_site_value [simp]: "length (site_value delta k s) = site_width k"
  by (cases k) simp_all

lemma apply_relocs_sites:
  "apply_relocs delta r64 r32n r32 img = foldl (reloc delta) img (sites r64 r32n r32)"
proof -
  have step: "reloc64 delta img off = reloc delta img (Abs64, off)"
    "reloc32neg delta img off = reloc delta img (Neg32, off)"
    "reloc32 delta img off = reloc delta img (Abs32, off)" for img off
    by (simp_all add: reloc_def reloc64_def reloc32neg_def reloc32_def split: option.split)
  have "foldl (\<lambda>img off. reloc delta img (k, off)) img offs = foldl (reloc delta) img (map (Pair k) offs)" for k img offs
    by (induction offs arbitrary: img) simp_all
  then show ?thesis by (simp add: apply_relocs_def sites_def step [abs_def])
qed

lemma length_reloc [simp]: "length (reloc delta img st) = length img"
  by (auto simp: reloc_def get_range_def split: prod.split option.split)

lemma reloc_site:
  "unat off + site_width k \<le> length img \<Longrightarrow>
    slice_at (reloc delta img (k, off)) (k, off) = site_value delta k (slice_at img (k, off))"
  using take_drop_copy_at [of "unat off" "site_value delta k (slice_at img (k, off))" img]
  by (simp add: reloc_def get_range_def slice_at_def)

lemma reloc_other_byte:
  assumes "i \<notin> site_range st" and "i < length img"
  shows "reloc delta img st ! i = img ! i"
proof (cases st)
  case (Pair k off)
  have out: "i < unat off \<or> unat off + site_width k \<le> i" using assms(1) by (auto simp: Pair site_range_def)
  show ?thesis
  proof (cases "unat off + site_width k \<le> length img")
    case True
    then show ?thesis using out assms(2)
      by (auto simp: Pair reloc_def get_range_def copy_at_def nth_append min_def)
  qed (simp add: Pair reloc_def get_range_def)
qed

lemma slice_at_nth:
  "i \<in> site_range (k, off) \<Longrightarrow> unat off + site_width k \<le> length xs \<Longrightarrow>
    slice_at xs (k, off) ! (i - unat off) = xs ! i"
  by (auto simp: slice_at_def site_range_def)

lemma slice_at_eqI:
  "length xs = length ys \<Longrightarrow> (\<And>i. i \<in> site_range st \<Longrightarrow> i < length xs \<Longrightarrow> xs ! i = ys ! i) \<Longrightarrow>
    slice_at xs st = slice_at ys st"
  by (auto simp: slice_at_def site_range_def intro!: nth_equalityI split: prod.split)

lemma length_relocs [simp]: "length (foldl (reloc delta) img ss) = length img"
  by (induction ss arbitrary: img) simp_all

lemma relocs_other_byte:
  "\<forall>st\<in>set ss. i \<notin> site_range st \<Longrightarrow> i < length img \<Longrightarrow> foldl (reloc delta) img ss ! i = img ! i"
  by (induction ss arbitrary: img) (simp_all add: reloc_other_byte)

lemma relocs_site:
  assumes "disjoint_sites ss" and "(k, off) \<in> set ss" and "unat off + site_width k \<le> length img"
  shows "slice_at (foldl (reloc delta) img ss) (k, off) = site_value delta k (slice_at img (k, off))"
  using assms
proof (induction ss arbitrary: img)
  case (Cons st ss)
  have dis: "disjoint_sites ss" and first: "\<And>t. t \<in> set ss \<Longrightarrow> site_range st \<inter> site_range t = {}"
    using Cons.prems(1) by (auto simp: disjoint_sites_def)
  show ?case
  proof (cases "(k, off) \<in> set ss")
    case True
    have "slice_at (reloc delta img st) (k, off) = slice_at img (k, off)"
    proof (rule slice_at_eqI)
      fix i assume "i \<in> site_range (k, off)" "i < length (reloc delta img st)"
      with first [OF True] have "i \<notin> site_range st" "i < length img" by auto
      then show "reloc delta img st ! i = img ! i" by (rule reloc_other_byte)
    qed simp
    then show ?thesis using Cons.IH [OF dis True, of "reloc delta img st"] Cons.prems(3) by simp
  next
    case False
    then have st: "st = (k, off)" using Cons.prems(2) by auto
    have "slice_at (foldl (reloc delta) (reloc delta img st) ss) (k, off) = slice_at (reloc delta img st) (k, off)"
      by (rule slice_at_eqI) (use first in \<open>auto simp: st intro!: relocs_other_byte\<close>)
    then show ?thesis using reloc_site [OF Cons.prems(3)] by (simp add: st)
  qed
qed simp

lemma le_bytes_from_le:
  "8 * length s \<le> LENGTH('a) \<Longrightarrow> le_bytes (length s) (from_le s :: 'a::len word) = s"
proof (induction s)
  case (Cons b bs)
  have small: "bit (from_le bs :: 'a word) i \<Longrightarrow> i < 8 * length bs" for i
    by (simp add: bit_from_le) (metis div_less_iff_less_mult mult.commute zero_less_numeral)
  have "(ucast (from_le (b # bs) :: 'a word) :: u8) = b"
    using Cons.prems by (intro bit_word_eqI) (auto simp: bit_simps)
  moreover have "drop_bit 8 (from_le (b # bs) :: 'a word) = from_le bs"
  proof (rule bit_word_eqI)
    fix i assume "i < LENGTH('a)"
    have "\<not> bit b (8 + i)" by (auto dest: bit_imp_le_length)
    then show "bit (drop_bit 8 (from_le (b # bs) :: 'a word)) i = bit (from_le bs :: 'a word) i"
      using small [of i] Cons.prems by (auto simp: bit_simps)
  qed
  ultimately show ?case using Cons by simp
qed simp

lemma ucast_uminus: "(ucast (- w) :: 32 word) = - ucast w" for w :: u64
proof -
  have add: "(ucast (a + b) :: 32 word) = ucast a + ucast b" for a b :: u64
    by transfer (simp add: take_bit_eq_mod mod_mod_cancel, rule mod_add_cong, simp_all add: mod_mod_cancel)
  have "(ucast w :: 32 word) + ucast (- w) = ucast (w + (- w))" by (rule add [symmetric])
  also have "\<dots> = 0" by simp
  finally show ?thesis by (simp add: eq_neg_iff_add_eq_0 add.commute)
qed

lemma site_value_inverse:
  assumes "length s = site_width k"
  shows "site_value (- delta) k (site_value delta k s) = s"
  using assms le_bytes_from_le [of s, where 'a = 64] le_bytes_from_le [of s, where 'a = 32]
  by (cases k) (simp_all add: from_le_le_bytes_full ucast_uminus)

lemma length_slice_at: "unat off + site_width k \<le> length img \<Longrightarrow> length (slice_at img (k, off)) = site_width k"
  by (simp add: slice_at_def)

text \<open>
  C21. Applying the relocation tables to a kernel image, with sites that do not overlap, keeps its
  length and every byte outside the sites; adds the offset to each 8-byte and 4-byte absolute site
  and subtracts it from each 4-byte per-CPU site that lies in the image; and applying the tables
  with the negated offset restores the image.
\<close>

theorem apply_relocs_effect:
  assumes "disjoint_sites (sites r64 r32n r32)"
  shows "length (apply_relocs delta r64 r32n r32 img) = length img \<and>
    (\<forall>i<length img. (\<forall>st\<in>set (sites r64 r32n r32). i \<notin> site_range st) \<longrightarrow>
      apply_relocs delta r64 r32n r32 img ! i = img ! i) \<and>
    (\<forall>(k, off)\<in>set (sites r64 r32n r32). unat off + site_width k \<le> length img \<longrightarrow>
      slice_at (apply_relocs delta r64 r32n r32 img) (k, off) = site_value delta k (slice_at img (k, off))) \<and>
    apply_relocs (- delta) r64 r32n r32 (apply_relocs delta r64 r32n r32 img) = img"
proof (intro conjI)
  let ?ss = "sites r64 r32n r32" and ?img = "apply_relocs delta r64 r32n r32 img"
  let ?undone = "apply_relocs (- delta) r64 r32n r32 ?img"
  show "length ?img = length img" by (simp add: apply_relocs_sites)
  show "\<forall>i<length img. (\<forall>st\<in>set ?ss. i \<notin> site_range st) \<longrightarrow> ?img ! i = img ! i"
    by (simp add: apply_relocs_sites relocs_other_byte)
  show "\<forall>(k, off)\<in>set ?ss. unat off + site_width k \<le> length img \<longrightarrow>
      slice_at ?img (k, off) = site_value delta k (slice_at img (k, off))"
    using relocs_site [OF assms] by (auto simp: apply_relocs_sites)
  show "?undone = img"
  proof (rule nth_equalityI)
    fix i assume "i < length ?undone"
    then have i: "i < length img" by (simp add: apply_relocs_sites)
    show "?undone ! i = img ! i"
    proof (cases "\<exists>(k, off)\<in>set ?ss. i \<in> site_range (k, off) \<and> unat off + site_width k \<le> length img")
      case True
      then obtain k off where st: "(k, off) \<in> set ?ss" "i \<in> site_range (k, off)"
        and fit: "unat off + site_width k \<le> length img" by auto
      have "slice_at ?undone (k, off) = site_value (- delta) k (slice_at ?img (k, off))"
        unfolding apply_relocs_sites by (rule relocs_site [OF assms st(1)]) (use fit in simp)
      also have "\<dots> = slice_at img (k, off)"
        using relocs_site [OF assms st(1) fit] site_value_inverse [OF length_slice_at [OF fit]]
        by (simp add: apply_relocs_sites)
      finally have "slice_at ?undone (k, off) ! (i - unat off) = slice_at img (k, off) ! (i - unat off)" by simp
      then show ?thesis using slice_at_nth [OF st(2), of ?undone] slice_at_nth [OF st(2) fit] fit
        by (simp add: apply_relocs_sites)
    next
      case False
      have skip: "foldl (reloc d) xs ss ! i = xs ! i"
        if "length xs = length img" "set ss \<subseteq> set ?ss" for d xs ss
        using that
      proof (induction ss arbitrary: xs)
        case (Cons st ss)
        have "reloc d xs st ! i = xs ! i"
        proof (cases "i \<in> site_range st")
          case True
          then have "reloc d xs st = xs" using False Cons.prems
            by (cases st) (fastforce simp: reloc_def get_range_def)
          then show ?thesis by simp
        qed (rule reloc_other_byte, use i Cons.prems in simp_all)
        then show ?case using Cons.IH [of "reloc d xs st"] Cons.prems by simp
      qed simp
      then show ?thesis by (simp add: apply_relocs_sites)
    qed
  qed (simp add: apply_relocs_sites)
qed

section \<open>The memory map of an accepted tree\<close>

text \<open>
  The documented behaviour of \<open>PropertyView::as_u32s\<close>: the big-endian cells of a value of whole
  cells.
\<close>

definition u32s_decode :: "('n, 'p) dt_view \<Rightarrow> bool" where
  "u32s_decode V \<longleftrightarrow> (\<forall>p. as_u32s V p =
    (if length (prop_bytes V p) mod 4 = 0 then Some (map from_be (chunks4 (prop_bytes V p))) else None))"

definition entry_of :: "e820_type \<Rightarrow> region \<Rightarrow> e820_entry" where
  "entry_of k r = \<lparr>ee_addr = rg_gpa r, ee_size = rg_size r, ee_kind = k\<rparr>"

lemma word_cat_from_be:
  assumes "length xs = 4" and "length ys = 4"
  shows "(word_cat (from_be xs :: u32) (from_be ys :: u32) :: u64) = from_be (xs @ ys)"
proof -
  have "(word_cat (from_be xs :: u32) (from_be ys :: u32) :: u64) =
      push_bit 32 (ucast (from_be xs :: u32)) OR ucast (from_be ys :: u32)"
    by (rule word_cat_eq [symmetric])
  also have "\<dots> = push_bit 32 (from_be xs) OR from_be ys"
    using assms by (simp add: ucast_from_be)
  finally show ?thesis using assms by (simp add: from_be_append)
qed

lemma chunks4_append: "length xs = 4 \<Longrightarrow> chunks4 (xs @ ys) = xs # chunks4 ys"
  by (cases xs rule: chunks4.cases) auto

lemma chunks16_append: "length xs = 16 \<Longrightarrow> chunks16 (xs @ ys) = xs # chunks16 ys"
proof -
  assume l: "length xs = 16"
  then have n: "length (xs @ ys) div 16 = Suc (length ys div 16)" by simp
  have u: "[0..<Suc (length ys div 16)] = 0 # map Suc [0..<length ys div 16]"
    by (simp add: upt_conv_Cons map_Suc_upt del: upt_Suc)
  show ?thesis unfolding chunks16_def n u using l by simp
qed

lemma cell_groups_chunks16:
  assumes "16 dvd length bs"
  shows "cell_groups (map from_be (chunks4 bs)) =
    (map (\<lambda>c. (rg_gpa (parse_one_region c), rg_size (parse_one_region c))) (chunks16 bs), False)"
proof -
  from assms obtain n where "length bs = 16 * n" by (rule dvdE)
  then show ?thesis
  proof (induction n arbitrary: bs)
    case 0
    then show ?case by (simp add: chunks16_def)
  next
    case (Suc n)
    let ?a = "take 4 bs" and ?b = "take 4 (drop 4 bs)" and ?c = "take 4 (drop 8 bs)"
      and ?d = "take 4 (drop 12 bs)" and ?rest = "drop 16 bs"
    have len: "length ?a = 4" "length ?b = 4" "length ?c = 4" "length ?d = 4" "length ?rest = 16 * n"
      using Suc.prems by simp_all
    have split: "bs = ?a @ ?b @ ?c @ ?d @ ?rest"
    proof -
      have "?d @ ?rest = drop 12 bs" using append_take_drop_id [of 4 "drop 12 bs"] by simp
      moreover have "?c @ drop 12 bs = drop 8 bs" using append_take_drop_id [of 4 "drop 8 bs"] by simp
      moreover have "?b @ drop 8 bs = drop 4 bs" using append_take_drop_id [of 4 "drop 4 bs"] by simp
      ultimately show ?thesis by simp
    qed
    have c4: "chunks4 bs = ?a # ?b # ?c # ?d # chunks4 ?rest"
      using len by (subst split) (simp only: chunks4_append)
    have c16: "chunks16 bs = (?a @ ?b @ ?c @ ?d) # chunks16 ?rest"
      using len chunks16_append [of "?a @ ?b @ ?c @ ?d" ?rest] split by simp
    have p: "parse_one_region (?a @ ?b @ ?c @ ?d) =
        \<lparr>rg_gpa = from_be (?a @ ?b), rg_size = from_be (?c @ ?d)\<rparr>"
      using len by (simp add: parse_one_region_def)
    show ?case unfolding c4 c16 using Suc.IH [OF len(5)] len
      by (simp add: p word_cat_from_be)
  qed
qed

lemma source_listing_whole:
  assumes "u32s_decode V" and "reg_whole V c"
  shows "source_listing V (k, c) = (map (entry_of k) (node_regions V c), False)"
proof (cases "node_property V c ''reg''")
  case None
  then show ?thesis by (simp add: source_listing_def node_regions_def)
next
  case (Some r)
  then have w: "16 dvd length (prop_bytes V r)" using assms(2) by (simp add: reg_whole_def)
  then have "length (prop_bytes V r) mod 4 = 0"
    by presburger
  then have "as_u32s V r = Some (map from_be (chunks4 (prop_bytes V r)))"
    using assms(1) by (simp add: u32s_decode_def)
  then show ?thesis
    using Some cell_groups_chunks16 [OF w]
    by (simp add: source_listing_def node_regions_def entry_of_def comp_def)
qed

lemma listing_of_append:
  "listing_of V (xs @ ys) = (case listing_of V xs of (es, bad) \<Rightarrow>
    if bad then (es, True) else (case listing_of V ys of (fs, bad') \<Rightarrow> (es @ fs, bad')))"
  by (induction xs) (auto split: prod.splits)

lemma source_listing_kind: "source_listing V (k, c) = (es, bad) \<Longrightarrow> e \<in> set es \<Longrightarrow> ee_kind e = k"
  by (auto simp: source_listing_def split: option.splits prod.splits)

lemma listing_of_reserved:
  "listing_of V (map (Pair E820Reserved) cs) = (es, bad) \<Longrightarrow> filter (\<lambda>e. ee_kind e = E820Usable) es = []"
proof (induction cs arbitrary: es bad)
  case (Cons c cs)
  obtain fs b where l: "source_listing V (E820Reserved, c) = (fs, b)"
    by (cases "source_listing V (E820Reserved, c)")
  obtain gs b' where l': "listing_of V (map (Pair E820Reserved) cs) = (gs, b')"
    by (cases "listing_of V (map (Pair E820Reserved) cs)")
  have "filter (\<lambda>e. ee_kind e = E820Usable) fs = []"
    using source_listing_kind [OF l] by (auto simp: filter_empty_conv)
  with Cons.IH [OF l'] Cons.prems show ?case by (auto simp: l l' split: if_splits)
qed simp

text \<open>The usable entries of a well-formed listing are the memory regions.\<close>

lemma listing_usable:
  assumes "u32s_decode V" and "\<forall>c\<in>set (memory_nodes V kids). reg_whole V c"
    and "listing_of V (concat (map (kid_sources V) kids)) = (es, False)"
  shows "filter (\<lambda>e. ee_kind e = E820Usable) es = map (entry_of E820Usable) (regions_of V (memory_nodes V kids))"
  using assms(2,3)
proof (induction kids arbitrary: es)
  case Nil
  then show ?case by (simp add: kids_with_def regions_of_def)
next
  case (Cons c kids)
  obtain fs b where l: "listing_of V (kid_sources V c) = (fs, b)" by (cases "listing_of V (kid_sources V c)")
  obtain gs b' where l': "listing_of V (concat (map (kid_sources V) kids)) = (gs, b')"
    by (cases "listing_of V (concat (map (kid_sources V) kids))")
  have nb: "\<not> b" "\<not> b'" and es: "es = fs @ gs"
    using Cons.prems(2) by (auto simp: listing_of_append l l' split: if_splits)
  have rest: "filter (\<lambda>e. ee_kind e = E820Usable) gs = map (entry_of E820Usable) (regions_of V (memory_nodes V kids))"
    by (rule Cons.IH) (use Cons.prems(1) l' nb in \<open>auto simp: kids_with_def\<close>)
  have same: "before_at (node_name V c) = top_segment (node_name V c)"
    by (simp add: before_at_def top_segment_def)
  have "filter (\<lambda>e. ee_kind e = E820Usable) fs = map (entry_of E820Usable) (regions_of V (memory_nodes V [c]))"
  proof (cases "top_segment (node_name V c) = ''memory''")
    case True
    then have "reg_whole V c" using Cons.prems(1) by (simp add: kids_with_def)
    then have "fs = map (entry_of E820Usable) (node_regions V c)"
      using l True by (simp add: kid_sources_def same source_listing_whole [OF assms(1)])
    with True show ?thesis by (simp add: kids_with_def regions_of_def filter_map comp_def entry_of_def)
  next
    case False
    have "filter (\<lambda>e. ee_kind e = E820Usable) fs = []"
    proof (cases "top_segment (node_name V c) = ''reserved-memory''")
      case True
      with l show ?thesis by (simp add: kid_sources_def same listing_of_reserved)
    next
      case F2: False
      have "kid_sources V c = [] \<or> kid_sources V c = map (Pair E820Reserved) [c]"
        using False F2 by (simp add: kid_sources_def same Let_def)
      with l listing_of_reserved [of V "[c]"] show ?thesis by auto
    qed
    with False show ?thesis by (simp add: kids_with_def regions_of_def)
  qed
  with rest show ?case by (simp add: es kids_with_Cons [of _ V c kids])
qed

lemma memory_map_of_accepted:
  fixes V :: "('n, 'p) dt_view" and pa :: u32
  defines "kids \<equiv> node_children V (tree_root V)"
  assumes valid: "(validate_merged V pa :: 'd validation_error + unit) = Inr ()"
    and decode: "u32s_decode V"
    and build: "(build_boot_params_elf cmd rd gpa V :: 'd validation_error + boot_params) = Inr bp"
  shows "filter (\<lambda>e. ee_kind e = E820Usable) (bp_e820_table bp) =
      map (entry_of E820Usable) (regions_of V (memory_nodes V kids)) \<and>
    (\<forall>m\<in>set (regions_of V (memory_nodes V kids)). fits pa m \<and>
      (\<forall>d\<in>set (regions_of V (device_nodes V kids)). addrs m \<inter> addrs d = {}))"
proof -
  obtain es bad where l: "e820_listing V = (es, bad)" by (cases "e820_listing V")
  have bp: "\<not> bad" "bp_e820_table bp = \<lparr>ee_addr = gpa, ee_size = 0x50000, ee_kind = E820Acpi\<rparr> # es @
      replicate (127 - length es) e820_default"
    using build unfolding build_boot_params_elf_iff l by (auto split: if_splits)
  have src: "e820_sources V = concat (map (kid_sources V) kids)"
    by (simp add: e820_sources_def kids_def)
  have acc: "\<forall>c\<in>set (memory_nodes V kids). reg_whole V c"
    "\<forall>m\<in>set (regions_of V (memory_nodes V kids)). fits pa m \<and>
      (\<forall>d\<in>set (regions_of V (device_nodes V kids)). addrs m \<inter> addrs d = {})"
    using validate_merged_iff [THEN iffD1, OF valid] unfolding kids_def by auto
  have "filter (\<lambda>e. ee_kind e = E820Usable) es = map (entry_of E820Usable) (regions_of V (memory_nodes V kids))"
    by (rule listing_usable [OF decode acc(1)]) (use l bp(1) in \<open>simp add: e820_listing_def src\<close>)
  then show ?thesis using acc(2) by (simp add: bp(2) e820_default_def)
qed

text \<open>
  C18. When \<open>tatu\<close> builds the zero page from a merged tree that its validation accepted, the usable
  entries of the e820 table are exactly the memory regions of the tree, in document order, and
  each is non-empty, ends within the physical address space and shares no address with a device
  region.
\<close>

theorem accepted_memory_map:
  fixes V :: "('n, 'p) dt_view" and pa :: u32
  defines "kids \<equiv> node_children V (tree_root V)"
  assumes valid: "(validate_merged V pa :: 'd validation_error + unit) = Inr ()"
    and decode: "u32s_decode V"
    and build: "(build_boot_params_elf cmd rd gpa V :: 'd validation_error + boot_params) = Inr bp"
  shows "filter (\<lambda>e. ee_kind e = E820Usable) (bp_e820_table bp) =
      map (entry_of E820Usable) (regions_of V (memory_nodes V kids)) \<and>
    (\<forall>m\<in>set (regions_of V (memory_nodes V kids)). fits pa m \<and>
      (\<forall>d\<in>set (regions_of V (device_nodes V kids)). addrs m \<inter> addrs d = {}))"
  unfolding kids_def by (rule memory_map_of_accepted [OF assms(2-4)])

section \<open>Witnesses\<close>

theorem boot_params_layout_witness: "length (boot_params_bytes boot_params_zeroed) = 4096"
  using boot_params_layout [of boot_params_zeroed] by (simp add: boot_params_zeroed_def)

theorem kaslr_delta_bounds_witness:
  "0x1000000 + unat (kaslr_delta 0x2000000 77) + 0x2000000 \<le> (0x40000000 :: nat) \<and>
   unat (kaslr_delta 0x2000000 (word_of_nat 3)) = 0x600000"
  using kaslr_delta_bounds [of "0x2000000" 77 3] by simp

theorem apply_relocs_effect_witness:
  "slice_at (apply_relocs 0x200000 [0] [8] [12] (replicate 16 1)) (Neg32, 8) =
    site_value 0x200000 Neg32 [1, 1, 1, 1] \<and>
   apply_relocs (- 0x200000) [0] [8] [12] (apply_relocs 0x200000 [0] [8] [12] (replicate 16 1)) = replicate 16 1"
proof -
  have "disjoint_sites (sites [0] [8] [12])"
    by (auto simp: disjoint_sites_def sites_def site_range_def)
  from apply_relocs_effect [OF this, of "0x200000" "replicate 16 1"]
  have "\<forall>(k, off)\<in>set (sites [0] [8] [12]). unat off + site_width k \<le> length (replicate 16 (1 :: u8)) \<longrightarrow>
      slice_at (apply_relocs 0x200000 [0] [8] [12] (replicate 16 1)) (k, off) =
      site_value 0x200000 k (slice_at (replicate 16 1) (k, off))"
    and "apply_relocs (- 0x200000) [0] [8] [12] (apply_relocs 0x200000 [0] [8] [12] (replicate 16 1)) =
      replicate 16 1" by blast+
  moreover have "slice_at (replicate 16 1) (Neg32, 8) = [1, 1, 1, 1]" by code_simp
  ultimately show ?thesis by (simp add: sites_def)
qed

theorem accepted_memory_map_witness:
  "\<exists>bp. (build_boot_params_elf 0x1000 initrd_none 0xA0000 (dt_tree demo_merged) :: unit validation_error + boot_params) = Inr bp \<and>
    filter (\<lambda>e. ee_kind e = E820Usable) (bp_e820_table bp) =
      [\<lparr>ee_addr = 0x40000000, ee_size = 0x10000000, ee_kind = E820Usable\<rparr>]"
proof -
  let ?V = "dt_tree demo_merged"
  have "e820_listing ?V = ([\<lparr>ee_addr = 0x40000000, ee_size = 0x10000000, ee_kind = E820Usable\<rparr>], False)"
    by code_simp
  then obtain bp where bp: "(build_boot_params_elf 0x1000 initrd_none 0xA0000 ?V :: unit validation_error + boot_params) = Inr bp"
    by (simp add: build_boot_params_elf_iff initrd_none_def)
  have "u32s_decode ?V" by (simp add: u32s_decode_def dt_tree_def)
  from accepted_memory_map [OF demo_merged_valid this bp]
  have "filter (\<lambda>e. ee_kind e = E820Usable) (bp_e820_table bp) =
      map (entry_of E820Usable) (regions_of ?V (memory_nodes ?V (node_children ?V (tree_root ?V))))" by blast
  also have "\<dots> = [\<lparr>ee_addr = 0x40000000, ee_size = 0x10000000, ee_kind = E820Usable\<rparr>]" by code_simp
  finally show ?thesis using bp by blast
qed

end
