(* ===== verification/TatuMain.thy ===== *)
theory TatuMain
  imports X86Boot
begin

text \<open>
  The life cycle of \<open>tatu\<close>: the boot information that \<open>arma\<close> writes and \<open>tatu\<close> reads
  (src/src/bootinfo.rs, src/deps/tatu/src/bootinfo.rs), the KASLR seed overlay (kaslr.rs,
  arch_aarch64.rs), the merge (merge.rs) and the sequence of steps of \<open>rust_main\<close> up to the jump
  into the kernel (main.rs).

  The devicetree crate is the record \<open>devtree_api\<close>: parsing, overlay parsing and overlay
  application. Guest memory is a function from an address and a length to bytes. \<open>Inl msg\<close> is
  the halt with that message; the kernel entry is the value of the last step.
\<close>

section \<open>Boot information\<close>

definition MAGIC :: bytes where "MAGIC = str_bytes ''TATUBOOT''"

text \<open>The structure as \<open>tatu\<close> declares it (\<open>repr(C)\<close>).\<close>

record tatu_boot_info =
  ti_magic :: bytes
  ti_base_dtb_gpa :: u64
  ti_host_dtbo_gpa :: u64
  ti_kernel_gpa :: u64
  ti_kernel_entry_gpa :: u64
  ti_relocs_gpa :: u64
  ti_base_dtb_size :: u32
  ti_host_dtbo_size :: u32
  ti_kernel_size :: u32
  ti_kernel_alloc_size :: u32
  ti_relocs64_count :: u32
  ti_relocs32neg_count :: u32
  ti_relocs32_count :: u32

definition tatu_boot_info_zero :: tatu_boot_info where
  "tatu_boot_info_zero =
    \<lparr>ti_magic = replicate 8 0, ti_base_dtb_gpa = 0, ti_host_dtbo_gpa = 0, ti_kernel_gpa = 0,
     ti_kernel_entry_gpa = 0, ti_relocs_gpa = 0, ti_base_dtb_size = 0, ti_host_dtbo_size = 0,
     ti_kernel_size = 0, ti_kernel_alloc_size = 0, ti_relocs64_count = 0, ti_relocs32neg_count = 0,
     ti_relocs32_count = 0\<rparr>"

text \<open>The layout rule of \<open>repr(C)\<close>: each field at the next multiple of its alignment.\<close>

fun repr_c_offsets :: "nat \<Rightarrow> (nat \<times> nat) list \<Rightarrow> nat list" where
  "repr_c_offsets pos [] = []"
| "repr_c_offsets pos ((sz, al) # fs) =
    (let off = (pos + (al - 1)) div al * al in off # repr_c_offsets (off + sz) fs)"

definition tatu_fields :: "(nat \<times> nat) list" where
  "tatu_fields = (8, 1) # replicate 5 (8, 8) @ replicate 7 (4, 4) @ [(4096 - 76, 1)]"

text \<open>What \<open>tatu\<close> sees in the section at run time.\<close>

definition tatu_view :: "bytes \<Rightarrow> tatu_boot_info" where
  "tatu_view bs =
    (let fo = (\<lambda>i. repr_c_offsets 0 tatu_fields ! i) in
     \<lparr>ti_magic = take 8 (drop (fo 0) bs),
      ti_base_dtb_gpa = field (fo 1) 8 bs, ti_host_dtbo_gpa = field (fo 2) 8 bs,
      ti_kernel_gpa = field (fo 3) 8 bs, ti_kernel_entry_gpa = field (fo 4) 8 bs,
      ti_relocs_gpa = field (fo 5) 8 bs, ti_base_dtb_size = field (fo 6) 4 bs,
      ti_host_dtbo_size = field (fo 7) 4 bs, ti_kernel_size = field (fo 8) 4 bs,
      ti_kernel_alloc_size = field (fo 9) 4 bs, ti_relocs64_count = field (fo 10) 4 bs,
      ti_relocs32neg_count = field (fo 11) 4 bs, ti_relocs32_count = field (fo 12) 4 bs\<rparr>)"

text \<open>The packed structure of \<open>arma\<close> and its constructor.\<close>

definition HEADER_SIZE :: nat where "HEADER_SIZE = 76"
definition SECTION_SIZE :: nat where "SECTION_SIZE = 4096"

record arma_boot_info =
  ai_magic :: bytes
  ai_base_dtb_gpa :: u64
  ai_host_dtbo_gpa :: u64
  ai_kernel_gpa :: u64
  ai_kernel_entry_gpa :: u64
  ai_relocs_gpa :: u64
  ai_base_dtb_size :: u32
  ai_host_dtbo_size :: u32
  ai_kernel_size :: u32
  ai_kernel_alloc_size :: u32
  ai_relocs64_count :: u32
  ai_relocs32neg_count :: u32
  ai_relocs32_count :: u32

record relocs_header =
  rh_gpa :: u64
  rh_relocs64_count :: u32
  rh_relocs32neg_count :: u32
  rh_relocs32_count :: u32

definition arma_boot_info_new ::
  "u64 \<Rightarrow> u32 \<Rightarrow> u64 \<Rightarrow> u32 \<Rightarrow> u64 \<Rightarrow> u32 \<Rightarrow> u64 \<Rightarrow> u32 \<Rightarrow> relocs_header \<Rightarrow> arma_boot_info" where
  "arma_boot_info_new base_dtb_gpa base_dtb_size host_dtbo_gpa host_dtbo_size kernel_gpa kernel_size
      kernel_entry_gpa kernel_alloc_size relocs =
    \<lparr>ai_magic = MAGIC, ai_base_dtb_gpa = base_dtb_gpa, ai_host_dtbo_gpa = host_dtbo_gpa,
     ai_kernel_gpa = kernel_gpa, ai_kernel_entry_gpa = kernel_entry_gpa, ai_relocs_gpa = rh_gpa relocs,
     ai_base_dtb_size = base_dtb_size, ai_host_dtbo_size = host_dtbo_size, ai_kernel_size = kernel_size,
     ai_kernel_alloc_size = kernel_alloc_size, ai_relocs64_count = rh_relocs64_count relocs,
     ai_relocs32neg_count = rh_relocs32neg_count relocs, ai_relocs32_count = rh_relocs32_count relocs\<rparr>"

definition arma_boot_info_bytes :: "arma_boot_info \<Rightarrow> bytes" where
  "arma_boot_info_bytes b =
    ai_magic b @ le_bytes 8 (ai_base_dtb_gpa b) @ le_bytes 8 (ai_host_dtbo_gpa b) @
    le_bytes 8 (ai_kernel_gpa b) @ le_bytes 8 (ai_kernel_entry_gpa b) @ le_bytes 8 (ai_relocs_gpa b) @
    le_bytes 4 (ai_base_dtb_size b) @ le_bytes 4 (ai_host_dtbo_size b) @ le_bytes 4 (ai_kernel_size b) @
    le_bytes 4 (ai_kernel_alloc_size b) @ le_bytes 4 (ai_relocs64_count b) @
    le_bytes 4 (ai_relocs32neg_count b) @ le_bytes 4 (ai_relocs32_count b)"

definition to_section_bytes :: "arma_boot_info \<Rightarrow> bytes" where
  "to_section_bytes b = copy_at (zeros SECTION_SIZE) 0 (arma_boot_info_bytes b)"

text \<open>The region accessors of \<open>tatu\<close>.\<close>

type_synonym memory = "u64 \<Rightarrow> nat \<Rightarrow> bytes"

definition guest_region :: "memory \<Rightarrow> u64 \<Rightarrow> u32 \<Rightarrow> bytes" where
  "guest_region mem gpa sz = mem gpa (unat sz)"

definition base_dtb_bytes :: "memory \<Rightarrow> tatu_boot_info \<Rightarrow> bytes" where
  "base_dtb_bytes mem bi = guest_region mem (ti_base_dtb_gpa bi) (ti_base_dtb_size bi)"

definition host_dtbo_bytes :: "memory \<Rightarrow> tatu_boot_info \<Rightarrow> bytes" where
  "host_dtbo_bytes mem bi = guest_region mem (ti_host_dtbo_gpa bi) (ti_host_dtbo_size bi)"

definition kernel_bytes :: "memory \<Rightarrow> tatu_boot_info \<Rightarrow> bytes" where
  "kernel_bytes mem bi = guest_region mem (ti_kernel_gpa bi) (ti_kernel_size bi)"

definition relocs_words :: "memory \<Rightarrow> tatu_boot_info \<Rightarrow> u32 list" where
  "relocs_words mem bi =
    (let n = unat (ti_relocs64_count bi) + unat (ti_relocs32neg_count bi) + unat (ti_relocs32_count bi) in
     if n = 0 then [] else map from_le (chunks4 (mem (ti_relocs_gpa bi) (4 * n))))"

section \<open>The KASLR seed overlay\<close>

definition SEED_SENTINEL :: bytes where "SEED_SENTINEL = str_bytes ''KASLRSED''"

text \<open>The blob after the call, and the result.\<close>

definition patch_overlay_seed :: "bytes \<Rightarrow> u64 \<Rightarrow> bool \<times> bytes" where
  "patch_overlay_seed blob seed =
    (case position (\<lambda>i. take 8 (drop i blob) = SEED_SENTINEL) [0..<length blob + 1 - 8] of
       None \<Rightarrow> (False, blob)
     | Some pos \<Rightarrow> (True, copy_at blob pos (be_bytes 8 seed)))"

text \<open>
  \<open>RNDR\<close> gives a value and whether it failed; without the feature or after 100 failures the
  virtual counter is multiplied by an odd constant.
\<close>

definition rand_u64_aarch64 :: "bool \<Rightarrow> (nat \<Rightarrow> u64 \<times> bool) \<Rightarrow> u64 \<Rightarrow> u64" where
  "rand_u64_aarch64 has_rndr rndr cnt =
    (case (if has_rndr then position (\<lambda>i. \<not> snd (rndr i)) [0..<100] else None) of
       Some i \<Rightarrow> fst (rndr i)
     | None \<Rightarrow> cnt * 0x9E3779B97F4A7C15)"

definition cpu_has_rndr :: "u64 \<Rightarrow> bool" where
  "cpu_has_rndr isar0 = (drop_bit 60 isar0 AND 0xf \<noteq> 0)"

definition guest_pa_bits_aarch64 :: "u64 \<Rightarrow> u32" where
  "guest_pa_bits_aarch64 mmfr0 =
    (let r = mmfr0 AND 0xf in
     if r = 0 then 32 else if r = 1 then 36 else if r = 2 then 40 else if r = 3 then 42
     else if r = 4 then 44 else if r = 6 then 52 else if r = 7 then 56 else 48)"

section \<open>Merging\<close>

record ('n, 'p, 'o, 'm, 'q, 'd) devtree_api =
  dt_parse :: "bytes \<Rightarrow> ('n, 'p) dt_view option"
  ov_parse :: "bytes \<Rightarrow> 'o option"
  ov_view :: "'o \<Rightarrow> ('m, 'q) dt_view"
  ov_fragments :: "'o \<Rightarrow> 'm fragment list"
  ov_apply :: "'o \<Rightarrow> ('n, 'p) dt_view \<Rightarrow> bytes \<Rightarrow> 'd + nat \<times> bytes"

text \<open>The number of bytes written and the workspace after the call.\<close>

definition merge_into ::
  "('n, 'p, 'o, 'm, 'q, 'd) devtree_api \<Rightarrow> ('n, 'p) dt_view \<Rightarrow> 'o \<Rightarrow> bytes \<Rightarrow> 'd + nat \<times> bytes" where
  "merge_into A base overlay workspace = ov_apply A overlay base workspace"

text \<open>x86: the base is used as it is.\<close>

definition prepare_merge_base_x86 :: "bytes \<Rightarrow> bytes \<Rightarrow> unit + bytes" where
  "prepare_merge_base_x86 base scratch = Inr base"

definition prepare_merge_base_aarch64 ::
  "('n, 'p, 'o, 'm, 'q, 'd) devtree_api \<Rightarrow> bytes \<Rightarrow> u64 \<Rightarrow> bytes \<Rightarrow> bytes \<Rightarrow> unit + bytes" where
  "prepare_merge_base_aarch64 A template seed base scratch =
    (let n = length template in
     if 512 < n then Inl ()
     else
       (let tpl = copy_at (zeros 512) 0 template;
            (found, patched) = patch_overlay_seed (take n tpl) seed in
        if \<not> found then Inl ()
        else
          rbind (ok_or () (ov_parse A patched)) (\<lambda>overlay.
          rbind (ok_or () (dt_parse A base)) (\<lambda>base_tree.
          rbind (map_err (\<lambda>_. ()) (merge_into A base_tree overlay scratch)) (\<lambda>(written, scratch').
            if written \<le> length scratch' then Inr (take written scratch') else Inl ())))))"

section \<open>The life cycle\<close>

definition HOST_DTBO_MAX :: u32 where "HOST_DTBO_MAX = 64 * 1024"
definition KASLR_SCRATCH :: nat where "KASLR_SCRATCH = 16 * 1024"

text \<open>
  \<open>rust_main\<close> up to the finalisation: the merged tree and the length of its blob. The indexing of
  the merge buffer by the merged size panics when the size exceeds it.
\<close>

definition merged_tree ::
  "('n, 'p, 'o, 'm, 'q, 'd) devtree_api \<Rightarrow> (bytes \<Rightarrow> bytes \<Rightarrow> unit + bytes) \<Rightarrow> u32 \<Rightarrow> memory \<Rightarrow> bytes \<Rightarrow>
    tatu_boot_info \<Rightarrow> string + ('n, 'p) dt_view \<times> nat" where
  "merged_tree A prepare pa_bits mem dtb_buf bi =
    rbind (guard_err ''bootinfo: bad magic'' (ti_magic bi = MAGIC)) (\<lambda>_.
    rbind (map_err (\<lambda>_. ''kaslr overlay merge failed'') (prepare (base_dtb_bytes mem bi) (zeros KASLR_SCRATCH))) (\<lambda>base_blob.
    rbind (ok_or ''base dtb: structural parse failed'' (dt_parse A base_blob)) (\<lambda>base.
    rbind (guard_err ''host dtbo: oversized'' (ti_host_dtbo_size bi \<le> HOST_DTBO_MAX)) (\<lambda>_.
    rbind (ok_or ''host dtbo: structural parse failed'' (ov_parse A (host_dtbo_bytes mem bi))) (\<lambda>overlay.
    rbind (map_err (\<lambda>_. ''host dtbo: allowlist rejection'')
            (validate_host_dtbo (ov_view A overlay) base (ov_fragments A overlay) :: 'd validation_error + unit)) (\<lambda>_.
    rbind (map_err (\<lambda>_. ''dtbo merge failed'') (merge_into A base overlay dtb_buf)) (\<lambda>(merged_size, dtb_buf').
    rbind (guard_err ''panic'' (merged_size \<le> length dtb_buf')) (\<lambda>_.
    rbind (ok_or ''merged dtb: re-parse failed'' (dt_parse A (take merged_size dtb_buf'))) (\<lambda>merged.
    rbind (map_err (\<lambda>_. ''merged dtb: validation failed'')
            (validate_merged merged pa_bits :: 'd validation_error + unit)) (\<lambda>_.
      Inr (merged, merged_size)))))))))))"

record handoff =
  ho_entry :: u64
  ho_boot_params :: boot_params
  ho_kernel :: bytes
  ho_acpi :: bytes

definition finalize_x86 ::
  "('n, 'p) dt_view \<Rightarrow> ('p \<Rightarrow> u64) \<Rightarrow> u64 \<Rightarrow> bytes \<Rightarrow> (nat \<Rightarrow> u64 \<times> bool) \<Rightarrow> memory \<Rightarrow> tatu_boot_info \<Rightarrow>
    string + handoff" where
  "finalize_x86 merged prop_addr acpi_gpa acpi_buf rdrand mem bi =
    rbind (map_err (\<lambda>_. ''acpi generation failed'')
            (acpi_generate merged acpi_gpa acpi_buf :: unit validation_error + u64 \<times> bytes)) (\<lambda>(rsdp, acpi).
    rbind (ok_or ''/chosen/bootargs missing'' (cmdline_from_dtb merged prop_addr)) (\<lambda>cmdline.
    let rd = initrd_from_dtb merged in
    rbind (map_err (\<lambda>_. ''boot_params build failed'')
            (build_boot_params_elf cmdline rd rsdp merged :: unit validation_error + boot_params)) (\<lambda>bp.
    rbind (ok_or '''' (apply_kaslr (relocs_words mem bi) (ti_relocs64_count bi) (ti_relocs32neg_count bi)
            (ti_relocs32_count bi) (ti_kernel_alloc_size bi) rdrand (kernel_bytes mem bi))) (\<lambda>img.
      Inr \<lparr>ho_entry = ti_kernel_entry_gpa bi, ho_boot_params = bp, ho_kernel = img, ho_acpi = acpi\<rparr>))))"

definition rust_main_x86 ::
  "('n, 'p, 'o, 'm, 'q, 'd) devtree_api \<Rightarrow> u32 \<Rightarrow> memory \<Rightarrow> bytes \<Rightarrow> ('p \<Rightarrow> u64) \<Rightarrow> u64 \<Rightarrow> bytes \<Rightarrow>
    (nat \<Rightarrow> u64 \<times> bool) \<Rightarrow> tatu_boot_info \<Rightarrow> string + handoff" where
  "rust_main_x86 A eax mem dtb_buf prop_addr acpi_gpa acpi_buf rdrand bi =
    rbind (merged_tree A prepare_merge_base_x86 (guest_pa_bits eax) mem dtb_buf bi) (\<lambda>(merged, _).
      finalize_x86 merged prop_addr acpi_gpa acpi_buf rdrand mem bi)"

text \<open>aarch64 branches to the base of the image with the address of the merged tree.\<close>

definition rust_main_aarch64 ::
  "('n, 'p, 'o, 'm, 'q, 'd) devtree_api \<Rightarrow> bytes \<Rightarrow> u64 \<Rightarrow> u64 \<Rightarrow> memory \<Rightarrow> u64 \<Rightarrow> bytes \<Rightarrow>
    tatu_boot_info \<Rightarrow> string + u64 \<times> u64" where
  "rust_main_aarch64 A template seed mmfr0 mem dtbm_gpa dtb_buf bi =
    rbind (merged_tree A (prepare_merge_base_aarch64 A template seed) (guest_pa_bits_aarch64 mmfr0) mem
            dtb_buf bi) (\<lambda>_.
      Inr (ti_kernel_gpa bi, dtbm_gpa))"

section \<open>The boot information is read as it was written\<close>

lemma tatu_offsets: "repr_c_offsets 0 tatu_fields = [0, 8, 16, 24, 32, 40, 48, 52, 56, 60, 64, 68, 72, 76]"
  by code_simp

text \<open>
  The section that \<open>arma\<close> writes is one page, and \<open>tatu\<close>, which lays the same fields out by the
  rule of \<open>repr(C)\<close>, reads every value back, with the magic it checks.
\<close>

lemma boot_info_roundtrip:
  "length (to_section_bytes (arma_boot_info_new bg bs hg hs kg ks ke ka r)) = 4096 \<and>
   tatu_view (to_section_bytes (arma_boot_info_new bg bs hg hs kg ks ke ka r)) =
    \<lparr>ti_magic = MAGIC, ti_base_dtb_gpa = bg, ti_host_dtbo_gpa = hg, ti_kernel_gpa = kg,
     ti_kernel_entry_gpa = ke, ti_relocs_gpa = rh_gpa r, ti_base_dtb_size = bs, ti_host_dtbo_size = hs,
     ti_kernel_size = ks, ti_kernel_alloc_size = ka, ti_relocs64_count = rh_relocs64_count r,
     ti_relocs32neg_count = rh_relocs32neg_count r, ti_relocs32_count = rh_relocs32_count r\<rparr>"
proof -
  have m: "length MAGIC = 8" by (simp add: MAGIC_def str_bytes_def)
  have len: "length (arma_boot_info_bytes (arma_boot_info_new bg bs hg hs kg ks ke ka r)) = 76"
    by (simp add: arma_boot_info_bytes_def arma_boot_info_new_def m)
  have sec: "to_section_bytes (arma_boot_info_new bg bs hg hs kg ks ke ka r) =
      arma_boot_info_bytes (arma_boot_info_new bg bs hg hs kg ks ke ka r) @ drop 76 (zeros SECTION_SIZE)"
    by (simp add: to_section_bytes_def copy_at_def len)
  show ?thesis
  proof
    show "length (to_section_bytes (arma_boot_info_new bg bs hg hs kg ks ke ka r)) = 4096"
      by (simp add: sec len SECTION_SIZE_def)
    show "tatu_view (to_section_bytes (arma_boot_info_new bg bs hg hs kg ks ke ka r)) =
      \<lparr>ti_magic = MAGIC, ti_base_dtb_gpa = bg, ti_host_dtbo_gpa = hg, ti_kernel_gpa = kg,
       ti_kernel_entry_gpa = ke, ti_relocs_gpa = rh_gpa r, ti_base_dtb_size = bs, ti_host_dtbo_size = hs,
       ti_kernel_size = ks, ti_kernel_alloc_size = ka, ti_relocs64_count = rh_relocs64_count r,
       ti_relocs32neg_count = rh_relocs32neg_count r, ti_relocs32_count = rh_relocs32_count r\<rparr>"
      unfolding sec by (simp add: tatu_view_def tatu_offsets arma_boot_info_bytes_def arma_boot_info_new_def field_def
          m field_le_bytes)
  qed
qed

section \<open>The seed patch\<close>

text \<open>
  The patch finds the first occurrence of the sentinel, replaces exactly those eight bytes by
  the seed in big-endian order and keeps everything else; without an occurrence it reports so and
  changes nothing.
\<close>

lemma patch_overlay_seed_effect:
  "(\<exists>pos. patch_overlay_seed blob seed =
      (True, take pos blob @ be_bytes 8 seed @ drop (pos + 8) blob) \<and>
      pos + 8 \<le> length blob \<and> take 8 (drop pos blob) = SEED_SENTINEL \<and>
      (\<forall>i<pos. take 8 (drop i blob) \<noteq> SEED_SENTINEL)) \<or>
   patch_overlay_seed blob seed = (False, blob) \<and> (\<nexists>i. take 8 (drop i blob) = SEED_SENTINEL)"
proof (cases "position (\<lambda>i. take 8 (drop i blob) = SEED_SENTINEL) [0..<length blob + 1 - 8]")
  case None
  have "take 8 (drop i blob) \<noteq> SEED_SENTINEL" for i
  proof
    assume eq: "take 8 (drop i blob) = SEED_SENTINEL"
    then have "length (take 8 (drop i blob)) = 8" by (simp add: SEED_SENTINEL_def str_bytes_def)
    then have "i \<in> set [0..<length blob + 1 - 8]" by auto
    with None eq show False by (auto simp: position_None_iff)
  qed
  with None show ?thesis by (simp add: patch_overlay_seed_def)
next
  case (Some pos)
  then have "pos < length blob + 1 - 8" "take 8 (drop pos blob) = SEED_SENTINEL"
    "\<forall>i<pos. take 8 (drop i blob) \<noteq> SEED_SENTINEL"
    by (auto simp: position_Some_iff nth_upt simp del: upt_Suc)
  then show ?thesis using Some
    by (intro disjI1 exI [of _ pos]) (simp add: patch_overlay_seed_def copy_at_def)
qed

section \<open>What is established before the kernel runs\<close>

lemma merged_tree_steps:
  fixes A :: "('n, 'p, 'o, 'm, 'q, 'd) devtree_api"
  assumes "merged_tree A prepare pa_bits mem dtb_buf bi = Inr (merged, n)"
  obtains base_blob base overlay buf' where
    "ti_magic bi = MAGIC" "ti_host_dtbo_size bi \<le> HOST_DTBO_MAX"
    "prepare (base_dtb_bytes mem bi) (zeros KASLR_SCRATCH) = Inr base_blob"
    "dt_parse A base_blob = Some base" "ov_parse A (host_dtbo_bytes mem bi) = Some overlay"
    "(validate_host_dtbo (ov_view A overlay) base (ov_fragments A overlay) :: 'd validation_error + unit) = Inr ()"
    "ov_apply A overlay base dtb_buf = Inr (n, buf')" "n \<le> length buf'"
    "dt_parse A (take n buf') = Some merged"
    "(validate_merged merged pa_bits :: 'd validation_error + unit) = Inr ()"
  using assms unfolding merged_tree_def merge_into_def
  by (auto simp: result_simps)

text \<open>
  C15. If \<open>tatu\<close> reaches the kernel on x86_64, then the boot information carried the magic, the host
  overlay had at most 64 KiB and every fragment of it is on the allowlist against the measured
  base, the kernel is entered at the recorded address, and the tree that was merged from the two
  is safe: its memory lies in the physical address space of the guest and off every device. The
  zero page names the ACPI workspace, and its usable e820 entries are that memory.
\<close>

theorem rust_main_x86_safe:
  fixes A :: "('n, 'p, 'o, 'm, 'q, 'd) devtree_api"
  assumes run: "rust_main_x86 A eax mem dtb_buf prop_addr acpi_gpa acpi_buf rdrand bi = Inr h"
    and decode: "\<forall>bs V. dt_parse A bs = Some V \<longrightarrow> u32s_decode V"
  shows "ti_magic bi = MAGIC \<and> unat (ti_host_dtbo_size bi) \<le> 65536 \<and>
    ho_entry h = ti_kernel_entry_gpa bi \<and>
    (\<exists>base overlay n buf' merged.
      dt_parse A (base_dtb_bytes mem bi) = Some base \<and> ov_parse A (host_dtbo_bytes mem bi) = Some overlay \<and>
      (\<forall>frag\<in>set (ov_fragments A overlay). fragment_allowed (ov_view A overlay) base frag) \<and>
      ov_apply A overlay base dtb_buf = Inr (n, buf') \<and> dt_parse A (take n buf') = Some merged \<and>
      (\<forall>m\<in>set (regions_of merged (memory_nodes merged (node_children merged (tree_root merged)))).
        fits (eax AND 0xFF) m \<and>
        (\<forall>d\<in>set (regions_of merged (device_nodes merged (node_children merged (tree_root merged)))).
          addrs m \<inter> addrs d = {})) \<and>
      bp_acpi_rsdp_addr (ho_boot_params h) = acpi_gpa \<and>
      filter (\<lambda>e. ee_kind e = E820Usable) (bp_e820_table (ho_boot_params h)) =
        map (entry_of E820Usable)
          (regions_of merged (memory_nodes merged (node_children merged (tree_root merged)))))"
proof -
  from run obtain merged n where m: "merged_tree A prepare_merge_base_x86 (guest_pa_bits eax) mem dtb_buf bi = Inr (merged, n)"
    and fin: "finalize_x86 merged prop_addr acpi_gpa acpi_buf rdrand mem bi = Inr h"
    by (auto simp: rust_main_x86_def rbind_eq_Inr)
  from m obtain base_blob base overlay buf' where
    magic: "ti_magic bi = MAGIC" and sz: "ti_host_dtbo_size bi \<le> HOST_DTBO_MAX"
    and prep: "prepare_merge_base_x86 (base_dtb_bytes mem bi) (zeros KASLR_SCRATCH) = Inr base_blob"
    and base: "dt_parse A base_blob = Some base" and ov: "ov_parse A (host_dtbo_bytes mem bi) = Some overlay"
    and allow: "(validate_host_dtbo (ov_view A overlay) base (ov_fragments A overlay) :: 'd validation_error + unit) = Inr ()"
    and app: "ov_apply A overlay base dtb_buf = Inr (n, buf')" "n \<le> length buf'"
    and parse: "dt_parse A (take n buf') = Some merged"
    and valid: "(validate_merged merged (guest_pa_bits eax) :: 'd validation_error + unit) = Inr ()"
    by (rule merged_tree_steps)
  from fin obtain cmd rd acpi where gen: "(acpi_generate merged acpi_gpa acpi_buf :: unit validation_error + _) = Inr (acpi_gpa, acpi)"
    and build: "(build_boot_params_elf cmd rd acpi_gpa merged :: unit validation_error + boot_params) = Inr (ho_boot_params h)"
    and entry: "ho_entry h = ti_kernel_entry_gpa bi"
    by (auto simp: finalize_x86_def acpi_generate_def result_simps Let_def)
  have valid': "(validate_merged merged (guest_pa_bits eax) :: unit validation_error + unit) = Inr ()"
    using valid unfolding validate_merged_iff .
  have rsdp: "bp_acpi_rsdp_addr (ho_boot_params h) = acpi_gpa"
    using build [symmetric] unfolding build_boot_params_elf_iff by (auto split: if_splits prod.splits)
  have "unat (ti_host_dtbo_size bi) \<le> 65536"
    using sz by (simp add: HOST_DTBO_MAX_def word_le_nat_alt)
  moreover have "base_blob = base_dtb_bytes mem bi" using prep by (simp add: prepare_merge_base_x86_def)
  ultimately show ?thesis
    using magic entry base ov allow [unfolded validate_host_dtbo_iff] app parse rsdp
      memory_map_of_accepted [OF valid' decode [rule_format, OF parse] build, unfolded guest_pa_bits_def]
    by blast
qed

section \<open>Witnesses\<close>

text \<open>
  A machine with one cpu. The parser of the witness knows three blobs; the overlay adds the memory
  and the cpu to a base without them.
\<close>

definition boot_tree :: dnode where
  "boot_tree = DNode [] [(''#address-cells'', u32_cells [2]), (''#size-cells'', u32_cells [2])]
    [DNode ''cpus'' [(''#address-cells'', u32_cells [1]), (''#size-cells'', u32_cells [0])]
      [DNode ''cpu@0'' [(''reg'', u32_cells [0])] []],
     DNode ''lapic'' [(''compatible'', nul_str ''intel,ce4100-lapic''), (''reg'', u32_cells [0, 0xfee00000, 0, 0x1000])] [],
     demo_memory,
     DNode ''poweroff'' [(''compatible'', nul_str ''syscon-poweroff''), (''reg'', u32_cells [0, 0x600, 0, 1])] [],
     DNode ''chosen'' [(''bootargs'', nul_str ''quiet'')] []]"

definition boot_overlay :: "dnode fragment list" where
  "boot_overlay = [\<lparr>frag_target = TargetPath ''/'', frag_node = DNode [] [] [demo_memory]\<rparr>]"

definition boot_api ::
  "(dnode, string \<times> bytes, unit, dnode, string \<times> bytes, unit) devtree_api" where
  "boot_api =
    \<lparr>dt_parse = (\<lambda>bs. if bs = [1] \<or> bs = [] then Some (dt_tree boot_tree) else None),
     ov_parse = (\<lambda>bs. Some ()), ov_view = (\<lambda>_. dt_tree boot_tree), ov_fragments = (\<lambda>_. boot_overlay),
     ov_apply = (\<lambda>_ _ ws. Inr (1, ws[0 := 1]))\<rparr>"

definition boot_bi :: tatu_boot_info where
  "boot_bi = tatu_boot_info_zero\<lparr>ti_magic := MAGIC, ti_kernel_entry_gpa := 0x200000\<rparr>"

lemma boot_count: "case count_run (dt_tree boot_tree) cpu_cache_new domains_new of
    Inr ((off, plan, lb), cache, doms) \<Rightarrow> off_total off = 471 \<and> sleep_value plan = 0 \<and>
      off_dsdt off = \<lparr>sl_offset = 36, sl_len = 49\<rparr> \<and> off_spcr off = None \<and> off_slit off = None
  | Inl _ \<Rightarrow> False"
  by code_simp

lemma boot_dsdt: "case dsdt_emit OEM 0 (dt_tree boot_tree) (replicate 49 0) of Inr _ \<Rightarrow> True | Inl _ \<Rightarrow> False"
  by code_simp

lemma boot_ioapics: "case ioapic_nodes (dt_tree boot_tree) (root_of boot_tree) of Inr ns \<Rightarrow> ns = [] | Inl _ \<Rightarrow> False"
  by code_simp

lemma boot_populate: "\<exists>n buf'. populate (dt_tree boot_tree) OEM 0xA0000 (replicate 1000 0) = Inr (n, buf')"
proof -
  obtain off plan lb cache doms where r: "count_run (dt_tree boot_tree) cpu_cache_new domains_new = Inr ((off, plan, lb), cache, doms)"
    and o: "off_total off = 471" "sleep_value plan = 0" "off_dsdt off = \<lparr>sl_offset = 36, sl_len = 49\<rparr>"
      "off_spcr off = None" "off_slit off = None"
    using boot_count by (auto split: sum.splits prod.splits)
  obtain ns where ns: "ioapic_nodes (dt_tree boot_tree) (root_of (tree_root (dt_tree boot_tree))) = Inr ns" "ns = []"
    using boot_ioapics by (auto simp: dt_tree_def split: sum.splits)
  obtain t where t: "dsdt_emit OEM 0 (dt_tree boot_tree) (replicate 49 0) = Inr t"
    using boot_dsdt by (auto split: sum.splits)
  have "oem_ok OEM" by (simp add: oem_ok_def OEM_def str_bytes_def)
  then show ?thesis
    by (rule populate_succeeds [OF r _ ns(1)])
      (use o t ns(2) in \<open>simp_all add: slot_bytes_zeros\<close>)
qed

lemma boot_valid: "(validate_merged (dt_tree boot_tree) 48 :: unit validation_error + unit) = Inr ()"
  "(validate_host_dtbo (dt_tree boot_tree) (dt_tree boot_tree) boot_overlay :: unit validation_error + unit) = Inr ()"
  "e820_listing (dt_tree boot_tree) =
    ([\<lparr>ee_addr = 0x40000000, ee_size = 0x10000000, ee_kind = E820Usable\<rparr>], False)"
  "map_option (\<lambda>p. fst p) (case find_path (dt_tree boot_tree) ''/chosen'' of None \<Rightarrow> None
    | Some c \<Rightarrow> node_property (dt_tree boot_tree) c ''bootargs'') = Some ''bootargs''"
  "initrd_from_dtb (dt_tree boot_tree) = initrd_none"
  by code_simp+

lemma boot_runs:
  "\<exists>h. rust_main_x86 boot_api 48 (\<lambda>_ _. []) [0] (\<lambda>_. 0x1000) 0xA0000 (replicate 1000 0) (\<lambda>_. (0, True)) boot_bi = Inr h"
proof -
  have tree: "merged_tree boot_api prepare_merge_base_x86 (guest_pa_bits 48) (\<lambda>_ _. []) [0] boot_bi =
      Inr (dt_tree boot_tree, 1)"
    using boot_valid(1,2)
    by (simp add: merged_tree_def boot_api_def boot_bi_def prepare_merge_base_x86_def base_dtb_bytes_def
        host_dtbo_bytes_def guest_region_def merge_into_def HOST_DTBO_MAX_def guest_pa_bits_def
        tatu_boot_info_zero_def)
  obtain n buf' where pop: "populate (dt_tree boot_tree) OEM 0xA0000 (replicate 1000 0) = Inr (n, buf')"
    using boot_populate by blast
  have cmd: "cmdline_from_dtb (dt_tree boot_tree) (\<lambda>_. 0x1000) = Some 0x1000"
    using boot_valid(4) by (auto simp: cmdline_from_dtb_def split: option.splits)
  obtain bp where bp: "(build_boot_params_elf 0x1000 initrd_none 0xA0000 (dt_tree boot_tree) :: unit validation_error + boot_params) = Inr bp"
    using boot_valid(3) by (simp add: build_boot_params_elf_iff initrd_none_def)
  have words: "relocs_words (\<lambda>_ _. []) boot_bi = []"
    by (simp add: relocs_words_def boot_bi_def tatu_boot_info_zero_def)
  show ?thesis
    by (simp add: rust_main_x86_def tree finalize_x86_def acpi_generate_def pop cmd boot_valid(5) bp words
        apply_kaslr_def)
qed

theorem rust_main_x86_safe_witness:
  "\<exists>h. rust_main_x86 boot_api 48 (\<lambda>_ _. []) [0] (\<lambda>_. 0x1000) 0xA0000 (replicate 1000 0) (\<lambda>_. (0, True)) boot_bi = Inr h \<and>
    ho_entry h = 0x200000"
proof -
  obtain h where h: "rust_main_x86 boot_api 48 (\<lambda>_ _. []) [0] (\<lambda>_. 0x1000) 0xA0000 (replicate 1000 0) (\<lambda>_. (0, True)) boot_bi = Inr h"
    using boot_runs by blast
  have "\<forall>bs V. dt_parse boot_api bs = Some V \<longrightarrow> u32s_decode V"
    by (auto simp: boot_api_def u32s_decode_def dt_tree_def split: if_splits)
  from rust_main_x86_safe [OF h this] have "ho_entry h = ti_kernel_entry_gpa boot_bi" by blast
  with h show ?thesis by (auto simp: boot_bi_def)
qed


lemma patch_overlay_seed_effect_witness:
  "patch_overlay_seed ([1, 2] @ SEED_SENTINEL @ [3]) 0x0123456789ABCDEF =
    (True, [1, 2, 0x01, 0x23, 0x45, 0x67, 0x89, 0xAB, 0xCD, 0xEF, 3])"
proof -
  let ?b = "[1, 2] @ SEED_SENTINEL @ [3]"
  have len: "length ?b = 11" by (simp add: SEED_SENTINEL_def str_bytes_def)
  have here: "take 8 (drop 2 ?b) = SEED_SENTINEL" and not: "take 8 (drop 0 ?b) \<noteq> SEED_SENTINEL"
    "take 8 (drop 1 ?b) \<noteq> SEED_SENTINEL" "take 8 (drop 3 ?b) \<noteq> SEED_SENTINEL"
    by code_simp+
  from patch_overlay_seed_effect [of ?b "0x0123456789ABCDEF"] here
  obtain pos where p: "patch_overlay_seed ?b 0x0123456789ABCDEF =
      (True, take pos ?b @ be_bytes 8 (0x0123456789ABCDEF :: u64) @ drop (pos + 8) ?b)"
    "pos + 8 \<le> length ?b" "take 8 (drop pos ?b) = SEED_SENTINEL" by blast
  have "pos = 0 \<or> pos = 1 \<or> pos = 2 \<or> pos = 3" using p(2) len by linarith
  with p(3) not have "pos = 2" by auto
  moreover have "take 2 ?b @ be_bytes 8 (0x0123456789ABCDEF :: u64) @ drop (2 + 8) ?b =
      [1, 2, 0x01, 0x23, 0x45, 0x67, 0x89, 0xAB, 0xCD, 0xEF, 3]" by code_simp
  ultimately show ?thesis using p(1) by simp
qed

end
