(* ===== verification/Kernel.thy ===== *)
theory Kernel
  imports Modules TatuMain
begin

text \<open>
  Kernel input (\<open>src/kernel.rs\<close>): the format and placement of a kernel file, the flat image
  of an ELF kernel, the relocation tables for KASLR, and the wrappers that are taken off first.

  The ELF parser is the parameter \<open>goblin\<close> of KernelRelease, the PE parser and the
  decompressors are the record \<open>wrappers\<close>. A slice index that is out of range is the error
  \<open>KernelPanic\<close>. Subtractions of \<open>u64\<close> that the source leaves unchecked wrap, as in a
  release build.
\<close>

section \<open>Errors and constants\<close>

datatype kernel_error =
    TooSmall nat
  | Unrecognized
  | UkiMalformed string
  | ZbootMalformed nat nat nat
  | ZbootCompression bytes
  | ZbootDecompress
  | ElfMalformed string
  | ElfEntryOutOfRange u64 u64
  | BzImageNoVmlinux
  | KernelPanic

definition EM_X86_64 :: "16 word" where "EM_X86_64 = 62"
definition BZIMAGE_HDRS_MAGIC :: u32 where "BZIMAGE_HDRS_MAGIC = 0x53726448"
definition BZIMAGE_HDRS_OFFSET :: nat where "BZIMAGE_HDRS_OFFSET = 0x202"
definition ARM64_IMAGE_MAGIC :: u32 where "ARM64_IMAGE_MAGIC = 0x644D5241"
definition ARM64_IMAGE_MAGIC_OFFSET :: nat where "ARM64_IMAGE_MAGIC_OFFSET = 56"
definition ARM64_IMAGE_SIZE_OFFSET :: nat where "ARM64_IMAGE_SIZE_OFFSET = 16"
definition ZBOOT_ZIMG_OFFSET :: nat where "ZBOOT_ZIMG_OFFSET = 4"
definition ZBOOT_PAYLOAD_OFFSET_FIELD :: nat where "ZBOOT_PAYLOAD_OFFSET_FIELD = 8"
definition ZBOOT_PAYLOAD_SIZE_FIELD :: nat where "ZBOOT_PAYLOAD_SIZE_FIELD = 12"
definition ZBOOT_COMP_OFFSET :: nat where "ZBOOT_COMP_OFFSET = 24"
definition ZBOOT_COMP_LEN :: nat where "ZBOOT_COMP_LEN = 32"
definition ZBOOT_HEADER_MIN :: nat where "ZBOOT_HEADER_MIN = ZBOOT_COMP_OFFSET + ZBOOT_COMP_LEN"
definition GZIP_MAGIC :: bytes where "GZIP_MAGIC = [0x1F, 0x8B, 0x08]"
definition ZSTD_MAGIC :: bytes where "ZSTD_MAGIC = [0x28, 0xB5, 0x2F, 0xFD]"

text \<open>\<open>&bytes[p..p + n]\<close> where the code knows that the range is in bounds.\<close>

definition byte_slice :: "bytes \<Rightarrow> nat \<Rightarrow> nat \<Rightarrow> bytes" where
  "byte_slice bytes p n = take n (drop p bytes)"

section \<open>Placement (elf_span, parse)\<close>

record elf_meta =
  em_alloc_size :: u64
  em_min_paddr :: u64
  em_entry_offset :: u64

record parsed_kernel =
  pk_arch :: arch
  pk_aarch64_image_size :: "u64 option"
  pk_elf :: "elf_meta option"

record elf_span =
  es_min_paddr :: u64
  es_max_file_end :: u64
  es_max_mem_end :: u64

definition loadable :: "elf_segment \<Rightarrow> bool" where
  "loadable p \<longleftrightarrow> p_type p = PT_LOAD \<and> p_memsz p \<noteq> 0"

definition span_step :: "elf_span \<times> bool \<Rightarrow> elf_segment \<Rightarrow> kernel_error + elf_span \<times> bool" where
  "span_step st p = (case st of (span, any) \<Rightarrow>
    if \<not> loadable p then Inr (span, any)
    else
    rbind (ok_or (ElfMalformed ''p_paddr + p_filesz overflows'') (checked_add (p_paddr p) (p_filesz p))) (\<lambda>file_end.
    rbind (ok_or (ElfMalformed ''p_paddr + p_memsz overflows'') (checked_add (p_paddr p) (p_memsz p))) (\<lambda>mem_end.
    Inr (\<lparr>es_min_paddr = min (es_min_paddr span) (p_paddr p),
          es_max_file_end = max (es_max_file_end span) file_end,
          es_max_mem_end = max (es_max_mem_end span) mem_end\<rparr>, True))))"

definition elf_span_of :: "elf_file \<Rightarrow> kernel_error + elf_span" where
  "elf_span_of elf =
    rbind (try_fold span_step (\<lparr>es_min_paddr = - 1, es_max_file_end = 0, es_max_mem_end = 0\<rparr>, False)
      (program_headers elf)) (\<lambda>(span, any).
    if \<not> any then Inl (ElfMalformed ''no PT_LOAD segments'') else Inr span)"

definition goblin_elf :: "goblin \<Rightarrow> bytes \<Rightarrow> kernel_error + elf_file" where
  "goblin_elf G bytes = ok_or (ElfMalformed ''goblin parse failed'') (parse_elf G bytes)"

definition parse_kernel :: "goblin \<Rightarrow> bytes \<Rightarrow> kernel_error + parsed_kernel" where
  "parse_kernel G bytes =
    (if length bytes < 64 then Inl (TooSmall (length bytes))
     else if byte_slice bytes 0 4 = ELF_MAGIC then
       rbind (goblin_elf G bytes) (\<lambda>elf.
       if \<not> elf_is_64 elf \<or> e_machine elf \<noteq> EM_X86_64 then Inl (ElfMalformed ''not a 64-bit x86-64 ELF'')
       else
       rbind (elf_span_of elf) (\<lambda>span.
       let size = es_max_mem_end span - es_min_paddr span in
       rbind (ok_or (ElfEntryOutOfRange (e_entry elf) (es_min_paddr span))
         (Option.bind (checked_sub (e_entry elf) (es_min_paddr span))
            (\<lambda>off. if off < size then Some off else None))) (\<lambda>entry_offset.
       Inr \<lparr>pk_arch = X86_64, pk_aarch64_image_size = None,
         pk_elf = Some \<lparr>em_alloc_size = size, em_min_paddr = es_min_paddr span,
           em_entry_offset = entry_offset\<rparr>\<rparr>)))
     else if from_le (byte_slice bytes ARM64_IMAGE_MAGIC_OFFSET 4) = ARM64_IMAGE_MAGIC then
       Inr \<lparr>pk_arch = Aarch64, pk_aarch64_image_size = Some (from_le (byte_slice bytes ARM64_IMAGE_SIZE_OFFSET 8)),
         pk_elf = None\<rparr>
     else Inl Unrecognized)"

section \<open>The flat image (elf_load_image)\<close>

definition segment_copy :: "bytes \<Rightarrow> u64 \<Rightarrow> bytes \<Rightarrow> elf_segment \<Rightarrow> kernel_error + bytes" where
  "segment_copy bytes min_paddr img p =
    (if p_type p \<noteq> PT_LOAD \<or> p_filesz p = 0 then Inr img
     else
       let dst = unat (p_paddr p - min_paddr); src = unat (p_offset p); n = unat (p_filesz p) in
       rbind (ok_or (ElfMalformed ''p_offset + p_filesz out of file bounds'')
         (Option.bind (usize_add src n) (\<lambda>e. if e \<le> length bytes then Some e else None))) (\<lambda>src_end.
       if length img < dst + n then Inl KernelPanic
       else Inr (copy_at img dst (byte_slice bytes src n))))"

definition content_end :: "bytes \<Rightarrow> nat" where
  "content_end img = length (dropWhile (\<lambda>b. b = 0) (rev img))"

definition next_multiple_of :: "nat \<Rightarrow> nat \<Rightarrow> nat" where
  "next_multiple_of n k = (if n mod k = 0 then n else n + (k - n mod k))"

definition elf_load_image :: "goblin \<Rightarrow> bytes \<Rightarrow> kernel_error + bytes" where
  "elf_load_image G bytes =
    rbind (goblin_elf G bytes) (\<lambda>elf.
    rbind (elf_span_of elf) (\<lambda>span.
    let len = unat (es_max_file_end span - es_min_paddr span) in
    rbind (try_fold (segment_copy bytes (es_min_paddr span)) (replicate len 0) (program_headers elf)) (\<lambda>img.
    let keep = min (next_multiple_of (content_end img) 0x1000) (length img) in
    Inr (take keep img))))"

section \<open>Relocation tables\<close>

record relocs =
  rl_relocs32 :: "u32 list"
  rl_relocs32neg :: "u32 list"
  rl_relocs64 :: "u32 list"

definition no_relocs :: relocs where
  "no_relocs = \<lparr>rl_relocs32 = [], rl_relocs32neg = [], rl_relocs64 = []\<rparr>"

definition relocs_is_empty :: "relocs \<Rightarrow> bool" where
  "relocs_is_empty r \<longleftrightarrow> rl_relocs64 r = [] \<and> rl_relocs32neg r = [] \<and> rl_relocs32 r = []"

definition relocs_section_bytes :: "relocs \<Rightarrow> bytes" where
  "relocs_section_bytes r = concat (map (le_bytes 4) (rl_relocs64 r @ rl_relocs32neg r @ rl_relocs32 r))"

definition R_X86_64_NONE :: u32 where "R_X86_64_NONE = 0"
definition R_X86_64_64 :: u32 where "R_X86_64_64 = 1"
definition R_X86_64_PC32 :: u32 where "R_X86_64_PC32 = 2"
definition R_X86_64_PLT32 :: u32 where "R_X86_64_PLT32 = 4"
definition R_X86_64_32 :: u32 where "R_X86_64_32 = 10"
definition R_X86_64_32S :: u32 where "R_X86_64_32S = 11"
definition R_X86_64_PC64 :: u32 where "R_X86_64_PC64 = 24"
definition R_X86_64_REX_GOTPCRELX :: u32 where "R_X86_64_REX_GOTPCRELX = 42"
definition SHN_UNDEF :: nat where "SHN_UNDEF = 0"
definition SHN_ABS :: nat where "SHN_ABS = 0xFFF1"
definition SHN_XINDEX :: nat where "SHN_XINDEX = 0xFFFF"

definition s_rel_prefixes :: "string list" where
  "s_rel_prefixes = [''__start_pci_'', ''__end_pci_'', ''init_per_cpu__'']"

definition s_rel_names :: "string list" where
  "s_rel_names = [''__init_begin'', ''__init_end'', ''__x86_cpu_dev_start'', ''__x86_cpu_dev_end'',
    ''__parainstructions'', ''__parainstructions_end'', ''__alt_instructions'', ''__alt_instructions_end'',
    ''__iommu_table'', ''__iommu_table_end'', ''__apicdrivers'', ''__apicdrivers_end'',
    ''__smp_locks'', ''__smp_locks_end'', ''__start_builtin_fw'', ''__end_builtin_fw'',
    ''__start___ksymtab'', ''__stop___ksymtab'', ''__start___ksymtab_gpl'', ''__stop___ksymtab_gpl'',
    ''__start___kcrctab'', ''__stop___kcrctab'', ''__start___kcrctab_gpl'', ''__stop___kcrctab_gpl'',
    ''__start___param'', ''__stop___param'', ''__start___modver'', ''__stop___modver'',
    ''__start___bug_table'', ''__stop___bug_table'', ''__tracedata_start'', ''__tracedata_end'',
    ''__start_notes'', ''__stop_notes'', ''__end_rodata'', ''__end_rodata_aligned'',
    ''__initramfs_start'', ''jiffies'', ''jiffies_64'', ''__per_cpu_load'',
    ''__end_rodata_hpage_align'', ''__vvar_page'', ''_end'']"

definition is_s_rel :: "string \<Rightarrow> bool" where
  "is_s_rel name \<longleftrightarrow> list_ex (\<lambda>p. RustText.starts_with p name) s_rel_prefixes \<or> name \<in> set s_rel_names"

record per_cpu =
  pc_shndx :: "nat option"
  pc_load_addr :: u64

definition no_percpu :: per_cpu where
  "no_percpu = \<lparr>pc_shndx = None, pc_load_addr = 0\<rparr>"

fun find_percpu_from :: "elf_file \<Rightarrow> nat \<Rightarrow> elf_section list \<Rightarrow> kernel_error + per_cpu" where
  "find_percpu_from elf i [] = Inr no_percpu"
| "find_percpu_from elf i (sh # shs) =
    (if shdr_strtab elf (sh_name sh) \<noteq> Some ''.data..percpu'' then find_percpu_from elf (i + 1) shs
     else if sh_addr sh \<noteq> 0 then Inr no_percpu
     else
       rbind (ok_or (ElfMalformed ''percpu section but no __per_cpu_load'')
         (List.find (\<lambda>s. elf_strtab elf (st_name s) = Some ''__per_cpu_load'') (elf_syms elf))) (\<lambda>s.
       Inr \<lparr>pc_shndx = Some i, pc_load_addr = st_value s\<rparr>))"

definition find_percpu :: "elf_file \<Rightarrow> kernel_error + per_cpu" where
  "find_percpu elf = find_percpu_from elf 0 (section_headers elf)"

definition is_percpu_sym :: "nat \<Rightarrow> string \<Rightarrow> per_cpu \<Rightarrow> bool" where
  "is_percpu_sym shndx name percpu \<longleftrightarrow> pc_shndx percpu = Some shndx
     \<and> name \<noteq> ''__init_begin'' \<and> name \<noteq> ''__per_cpu_load'' \<and> \<not> RustText.starts_with ''init_per_cpu_'' name"

definition text_vaddr_of :: "elf_file \<Rightarrow> elf_span \<Rightarrow> kernel_error + u64" where
  "text_vaddr_of elf span =
    rbind (ok_or (ElfMalformed ''no PT_LOAD at min_paddr'')
      (List.find (\<lambda>p. loadable p \<and> p_paddr p = es_min_paddr span) (program_headers elf))) (\<lambda>p. Inr (p_vaddr p))"

definition to_image_off :: "u64 \<Rightarrow> u64 \<Rightarrow> kernel_error + u32" where
  "to_image_off text_vaddr va =
    ok_or (ElfMalformed ''reloc location outside image'') (Option.bind (checked_sub va text_vaddr) u32_of_u64)"

definition rel_step ::
  "elf_file \<Rightarrow> per_cpu \<Rightarrow> u64 \<Rightarrow> bool \<Rightarrow> relocs \<Rightarrow> elf_rel \<Rightarrow> kernel_error + relocs" where
  "rel_step elf percpu text_vaddr applies_percpu out rel =
    rbind (ok_or (ElfMalformed ''reloc symbol index out of range'')
      (if r_sym rel < length (elf_syms elf) then Some (elf_syms elf ! r_sym rel) else None)) (\<lambda>s.
    if st_shndx s = SHN_UNDEF then Inr out
    else if st_shndx s = SHN_XINDEX then Inl (ElfMalformed ''SHN_XINDEX symbols unsupported'')
    else
      let name = (case elf_strtab elf (st_name s) of Some n \<Rightarrow> n | None \<Rightarrow> '''');
          shn_abs = (st_shndx s = SHN_ABS \<and> \<not> is_s_rel name);
          percpu_sym = is_percpu_sym (st_shndx s) name percpu;
          offset = (if applies_percpu then r_offset rel + pc_load_addr percpu else r_offset rel);
          t = r_type rel
      in if t = R_X86_64_NONE then Inr out
         else if t = R_X86_64_PC32 \<or> t = R_X86_64_PLT32 \<or> t = R_X86_64_REX_GOTPCRELX then
           (if percpu_sym then
              rbind (to_image_off text_vaddr offset) (\<lambda>off.
              Inr (out\<lparr>rl_relocs32neg := rl_relocs32neg out @ [off]\<rparr>))
            else Inr out)
         else if t = R_X86_64_PC64 then
           (if percpu_sym then Inl (ElfMalformed ''R_X86_64_PC64 against per-CPU symbol'') else Inr out)
         else if t = R_X86_64_64 \<or> t = R_X86_64_32 \<or> t = R_X86_64_32S then
           (if percpu_sym \<or> shn_abs then Inr out
            else
              rbind (to_image_off text_vaddr offset) (\<lambda>off.
              if t = R_X86_64_64 then Inr (out\<lparr>rl_relocs64 := rl_relocs64 out @ [off]\<rparr>)
              else Inr (out\<lparr>rl_relocs32 := rl_relocs32 out @ [off]\<rparr>)))
         else Inl (ElfMalformed ''unsupported x86-64 relocation type''))"

definition rela_section_step ::
  "elf_file \<Rightarrow> per_cpu \<Rightarrow> u64 \<Rightarrow> relocs \<Rightarrow> nat \<times> elf_rel list \<Rightarrow> kernel_error + relocs" where
  "rela_section_step elf percpu text_vaddr out sec = (case sec of (sec_idx, rels) \<Rightarrow>
    rbind (ok_or KernelPanic
      (if sec_idx < length (section_headers elf) then Some (section_headers elf ! sec_idx) else None)) (\<lambda>sh.
    let applies_idx = unat (sh_info sh) in
    rbind (ok_or (ElfMalformed ''reloc sh_info out of range'')
      (if applies_idx < length (section_headers elf) then Some (section_headers elf ! applies_idx) else None)) (\<lambda>applies.
    if sh_flags applies AND SHF_ALLOC = 0 \<or> sh_type applies = SHT_NOTE then Inr out
    else
      let applies_percpu = (pc_shndx percpu = Some applies_idx) in
      try_fold (rel_step elf percpu text_vaddr applies_percpu) out rels)))"

subsection \<open>The appended table\<close>

definition saturating_mul :: "u64 \<Rightarrow> u64 \<Rightarrow> u64" where
  "saturating_mul a b = (if unat a * unat b < 2 ^ 64 then a * b else - 1)"

definition saturating_sub :: "u64 \<Rightarrow> u64 \<Rightarrow> u64" where
  "saturating_sub a b = (if b \<le> a then a - b else 0)"

definition elf_file_end :: "elf_file \<Rightarrow> u64" where
  "elf_file_end elf =
    (let start = saturating_add (e_shoff elf) (saturating_mul (ucast (e_shnum elf)) (ucast (e_shentsize elf)));
         start = foldl (\<lambda>t p. max t (saturating_add (p_offset p) (p_filesz p))) start (program_headers elf)
     in foldl (\<lambda>t s. if sh_type s \<noteq> SHT_NOBITS then max t (saturating_add (sh_offset s) (sh_size s)) else t)
          start (section_headers elf))"

text \<open>One word of the table, read backward: the lists that are complete and the current one.\<close>

definition word_step ::
  "u64 \<Rightarrow> u64 \<Rightarrow> u32 list list \<times> u32 list \<Rightarrow> u32 \<Rightarrow> kernel_error + u32 list list \<times> u32 list" where
  "word_step text_vaddr image_size st v = (case st of (rls, cur) \<Rightarrow>
    if v = 0 then Inr (rls @ [cur], [])
    else
      rbind (ok_or (ElfMalformed ''appended reloc site outside image'')
        (Option.bind (checked_sub (scast v) text_vaddr)
          (\<lambda>o'. if o' < image_size then u32_of_u64 o' else None))) (\<lambda>off.
      Inr (rls, cur @ [off])))"

function read_back ::
  "u64 \<Rightarrow> u64 \<Rightarrow> bytes \<Rightarrow> nat \<Rightarrow> nat \<Rightarrow> u32 list list \<times> u32 list \<Rightarrow> kernel_error + u32 list list \<times> u32 list" where
  "read_back text_vaddr image_size bytes table_start pos st =
    (if table_start + 4 \<le> pos then
       rbind (word_step text_vaddr image_size st (from_le (byte_slice bytes (pos - 4) 4)))
         (read_back text_vaddr image_size bytes table_start (pos - 4))
     else Inr st)"
  by pat_completeness auto

termination read_back
  by (relation "measure (\<lambda>(_, _, _, _, pos, _). pos)") auto

declare read_back.simps [simp del]

definition relocs_of_lists :: "u32 list list \<Rightarrow> kernel_error + relocs" where
  "relocs_of_lists rls =
    (case rls of
       [r32, r64] \<Rightarrow> Inr \<lparr>rl_relocs32 = r32, rl_relocs32neg = [], rl_relocs64 = r64\<rparr>
     | [r32, r32neg, r64] \<Rightarrow> Inr \<lparr>rl_relocs32 = r32, rl_relocs32neg = r32neg, rl_relocs64 = r64\<rparr>
     | _ \<Rightarrow> Inl (ElfMalformed ''unexpected appended reloc list count''))"

definition extract_appended_relocs :: "elf_file \<Rightarrow> bytes \<Rightarrow> kernel_error + relocs" where
  "extract_appended_relocs elf bytes =
    rbind (elf_span_of elf) (\<lambda>span.
    rbind (text_vaddr_of elf span) (\<lambda>text_vaddr.
    let image_size = saturating_sub (es_max_mem_end span) (es_min_paddr span);
        table_start = unat (elf_file_end elf) in
    if length bytes \<le> table_start then Inr no_relocs
    else
    rbind (read_back text_vaddr image_size bytes table_start (length bytes) ([], [])) (\<lambda>(rls, cur).
    relocs_of_lists rls)))"

definition extract_relocs :: "goblin \<Rightarrow> bytes \<Rightarrow> kernel_error + relocs" where
  "extract_relocs G bytes =
    rbind (goblin_elf G bytes) (\<lambda>elf.
    if shdr_relocs elf = [] then extract_appended_relocs elf bytes
    else
    rbind (elf_span_of elf) (\<lambda>span.
    rbind (find_percpu elf) (\<lambda>percpu.
    rbind (text_vaddr_of elf span) (\<lambda>text_vaddr.
    try_fold (rela_section_step elf percpu text_vaddr) no_relocs (shdr_relocs elf)))))"

section \<open>Wrappers\<close>

record pe_section_header =
  ps_name :: bytes
  ps_virtual_size :: u32
  ps_size_of_raw_data :: u32
  ps_pointer_to_raw_data :: u32

text \<open>\<open>goblin::pe::PE::parse\<close>, \<open>GzDecoder\<close> and ruzstd's \<open>StreamingDecoder\<close>, each
  read to the end.\<close>

record wrappers =
  parse_pe :: "bytes \<Rightarrow> pe_section_header list option"
  gunzip :: "bytes \<Rightarrow> bytes option"
  unzstd :: "bytes \<Rightarrow> bytes option"

definition unwrap_uki :: "wrappers \<Rightarrow> bytes \<Rightarrow> kernel_error + bytes" where
  "unwrap_uki W input =
    (if \<not> RustText.starts_with (str_bytes ''MZ'') input
        \<or> get_range input 4 8 = Some (str_bytes ''zimg'')
        \<or> get_range input 56 60 = Some (le_bytes 4 ARM64_IMAGE_MAGIC)
     then Inr input
     else
     rbind (ok_or (UkiMalformed ''invalid PE headers'') (parse_pe W input)) (\<lambda>sections.
     case filter (\<lambda>s. ps_name s = str_bytes ''.linux'' @ [0, 0]) sections of
       [] \<Rightarrow> Inr input
     | [section] \<Rightarrow>
        (let offset = unat (ps_pointer_to_raw_data section); size = unat (ps_virtual_size section) in
         if size = 0 \<or> unat (ps_size_of_raw_data section) < size
         then Inl (UkiMalformed ''.linux is not fully file-backed'')
         else ok_or (UkiMalformed ''.linux is out of bounds'')
           (Option.bind (usize_add offset size) (\<lambda>e. get_range input offset e)))
     | _ \<Rightarrow> Inl (UkiMalformed ''duplicate .linux sections'')))"

definition unwrap_zboot :: "wrappers \<Rightarrow> bytes \<Rightarrow> kernel_error + bytes" where
  "unwrap_zboot W input =
    (if \<not> (ZBOOT_HEADER_MIN \<le> length input \<and> byte_slice input 0 2 = str_bytes ''MZ''
          \<and> byte_slice input ZBOOT_ZIMG_OFFSET 4 = str_bytes ''zimg'')
     then Inr input
     else
       let offset = unat (from_le (byte_slice input ZBOOT_PAYLOAD_OFFSET_FIELD 4) :: u32);
           size = unat (from_le (byte_slice input ZBOOT_PAYLOAD_SIZE_FIELD 4) :: u32) in
       rbind (ok_or (ZbootMalformed offset size (length input))
         (Option.bind (usize_add offset size) (\<lambda>e. if e \<le> length input then Some e else None))) (\<lambda>e.
       let comp_field = byte_slice input ZBOOT_COMP_OFFSET ZBOOT_COMP_LEN;
           comp = takeWhile (\<lambda>b. b \<noteq> 0) comp_field;
           payload = byte_slice input offset (e - offset) in
       if comp = str_bytes ''gzip'' then ok_or ZbootDecompress (gunzip W payload)
       else if comp = str_bytes ''zstd'' then ok_or ZbootDecompress (unzstd W payload)
       else Inl (ZbootCompression comp)))"

lemma find_window_le: "find_window w xs = Some i \<Longrightarrow> i < length xs"
  by (induction xs arbitrary: i) (auto split: if_splits)

function scan_decompress :: "bytes \<Rightarrow> bytes \<Rightarrow> (bytes \<Rightarrow> bytes option) \<Rightarrow> nat \<Rightarrow> bytes option" where
  "scan_decompress input magic decompress start =
    (case find_window magic (drop start input) of
       None \<Rightarrow> None
     | Some rel \<Rightarrow>
        let pos = start + rel in
        case decompress (drop pos input) of
          Some out \<Rightarrow>
            if 4 \<le> length out \<and> byte_slice out 0 4 = ELF_MAGIC then Some out
            else scan_decompress input magic decompress (pos + 1)
        | None \<Rightarrow> scan_decompress input magic decompress (pos + 1))"
  by pat_completeness auto

termination scan_decompress
  by (relation "measure (\<lambda>(input, _, _, start). length input - start)") (auto dest: find_window_le)

declare scan_decompress.simps [simp del]

definition extract_vmlinux :: "wrappers \<Rightarrow> bytes \<Rightarrow> kernel_error + bytes" where
  "extract_vmlinux W input =
    (if \<not> (BZIMAGE_HDRS_OFFSET + 4 \<le> length input
          \<and> from_le (byte_slice input BZIMAGE_HDRS_OFFSET 4) = BZIMAGE_HDRS_MAGIC)
     then Inr input
     else case scan_decompress input GZIP_MAGIC (gunzip W) 0 of
       Some elf \<Rightarrow> Inr elf
     | None \<Rightarrow>
        (case scan_decompress input ZSTD_MAGIC (unzstd W) 0 of
           Some elf \<Rightarrow> Inr elf
         | None \<Rightarrow> Inl BzImageNoVmlinux))"

section \<open>The memory an ELF image stands for\<close>

text \<open>What the program headers say is at a physical address: the byte of the last segment whose
  file part covers it, otherwise zero.\<close>

definition segment_byte :: "bytes \<Rightarrow> elf_segment \<Rightarrow> nat \<Rightarrow> u8 option" where
  "segment_byte bytes p a =
    (if p_type p = PT_LOAD \<and> unat (p_paddr p) \<le> a \<and> a < unat (p_paddr p) + unat (p_filesz p)
     then Some (bytes ! (unat (p_offset p) + (a - unat (p_paddr p)))) else None)"

definition in_file :: "bytes \<Rightarrow> elf_segment \<Rightarrow> bool" where
  "in_file bytes p \<longleftrightarrow> unat (p_offset p) + unat (p_filesz p) \<le> min (length bytes) usize_max"

definition overlay_byte :: "bytes \<Rightarrow> nat \<Rightarrow> u8 \<Rightarrow> elf_segment \<Rightarrow> u8" where
  "overlay_byte bytes a b p = (case segment_byte bytes p a of Some c \<Rightarrow> c | None \<Rightarrow> b)"

definition loaded_byte :: "bytes \<Rightarrow> elf_segment list \<Rightarrow> nat \<Rightarrow> u8" where
  "loaded_byte bytes segs a = foldl (overlay_byte bytes a) 0 segs"

lemma nth_copy_at:
  "p + length ys \<le> length xs \<Longrightarrow> i < length xs \<Longrightarrow>
    copy_at xs p ys ! i = (if p \<le> i \<and> i < p + length ys then ys ! (i - p) else xs ! i)"
  by (auto simp: copy_at_def nth_append min_def)

lemma paddr_offset:
  assumes "unat (w - m) + n \<le> L" "unat m + L < 2 ^ 64"
  shows "unat (w - m :: u64) = unat w - unat m \<and> unat m \<le> unat w"
proof (cases "m \<le> w")
  case True
  then show ?thesis by (simp add: unat_sub word_le_nat_alt)
next
  case False
  then have "unat w < unat m" by (simp add: word_le_nat_alt)
  moreover have "unat (w - m) = 2 ^ 64 - unat m + unat w"
    using False unat_u64_less [of m] by (simp add: unat_sub_if_size word_size word_le_nat_alt)
  ultimately show ?thesis using assms unat_u64_less [of m] by simp
qed

lemma segment_copy_byte:
  assumes "segment_copy bytes m img p = Inr img'" "unat m + length img < 2 ^ 64"
  shows "length img' = length img"
    and "i < length img \<Longrightarrow> img' ! i = overlay_byte bytes (unat m + i) (img ! i) p"
    and "length img \<le> i \<Longrightarrow> overlay_byte bytes (unat m + i) b p = b"
    and "p_type p = PT_LOAD \<and> p_filesz p \<noteq> 0 \<Longrightarrow> in_file bytes p"
proof -
  let ?n = "unat (p_filesz p)" and ?src = "unat (p_offset p)"
  have "(length img' = length img
      \<and> (\<forall>i<length img. img' ! i = overlay_byte bytes (unat m + i) (img ! i) p)
      \<and> (\<forall>i\<ge>length img. overlay_byte bytes (unat m + i) b p = b))
      \<and> (p_type p = PT_LOAD \<and> p_filesz p \<noteq> 0 \<longrightarrow> in_file bytes p)" for b
  proof (cases "p_type p \<noteq> PT_LOAD \<or> p_filesz p = 0")
    case True
    with assms(1) have "img' = img" by (simp add: segment_copy_def)
    moreover have "segment_byte bytes p a = None" for a using True by (auto simp: segment_byte_def)
    ultimately show ?thesis using True by (auto simp: overlay_byte_def)
  next
    case False
    let ?dst = "unat (p_paddr p - m)"
    from assms(1) False have f: "?src + ?n \<le> length bytes" "?dst + ?n \<le> length img"
      "img' = copy_at img ?dst (byte_slice bytes ?src ?n)"
      by (auto simp: segment_copy_def Let_def result_simps checked_simps bind_eq_Some_conv split: if_splits)
    have len: "length (byte_slice bytes ?src ?n) = ?n" using f(1) by (simp add: byte_slice_def)
    note dst = paddr_offset [OF f(2) assms(2)]
    have seg: "segment_byte bytes p (unat m + i) =
        (if ?dst \<le> i \<and> i < ?dst + ?n then Some (byte_slice bytes ?src ?n ! (i - ?dst)) else None)" for i
      using False dst f(1) by (auto simp: segment_byte_def byte_slice_def add.commute [of i])
    moreover have "in_file bytes p"
      using assms(1) False
      by (auto simp: in_file_def segment_copy_def Let_def result_simps checked_simps bind_eq_Some_conv split: if_splits)
    ultimately show ?thesis using f len by (auto simp: overlay_byte_def nth_copy_at)
  qed
  then show "length img' = length img"
    and "i < length img \<Longrightarrow> img' ! i = overlay_byte bytes (unat m + i) (img ! i) p"
    and "length img \<le> i \<Longrightarrow> overlay_byte bytes (unat m + i) b p = b"
    and "p_type p = PT_LOAD \<and> p_filesz p \<noteq> 0 \<Longrightarrow> in_file bytes p"
    by blast+
qed

lemma segments_copied:
  assumes "try_fold (segment_copy bytes m) img segs = Inr img'" "unat m + length img < 2 ^ 64"
  shows "length img' = length img \<and>
    (\<forall>i. (if i < length img then img' ! i else 0) =
       foldl (overlay_byte bytes (unat m + i)) (if i < length img then img ! i else 0) segs)
    \<and> (\<forall>p\<in>set segs. p_type p = PT_LOAD \<and> p_filesz p \<noteq> 0 \<longrightarrow>
        in_file bytes p)"
  using assms
proof (induction segs arbitrary: img)
  case (Cons p segs)
  from Cons.prems(1) obtain img1 where s: "segment_copy bytes m img p = Inr img1"
    "try_fold (segment_copy bytes m) img1 segs = Inr img'"
    by (auto simp: rbind_eq_Inr)
  note step = segment_copy_byte [OF s(1) Cons.prems(2)]
  have byte: "(if i < length img then img1 ! i else 0) =
      overlay_byte bytes (unat m + i) (if i < length img then img ! i else 0) p" for i
    using step(2) [of i] step(3) [of i 0] by auto
  have IH: "length img' = length img1 \<and>
    (\<forall>i. (if i < length img1 then img' ! i else 0) =
       foldl (overlay_byte bytes (unat m + i)) (if i < length img1 then img1 ! i else 0) segs)
    \<and> (\<forall>p\<in>set segs. p_type p = PT_LOAD \<and> p_filesz p \<noteq> 0 \<longrightarrow>
        in_file bytes p)"
    by (rule Cons.IH [OF s(2)]) (use Cons.prems(2) step(1) in simp)
  show ?case using IH [unfolded step(1)] step(4) byte by auto
qed simp

text \<open>The span of the loadable segments.\<close>

lemma span_step_skip: "\<not> loadable p \<Longrightarrow> span_step st p = Inr st"
  by (cases st) (simp add: span_step_def)

lemma span_step_Inr:
  "loadable p \<Longrightarrow> span_step (span, any) p = Inr st \<longleftrightarrow>
    (\<exists>fe me. checked_add (p_paddr p) (p_filesz p) = Some fe \<and> checked_add (p_paddr p) (p_memsz p) = Some me
      \<and> st = (\<lparr>es_min_paddr = min (es_min_paddr span) (p_paddr p),
          es_max_file_end = max (es_max_file_end span) fe, es_max_mem_end = max (es_max_mem_end span) me\<rparr>, True))"
  by (auto simp: span_step_def rbind_eq_Inr ok_or_eq_Inr)

lemma span_fold:
  assumes "try_fold span_step (span, any) segs = Inr (span', any')"
  shows "es_min_paddr span' \<le> es_min_paddr span
    \<and> es_max_file_end span \<le> es_max_file_end span' \<and> es_max_mem_end span \<le> es_max_mem_end span'
    \<and> (any' \<longleftrightarrow> any \<or> (\<exists>p\<in>set segs. loadable p))
    \<and> (\<forall>p\<in>set segs. loadable p \<longrightarrow> es_min_paddr span' \<le> p_paddr p
        \<and> unat (p_paddr p) + unat (p_filesz p) \<le> unat (es_max_file_end span')
        \<and> unat (p_paddr p) + unat (p_memsz p) \<le> unat (es_max_mem_end span'))"
  using assms
proof (induction segs arbitrary: span any)
  case (Cons p segs)
  show ?case
  proof (cases "loadable p")
    case False
    with Cons.prems have "try_fold span_step (span, any) segs = Inr (span', any')"
      by (simp add: span_step_skip)
    from Cons.IH [OF this] False show ?thesis by auto
  next
    case True
    from Cons.prems True obtain fe me where e: "checked_add (p_paddr p) (p_filesz p) = Some fe"
      "checked_add (p_paddr p) (p_memsz p) = Some me"
      "try_fold span_step (\<lparr>es_min_paddr = min (es_min_paddr span) (p_paddr p),
          es_max_file_end = max (es_max_file_end span) fe, es_max_mem_end = max (es_max_mem_end span) me\<rparr>, True) segs
        = Inr (span', any')"
      by (auto simp: span_step_Inr rbind_eq_Inr)
    have "unat fe = unat (p_paddr p) + unat (p_filesz p)" "unat me = unat (p_paddr p) + unat (p_memsz p)"
      using e(1,2) by (simp_all add: checked_simps)
    moreover have "fe \<le> es_max_file_end span'" "me \<le> es_max_mem_end span'" "es_min_paddr span' \<le> p_paddr p"
      "es_min_paddr span' \<le> es_min_paddr span" "es_max_file_end span \<le> es_max_file_end span'"
      "es_max_mem_end span \<le> es_max_mem_end span'"
      using Cons.IH [OF e(3)] by simp_all
    ultimately show ?thesis using Cons.IH [OF e(3)] True by (auto simp: word_le_nat_alt)
  qed
qed auto

lemma elf_span_bounds:
  assumes "elf_span_of elf = Inr span"
  shows "(\<exists>p\<in>set (program_headers elf). loadable p)
    \<and> unat (es_min_paddr span) \<le> unat (es_max_file_end span)
    \<and> unat (es_min_paddr span) < unat (es_max_mem_end span)
    \<and> (\<forall>p\<in>set (program_headers elf). loadable p \<longrightarrow> unat (es_min_paddr span) \<le> unat (p_paddr p)
        \<and> unat (p_paddr p) + unat (p_filesz p) \<le> unat (es_max_file_end span)
        \<and> unat (p_paddr p) + unat (p_memsz p) \<le> unat (es_max_mem_end span))"
proof -
  from assms have fold: "try_fold span_step (\<lparr>es_min_paddr = - 1, es_max_file_end = 0, es_max_mem_end = 0\<rparr>, False)
      (program_headers elf) = Inr (span, True)"
    by (auto simp: elf_span_of_def rbind_eq_Inr split: if_splits)
  note f = span_fold [OF fold]
  then obtain p where p: "p \<in> set (program_headers elf)" "loadable p" by auto
  moreover have "0 < unat (p_memsz p)" using p(2) by (simp add: loadable_def unat_gt_0)
  ultimately show ?thesis using f by (fastforce simp: word_le_nat_alt)
qed

lemma content_end_le: "content_end img \<le> length img"
  by (simp add: content_end_def) (metis length_dropWhile_le length_rev)

lemma content_end_zero:
  assumes "content_end img \<le> i" "i < length img"
  shows "img ! i = 0"
proof -
  let ?z = "takeWhile (\<lambda>b. b = 0) (rev img)"
  have "length (rev img) = length ?z + length (dropWhile (\<lambda>b. b = 0) (rev img))"
    by (simp only: length_append [symmetric] takeWhile_dropWhile_id)
  then have len: "length ?z + content_end img = length img" by (simp add: content_end_def)
  then have lt: "length img - 1 - i < length ?z" using assms by linarith
  have "rev img ! (length img - 1 - i) = ?z ! (length img - 1 - i)" by (rule takeWhile_nth [OF lt, symmetric])
  also have "\<dots> = 0" using nth_mem [OF lt] by (auto dest: set_takeWhileD)
  finally show ?thesis using assms(2) by (simp add: rev_nth)
qed

lemma content_end_last:
  assumes "0 < content_end img"
  shows "img ! (content_end img - 1) \<noteq> 0"
proof -
  let ?d = "dropWhile (\<lambda>b. b = 0) (rev img)"
  have ne: "?d \<noteq> []" using assms by (auto simp: content_end_def)
  have len: "content_end img = length ?d" by (simp add: content_end_def)
  have "rev (takeWhile (\<lambda>b. b = 0) (rev img) @ ?d) = img" by (simp only: takeWhile_dropWhile_id rev_rev_ident)
  then have img: "img = rev ?d @ rev (takeWhile (\<lambda>b. b = 0) (rev img))" by (simp only: rev_append)
  have "(rev ?d @ ys) ! (length ?d - 1) = hd ?d" for ys
    using ne by (cases ?d) (simp_all add: nth_append)
  then have "img ! (content_end img - 1) = hd ?d" using img len by metis
  then show ?thesis using hd_dropWhile [OF ne] by simp
qed

lemma next_multiple_of_bounds:
  "0 < k \<Longrightarrow> n \<le> next_multiple_of n k \<and> next_multiple_of n k < n + k \<and> k dvd next_multiple_of n k"
proof -
  assume k: "0 < k"
  have "k dvd n + (k - n mod k)"
  proof -
    have "n mod k < k" using k by simp
    then have "n + (k - n mod k) = (n - n mod k) + k" using mod_less_eq_dividend [of n k] by linarith
    then show ?thesis by (metis dvd_add_triv_right_iff dvd_minus_mod)
  qed
  moreover have "n mod k < k" using k by simp
  ultimately show ?thesis by (auto simp: next_multiple_of_def dvd_eq_mod_eq_0)
qed

lemma segments_fail:
  assumes "try_fold (segment_copy bytes m) img segs = Inl e" "unat m + length img < 2 ^ 64"
    "\<forall>p\<in>set segs. loadable p \<longrightarrow> unat m \<le> unat (p_paddr p)
      \<and> unat (p_paddr p) + unat (p_filesz p) \<le> unat m + length img"
  shows "\<exists>p\<in>set segs. p_type p = PT_LOAD \<and> p_filesz p \<noteq> 0
    \<and> (p_memsz p = 0 \<or> \<not> in_file bytes p)"
  using assms
proof (induction segs arbitrary: img)
  case (Cons p segs)
  show ?case
  proof (cases "segment_copy bytes m img p")
    case (Inr img1)
    with Cons.prems have "try_fold (segment_copy bytes m) img1 segs = Inl e" by simp
    then have "\<exists>p\<in>set segs. p_type p = PT_LOAD \<and> p_filesz p \<noteq> 0
        \<and> (p_memsz p = 0 \<or> \<not> in_file bytes p)"
      by (rule Cons.IH) (use Cons.prems segment_copy_byte(1) [OF Inr Cons.prems(2)] in auto)
    then show ?thesis by auto
  next
    case (Inl e')
    then have p: "p_type p = PT_LOAD" "p_filesz p \<noteq> 0" by (auto simp: segment_copy_def split: if_splits)
    show ?thesis
    proof (cases "p_memsz p = 0 \<or> \<not> in_file bytes p")
      case True
      with p show ?thesis by auto
    next
      case False
      with p Cons.prems(3) have l: "unat m \<le> unat (p_paddr p)"
        "unat (p_paddr p) + unat (p_filesz p) \<le> unat m + length img"
        by (auto simp: loadable_def)
      then have "unat (p_paddr p - m) = unat (p_paddr p) - unat m" by (simp add: unat_sub word_le_nat_alt)
      moreover have "usize_add (unat (p_offset p)) (unat (p_filesz p)) =
          Some (unat (p_offset p) + unat (p_filesz p))"
        using False by (simp add: in_file_def usize_add_def)
      ultimately show ?thesis using Inl p False l
        by (auto simp: in_file_def segment_copy_def Let_def split: if_splits)
    qed
  qed
qed simp

lemma elf_image_memory_Inr:
  assumes "elf_load_image G bytes = Inr img"
  shows "\<exists>elf span. parse_elf G bytes = Some elf \<and> elf_span_of elf = Inr span
    \<and> (\<forall>i. (if i < length img then img ! i else 0) =
         loaded_byte bytes (program_headers elf) (unat (es_min_paddr span) + i))
    \<and> (\<forall>p\<in>set (program_headers elf). p_type p = PT_LOAD \<and> p_filesz p \<noteq> 0 \<longrightarrow> in_file bytes p)
    \<and> length img \<le> unat (es_max_file_end span) - unat (es_min_paddr span)
    \<and> (length img = unat (es_max_file_end span) - unat (es_min_paddr span) \<or> 0x1000 dvd length img)
    \<and> (\<forall>k. length img = k + 0x1000 \<longrightarrow> (\<exists>i. k \<le> i \<and> i < length img \<and> img ! i \<noteq> 0))"
proof -
  from assms obtain elf span img0 where f: "parse_elf G bytes = Some elf" "elf_span_of elf = Inr span"
    "try_fold (segment_copy bytes (es_min_paddr span))
      (replicate (unat (es_max_file_end span - es_min_paddr span)) 0) (program_headers elf) = Inr img0"
    "img = take (min (next_multiple_of (content_end img0) 0x1000) (length img0)) img0"
    by (auto simp: elf_load_image_def goblin_elf_def Let_def rbind_eq_Inr ok_or_eq_Inr)
  let ?base = "unat (es_min_paddr span)" and ?len = "unat (es_max_file_end span) - unat (es_min_paddr span)"
  note span = elf_span_bounds [OF f(2)]
  have len: "unat (es_max_file_end span - es_min_paddr span) = ?len"
    using span by (simp add: unat_sub word_le_nat_alt)
  have fits: "?base + length (replicate ?len (0 :: u8)) < 2 ^ 64"
    using span unat_u64_less [of "es_max_file_end span"] by simp
  have zero: "(if i < ?len then replicate ?len 0 ! i else 0) = (0 :: u8)" for i by simp
  note copied = segments_copied [OF f(3) [unfolded len] fits, unfolded length_replicate zero]
  from copied have len0: "length img0 = ?len" by simp
  let ?keep = "next_multiple_of (content_end img0) 0x1000"
  have keep: "content_end img0 \<le> ?keep" "?keep < content_end img0 + 0x1000" "0x1000 dvd ?keep"
    using next_multiple_of_bounds [of "0x1000" "content_end img0"] by simp_all
  have img: "length img = min ?keep ?len" "i < length img \<Longrightarrow> img ! i = img0 ! i" for i
    by (simp_all add: f(4) len0)
  have byte: "(if i < length img then img ! i else 0) = (if i < ?len then img0 ! i else 0)" for i
    using img keep(1) content_end_zero [of img0 i] len0 by auto
  have "(if i < length img then img ! i else 0) = loaded_byte bytes (program_headers elf) (?base + i)" for i
    unfolding byte loaded_byte_def using copied by blast
  moreover have "\<exists>i. k \<le> i \<and> i < length img \<and> img ! i \<noteq> 0" if k: "length img = k + 0x1000" for k
  proof (intro exI conjI)
    have "k < content_end img0" using k keep img(1) by linarith
    then have "0 < content_end img0" by simp
    show "k \<le> content_end img0 - 1" using \<open>k < content_end img0\<close> by linarith
    show lt: "content_end img0 - 1 < length img"
      using \<open>0 < content_end img0\<close> img(1) keep(1) content_end_le [of img0] len0 by linarith
    show "img ! (content_end img0 - 1) \<noteq> 0"
      using content_end_last [OF \<open>0 < content_end img0\<close>] img(2) [OF lt] by simp
  qed
  moreover have "length img \<le> ?len" "length img = ?len \<or> 0x1000 dvd length img"
    using img(1) keep(3) by (auto simp: min_def)
  ultimately show ?thesis using f(1,2) copied by blast
qed

lemma elf_image_memory_Inl:
  assumes "elf_load_image G bytes = Inl e" "parse_elf G bytes = Some elf" "elf_span_of elf = Inr span"
  shows "\<exists>p\<in>set (program_headers elf). p_type p = PT_LOAD \<and> p_filesz p \<noteq> 0
    \<and> (p_memsz p = 0 \<or> \<not> in_file bytes p)"
proof -
  let ?len = "unat (es_max_file_end span - es_min_paddr span)"
  note span = elf_span_bounds [OF assms(3)]
  have len: "?len = unat (es_max_file_end span) - unat (es_min_paddr span)"
    using span by (simp add: unat_sub word_le_nat_alt)
  from assms have "try_fold (segment_copy bytes (es_min_paddr span)) (replicate ?len 0) (program_headers elf) = Inl e"
    by (auto simp: elf_load_image_def goblin_elf_def Let_def rbind_eq_Inl)
  then show ?thesis
    by (rule segments_fail) (use span len unat_u64_less [of "es_max_file_end span"] in auto)
qed

text \<open>
  C30. The flat image. Lowering an ELF kernel whose program headers have a span fails only when
  a segment with file bytes lies outside the file or has no memory size. Otherwise the image,
  continued with zeros, is the memory that the program headers describe from the lowest load
  address on: every byte is the file byte of the last segment that covers its address, and zero
  elsewhere. The image ends at the end of the file-backed span or on a 4 KiB page, and its last
  page is not all zero.
\<close>

theorem elf_image_memory:
  assumes "parse_elf G bytes = Some elf" "elf_span_of elf = Inr span"
  shows "case elf_load_image G bytes of
      Inl e \<Rightarrow> \<exists>p\<in>set (program_headers elf). p_type p = PT_LOAD \<and> p_filesz p \<noteq> 0
        \<and> (p_memsz p = 0 \<or> \<not> in_file bytes p)
    | Inr img \<Rightarrow>
        (\<forall>i. (if i < length img then img ! i else 0) =
          loaded_byte bytes (program_headers elf) (unat (es_min_paddr span) + i))
        \<and> (\<forall>p\<in>set (program_headers elf). p_type p = PT_LOAD \<and> p_filesz p \<noteq> 0 \<longrightarrow> in_file bytes p)
        \<and> length img \<le> unat (es_max_file_end span) - unat (es_min_paddr span)
        \<and> (length img = unat (es_max_file_end span) - unat (es_min_paddr span) \<or> 0x1000 dvd length img)
        \<and> (\<forall>k. length img = k + 0x1000 \<longrightarrow> (\<exists>i. k \<le> i \<and> i < length img \<and> img ! i \<noteq> 0))"
proof (cases "elf_load_image G bytes")
  case (Inl e)
  with elf_image_memory_Inl [OF Inl assms] show ?thesis by simp
next
  case (Inr img)
  from elf_image_memory_Inr [OF Inr] assms Inr show ?thesis by (auto simp only: sum.case option.inject sum.inject)
qed

definition demo_vmlinux :: elf_file where
  "demo_vmlinux = demo_elf\<lparr>program_headers :=
    [\<lparr>p_type = PT_LOAD, p_offset = 0, p_vaddr = 0xFFFFFFFF81000100, p_paddr = 0x100, p_filesz = 3, p_memsz = 8\<rparr>,
     \<lparr>p_type = PT_LOAD, p_offset = 3, p_vaddr = 0xFFFFFFFF81000104, p_paddr = 0x104, p_filesz = 2, p_memsz = 2\<rparr>]\<rparr>"

definition demo_vmlinux_goblin :: goblin where
  "demo_vmlinux_goblin = demo_goblin\<lparr>parse_elf := \<lambda>_. Some demo_vmlinux\<rparr>"

definition demo_vmlinux_span :: elf_span where
  "demo_vmlinux_span = \<lparr>es_min_paddr = 0x100, es_max_file_end = 0x106, es_max_mem_end = 0x108\<rparr>"

theorem elf_image_memory_witness:
  "\<exists>img. elf_load_image demo_vmlinux_goblin [1, 2, 3, 4, 5] = Inr img
    \<and> img ! 4 = loaded_byte [1, 2, 3, 4, 5] (program_headers demo_vmlinux) 0x104 \<and> img ! 4 = 4"
proof -
  have p: "parse_elf demo_vmlinux_goblin [1, 2, 3, 4, 5] = Some demo_vmlinux"
    by (simp add: demo_vmlinux_goblin_def)
  have span: "elf_span_of demo_vmlinux = Inr demo_vmlinux_span" by code_simp
  have img: "elf_load_image demo_vmlinux_goblin [1, 2, 3, 4, 5] = Inr [1, 2, 3, 0, 4, 5]"
    by code_simp
  have base: "unat (es_min_paddr demo_vmlinux_span) + 4 = 0x104" by (simp add: demo_vmlinux_span_def)
  have "(if 4 < length [1, 2, 3, 0, 4, 5 :: u8] then [1, 2, 3, 0, 4, 5 :: u8] ! 4 else 0) =
      loaded_byte [1, 2, 3, 4, 5] (program_headers demo_vmlinux) (unat (es_min_paddr demo_vmlinux_span) + 4)"
    using elf_image_memory [OF p span] unfolding img sum.case by blast
  then show ?thesis unfolding base img by simp
qed

section \<open>The appended table reads back\<close>

text \<open>The table of some lists of words as the kernel build writes it: before each list a zero
  word.\<close>

definition reloc_table :: "u32 list list \<Rightarrow> bytes" where
  "reloc_table ls = concat (map (\<lambda>l. le_bytes 4 (0 :: u32) @ concat (map (le_bytes 4) l)) ls)"

text \<open>A word is a site when its address is in the image.\<close>

definition reloc_site_at :: "u64 \<Rightarrow> u64 \<Rightarrow> u32 \<Rightarrow> u32 option" where
  "reloc_site_at text_vaddr image_size v =
    (let va = unat (scast v :: u64); off = va - unat text_vaddr in
     if v \<noteq> 0 \<and> unat text_vaddr \<le> va \<and> off < unat image_size \<and> off < 2 ^ 32
     then Some (word_of_nat off) else None)"

lemma word_step_zero: "word_step tv sz (rls, cur) 0 = Inr (rls @ [cur], [])"
  by (simp add: word_step_def)

lemma word_step_site:
  assumes "v \<noteq> 0"
  shows "word_step tv sz (rls, cur) v =
    (case reloc_site_at tv sz v of
       Some off \<Rightarrow> Inr (rls, cur @ [off])
     | None \<Rightarrow> Inl (ElfMalformed ''appended reloc site outside image''))"
proof (cases "unat tv \<le> unat (scast v :: u64)")
  case True
  then have "checked_sub (scast v) tv = Some (scast v - tv)" "unat (scast v - tv :: u64) = unat (scast v :: u64) - unat tv"
    by (simp_all add: checked_sub_def unat_sub word_le_nat_alt)
  moreover have "ucast (scast v - tv :: u64) = (word_of_nat (unat (scast v :: u64) - unat tv) :: u32)"
    using True by (simp add: unat_sub [symmetric] word_le_nat_alt)
  ultimately show ?thesis using assms True
    by (auto simp: word_step_def reloc_site_at_def Let_def u32_of_u64_def word_less_nat_alt)
next
  case False
  then have "checked_sub (scast v) tv = None" by (simp add: checked_simps)
  then show ?thesis using assms False by (simp add: word_step_def reloc_site_at_def)
qed

lemma read_back_words:
  assumes "bytes = pre @ concat (map (le_bytes 4) ws)"
  shows "read_back tv sz bytes (length pre) (length bytes) st = try_fold (word_step tv sz) st (rev ws)"
proof -
  have len: "length (concat (map (le_bytes 4 :: u32 \<Rightarrow> bytes) us)) = 4 * length us" for us
    by (induction us) simp_all
  have "read_back tv sz bytes (length pre) (length pre + 4 * length us) st = try_fold (word_step tv sz) st (rev us)"
    if "ws = us @ vs" for us vs st
    using that
  proof (induction us arbitrary: vs st rule: rev_induct)
    case Nil
    then show ?case by (simp add: read_back.simps)
  next
    case (snoc v us)
    have "byte_slice bytes (length pre + 4 * length us) 4 = le_bytes 4 v"
      using snoc.prems by (simp add: assms byte_slice_def len)
    then have w: "from_le (byte_slice bytes (length pre + 4 * length us) 4) = v"
      by (simp add: from_le_le_bytes_full)
    have IH: "read_back tv sz bytes (length pre) (length pre + 4 * length us) =
        (\<lambda>st. try_fold (word_step tv sz) st (rev us))"
      using snoc.IH [of "v # vs"] snoc.prems by auto
    show ?case by (subst read_back.simps) (simp add: w IH)
  qed
  from this [of ws "[]"] show ?thesis by (simp add: assms len)
qed

lemma words_of_table: "reloc_table ls = concat (map (le_bytes 4) (concat (map (\<lambda>l. 0 # l) ls)))"
  by (induction ls) (simp_all add: reloc_table_def)

lemma word_steps_list:
  assumes "map (reloc_site_at tv sz) l = map Some offs"
  shows "try_fold (word_step tv sz) (rls, cur) l = Inr (rls, cur @ offs)"
  using assms
proof (induction l arbitrary: cur offs)
  case (Cons v l)
  then obtain o' offs' where o: "offs = o' # offs'" "reloc_site_at tv sz v = Some o'"
    "map (reloc_site_at tv sz) l = map Some offs'"
    by (cases offs) auto
  then have "v \<noteq> 0" by (auto simp: reloc_site_at_def)
  with o Cons.IH [OF o(3)] show ?case by (simp add: word_step_site)
qed simp

lemma word_steps_table:
  assumes "map (map (reloc_site_at tv sz)) ls = map (map Some) offs"
  shows "try_fold (word_step tv sz) (rls, []) (rev (concat (map (\<lambda>l. 0 # l) ls))) = Inr (rls @ rev (map rev offs), [])"
  using assms
proof (induction ls arbitrary: rls offs rule: rev_induct)
  case (snoc l ls)
  then obtain o' offs' where o: "offs = offs' @ [o']" "map (reloc_site_at tv sz) l = map Some o'"
    "map (map (reloc_site_at tv sz)) ls = map (map Some) offs'"
    by (auto simp: map_eq_append_conv append_eq_map_conv)
  have "map (reloc_site_at tv sz) (rev l) = map Some (rev o')" using o(2) by (simp add: rev_map [symmetric])
  note word_steps_list [OF this, of rls "[]"]
  then show ?case using snoc.IH [OF o(3), of "rls @ [rev o']"]
    by (simp add: try_fold_append word_step_zero o(1))
qed simp

lemma relocs_of_table:
  assumes "length table_prefix = n" "bytes = table_prefix @ reloc_table ls"
    "map (map (reloc_site_at tv sz)) ls = map (map Some) offs"
  shows "read_back tv sz bytes n (length bytes) ([], []) = Inr (rev (map rev offs), [])"
proof -
  have "bytes = table_prefix @ concat (map (le_bytes 4) (concat (map (\<lambda>l. 0 # l) ls)))"
    using assms(2) by (simp add: words_of_table)
  from read_back_words [OF this, of tv sz "([], [])"] word_steps_table [OF assms(3), of "[]"]
  show ?thesis by (simp add: assms(1))
qed

lemma relocs_of_lists_other:
  "length rls \<noteq> 2 \<Longrightarrow> length rls \<noteq> 3 \<Longrightarrow>
    relocs_of_lists rls = Inl (ElfMalformed ''unexpected appended reloc list count'')"
  by (auto simp: relocs_of_lists_def split: list.splits)

definition table_relocs :: "u32 list list \<Rightarrow> kernel_error + relocs" where
  "table_relocs offs =
    (case offs of
       [r64, r32] \<Rightarrow> Inr \<lparr>rl_relocs32 = rev r32, rl_relocs32neg = [], rl_relocs64 = rev r64\<rparr>
     | [r64, r32neg, r32] \<Rightarrow> Inr \<lparr>rl_relocs32 = rev r32, rl_relocs32neg = rev r32neg, rl_relocs64 = rev r64\<rparr>
     | _ \<Rightarrow> Inl (ElfMalformed ''unexpected appended reloc list count''))"

lemma relocs_of_lists_rev: "relocs_of_lists (rev (map rev offs)) = table_relocs offs"
proof -
  consider (two) a b where "offs = [a, b]" | (three) a b c where "offs = [a, b, c]"
    | (other) "length offs \<noteq> 2" "length offs \<noteq> 3"
    by (cases "length offs = 2 \<or> length offs = 3") (auto simp: numeral_2_eq_2 numeral_3_eq_3 length_Suc_conv)
  then show ?thesis
  proof cases
    case other
    then have "table_relocs offs = Inl (ElfMalformed ''unexpected appended reloc list count'')"
      by (auto simp: table_relocs_def split: list.splits)
    with other show ?thesis by (simp add: relocs_of_lists_other)
  qed (simp_all add: relocs_of_lists_def table_relocs_def)
qed

text \<open>The slices that the boot code takes of the serialized tables.\<close>

lemma chunks4_words: "chunks4 (concat (map (le_bytes 4 :: u32 \<Rightarrow> bytes) ws)) = map (le_bytes 4) ws"
  by (induction ws) (simp_all add: chunks4_append)

lemma section_words:
  assumes "bytes = relocs_section_bytes r" "length (rl_relocs64 r) = n64" "length (rl_relocs32neg r) = n32n"
  shows "map from_le (chunks4 bytes) = rl_relocs64 r @ rl_relocs32neg r @ rl_relocs32 r"
    and "take n64 (map from_le (chunks4 bytes)) = rl_relocs64 r"
    and "take n32n (drop n64 (map from_le (chunks4 bytes))) = rl_relocs32neg r"
    and "drop (n64 + n32n) (map from_le (chunks4 bytes)) = rl_relocs32 r"
proof -
  have "map (from_le \<circ> le_bytes 4) ws = ws" for ws :: "u32 list"
    by (induction ws) (simp_all add: from_le_le_bytes_full)
  then show w: "map from_le (chunks4 bytes) = rl_relocs64 r @ rl_relocs32neg r @ rl_relocs32 r"
    unfolding assms(1) relocs_section_bytes_def chunks4_words by simp
  show "take n64 (map from_le (chunks4 bytes)) = rl_relocs64 r"
    and "take n32n (drop n64 (map from_le (chunks4 bytes))) = rl_relocs32neg r"
    and "drop (n64 + n32n) (map from_le (chunks4 bytes)) = rl_relocs32 r"
    using assms(2,3) by (simp_all add: w)
qed

lemma kaslr_section:
  assumes "\<not> relocs_is_empty r" "unat c64 = length (rl_relocs64 r)" "unat c32n = length (rl_relocs32neg r)"
    "unat c32 = length (rl_relocs32 r)" "rand_u64 rdrand = Some entropy" "kaslr_delta alloc_size entropy \<noteq> 0"
  shows "apply_kaslr (map from_le (chunks4 (relocs_section_bytes r))) c64 c32n c32 alloc_size rdrand img =
    Some (apply_relocs (kaslr_delta alloc_size entropy) (rl_relocs64 r) (rl_relocs32neg r) (rl_relocs32 r) img)"
proof -
  note w = section_words [OF refl assms(2,3) [symmetric]]
  have "rl_relocs64 r @ rl_relocs32neg r @ rl_relocs32 r \<noteq> []" using assms(1) by (auto simp: relocs_is_empty_def)
  then show ?thesis using assms(2-6) w by (auto simp: apply_kaslr_def Let_def)
qed

text \<open>
  C31. Relocations travel unchanged. For an ELF kernel without relocation sections, followed by
  the table that the kernel build appends, the extraction ends and yields the offsets of the
  table's addresses, list by list (two lists: 64-bit and 32-bit; three: with the inverse 32-bit
  list between them; none: no relocations; any other number is an error). Serialized into the
  section with its counts, the boot code applies exactly those lists.
\<close>

theorem appended_relocs_roundtrip:
  assumes "parse_elf G bytes = Some elf" "shdr_relocs elf = []" "elf_span_of elf = Inr span"
    "text_vaddr_of elf span = Inr text_vaddr"
    "bytes = file_part @ reloc_table tables" "length file_part = unat (elf_file_end elf)"
    "map (map (reloc_site_at text_vaddr (es_max_mem_end span - es_min_paddr span))) tables = map (map Some) offs"
  shows "extract_relocs G bytes = (if tables = [] then Inr no_relocs else table_relocs offs)
    \<and> (\<forall>r c64 c32n c32 alloc_size rdrand entropy img.
        extract_relocs G bytes = Inr r \<and> \<not> relocs_is_empty r \<and> unat c64 = length (rl_relocs64 r)
        \<and> unat c32n = length (rl_relocs32neg r) \<and> unat c32 = length (rl_relocs32 r)
        \<and> rand_u64 rdrand = Some entropy \<and> kaslr_delta alloc_size entropy \<noteq> 0 \<longrightarrow>
      apply_kaslr (map from_le (chunks4 (relocs_section_bytes r))) c64 c32n c32 alloc_size rdrand img =
        Some (apply_relocs (kaslr_delta alloc_size entropy) (rl_relocs64 r) (rl_relocs32neg r) (rl_relocs32 r) img))"
proof (intro conjI allI impI; (elim conjE)?)
  have size: "saturating_sub (es_max_mem_end span) (es_min_paddr span) = es_max_mem_end span - es_min_paddr span"
    using elf_span_bounds [OF assms(3)] by (simp add: saturating_sub_def word_le_nat_alt)
  have empty: "length (reloc_table tables) = 0 \<longleftrightarrow> tables = []"
    by (cases tables) (simp_all add: reloc_table_def)
  have "length offs = length tables" using assms(7) by (metis length_map)
  then show "extract_relocs G bytes = (if tables = [] then Inr no_relocs else table_relocs offs)"
    using relocs_of_table [OF assms(6,5,7)] empty assms(1-4)
    by (simp add: extract_relocs_def extract_appended_relocs_def goblin_elf_def Let_def size
        assms(5) assms(6) [symmetric] relocs_of_lists_rev)
qed (rule kaslr_section)

text \<open>One 64-bit and one 32-bit site.\<close>

theorem appended_relocs_roundtrip_witness:
  "extract_relocs demo_vmlinux_goblin ([1, 2, 3, 4, 5] @ reloc_table [[0x81000100], [0x81000104, 0x81000102]]) =
    Inr \<lparr>rl_relocs32 = [2, 4], rl_relocs32neg = [], rl_relocs64 = [0]\<rparr>"
proof -
  let ?b = "[1, 2, 3, 4, 5] @ reloc_table [[0x81000100], [0x81000104, 0x81000102]]"
  have p: "parse_elf demo_vmlinux_goblin ?b = Some demo_vmlinux" by (simp add: demo_vmlinux_goblin_def)
  have no: "shdr_relocs demo_vmlinux = []" by (simp add: demo_vmlinux_def demo_elf_def)
  have span: "elf_span_of demo_vmlinux = Inr demo_vmlinux_span" by code_simp
  have tv: "text_vaddr_of demo_vmlinux demo_vmlinux_span = Inr 0xFFFFFFFF81000100"
    by (simp add: text_vaddr_of_def demo_vmlinux_def demo_vmlinux_span_def loadable_def)
  have fe: "length [1, 2, 3, 4, 5 :: u8] = unat (elf_file_end demo_vmlinux)"
    by (simp add: elf_file_end_def demo_vmlinux_def demo_elf_def saturating_mul_def saturating_add_def max_def)
  have sites: "map (map (reloc_site_at 0xFFFFFFFF81000100 (es_max_mem_end demo_vmlinux_span - es_min_paddr demo_vmlinux_span)))
      [[0x81000100], [0x81000104, 0x81000102]] = map (map Some) [[0], [4, 2]]"
    by (simp add: reloc_site_at_def demo_vmlinux_span_def)
  from appended_relocs_roundtrip [OF p no span tv refl fe sites] show ?thesis
    by (simp add: table_relocs_def)
qed

section \<open>Unwrapping a bzImage\<close>

lemma find_window_Some_first:
  "find_window w xs = Some i \<Longrightarrow> i < length xs \<and> RustText.starts_with w (drop i xs) \<and> (\<forall>j<i. \<not> RustText.starts_with w (drop j xs))"
proof (induction xs arbitrary: i)
  case (Cons x xs)
  show ?case
  proof (cases "RustText.starts_with w (x # xs)")
    case True
    with Cons.prems show ?thesis by simp
  next
    case False
    with Cons.prems obtain k where k: "i = Suc k" "find_window w xs = Some k" by (auto split: if_splits)
    from Cons.IH [OF k(2)] False k(1) show ?thesis by (auto simp: less_Suc_eq_0_disj)
  qed
qed simp

lemma find_window_None_iff: "find_window w xs = None \<longleftrightarrow> (\<forall>j<length xs. \<not> RustText.starts_with w (drop j xs))"
  by (induction xs) (auto simp: less_Suc_eq_0_disj)

text \<open>What a position of the file unpacks to, if that is an ELF file.\<close>

definition elf_at :: "bytes \<Rightarrow> (bytes \<Rightarrow> bytes option) \<Rightarrow> bytes \<Rightarrow> nat \<Rightarrow> bytes option" where
  "elf_at magic decompress input pos =
    (if RustText.starts_with magic (drop pos input)
     then case decompress (drop pos input) of
            Some out \<Rightarrow> if 4 \<le> length out \<and> take 4 out = ELF_MAGIC then Some out else None
          | None \<Rightarrow> None
     else None)"

lemma find_map_append: "find_map f (xs @ ys) = (case find_map f xs of Some y \<Rightarrow> Some y | None \<Rightarrow> find_map f ys)"
  by (induction xs) (auto split: option.splits)

lemma find_map_None: "(\<And>x. x \<in> set xs \<Longrightarrow> f x = None) \<Longrightarrow> find_map f xs = None"
  by (induction xs) simp_all

lemma scan_decompress_first:
  "scan_decompress input magic decompress start =
    find_map (elf_at magic decompress input) [start..<length input]"
proof (induction input magic decompress start rule: scan_decompress.induct)
  case (1 input magic decompress start)
  let ?f = "elf_at magic decompress input"
  show ?case
  proof (cases "find_window magic (drop start input)")
    case None
    have "find_map ?f [start..<length input] = None"
    proof (rule find_map_None)
      fix pos assume "pos \<in> set [start..<length input]"
      then have "pos - start < length (drop start input)" "drop (pos - start) (drop start input) = drop pos input"
        by auto
      then have "\<not> RustText.starts_with magic (drop pos input)" using None by (metis find_window_None_iff)
      then show "?f pos = None" by (simp add: elf_at_def)
    qed
    then show ?thesis by (simp add: scan_decompress.simps [of input] None)
  next
    case (Some rel)
    let ?pos = "start + rel"
    from find_window_Some_first [OF Some] have w: "?pos < length input" "RustText.starts_with magic (drop ?pos input)"
      "\<And>j. j < rel \<Longrightarrow> \<not> RustText.starts_with magic (drop (start + j) input)"
      by (auto simp: add.commute)
    have "[start..<length input] = [start..<?pos] @ ?pos # [?pos + 1..<length input]"
    proof -
      have "[start..<length input] = [start..<?pos] @ [?pos..<length input]"
        using w(1) by (metis le_add1 less_imp_le_nat upt_add_eq_append le_add_diff_inverse)
      then show ?thesis using w(1) by (simp add: upt_conv_Cons)
    qed
    moreover have "find_map ?f [start..<?pos] = None"
    proof (rule find_map_None)
      fix pos assume "pos \<in> set [start..<?pos]"
      then have "pos - start < rel" "start + (pos - start) = pos" by auto
      then have "\<not> RustText.starts_with magic (drop pos input)" using w(3) [of "pos - start"] by simp
      then show "?f pos = None" by (simp add: elf_at_def)
    qed
    ultimately have split: "find_map ?f [start..<length input] =
        (case ?f ?pos of Some y \<Rightarrow> Some y | None \<Rightarrow> find_map ?f [Suc ?pos..<length input])"
      by (simp add: find_map_append)
    show ?thesis
    proof (cases "?f ?pos")
      case None
      then have "decompress (drop ?pos input) = None
          \<or> (\<exists>out. decompress (drop ?pos input) = Some out \<and> \<not> (4 \<le> length out \<and> take 4 out = ELF_MAGIC))"
        using w(2) by (auto simp: elf_at_def split: option.splits if_splits)
      then show ?thesis
        using split None "1.IH"(1) [OF Some refl, folded Suc_eq_plus1] "1.IH"(2) [OF Some refl, folded Suc_eq_plus1]
        by (auto simp: scan_decompress.simps [of input _ _ start] Some Let_def byte_slice_def)
    next
      case (Some out)
      then have "decompress (drop ?pos input) = Some out" "4 \<le> length out" "take 4 out = ELF_MAGIC"
        by (auto simp: elf_at_def split: option.splits if_splits)
      then show ?thesis using split Some \<open>find_window magic (drop start input) = Some rel\<close>
        by (simp add: scan_decompress.simps [of input _ _ start] Let_def byte_slice_def)
    qed
  qed
qed

definition is_bzimage :: "bytes \<Rightarrow> bool" where
  "is_bzimage input \<longleftrightarrow> 0x206 \<le> length input \<and> take 4 (drop 0x202 input) = str_bytes ''HdrS''"

lemma from_le_inj:
  assumes "length xs = 4" "length ys = 4" "(from_le xs :: u32) = from_le ys"
  shows "xs = ys"
proof (rule nth_equalityI)
  fix i assume "i < length xs"
  show "xs ! i = ys ! i"
  proof (rule bit_word_eqI)
    fix n assume n: "n < LENGTH(8)"
    have "bit (from_le xs :: u32) (8 * i + n) = bit (from_le ys :: u32) (8 * i + n)" by (simp add: assms(3))
    then show "bit (xs ! i) n = bit (ys ! i) n"
      using n \<open>i < length xs\<close> assms(1,2) by (simp add: bit_from_le)
  qed
qed (simp add: assms(1,2))

lemma hdrs_magic: "BZIMAGE_HDRS_MAGIC = from_le (str_bytes ''HdrS'')"
  by code_simp

lemma is_bzimage_iff:
  "is_bzimage input \<longleftrightarrow> BZIMAGE_HDRS_OFFSET + 4 \<le> length input
    \<and> from_le (byte_slice input BZIMAGE_HDRS_OFFSET 4) = BZIMAGE_HDRS_MAGIC"
proof -
  have len: "length (str_bytes ''HdrS'') = 4" by (simp add: str_bytes_def)
  have "byte_slice input 0x202 4 = str_bytes ''HdrS'' \<longleftrightarrow>
      from_le (byte_slice input 0x202 4) = (from_le (str_bytes ''HdrS'') :: u32)" if "0x206 \<le> length input"
    using that from_le_inj [OF _ len] by (auto simp: byte_slice_def)
  then show ?thesis
    by (auto simp: is_bzimage_def BZIMAGE_HDRS_OFFSET_def hdrs_magic byte_slice_def)
qed

text \<open>
  C32. Extraction from a bzImage. A file without the header magic passes unchanged. From a
  bzImage the search, which always ends, returns what the first gzip member that unpacks to an
  ELF file holds; when there is none, the same for zstd; when there is none either, the error.
\<close>

theorem extract_vmlinux_first:
  "extract_vmlinux W input =
    (if \<not> is_bzimage input then Inr input
     else case find_map (elf_at GZIP_MAGIC (gunzip W) input) [0..<length input] of
       Some elf \<Rightarrow> Inr elf
     | None \<Rightarrow> ok_or BzImageNoVmlinux (find_map (elf_at ZSTD_MAGIC (unzstd W) input) [0..<length input]))"
  by (auto simp: extract_vmlinux_def is_bzimage_iff scan_decompress_first split: option.split)

end
