(* ===== verification/Pe.thy ===== *)
theory Pe
  imports Kernel
begin

text \<open>
  The PE32+ writer (\<open>src/pe.rs\<close>): section names and the string table, the layout of the raw
  data, the headers, and the file. The \<open>repr(C, packed)\<close> headers are records with an encoding
  that writes their fields little-endian in order. Slice copies are \<open>copy_at\<close>; that all of them
  are in bounds is part of what is proved.
\<close>

section \<open>Sections\<close>

record pe_section =
  sec_name :: string
  sec_vaddr :: u64
  sec_virtual_size :: u64
  sec_data :: bytes
  sec_characteristics :: u32
  sec_non_loaded :: bool

datatype pe_error =
    TooManySections nat
  | PeOverflow
  | NulInName string
  | StringTableOffsetTooLarge nat

definition is_zero_shape :: "pe_section \<Rightarrow> bool" where
  "is_zero_shape s \<longleftrightarrow> sec_data s = []"

definition IMAGE_SCN_CNT_CODE :: u32 where "IMAGE_SCN_CNT_CODE = 0x20"
definition IMAGE_SCN_CNT_INITIALIZED_DATA :: u32 where "IMAGE_SCN_CNT_INITIALIZED_DATA = 0x40"
definition IMAGE_SCN_CNT_UNINITIALIZED_DATA :: u32 where "IMAGE_SCN_CNT_UNINITIALIZED_DATA = 0x80"
definition IMAGE_FILE_EXECUTABLE_IMAGE :: u16 where "IMAGE_FILE_EXECUTABLE_IMAGE = 2"
definition IMAGE_FILE_LARGE_ADDRESS_AWARE :: u16 where "IMAGE_FILE_LARGE_ADDRESS_AWARE = 0x20"
definition IMAGE_FILE_DEBUG_STRIPPED :: u16 where "IMAGE_FILE_DEBUG_STRIPPED = 0x200"
definition IMAGE_SUBSYSTEM_EFI_APPLICATION :: u16 where "IMAGE_SUBSYSTEM_EFI_APPLICATION = 10"
definition PE32PLUS_MAGIC :: u16 where "PE32PLUS_MAGIC = 0x20B"
definition FILE_ALIGNMENT :: u32 where "FILE_ALIGNMENT = 0x1000"
definition SECTION_ALIGNMENT :: u32 where "SECTION_ALIGNMENT = 0x1000"
definition LARGE_THRESHOLD :: u64 where "LARGE_THRESHOLD = 2 * 1024 * 1024"
definition LARGE_ALIGNMENT :: u32 where "LARGE_ALIGNMENT = 2 * 1024 * 1024"
definition PE_SIGNATURE :: bytes where "PE_SIGNATURE = str_bytes ''PE'' @ [0, 0]"
definition NUM_DATA_DIRECTORIES :: nat where "NUM_DATA_DIRECTORIES = 16"
definition IMAGE_BASE :: u64 where "IMAGE_BASE = 0"

text \<open>\<open>s.data.len() as u64\<close>: a slice is shorter than \<open>2 ^ 63\<close>.\<close>

definition is_large_payload :: "pe_section \<Rightarrow> bool" where
  "is_large_payload s \<longleftrightarrow> \<not> sec_non_loaded s \<and> \<not> is_zero_shape s
     \<and> LARGE_THRESHOLD \<le> max (sec_virtual_size s) (word_of_nat (length (sec_data s)))"

definition alignment_for :: "pe_section \<Rightarrow> u32" where
  "alignment_for s = (if is_large_payload s then LARGE_ALIGNMENT else FILE_ALIGNMENT)"

definition align_up_u32 :: "u32 \<Rightarrow> u32 \<Rightarrow> u32 option" where
  "align_up_u32 v a = map_option (\<lambda>x. x AND NOT (a - 1)) (checked_add v (a - 1))"

definition align_up_u64 :: "u64 \<Rightarrow> u64 \<Rightarrow> u64" where
  "align_up_u64 v a = saturating_add v (a - 1) AND NOT (a - 1)"

definition u32_try :: "nat \<Rightarrow> pe_error + u32" where
  "u32_try n = (if n < 2 ^ 32 then Inr (word_of_nat n) else Inl PeOverflow)"

section \<open>Headers\<close>

record dos_header =
  e_magic :: u16
  e_lfanew :: u32

definition dos_bytes :: "dos_header \<Rightarrow> bytes" where
  "dos_bytes h = le_bytes 2 (e_magic h) @ replicate 58 0 @ le_bytes 4 (e_lfanew h)"

definition DOS_SIZE :: nat where "DOS_SIZE = 64"

record coff_header =
  ch_machine :: u16
  number_of_sections :: u16
  time_date_stamp :: u32
  pointer_to_symbol_table :: u32
  number_of_symbols :: u32
  size_of_optional_header :: u16
  ch_characteristics :: u16

definition coff_bytes :: "coff_header \<Rightarrow> bytes" where
  "coff_bytes h = le_bytes 2 (ch_machine h) @ le_bytes 2 (number_of_sections h)
    @ le_bytes 4 (time_date_stamp h) @ le_bytes 4 (pointer_to_symbol_table h)
    @ le_bytes 4 (number_of_symbols h) @ le_bytes 2 (size_of_optional_header h)
    @ le_bytes 2 (ch_characteristics h)"

definition COFF_SIZE :: nat where "COFF_SIZE = 20"

text \<open>The fields of the optional header whose values vary or are not zero; the others are written
  as zeros at their places.\<close>

record optional_header =
  size_of_code :: u32
  size_of_initialized_data :: u32
  size_of_uninitialized_data :: u32
  size_of_image :: u32
  size_of_headers :: u32

definition optional_bytes :: "optional_header \<Rightarrow> bytes" where
  "optional_bytes h = le_bytes 2 PE32PLUS_MAGIC @ [1, 0]
    @ le_bytes 4 (size_of_code h) @ le_bytes 4 (size_of_initialized_data h)
    @ le_bytes 4 (size_of_uninitialized_data h)
    @ le_bytes 4 (0 :: u32) @ le_bytes 4 (0 :: u32) @ le_bytes 8 IMAGE_BASE
    @ le_bytes 4 SECTION_ALIGNMENT @ le_bytes 4 FILE_ALIGNMENT
    @ replicate 12 0 @ replicate 4 0
    @ le_bytes 4 (size_of_image h) @ le_bytes 4 (size_of_headers h) @ le_bytes 4 (0 :: u32)
    @ le_bytes 2 IMAGE_SUBSYSTEM_EFI_APPLICATION @ replicate 2 0
    @ replicate 32 0 @ replicate 4 0
    @ le_bytes 4 (word_of_nat NUM_DATA_DIRECTORIES :: u32) @ replicate (8 * NUM_DATA_DIRECTORIES) 0"

definition OPT_SIZE :: nat where "OPT_SIZE = 240"

record section_header =
  h_name :: bytes
  h_virtual_size :: u32
  h_virtual_address :: u32
  h_size_of_raw_data :: u32
  h_pointer_to_raw_data :: u32
  h_characteristics :: u32

definition section_header_bytes :: "section_header \<Rightarrow> bytes" where
  "section_header_bytes h = h_name h @ le_bytes 4 (h_virtual_size h) @ le_bytes 4 (h_virtual_address h)
    @ le_bytes 4 (h_size_of_raw_data h) @ le_bytes 4 (h_pointer_to_raw_data h)
    @ le_bytes 4 (0 :: u32) @ le_bytes 4 (0 :: u32) @ le_bytes 2 (0 :: u16) @ le_bytes 2 (0 :: u16)
    @ le_bytes 4 (h_characteristics h)"

definition SECTION_HDR_SIZE :: nat where "SECTION_HDR_SIZE = 40"

section \<open>The file (build_pe)\<close>

definition pad_name :: "bytes \<Rightarrow> bytes" where
  "pad_name n = n @ replicate (8 - length n) 0"

definition pe_name_step :: "bytes \<times> bytes list \<Rightarrow> pe_section \<Rightarrow> pe_error + bytes \<times> bytes list" where
  "pe_name_step st s = (case st of (strtab, name_fields) \<Rightarrow>
    let n = str_bytes (sec_name s) in
    if length n \<le> 8 then Inr (strtab, name_fields @ [pad_name n])
    else
      let off = length strtab;
          strtab = strtab @ n @ [0];
          sb = str_bytes (''/'' @ format_dec off) in
      if 8 < length sb then Inl (StringTableOffsetTooLarge off)
      else Inr (strtab, name_fields @ [pad_name sb]))"

definition place_step :: "u32 \<times> (u32 \<times> u32) list \<Rightarrow> pe_section \<Rightarrow> pe_error + u32 \<times> (u32 \<times> u32) list" where
  "place_step st s = (case st of (cursor, raw) \<Rightarrow>
    if is_zero_shape s then Inr (cursor, raw @ [(0, 0)])
    else
      rbind (ok_or PeOverflow (align_up_u32 cursor (alignment_for s))) (\<lambda>cursor.
      rbind (u32_try (length (sec_data s))) (\<lambda>data_len.
      rbind (ok_or PeOverflow (align_up_u32 data_len FILE_ALIGNMENT)) (\<lambda>raw_size.
      rbind (ok_or PeOverflow (checked_add cursor raw_size)) (\<lambda>next_cursor.
      Inr (next_cursor, raw @ [(cursor, raw_size)]))))))"

definition image_end_step :: "u64 \<Rightarrow> pe_section \<Rightarrow> u64" where
  "image_end_step m s =
    (if sec_non_loaded s then m
     else
       let e = saturating_add (sec_vaddr s) (align_up_u64 (sec_virtual_size s) (ucast SECTION_ALIGNMENT)) in
       if m < e then e else m)"

definition image_size_of :: "u32 \<Rightarrow> pe_section list \<Rightarrow> u32" where
  "image_size_of hdrs sections =
    ucast (min (align_up_u64 (foldl image_end_step (ucast hdrs) sections) (ucast SECTION_ALIGNMENT))
      (0xFFFFFFFF :: u64))"

definition aligned_data_size :: "pe_section \<Rightarrow> pe_error + u32" where
  "aligned_data_size s =
    rbind (u32_try (length (sec_data s))) (\<lambda>len. ok_or PeOverflow (align_up_u32 len (alignment_for s)))"

definition add_size :: "bool \<Rightarrow> (unit \<Rightarrow> pe_error + u32) \<Rightarrow> u32 \<Rightarrow> pe_error + u32" where
  "add_size c f acc =
    (if c then rbind (f ()) (\<lambda>n. ok_or PeOverflow (checked_add acc n)) else Inr acc)"

definition size_step :: "u32 \<times> u32 \<times> u32 \<Rightarrow> pe_section \<Rightarrow> pe_error + u32 \<times> u32 \<times> u32" where
  "size_step st s = (case st of (code, init, uninit) \<Rightarrow>
    rbind (add_size (sec_characteristics s AND IMAGE_SCN_CNT_CODE \<noteq> 0) (\<lambda>_. aligned_data_size s) code) (\<lambda>code.
    rbind (add_size (sec_characteristics s AND IMAGE_SCN_CNT_INITIALIZED_DATA \<noteq> 0) (\<lambda>_. aligned_data_size s) init) (\<lambda>init.
    rbind (add_size (sec_characteristics s AND IMAGE_SCN_CNT_UNINITIALIZED_DATA \<noteq> 0)
      (\<lambda>_. rbind (u32_try (unat (sec_virtual_size s))) (\<lambda>v. ok_or PeOverflow (align_up_u32 v SECTION_ALIGNMENT)))
      uninit) (\<lambda>uninit.
    Inr (code, init, uninit)))))"

definition section_header_of :: "bytes \<Rightarrow> u32 \<times> u32 \<Rightarrow> pe_section \<Rightarrow> pe_error + section_header" where
  "section_header_of name raw s = (case raw of (raw_offset, raw_size) \<Rightarrow>
    rbind (if sec_non_loaded s then Inr 0 else u32_try (unat (sec_vaddr s))) (\<lambda>vaddr32.
    rbind (u32_try (unat (sec_virtual_size s))) (\<lambda>natural_vsize.
    let vsize32 = (if sec_non_loaded s \<or> is_zero_shape s then natural_vsize else max natural_vsize raw_size) in
    Inr \<lparr>h_name = name, h_virtual_size = vsize32, h_virtual_address = vaddr32,
      h_size_of_raw_data = raw_size, h_pointer_to_raw_data = raw_offset,
      h_characteristics = sec_characteristics s\<rparr>)))"

definition header_step ::
  "bytes \<times> nat \<Rightarrow> bytes \<times> (u32 \<times> u32) \<times> pe_section \<Rightarrow> pe_error + bytes \<times> nat" where
  "header_step st x = (case st of (buf, off) \<Rightarrow> case x of (name, raw, s) \<Rightarrow>
    rbind (section_header_of name raw s) (\<lambda>hdr.
    Inr (copy_at buf off (section_header_bytes hdr), off + SECTION_HDR_SIZE)))"

definition data_step :: "bytes \<Rightarrow> (u32 \<times> u32) \<times> pe_section \<Rightarrow> bytes" where
  "data_step buf x = (case x of (raw, s) \<Rightarrow>
    if is_zero_shape s then buf else copy_at buf (unat (fst raw)) (sec_data s))"

definition build_pe :: "u16 \<Rightarrow> pe_section list \<Rightarrow> pe_error + bytes" where
  "build_pe machine sections =
    rbind (guard_err (TooManySections (length sections)) (length sections \<le> 0xFFFF)) (\<lambda>_.
    rbind (try_fold (\<lambda>_ s. guard_err (NulInName (sec_name s)) (0 \<notin> set (str_bytes (sec_name s)))) () sections) (\<lambda>_.
    rbind (try_fold pe_name_step (le_bytes 4 (0 :: u32), []) sections) (\<lambda>(strtab, name_fields).
    let strtab = copy_at strtab 0 (le_bytes 4 (word_of_nat (length strtab) :: u32));
        need_strtab = (4 < length strtab) in
    rbind (ok_or PeOverflow (align_up_u32 (word_of_nat DOS_SIZE) 8)) (\<lambda>pe_offset.
    let headers_end = unat pe_offset + length PE_SIGNATURE + COFF_SIZE + OPT_SIZE
          + length sections * SECTION_HDR_SIZE in
    rbind (u32_try headers_end) (\<lambda>headers_end_u32.
    rbind (ok_or PeOverflow (align_up_u32 headers_end_u32 FILE_ALIGNMENT)) (\<lambda>hdrs_size.
    rbind (try_fold place_step (hdrs_size, []) sections) (\<lambda>(cursor, raw).
    rbind (if need_strtab
           then rbind (u32_try (length strtab)) (\<lambda>strtab_len.
                rbind (ok_or PeOverflow (checked_add cursor strtab_len)) (\<lambda>file_end.
                Inr (cursor, file_end)))
           else Inr (0, cursor)) (\<lambda>(strtab_offset, file_size).
    rbind (try_fold size_step (0, 0, 0) sections) (\<lambda>(code, init, uninit).
    let buf = replicate (unat file_size) 0;
        buf = copy_at buf 0 (dos_bytes \<lparr>e_magic = 0x5A4D, e_lfanew = pe_offset\<rparr>);
        off = unat pe_offset;
        buf = copy_at buf off PE_SIGNATURE;
        off = off + 4;
        buf = copy_at buf off (coff_bytes \<lparr>ch_machine = machine,
          number_of_sections = word_of_nat (length sections), time_date_stamp = 0,
          pointer_to_symbol_table = strtab_offset, number_of_symbols = 0,
          size_of_optional_header = word_of_nat OPT_SIZE,
          ch_characteristics = IMAGE_FILE_EXECUTABLE_IMAGE OR IMAGE_FILE_LARGE_ADDRESS_AWARE
            OR IMAGE_FILE_DEBUG_STRIPPED\<rparr>);
        off = off + COFF_SIZE;
        buf = copy_at buf off (optional_bytes \<lparr>size_of_code = code, size_of_initialized_data = init,
          size_of_uninitialized_data = uninit, size_of_image = image_size_of hdrs_size sections,
          size_of_headers = hdrs_size\<rparr>);
        off = off + OPT_SIZE in
    rbind (try_fold header_step (buf, off) (zip name_fields (zip raw sections))) (\<lambda>(buf, off).
    let buf = foldl data_step buf (zip raw sections) in
    Inr (if need_strtab then copy_at buf (unat strtab_offset) strtab else buf)))))))))))"

section \<open>Writes in order\<close>

definition apply_writes :: "(nat \<times> bytes) list \<Rightarrow> bytes \<Rightarrow> bytes" where
  "apply_writes ws buf = foldl (\<lambda>b (p, ys). copy_at b p ys) buf ws"

fun ordered_writes :: "nat \<Rightarrow> (nat \<times> bytes) list \<Rightarrow> nat \<Rightarrow> bool" where
  "ordered_writes lo [] hi \<longleftrightarrow> lo \<le> hi"
| "ordered_writes lo ((p, ys) # ws) hi \<longleftrightarrow> lo \<le> p \<and> ordered_writes (p + length ys) ws hi"

lemma apply_writes_simps [simp]:
  "apply_writes [] buf = buf" "apply_writes ((p, ys) # ws) buf = apply_writes ws (copy_at buf p ys)"
  "apply_writes (ws @ ws') buf = apply_writes ws' (apply_writes ws buf)"
  by (simp_all add: apply_writes_def)

lemma ordered_writes_le: "ordered_writes lo ws hi \<Longrightarrow> lo \<le> hi"
  by (induction lo ws hi rule: ordered_writes.induct) auto

lemma ordered_writes_append:
  "ordered_writes lo ws mid \<Longrightarrow> ordered_writes mid ws' hi \<Longrightarrow> ordered_writes lo (ws @ ws') hi"
proof (induction lo ws mid rule: ordered_writes.induct)
  case (1 lo hi')
  then show ?case by (cases ws') auto
qed auto

lemma ordered_writes_range:
  "ordered_writes lo ws hi \<Longrightarrow> (p, ys) \<in> set ws \<Longrightarrow> lo \<le> p \<and> p + length ys \<le> hi"
  by (induction lo ws hi rule: ordered_writes.induct) (auto dest: ordered_writes_le)

lemma length_apply_writes: "ordered_writes lo ws hi \<Longrightarrow> hi \<le> length buf \<Longrightarrow> length (apply_writes ws buf) = length buf"
proof (induction lo ws hi arbitrary: buf rule: ordered_writes.induct)
  case (2 lo p ys ws hi)
  then have "p + length ys \<le> length buf" using ordered_writes_le by fastforce
  with 2 show ?case by simp
qed simp

lemma apply_writes_gap:
  assumes "ordered_writes lo ws hi" "hi \<le> length buf" "i < length buf"
    "\<forall>(p, ys)\<in>set ws. i < p \<or> p + length ys \<le> i"
  shows "apply_writes ws buf ! i = buf ! i"
  using assms
proof (induction lo ws hi arbitrary: buf rule: ordered_writes.induct)
  case (2 lo p ys ws hi)
  then have "p + length ys \<le> length buf" using ordered_writes_le by fastforce
  with 2 show ?case by (auto simp: nth_copy_at)
qed simp

lemma apply_writes_slice:
  assumes "ordered_writes lo ws hi" "hi \<le> length buf" "(p, ys) \<in> set ws"
  shows "byte_slice (apply_writes ws buf) p (length ys) = ys"
  using assms
proof (induction lo ws hi arbitrary: buf rule: ordered_writes.induct)
  case (2 lo q zs ws hi)
  have le: "q + length zs \<le> length buf" using 2(2,3) ordered_writes_le by fastforce
  then have len: "length (copy_at buf q zs) = length buf" by simp
  show ?case
  proof (cases "(p, ys) \<in> set ws")
    case True
    with 2 len show ?thesis by simp
  next
    case False
    with 2 have eq: "p = q" "ys = zs" by auto
    note ord = 2(2) [simplified, THEN conjunct2]
    have "apply_writes ws (copy_at buf q zs) ! (q + i) = zs ! i" if i: "i < length zs" for i
    proof -
      have "\<forall>(p', ys')\<in>set ws. q + i < p' \<or> p' + length ys' \<le> q + i"
        using ordered_writes_range [OF ord] i by fastforce
      then have "apply_writes ws (copy_at buf q zs) ! (q + i) = copy_at buf q zs ! (q + i)"
        using 2(3) i le by (intro apply_writes_gap [OF ord]) simp_all
      then show ?thesis using i le by (simp add: nth_copy_at)
    qed
    moreover have "length (apply_writes ws (copy_at buf q zs)) = length buf"
      using length_apply_writes [OF ord] 2(3) by (simp add: le)
    ultimately show ?thesis using le by (auto simp: eq byte_slice_def intro!: nth_equalityI)
  qed
qed simp

section \<open>The steps as lists of writes\<close>

lemma lengths [simp]:
  "length (dos_bytes d) = 64" "length (coff_bytes c) = 20" "length (optional_bytes o') = 240"
  "length PE_SIGNATURE = 4"
  by (simp_all add: dos_bytes_def coff_bytes_def optional_bytes_def PE_SIGNATURE_def NUM_DATA_DIRECTORIES_def
      str_bytes_def)

lemma length_section_header_bytes: "length (h_name h) = 8 \<Longrightarrow> length (section_header_bytes h) = 40"
  by (simp add: section_header_bytes_def)

fun header_writes :: "nat \<Rightarrow> section_header list \<Rightarrow> (nat \<times> bytes) list" where
  "header_writes off [] = []"
| "header_writes off (h # hs) = (off, section_header_bytes h) # header_writes (off + 40) hs"

lemma header_writes_ordered:
  "\<forall>h\<in>set hs. length (h_name h) = 8 \<Longrightarrow> ordered_writes off (header_writes off hs) (off + 40 * length hs)"
proof (induction hs arbitrary: off)
  case (Cons h hs)
  have "ordered_writes (off + 40) (header_writes (off + 40) hs) (off + 40 + 40 * length hs)"
    using Cons by simp
  then show ?case using Cons.prems by (simp add: length_section_header_bytes algebra_simps)
qed simp

lemma header_writes_nth: "i < length hs \<Longrightarrow> (off + 40 * i, section_header_bytes (hs ! i)) \<in> set (header_writes off hs)"
proof (induction hs arbitrary: off i)
  case (Cons h hs)
  show ?case
  proof (cases i)
    case (Suc j)
    with Cons.IH [of j "off + 40"] Cons.prems show ?thesis by (simp add: algebra_simps)
  qed simp
qed simp

lemma header_step_Inr:
  "header_step (buf, off) (name, raw, s) = Inr st \<longleftrightarrow>
    (\<exists>h. section_header_of name raw s = Inr h \<and> st = (copy_at buf off (section_header_bytes h), off + 40))"
  by (auto simp: header_step_def rbind_eq_Inr SECTION_HDR_SIZE_def)

lemma header_fold:
  "try_fold header_step (buf, off) xs = Inr (buf', off') \<Longrightarrow>
    \<exists>hs. list_all2 (\<lambda>(name, raw, s) h. section_header_of name raw s = Inr h) xs hs
      \<and> buf' = apply_writes (header_writes off hs) buf"
proof (induction xs arbitrary: buf off)
  case (Cons x xs)
  obtain name raw s where x: "x = (name, raw, s)" by (cases x)
  from Cons.prems obtain h where h: "section_header_of name raw s = Inr h"
    "try_fold header_step (copy_at buf off (section_header_bytes h), off + 40) xs = Inr (buf', off')"
    by (auto simp: x header_step_Inr rbind_eq_Inr)
  from Cons.IH [OF h(2)] obtain hs where
    "list_all2 (\<lambda>(name, raw, s) h. section_header_of name raw s = Inr h) xs hs"
    "buf' = apply_writes (header_writes (off + 40) hs) (copy_at buf off (section_header_bytes h))" by blast
  with h(1) show ?case by (intro exI [of _ "h # hs"]) (simp add: x)
qed simp

definition data_writes :: "((u32 \<times> u32) \<times> pe_section) list \<Rightarrow> (nat \<times> bytes) list" where
  "data_writes xs = map (\<lambda>(raw, s). (unat (fst raw), sec_data s)) (filter (\<lambda>(raw, s). \<not> is_zero_shape s) xs)"

lemma data_fold: "foldl data_step buf xs = apply_writes (data_writes xs) buf"
  by (induction xs arbitrary: buf) (auto simp: data_writes_def data_step_def)

text \<open>The raw data of the sections, placed in order from \<open>lo\<close>.\<close>

definition align_of :: "pe_section \<Rightarrow> nat" where
  "align_of s = (if is_large_payload s then 0x200000 else 0x1000)"

fun placed :: "nat \<Rightarrow> ((u32 \<times> u32) \<times> pe_section) list \<Rightarrow> nat \<Rightarrow> bool" where
  "placed lo [] hi \<longleftrightarrow> lo \<le> hi"
| "placed lo (((off, sz), s) # xs) hi \<longleftrightarrow>
    (if is_zero_shape s then off = 0 \<and> sz = 0 \<and> placed lo xs hi
     else lo \<le> unat off \<and> align_of s dvd unat off \<and> length (sec_data s) \<le> unat sz
       \<and> unat sz < length (sec_data s) + 0x1000 \<and> 0x1000 dvd unat sz \<and> placed (unat off + unat sz) xs hi)"

lemma align_up_u32_word: "align_up_u32 = align_up_word"
  by (intro ext) (simp add: align_up_u32_def align_up_word_def)

lemma align_up_u32_Some:
  assumes "align_up_u32 v (2 ^ k) = Some x" "k < 32"
  shows "unat v \<le> unat x \<and> 2 ^ k dvd unat x \<and> unat x < unat v + 2 ^ k"
  using assms align_up_word_ge [of v _ x] align_up_word_pow2_Some [of v k x] by (simp add: align_up_u32_word)

lemma alignment_for_pow: "\<exists>k. alignment_for s = 2 ^ k \<and> align_of s = 2 ^ k \<and> k < 32"
proof (cases "is_large_payload s")
  case True
  then show ?thesis by (intro exI [of _ 21]) (simp add: alignment_for_def align_of_def LARGE_ALIGNMENT_def)
next
  case False
  then show ?thesis by (intro exI [of _ 12]) (simp add: alignment_for_def align_of_def FILE_ALIGNMENT_def)
qed

lemma place_step_Inr:
  assumes "place_step (c, raw) s = Inr (c', raw')"
  obtains "is_zero_shape s" "c' = c" "raw' = raw @ [(0, 0)]"
  | off sz where "\<not> is_zero_shape s" "raw' = raw @ [(off, sz)]" "unat c \<le> unat off" "align_of s dvd unat off"
    "length (sec_data s) \<le> unat sz" "unat sz < length (sec_data s) + 0x1000" "0x1000 dvd unat sz"
    "unat c' = unat off + unat sz"
proof (cases "is_zero_shape s")
  case True
  with assms show ?thesis by (intro that(1)) (auto simp: place_step_def)
next
  case False
  with assms obtain off len sz where f: "align_up_u32 c (alignment_for s) = Some off"
    "u32_try (length (sec_data s)) = Inr len" "align_up_u32 len FILE_ALIGNMENT = Some sz"
    "checked_add off sz = Some c'" "raw' = raw @ [(off, sz)]"
    by (auto simp: place_step_def rbind_eq_Inr ok_or_eq_Inr)
  from alignment_for_pow obtain k where k: "alignment_for s = 2 ^ k" "align_of s = 2 ^ k" "k < 32" by blast
  have "unat len = length (sec_data s)"
    using f(2) by (auto simp: u32_try_def unat_of_nat split: if_splits)
  moreover have "FILE_ALIGNMENT = 2 ^ 12" by (simp add: FILE_ALIGNMENT_def)
  ultimately have sz: "length (sec_data s) \<le> unat sz" "0x1000 dvd unat sz" "unat sz < length (sec_data s) + 0x1000"
    using align_up_u32_Some [of len 12 sz] f(3) by simp_all
  show ?thesis
    using False f(5) align_up_u32_Some [OF f(1) [unfolded k(1)] k(3)] sz f(4)
    by (intro that(2)) (simp_all add: k(2) checked_simps)
qed

lemma place_fold:
  "try_fold place_step (c, raw) ss = Inr (c', raw') \<Longrightarrow>
    \<exists>rs. raw' = raw @ rs \<and> length rs = length ss \<and> placed (unat c) (zip rs ss) (unat c')"
proof (induction ss arbitrary: c raw)
  case (Cons s ss)
  from Cons.prems obtain c1 raw1 where p: "place_step (c, raw) s = Inr (c1, raw1)"
    "try_fold place_step (c1, raw1) ss = Inr (c', raw')"
    by (auto simp: rbind_eq_Inr)
  from Cons.IH [OF p(2)] obtain rs where rs: "raw' = raw1 @ rs" "length rs = length ss"
    "placed (unat c1) (zip rs ss) (unat c')" by blast
  from p(1) show ?case
  proof (cases rule: place_step_Inr)
    case 1
    with rs show ?thesis by (intro exI [of _ "(0, 0) # rs"]) simp
  next
    case (2 off sz)
    with rs show ?thesis by (intro exI [of _ "(off, sz) # rs"]) simp
  qed
qed simp

lemma placed_writes: "placed lo xs hi \<Longrightarrow> ordered_writes lo (data_writes xs) hi"
proof (induction lo xs hi rule: placed.induct)
  case (2 lo off sz s xs hi)
  show ?case
  proof (cases "is_zero_shape s")
    case True
    with 2 show ?thesis by (simp add: data_writes_def)
  next
    case False
    with 2 have "ordered_writes (unat off + unat sz) (data_writes xs) hi" "length (sec_data s) \<le> unat sz"
      "lo \<le> unat off" by simp_all
    moreover have "ordered_writes a ws hi \<Longrightarrow> b \<le> a \<Longrightarrow> ordered_writes b ws hi" for a b ws
      by (cases ws) auto
    ultimately have "ordered_writes (unat off + length (sec_data s)) (data_writes xs) hi" "lo \<le> unat off"
      by (meson add_left_mono)+
    then show ?thesis using False by (simp add: data_writes_def)
  qed
qed (simp add: data_writes_def)

section \<open>Names\<close>

text \<open>A reader of the name field: text up to the first zero, or, after a slash, the decimal offset
  of a text in the string table.\<close>

definition c_bytes :: "bytes \<Rightarrow> bytes" where
  "c_bytes bs = takeWhile (\<lambda>b. b \<noteq> 0) bs"

definition dec_value :: "bytes \<Rightarrow> nat" where
  "dec_value ds = foldl (\<lambda>n d. 10 * n + (unat d - 48)) 0 ds"

definition section_name :: "bytes \<Rightarrow> bytes \<Rightarrow> bytes" where
  "section_name strtab nf =
    (let n = c_bytes nf in
     if n \<noteq> [] \<and> hd n = 0x2F then c_bytes (drop (dec_value (tl n)) strtab) else n)"

lemma dec_digit:
  assumes "d < 10"
  shows "of_char (RustText.hex_digit d) = (word_of_nat (48 + d) :: u8)" "RustText.hex_digit d \<noteq> CHR 0x00"
proof -
  have "of_char (RustText.hex_digit d) = (word_of_nat (of_char (RustText.hex_digit d)) :: u8)"
    by (metis of_nat_of_char)
  then show "of_char (RustText.hex_digit d) = (word_of_nat (48 + d) :: u8)"
    using assms by (simp add: RustText.hex_digit_def)
  show "RustText.hex_digit d \<noteq> CHR 0x00"
  proof
    assume "RustText.hex_digit d = CHR 0x00"
    then have "(of_char (RustText.hex_digit d) :: nat) = 0" by simp
    then show False using assms by (simp add: RustText.hex_digit_def)
  qed
qed

lemma dec_value_snoc: "dec_value (ds @ [d]) = 10 * dec_value ds + (unat d - 48)"
  by (simp add: dec_value_def)

lemma unat_digit: "d < 10 \<Longrightarrow> unat (word_of_nat (48 + d) :: u8) = 48 + d"
  by (simp add: unat_of_nat del: of_nat_add)

lemma dec_value_format:
  "dec_value (str_bytes (format_digits 10 n)) = n \<and> CHR 0x00 \<notin> set (format_digits 10 n)"
proof (induction "10 :: nat" n rule: format_digits.induct)
  case (1 n)
  show ?case
  proof (cases "n < 10")
    case True
    then have "format_digits 10 n = [RustText.hex_digit n]" by (simp add: format_digits.simps [of 10 n])
    then show ?thesis using dec_digit [OF True] unat_digit [OF True]
      by (simp add: str_bytes_def dec_value_def del: of_nat_add)
  next
    case False
    have m: "n mod 10 < 10" by simp
    from False have f: "format_digits 10 n = format_digits 10 (n div 10) @ [RustText.hex_digit (n mod 10)]"
      by (simp add: format_digits.simps [of 10 n])
    have "dec_value (str_bytes (format_digits 10 (n div 10))) = n div 10 \<and> CHR 0x00 \<notin> set (format_digits 10 (n div 10))"
      by (rule 1) (use False in simp)
    then show ?thesis using dec_digit [OF m] unat_digit [OF m] unfolding f
      by (simp add: str_bytes_def dec_value_snoc [unfolded str_bytes_def] del: of_nat_add)
  qed
qed

lemma c_bytes_pad: "0 \<notin> set n \<Longrightarrow> length n \<le> 8 \<Longrightarrow> c_bytes (pad_name n) = n"
  by (cases "8 - length n") (auto simp: c_bytes_def pad_name_def takeWhile_append)

lemma c_bytes_terminated: "0 \<notin> set n \<Longrightarrow> c_bytes (n @ 0 # rest) = n"
  by (induction n) (auto simp: c_bytes_def)

text \<open>Short names as they are, long names by their offset in the string table.\<close>

definition field_ok :: "bytes \<Rightarrow> pe_section \<Rightarrow> bytes \<Rightarrow> bool" where
  "field_ok strtab s nf \<longleftrightarrow>
    (let n = str_bytes (sec_name s) in
     if length n \<le> 8 then nf = pad_name n
     else \<exists>off rest. 4 \<le> off \<and> length (str_bytes (''/'' @ format_dec off)) \<le> 8
       \<and> nf = pad_name (str_bytes (''/'' @ format_dec off)) \<and> drop off strtab = n @ 0 # rest)"

lemma field_ok_append: "field_ok strtab s nf \<Longrightarrow> field_ok (strtab @ ys) s nf"
  by (fastforce simp: field_ok_def Let_def split: if_splits)

lemma pe_name_step_Inr:
  assumes "pe_name_step (strtab, nfs) s = Inr (strtab', nfs')" "4 \<le> length strtab"
  shows "\<exists>ys nf. strtab' = strtab @ ys \<and> nfs' = nfs @ [nf] \<and> field_ok strtab' s nf
    \<and> (8 < length (sec_name s) \<longrightarrow> ys \<noteq> [])"
proof (cases "length (sec_name s) \<le> 8")
  case True
  with assms show ?thesis by (auto simp: pe_name_step_def field_ok_def Let_def str_bytes_def)
next
  case False
  let ?n = "str_bytes (sec_name s)" and ?sb = "str_bytes (''/'' @ format_dec (length strtab))"
  from False assms(1) have f: "strtab' = strtab @ ?n @ [0]" "nfs' = nfs @ [pad_name ?sb]" "length ?sb \<le> 8"
    by (auto simp: pe_name_step_def Let_def str_bytes_def split: if_splits)
  have "drop (length strtab) strtab' = ?n @ 0 # []" by (simp add: f(1))
  then have "field_ok strtab' s (pad_name ?sb)"
    using False assms(2) f(3) unfolding field_ok_def Let_def by (auto simp: str_bytes_def)
  with f show ?thesis by auto
qed

lemma pe_name_fold:
  "try_fold pe_name_step (strtab, nfs) ss = Inr (strtab', nfs') \<Longrightarrow> 4 \<le> length strtab \<Longrightarrow>
    \<exists>ys fs. strtab' = strtab @ ys \<and> nfs' = nfs @ fs \<and> list_all2 (field_ok strtab') ss fs
      \<and> ((\<exists>s\<in>set ss. 8 < length (sec_name s)) \<longrightarrow> ys \<noteq> [])"
proof (induction ss arbitrary: strtab nfs)
  case (Cons s ss)
  from Cons.prems obtain t1 f1 where n: "pe_name_step (strtab, nfs) s = Inr (t1, f1)"
    "try_fold pe_name_step (t1, f1) ss = Inr (strtab', nfs')"
    by (auto simp: rbind_eq_Inr)
  from pe_name_step_Inr [OF n(1) Cons.prems(2)] obtain ys nf where s:
    "t1 = strtab @ ys" "f1 = nfs @ [nf]" "field_ok t1 s nf" "8 < length (sec_name s) \<longrightarrow> ys \<noteq> []" by blast
  have "4 \<le> length t1" using s(1) Cons.prems(2) by simp
  from Cons.IH [OF n(2) this] obtain zs fs where t:
    "strtab' = t1 @ zs" "nfs' = f1 @ fs" "list_all2 (field_ok strtab') ss fs"
    "(\<exists>s\<in>set ss. 8 < length (sec_name s)) \<longrightarrow> zs \<noteq> []" by blast
  show ?case
    using s t field_ok_append [OF s(3), of zs]
    by (intro exI [of _ "ys @ zs"] exI [of _ "nf # fs"]) auto
qed auto

lemma str_bytes_slash: "xs \<noteq> [] \<Longrightarrow> hd (str_bytes xs) = 0x2F \<longleftrightarrow> hd xs = CHR ''/''"
proof -
  assume "xs \<noteq> []"
  moreover have "str_bytes [hd xs] = str_bytes ''/'' \<longleftrightarrow> [hd xs] = ''/''" by (rule str_bytes_inj)
  ultimately show ?thesis by (simp add: str_bytes_def hd_map)
qed

text \<open>A name that a reader does not take for a reference into the string table.\<close>

definition plain_name :: "pe_section \<Rightarrow> bool" where
  "plain_name s \<longleftrightarrow> take 1 (sec_name s) \<noteq> ''/'' \<or> 8 < length (sec_name s)"

lemma section_name_short:
  assumes "field_ok strtab s nf" "0 \<notin> set (str_bytes (sec_name s))" "plain_name s" "length (sec_name s) \<le> 8"
  shows "section_name table nf = str_bytes (sec_name s)"
proof -
  have "c_bytes nf = str_bytes (sec_name s)"
    using assms(1,2,4) by (simp add: field_ok_def Let_def c_bytes_pad str_bytes_def)
  moreover have "hd (str_bytes (sec_name s)) \<noteq> 0x2F" if ne: "sec_name s \<noteq> []"
  proof -
    have "take 1 (sec_name s) = [hd (sec_name s)]" using ne by (cases "sec_name s") auto
    then show ?thesis using assms(3,4) ne by (simp add: plain_name_def str_bytes_slash)
  qed
  ultimately show ?thesis by (auto simp: section_name_def Let_def str_bytes_def)
qed

lemma section_name_field:
  assumes "field_ok strtab s nf" "0 \<notin> set (str_bytes (sec_name s))" "plain_name s"
    "drop 4 table = drop 4 strtab"
  shows "section_name table nf = str_bytes (sec_name s)"
proof (cases "length (sec_name s) \<le> 8")
  case True
  show ?thesis by (rule section_name_short [OF assms(1-3) True])
next
  case False
  then obtain off rest where f: "4 \<le> off" "length (str_bytes (''/'' @ format_dec off)) \<le> 8"
    "nf = pad_name (str_bytes (''/'' @ format_dec off))" "drop off strtab = str_bytes (sec_name s) @ 0 # rest"
    using assms(1) by (auto simp: field_ok_def Let_def str_bytes_def)
  have "0 \<notin> set (str_bytes (''/'' @ format_dec off))"
    using dec_value_format [of off] by (simp add: format_dec_def zero_in_str_bytes)
  then have c: "c_bytes nf = 0x2F # str_bytes (format_dec off)"
    unfolding f(3) using f(2) by (subst c_bytes_pad) (simp_all add: str_bytes_def)
  have "drop off table = drop (off - 4) (drop 4 table)" using f(1) by simp
  also have "\<dots> = drop off strtab" unfolding assms(4) using f(1) by simp
  finally have "drop off table = str_bytes (sec_name s) @ 0 # rest" by (simp only: f(4))
  then show ?thesis
    using c_bytes_terminated [OF assms(2)] dec_value_format [of off]
    by (simp add: section_name_def c format_dec_def)
qed

section \<open>The file as a list of writes\<close>

lemma placed_le: "placed lo xs hi \<Longrightarrow> lo \<le> hi"
  by (induction lo xs hi rule: placed.induct) (auto split: if_splits)

lemma placed_nth:
  assumes "placed lo xs hi" "i < length xs" "xs ! i = ((off, sz), s)"
  shows "if is_zero_shape s then off = 0 \<and> sz = 0
    else lo \<le> unat off \<and> unat off + unat sz \<le> hi \<and> align_of s dvd unat off
      \<and> length (sec_data s) \<le> unat sz \<and> unat sz < length (sec_data s) + 0x1000 \<and> 0x1000 dvd unat sz"
  using assms
proof (induction lo xs hi arbitrary: i rule: placed.induct)
  case (2 lo off' sz' s' xs hi)
  show ?case
  proof (cases i)
    case 0
    with 2 show ?thesis by (auto split: if_splits dest: placed_le)
  next
    case (Suc j)
    then have j: "j < length xs" "xs ! j = ((off, sz), s)" using 2(4,5) by simp_all
    show ?thesis
    proof (cases "is_zero_shape s'")
      case True
      with 2 j show ?thesis by simp
    next
      case False
      with 2(3) have "placed (unat off' + unat sz') xs hi" "lo \<le> unat off'" by simp_all
      from "2.IH"(2) [OF False this(1) j] this(2) show ?thesis by auto
    qed
  qed
qed simp

lemma placed_apart:
  assumes "placed lo xs hi" "i < j" "j < length xs" "xs ! i = ((off, sz), s)" "xs ! j = ((off', sz'), s')"
    "\<not> is_zero_shape s" "\<not> is_zero_shape s'"
  shows "unat off + unat sz \<le> unat off'"
  using assms
proof (induction lo xs hi arbitrary: i j rule: placed.induct)
  case (2 lo o1 z1 s1 xs hi)
  obtain k where k: "j = Suc k" using 2(4) by (cases j) auto
  show ?case
  proof (cases i)
    case 0
    with 2 have "placed (unat off + unat sz) xs hi" by auto
    from placed_nth [OF this, of k off' sz' s'] 2 k show ?thesis by auto
  next
    case (Suc l)
    with 2 k show ?thesis by (cases "is_zero_shape s1") auto
  qed
qed simp

text \<open>What a file is made of.\<close>

record pe_layout =
  pl_strtab :: bytes
  pl_names :: "bytes list"
  pl_header_size :: u32
  pl_cursor :: u32
  pl_raw :: "(u32 \<times> u32) list"
  pl_strtab_offset :: u32
  pl_file_size :: u32
  pl_optional :: optional_header
  pl_headers :: "section_header list"

definition pe_writes :: "u16 \<Rightarrow> pe_section list \<Rightarrow> pe_layout \<Rightarrow> (nat \<times> bytes) list" where
  "pe_writes machine sections L =
    [(0, dos_bytes \<lparr>e_magic = 0x5A4D, e_lfanew = 64\<rparr>), (64, PE_SIGNATURE),
     (68, coff_bytes \<lparr>ch_machine = machine, number_of_sections = word_of_nat (length sections),
        time_date_stamp = 0, pointer_to_symbol_table = pl_strtab_offset L, number_of_symbols = 0,
        size_of_optional_header = 240,
        ch_characteristics = IMAGE_FILE_EXECUTABLE_IMAGE OR IMAGE_FILE_LARGE_ADDRESS_AWARE
          OR IMAGE_FILE_DEBUG_STRIPPED\<rparr>),
     (88, optional_bytes (pl_optional L))]
    @ header_writes 328 (pl_headers L) @ data_writes (zip (pl_raw L) sections)
    @ (if 4 < length (pl_strtab L) then [(unat (pl_strtab_offset L), pl_strtab L)] else [])"

definition layout_ok :: "pe_section list \<Rightarrow> pe_layout \<Rightarrow> bool" where
  "layout_ok sections L \<longleftrightarrow>
     length sections \<le> 0xFFFF
     \<and> (\<forall>s\<in>set sections. 0 \<notin> set (str_bytes (sec_name s)))
     \<and> (\<exists>strtab. list_all2 (field_ok strtab) sections (pl_names L) \<and> drop 4 (pl_strtab L) = drop 4 strtab
          \<and> ((\<exists>s\<in>set sections. 8 < length (sec_name s)) \<longrightarrow> 4 < length (pl_strtab L)))
     \<and> 328 + 40 * length sections \<le> unat (pl_header_size L)
     \<and> length (pl_raw L) = length sections
     \<and> placed (unat (pl_header_size L)) (zip (pl_raw L) sections) (unat (pl_cursor L))
     \<and> list_all2 (\<lambda>(name, raw, s) h. section_header_of name raw s = Inr h)
          (zip (pl_names L) (zip (pl_raw L) sections)) (pl_headers L)
     \<and> (if 4 < length (pl_strtab L)
        then pl_strtab_offset L = pl_cursor L
          \<and> unat (pl_file_size L) = unat (pl_cursor L) + length (pl_strtab L)
        else pl_file_size L = pl_cursor L)"

lemma u32_try_Inr: "u32_try n = Inr w \<longleftrightarrow> unat w = n"
  using unat_u32_less [of w] by (auto simp: u32_try_def unat_of_nat)

lemma no_nul: "try_fold (\<lambda>_ s. guard_err (NulInName (sec_name s)) (0 \<notin> set (str_bytes (sec_name s)))) u ss = Inr v \<Longrightarrow>
    \<forall>s\<in>set ss. 0 \<notin> set (str_bytes (sec_name s))"
  by (induction ss arbitrary: u) (auto simp: rbind_eq_Inr guard_err_eq_Inr)

lemma pe_offset: "align_up_u32 (word_of_nat DOS_SIZE) 8 = Some 64"
  by code_simp

lemma build_pe_layout:
  assumes "build_pe machine sections = Inr buf"
  shows "\<exists>L. layout_ok sections L
    \<and> buf = apply_writes (pe_writes machine sections L) (replicate (unat (pl_file_size L)) 0)"
proof -
  let ?sz = "\<lambda>t. copy_at t 0 (le_bytes 4 (word_of_nat (length t) :: u32))"
  from assms obtain t nfs hdrs_end hdrs_size cursor raw soff fsize code init uninit buf1 off1 where f:
    "length sections \<le> 0xFFFF"
    "try_fold (\<lambda>_ s. guard_err (NulInName (sec_name s)) (0 \<notin> set (str_bytes (sec_name s)))) () sections = Inr ()"
    "try_fold pe_name_step (le_bytes 4 (0 :: u32), []) sections = Inr (t, nfs)"
    "u32_try (unat (64 :: u32) + length PE_SIGNATURE + COFF_SIZE + OPT_SIZE + length sections * SECTION_HDR_SIZE) = Inr hdrs_end"
    "align_up_u32 hdrs_end FILE_ALIGNMENT = Some hdrs_size"
    "try_fold place_step (hdrs_size, []) sections = Inr (cursor, raw)"
    "(if 4 < length (?sz t)
      then rbind (u32_try (length (?sz t))) (\<lambda>strtab_len.
        rbind (ok_or PeOverflow (checked_add cursor strtab_len)) (\<lambda>file_end. Inr (cursor, file_end)))
      else Inr (0, cursor)) = Inr (soff, fsize)"
    "try_fold header_step (apply_writes
       [(0, dos_bytes \<lparr>e_magic = 0x5A4D, e_lfanew = 64\<rparr>), (64, PE_SIGNATURE),
        (68, coff_bytes \<lparr>ch_machine = machine, number_of_sections = word_of_nat (length sections),
          time_date_stamp = 0, pointer_to_symbol_table = soff, number_of_symbols = 0,
          size_of_optional_header = 240,
          ch_characteristics = IMAGE_FILE_EXECUTABLE_IMAGE OR IMAGE_FILE_LARGE_ADDRESS_AWARE
            OR IMAGE_FILE_DEBUG_STRIPPED\<rparr>),
        (88, optional_bytes \<lparr>size_of_code = code, size_of_initialized_data = init,
          size_of_uninitialized_data = uninit, size_of_image = image_size_of hdrs_size sections,
          size_of_headers = hdrs_size\<rparr>)] (replicate (unat fsize) 0), 328)
       (zip nfs (zip raw sections)) = Inr (buf1, off1)"
    "buf = (if 4 < length (?sz t) then copy_at (foldl data_step buf1 (zip raw sections)) (unat soff) (?sz t)
       else foldl data_step buf1 (zip raw sections))"
    unfolding build_pe_def pe_offset ok_or_simps rbind_simps Let_def
    by (auto simp: rbind_eq_Inr ok_or_eq_Inr guard_err_eq_Inr COFF_SIZE_def OPT_SIZE_def)
  from pe_name_fold [OF f(3)] obtain ys where names: "t = le_bytes 4 (0 :: u32) @ ys"
    "list_all2 (field_ok t) sections nfs" "(\<exists>s\<in>set sections. 8 < length (sec_name s)) \<longrightarrow> ys \<noteq> []"
    by auto
  from header_fold [OF f(8)] obtain hs where hs:
    "list_all2 (\<lambda>(name, raw, s) h. section_header_of name raw s = Inr h) (zip nfs (zip raw sections)) hs"
    "buf1 = apply_writes (header_writes 328 hs) (apply_writes
       [(0, dos_bytes \<lparr>e_magic = 0x5A4D, e_lfanew = 64\<rparr>), (64, PE_SIGNATURE),
        (68, coff_bytes \<lparr>ch_machine = machine, number_of_sections = word_of_nat (length sections),
          time_date_stamp = 0, pointer_to_symbol_table = soff, number_of_symbols = 0,
          size_of_optional_header = 240,
          ch_characteristics = IMAGE_FILE_EXECUTABLE_IMAGE OR IMAGE_FILE_LARGE_ADDRESS_AWARE
            OR IMAGE_FILE_DEBUG_STRIPPED\<rparr>),
        (88, optional_bytes \<lparr>size_of_code = code, size_of_initialized_data = init,
          size_of_uninitialized_data = uninit, size_of_image = image_size_of hdrs_size sections,
          size_of_headers = hdrs_size\<rparr>)] (replicate (unat fsize) 0))"
    by blast
  from place_fold [OF f(6)] have raw: "length raw = length sections"
    "placed (unat hdrs_size) (zip raw sections) (unat cursor)" by auto
  have "unat hdrs_end = 328 + 40 * length sections"
    using f(4) by (simp add: u32_try_Inr COFF_SIZE_def OPT_SIZE_def SECTION_HDR_SIZE_def)
  moreover have "FILE_ALIGNMENT = 2 ^ 12" by (simp add: FILE_ALIGNMENT_def)
  ultimately have hsize: "328 + 40 * length sections \<le> unat hdrs_size"
    using align_up_u32_Some [of hdrs_end 12 hdrs_size] f(5) by simp
  have tab: "length (?sz t) = length t" "drop 4 (?sz t) = drop 4 t" by (simp_all add: names(1) copy_at_def)
  let ?L = "\<lparr>pl_strtab = ?sz t, pl_names = nfs, pl_header_size = hdrs_size, pl_cursor = cursor, pl_raw = raw,
    pl_strtab_offset = soff, pl_file_size = fsize,
    pl_optional = \<lparr>size_of_code = code, size_of_initialized_data = init, size_of_uninitialized_data = uninit,
      size_of_image = image_size_of hdrs_size sections, size_of_headers = hdrs_size\<rparr>, pl_headers = hs\<rparr>"
  have size: "if 4 < length (?sz t) then soff = cursor \<and> unat fsize = unat cursor + length (?sz t) else fsize = cursor"
    using f(7) by (auto simp: rbind_eq_Inr ok_or_eq_Inr u32_try_Inr checked_simps split: if_splits)
  have "\<exists>strtab. list_all2 (field_ok strtab) sections nfs \<and> drop 4 (?sz t) = drop 4 strtab
      \<and> ((\<exists>s\<in>set sections. 8 < length (sec_name s)) \<longrightarrow> 4 < length (?sz t))"
    using names tab by (intro exI [of _ t]) auto
  with f(1) no_nul [OF f(2)] raw hsize hs(1) size have "layout_ok sections ?L"
    unfolding layout_ok_def pe_layout.simps by blast
  moreover have "buf = apply_writes (pe_writes machine sections ?L) (replicate (unat (pl_file_size ?L)) 0)"
    unfolding f(9) data_fold hs(2) pe_writes_def pe_layout.simps by simp
  ultimately show ?thesis by blast
qed

lemma length_pad_name: "length n \<le> 8 \<Longrightarrow> length (pad_name n) = 8"
  by (simp add: pad_name_def)

lemma field_ok_length: "field_ok strtab s nf \<Longrightarrow> length nf = 8"
  by (auto simp: field_ok_def Let_def length_pad_name split: if_splits)

lemma section_header_of_Inr:
  assumes "section_header_of name (off, sz) s = Inr h"
  shows "h_name h = name" "h_size_of_raw_data h = sz" "h_pointer_to_raw_data h = off"
    "h_characteristics h = sec_characteristics s"
    "unat (h_virtual_address h) = (if sec_non_loaded s then 0 else unat (sec_vaddr s))"
    "unat (h_virtual_size h) = (if sec_non_loaded s \<or> is_zero_shape s then unat (sec_virtual_size s)
       else max (unat (sec_virtual_size s)) (unat sz))"
  using assms
  by (auto simp: section_header_of_def rbind_eq_Inr u32_try_Inr Let_def max_def word_le_nat_alt split: if_splits)

lemma ordered_writes_mono: "ordered_writes a ws b \<Longrightarrow> b \<le> c \<Longrightarrow> ordered_writes a ws c"
  by (induction a ws b rule: ordered_writes.induct) auto

lemma pe_writes_ordered:
  assumes "layout_ok sections L"
  shows "ordered_writes 0 (pe_writes machine sections L) (unat (pl_file_size L))"
    and "\<forall>h\<in>set (pl_headers L). length (h_name h) = 8" "length (pl_headers L) = length sections"
proof -
  from assms obtain strtab where n: "list_all2 (field_ok strtab) sections (pl_names L)"
    "length (pl_raw L) = length sections"
    "list_all2 (\<lambda>(name, raw, s) h. section_header_of name raw s = Inr h)
       (zip (pl_names L) (zip (pl_raw L) sections)) (pl_headers L)"
    unfolding layout_ok_def by blast
  have len: "length (pl_names L) = length sections" using n(1) by (metis list_all2_lengthD)
  then show hl: "length (pl_headers L) = length sections" using n(2,3) by (auto dest: list_all2_lengthD)
  show h8: "\<forall>h\<in>set (pl_headers L). length (h_name h) = 8"
  proof
    fix h assume "h \<in> set (pl_headers L)"
    then obtain i where i: "i < length sections" "h = pl_headers L ! i" by (metis hl in_set_conv_nth)
    have "section_header_of (pl_names L ! i) (pl_raw L ! i) (sections ! i) = Inr h"
      using list_all2_nthD2 [OF n(3), of i] i n(2) len hl by simp
    moreover have "length (pl_names L ! i) = 8"
      using list_all2_nthD [OF n(1) i(1)] by (rule field_ok_length)
    ultimately show "length (h_name h) = 8"
      by (cases "pl_raw L ! i") (auto dest: section_header_of_Inr(1))
  qed
  have hdr: "ordered_writes 328 (header_writes 328 (pl_headers L)) (unat (pl_header_size L))"
  proof -
    have "328 + 40 * length (pl_headers L) \<le> unat (pl_header_size L)"
      using assms hl by (simp add: layout_ok_def)
    then show ?thesis by (rule ordered_writes_mono [OF header_writes_ordered [OF h8]])
  qed
  have dat: "ordered_writes (unat (pl_header_size L)) (data_writes (zip (pl_raw L) sections)) (unat (pl_cursor L))"
    using assms by (intro placed_writes) (simp add: layout_ok_def)
  have tab: "ordered_writes (unat (pl_cursor L))
      (if 4 < length (pl_strtab L) then [(unat (pl_strtab_offset L), pl_strtab L)] else []) (unat (pl_file_size L))"
    using assms by (auto simp: layout_ok_def)
  show "ordered_writes 0 (pe_writes machine sections L) (unat (pl_file_size L))"
    unfolding pe_writes_def
    by (simp add: ordered_writes_append [OF hdr ordered_writes_append [OF dat tab]])
qed

section \<open>Reading the file back\<close>

definition u32_at :: "bytes \<Rightarrow> nat \<Rightarrow> u32" where
  "u32_at buf p = from_le (byte_slice buf p 4)"

definition u16_at :: "bytes \<Rightarrow> nat \<Rightarrow> u16" where
  "u16_at buf p = from_le (byte_slice buf p 2)"

definition coff_at :: "bytes \<Rightarrow> nat" where
  "coff_at buf = unat (u32_at buf 60) + 4"

definition section_at :: "bytes \<Rightarrow> nat \<Rightarrow> nat" where
  "section_at buf i = coff_at buf + 20 + unat (u16_at buf (coff_at buf + 16)) + 40 * i"

definition string_table :: "bytes \<Rightarrow> bytes" where
  "string_table buf = drop (unat (u32_at buf (coff_at buf + 8))) buf"

text \<open>What the reader finds for a section: its name, address, flags, memory size and raw data, with
  the place of the data in the file. A short name lies in the eight bytes of the header, padded; a
  reader gives a plain name back, and takes one with a leading slash for a reference.\<close>

definition reads_section :: "bytes \<Rightarrow> nat \<Rightarrow> nat \<Rightarrow> pe_section \<Rightarrow> bool" where
  "reads_section buf n i s \<longleftrightarrow>
    (let p = section_at buf i; ptr = unat (u32_at buf (p + 20)); sz = unat (u32_at buf (p + 16)) in
     (plain_name s \<longrightarrow> section_name (string_table buf) (byte_slice buf p 8) = str_bytes (sec_name s))
     \<and> (length (sec_name s) \<le> 8 \<longrightarrow> byte_slice buf p 8 = pad_name (str_bytes (sec_name s)))
     \<and> unat (u32_at buf (p + 12)) = (if sec_non_loaded s then 0 else unat (sec_vaddr s))
     \<and> u32_at buf (p + 36) = sec_characteristics s
     \<and> unat (u32_at buf (p + 8)) = (if sec_non_loaded s \<or> is_zero_shape s then unat (sec_virtual_size s)
          else max (unat (sec_virtual_size s)) sz)
     \<and> (if is_zero_shape s then ptr = 0 \<and> sz = 0
        else byte_slice buf ptr sz = sec_data s @ replicate (sz - length (sec_data s)) 0
          \<and> length (sec_data s) \<le> sz \<and> sz < length (sec_data s) + 0x1000 \<and> 0x1000 dvd sz
          \<and> align_of s dvd ptr \<and> section_at buf n \<le> ptr \<and> ptr + sz \<le> length buf))"

lemma byte_slice_slice: "a + k \<le> n \<Longrightarrow> byte_slice (byte_slice b p n) a k = byte_slice b (p + a) k"
  by (simp add: byte_slice_def drop_take min_def add.commute)

lemma from_le_bytes4 [simp]: "from_le (le_bytes 4 (w :: u32)) = w" "from_le (le_bytes 2 (v :: u16)) = v"
  by (simp_all add: from_le_le_bytes_full)

lemma section_header_fields:
  assumes "byte_slice buf p 40 = section_header_bytes h" "length (h_name h) = 8"
  shows "byte_slice buf p 8 = h_name h" "u32_at buf (p + 8) = h_virtual_size h"
    "u32_at buf (p + 12) = h_virtual_address h" "u32_at buf (p + 16) = h_size_of_raw_data h"
    "u32_at buf (p + 20) = h_pointer_to_raw_data h" "u32_at buf (p + 36) = h_characteristics h"
proof -
  have s: "byte_slice buf (p + a) k = byte_slice (section_header_bytes h) a k" if "a + k \<le> 40" for a k
    using byte_slice_slice [OF that, of buf p] by (simp add: assms(1))
  show "byte_slice buf p 8 = h_name h"
    using s [of 0 8] assms(2) by (simp add: section_header_bytes_def byte_slice_def)
  show "u32_at buf (p + 8) = h_virtual_size h" "u32_at buf (p + 12) = h_virtual_address h"
    "u32_at buf (p + 16) = h_size_of_raw_data h" "u32_at buf (p + 20) = h_pointer_to_raw_data h"
    "u32_at buf (p + 36) = h_characteristics h"
    unfolding u32_at_def
    by (subst s; simp add: section_header_bytes_def byte_slice_def assms(2))+
qed

lemma coff_fields:
  assumes "byte_slice buf p 20 = coff_bytes h"
  shows "u16_at buf p = ch_machine h" "u16_at buf (p + 2) = number_of_sections h"
    "u32_at buf (p + 8) = pointer_to_symbol_table h" "u16_at buf (p + 16) = size_of_optional_header h"
proof -
  have s: "byte_slice buf (p + a) k = byte_slice (coff_bytes h) a k" if "a + k \<le> 20" for a k
    using byte_slice_slice [OF that, of buf p] by (simp add: assms(1))
  show "u16_at buf p = ch_machine h" using s [of 0 2] by (simp add: u16_at_def coff_bytes_def byte_slice_def)
  show "u16_at buf (p + 2) = number_of_sections h" "u32_at buf (p + 8) = pointer_to_symbol_table h"
    "u16_at buf (p + 16) = size_of_optional_header h"
    unfolding u16_at_def u32_at_def by (subst s; simp add: coff_bytes_def byte_slice_def)+
qed

lemma dos_fields:
  assumes "byte_slice buf 0 64 = dos_bytes h"
  shows "u16_at buf 0 = e_magic h" "u32_at buf 60 = e_lfanew h"
proof -
  have s: "byte_slice buf a k = byte_slice (dos_bytes h) a k" if "a + k \<le> 64" for a k
    using byte_slice_slice [OF that, of buf 0] by (simp add: assms(1))
  show "u16_at buf 0 = e_magic h" "u32_at buf 60 = e_lfanew h"
    unfolding u16_at_def u32_at_def by (subst s; simp add: dos_bytes_def byte_slice_def)+
qed

definition raw_range :: "bytes \<Rightarrow> nat \<Rightarrow> nat \<times> nat" where
  "raw_range buf i = (unat (u32_at buf (section_at buf i + 20)),
     unat (u32_at buf (section_at buf i + 20)) + unat (u32_at buf (section_at buf i + 16)))"

lemma data_writes_nth:
  assumes "i < length xs" "xs ! i = ((off, sz), s)" "\<not> is_zero_shape s"
  shows "(unat off, sec_data s) \<in> set (data_writes xs)"
proof -
  have "((off, sz), s) \<in> set xs" using assms(1,2) by (metis nth_mem)
  then show ?thesis using assms(3) by (force simp: data_writes_def)
qed

text \<open>No other write reaches into the padding of a section's raw data.\<close>

lemma placed_padding:
  assumes "placed lo xs hi" "i < length xs" "xs ! i = ((off, sz), s)" "\<not> is_zero_shape s"
    "unat off + length (sec_data s) \<le> k" "k < unat off + unat sz"
  shows "\<forall>(p, ys)\<in>set (data_writes xs). k < p \<or> p + length ys \<le> k"
proof clarify
  fix p ys assume "(p, ys) \<in> set (data_writes xs)" and k: "\<not> p + length ys \<le> k"
  then obtain off' sz' s' where m: "((off', sz'), s') \<in> set xs" "\<not> is_zero_shape s'" "p = unat off'" "ys = sec_data s'"
    by (auto simp: data_writes_def)
  then obtain j where j: "j < length xs" "xs ! j = ((off', sz'), s')" by (metis in_set_conv_nth)
  note le = placed_nth [OF assms(1) j] placed_nth [OF assms(1-3)]
  consider "i < j" | "j < i" | "i = j" by linarith
  then show "k < p"
  proof cases
    case 1
    from placed_apart [OF assms(1) 1 j(1) assms(3) j(2) assms(4) m(2)] assms(6) m(3) show ?thesis by simp
  next
    case 2
    from placed_apart [OF assms(1) 2 assms(2) j(2) assms(3) m(2) assms(4)] le m k assms(5) show ?thesis by simp
  next
    case 3
    with j assms(3) m k assms(5) show ?thesis by simp
  qed
qed

lemma pe_file_headers:
  assumes "layout_ok sections L" "buf = apply_writes (pe_writes machine sections L) (replicate (unat (pl_file_size L)) 0)"
  shows "length buf = unat (pl_file_size L)" "u16_at buf 0 = 0x5A4D" "coff_at buf = 68"
    "byte_slice buf 64 4 = PE_SIGNATURE" "u16_at buf 68 = machine"
    "unat (u16_at buf 70) = length sections" "section_at buf i = 328 + 40 * i"
    "string_table buf = drop (unat (pl_strtab_offset L)) buf"
proof -
  note ord = pe_writes_ordered(1) [OF assms(1), of machine]
  show "length buf = unat (pl_file_size L)" using length_apply_writes [OF ord] by (simp add: assms(2))
  have slice: "byte_slice buf p (length ys) = ys" if "(p, ys) \<in> set (pe_writes machine sections L)" for p ys
    using apply_writes_slice [OF ord _ that] by (simp add: assms(2))
  have dos: "byte_slice buf 0 64 = dos_bytes \<lparr>e_magic = 0x5A4D, e_lfanew = 64\<rparr>"
    using slice [of 0 "dos_bytes \<lparr>e_magic = 0x5A4D, e_lfanew = 64\<rparr>"] by (simp add: pe_writes_def)
  from dos_fields [OF dos] have d: "u16_at buf 0 = 0x5A4D" "u32_at buf 60 = 64" by simp_all
  then show "u16_at buf 0 = 0x5A4D" "coff_at buf = 68" by (simp_all add: coff_at_def)
  show "byte_slice buf 64 4 = PE_SIGNATURE" using slice [of 64 PE_SIGNATURE] by (simp add: pe_writes_def)
  let ?c = "\<lparr>ch_machine = machine, number_of_sections = word_of_nat (length sections),
        time_date_stamp = 0, pointer_to_symbol_table = pl_strtab_offset L, number_of_symbols = 0,
        size_of_optional_header = 240,
        ch_characteristics = IMAGE_FILE_EXECUTABLE_IMAGE OR IMAGE_FILE_LARGE_ADDRESS_AWARE
          OR IMAGE_FILE_DEBUG_STRIPPED\<rparr>"
  have "byte_slice buf 68 20 = coff_bytes ?c"
    using slice [of 68 "coff_bytes ?c"] by (simp add: pe_writes_def)
  note c = coff_fields [OF this, unfolded coff_header.simps, simplified]
  show "u16_at buf 68 = machine" by (rule c(1))
  have "length sections < 2 ^ 16" using assms(1) by (simp add: layout_ok_def)
  then show "unat (u16_at buf 70) = length sections" using c(2) by (simp add: unat_of_nat)
  show "section_at buf i = 328 + 40 * i" using \<open>coff_at buf = 68\<close> c(4) by (simp add: section_at_def)
  show "string_table buf = drop (unat (pl_strtab_offset L)) buf"
    using \<open>coff_at buf = 68\<close> c(3) by (simp add: string_table_def)
qed

lemma pe_section_read:
  assumes L: "layout_ok sections L"
    and buf: "buf = apply_writes (pe_writes machine sections L) (replicate (unat (pl_file_size L)) 0)"
    and i: "i < length sections"
  shows "reads_section buf (length sections) i (sections ! i)"
    and "u32_at buf (section_at buf i + 20) = fst (pl_raw L ! i)"
    and "u32_at buf (section_at buf i + 16) = snd (pl_raw L ! i)"
proof -
  let ?s = "sections ! i"
  obtain off sz where raw: "pl_raw L ! i = (off, sz)" by (cases "pl_raw L ! i")
  note ord = pe_writes_ordered [OF L] and hdr = pe_file_headers [OF L buf]
  have slice: "byte_slice buf p (length ys) = ys" if "(p, ys) \<in> set (pe_writes machine sections L)" for p ys
    using apply_writes_slice [OF ord(1) _ that] by (simp add: buf)
  from L obtain strtab where n: "list_all2 (field_ok strtab) sections (pl_names L)"
    "drop 4 (pl_strtab L) = drop 4 strtab"
    "(\<exists>s\<in>set sections. 8 < length (sec_name s)) \<longrightarrow> 4 < length (pl_strtab L)"
    and lr: "length (pl_raw L) = length sections"
    and hs: "list_all2 (\<lambda>(name, raw, s) h. section_header_of name raw s = Inr h)
       (zip (pl_names L) (zip (pl_raw L) sections)) (pl_headers L)"
    and nul: "\<forall>s\<in>set sections. 0 \<notin> set (str_bytes (sec_name s))"
    unfolding layout_ok_def by blast
  have ln: "length (pl_names L) = length sections" using n(1) by (metis list_all2_lengthD)
  let ?h = "pl_headers L ! i"
  have "section_header_of (pl_names L ! i) (off, sz) ?s = Inr ?h"
    using list_all2_nthD2 [OF hs, of i] i ord(3) ln lr raw by simp
  note h = section_header_of_Inr [OF this]
  have h8: "length (h_name ?h) = 8" using ord(2,3) i by simp
  have "(328 + 40 * i, section_header_bytes ?h) \<in> set (pe_writes machine sections L)"
    using header_writes_nth [of i "pl_headers L" 328] i ord(3) by (simp add: pe_writes_def)
  from slice [OF this] have "byte_slice buf (section_at buf i) 40 = section_header_bytes ?h"
    by (simp add: length_section_header_bytes [OF h8] hdr(7))
  note f = section_header_fields [OF this h8]
  show "u32_at buf (section_at buf i + 20) = fst (pl_raw L ! i)"
    "u32_at buf (section_at buf i + 16) = snd (pl_raw L ! i)" by (simp_all add: f h raw)
  note fo = list_all2_nthD [OF n(1) i]
  have nu: "0 \<notin> set (str_bytes (sec_name ?s))" using nul i by simp
  have field: "byte_slice buf (section_at buf i) 8 = pad_name (str_bytes (sec_name ?s))" if "length (sec_name ?s) \<le> 8"
    using fo that by (simp add: f(1) h(1) field_ok_def Let_def str_bytes_def)
  have name: "section_name (string_table buf) (byte_slice buf (section_at buf i) 8) = str_bytes (sec_name ?s)"
    if plain: "plain_name ?s"
  proof (cases "8 < length (sec_name ?s)")
    case True
    with n(3) i have "4 < length (pl_strtab L)" by auto
    with L have t: "(unat (pl_strtab_offset L), pl_strtab L) \<in> set (pe_writes machine sections L)"
      "unat (pl_strtab_offset L) + length (pl_strtab L) = length buf"
      by (simp_all add: pe_writes_def layout_ok_def hdr(1))
    from slice [OF t(1)] have "string_table buf = pl_strtab L"
      using t(2) by (simp add: hdr(8) byte_slice_def)
    then show ?thesis using section_name_field [OF fo nu plain n(2)] by (simp add: f(1) h(1))
  next
    case False
    then have "length (sec_name ?s) \<le> 8" by simp
    from section_name_short [OF fo nu plain this] show ?thesis by (simp add: f(1) h(1))
  qed
  let ?xs = "zip (pl_raw L) sections"
  have x: "i < length ?xs" "?xs ! i = ((off, sz), ?s)" using i lr raw by simp_all
  from L have pl: "placed (unat (pl_header_size L)) ?xs (unat (pl_cursor L))"
    and hsz: "328 + 40 * length sections \<le> unat (pl_header_size L)"
    and fsz: "unat (pl_cursor L) \<le> unat (pl_file_size L)"
    by (auto simp: layout_ok_def split: if_splits)
  note place = placed_nth [OF pl x]
  have data: "byte_slice buf (unat off) (unat sz) = sec_data ?s @ replicate (unat sz - length (sec_data ?s)) 0"
    if nz: "\<not> is_zero_shape ?s"
  proof -
    let ?d = "sec_data ?s"
    have b: "unat (pl_header_size L) \<le> unat off" "unat off + unat sz \<le> unat (pl_cursor L)" "length ?d \<le> unat sz"
      using place nz by simp_all
    have "(unat off, ?d) \<in> set (pe_writes machine sections L)"
      using data_writes_nth [OF x nz] by (simp add: pe_writes_def)
    note d = slice [OF this]
    have pad: "buf ! k = 0" if k: "unat off + length ?d \<le> k" "k < unat off + unat sz" for k
    proof -
      have "k < p \<or> p + length ys \<le> k" if "(p, ys) \<in> set (pe_writes machine sections L)" for p ys
      proof -
        from that consider "p + length ys \<le> 328" | "(p, ys) \<in> set (header_writes 328 (pl_headers L))"
          | "(p, ys) \<in> set (data_writes ?xs)" | "p = unat (pl_cursor L)"
          using L by (auto simp: pe_writes_def layout_ok_def split: if_splits)
        then show ?thesis
        proof cases
          case 2
          from ordered_writes_range [OF header_writes_ordered [OF ord(2)] this] ord(3) hsz b(1) k(1)
          show ?thesis by simp
        next
          case 3
          then show ?thesis using placed_padding [OF pl x nz k] by auto
        qed (use hsz b k in simp_all)
      qed
      then have "\<forall>(p, ys)\<in>set (pe_writes machine sections L). k < p \<or> p + length ys \<le> k" by auto
      from apply_writes_gap [OF ord(1) _ _ this] b(2) k(2) fsz show ?thesis by (simp add: buf)
    qed
    have len: "unat off + unat sz \<le> length buf" using b(2) fsz hdr(1) by simp
    show ?thesis
    proof (rule nth_equalityI)
      show "length (byte_slice buf (unat off) (unat sz)) = length (?d @ replicate (unat sz - length ?d) 0)"
        using len b(3) by (simp add: byte_slice_def)
      fix k assume "k < length (byte_slice buf (unat off) (unat sz))"
      then have k: "k < unat sz" by (simp add: byte_slice_def)
      show "byte_slice buf (unat off) (unat sz) ! k = (?d @ replicate (unat sz - length ?d) 0) ! k"
      proof (cases "k < length ?d")
        case True
        then have "byte_slice buf (unat off) (length ?d) ! k = ?d ! k" by (simp only: d)
        with True k len show ?thesis by (simp add: byte_slice_def nth_append)
      next
        case False
        with k len pad [of "unat off + k"] show ?thesis by (simp add: byte_slice_def nth_append)
      qed
    qed
  qed
  show "reads_section buf (length sections) i ?s"
    unfolding reads_section_def Let_def f(2-6) h(2-6)
    using name field place data hsz fsz by (auto simp: hdr(1,7) split: if_splits)
qed

text \<open>
  C33. A file written by \<open>build_pe\<close> reads back: it starts with the DOS and PE signatures, names the
  machine and the number of sections, and the entry of each section in the section table gives its
  address, sizes, characteristics, and raw data, zero-padded to the file alignment, inside the file
  and behind the headers; the raw data of different sections do not overlap and come in order. The
  name reads back too, through the string table when it is longer than eight bytes, unless it is a
  short name that starts with a slash (\<open>plain_name\<close>), which readers take for a reference into the
  string table; a short name is in any case the padded name field of its entry.
\<close>

theorem pe_file_reads_back:
  assumes "build_pe machine sections = Inr buf"
  shows "u16_at buf 0 = 0x5A4D \<and> byte_slice buf 64 4 = PE_SIGNATURE \<and> coff_at buf = 68
    \<and> u16_at buf 68 = machine \<and> unat (u16_at buf 70) = length sections
    \<and> (\<forall>i<length sections. reads_section buf (length sections) i (sections ! i))
    \<and> (\<forall>j<length sections. \<forall>i<j. \<not> is_zero_shape (sections ! i) \<longrightarrow> \<not> is_zero_shape (sections ! j)
        \<longrightarrow> snd (raw_range buf i) \<le> fst (raw_range buf j))"
proof -
  from build_pe_layout [OF assms] obtain L where L: "layout_ok sections L"
    and buf: "buf = apply_writes (pe_writes machine sections L) (replicate (unat (pl_file_size L)) 0)" by blast
  note read = pe_section_read [OF L buf]
  from L have pl: "placed (unat (pl_header_size L)) (zip (pl_raw L) sections) (unat (pl_cursor L))"
    and lr: "length (pl_raw L) = length sections" by (simp_all add: layout_ok_def)
  have "snd (raw_range buf i) \<le> fst (raw_range buf j)"
    if ij: "j < length sections" "i < j" and nz: "\<not> is_zero_shape (sections ! i)" "\<not> is_zero_shape (sections ! j)" for i j
  proof -
    have i: "i < length sections" using ij by simp
    note r = read(2,3) [OF i] read(2,3) [OF ij(1)]
    have "unat (fst (pl_raw L ! i)) + unat (snd (pl_raw L ! i)) \<le> unat (fst (pl_raw L ! j))"
      using placed_apart [OF pl ij(2), of "fst (pl_raw L ! i)" "snd (pl_raw L ! i)" "sections ! i"
          "fst (pl_raw L ! j)" "snd (pl_raw L ! j)" "sections ! j"] i ij lr nz by simp
    then show ?thesis by (simp add: raw_range_def r)
  qed
  moreover have "\<forall>i<length sections. reads_section buf (length sections) i (sections ! i)"
    using read(1) by simp
  ultimately show ?thesis using pe_file_headers(2-6) [OF L buf] by auto
qed

definition two_sections :: "pe_section list" where
  "two_sections =
    [\<lparr>sec_name = ''.linux'', sec_vaddr = 0x1000, sec_virtual_size = 3, sec_data = [1, 2, 3],
       sec_characteristics = 0x40000040, sec_non_loaded = False\<rparr>,
     \<lparr>sec_name = ''.platform'', sec_vaddr = 0, sec_virtual_size = 2, sec_data = [7, 8],
       sec_characteristics = 0x42000040, sec_non_loaded = True\<rparr>]"

lemma two_sections_names:
  "try_fold pe_name_step (le_bytes 4 (0 :: u32), []) two_sections
     = Inr ([0, 0, 0, 0] @ str_bytes ''.platform'' @ [0], map (pad_name \<circ> str_bytes) [''.linux'', ''/4''])"
  "try_fold (\<lambda>_ s. guard_err (NulInName (sec_name s)) (0 \<notin> set (str_bytes (sec_name s)))) () two_sections = Inr ()"
  by code_simp+

lemmas pe_places = place_step_def size_step_def add_size_def aligned_data_size_def is_zero_shape_def align_up_u32_def
  alignment_for_def is_large_payload_def FILE_ALIGNMENT_def SECTION_ALIGNMENT_def LARGE_THRESHOLD_def u32_try_def
  IMAGE_SCN_CNT_CODE_def IMAGE_SCN_CNT_INITIALIZED_DATA_def IMAGE_SCN_CNT_UNINITIALIZED_DATA_def

lemma two_sections_places:
  "try_fold place_step (0x1000, []) two_sections = Inr (0x3000, [(0x1000, 0x1000), (0x2000, 0x1000)])"
  "try_fold size_step (0, 0, 0) two_sections = Inr (0, 0x2000, 0)"
  by (simp_all add: two_sections_def pe_places checked_add_def)

lemma header_fold_returns:
  assumes "\<forall>(name, raw, s)\<in>set xs. \<exists>h. section_header_of name raw s = Inr h"
  shows "\<exists>b. try_fold header_step st xs = Inr b"
  using assms
proof (induction xs arbitrary: st)
  case (Cons x xs)
  obtain buf off name raw s where [simp]: "st = (buf, off)" "x = (name, raw, s)" by (cases st; cases x)
  from Cons.prems obtain h where "section_header_of name raw s = Inr h" by auto
  with Cons show ?case by (simp add: header_step_def)
qed simp

lemma two_sections_build: "\<exists>buf. build_pe 0x8664 two_sections = Inr buf"
proof -
  have "\<exists>h. section_header_of name raw s = Inr h" if "s \<in> set two_sections" for name raw s
    using that by (cases raw) (auto simp: two_sections_def section_header_of_def u32_try_def)
  then have headers: "\<exists>b. try_fold header_step st (zip nfs (zip raw two_sections)) = Inr b" for st nfs raw
    by (intro header_fold_returns) (auto dest!: set_zip_rightD)
  have a: "align_up_u32 (word_of_nat DOS_SIZE) 8 = Some 64" "length two_sections = 2"
    "u32_try (68 + COFF_SIZE + OPT_SIZE + 2 * SECTION_HDR_SIZE) = Inr 408"
    "align_up_u32 408 FILE_ALIGNMENT = Some 0x1000" "checked_add 0x3000 (14 :: u32) = Some 0x300E"
    "u32_try (Suc (Suc (Suc (Suc (Suc (Suc (Suc (Suc (Suc (Suc (Suc (Suc (Suc (Suc 0)))))))))))))) = Inr 14"
    by (simp_all add: align_up_u32_def checked_add_def DOS_SIZE_def u32_try_def COFF_SIZE_def OPT_SIZE_def
       SECTION_HDR_SIZE_def FILE_ALIGNMENT_def two_sections_def)
  from headers [of _ "map (pad_name \<circ> str_bytes) [''.linux'', ''/4'']" "[(0x1000, 0x1000), (0x2000, 0x1000)]"]
  have h: "\<exists>b. rbind (try_fold header_step st (zip [pad_name (str_bytes ''.linux''), pad_name (str_bytes ''/4'')]
      (zip [(0x1000, 0x1000), (0x2000, 0x1000)] two_sections))) (\<lambda>(buf, off). Inr (f buf)) = Inr b"
    for st and f :: "bytes \<Rightarrow> bytes" by (fastforce simp: rbind_eq_Inr)
  show ?thesis
    unfolding build_pe_def two_sections_names a(1,2) Let_def
    by (simp add: two_sections_names two_sections_places a h del: zip_Cons_Cons)
qed

lemma pe_file_reads_back_witness:
  "\<exists>buf. build_pe 0x8664 two_sections = Inr buf \<and> u16_at buf 68 = 0x8664
    \<and> section_name (string_table buf) (byte_slice buf (section_at buf 1) 8) = str_bytes ''.platform''
    \<and> take 3 (byte_slice buf (fst (raw_range buf 0)) (snd (raw_range buf 0) - fst (raw_range buf 0))) = [1, 2, 3]"
proof -
  obtain buf where b: "build_pe 0x8664 two_sections = Inr buf" using two_sections_build by blast
  note r = pe_file_reads_back [OF b]
  have n: "length two_sections = 2" by (simp add: two_sections_def)
  from r have "reads_section buf 2 0 (two_sections ! 0)" "reads_section buf 2 1 (two_sections ! 1)" "u16_at buf 68 = 0x8664"
    unfolding n by simp_all
  then show ?thesis using b
    by (auto simp: reads_section_def Let_def two_sections_def is_zero_shape_def raw_range_def plain_name_def)
qed

end
