(* ===== verification/TatuImage.thy ===== *)
theory TatuImage
  imports Planner Pe
begin

text \<open>
  The embedded boot stub as \<open>arma\<close> reads it (\<open>src/tatu.rs\<close>): its allocated sections in
  the order of their addresses, its entry, and the ranges it occupies. The ELF parser is the
  parameter \<open>goblin\<close>; \<open>parse_tatu_spec\<close> says which sections are kept.
\<close>

record tatu_section =
  ts_name :: string
  ts_vaddr :: u64
  ts_data :: bytes
  ts_virtual_size :: u64
  ts_is_nobits :: bool
  ts_is_bootinfo :: bool
  ts_is_dtb :: bool

record tatu_image =
  tg_sections :: "tatu_section list"
  tg_entry :: u64

datatype tatu_error =
    TatuParse
  | WrongArch u16 u16
  | TruncatedSection string
  | MissingSection string

definition tatu_section_named :: "tatu_image \<Rightarrow> string \<Rightarrow> tatu_section option" where
  "tatu_section_named img name = find (\<lambda>s. ts_name s = name) (tg_sections img)"

definition tatu_reserved :: "tatu_image \<Rightarrow> gpa_range list" where
  "tatu_reserved img = map (\<lambda>s. mk_range (ts_vaddr s) (ts_vaddr s + ts_virtual_size s)) (tg_sections img)"

definition ELF_MACHINE_X86_64 :: u16 where "ELF_MACHINE_X86_64 = 0x3E"
definition ELF_MACHINE_AARCH64 :: u16 where "ELF_MACHINE_AARCH64 = 0xB7"
definition BOOTINFO_SECTION :: string where "BOOTINFO_SECTION = ''.tatu.bootinfo''"
definition DTB_SECTION :: string where "DTB_SECTION = ''.tatu.dtb''"

definition expected_machine :: "arch \<Rightarrow> u16" where
  "expected_machine a = (case a of X86_64 \<Rightarrow> ELF_MACHINE_X86_64 | Aarch64 \<Rightarrow> ELF_MACHINE_AARCH64)"

text \<open>The sections that are kept: allocated, not empty, PROGBITS or NOBITS.\<close>

definition kept_section :: "elf_section \<Rightarrow> bool" where
  "kept_section sh \<longleftrightarrow> sh_flags sh AND SHF_ALLOC \<noteq> 0 \<and> sh_size sh \<noteq> 0
     \<and> (sh_type sh = SHT_NOBITS \<or> sh_type sh = SHT_PROGBITS)"

definition tatu_name :: "elf_file \<Rightarrow> elf_section \<Rightarrow> string" where
  "tatu_name elf sh = (case shdr_strtab elf (sh_name sh) of Some n \<Rightarrow> n | None \<Rightarrow> ''<unnamed>'')"

definition tatu_data :: "elf_file \<Rightarrow> bytes \<Rightarrow> elf_section \<Rightarrow> tatu_error + bytes" where
  "tatu_data elf bytes sh =
    (if sh_type sh = SHT_PROGBITS then
       let start = unat (sh_offset sh) in
       rbind (ok_or (TruncatedSection (tatu_name elf sh)) (usize_add start (unat (sh_size sh)))) (\<lambda>e.
       if length bytes < e then Inl (TruncatedSection (tatu_name elf sh))
       else Inr (byte_slice bytes start (e - start)))
     else Inr [])"

definition tatu_step ::
  "elf_file \<Rightarrow> bytes \<Rightarrow> tatu_section list \<times> bool \<Rightarrow> elf_section \<Rightarrow> tatu_error + tatu_section list \<times> bool" where
  "tatu_step elf bytes st sh = (case st of (sections, saw_bootinfo) \<Rightarrow>
    if \<not> kept_section sh then Inr (sections, saw_bootinfo)
    else
    let name = tatu_name elf sh in
    rbind (tatu_data elf bytes sh) (\<lambda>data.
    let is_bootinfo = (name = BOOTINFO_SECTION) in
    Inr (sections @ [\<lparr>ts_name = name, ts_vaddr = sh_addr sh, ts_data = data, ts_virtual_size = sh_size sh,
           ts_is_nobits = (sh_type sh = SHT_NOBITS), ts_is_bootinfo = is_bootinfo,
           ts_is_dtb = (name = DTB_SECTION)\<rparr>],
         saw_bootinfo \<or> is_bootinfo)))"

definition parse_tatu :: "goblin \<Rightarrow> bytes \<Rightarrow> arch \<Rightarrow> tatu_error + tatu_image" where
  "parse_tatu G bytes a =
    rbind (ok_or TatuParse (parse_elf G bytes)) (\<lambda>elf.
    if e_machine elf \<noteq> expected_machine a then Inl (WrongArch (e_machine elf) (expected_machine a))
    else
    rbind (try_fold (tatu_step elf bytes) ([], False) (section_headers elf)) (\<lambda>(sections, saw_bootinfo).
    if \<not> saw_bootinfo then Inl (MissingSection BOOTINFO_SECTION)
    else Inr \<lparr>tg_sections = sort_key ts_vaddr sections, tg_entry = e_entry elf\<rparr>))"

section \<open>What is kept\<close>

definition in_bytes :: "bytes \<Rightarrow> elf_section \<Rightarrow> bool" where
  "in_bytes bytes sh \<longleftrightarrow> sh_type sh = SHT_PROGBITS \<longrightarrow> unat (sh_offset sh) + unat (sh_size sh) \<le> length bytes"

definition section_image :: "elf_file \<Rightarrow> bytes \<Rightarrow> elf_section \<Rightarrow> tatu_section" where
  "section_image elf bytes sh =
    \<lparr>ts_name = tatu_name elf sh, ts_vaddr = sh_addr sh,
     ts_data = (if sh_type sh = SHT_PROGBITS then byte_slice bytes (unat (sh_offset sh)) (unat (sh_size sh)) else []),
     ts_virtual_size = sh_size sh, ts_is_nobits = (sh_type sh = SHT_NOBITS),
     ts_is_bootinfo = (tatu_name elf sh = BOOTINFO_SECTION), ts_is_dtb = (tatu_name elf sh = DTB_SECTION)\<rparr>"

lemma tatu_data_Inr:
  assumes "tatu_data elf bytes sh = Inr d"
  shows "in_bytes bytes sh \<and> d = ts_data (section_image elf bytes sh)"
  using assms
  by (auto simp: tatu_data_def in_bytes_def section_image_def rbind_eq_Inr ok_or_eq_Inr usize_add_eq_Some Let_def split: if_splits)

lemma tatu_step_Inr:
  "tatu_step elf bytes (ss, b) sh = Inr st \<Longrightarrow>
    st = (if kept_section sh then (ss @ [section_image elf bytes sh], b \<or> tatu_name elf sh = BOOTINFO_SECTION) else (ss, b))
    \<and> (kept_section sh \<longrightarrow> in_bytes bytes sh)"
  by (auto simp: tatu_step_def rbind_eq_Inr Let_def section_image_def dest!: tatu_data_Inr split: if_splits)

lemma tatu_fold:
  "try_fold (tatu_step elf bytes) (ss, b) shs = Inr (ss', b') \<Longrightarrow>
    ss' = ss @ map (section_image elf bytes) (filter kept_section shs)
    \<and> (\<forall>sh\<in>set shs. kept_section sh \<longrightarrow> in_bytes bytes sh)
    \<and> (b' \<longleftrightarrow> b \<or> (\<exists>sh\<in>set shs. kept_section sh \<and> tatu_name elf sh = BOOTINFO_SECTION))"
proof (induction shs arbitrary: ss b)
  case (Cons sh shs)
  from Cons.prems obtain st where st: "tatu_step elf bytes (ss, b) sh = Inr st" "try_fold (tatu_step elf bytes) st shs = Inr (ss', b')"
    by (auto simp: rbind_eq_Inr)
  note s = tatu_step_Inr [OF st(1)]
  show ?case
  proof (cases "kept_section sh")
    case True
    with s st(2) show ?thesis using Cons.IH by fastforce
  next
    case False
    with s st(2) show ?thesis using Cons.IH by fastforce
  qed
qed simp

lemma parse_tatu_spec:
  assumes "parse_tatu G bytes a = Inr img"
  obtains elf where "parse_elf G bytes = Some elf" "e_machine elf = expected_machine a"
    "tg_sections img = sort_key ts_vaddr (map (section_image elf bytes) (filter kept_section (section_headers elf)))"
    "tg_entry img = e_entry elf" "tatu_section_named img BOOTINFO_SECTION \<noteq> None"
    "\<forall>sh\<in>set (section_headers elf). kept_section sh \<longrightarrow> in_bytes bytes sh"
proof -
  from assms obtain elf ss b where e: "parse_elf G bytes = Some elf" "e_machine elf = expected_machine a"
    and f: "try_fold (tatu_step elf bytes) ([], False) (section_headers elf) = Inr (ss, b)" "b"
    and img: "img = \<lparr>tg_sections = sort_key ts_vaddr ss, tg_entry = e_entry elf\<rparr>"
    by (auto simp: parse_tatu_def rbind_eq_Inr ok_or_eq_Inr split: if_splits)
  note s = tatu_fold [OF f(1)]
  from s f(2) obtain sh where sh: "sh \<in> set (section_headers elf)" "kept_section sh" "tatu_name elf sh = BOOTINFO_SECTION"
    by auto
  then have "section_image elf bytes sh \<in> set (tg_sections img)" using s by (simp add: img)
  moreover have "ts_name (section_image elf bytes sh) = BOOTINFO_SECTION" using sh(3) by (simp add: section_image_def)
  ultimately have "tatu_section_named img BOOTINFO_SECTION \<noteq> None"
    unfolding tatu_section_named_def find_None_iff by blast
  then show ?thesis using that [OF e] s by (simp add: img)
qed

text \<open>The invariant of a parsed image.\<close>

definition tatu_ok :: "tatu_image \<Rightarrow> bool" where
  "tatu_ok img \<longleftrightarrow> sorted (map ts_vaddr (tg_sections img)) \<and>
    (\<forall>s\<in>set (tg_sections img). ts_virtual_size s \<noteq> 0
       \<and> length (ts_data s) = (if ts_is_nobits s then 0 else unat (ts_virtual_size s))
       \<and> (ts_is_bootinfo s \<longleftrightarrow> ts_name s = BOOTINFO_SECTION) \<and> (ts_is_dtb s \<longleftrightarrow> ts_name s = DTB_SECTION))"

lemma parse_tatu_ok:
  assumes "parse_tatu G bytes a = Inr img"
  shows "tatu_ok img"
proof (rule parse_tatu_spec [OF assms])
  fix elf
  assume e: "tg_sections img = sort_key ts_vaddr (map (section_image elf bytes) (filter kept_section (section_headers elf)))"
    "\<forall>sh\<in>set (section_headers elf). kept_section sh \<longrightarrow> in_bytes bytes sh"
  have ne: "SHT_PROGBITS \<noteq> SHT_NOBITS" by (simp add: SHT_PROGBITS_def SHT_NOBITS_def)
  have "ts_virtual_size s \<noteq> 0 \<and> length (ts_data s) = (if ts_is_nobits s then 0 else unat (ts_virtual_size s))
     \<and> (ts_is_bootinfo s \<longleftrightarrow> ts_name s = BOOTINFO_SECTION) \<and> (ts_is_dtb s \<longleftrightarrow> ts_name s = DTB_SECTION)"
    if "s \<in> set (tg_sections img)" for s
  proof -
    from that e obtain sh where sh: "sh \<in> set (section_headers elf)" "kept_section sh" "in_bytes bytes sh"
      "s = section_image elf bytes sh" by auto
    then show ?thesis using ne
      by (auto simp: section_image_def kept_section_def in_bytes_def byte_slice_def)
  qed
  moreover have "sorted (map ts_vaddr (tg_sections img))" by (simp add: e)
  ultimately show ?thesis by (simp add: tatu_ok_def)
qed

end
