(* ===== verification/Bootmem.thy ===== *)
theory Bootmem
  imports Prelude
begin

text \<open>
  The fixed guest memory of \<open>tatu\<close> on x86_64: the layout of the sections below 1 MiB
  (src/deps/tatu/src/sections.rs), the SMBIOS image in it, and the boot page tables and GDT
  (src/deps/tatu/src/bootmem.rs).

  The \<open>const fn\<close>s that fill the images are functions on byte lists; their \<open>while\<close> loops are
  folds over the index ranges. \<open>page_walk\<close> is the architecture's translation of an address
  through the tables, from the entry formats of the processor manual; it is the reference that
  the tables are checked against.
\<close>

section \<open>Sections (sections.rs)\<close>

definition GUARD_SIZE :: nat where "GUARD_SIZE = 4 * 1024"
definition BOOTINFO_SIZE :: nat where "BOOTINFO_SIZE = 4096"
definition DTB_SIZE :: nat where "DTB_SIZE = 8 * 1024"
definition DTBO_SIZE :: nat where "DTBO_SIZE = 64 * 1024"
definition DTBM_SIZE :: nat where "DTBM_SIZE = 72 * 1024"
definition SCANPAD_SIZE :: nat where "SCANPAD_SIZE = 4 * 1024"
definition DMI_SIZE :: nat where "DMI_SIZE = 4 * 1024"
definition ROMPAD_SIZE :: nat where "ROMPAD_SIZE = 60 * 1024"
definition ACPI_SIZE :: nat where "ACPI_SIZE = 320 * 1024"
definition RESET_PAD_SIZE :: nat where "RESET_PAD_SIZE = 0xFF0"
definition CONV_TOP :: nat where "CONV_TOP = 640 * 1024"
definition PGT_SIZE :: nat where "PGT_SIZE = 6 * 4096"
definition GDT_SIZE :: nat where "GDT_SIZE = 4096"

definition STACK_SIZE :: nat where
  "STACK_SIZE = CONV_TOP - (GUARD_SIZE + BOOTINFO_SIZE + DTB_SIZE + DTBO_SIZE + DTBM_SIZE + PGT_SIZE +
    GDT_SIZE + SCANPAD_SIZE)"

definition PGT_BASE :: u64 where
  "PGT_BASE = word_of_nat (GUARD_SIZE + STACK_SIZE + BOOTINFO_SIZE + DTB_SIZE + DTBO_SIZE + DTBM_SIZE)"

text \<open>The sections in the order of the linker script, up to the code.\<close>

definition low_sections :: "(string \<times> nat) list" where
  "low_sections =
    [(''guard'', GUARD_SIZE), (''stack'', STACK_SIZE), (''bootinfo'', BOOTINFO_SIZE), (''dtb'', DTB_SIZE),
     (''dtbo'', DTBO_SIZE), (''dtbm'', DTBM_SIZE), (''pgt'', PGT_SIZE), (''gdt'', GDT_SIZE),
     (''scanpad'', SCANPAD_SIZE), (''acpi'', ACPI_SIZE), (''dmi'', DMI_SIZE), (''rompad'', ROMPAD_SIZE)]"

fun section_gpa :: "(string \<times> nat) list \<Rightarrow> nat \<Rightarrow> string \<Rightarrow> nat option" where
  "section_gpa [] base name = None"
| "section_gpa ((n, sz) # ss) base name = (if n = name then Some base else section_gpa ss (base + sz) name)"

section \<open>SMBIOS image\<close>

definition IMAGE_SIZE :: nat where "IMAGE_SIZE = 4 * 1024"
definition ENTRY_OFFSET :: nat where "ENTRY_OFFSET = 0"
definition TABLE_OFFSET :: nat where "TABLE_OFFSET = 0x20"
definition TABLE_GPA :: u32 where "TABLE_GPA = 0xF0000 + word_of_nat TABLE_OFFSET"
definition TABLE_LEN :: u16 where "TABLE_LEN = 47"
definition STRUCT_COUNT :: u16 where "STRUCT_COUNT = 2"
definition MAX_STRUCT_SIZE :: u16 where "MAX_STRUCT_SIZE = 41"

definition write_u16 :: "bytes \<Rightarrow> nat \<Rightarrow> u16 \<Rightarrow> bytes" where
  "write_u16 out p v = out[p := ucast v, p + 1 := ucast (drop_bit 8 v)]"

definition write_u32 :: "bytes \<Rightarrow> nat \<Rightarrow> u32 \<Rightarrow> bytes" where
  "write_u32 out p v =
    out[p := ucast v, p + 1 := ucast (drop_bit 8 v), p + 2 := ucast (drop_bit 16 v),
        p + 3 := ucast (drop_bit 24 v)]"

fun write_str_loop :: "bytes \<Rightarrow> nat \<Rightarrow> bytes \<Rightarrow> bytes \<times> nat" where
  "write_str_loop out p [] = (out, p)"
| "write_str_loop out p (c # cs) = write_str_loop (out[p := c]) (p + 1) cs"

definition write_str :: "bytes \<Rightarrow> nat \<Rightarrow> string \<Rightarrow> bytes \<times> nat" where
  "write_str out p s = (case write_str_loop out p (map of_char s) of (out, p) \<Rightarrow> (out[p := 0], p + 1))"

definition smbios_checksum :: "bytes \<Rightarrow> nat \<Rightarrow> nat \<Rightarrow> u8" where
  "smbios_checksum out start len = 0 - fold (\<lambda>i sum. sum + out ! (start + i)) [0..<len] 0"

definition write_entry :: "bytes \<Rightarrow> bytes" where
  "write_entry out =
    (let out = out[0x00 := of_char CHR ''_'', 0x01 := of_char CHR ''S'', 0x02 := of_char CHR ''M'',
           0x03 := of_char CHR ''_'', 0x05 := 0x1f, 0x06 := 2, 0x07 := 8];
         out = write_u16 out 0x08 MAX_STRUCT_SIZE;
         out = out[0x0a := 0, 0x10 := of_char CHR ''_'', 0x11 := of_char CHR ''D'',
           0x12 := of_char CHR ''M'', 0x13 := of_char CHR ''I'', 0x14 := of_char CHR ''_''];
         out = write_u16 out 0x16 TABLE_LEN;
         out = write_u32 out 0x18 TABLE_GPA;
         out = write_u16 out 0x1c STRUCT_COUNT
     in out[0x1e := 0x28])"

definition write_table :: "bytes \<Rightarrow> bytes" where
  "write_table out =
    (let p = TABLE_OFFSET;
         out = out[p := 0, p + 1 := 0x12];
         out = write_u16 out (p + 2) 0;
         out = out[p + 4 := 1, p + 5 := 2];
         out = write_u16 out (p + 6) 0;
         out = out[p + 8 := 3, p + 9 := 0];
         p = p + 0x12;
         (out, p) = write_str out p ''TATU'';
         (out, p) = write_str out p ''Pichi'';
         (out, p) = write_str out p ''01/01/2020'';
         out = out[p := 0];
         p = p + 1;
         out = out[p := 127, p + 1 := 4];
         out = write_u16 out (p + 2) 0x7f00
     in out[p + 4 := 0, p + 5 := 0])"

text \<open>The image, for any size of the zero page it is written into.\<close>

definition smbios_image_of :: "nat \<Rightarrow> bytes" where
  "smbios_image_of n =
    (let out = write_table (write_entry (replicate n 0));
         out = out[ENTRY_OFFSET + 0x04 := smbios_checksum out ENTRY_OFFSET 0x1f]
     in out[ENTRY_OFFSET + 0x15 := smbios_checksum out (ENTRY_OFFSET + 0x10) 0x0f])"

definition smbios_image :: bytes where
  "smbios_image = smbios_image_of IMAGE_SIZE"

section \<open>Page tables and GDT (bootmem.rs)\<close>

definition PAGE_PRESENT :: u64 where "PAGE_PRESENT = 1"
definition PAGE_WRITABLE :: u64 where "PAGE_WRITABLE = 2"
definition PAGE_SIZE_2MB :: u64 where "PAGE_SIZE_2MB = 0x80"
definition NUM_GB :: nat where "NUM_GB = 4"

definition write_u64 :: "bytes \<Rightarrow> nat \<Rightarrow> u64 \<Rightarrow> bytes" where
  "write_u64 out off val = copy_at out off (le_bytes 8 val)"

definition identity_map_4gib :: bytes where
  "identity_map_4gib =
    (let pdpt_off = 4096;
         pd_base_off = pdpt_off + 4096;
         out = write_u64 (replicate PGT_SIZE 0) 0
           ((PGT_BASE + word_of_nat pdpt_off) OR PAGE_PRESENT OR PAGE_WRITABLE);
         out = fold (\<lambda>i out.
             let pd_gpa = PGT_BASE + word_of_nat pd_base_off + word_of_nat i * 4096 in
             write_u64 out (pdpt_off + i * 8) (pd_gpa OR PAGE_PRESENT OR PAGE_WRITABLE))
           [0..<NUM_GB] out
     in fold (\<lambda>i out.
          let pd_off = pd_base_off + i * 4096 in
          fold (\<lambda>j out.
             let phys = word_of_nat i * 0x40000000 + word_of_nat j * 0x200000 in
             write_u64 out (pd_off + j * 8) (phys OR PAGE_PRESENT OR PAGE_WRITABLE OR PAGE_SIZE_2MB))
           [0..<512] out)
        [0..<NUM_GB] out)"

definition gdt_page :: bytes where
  "gdt_page =
    (replicate GDT_SIZE 0)[8 := 0xFF, 9 := 0xFF, 13 := 0x9B, 14 := 0xAF,
      16 := 0xFF, 17 := 0xFF, 21 := 0x93, 22 := 0xCF]"

section \<open>The layout\<close>

text \<open>
  Packed in linker order from address 0, every section below the code starts on a page; the
  page tables start at the address their pointers assume, the stack ends where the boot
  information starts, the ACPI workspace starts at 640 KiB, the SMBIOS page at 960 KiB, and the
  sections end at 1 MiB; the buffer of the merged tree has the size of base and overlay together.
\<close>

lemma low_memory_layout:
  "section_gpa low_sections 0 ''stack'' = Some 0x1000 \<and>
   section_gpa low_sections 0 ''bootinfo'' = Some (0x1000 + STACK_SIZE) \<and>
   section_gpa low_sections 0 ''pgt'' = Some (unat PGT_BASE) \<and> PGT_BASE = 0x98000 \<and>
   section_gpa low_sections 0 ''acpi'' = Some 0xA0000 \<and>
   section_gpa low_sections 0 ''dmi'' = Some 0xF0000 \<and>
   sum_list (map snd low_sections) = 0x100000 \<and>
   list_all (\<lambda>(_, sz). 4096 dvd sz) low_sections \<and> STACK_SIZE = 456 * 1024 \<and>
   DTBM_SIZE = DTB_SIZE + DTBO_SIZE \<and> 0xFFFFF000 + RESET_PAD_SIZE = 0xFFFFFFF0"
  by (simp add: low_sections_def GUARD_SIZE_def STACK_SIZE_def BOOTINFO_SIZE_def DTB_SIZE_def
      DTBO_SIZE_def DTBM_SIZE_def PGT_SIZE_def GDT_SIZE_def SCANPAD_SIZE_def ACPI_SIZE_def DMI_SIZE_def
      ROMPAD_SIZE_def CONV_TOP_def PGT_BASE_def RESET_PAD_SIZE_def)

lemma PGT_BASE_eq: "PGT_BASE = 0x98000"
  by (simp add: GUARD_SIZE_def STACK_SIZE_def BOOTINFO_SIZE_def DTB_SIZE_def
      DTBO_SIZE_def DTBM_SIZE_def PGT_SIZE_def GDT_SIZE_def SCANPAD_SIZE_def CONV_TOP_def PGT_BASE_def)


section \<open>The SMBIOS image\<close>

text \<open>The table as a reader walks it: a formatted area, then strings up to an empty one.\<close>

fun smbios_strings :: "nat \<Rightarrow> bytes \<Rightarrow> (bytes list \<times> bytes) option" where
  "smbios_strings 0 bs = None"
| "smbios_strings (Suc fuel) bs =
    (if bs = [] then None
     else
       (let s = takeWhile (\<lambda>b. b \<noteq> 0) bs; rest = drop (length s + 1) bs in
        if s = [] then Some ([], rest)
        else map_option (\<lambda>(ss, r). (s # ss, r)) (smbios_strings fuel rest)))"

definition smbios_struct :: "bytes \<Rightarrow> ((u8 \<times> nat \<times> bytes list) \<times> bytes) option" where
  "smbios_struct bs =
    (case bs of
       ty # len # _ \<Rightarrow>
         (let body = drop (unat len) bs in
          if take 2 body = [0, 0] then Some ((ty, unat len, []), drop 2 body)
          else map_option (\<lambda>(ss, r). ((ty, unat len, ss), r)) (smbios_strings (length body) body))
     | _ \<Rightarrow> None)"

fun smbios_structs :: "nat \<Rightarrow> bytes \<Rightarrow> (u8 \<times> nat \<times> bytes list) list option" where
  "smbios_structs 0 bs = None"
| "smbios_structs (Suc fuel) bs =
    (if bs = [] then Some []
     else case smbios_struct bs of None \<Rightarrow> None
       | Some (st, rest) \<Rightarrow> map_option (\<lambda>sts. st # sts) (smbios_structs fuel rest))"

definition bytes_sum :: "bytes \<Rightarrow> u8" where
  "bytes_sum bs = foldr (+) bs 0"

lemma smbios_image_front: "take 79 smbios_image =
  [0x5F, 0x53, 0x4D, 0x5F, 0x30, 0x1F, 0x02, 0x08, 0x29, 0x00, 0x00, 0x00, 0x00, 0x00, 0x00, 0x00,
   0x5F, 0x44, 0x4D, 0x49, 0x5F, 0xE0, 0x2F, 0x00, 0x20, 0x00, 0x0F, 0x00, 0x02, 0x00, 0x28, 0x00,
   0x00, 0x12, 0x00, 0x00, 0x01, 0x02, 0x00, 0x00, 0x03, 0x00, 0x00, 0x00, 0x00, 0x00, 0x00, 0x00,
   0x00, 0x00, 0x54, 0x41, 0x54, 0x55, 0x00, 0x50, 0x69, 0x63, 0x68, 0x69, 0x00, 0x30, 0x31, 0x2F,
   0x30, 0x31, 0x2F, 0x32, 0x30, 0x32, 0x30, 0x00, 0x00, 0x7F, 0x04, 0x00, 0x7F, 0x00, 0x00]"
  by code_simp

lemma length_smbios_image: "length smbios_image = 4096"
proof -
  have [simp]: "length (write_u16 out p v) = length out" "length (write_u32 out p w) = length out" for out p v w
    by (simp_all add: write_u16_def write_u32_def)
  have loop: "length (fst (write_str_loop out p cs)) = length out" for out p cs
    by (induction out p cs rule: write_str_loop.induct) simp_all
  have [simp]: "write_str out p s = (out', q) \<Longrightarrow> length out' = length out" for out p s out' q
    using loop [of out p "map of_char s"] by (auto simp: write_str_def split: prod.splits)
  show ?thesis
    by (simp add: smbios_image_def smbios_image_of_def Let_def IMAGE_SIZE_def write_table_def write_entry_def
        split: prod.split)
qed

text \<open>
  The SMBIOS page: the anchors are in place, the intermediate checksum is right, the table
  address is that of the table, and the 47 bytes of the table are exactly two structures, the BIOS
  information with its three strings and the end marker. The checksum of the 31-byte entry point is
  not zero: it is computed before the byte at 0x15 is stored.
\<close>

lemma smbios_image_content:
  "length smbios_image = 4096 \<and>
   take 4 smbios_image = map of_char ''_SM_'' \<and> take 5 (drop 0x10 smbios_image) = map of_char ''_DMI_'' \<and>
   bytes_sum (take 0x0F (drop 0x10 smbios_image)) = 0 \<and>
   from_le (take 4 (drop 0x18 smbios_image)) = TABLE_GPA \<and>
   smbios_structs 3 (take (unat TABLE_LEN) (drop TABLE_OFFSET smbios_image)) =
     Some [(0, 0x12, map (map of_char) [''TATU'', ''Pichi'', ''01/01/2020'']), (127, 4, [])] \<and>
   bytes_sum (take (unat (smbios_image ! 5)) smbios_image) = 0xE0"
proof -
  let ?f = "take 79 smbios_image"
  have sub: "take n (drop a smbios_image) = take n (drop a ?f)" if "a + n \<le> 79" for a n
    using that by (simp add: take_drop min_def)
  have parts: "take 4 smbios_image = take 4 ?f" "smbios_image ! 5 = ?f ! 5"
    "take 5 (drop 0x10 smbios_image) = take 5 (drop 0x10 ?f)"
    "take 0x0F (drop 0x10 smbios_image) = take 0x0F (drop 0x10 ?f)"
    "take 4 (drop 0x18 smbios_image) = take 4 (drop 0x18 ?f)"
    "take (unat TABLE_LEN) (drop TABLE_OFFSET smbios_image) = take (unat TABLE_LEN) (drop TABLE_OFFSET ?f)"
    "take 31 smbios_image = take 31 ?f"
    by (simp_all add: sub TABLE_LEN_def TABLE_OFFSET_def)
  have len: "unat (?f ! 5) = 31" unfolding smbios_image_front by code_simp
  show ?thesis
    unfolding parts len unfolding smbios_image_front length_smbios_image
    by (intro conjI refl; code_simp)
qed

section \<open>The page tables\<close>

text \<open>A page of entries as words.\<close>

definition word_bytes :: "u64 list \<Rightarrow> bytes" where
  "word_bytes ws = concat (map (le_bytes 8) ws)"

lemma length_word_bytes [simp]: "length (word_bytes ws) = 8 * length ws"
  using length_concat_map [of ws "le_bytes 8" 8] by (simp add: word_bytes_def)

lemma word_bytes_append [simp]: "word_bytes (xs @ ys) = word_bytes xs @ word_bytes ys"
  by (simp add: word_bytes_def)

lemma write_u64_words:
  assumes "i < length ws"
  shows "write_u64 (word_bytes ws) (8 * i) v = word_bytes (ws[i := v])"
proof -
  let ?a = "take i ws" and ?b = "drop (Suc i) ws"
  have ws: "ws = ?a @ ws ! i # ?b" using assms by (rule id_take_nth_drop)
  have one: "word_bytes (x # xs) = le_bytes 8 x @ word_bytes xs" for x xs by (simp add: word_bytes_def)
  have la: "length (word_bytes ?a) = 8 * i" using assms by simp
  have "word_bytes ws = word_bytes ?a @ le_bytes 8 (ws ! i) @ word_bytes ?b"
    by (subst ws) (simp only: word_bytes_append one)
  then have "write_u64 (word_bytes ws) (8 * i) v = word_bytes ?a @ le_bytes 8 v @ word_bytes ?b"
    using la by (simp add: write_u64_def copy_at_def)
  also have "\<dots> = word_bytes (ws[i := v])"
    using assms by (simp add: upd_conv_take_nth_drop one)
  finally show ?thesis .
qed

text \<open>A run of writes.\<close>

definition put_run :: "nat \<Rightarrow> (nat \<Rightarrow> u64) \<Rightarrow> nat \<Rightarrow> u64 list \<Rightarrow> u64 list" where
  "put_run b f n ws = map (\<lambda>k. if b \<le> k \<and> k < b + n then f (k - b) else ws ! k) [0..<length ws]"

lemma length_put_run [simp]: "length (put_run b f n ws) = length ws"
  by (simp add: put_run_def)

lemma nth_put_run: "k < length ws \<Longrightarrow> put_run b f n ws ! k = (if b \<le> k \<and> k < b + n then f (k - b) else ws ! k)"
  by (simp add: put_run_def)

lemma write_run:
  assumes "b + n \<le> length ws"
  shows "fold (\<lambda>j out. write_u64 out (8 * (b + j)) (f j)) [0..<n] (word_bytes ws) = word_bytes (put_run b f n ws)"
  using assms
proof (induction n)
  case 0
  have "put_run b f 0 ws = ws" by (rule nth_equalityI) (auto simp: nth_put_run)
  then show ?case by simp
next
  case (Suc n)
  have "(put_run b f n ws)[b + n := f n] = put_run b f (Suc n) ws"
    by (rule nth_equalityI) (use Suc.prems in \<open>auto simp: nth_put_run nth_list_update\<close>)
  with Suc write_u64_words [of "b + n" "put_run b f n ws" "f n"] show ?case by (simp add: algebra_simps)
qed

lemma write_runs:
  assumes "b + m * n \<le> length ws"
  shows "fold (\<lambda>i out. fold (\<lambda>j out. write_u64 out (8 * (b + i * n + j)) (f (i * n + j))) [0..<n] out)
      [0..<m] (word_bytes ws) = word_bytes (put_run b f (m * n) ws)"
  using assms
proof (induction m)
  case 0
  have "put_run b f 0 ws = ws" by (rule nth_equalityI) (auto simp: nth_put_run)
  then show ?case by simp
next
  case (Suc m)
  have "put_run (b + m * n) (\<lambda>j. f (m * n + j)) n (put_run b f (m * n) ws) = put_run b f (Suc m * n) ws"
    by (rule nth_equalityI) (use Suc.prems in \<open>auto simp: nth_put_run algebra_simps\<close>)
  with Suc write_run [of "b + m * n" n "put_run b f (m * n) ws" "\<lambda>j. f (m * n + j)"]
  show ?case by (simp add: algebra_simps)
qed

text \<open>The entries of the six pages.\<close>

definition table_words :: "u64 list" where
  "table_words =
    put_run 1024 (\<lambda>m. push_bit 21 (word_of_nat m) OR 0x83) 2048
      (put_run 512 (\<lambda>i. (PGT_BASE + 0x2000 + word_of_nat i * 4096) OR 3) 4
        ((replicate 3072 0)[0 := 0x99003]))"

lemma word_bytes_zero: "word_bytes (replicate n 0) = replicate (8 * n) 0"
proof (induction n)
  case (Suc n)
  have "le_bytes 8 (0 :: u64) = replicate 8 0" by code_simp
  then have "word_bytes (replicate (Suc n) 0) = replicate 8 0 @ replicate (8 * n) 0"
    using Suc by (simp add: word_bytes_def)
  also have "\<dots> = replicate (8 * Suc n) 0" by (simp add: replicate_add [symmetric])
  finally show ?case .
qed (simp add: word_bytes_def)

lemma identity_map_words: "identity_map_4gib = word_bytes table_words"
proof -
  let ?w0 = "replicate 3072 (0 :: u64)"
  let ?w1 = "?w0[0 := 0x99003]"
  let ?f2 = "\<lambda>i. (PGT_BASE + 0x2000 + word_of_nat i * 4096 :: u64) OR 3"
  let ?w2 = "put_run 512 ?f2 4 ?w1"
  let ?f3 = "\<lambda>m. push_bit 21 (word_of_nat m :: u64) OR 0x83"
  have s1: "write_u64 (replicate PGT_SIZE 0) 0 ((PGT_BASE + word_of_nat 4096) OR PAGE_PRESENT OR PAGE_WRITABLE)
      = word_bytes ?w1"
    using write_u64_words [of 0 ?w0 "0x99003"]
    by (simp add: word_bytes_zero PGT_SIZE_def PGT_BASE_eq PAGE_PRESENT_def PAGE_WRITABLE_def)
  have flags: "x OR PAGE_PRESENT OR PAGE_WRITABLE = x OR 3" for x
    by (simp add: PAGE_PRESENT_def PAGE_WRITABLE_def or.assoc)
  have s2: "fold (\<lambda>i out. write_u64 out (4096 + i * 8)
        ((PGT_BASE + word_of_nat (4096 + 4096) + word_of_nat i * 4096) OR PAGE_PRESENT OR PAGE_WRITABLE))
      [0..<NUM_GB] (word_bytes ?w1) = word_bytes ?w2"
    using write_run [of 512 4 ?w1 ?f2] by (simp only: flags NUM_GB_def) (simp add: algebra_simps)
  have phys: "(word_of_nat i * 0x40000000 + word_of_nat j * 0x200000) OR PAGE_PRESENT OR PAGE_WRITABLE OR PAGE_SIZE_2MB
      = ?f3 (i * 512 + j)" for i j
    by (simp add: PAGE_PRESENT_def PAGE_WRITABLE_def PAGE_SIZE_2MB_def or.assoc push_bit_eq_mult algebra_simps)
  have s3: "fold (\<lambda>i out. fold (\<lambda>j out. write_u64 out (4096 + 4096 + i * 4096 + j * 8)
        ((word_of_nat i * 0x40000000 + word_of_nat j * 0x200000) OR PAGE_PRESENT OR PAGE_WRITABLE OR PAGE_SIZE_2MB))
        [0..<512] out) [0..<NUM_GB] (word_bytes ?w2) = word_bytes table_words"
    using write_runs [of 1024 4 512 ?w2 ?f3]
    unfolding phys by (simp add: NUM_GB_def table_words_def algebra_simps)
  show ?thesis
    unfolding identity_map_4gib_def Let_def s1 s2 s3 ..
qed


text \<open>
  The translation of a 48-bit virtual address by four-level tables, with 2 MiB pages: each level
  reads the entry its nine index bits select and stops at an entry that is not present; a level-2
  entry with the page-size bit maps the page.
\<close>

definition pte :: "bytes \<Rightarrow> u64 \<Rightarrow> u64 \<Rightarrow> u64" where
  "pte tables gpa idx = from_le (take 8 (drop (unat (gpa - PGT_BASE) + 8 * unat idx) tables))"

definition entry_address :: "u64 \<Rightarrow> u64" where
  "entry_address e = e AND 0x000FFFFFFFFFF000"

definition va_index :: "nat \<Rightarrow> u64 \<Rightarrow> u64" where
  "va_index shift va = drop_bit shift va AND mask 9"

definition page_walk :: "bytes \<Rightarrow> u64 \<Rightarrow> u64 option" where
  "page_walk tables va =
    (let e4 = pte tables PGT_BASE (va_index 39 va) in
     if \<not> bit e4 0 then None else
     let e3 = pte tables (entry_address e4) (va_index 30 va) in
     if \<not> bit e3 0 then None else
     let e2 = pte tables (entry_address e3) (va_index 21 va) in
     if \<not> bit e2 0 \<or> \<not> bit e2 7 then None
     else Some ((e2 AND 0x000FFFFFFFE00000) OR (va AND mask 21)))"

lemma word_bytes_nth: "i < length ws \<Longrightarrow> take 8 (drop (8 * i) (word_bytes ws)) = le_bytes 8 (ws ! i)"
  using concat_slice [of ws "le_bytes 8" 8 i] by (simp add: word_bytes_def mult.commute)

lemma length_table_words: "length table_words = 3072"
  by (simp add: table_words_def)

lemma pte_word:
  assumes "unat (gpa - PGT_BASE) = 4096 * p" and "unat idx < 512" and "p < 6"
  shows "pte identity_map_4gib gpa idx = table_words ! (512 * p + unat idx)"
proof -
  have eq: "unat (gpa - PGT_BASE) + 8 * unat idx = 8 * (512 * p + unat idx)" using assms(1) by simp
  have lt: "512 * p + unat idx < length table_words" using assms(2,3) by (simp add: length_table_words)
  show ?thesis
    unfolding pte_def identity_map_words eq word_bytes_nth [OF lt] by (rule from_le_le_bytes_full) simp
qed

lemma unat_drop_u64: "unat (drop_bit k w) = unat w div 2 ^ k" for w :: u64
proof -
  have "take_bit 64 (unat w) = unat w"
    by (rule take_bit_nat_eq_self) (rule unat_u64_less)
  then show ?thesis by (simp only: unsigned_drop_bit_eq) (simp add: drop_bit_eq_div)
qed

lemma unat_va_index: "unat (va_index k va) = unat va div 2 ^ k mod 512"
  by (simp only: va_index_def take_bit_eq_mask [symmetric] unsigned_take_bit_eq unat_drop_u64)
    (simp add: take_bit_eq_mod)

lemma pml4_entry: "i < 512 \<Longrightarrow> table_words ! i = (if i = 0 then 0x99003 else 0)"
  by (simp add: table_words_def nth_put_run nth_list_update)

lemma pdpt_entry: "i < 512 \<Longrightarrow> table_words ! (512 + i) =
    (if i < 4 then (PGT_BASE + 0x2000 + word_of_nat i * 4096) OR 3 else 0)"
  by (simp add: table_words_def nth_put_run)

lemma pd_entry: "m < 2048 \<Longrightarrow> table_words ! (1024 + m) = push_bit 21 (word_of_nat m) OR 0x83"
  by (simp add: table_words_def nth_put_run)

lemma pd_gpa:
  assumes "i < 4"
  shows "bit ((PGT_BASE + 0x2000 + word_of_nat i * 4096 :: u64) OR 3) 0"
    and "unat (entry_address ((PGT_BASE + 0x2000 + word_of_nat i * 4096) OR 3) - PGT_BASE) = 4096 * (2 + i)"
proof -
  have "i = 0 \<or> i = 1 \<or> i = 2 \<or> i = 3" using assms by linarith
  then show "bit ((PGT_BASE + 0x2000 + word_of_nat i * 4096 :: u64) OR 3) 0"
    and "unat (entry_address ((PGT_BASE + 0x2000 + word_of_nat i * 4096) OR 3) - PGT_BASE) = 4096 * (2 + i)"
    by (auto simp: PGT_BASE_eq entry_address_def bit_simps)
qed

lemma page_frame:
  fixes va :: u64
  assumes "unat va < 2 ^ 32"
  shows "((push_bit 21 (word_of_nat (unat va div 2 ^ 21)) OR 0x83) AND 0x000FFFFFFFE00000) OR (va AND mask 21) = va"
    (is "?l = _")
proof -
  have drop: "(word_of_nat (unat va div 2 ^ 21) :: u64) = drop_bit 21 va"
  proof (rule word_unat_eq_iff [THEN iffD2])
    have "unat va div 2 ^ 21 < 2 ^ 64" using assms by simp
    then show "unat (word_of_nat (unat va div 2 ^ 21) :: u64) = unat (drop_bit 21 va)"
      unfolding unat_drop_u64 unat_of_nat by simp
  qed
  have m: "(0x000FFFFFFFE00000 :: u64) = mask 52 AND NOT (mask 21)"
    by (simp add: mask_eq_exp_minus_1)
  have fits: "va AND mask 52 = va"
  proof -
    have "take_bit 52 va = va"
      by (rule word_unat_eq_iff [THEN iffD2]) (simp only: unsigned_take_bit_eq, use assms in \<open>simp add: take_bit_eq_mod\<close>)
    then show ?thesis by (simp add: take_bit_eq_mask)
  qed
  have "(push_bit 21 (drop_bit 21 va) OR 0x83) AND 0x000FFFFFFFE00000 = va AND NOT (mask 21)"
  proof -
    have "(0x83 :: u64) AND 0x000FFFFFFFE00000 = 0" by simp
    moreover have "push_bit 21 (drop_bit 21 va) AND 0x000FFFFFFFE00000 = va AND NOT (mask 21)"
    proof -
      have "(x AND NOT b) AND (c AND NOT b) = (x AND c) AND NOT b" for x b c :: u64
        by (rule bit_word_eqI) (auto simp: bit_simps)
      then show ?thesis unfolding and_not_mask_eq [symmetric] m by (simp only: fits)
    qed
    ultimately show ?thesis by (simp add: bit.conj_disj_distrib2)
  qed
  then have "?l = (va AND NOT (mask 21)) OR (va AND mask 21)" by (simp only: drop)
  also have "\<dots> = va" by (rule bit_word_eqI) (auto simp: bit_simps)
  finally show ?thesis .
qed

text \<open>
  C20. Through the boot page tables every address below 4 GiB translates to itself, and no other
  48-bit address is mapped.
\<close>

theorem identity_map_translation:
  assumes "unat va < 2 ^ 48"
  shows "page_walk identity_map_4gib va = (if unat va < 2 ^ 32 then Some va else None)"
proof -
  let ?v = "unat va"
  let ?i4 = "?v div 2 ^ 39" and ?i3 = "?v div 2 ^ 30 mod 512" and ?i2 = "?v div 2 ^ 21 mod 512"
  have i4: "?v div 2 ^ 39 mod 512 = ?i4" using assms by simp
  have e4: "pte identity_map_4gib PGT_BASE (va_index 39 va) = (if ?i4 = 0 then 0x99003 else 0)"
  proof -
    have "?i4 < 512" using assms by simp
    then show ?thesis using pml4_entry pte_word [of PGT_BASE 0 "va_index 39 va"]
      by (simp add: unat_va_index i4)
  qed
  have a4: "unat (entry_address 0x99003 - PGT_BASE) = 4096 * 1" by (simp add: entry_address_def PGT_BASE_eq)
  have e3: "pte identity_map_4gib (entry_address 0x99003) (va_index 30 va) =
      (if ?i3 < 4 then (PGT_BASE + 0x2000 + word_of_nat ?i3 * 4096) OR 3 else 0)"
    using pte_word [OF a4, of "va_index 30 va"] pdpt_entry [of ?i3] by (simp add: unat_va_index)
  show ?thesis
  proof (cases "?v < 2 ^ 32")
    case True
    then have "?i4 = 0" and i3: "?i3 = ?v div 2 ^ 30" "?v div 2 ^ 30 < 4" by simp_all
    let ?e3 = "(PGT_BASE + 0x2000 + word_of_nat (?v div 2 ^ 30) * 4096 :: u64) OR 3"
    let ?e2 = "push_bit 21 (word_of_nat (?v div 2 ^ 21)) OR 0x83 :: u64"
    have "pte identity_map_4gib (entry_address ?e3) (va_index 21 va) =
        table_words ! (512 * (2 + ?v div 2 ^ 30) + ?i2)"
      using pte_word [OF pd_gpa(2) [OF i3(2)], of "va_index 21 va"] i3(2) by (simp add: unat_va_index)
    also have "512 * (2 + ?v div 2 ^ 30) + ?i2 = 1024 + ?v div 2 ^ 21"
    proof -
      have "?v div 2 ^ 30 = ?v div 2 ^ 21 div 512" by (simp add: div_mult2_eq [symmetric])
      then show ?thesis using div_mult_mod_eq [of "?v div 2 ^ 21" 512] by simp
    qed
    also have "table_words ! \<dots> = ?e2" by (rule pd_entry) (use True in simp)
    finally have e2: "pte identity_map_4gib (entry_address ?e3) (va_index 21 va) = ?e2" .
    have "bit ?e2 0" "bit ?e2 7" by (simp_all add: bit_simps)
    then show ?thesis
      using True e4 e3 e2 pd_gpa(1) [OF i3(2)] page_frame [OF True] \<open>?i4 = 0\<close>
      by (simp add: page_walk_def i3)
  next
    case False
    then have ge: "4 \<le> ?v div 2 ^ 30" using div_le_mono [of "2 ^ 32" ?v "2 ^ 30"] by simp
    have "?i4 \<noteq> 0 \<or> ?i4 = 0 \<and> \<not> ?i3 < 4"
    proof (cases "?i4 = 0")
      case True
      then have "?v < 512 * 2 ^ 30" by (simp add: div_eq_0_iff)
      then have "?v div 2 ^ 30 < 512" by (simp only: less_mult_imp_div_less)
      with True ge show ?thesis by simp
    qed simp
    then show ?thesis using e4 e3 False by (auto simp: page_walk_def)
  qed
qed

theorem identity_map_translation_witness:
  "page_walk identity_map_4gib 0xFFFFFFF0 = Some 0xFFFFFFF0 \<and> page_walk identity_map_4gib 0x100000000 = None"
  using identity_map_translation [of "0xFFFFFFF0"] identity_map_translation [of "0x100000000"] by simp

text \<open>The descriptors: null, 64-bit code at selector 8, data at selector 16.\<close>

lemma gdt_descriptors:
  "from_le (take 8 gdt_page) = (0 :: u64)"
  "from_le (take 8 (drop 8 gdt_page)) = (0x00AF9B000000FFFF :: u64)"
  "from_le (take 8 (drop 16 gdt_page)) = (0x00CF93000000FFFF :: u64)"
  by code_simp+

end
