(* ===== verification/Manifest.thy ===== *)
theory Manifest
  imports TatuImage Bootmem
begin

text \<open>
  The launch manifest (\<open>src/manifest.rs\<close>): the channel modes of the base devicetree, the list of
  load and fill actions, and the register state of the boot cpu of either architecture. The checked
  newtypes of the \<open>pmi\<close> crate and its CBOR encoding are the parameter \<open>pmi_api\<close>; versions
  and load kinds are the crate's defaults and carry nothing here.
\<close>

definition SECTION_LINUX :: string where "SECTION_LINUX = ''.linux''"
definition SECTION_INITRD :: string where "SECTION_INITRD = ''.initrd''"
definition SECTION_BOOTCONFIG :: string where "SECTION_BOOTCONFIG = ''.bconf''"
definition SECTION_RELOCS :: string where "SECTION_RELOCS = ''.linux.relocs''"
definition SECTION_DTB :: string where "SECTION_DTB = ''.tatu.dtb''"
definition SECTION_DTBO :: string where "SECTION_DTBO = ''.tatu.dtbo''"
definition SECTION_DTB_FALLBACK :: string where "SECTION_DTB_FALLBACK = ''.dtb''"
definition SECTION_PGTABLE :: string where "SECTION_PGTABLE = ''.tatu.pgt''"
definition SECTION_GDT :: string where "SECTION_GDT = ''.tatu.gdt''"
definition SECTION_PMI_VM :: string where "SECTION_PMI_VM = ''.pmi.vm''"

datatype dtb_mode = Attached | Detached | Optional

definition dtb_attribute :: "dtb_mode \<Rightarrow> string option" where
  "dtb_attribute m = (case m of
     Attached \<Rightarrow> Some SECTION_DTB
   | Optional \<Rightarrow> Some SECTION_DTB_FALLBACK
   | Detached \<Rightarrow> None)"

record action_gpas =
  ag_linux :: u64
  ag_initrd :: "u64 option"
  ag_bootconfig :: "u64 option"
  ag_relocs :: "u64 option"

datatype fill_kind = LbcBootconfig | DtDtb | DtDtbo

datatype action = Load u64 string | Fill u64 string fill_kind

section \<open>Actions (build_actions)\<close>

definition tatu_loads :: "tatu_image \<Rightarrow> dtb_mode \<Rightarrow> action list" where
  "tatu_loads tatu mode = concat (map (\<lambda>s.
     if ts_name s = SECTION_DTBO then []
     else if ts_name s = SECTION_DTB \<and> mode \<noteq> Attached then []
     else [Load (ts_vaddr s) (ts_name s)]) (tg_sections tatu))"

definition vaddr_or_0 :: "tatu_section option \<Rightarrow> u64" where
  "vaddr_or_0 m = (case m of None \<Rightarrow> 0 | Some s \<Rightarrow> ts_vaddr s)"

definition build_actions :: "tatu_image \<Rightarrow> action_gpas \<Rightarrow> dtb_mode \<Rightarrow> action list" where
  "build_actions tatu gpas mode =
    tatu_loads tatu mode
    @ [Load (ag_linux gpas) SECTION_LINUX]
    @ (case ag_initrd gpas of None \<Rightarrow> [] | Some gpa \<Rightarrow> [Load gpa SECTION_INITRD])
    @ (case ag_bootconfig gpas of None \<Rightarrow> [] | Some gpa \<Rightarrow> [Fill gpa SECTION_BOOTCONFIG LbcBootconfig])
    @ (case ag_relocs gpas of None \<Rightarrow> [] | Some gpa \<Rightarrow> [Load gpa SECTION_RELOCS])
    @ (if mode \<noteq> Attached then [Fill (vaddr_or_0 (tatu_section_named tatu SECTION_DTB)) SECTION_DTB DtDtb] else [])
    @ [Fill (vaddr_or_0 (tatu_section_named tatu SECTION_DTBO)) SECTION_DTBO DtDtbo]"

section \<open>The boot cpu\<close>

record seg_reg =
  seg_selector :: u16
  seg_attributes :: u16
  seg_limit :: u32
  seg_base :: u64

record dtr =
  dtr_limit :: u16
  dtr_base :: u64

text \<open>\<open>x86_gprs\<close> holds rax, rbx, rcx, rdx, rsi, rdi, rbp and r8 to r15; \<open>arm_gprs\<close> holds x0
  to x30.\<close>

record x86_cpu_state =
  x86_rip :: u64
  x86_rsp :: u64
  x86_rflags :: u64
  x86_cr0 :: u64
  x86_cr3 :: u64
  x86_cr4 :: u64
  x86_efer :: u64
  x86_cs :: seg_reg
  x86_ds :: seg_reg
  x86_es :: seg_reg
  x86_fs :: seg_reg
  x86_gs :: seg_reg
  x86_ss :: seg_reg
  x86_gdtr :: dtr
  x86_idtr :: dtr
  x86_gprs :: "u64 list"

record arm_cpu_state =
  arm_pc :: u64
  arm_pstate :: u64
  arm_sctlr_el1 :: u64
  arm_tcr_el1 :: u64
  arm_ttbr0_el1 :: u64
  arm_ttbr1_el1 :: u64
  arm_mair_el1 :: u64
  arm_vbar_el1 :: u64
  arm_cpacr_el1 :: u64
  arm_sp_el1 :: u64
  arm_gprs :: "u64 list"

record 'cpu spec =
  spec_actions :: "action list"
  spec_vcpu :: 'cpu
  spec_cpu_profile :: string
  spec_dt_dtb :: "string option"

record pmi_api =
  rflags_ok :: "u64 \<Rightarrow> bool"
  seg_attributes_ok :: "u16 \<Rightarrow> bool"
  pstate_ok :: "u64 \<Rightarrow> bool"
  encode_x86 :: "x86_cpu_state spec \<Rightarrow> bytes option"
  encode_arm :: "arm_cpu_state spec \<Rightarrow> bytes option"

datatype manifest_error = MissingTatuSection string | InvalidRegister | EncodeFailed

definition new_rflags :: "pmi_api \<Rightarrow> u64 \<Rightarrow> manifest_error + u64" where
  "new_rflags P v = (if rflags_ok P v then Inr v else Inl InvalidRegister)"

definition new_seg_attributes :: "pmi_api \<Rightarrow> u16 \<Rightarrow> manifest_error + u16" where
  "new_seg_attributes P v = (if seg_attributes_ok P v then Inr v else Inl InvalidRegister)"

definition new_pstate :: "pmi_api \<Rightarrow> u64 \<Rightarrow> manifest_error + u64" where
  "new_pstate P v = (if pstate_ok P v then Inr v else Inl InvalidRegister)"

definition data_seg :: "pmi_api \<Rightarrow> u16 \<Rightarrow> u16 \<Rightarrow> manifest_error + seg_reg" where
  "data_seg P selector attributes =
    rbind (new_seg_attributes P attributes) (\<lambda>attributes.
    Inr \<lparr>seg_selector = selector, seg_attributes = attributes, seg_limit = 0xFFFFFFFF, seg_base = 0\<rparr>)"

definition cs_attributes :: u16 where "cs_attributes = 0x0A9B"
definition ds_attributes :: u16 where "ds_attributes = 0x0C93"

definition x86_vcpu :: "pmi_api \<Rightarrow> u64 \<Rightarrow> u64 \<Rightarrow> manifest_error + x86_cpu_state" where
  "x86_vcpu P pgtable_gpa gdt_gpa =
    rbind (new_rflags P 0x2) (\<lambda>rflags.
    rbind (new_seg_attributes P cs_attributes) (\<lambda>cs.
    rbind (data_seg P 0x10 ds_attributes) (\<lambda>ds.
    rbind (data_seg P 0x10 ds_attributes) (\<lambda>es.
    rbind (data_seg P 0x10 ds_attributes) (\<lambda>fs.
    rbind (data_seg P 0x10 ds_attributes) (\<lambda>gs.
    rbind (data_seg P 0x10 ds_attributes) (\<lambda>ss.
    Inr \<lparr>x86_rip = 0xFFFFFFF0, x86_rsp = 0, x86_rflags = rflags, x86_cr0 = 0x80000001,
      x86_cr3 = pgtable_gpa, x86_cr4 = 0x20, x86_efer = 0x500,
      x86_cs = \<lparr>seg_selector = 0x08, seg_attributes = cs, seg_limit = 0xFFFFFFFF, seg_base = 0\<rparr>,
      x86_ds = ds, x86_es = es, x86_fs = fs, x86_gs = gs, x86_ss = ss,
      x86_gdtr = \<lparr>dtr_limit = 0x17, dtr_base = gdt_gpa\<rparr>, x86_idtr = \<lparr>dtr_limit = 0, dtr_base = 0\<rparr>,
      x86_gprs = replicate 15 0\<rparr>)))))))"

definition arm_vcpu :: "pmi_api \<Rightarrow> u64 \<Rightarrow> manifest_error + arm_cpu_state" where
  "arm_vcpu P pc =
    rbind (new_pstate P 0x3C5) (\<lambda>pstate.
    Inr \<lparr>arm_pc = pc, arm_pstate = pstate, arm_sctlr_el1 = 0x00C50838, arm_tcr_el1 = 0,
      arm_ttbr0_el1 = 0, arm_ttbr1_el1 = 0, arm_mair_el1 = 0, arm_vbar_el1 = 0,
      arm_cpacr_el1 = 0x300000, arm_sp_el1 = 0, arm_gprs = replicate 31 0\<rparr>)"

definition required_vaddr :: "tatu_image \<Rightarrow> string \<Rightarrow> manifest_error + u64" where
  "required_vaddr tatu name =
    rbind (ok_or (MissingTatuSection name) (tatu_section_named tatu name)) (\<lambda>s. Inr (ts_vaddr s))"

definition build_spec_x86 ::
  "pmi_api \<Rightarrow> tatu_image \<Rightarrow> action_gpas \<Rightarrow> string \<Rightarrow> dtb_mode \<Rightarrow> manifest_error + x86_cpu_state spec" where
  "build_spec_x86 P tatu gpas cpu_profile mode =
    rbind (required_vaddr tatu SECTION_PGTABLE) (\<lambda>pgtable_gpa.
    rbind (required_vaddr tatu SECTION_GDT) (\<lambda>gdt_gpa.
    rbind (x86_vcpu P pgtable_gpa gdt_gpa) (\<lambda>vcpu.
    Inr \<lparr>spec_actions = build_actions tatu gpas mode, spec_vcpu = vcpu, spec_cpu_profile = cpu_profile,
      spec_dt_dtb = dtb_attribute mode\<rparr>)))"

definition build_spec_arm ::
  "pmi_api \<Rightarrow> tatu_image \<Rightarrow> action_gpas \<Rightarrow> string \<Rightarrow> dtb_mode \<Rightarrow> manifest_error + arm_cpu_state spec" where
  "build_spec_arm P tatu gpas cpu_profile mode =
    rbind (arm_vcpu P (tg_entry tatu)) (\<lambda>vcpu.
    Inr \<lparr>spec_actions = build_actions tatu gpas mode, spec_vcpu = vcpu, spec_cpu_profile = cpu_profile,
      spec_dt_dtb = dtb_attribute mode\<rparr>)"

definition build_pmi_vm ::
  "pmi_api \<Rightarrow> arch \<Rightarrow> tatu_image \<Rightarrow> action_gpas \<Rightarrow> string \<Rightarrow> dtb_mode \<Rightarrow> manifest_error + bytes" where
  "build_pmi_vm P a tatu gpas cpu_profile mode = (case a of
     X86_64 \<Rightarrow> rbind (build_spec_x86 P tatu gpas cpu_profile mode) (\<lambda>spec. ok_or EncodeFailed (encode_x86 P spec))
   | Aarch64 \<Rightarrow> rbind (build_spec_arm P tatu gpas cpu_profile mode) (\<lambda>spec. ok_or EncodeFailed (encode_arm P spec)))"

section \<open>The segment registers and the descriptor table\<close>

text \<open>
  A segment descriptor of the architecture, read as the processor does: access byte and flags as
  the attributes of a segment register, the limit scaled by the granularity bit, the base from its
  three parts.
\<close>

definition descriptor_attributes :: "u64 \<Rightarrow> u16" where
  "descriptor_attributes d = ucast (drop_bit 40 d AND 0xFF) OR push_bit 8 (ucast (drop_bit 52 d AND 0xF))"

definition descriptor_limit :: "u64 \<Rightarrow> u32" where
  "descriptor_limit d =
    (let l = ucast (d AND 0xFFFF) OR push_bit 16 (ucast (drop_bit 48 d AND 0xF)) in
     if bit d 55 then push_bit 12 l OR 0xFFF else l)"

definition descriptor_base :: "u64 \<Rightarrow> u64" where
  "descriptor_base d = (drop_bit 16 d AND 0xFFFFFF) OR push_bit 24 (drop_bit 56 d)"

definition descriptor_at :: "bytes \<Rightarrow> u16 \<Rightarrow> u64" where
  "descriptor_at table selector = from_le (byte_slice table (unat selector) 8)"

definition loaded_from :: "bytes \<Rightarrow> dtr \<Rightarrow> seg_reg \<Rightarrow> bool" where
  "loaded_from table r s \<longleftrightarrow>
    unat (seg_selector s) mod 8 = 0 \<and> unat (seg_selector s) + 7 \<le> unat (dtr_limit r) \<and>
    (let d = descriptor_at table (seg_selector s) in
     descriptor_attributes d = seg_attributes s \<and> descriptor_limit d = seg_limit s \<and> descriptor_base d = seg_base s)"

lemma gdt_entries:
  "descriptor_at gdt_page 8 = 0x00AF9B000000FFFF" "descriptor_at gdt_page 16 = 0x00CF93000000FFFF"
  using gdt_descriptors(2,3) by (simp_all add: descriptor_at_def byte_slice_def)

text \<open>
  C34. The x86 boot cpu enters at the reset vector, with interrupts off and every general register
  zero, and is consistent with the boot stub: its segment registers are what loading their selectors
  from the stub's descriptor table gives, the table's limit covers them, they are a 64-bit code
  segment and data segments, long mode and paging are on, and cr3 and gdtr hold the addresses of the
  stub's table sections; the actions and the attribute are those of the mode.
\<close>

theorem x86_spec_matches_stub:
  assumes "build_spec_x86 P tatu gpas profile mode = Inr spec"
  shows "\<exists>pgt gdt. tatu_section_named tatu SECTION_PGTABLE = Some pgt
    \<and> tatu_section_named tatu SECTION_GDT = Some gdt
    \<and> (let c = spec_vcpu spec in
         x86_rip c = 0xFFFFFFF0 \<and> \<not> bit (x86_rflags c) 9 \<and> bit (x86_rflags c) 1
         \<and> x86_rsp c = 0 \<and> set (x86_gprs c) = {0} \<and> dtr_limit (x86_idtr c) = 0
         \<and> x86_cr3 c = ts_vaddr pgt \<and> dtr_base (x86_gdtr c) = ts_vaddr gdt
         \<and> list_all (loaded_from gdt_page (x86_gdtr c))
             [x86_cs c, x86_ds c, x86_es c, x86_fs c, x86_gs c, x86_ss c]
         \<and> bit (seg_attributes (x86_cs c)) 3 \<and> bit (seg_attributes (x86_cs c)) 9
         \<and> bit (x86_cr0 c) 31 \<and> bit (x86_cr0 c) 0 \<and> bit (x86_cr4 c) 5 \<and> bit (x86_efer c) 8 \<and> bit (x86_efer c) 10)
    \<and> spec_actions spec = build_actions tatu gpas mode \<and> spec_dt_dtb spec = dtb_attribute mode"
proof -
  from assms obtain pgt gdt vcpu where t: "tatu_section_named tatu SECTION_PGTABLE = Some pgt"
    "tatu_section_named tatu SECTION_GDT = Some gdt" and v: "x86_vcpu P (ts_vaddr pgt) (ts_vaddr gdt) = Inr vcpu"
    and s: "spec = \<lparr>spec_actions = build_actions tatu gpas mode, spec_vcpu = vcpu, spec_cpu_profile = profile,
      spec_dt_dtb = dtb_attribute mode\<rparr>"
    by (auto simp: build_spec_x86_def required_vaddr_def rbind_eq_Inr ok_or_eq_Inr)
  let ?ds = "\<lparr>seg_selector = 0x10, seg_attributes = ds_attributes, seg_limit = 0xFFFFFFFF, seg_base = 0\<rparr>"
  have vcpu: "vcpu = \<lparr>x86_rip = 0xFFFFFFF0, x86_rsp = 0, x86_rflags = 2, x86_cr0 = 0x80000001,
      x86_cr3 = ts_vaddr pgt, x86_cr4 = 0x20, x86_efer = 0x500,
      x86_cs = \<lparr>seg_selector = 0x08, seg_attributes = cs_attributes, seg_limit = 0xFFFFFFFF, seg_base = 0\<rparr>,
      x86_ds = ?ds, x86_es = ?ds, x86_fs = ?ds, x86_gs = ?ds, x86_ss = ?ds,
      x86_gdtr = \<lparr>dtr_limit = 0x17, dtr_base = ts_vaddr gdt\<rparr>, x86_idtr = \<lparr>dtr_limit = 0, dtr_base = 0\<rparr>,
      x86_gprs = replicate 15 0\<rparr>"
    using v by (auto simp: x86_vcpu_def data_seg_def new_rflags_def new_seg_attributes_def rbind_eq_Inr split: if_splits)
  have cs: "loaded_from gdt_page \<lparr>dtr_limit = 0x17, dtr_base = ts_vaddr gdt\<rparr>
      \<lparr>seg_selector = 0x08, seg_attributes = cs_attributes, seg_limit = 0xFFFFFFFF, seg_base = 0\<rparr>"
    by (simp add: loaded_from_def gdt_entries descriptor_attributes_def descriptor_limit_def descriptor_base_def
        cs_attributes_def)
  have ds: "loaded_from gdt_page \<lparr>dtr_limit = 0x17, dtr_base = ts_vaddr gdt\<rparr> ?ds"
    by (simp add: loaded_from_def gdt_entries descriptor_attributes_def descriptor_limit_def descriptor_base_def
        ds_attributes_def)
  have bits: "bit cs_attributes 3" "bit cs_attributes 9" "bit (0x80000001 :: u64) 31" "bit (0x80000001 :: u64) 0"
    "bit (0x20 :: u64) 5" "bit (0x500 :: u64) 8" "bit (0x500 :: u64) 10" "\<not> bit (2 :: u64) 9" "bit (2 :: u64) 1"
    by (simp_all add: cs_attributes_def)
  show ?thesis using t cs ds bits by (simp add: s vcpu Let_def)
qed

definition demo_pmi :: pmi_api where
  "demo_pmi = \<lparr>rflags_ok = (\<lambda>v. v = 2), seg_attributes_ok = (\<lambda>v. v < 0x1000), pstate_ok = (\<lambda>v. v < 0x400),
     encode_x86 = (\<lambda>s. Some (str_bytes (spec_cpu_profile s))), encode_arm = (\<lambda>s. Some (str_bytes (spec_cpu_profile s)))\<rparr>"

definition demo_section :: "string \<Rightarrow> u64 \<Rightarrow> u64 \<Rightarrow> bool \<Rightarrow> tatu_section" where
  "demo_section name vaddr sz nobits = \<lparr>ts_name = name, ts_vaddr = vaddr,
     ts_data = (if nobits then [] else replicate (unat sz) 0x90), ts_virtual_size = sz,
     ts_is_nobits = nobits, ts_is_bootinfo = (name = BOOTINFO_SECTION), ts_is_dtb = (name = DTB_SECTION)\<rparr>"

definition demo_tatu :: tatu_image where
  "demo_tatu = \<lparr>tg_sections =
     [demo_section ''.tatu.text'' 0x10000 0x1000 False, demo_section ''.tatu.bootinfo'' 0x11000 0x1000 True,
      demo_section ''.tatu.dtb'' 0x20000 0x10000 True, demo_section ''.tatu.dtbo'' 0x30000 0x10000 True,
      demo_section ''.tatu.pgt'' 0x40000 0x6000 False, demo_section ''.tatu.gdt'' 0x46000 0x1000 False],
     tg_entry = 0x10000\<rparr>"

lemma x86_spec_matches_stub_witness:
  "\<exists>spec. build_spec_x86 demo_pmi demo_tatu \<lparr>ag_linux = 0x200000, ag_initrd = None, ag_bootconfig = None, ag_relocs = None\<rparr>
      ''x86-64-v2'' Optional = Inr spec
    \<and> x86_rip (spec_vcpu spec) = 0xFFFFFFF0 \<and> x86_cr3 (spec_vcpu spec) = 0x40000 \<and> loaded_from gdt_page (x86_gdtr (spec_vcpu spec)) (x86_ds (spec_vcpu spec))"
proof -
  have t: "tatu_section_named demo_tatu SECTION_PGTABLE = Some (demo_section ''.tatu.pgt'' 0x40000 0x6000 False)"
    "tatu_section_named demo_tatu SECTION_GDT = Some (demo_section ''.tatu.gdt'' 0x46000 0x1000 False)"
    by (simp_all add: tatu_section_named_def demo_tatu_def demo_section_def SECTION_PGTABLE_def SECTION_GDT_def)
  obtain spec where s: "build_spec_x86 demo_pmi demo_tatu
      \<lparr>ag_linux = 0x200000, ag_initrd = None, ag_bootconfig = None, ag_relocs = None\<rparr> ''x86-64-v2'' Optional = Inr spec"
    by (simp add: build_spec_x86_def required_vaddr_def t x86_vcpu_def data_seg_def new_rflags_def
        new_seg_attributes_def demo_pmi_def cs_attributes_def ds_attributes_def)
  from x86_spec_matches_stub [OF s] show ?thesis
    using s by (auto simp: t demo_section_def Let_def)
qed

end
