(* ===== verification/Assemble.thy ===== *)
theory Assemble
  imports Manifest "HOL-Library.Multiset"
begin

text \<open>
  The sections of the output (\<open>assemble_sections\<close> and its helpers in \<open>src/build.rs\<close>) and
  the agreement between them and the actions of the manifest.
\<close>

definition IMAGE_SCN_MEM_DISCARDABLE :: u32 where "IMAGE_SCN_MEM_DISCARDABLE = 0x02000000"
definition IMAGE_SCN_MEM_EXECUTE :: u32 where "IMAGE_SCN_MEM_EXECUTE = 0x20000000"
definition IMAGE_SCN_MEM_READ :: u32 where "IMAGE_SCN_MEM_READ = 0x40000000"
definition IMAGE_SCN_MEM_WRITE :: u32 where "IMAGE_SCN_MEM_WRITE = 0x80000000"

definition tatu_section_characteristics :: "string \<Rightarrow> bool \<Rightarrow> u32" where
  "tatu_section_characteristics name is_nobits =
    (if is_nobits then IMAGE_SCN_CNT_UNINITIALIZED_DATA OR IMAGE_SCN_MEM_READ OR IMAGE_SCN_MEM_WRITE
     else if find_window ''.text'' name \<noteq> None \<or> name = ''.tatu.reset''
     then IMAGE_SCN_CNT_CODE OR IMAGE_SCN_MEM_READ OR IMAGE_SCN_MEM_EXECUTE
     else if find_window ''.rodata'' name \<noteq> None then IMAGE_SCN_CNT_INITIALIZED_DATA OR IMAGE_SCN_MEM_READ
     else IMAGE_SCN_CNT_INITIALIZED_DATA OR IMAGE_SCN_MEM_READ OR IMAGE_SCN_MEM_WRITE)"

definition compute_kernel_alloc_size :: "u64 \<Rightarrow> u64 option \<Rightarrow> elf_meta option \<Rightarrow> u64" where
  "compute_kernel_alloc_size file_size aarch64_image_size elf = (case elf of
     Some e \<Rightarrow> max (em_alloc_size e) file_size
   | None \<Rightarrow> max (case aarch64_image_size of Some n \<Rightarrow> n | None \<Rightarrow> 0) file_size)"

definition has_earlycon :: "string \<Rightarrow> bool" where
  "has_earlycon cmdline =
    list_ex (\<lambda>arg. arg = ''earlycon'' \<or> RustText.starts_with ''earlycon='' arg) (split_whitespace cmdline)"

definition serial_earlycon_cmdline :: "bool \<Rightarrow> string \<Rightarrow> string" where
  "serial_earlycon_cmdline serial cmdline =
    (if \<not> serial \<or> has_earlycon cmdline then cmdline
     else if trim_start cmdline = [] then ''earlycon''
     else ''earlycon '' @ cmdline)"

section \<open>Sections (assemble_sections)\<close>

definition stub_data :: "bytes \<Rightarrow> bytes \<Rightarrow> bool \<Rightarrow> tatu_section \<Rightarrow> bytes" where
  "stub_data bootinfo_bytes dtb_bytes bundle_base s =
    (if ts_is_bootinfo s then bootinfo_bytes
     else if ts_is_dtb s \<and> bundle_base then dtb_bytes
     else if ts_is_dtb s \<or> ts_is_nobits s then []
     else ts_data s)"

definition stub_section :: "bytes \<Rightarrow> bytes \<Rightarrow> bool \<Rightarrow> tatu_section \<Rightarrow> pe_section" where
  "stub_section bootinfo_bytes dtb_bytes bundle_base s =
    \<lparr>sec_name = ts_name s, sec_vaddr = ts_vaddr s, sec_virtual_size = ts_virtual_size s,
     sec_data = stub_data bootinfo_bytes dtb_bytes bundle_base s,
     sec_characteristics = tatu_section_characteristics (ts_name s) (ts_is_nobits s), sec_non_loaded = False\<rparr>"

definition payload_section :: "string \<Rightarrow> gpa_range \<Rightarrow> bytes \<Rightarrow> u32 \<Rightarrow> pe_section" where
  "payload_section name r data characteristics =
    \<lparr>sec_name = name, sec_vaddr = rstart r, sec_virtual_size = rend r - rstart r, sec_data = data,
     sec_characteristics = characteristics, sec_non_loaded = False\<rparr>"

definition carried_section :: "string \<Rightarrow> bytes \<Rightarrow> pe_section" where
  "carried_section name data =
    \<lparr>sec_name = name, sec_vaddr = 0, sec_virtual_size = word_of_nat (length data), sec_data = data,
     sec_characteristics = IMAGE_SCN_CNT_INITIALIZED_DATA OR IMAGE_SCN_MEM_READ OR IMAGE_SCN_MEM_DISCARDABLE,
     sec_non_loaded = True\<rparr>"

definition assemble_sections ::
  "tatu_image \<Rightarrow> bytes \<Rightarrow> bytes \<Rightarrow> bytes option \<Rightarrow> bytes \<Rightarrow> bytes \<Rightarrow> layout \<Rightarrow> bytes \<Rightarrow> dtb_mode
    \<Rightarrow> pe_section list" where
  "assemble_sections tatu_img bootinfo_bytes kernel_img initrd_bytes relocs_bytes dtb_bytes lay cbor mode =
    map (stub_section bootinfo_bytes dtb_bytes (mode = Attached)) (tg_sections tatu_img)
    @ (if mode = Optional then [carried_section SECTION_DTB_FALLBACK dtb_bytes] else [])
    @ [payload_section SECTION_LINUX (l_linux lay) kernel_img (IMAGE_SCN_CNT_INITIALIZED_DATA OR IMAGE_SCN_MEM_READ)]
    @ (case (initrd_bytes, l_initrd lay) of
         (Some bytes, Some r) \<Rightarrow>
           [payload_section SECTION_INITRD r bytes (IMAGE_SCN_CNT_INITIALIZED_DATA OR IMAGE_SCN_MEM_READ)]
       | _ \<Rightarrow> [])
    @ (case l_bootconfig lay of None \<Rightarrow> []
       | Some r \<Rightarrow> [payload_section SECTION_BOOTCONFIG r [] (IMAGE_SCN_CNT_UNINITIALIZED_DATA OR IMAGE_SCN_MEM_READ)])
    @ (case l_relocs lay of None \<Rightarrow> []
       | Some r \<Rightarrow> [payload_section SECTION_RELOCS r relocs_bytes (IMAGE_SCN_CNT_INITIALIZED_DATA OR IMAGE_SCN_MEM_READ)])
    @ [carried_section SECTION_PMI_VM cbor]"

definition gpas_of :: "layout \<Rightarrow> action_gpas" where
  "gpas_of lay = \<lparr>ag_linux = rstart (l_linux lay), ag_initrd = map_option rstart (l_initrd lay),
     ag_bootconfig = map_option rstart (l_bootconfig lay), ag_relocs = map_option rstart (l_relocs lay)\<rparr>"

section \<open>Actions and sections agree\<close>

fun action_place :: "action \<Rightarrow> u64 \<times> string" where
  "action_place (Load gpa name) = (gpa, name)"
| "action_place (Fill gpa name k) = (gpa, name)"

text \<open>What \<open>arma\<close> relies on in the stub: names occur once, and the header and both
  devicetree targets are there, the host's without data.\<close>

definition stub_ok :: "tatu_image \<Rightarrow> bool" where
  "stub_ok img \<longleftrightarrow> tatu_ok img \<and> distinct (map ts_name (tg_sections img))
    \<and> SECTION_DTB \<in> ts_name ` set (tg_sections img) \<and> BOOTINFO_SECTION \<in> ts_name ` set (tg_sections img)
    \<and> (\<exists>s\<in>set (tg_sections img). ts_name s = SECTION_DTBO \<and> ts_is_nobits s)"

lemma filter_unique:
  assumes "distinct (map f xs)" "s \<in> set xs"
  shows "filter (\<lambda>x. f x = f s) xs = [s]" and "find (\<lambda>x. f x = f s) xs = Some s"
proof -
  have "filter (\<lambda>x. f x = f s) xs = [s] \<and> find (\<lambda>x. f x = f s) xs = Some s"
    using assms
  proof (induction xs)
    case (Cons x xs)
    show ?case
    proof (cases "x = s")
      case True
      then have "f y \<noteq> f s" if "y \<in> set xs" for y using that Cons.prems(1) by (auto simp: image_iff)
      then have "filter (\<lambda>y. f y = f s) xs = []" by (simp add: filter_empty_conv)
      then show ?thesis using True by simp
    next
      case False
      then have "s \<in> set xs" using Cons.prems(2) by simp
      moreover from this have "f x \<noteq> f s" using Cons.prems(1) by (metis distinct.simps(2) image_eqI list.set_map list.simps(9))
      ultimately show ?thesis using Cons by simp
    qed
  qed simp
  then show "filter (\<lambda>x. f x = f s) xs = [s]" "find (\<lambda>x. f x = f s) xs = Some s" by simp_all
qed

lemma mset_take_out:
  assumes "distinct (map f xs)" "a \<in> set xs" "f a = A" "b \<in> set xs" "f b = B" "A \<noteq> B"
  shows "mset xs = mset (filter (\<lambda>x. f x \<noteq> B \<and> (f x = A \<longrightarrow> c)) xs) + mset ((if c then [] else [a]) @ [b])"
proof -
  have "mset xs = mset (filter (\<lambda>x. f x \<noteq> B \<and> (f x = A \<longrightarrow> c)) xs)
      + mset ((if c then [] else filter (\<lambda>x. f x = A) xs) @ filter (\<lambda>x. f x = B) xs)"
    using assms(6) by (induction xs) auto
  then show ?thesis
    using filter_unique(1) [OF assms(1,2)] filter_unique(1) [OF assms(1,4)] by (simp only: assms(3,5))
qed

lemma tatu_loads_places:
  "map action_place (tatu_loads tatu mode) =
    map (\<lambda>s. (ts_vaddr s, ts_name s))
      (filter (\<lambda>s. ts_name s \<noteq> SECTION_DTBO \<and> (ts_name s = SECTION_DTB \<longrightarrow> mode = Attached)) (tg_sections tatu))"
proof -
  have "map action_place (concat (map (\<lambda>s. if ts_name s = SECTION_DTBO then []
      else if ts_name s = SECTION_DTB \<and> mode \<noteq> Attached then [] else [Load (ts_vaddr s) (ts_name s)]) xs)) =
    map (\<lambda>s. (ts_vaddr s, ts_name s))
      (filter (\<lambda>s. ts_name s \<noteq> SECTION_DTBO \<and> (ts_name s = SECTION_DTB \<longrightarrow> mode = Attached)) xs)" for xs
    by (induction xs) auto
  then show ?thesis by (simp add: tatu_loads_def)
qed

lemma names_differ: "SECTION_DTB \<noteq> SECTION_DTBO" "DTB_SECTION = SECTION_DTB" "BOOTINFO_SECTION \<noteq> SECTION_DTB"
  "BOOTINFO_SECTION \<noteq> SECTION_DTBO"
  by (simp_all add: SECTION_DTB_def SECTION_DTBO_def DTB_SECTION_def BOOTINFO_SECTION_def)

text \<open>The places of the payload, on both sides.\<close>

definition payload_places :: "layout \<Rightarrow> (u64 \<times> string) list" where
  "payload_places lay = (rstart (l_linux lay), SECTION_LINUX)
     # map (\<lambda>r. (rstart r, SECTION_INITRD)) (opt_list (l_initrd lay))
     @ map (\<lambda>r. (rstart r, SECTION_BOOTCONFIG)) (opt_list (l_bootconfig lay))
     @ map (\<lambda>r. (rstart r, SECTION_RELOCS)) (opt_list (l_relocs lay))"

lemma action_places:
  "map action_place (build_actions tatu (gpas_of lay) mode) =
    map action_place (tatu_loads tatu mode) @ payload_places lay
    @ (if mode = Attached then [] else [(vaddr_or_0 (tatu_section_named tatu SECTION_DTB), SECTION_DTB)])
    @ [(vaddr_or_0 (tatu_section_named tatu SECTION_DTBO), SECTION_DTBO)]"
  by (cases "l_initrd lay"; cases "l_bootconfig lay"; cases "l_relocs lay")
    (simp_all add: build_actions_def gpas_of_def payload_places_def)

definition loaded_places :: "pe_section list \<Rightarrow> (u64 \<times> string) list" where
  "loaded_places ss = map (\<lambda>s. (sec_vaddr s, sec_name s)) (filter (\<lambda>s. \<not> sec_non_loaded s) ss)"

lemma loaded_places_simps [simp]:
  "loaded_places (xs @ ys) = loaded_places xs @ loaded_places ys" "loaded_places [] = []"
  "loaded_places (payload_section name r data ch # xs) = (rstart r, name) # loaded_places xs"
  "loaded_places (carried_section name data # xs) = loaded_places xs"
  "loaded_places (map (stub_section bi dtb b) ss) = map (\<lambda>s. (ts_vaddr s, ts_name s)) ss"
  by (simp_all add: loaded_places_def payload_section_def carried_section_def stub_section_def comp_def)

lemma section_places:
  assumes "l_initrd lay \<noteq> None \<longrightarrow> initrd_bytes \<noteq> None"
  shows "loaded_places (assemble_sections tatu bi img initrd_bytes relocs dtb lay cbor mode) =
    map (\<lambda>s. (ts_vaddr s, ts_name s)) (tg_sections tatu) @ payload_places lay"
  using assms
  by (cases "l_initrd lay"; cases "l_bootconfig lay"; cases "l_relocs lay"; cases initrd_bytes)
    (simp_all add: assemble_sections_def payload_places_def)

lemma section_names: "SECTION_LINUX \<noteq> SECTION_DTB" "SECTION_INITRD \<noteq> SECTION_DTB" "SECTION_BOOTCONFIG \<noteq> SECTION_DTB"
  "SECTION_RELOCS \<noteq> SECTION_DTB" "SECTION_PMI_VM \<noteq> SECTION_DTB"
  by (simp_all add: SECTION_DTB_def SECTION_LINUX_def SECTION_INITRD_def SECTION_BOOTCONFIG_def SECTION_RELOCS_def
      SECTION_PMI_VM_def)

lemma actions_cover:
  assumes "stub_ok tatu" "l_initrd lay \<noteq> None \<longrightarrow> initrd_bytes \<noteq> None"
  shows "mset (map action_place (build_actions tatu (gpas_of lay) mode)) =
    mset (loaded_places (assemble_sections tatu bi img initrd_bytes relocs dtb lay cbor mode))"
proof -
  let ?f = "\<lambda>s. (ts_vaddr s, ts_name s)" let ?ss = "tg_sections tatu"
  let ?P = "\<lambda>s. ts_name s \<noteq> SECTION_DTBO \<and> (ts_name s = SECTION_DTB \<longrightarrow> mode = Attached)"
  from assms(1) obtain d o' where d: "d \<in> set ?ss" "ts_name d = SECTION_DTB" and o': "o' \<in> set ?ss" "ts_name o' = SECTION_DTBO"
    and dist: "distinct (map ts_name ?ss)" by (auto simp: stub_ok_def)
  have named: "tatu_section_named tatu SECTION_DTB = Some d" "tatu_section_named tatu SECTION_DTBO = Some o'"
    using filter_unique(2) [OF dist d(1), unfolded d(2)] filter_unique(2) [OF dist o'(1), unfolded o'(2)]
    by (simp_all add: tatu_section_named_def)
  have "mset ?ss = mset (filter ?P ?ss) + mset ((if mode = Attached then [] else [d]) @ [o'])"
    by (rule mset_take_out [OF dist d o' names_differ(1)])
  then have "image_mset ?f (mset ?ss) = image_mset ?f (mset (filter ?P ?ss))
      + image_mset ?f (mset ((if mode = Attached then [] else [d]) @ [o']))"
    by (simp only: image_mset_union)
  then have "mset (map ?f ?ss) = mset (map action_place (tatu_loads tatu mode))
      + mset (map ?f ((if mode = Attached then [] else [d]) @ [o']))"
    by (simp only: tatu_loads_places mset_map)
  then show ?thesis
    unfolding action_places section_places [OF assms(2)]
    by (simp add: named vaddr_or_0_def d(2) o'(2))
qed

text \<open>
  C35. The manifest and the sections of the output agree in every channel mode: the actions name
  exactly the loaded sections, each once and at its address; a fill only targets a section without
  data; the base devicetree is in the section that the attribute names, and in none of the stub's
  when the base is detached; the header and the kernel are in their sections.
\<close>

theorem actions_match_sections:
  assumes "stub_ok tatu" "l_initrd lay \<noteq> None \<longrightarrow> initrd_bytes \<noteq> None"
    "ss = assemble_sections tatu bi img initrd_bytes relocs dtb lay cbor mode"
    "acts = build_actions tatu (gpas_of lay) mode"
  shows "mset (map action_place acts) = mset (loaded_places ss)
    \<and> (\<forall>gpa name k. Fill gpa name k \<in> set acts \<longrightarrow>
        (\<exists>s\<in>set ss. sec_name s = name \<and> sec_vaddr s = gpa \<and> is_zero_shape s))
    \<and> (case dtb_attribute mode of
         Some name \<Rightarrow> \<exists>s\<in>set ss. sec_name s = name \<and> sec_data s = dtb
       | None \<Rightarrow> \<forall>s\<in>set ss. sec_name s = SECTION_DTB \<longrightarrow> is_zero_shape s)
    \<and> (\<exists>s\<in>set ss. sec_name s = BOOTINFO_SECTION \<and> sec_data s = bi)
    \<and> (\<exists>s\<in>set ss. sec_name s = SECTION_LINUX \<and> sec_vaddr s = rstart (l_linux lay) \<and> sec_data s = img)"
proof -
  let ?ss = "tg_sections tatu"
  from assms(1) obtain b d o' where b: "b \<in> set ?ss" "ts_name b = BOOTINFO_SECTION"
    and d: "d \<in> set ?ss" "ts_name d = SECTION_DTB"
    and o': "o' \<in> set ?ss" "ts_name o' = SECTION_DTBO" "ts_is_nobits o'"
    and dist: "distinct (map ts_name ?ss)" and ok: "tatu_ok tatu" by (auto simp: stub_ok_def)
  have named: "tatu_section_named tatu SECTION_DTB = Some d" "tatu_section_named tatu SECTION_DTBO = Some o'"
    using filter_unique(2) [OF dist d(1), unfolded d(2)] filter_unique(2) [OF dist o'(1), unfolded o'(2)]
    by (simp_all add: tatu_section_named_def)
  have flags: "ts_is_bootinfo s \<longleftrightarrow> ts_name s = BOOTINFO_SECTION" "ts_is_dtb s \<longleftrightarrow> ts_name s = SECTION_DTB"
    if "s \<in> set ?ss" for s
    using ok that by (simp_all add: tatu_ok_def names_differ(2))
  have stub: "stub_section bi dtb (mode = Attached) s \<in> set ss" if "s \<in> set ?ss" for s
    using that by (simp add: assms(3) assemble_sections_def)
  have one: "mset (map action_place acts) = mset (loaded_places ss)"
    unfolding assms(3,4) by (rule actions_cover [OF assms(1,2)])
  have two: "\<exists>s\<in>set ss. sec_name s = name \<and> sec_vaddr s = gpa \<and> is_zero_shape s"
    if "Fill gpa name k \<in> set acts" for gpa name k
  proof -
    have "Fill gpa name k \<notin> set (tatu_loads tatu mode)" by (auto simp: tatu_loads_def split: if_splits)
    with that consider (boot) r where "Some r = l_bootconfig lay" "gpa = rstart r" "name = SECTION_BOOTCONFIG"
      | (base) "mode \<noteq> Attached" "gpa = ts_vaddr d" "name = SECTION_DTB"
      | (host) "gpa = ts_vaddr o'" "name = SECTION_DTBO"
      by (auto simp: assms(4) build_actions_def gpas_of_def named vaddr_or_0_def split: option.splits if_splits)
    then show ?thesis
    proof cases
      case boot
      then show ?thesis by (force simp: assms(3) assemble_sections_def payload_section_def is_zero_shape_def boot(1) [symmetric])
    next
      case base
      then show ?thesis using stub [OF d(1)] flags [OF d(1)] d(2) names_differ(3)
        by (intro bexI [OF _ stub [OF d(1)]]) (auto simp: stub_section_def stub_data_def is_zero_shape_def)
    next
      case host
      then show ?thesis using flags [OF o'(1)] o'(2,3) names_differ(1,4)
        by (intro bexI [OF _ stub [OF o'(1)]]) (auto simp: stub_section_def stub_data_def is_zero_shape_def)
    qed
  qed
  have three: "case dtb_attribute mode of
      Some name \<Rightarrow> \<exists>s\<in>set ss. sec_name s = name \<and> sec_data s = dtb
    | None \<Rightarrow> \<forall>s\<in>set ss. sec_name s = SECTION_DTB \<longrightarrow> is_zero_shape s"
  proof (cases mode)
    case Attached
    then show ?thesis using flags [OF d(1)] d(2) names_differ(3)
      by (auto simp: dtb_attribute_def stub_section_def stub_data_def intro!: bexI [OF _ stub [OF d(1)]])
  next
    case Detached
    have "is_zero_shape (stub_section bi dtb False s)" if "s \<in> set ?ss" "ts_name s = SECTION_DTB" for s
      using flags [OF that(1)] that(2) names_differ(3) by (auto simp: stub_section_def stub_data_def is_zero_shape_def)
    then show ?thesis using Detached
      by (auto simp: dtb_attribute_def assms(3) assemble_sections_def stub_section_def payload_section_def
          carried_section_def section_names split: option.splits)
  next
    case Optional
    then have "carried_section SECTION_DTB_FALLBACK dtb \<in> set ss" by (simp add: assms(3) assemble_sections_def)
    then show ?thesis using Optional by (force simp: dtb_attribute_def carried_section_def)
  qed
  have four: "\<exists>s\<in>set ss. sec_name s = BOOTINFO_SECTION \<and> sec_data s = bi"
    using flags [OF b(1)] b(2) by (intro bexI [OF _ stub [OF b(1)]]) (simp add: stub_section_def stub_data_def)
  have five: "\<exists>s\<in>set ss. sec_name s = SECTION_LINUX \<and> sec_vaddr s = rstart (l_linux lay) \<and> sec_data s = img"
    by (force simp: assms(3) assemble_sections_def payload_section_def)
  from one two three four five show ?thesis by blast
qed

lemma demo_stub_ok: "stub_ok demo_tatu"
proof -
  have "tatu_ok demo_tatu"
    by (simp add: tatu_ok_def demo_tatu_def demo_section_def)
  then show ?thesis
    by (simp add: stub_ok_def demo_tatu_def demo_section_def SECTION_DTB_def SECTION_DTBO_def BOOTINFO_SECTION_def)
qed

lemma actions_match_sections_witness:
  "let lay = example_layout; ss = assemble_sections demo_tatu [1] [2] (Some [3]) [4] [5] lay [6] Optional;
     acts = build_actions demo_tatu (gpas_of lay) Optional
   in mset (map action_place acts) = mset (loaded_places ss)
    \<and> list_ex (\<lambda>s. sec_name s = SECTION_DTB_FALLBACK \<and> sec_data s = [5]) ss"
  using actions_match_sections [OF demo_stub_ok _ refl refl, where lay = example_layout and initrd_bytes = "Some [3]" and bi = "[1]" and img = "[2]" and relocs = "[4]"
      and dtb = "[5]" and cbor = "[6]" and mode = Optional]
  by (simp add: Let_def dtb_attribute_def list_ex_iff)

end
