(* ===== verification/BaseDtb.thy ===== *)
theory BaseDtb
  imports Planner Devtree Kconfig
begin

text \<open>
  The base devicetree (\<open>src/base_dtb/\<close>): the sequence of calls that is made on the writer of
  the \<open>vm_fdt\<close> crate, and the addresses of the fixed devices. The writer is a function from
  the calls to the blob or its error: every call ends the build when it fails, and no call depends
  on the result of another but for the handles of the nodes, which are written as the node names.
  \<open>tree_of\<close> reads the calls as a tree.
\<close>

datatype fdt_call =
    BeginNode string
  | EndNode string
  | PropertyU32 string u32
  | PropertyU64 string u64
  | PropertyString string string
  | PropertyStringList string "string list"
  | PropertyArrayU32 string "u32 list"
  | PropertyNull string
  | PropertyPhandle u32

record dtb_inputs =
  in_arch :: arch
  in_cmdline :: string
  in_initrd :: "(u64 \<times> u64) option"
  in_serial :: "gpa_range option"
  in_virtio :: "gpa_range list"
  in_ecam :: "gpa_range option"
  in_pci_window :: "gpa_range option"

definition DTB_ECAM_BUSES :: u32 where "DTB_ECAM_BUSES = 16"
definition PCI_MEM64 :: u32 where "PCI_MEM64 = 0x03000000"
definition SERIAL_ALIAS :: string where "SERIAL_ALIAS = ''serial0''"
definition SERIAL_OPTIONS :: string where "SERIAL_OPTIONS = ''115200n8''"

text \<open>A 64-bit value as two cells, and an address with a length.\<close>

definition cells64 :: "u64 \<Rightarrow> u32 list" where
  "cells64 v = [ucast (drop_bit 32 v), ucast v]"

definition reg_cells :: "u64 \<Rightarrow> u64 \<Rightarrow> u32 list" where
  "reg_cells base sz = cells64 base @ cells64 sz"

definition unit_name :: "string \<Rightarrow> u64 \<Rightarrow> string" where
  "unit_name name base = name @ ''@'' @ format_hex base"

section \<open>x86\<close>

definition LAPIC_BASE :: u64 where "LAPIC_BASE = 0xFEE00000"
definition LAPIC_SIZE :: u64 where "LAPIC_SIZE = 0x1000"
definition IOAPIC_BASE :: u64 where "IOAPIC_BASE = 0xFEC00000"
definition IOAPIC_SIZE :: u64 where "IOAPIC_SIZE = 0x1000"
definition LAPIC_PHANDLE :: u32 where "LAPIC_PHANDLE = 1"
definition IOAPIC_PHANDLE :: u32 where "IOAPIC_PHANDLE = 2"
definition SERIAL_CLK_HZ :: u32 where "SERIAL_CLK_HZ = 3686400"
definition SERIAL_CURRENT_SPEED :: u32 where "SERIAL_CURRENT_SPEED = 115200"
definition SERIAL_IOAPIC_PIN :: u32 where "SERIAL_IOAPIC_PIN = 4"
definition POWEROFF_BASE :: u64 where "POWEROFF_BASE = 0xFEC01000"
definition REBOOT_BASE :: u64 where "REBOOT_BASE = 0xFEC02000"
definition SYSCON_REG_SIZE :: u64 where "SYSCON_REG_SIZE = 0x4"
definition VIRTIO_MMIO_PIN_BASE :: u32 where "VIRTIO_MMIO_PIN_BASE = 16"

definition x86_reserved :: "gpa_range list" where
  "x86_reserved =
    [mk_range LAPIC_BASE (LAPIC_BASE + LAPIC_SIZE),
     mk_range IOAPIC_BASE (IOAPIC_BASE + IOAPIC_SIZE),
     mk_range POWEROFF_BASE (POWEROFF_BASE + SYSCON_REG_SIZE),
     mk_range REBOOT_BASE (REBOOT_BASE + SYSCON_REG_SIZE)]"

definition syscon_action :: "string \<Rightarrow> string \<Rightarrow> u64 \<Rightarrow> u32 \<Rightarrow> fdt_call list" where
  "syscon_action name compatible base v =
    (let n = unit_name name base in
     [BeginNode n,
      PropertyString ''compatible'' compatible,
      PropertyArrayU32 ''reg'' (reg_cells base SYSCON_REG_SIZE),
      PropertyU32 ''value'' v,
      EndNode n])"

definition x86_serial :: "gpa_range \<Rightarrow> fdt_call list" where
  "x86_serial serial =
    (let base = rstart serial; sz = rend serial - rstart serial; n = unit_name ''serial'' base in
     [BeginNode n,
      PropertyString ''compatible'' ''ns16550a'',
      PropertyArrayU32 ''reg'' (reg_cells base sz),
      PropertyU32 ''reg-shift'' 2,
      PropertyU32 ''reg-io-width'' 4,
      PropertyU32 ''clock-frequency'' SERIAL_CLK_HZ,
      PropertyU32 ''current-speed'' SERIAL_CURRENT_SPEED,
      PropertyU32 ''interrupt-parent'' IOAPIC_PHANDLE,
      PropertyArrayU32 ''interrupts'' [SERIAL_IOAPIC_PIN, 1],
      EndNode n])"

definition x86_virtio :: "nat \<Rightarrow> gpa_range \<Rightarrow> fdt_call list" where
  "x86_virtio i v =
    (let base = rstart v; sz = rend v - rstart v; pin = VIRTIO_MMIO_PIN_BASE + word_of_nat i;
         n = unit_name ''virtio_mmio'' base in
     [BeginNode n,
      PropertyString ''compatible'' ''virtio,mmio'',
      PropertyArrayU32 ''reg'' (reg_cells base sz),
      PropertyU32 ''interrupt-parent'' IOAPIC_PHANDLE,
      PropertyArrayU32 ''interrupts'' [pin, 1],
      EndNode n])"

definition x86_lapic :: "fdt_call list" where
  "x86_lapic =
    [BeginNode (unit_name ''interrupt-controller'' LAPIC_BASE),
     PropertyString ''compatible'' ''intel,ce4100-lapic'',
     PropertyArrayU32 ''reg'' (reg_cells LAPIC_BASE LAPIC_SIZE),
     PropertyNull ''interrupt-controller'',
     PropertyU32 ''#interrupt-cells'' 2,
     PropertyPhandle LAPIC_PHANDLE,
     EndNode (unit_name ''interrupt-controller'' LAPIC_BASE)]"

definition x86_ioapic :: "fdt_call list" where
  "x86_ioapic =
    [BeginNode (unit_name ''interrupt-controller'' IOAPIC_BASE),
     PropertyString ''compatible'' ''intel,ce4100-ioapic'',
     PropertyU32 ''#interrupt-cells'' 2,
     PropertyNull ''interrupt-controller'',
     PropertyArrayU32 ''reg'' (reg_cells IOAPIC_BASE IOAPIC_SIZE),
     PropertyPhandle IOAPIC_PHANDLE,
     EndNode (unit_name ''interrupt-controller'' IOAPIC_BASE)]"

definition x86_platform :: "dtb_inputs \<Rightarrow> fdt_call list" where
  "x86_platform inputs =
    x86_lapic @ x86_ioapic
    @ syscon_action ''poweroff'' ''syscon-poweroff'' POWEROFF_BASE 0x34
    @ syscon_action ''reboot'' ''syscon-reboot'' REBOOT_BASE 0x1
    @ (case in_serial inputs of None \<Rightarrow> [] | Some serial \<Rightarrow> x86_serial serial)
    @ concat (map (\<lambda>(i, v). x86_virtio i v) (enumerate 0 (in_virtio inputs)))"

section \<open>aarch64\<close>

definition GIC_DIST_BASE :: u64 where "GIC_DIST_BASE = 0x08000000"
definition GIC_DIST_SIZE :: u64 where "GIC_DIST_SIZE = 0x00010000"
definition GIC_REDIST_BASE :: u64 where "GIC_REDIST_BASE = 0x08100000"
definition GIC_REDIST_SIZE :: u64 where "GIC_REDIST_SIZE = 0x02000000"
definition GIC_MSI_BASE :: u64 where "GIC_MSI_BASE = 0x0A100000"
definition GIC_MSI_SIZE :: u64 where "GIC_MSI_SIZE = 0x00010000"
definition SERIAL_SPI :: u32 where "SERIAL_SPI = 1"
definition VIRTIO_MMIO_SPI_BASE :: u32 where "VIRTIO_MMIO_SPI_BASE = 16"
definition INTC_PHANDLE :: u32 where "INTC_PHANDLE = 1"
definition V2M_PHANDLE :: u32 where "V2M_PHANDLE = 3"
definition MSI_INTID_BASE :: u32 where "MSI_INTID_BASE = 64"
definition MSI_INTID_COUNT :: u32 where "MSI_INTID_COUNT = 32"

definition arm_reserved :: "gpa_range list" where
  "arm_reserved =
    [mk_range GIC_DIST_BASE (GIC_DIST_BASE + GIC_DIST_SIZE),
     mk_range GIC_REDIST_BASE (GIC_REDIST_BASE + GIC_REDIST_SIZE),
     mk_range GIC_MSI_BASE (GIC_MSI_BASE + GIC_MSI_SIZE)]"

definition arm_serial :: "gpa_range \<Rightarrow> fdt_call list" where
  "arm_serial serial =
    (let base = rstart serial; sz = rend serial - rstart serial; n = unit_name ''serial'' base in
     [BeginNode n,
      PropertyString ''compatible'' ''ns16550a'',
      PropertyArrayU32 ''reg'' (reg_cells base sz),
      PropertyU32 ''reg-shift'' 2,
      PropertyU32 ''reg-io-width'' 4,
      PropertyU32 ''clock-frequency'' SERIAL_CLK_HZ,
      PropertyU32 ''current-speed'' SERIAL_CURRENT_SPEED,
      PropertyU32 ''interrupt-parent'' INTC_PHANDLE,
      PropertyArrayU32 ''interrupts'' [0, SERIAL_SPI, 4],
      EndNode n])"

definition arm_virtio :: "nat \<Rightarrow> gpa_range \<Rightarrow> fdt_call list" where
  "arm_virtio i v =
    (let base = rstart v; sz = rend v - rstart v; spi = VIRTIO_MMIO_SPI_BASE + word_of_nat i;
         n = unit_name ''virtio_mmio'' base in
     [BeginNode n,
      PropertyString ''compatible'' ''virtio,mmio'',
      PropertyArrayU32 ''reg'' (reg_cells base sz),
      PropertyU32 ''interrupt-parent'' INTC_PHANDLE,
      PropertyArrayU32 ''interrupts'' [0, spi, 1],
      EndNode n])"

definition arm_intc :: "fdt_call list" where
  "arm_intc =
    [BeginNode (unit_name ''interrupt-controller'' GIC_DIST_BASE),
     PropertyString ''compatible'' ''arm,gic-v3'',
     PropertyU32 ''#interrupt-cells'' 3,
     PropertyNull ''interrupt-controller'',
     PropertyArrayU32 ''reg'' (reg_cells GIC_DIST_BASE GIC_DIST_SIZE @ reg_cells GIC_REDIST_BASE GIC_REDIST_SIZE),
     PropertyPhandle INTC_PHANDLE,
     EndNode (unit_name ''interrupt-controller'' GIC_DIST_BASE)]"

definition arm_v2m :: "fdt_call list" where
  "arm_v2m =
    [BeginNode (unit_name ''msi-controller'' GIC_MSI_BASE),
     PropertyString ''compatible'' ''arm,gic-v2m-frame'',
     PropertyNull ''msi-controller'',
     PropertyArrayU32 ''reg'' (reg_cells GIC_MSI_BASE GIC_MSI_SIZE),
     PropertyU32 ''arm,msi-base-spi'' MSI_INTID_BASE,
     PropertyU32 ''arm,msi-num-spis'' MSI_INTID_COUNT,
     PropertyPhandle V2M_PHANDLE,
     EndNode (unit_name ''msi-controller'' GIC_MSI_BASE)]"

definition arm_timer :: "fdt_call list" where
  "arm_timer =
    [BeginNode ''timer'',
     PropertyString ''compatible'' ''arm,armv8-timer'',
     PropertyArrayU32 ''interrupts'' [1, 13, 0xff08, 1, 14, 0xff08, 1, 11, 0xff08, 1, 10, 0xff08],
     PropertyU32 ''interrupt-parent'' INTC_PHANDLE,
     PropertyNull ''always-on'',
     EndNode ''timer'']"

definition arm_psci :: "fdt_call list" where
  "arm_psci =
    [BeginNode ''psci'',
     PropertyStringList ''compatible'' [''arm,psci-1.0'', ''arm,psci-0.2''],
     PropertyString ''method'' ''hvc'',
     EndNode ''psci'']"

definition arm_platform :: "dtb_inputs \<Rightarrow> fdt_call list" where
  "arm_platform inputs =
    arm_intc @ arm_v2m @ arm_timer @ arm_psci
    @ (case in_serial inputs of None \<Rightarrow> [] | Some serial \<Rightarrow> arm_serial serial)
    @ concat (map (\<lambda>(i, v). arm_virtio i v) (enumerate 0 (in_virtio inputs)))"

section \<open>Both\<close>

definition arch_reserved :: "arch \<Rightarrow> gpa_range list" where
  "arch_reserved a = (case a of X86_64 \<Rightarrow> x86_reserved | Aarch64 \<Rightarrow> arm_reserved)"

definition chosen_node :: "dtb_inputs \<Rightarrow> fdt_call list" where
  "chosen_node inputs =
    [BeginNode ''chosen'', PropertyString ''bootargs'' (in_cmdline inputs)]
    @ (case in_serial inputs of None \<Rightarrow> []
       | Some _ \<Rightarrow> [PropertyString ''stdout-path'' (SERIAL_ALIAS @ '':'' @ SERIAL_OPTIONS)])
    @ (case in_initrd inputs of None \<Rightarrow> []
       | Some (gpa, sz) \<Rightarrow>
          [PropertyU64 ''linux,initrd-start'' gpa, PropertyU64 ''linux,initrd-end'' (saturating_add gpa sz)])
    @ [EndNode ''chosen'']"

definition aliases_node :: "dtb_inputs \<Rightarrow> fdt_call list" where
  "aliases_node inputs = (case in_serial inputs of
     None \<Rightarrow> []
   | Some serial \<Rightarrow>
      [BeginNode ''aliases'', PropertyString SERIAL_ALIAS (''/'' @ unit_name ''serial'' (rstart serial)),
       EndNode ''aliases''])"

definition pci_node :: "arch \<Rightarrow> gpa_range \<Rightarrow> gpa_range \<Rightarrow> fdt_call list" where
  "pci_node a ecam window =
    (let ecam_base = rstart ecam; ecam_size = rend ecam - rstart ecam;
         win_base = rstart window; win_size = rend window - rstart window;
         n = unit_name ''pcie'' ecam_base in
     [BeginNode n,
      PropertyString ''compatible'' ''pci-host-ecam-generic'',
      PropertyString ''device_type'' ''pci'',
      PropertyArrayU32 ''reg'' (reg_cells ecam_base ecam_size),
      PropertyArrayU32 ''bus-range'' [0, DTB_ECAM_BUSES - 1],
      PropertyU32 ''#address-cells'' 3,
      PropertyU32 ''#size-cells'' 2,
      PropertyArrayU32 ''ranges'' (PCI_MEM64 # cells64 win_base @ cells64 win_base @ cells64 win_size)]
     @ (if a = Aarch64 then [PropertyNull ''dma-coherent'', PropertyU32 ''msi-parent'' V2M_PHANDLE] else [])
     @ [EndNode n])"

definition base_dtb_calls :: "dtb_inputs \<Rightarrow> fdt_call list" where
  "base_dtb_calls inputs =
    [BeginNode [],
     PropertyU32 ''#address-cells'' 2,
     PropertyU32 ''#size-cells'' 2,
     PropertyString ''model'' ''Arma Virtual Platform'',
     PropertyStringList ''compatible'' [''arma,v1'']]
    @ chosen_node inputs
    @ aliases_node inputs
    @ (case in_arch inputs of X86_64 \<Rightarrow> x86_platform inputs | Aarch64 \<Rightarrow> arm_platform inputs)
    @ (case (in_ecam inputs, in_pci_window inputs) of
         (Some ecam, Some window) \<Rightarrow> pci_node (in_arch inputs) ecam window
       | _ \<Rightarrow> [])
    @ [EndNode []]"

datatype dtb_build_error = FdtError

definition build_base_dtb :: "(fdt_call list \<Rightarrow> bytes option) \<Rightarrow> dtb_inputs \<Rightarrow> dtb_build_error + bytes" where
  "build_base_dtb fdt_writer inputs = ok_or FdtError (fdt_writer (base_dtb_calls inputs))"

section \<open>The calls as a tree\<close>

text \<open>
  The bytes of a property in the devicetree format, and the tree that well-nested calls write: a
  property belongs to the innermost open node and comes before its subnodes.
\<close>

fun call_property :: "fdt_call \<Rightarrow> (string \<times> bytes) option" where
  "call_property (PropertyU32 n v) = Some (n, be_bytes 4 v)"
| "call_property (PropertyU64 n v) = Some (n, be_bytes 8 v)"
| "call_property (PropertyString n s) = Some (n, nul_str s)"
| "call_property (PropertyStringList n ss) = Some (n, concat (map nul_str ss))"
| "call_property (PropertyArrayU32 n vs) = Some (n, u32_cells vs)"
| "call_property (PropertyNull n) = Some (n, [])"
| "call_property (PropertyPhandle v) = Some (''phandle'', be_bytes 4 v)"
| "call_property (BeginNode n) = None"
| "call_property (EndNode n) = None"

type_synonym open_node = "string \<times> (string \<times> bytes) list \<times> dnode list"

fun tree_loop :: "open_node list \<Rightarrow> fdt_call list \<Rightarrow> dnode option" where
  "tree_loop st [] = None"
| "tree_loop [] (c # calls) = (case c of BeginNode n \<Rightarrow> tree_loop [(n, [], [])] calls | _ \<Rightarrow> None)"
| "tree_loop ((name, props, cs) # st) (c # calls) = (case c of
     BeginNode n \<Rightarrow> tree_loop ((n, [], []) # (name, props, cs) # st) calls
   | EndNode n \<Rightarrow>
      if n \<noteq> name then None
      else (case st of
        [] \<Rightarrow> if calls = [] then Some (DNode name props cs) else None
      | (name', props', cs') # st' \<Rightarrow> tree_loop ((name', props', cs' @ [DNode name props cs]) # st') calls)
   | c \<Rightarrow> if cs \<noteq> [] then None
      else (case call_property c of
        None \<Rightarrow> None | Some p \<Rightarrow> tree_loop ((name, props @ [p], cs) # st) calls))"

definition tree_of :: "fdt_call list \<Rightarrow> dnode option" where
  "tree_of calls = tree_loop [] calls"

text \<open>A block of calls writes one leaf; the whole sequence is the root around a list of blocks.\<close>

definition properties :: "fdt_call list \<Rightarrow> bool" where
  "properties calls \<longleftrightarrow> (\<forall>c\<in>set calls. call_property c \<noteq> None)"

definition property_list :: "fdt_call list \<Rightarrow> (string \<times> bytes) list" where
  "property_list calls = map (\<lambda>c. the (call_property c)) calls"

fun block_name :: "fdt_call list \<Rightarrow> string" where
  "block_name (BeginNode n # calls) = n"
| "block_name _ = []"

definition is_block :: "fdt_call list \<Rightarrow> bool" where
  "is_block calls \<longleftrightarrow> calls = BeginNode (block_name calls) # butlast (tl calls) @ [EndNode (block_name calls)]
     \<and> properties (butlast (tl calls))"

definition block_node :: "fdt_call list \<Rightarrow> dnode" where
  "block_node calls = DNode (block_name calls) (property_list (butlast (tl calls))) []"

lemma tree_loop_properties:
  "properties calls \<Longrightarrow> tree_loop ((name, props, []) # st) (calls @ rest) =
    tree_loop ((name, props @ property_list calls, []) # st) rest"
proof (induction calls arbitrary: props)
  case (Cons c calls)
  then have "tree_loop ((name, props, []) # st) (c # calls @ rest) =
      tree_loop ((name, props @ [the (call_property c)], []) # st) (calls @ rest)"
    by (cases c) (auto simp: properties_def)
  also have "\<dots> = tree_loop ((name, props @ property_list (c # calls), []) # st) rest"
    using Cons by (simp add: properties_def property_list_def)
  finally show ?case by simp
qed (simp add: property_list_def)

lemma tree_loop_block:
  assumes "is_block calls"
  shows "tree_loop ((name, props, cs) # st) (calls @ rest) = tree_loop ((name, props, cs @ [block_node calls]) # st) rest"
proof -
  let ?n = "block_name calls" let ?ps = "butlast (tl calls)"
  have c: "calls = BeginNode ?n # ?ps @ [EndNode ?n]" and p: "properties ?ps" using assms by (simp_all add: is_block_def)
  have "tree_loop ((name, props, cs) # st) (calls @ rest)
      = tree_loop ((?n, [], []) # (name, props, cs) # st) (?ps @ EndNode ?n # rest)"
    by (subst (1) c) simp
  then show ?thesis by (simp add: tree_loop_properties [OF p] block_node_def)
qed

lemma tree_loop_blocks:
  "(\<And>b. b \<in> set bs \<Longrightarrow> is_block b) \<Longrightarrow> tree_loop ((name, props, cs) # st) (concat bs @ rest) =
    tree_loop ((name, props, cs @ map block_node bs) # st) rest"
  by (induction bs arbitrary: cs) (simp_all add: tree_loop_block)

lemma tree_of_blocks:
  assumes "properties props" "\<And>b. b \<in> set bs \<Longrightarrow> is_block b"
  shows "tree_of (BeginNode n # props @ concat bs @ [EndNode n]) = Some (DNode n (property_list props) (map block_node bs))"
  using assms by (simp add: tree_of_def tree_loop_properties tree_loop_blocks)

definition platform_blocks :: "dtb_inputs \<Rightarrow> fdt_call list list" where
  "platform_blocks inputs = (case in_arch inputs of
     X86_64 \<Rightarrow>
       [x86_lapic, x86_ioapic, syscon_action ''poweroff'' ''syscon-poweroff'' POWEROFF_BASE 0x34,
        syscon_action ''reboot'' ''syscon-reboot'' REBOOT_BASE 0x1]
       @ map x86_serial (opt_list (in_serial inputs))
       @ map (\<lambda>(i, v). x86_virtio i v) (enumerate 0 (in_virtio inputs))
   | Aarch64 \<Rightarrow>
       [arm_intc, arm_v2m, arm_timer, arm_psci]
       @ map arm_serial (opt_list (in_serial inputs))
       @ map (\<lambda>(i, v). arm_virtio i v) (enumerate 0 (in_virtio inputs)))"

definition pci_blocks :: "dtb_inputs \<Rightarrow> fdt_call list list" where
  "pci_blocks inputs = (case (in_ecam inputs, in_pci_window inputs) of
     (Some ecam, Some window) \<Rightarrow> [pci_node (in_arch inputs) ecam window] | _ \<Rightarrow> [])"

definition base_blocks :: "dtb_inputs \<Rightarrow> fdt_call list list" where
  "base_blocks inputs = chosen_node inputs # map (\<lambda>_. aliases_node inputs) (opt_list (in_serial inputs))
     @ platform_blocks inputs @ pci_blocks inputs"

definition root_properties :: "fdt_call list" where
  "root_properties = [PropertyU32 ''#address-cells'' 2, PropertyU32 ''#size-cells'' 2,
     PropertyString ''model'' ''Arma Virtual Platform'', PropertyStringList ''compatible'' [''arma,v1'']]"

definition base_tree :: "dtb_inputs \<Rightarrow> dnode" where
  "base_tree inputs = DNode [] (property_list root_properties) (map block_node (base_blocks inputs))"

lemma base_calls_blocks:
  "base_dtb_calls inputs = BeginNode [] # root_properties @ concat (base_blocks inputs) @ [EndNode []]"
  by (cases "in_serial inputs"; cases "in_arch inputs"; cases "in_ecam inputs"; cases "in_pci_window inputs")
    (simp_all add: base_dtb_calls_def root_properties_def base_blocks_def platform_blocks_def pci_blocks_def
      x86_platform_def arm_platform_def aliases_node_def)

lemmas block_defs = x86_lapic_def x86_ioapic_def syscon_action_def x86_serial_def x86_virtio_def arm_intc_def
  arm_v2m_def arm_timer_def arm_psci_def arm_serial_def arm_virtio_def pci_node_def aliases_node_def

lemma fixed_blocks:
  "is_block x86_lapic" "is_block x86_ioapic" "is_block (syscon_action name compatible base v)"
  "is_block (x86_serial s)" "is_block (x86_virtio i s)" "is_block arm_intc" "is_block arm_v2m" "is_block arm_timer"
  "is_block arm_psci" "is_block (arm_serial s)" "is_block (arm_virtio i s)" "is_block (pci_node a ecam window)"
  by (auto simp: is_block_def block_defs Let_def properties_def)

lemma base_blocks_ok: "b \<in> set (base_blocks inputs) \<Longrightarrow> is_block b"
proof -
  have "is_block (chosen_node inputs)"
    by (auto simp: chosen_node_def is_block_def properties_def split: option.splits)
  moreover have "Some s = in_serial inputs \<Longrightarrow> is_block (aliases_node inputs)" for s
    by (drule sym) (auto simp: aliases_node_def is_block_def properties_def)
  moreover assume "b \<in> set (base_blocks inputs)"
  ultimately show ?thesis
    using fixed_blocks by (auto simp: base_blocks_def platform_blocks_def pci_blocks_def opt_list_def split: option.splits arch.splits)
qed

lemma base_dtb_tree: "tree_of (base_dtb_calls inputs) = Some (base_tree inputs)"
  unfolding base_calls_blocks base_tree_def
  by (rule tree_of_blocks) (auto simp: base_blocks_ok root_properties_def properties_def)

end
