(* ===== verification/Check.thy ===== *)
theory Check
  imports BaseDtb
begin

text \<open>
  The layout linter (\<open>src/check.rs\<close>): the regions of an image, from its sections and its base
  devicetree, and the problems found in them. The tree is read through the interface of Devtree.
  Printing of the map is left out. Sums of \<open>u64\<close> wrap, as in a release build.
\<close>

datatype region_kind = Device | Window | Burned | Payload

record check_region =
  cr_name :: string
  cr_base :: u64
  cr_size :: u64
  cr_kind :: region_kind

definition TWO_MIB :: u64 where "TWO_MIB = 2 * (1024 * 1024)"

section \<open>Regions of the devicetree (base_device_regions)\<close>

definition cell64 :: "u32 \<Rightarrow> u32 \<Rightarrow> u64" where
  "cell64 hi lo = push_bit 32 (ucast hi) OR ucast lo"

definition reg_region :: "string \<Rightarrow> nat \<times> u32 list \<Rightarrow> check_region list" where
  "reg_region cname x = (case x of (i, chunk) \<Rightarrow>
    let base = cell64 (chunk ! 0) (chunk ! 1); sz = cell64 (chunk ! 2) (chunk ! 3) in
    if sz = 0 then []
    else [\<lparr>cr_name = (if i = 0 then cname else cname @ ''#'' @ format_dec i), cr_base = base, cr_size = sz,
           cr_kind = Device\<rparr>])"

definition reg_regions :: "string \<Rightarrow> u32 list \<Rightarrow> check_region list" where
  "reg_regions cname cs = concat (map (reg_region cname) (enumerate 0 (chunks4 cs)))"

definition window_of :: "u32 list \<Rightarrow> (u64 \<times> u64) option" where
  "window_of c =
    (if 7 \<le> length c then
       let base = cell64 (c ! 3) (c ! 4); sz = cell64 (c ! 5) (c ! 6) in
       if 0 < sz then Some (base, sz) else None
     else None)"

definition child_step ::
  "('n, 'p) dt_view \<Rightarrow> check_region list \<times> (u64 \<times> u64) option \<Rightarrow> 'n
    \<Rightarrow> check_region list \<times> (u64 \<times> u64) option" where
  "child_step V st node = (case st of (regions, window) \<Rightarrow>
    let cname = node_name V node;
        regions = (case node_property V node ''reg'' of
          None \<Rightarrow> regions
        | Some p \<Rightarrow> regions @ reg_regions cname (cells_as_u32s (prop_bytes V p)));
        window = (case node_property V node ''ranges'' of
          None \<Rightarrow> window
        | Some p \<Rightarrow> (case window_of (cells_as_u32s (prop_bytes V p)) of None \<Rightarrow> window | Some w \<Rightarrow> Some w))
    in (regions, window))"

definition window_regions :: "(u64 \<times> u64) option \<Rightarrow> check_region list" where
  "window_regions window = (case window of None \<Rightarrow> []
     | Some (wb, ws) \<Rightarrow>
        [\<lparr>cr_name = ''pcie-bar-window'', cr_base = wb, cr_size = ws, cr_kind = Window\<rparr>,
         \<lparr>cr_name = ''(burned buddy)'', cr_base = wb + ws, cr_size = ws, cr_kind = Burned\<rparr>])"

definition base_device_regions :: "('n, 'p) dt_view \<Rightarrow> check_region list" where
  "base_device_regions V =
    (case foldl (child_step V) ([], None) (node_children V (tree_root V)) of (regions, window) \<Rightarrow>
      regions @ window_regions window)"

section \<open>Regions of an image (run, base_dtb_bytes)\<close>

text \<open>A section as \<open>goblin\<close> gives it (its name may fail to decode), a decoded CBOR value, and the
  three parsers as a parameter.\<close>

record pe_view_section =
  pv_name :: "string option"
  pv_virtual_address :: u32
  pv_virtual_size :: u32
  pv_pointer_to_raw_data :: u32
  pv_size_of_raw_data :: u32

datatype cbor = CborMap "(cbor \<times> cbor) list" | CborText string | CborOther

record ('n, 'p) check_api =
  view_pe :: "bytes \<Rightarrow> pe_view_section list option"
  decode_cbor :: "bytes \<Rightarrow> cbor option"
  view_dtb :: "bytes \<Rightarrow> ('n, 'p) dt_view option"

datatype check_error =
    PeUnreadable
  | NoManifest
  | BadCbor
  | NotAMap
  | NotText
  | NoBaseSection string
  | BadDtb

definition trim_nul :: "string \<Rightarrow> string" where
  "trim_nul s = rev (dropWhile (\<lambda>c. c = CHR 0x00) (rev s))"

definition payload_regions :: "pe_view_section list \<Rightarrow> check_region list" where
  "payload_regions sections = concat (map (\<lambda>s.
     let name = trim_nul (case pv_name s of Some n \<Rightarrow> n | None \<Rightarrow> ''?''); gpa = ucast (pv_virtual_address s) in
     if 0 < gpa then [\<lparr>cr_name = name, cr_base = gpa, cr_size = ucast (pv_virtual_size s), cr_kind = Payload\<rparr>]
     else []) sections)"

definition section_raw :: "bytes \<Rightarrow> pe_view_section list \<Rightarrow> string \<Rightarrow> bytes option" where
  "section_raw bytes sections name =
    Option.bind (find (\<lambda>s. trim_nul (case pv_name s of Some n \<Rightarrow> n | None \<Rightarrow> []) = name) sections) (\<lambda>s.
    let off = unat (pv_pointer_to_raw_data s); len = unat (pv_size_of_raw_data s) in
    get_range bytes off (off + len))"

fun attribute_in :: "(cbor \<times> cbor) list \<Rightarrow> check_error + string option" where
  "attribute_in [] = Inr None"
| "attribute_in ((k, v) # entries) =
    (if k = CborText ''dt:dtb'' then (case v of CborText name \<Rightarrow> Inr (Some name) | _ \<Rightarrow> Inl NotText)
     else attribute_in entries)"

definition dt_dtb_attribute ::
  "('n, 'p) check_api \<Rightarrow> bytes \<Rightarrow> pe_view_section list \<Rightarrow> check_error + string option" where
  "dt_dtb_attribute A bytes sections =
    rbind (ok_or NoManifest (section_raw bytes sections ''.pmi.vm'')) (\<lambda>raw.
    rbind (ok_or BadCbor (decode_cbor A raw)) (\<lambda>v.
    case v of CborMap entries \<Rightarrow> attribute_in entries | _ \<Rightarrow> Inl NotAMap))"

definition bundled_dtb_bytes ::
  "('n, 'p) check_api \<Rightarrow> bytes \<Rightarrow> pe_view_section list \<Rightarrow> check_error + bytes option" where
  "bundled_dtb_bytes A bytes sections =
    rbind (dt_dtb_attribute A bytes sections) (\<lambda>attr.
    case attr of
      None \<Rightarrow> Inr None
    | Some name \<Rightarrow>
       rbind (ok_or (NoBaseSection name) (section_raw bytes sections name)) (\<lambda>raw. Inr (Some raw)))"

definition image_regions :: "('n, 'p) check_api \<Rightarrow> bytes \<Rightarrow> check_error + check_region list" where
  "image_regions A bytes =
    rbind (ok_or PeUnreadable (view_pe A bytes)) (\<lambda>sections.
    rbind (bundled_dtb_bytes A bytes sections) (\<lambda>base.
    case base of
      None \<Rightarrow> Inr (payload_regions sections)
    | Some dtb \<Rightarrow> rbind (ok_or BadDtb (view_dtb A dtb)) (\<lambda>V.
        Inr (payload_regions sections @ base_device_regions V))))"

section \<open>Problems\<close>

datatype problem =
    Overlap check_region check_region
  | WindowSize u64
  | WindowBase u64
  | WindowTop u64
  | AboveWindow check_region u64
  | BeyondSpace check_region u64
  | IslandEdge u64

definition is_power_of_two :: "u64 \<Rightarrow> bool" where
  "is_power_of_two w \<longleftrightarrow> w \<noteq> 0 \<and> w AND (w - 1) = 0"

definition cr_end :: "check_region \<Rightarrow> u64" where
  "cr_end r = cr_base r + cr_size r"

definition overlap_problems :: "check_region list \<Rightarrow> problem list" where
  "overlap_problems regions =
    concat (map (\<lambda>(a, b). if cr_base b < cr_end a then [Overlap a b] else []) (zip regions (tl regions)))"

definition above_problems :: "u64 \<Rightarrow> u64 \<Rightarrow> check_region \<Rightarrow> problem list" where
  "above_problems wb space_top r =
    (if cr_kind r = Window \<or> cr_kind r = Burned then []
     else (if wb \<le> cr_base r then [AboveWindow r wb] else [])
       @ (if space_top < cr_end r then [BeyondSpace r space_top] else []))"

definition window_problems :: "check_region list \<Rightarrow> u64 \<times> u64 \<Rightarrow> problem list" where
  "window_problems regions w = (case w of (wb, ws) \<Rightarrow>
    let space_top = wb + 2 * ws in
    (if \<not> is_power_of_two ws then [WindowSize ws] else if wb mod ws \<noteq> 0 then [WindowBase wb] else [])
    @ (if \<not> is_power_of_two space_top then [WindowTop space_top] else [])
    @ concat (map (above_problems wb space_top) regions))"

definition window_region :: "check_region list \<Rightarrow> (u64 \<times> u64) option" where
  "window_region regions = map_option (\<lambda>r. (cr_base r, cr_size r)) (find (\<lambda>r. cr_kind r = Window) regions)"

definition island :: "check_region list \<Rightarrow> check_region list" where
  "island regions = filter (\<lambda>r. cr_kind r = Device
     \<and> (case window_region regions of None \<Rightarrow> True | Some (wb, _) \<Rightarrow> cr_base r < wb)) regions"

definition island_problems :: "check_region list \<Rightarrow> problem list" where
  "island_problems regions = (case map cr_base (island regions) of
     [] \<Rightarrow> []
   | b # bs \<Rightarrow> let lo = foldl min b bs in if lo mod TWO_MIB \<noteq> 0 then [IslandEdge lo] else [])"

definition problems :: "check_region list \<Rightarrow> problem list" where
  "problems regions =
    (let regions = sort_key cr_base regions in
     overlap_problems regions
     @ (case window_region regions of None \<Rightarrow> [] | Some w \<Rightarrow> window_problems regions w)
     @ island_problems regions)"

text \<open>The whole check: the problems of an image, none of them when it is clean.\<close>

definition run_check :: "('n, 'p) check_api \<Rightarrow> bytes \<Rightarrow> check_error + problem list" where
  "run_check A bytes = rbind (image_regions A bytes) (\<lambda>regions. Inr (problems regions))"

section \<open>The base devicetree declares the plan\<close>

lemma cell64_cells64 [simp]: "cell64 (ucast (drop_bit 32 v)) (ucast v) = v"
proof (rule bit_word_eqI)
  fix n assume "n < LENGTH(64)"
  then show "bit (cell64 (ucast (drop_bit 32 v)) (ucast v)) n \<longleftrightarrow> bit v n"
    by (auto simp: cell64_def bit_simps)
qed

lemma cells_as_u32s_cells [simp]: "cells_as_u32s (u32_cells ws) = ws"
proof (induction ws)
  case (Cons w ws)
  have "length (be_bytes 4 w) = Suc (Suc (Suc (Suc 0)))" by simp
  then obtain a b c d where "be_bytes 4 w = [a, b, c, d]"
    unfolding length_Suc_conv by auto
  moreover from this have "from_be [a, b, c, d] = w" using from_be_be_bytes_full [of 4 w] by simp
  ultimately show ?case using Cons by (simp add: cells_as_u32s_def u32_cells_def)
qed (simp add: cells_as_u32s_def u32_cells_def)

definition range_region :: "region_kind \<Rightarrow> gpa_range \<Rightarrow> u64 \<times> u64 \<times> region_kind" where
  "range_region k r = (rstart r, rend r - rstart r, k)"

definition region_shape :: "check_region \<Rightarrow> u64 \<times> u64 \<times> region_kind" where
  "region_shape r = (cr_base r, cr_size r, cr_kind r)"

definition burned_of :: "gpa_range \<Rightarrow> gpa_range" where
  "burned_of w = mk_range (rend w) (rend w + (rend w - rstart w))"

lemma reg_regions_one: "z \<noteq> 0 \<Longrightarrow> map region_shape (reg_regions n (reg_cells b z)) = [(b, z, Device)]"
  by (simp add: reg_regions_def reg_cells_def cells64_def reg_region_def region_shape_def)

lemma reg_regions_two:
  "z \<noteq> 0 \<Longrightarrow> z' \<noteq> 0 \<Longrightarrow> map region_shape (reg_regions n (reg_cells b z @ reg_cells b' z')) = [(b, z, Device), (b', z', Device)]"
  by (simp add: reg_regions_def reg_cells_def cells64_def reg_region_def region_shape_def)

lemma window_of_cells: "z \<noteq> 0 \<Longrightarrow> window_of (c # cells64 b @ cells64 b @ cells64 z) = Some (b, z)"
  by (simp add: window_of_def cells64_def word_neq_0_conv)

text \<open>What a block adds.\<close>

definition block_regs :: "fdt_call list \<Rightarrow> u32 list option" where
  "block_regs b = map_option (\<lambda>p. cells_as_u32s (snd p)) (prop_of (block_node b) ''reg'')"

definition block_ranges :: "fdt_call list \<Rightarrow> u32 list option" where
  "block_ranges b = map_option (\<lambda>p. cells_as_u32s (snd p)) (prop_of (block_node b) ''ranges'')"

lemma child_step_block:
  "child_step (dt_tree t) (rs, w) (block_node b) =
    (rs @ (case block_regs b of None \<Rightarrow> [] | Some cs \<Rightarrow> reg_regions (block_name b) cs),
     case block_ranges b of None \<Rightarrow> w | Some cs \<Rightarrow> (case window_of cs of None \<Rightarrow> w | Some x \<Rightarrow> Some x))"
  by (simp add: child_step_def block_regs_def block_ranges_def dt_tree_def block_node_def Let_def split: option.splits)

lemmas property_defs = block_regs_def block_ranges_def block_node_def prop_of_def property_list_def

lemma fixed_regs:
  "block_regs x86_lapic = Some (reg_cells LAPIC_BASE LAPIC_SIZE)" "block_regs x86_ioapic = Some (reg_cells IOAPIC_BASE IOAPIC_SIZE)"
  "block_regs (syscon_action name compatible base v) = Some (reg_cells base SYSCON_REG_SIZE)"
  "block_regs (x86_serial s) = Some (reg_cells (rstart s) (rend s - rstart s))"
  "block_regs (x86_virtio i s) = Some (reg_cells (rstart s) (rend s - rstart s))"
  "block_regs arm_intc = Some (reg_cells GIC_DIST_BASE GIC_DIST_SIZE @ reg_cells GIC_REDIST_BASE GIC_REDIST_SIZE)"
  "block_regs arm_v2m = Some (reg_cells GIC_MSI_BASE GIC_MSI_SIZE)" "block_regs arm_timer = None" "block_regs arm_psci = None"
  "block_regs (arm_serial s) = Some (reg_cells (rstart s) (rend s - rstart s))"
  "block_regs (arm_virtio i s) = Some (reg_cells (rstart s) (rend s - rstart s))"
  "block_regs (pci_node a ecam window) = Some (reg_cells (rstart ecam) (rend ecam - rstart ecam))"
  by (simp_all add: property_defs block_defs Let_def butlast_append)

lemma fixed_ranges:
  "block_ranges x86_lapic = None" "block_ranges x86_ioapic = None" "block_ranges (syscon_action name compatible base v) = None"
  "block_ranges (x86_serial s) = None" "block_ranges (x86_virtio i s) = None" "block_ranges arm_intc = None"
  "block_ranges arm_v2m = None" "block_ranges arm_timer = None" "block_ranges arm_psci = None"
  "block_ranges (arm_serial s) = None" "block_ranges (arm_virtio i s) = None"
  "block_ranges (pci_node a ecam window) =
    Some (PCI_MEM64 # cells64 (rstart window) @ cells64 (rstart window) @ cells64 (rend window - rstart window))"
  by (simp_all add: property_defs block_defs Let_def butlast_append)

lemma other_blocks:
  "block_regs (chosen_node inputs) = None" "block_ranges (chosen_node inputs) = None"
  "in_serial inputs = Some s \<Longrightarrow> block_regs (aliases_node inputs) = None"
  "in_serial inputs = Some s \<Longrightarrow> block_ranges (aliases_node inputs) = None"
  by (auto simp: property_defs chosen_node_def aliases_node_def SERIAL_ALIAS_def butlast_append split: option.splits)

definition block_shapes :: "fdt_call list \<Rightarrow> (u64 \<times> u64 \<times> region_kind) list" where
  "block_shapes b = (case block_regs b of None \<Rightarrow> [] | Some cs \<Rightarrow> map region_shape (reg_regions (block_name b) cs))"

lemma child_fold:
  "\<forall>b\<in>set bs. block_ranges b = None \<Longrightarrow> foldl (child_step (dt_tree t)) (rs, w) (map block_node bs) =
    (rs @ concat (map (\<lambda>b. case block_regs b of None \<Rightarrow> [] | Some cs \<Rightarrow> reg_regions (block_name b) cs) bs), w)"
  by (induction bs arbitrary: rs) (simp_all add: child_step_block)

lemma concat_shapes:
  "map region_shape (concat (map (\<lambda>b. case block_regs b of None \<Rightarrow> [] | Some cs \<Rightarrow> reg_regions (block_name b) cs) bs))
    = concat (map block_shapes bs)"
  by (induction bs) (auto simp: block_shapes_def split: option.splits)

text \<open>The ranges are not empty: what the planner assigns has a positive size.\<close>

definition nonempty :: "gpa_range \<Rightarrow> bool" where
  "nonempty r \<longleftrightarrow> rend r - rstart r \<noteq> 0"

definition inputs_ok :: "dtb_inputs \<Rightarrow> bool" where
  "inputs_ok inp \<longleftrightarrow> list_all nonempty (opt_list (in_serial inp) @ in_virtio inp @ opt_list (in_ecam inp) @ opt_list (in_pci_window inp))
     \<and> (in_ecam inp = None \<longleftrightarrow> in_pci_window inp = None)"

lemma shapes:
  "nonempty s \<Longrightarrow> block_shapes (x86_serial s) = [range_region Device s]"
  "nonempty s \<Longrightarrow> block_shapes (arm_serial s) = [range_region Device s]"
  "nonempty s \<Longrightarrow> block_shapes (x86_virtio i s) = [range_region Device s]"
  "nonempty s \<Longrightarrow> block_shapes (arm_virtio i s) = [range_region Device s]"
  "nonempty s \<Longrightarrow> block_shapes (pci_node a s w) = [range_region Device s]"
  by (simp_all add: block_shapes_def fixed_regs reg_regions_one nonempty_def range_region_def)

lemma fixed_shapes:
  "concat (map block_shapes [x86_lapic, x86_ioapic, syscon_action n c POWEROFF_BASE v, syscon_action n' c' REBOOT_BASE v'])
    = map (range_region Device) x86_reserved"
  "concat (map block_shapes [arm_intc, arm_v2m, arm_timer, arm_psci]) = map (range_region Device) arm_reserved"
proof -
  have ne: "LAPIC_SIZE \<noteq> 0" "IOAPIC_SIZE \<noteq> 0" "SYSCON_REG_SIZE \<noteq> 0" "GIC_DIST_SIZE \<noteq> 0" "GIC_REDIST_SIZE \<noteq> 0" "GIC_MSI_SIZE \<noteq> 0"
    by (simp_all add: LAPIC_SIZE_def IOAPIC_SIZE_def SYSCON_REG_SIZE_def GIC_DIST_SIZE_def GIC_REDIST_SIZE_def GIC_MSI_SIZE_def)
  show "concat (map block_shapes [x86_lapic, x86_ioapic, syscon_action n c POWEROFF_BASE v, syscon_action n' c' REBOOT_BASE v'])
    = map (range_region Device) x86_reserved"
    by (simp add: block_shapes_def fixed_regs reg_regions_one ne range_region_def x86_reserved_def)
  show "concat (map block_shapes [arm_intc, arm_v2m, arm_timer, arm_psci]) = map (range_region Device) arm_reserved"
    by (simp add: block_shapes_def fixed_regs reg_regions_one reg_regions_two ne range_region_def arm_reserved_def)
qed

lemma virtio_shapes:
  assumes "\<And>i s. nonempty s \<Longrightarrow> block_shapes (f i s) = [range_region Device s]" "list_all nonempty vs"
  shows "concat (map block_shapes (map (\<lambda>(i, v). f i v) (enumerate k vs))) = map (range_region Device) vs"
  using assms(2) by (induction vs arbitrary: k) (simp_all add: assms(1))

lemma platform_shapes:
  assumes "inputs_ok inp"
  shows "concat (map block_shapes (platform_blocks inp))
    = map (range_region Device) (arch_reserved (in_arch inp) @ opt_list (in_serial inp) @ in_virtio inp)"
proof -
  have v: "list_all nonempty (in_virtio inp)" "list_all nonempty (opt_list (in_serial inp))" using assms by (simp_all add: inputs_ok_def)
  have s: "concat (map block_shapes (map f (opt_list (in_serial inp)))) = map (range_region Device) (opt_list (in_serial inp))"
    if "\<And>s. nonempty s \<Longrightarrow> block_shapes (f s) = [range_region Device s]" for f
    using v(2) that by (cases "in_serial inp") simp_all
  show ?thesis
    by (cases "in_arch inp") (simp_all only: platform_blocks_def arch.simps map_append concat_append fixed_shapes
      virtio_shapes [OF shapes(3) v(1)] virtio_shapes [OF shapes(4) v(1)] s [OF shapes(1)] s [OF shapes(2)]
      arch_reserved_def append_assoc)
qed

lemma platform_no_ranges: "\<forall>b\<in>set (platform_blocks inp). block_ranges b = None"
  by (auto simp: platform_blocks_def fixed_ranges split: arch.splits)

lemma base_tree_regions:
  assumes "inputs_ok inp"
  shows "map region_shape (base_device_regions (dt_tree (base_tree inp))) =
      map (range_region Device) (arch_reserved (in_arch inp) @ opt_list (in_serial inp) @ in_virtio inp @ opt_list (in_ecam inp))
      @ concat (map (\<lambda>w. [range_region Window w, range_region Burned (burned_of w)]) (opt_list (in_pci_window inp)))"
proof -
  let ?t = "base_tree inp" let ?step = "child_step (dt_tree ?t)"
  let ?bs = "chosen_node inp # map (\<lambda>_. aliases_node inp) (opt_list (in_serial inp)) @ platform_blocks inp"
  have nr: "\<forall>b\<in>set ?bs. block_ranges b = None"
    using platform_no_ranges other_blocks by (cases "in_serial inp") auto
  have sh: "concat (map block_shapes ?bs)
      = map (range_region Device) (arch_reserved (in_arch inp) @ opt_list (in_serial inp) @ in_virtio inp)"
  proof -
    have "concat (map block_shapes (map (\<lambda>_. aliases_node inp) (opt_list (in_serial inp)))) = []"
      by (cases "in_serial inp") (simp_all add: block_shapes_def other_blocks)
    then show ?thesis using platform_shapes [OF assms] by (simp add: block_shapes_def other_blocks)
  qed
  define rs where "rs = concat (map (\<lambda>b. case block_regs b of None \<Rightarrow> [] | Some cs \<Rightarrow> reg_regions (block_name b) cs) ?bs)"
  have rs: "map region_shape rs
      = map (range_region Device) (arch_reserved (in_arch inp) @ opt_list (in_serial inp) @ in_virtio inp)"
    unfolding rs_def concat_shapes sh ..
  have f: "foldl ?step ([], None) (map block_node ?bs) = (rs, None)" using child_fold [OF nr] by (simp add: rs_def)
  have kids: "node_children (dt_tree ?t) (tree_root (dt_tree ?t)) = map block_node ?bs @ map block_node (pci_blocks inp)"
    by (simp add: dt_tree_def base_tree_def base_blocks_def)
  have "base_device_regions (dt_tree ?t) =
      (case foldl ?step (rs, None) (map block_node (pci_blocks inp)) of (rs, w) \<Rightarrow> rs @ window_regions w)"
    by (simp only: base_device_regions_def kids foldl_append f)
  moreover have "map region_shape (case foldl ?step (rs, None) (map block_node (pci_blocks inp)) of (rs, w) \<Rightarrow> rs @ window_regions w)
    = map region_shape rs @ map (range_region Device) (opt_list (in_ecam inp))
      @ concat (map (\<lambda>w. [range_region Window w, range_region Burned (burned_of w)]) (opt_list (in_pci_window inp)))"
  proof (cases "in_ecam inp")
    case None
    then show ?thesis using assms by (simp add: inputs_ok_def pci_blocks_def window_regions_def)
  next
    case (Some e)
    then obtain w where w: "in_pci_window inp = Some w" using assms by (auto simp: inputs_ok_def)
    with Some assms have ne: "nonempty e" "rend w - rstart w \<noteq> 0" by (simp_all add: inputs_ok_def nonempty_def)
    show ?thesis using shapes(5) [OF ne(1), of "in_arch inp" w]
      by (simp add: Some w pci_blocks_def child_step_block fixed_ranges fixed_regs window_of_cells [OF ne(2)] window_regions_def
          region_shape_def range_region_def burned_of_def block_shapes_def)
  qed
  ultimately show ?thesis by (simp add: rs)
qed

text \<open>
  C36. The base devicetree declares the plan: the calls write a tree, and the devices that
  \<open>arma check\<close> finds in it are, in order, the reserved ranges of the architecture, the serial
  port, the virtio transports and the ECAM of the plan, followed by the BAR window and its burned
  buddy.
\<close>

theorem base_dtb_declares_plan:
  assumes "inputs_ok inp"
  shows "\<exists>t. tree_of (base_dtb_calls inp) = Some t \<and>
    map region_shape (base_device_regions (dt_tree t)) =
      map (range_region Device) (arch_reserved (in_arch inp) @ opt_list (in_serial inp) @ in_virtio inp @ opt_list (in_ecam inp))
      @ concat (map (\<lambda>w. [range_region Window w, range_region Burned (burned_of w)]) (opt_list (in_pci_window inp)))"
  using base_dtb_tree base_tree_regions [OF assms] by blast

section \<open>What a clean layout is\<close>

definition region_cells :: "check_region \<Rightarrow> nat set" where
  "region_cells r = {unat (cr_base r)..<unat (cr_base r) + unat (cr_size r)}"

definition regions_apart :: "check_region \<Rightarrow> check_region \<Rightarrow> bool" where
  "regions_apart a b \<longleftrightarrow> region_cells a \<inter> region_cells b = {}"

definition region_fits :: "check_region \<Rightarrow> bool" where
  "region_fits r \<longleftrightarrow> 0 < unat (cr_size r) \<and> unat (cr_base r) + unat (cr_size r) < 2 ^ 64"

definition before :: "check_region \<Rightarrow> check_region \<Rightarrow> bool" where
  "before a b \<longleftrightarrow> unat (cr_base a) + unat (cr_size a) \<le> unat (cr_base b)"

lemma sorted_wrt_insort_key:
  assumes "symp R"
  shows "sorted_wrt R (insort_key f x xs) \<longleftrightarrow> sorted_wrt R (x # xs)"
proof (induction xs)
  case (Cons y ys)
  then show ?case using assms by (auto simp: set_insort_key dest: sympD)
qed simp

lemma sorted_wrt_sort_key: "symp R \<Longrightarrow> sorted_wrt R (sort_key f xs) \<longleftrightarrow> sorted_wrt R xs"
  by (induction xs) (simp_all add: sorted_wrt_insort_key del: sorted_wrt.simps(2), simp)

lemma unat_cr_end: "region_fits r \<Longrightarrow> unat (cr_end r) = unat (cr_base r) + unat (cr_size r)"
  by (simp add: region_fits_def cr_end_def unat_word_ariths)

lemma overlap_problems_Nil:
  "\<forall>r\<in>set rs. region_fits r \<Longrightarrow> overlap_problems rs = [] \<longleftrightarrow> successively before rs"
proof (induction rs rule: induct_list012)
  case (3 x y zs)
  have "cr_base y < cr_end x \<longleftrightarrow> \<not> before x y"
    using 3(3) by (auto simp: before_def word_less_nat_alt unat_cr_end)
  with 3 show ?case by (simp add: overlap_problems_def)
qed (simp_all add: overlap_problems_def)

lemma successively_before: "successively before rs \<longleftrightarrow> sorted_wrt before rs"
  by (intro successively_conv_sorted_wrt transpI) (auto simp: before_def)

lemma sorted_before_apart:
  "sorted (map cr_base rs) \<Longrightarrow> \<forall>r\<in>set rs. region_fits r \<Longrightarrow> sorted_wrt before rs \<longleftrightarrow> sorted_wrt regions_apart rs"
proof (induction rs)
  case (Cons a rs)
  have "before a b \<longleftrightarrow> regions_apart a b" if "b \<in> set rs" for b
  proof -
    have "unat (cr_base a) \<le> unat (cr_base b)" using Cons.prems(1) that by (simp add: word_le_nat_alt)
    moreover have "0 < unat (cr_size b)" "0 < unat (cr_size a)" using Cons.prems(2) that by (simp_all add: region_fits_def)
    ultimately show ?thesis by (auto simp: before_def regions_apart_def region_cells_def disjoint_iff)
  qed
  with Cons show ?case by simp
qed simp

lemma overlap_problems_iff:
  assumes "\<forall>r\<in>set rs. region_fits r"
  shows "overlap_problems (sort_key cr_base rs) = [] \<longleftrightarrow> sorted_wrt regions_apart rs"
proof -
  have "symp regions_apart" by (rule sympI) (auto simp: regions_apart_def)
  then show ?thesis
    using assms by (simp add: overlap_problems_Nil successively_before sorted_before_apart sorted_wrt_sort_key)
qed

lemma pow2_nat:
  fixes n :: nat
  shows "0 < n \<Longrightarrow> n AND (n - 1) = 0 \<longleftrightarrow> (\<exists>k. n = 2 ^ k)"
proof (induction n rule: less_induct)
  case (less n)
  show ?case
  proof (cases "odd n")
    case True
    then obtain m where n: "n = 2 * m + 1" by (auto elim: oddE)
    have "n AND (n - 1) = 2 * m" by (simp add: n and_rec [of "Suc (2 * m)"])
    moreover have "(\<exists>k. 2 * m + 1 = 2 ^ k) \<longleftrightarrow> m = 0"
    proof
      assume "\<exists>k. 2 * m + 1 = 2 ^ k"
      then obtain k where k: "2 * m + 1 = 2 ^ k" ..
      have "odd ((2 :: nat) ^ k)" unfolding k [symmetric] by simp
      then have "k = 0" by simp
      with k show "m = 0" by simp
    qed (auto intro: exI [of _ 0])
    ultimately show ?thesis by (simp add: n)
  next
    case False
    then obtain m where n: "n = 2 * m" "0 < m" using less.prems by auto
    have "(2 * m - 1) div 2 = m - 1" using n(2) by linarith
    then have "n AND (n - 1) = 2 * (m AND (m - 1))" using n by (simp add: and_rec [of "2 * m"])
    moreover have "(\<exists>k. 2 * m = 2 ^ k) \<longleftrightarrow> (\<exists>k. m = 2 ^ k)"
    proof
      assume "\<exists>k. 2 * m = 2 ^ k"
      then obtain k where k: "2 * m = 2 ^ k" ..
      then show "\<exists>k. m = 2 ^ k" using n(2) by (cases k) auto
    next
      assume "\<exists>k. m = 2 ^ k"
      then show "\<exists>k. 2 * m = 2 ^ k" by (metis power_Suc)
    qed
    ultimately show ?thesis using less.IH [of m] n by simp
  qed
qed

lemma is_power_of_two_iff: "is_power_of_two w \<longleftrightarrow> (\<exists>k. unat w = 2 ^ k)"
proof (cases "w = 0")
  case False
  then have "unat (w AND (w - 1)) = unat w AND (unat w - 1)"
    by (simp add: unsigned_and_eq unat_sub word_le_nat_alt unat_gt_0 Suc_le_eq)
  moreover have "0 < unat w" using False by (simp add: unat_gt_0)
  ultimately show ?thesis using pow2_nat [of "unat w"] False
    by (simp add: is_power_of_two_def flip: unat_eq_zero)
qed (auto simp: is_power_of_two_def)

text \<open>The reference: what the linter is for.\<close>

definition window_sane :: "check_region list \<Rightarrow> check_region \<Rightarrow> bool" where
  "window_sane rs w \<longleftrightarrow>
    (\<exists>b x. unat (cr_size w) = 2 ^ b \<and> unat (cr_base w) + 2 * 2 ^ b = 2 ^ x)
    \<and> (\<forall>r\<in>set rs. cr_kind r \<in> {Device, Payload} \<longrightarrow> unat (cr_base r) + unat (cr_size r) \<le> unat (cr_base w))"

definition island_sane :: "check_region list \<Rightarrow> bool" where
  "island_sane rs \<longleftrightarrow> (island rs \<noteq> [] \<longrightarrow> 2 ^ 21 dvd unat (Min (cr_base ` set (island rs))))"

lemma find_filter: "find P xs = (case filter P xs of [] \<Rightarrow> None | x # _ \<Rightarrow> Some x)"
  by (induction xs) auto

lemma window_region_sort:
  assumes "filter (\<lambda>r. cr_kind r = Window) rs = opt_list mw"
  shows "window_region (sort_key cr_base rs) = map_option (\<lambda>r. (cr_base r, cr_size r)) mw"
    and "window_region rs = map_option (\<lambda>r. (cr_base r, cr_size r)) mw"
proof -
  have "filter (\<lambda>r. cr_kind r = Window) (sort_key cr_base rs) = opt_list mw"
    unfolding filter_sort assms by (cases mw) simp_all
  then show "window_region (sort_key cr_base rs) = map_option (\<lambda>r. (cr_base r, cr_size r)) mw"
    by (cases mw) (simp_all add: window_region_def find_filter)
  show "window_region rs = map_option (\<lambda>r. (cr_base r, cr_size r)) mw"
    using assms by (cases mw) (simp_all add: window_region_def find_filter)
qed

lemma set_island_sort:
  assumes "filter (\<lambda>r. cr_kind r = Window) rs = opt_list mw"
  shows "set (island (sort_key cr_base rs)) = set (island rs)"
  unfolding island_def window_region_sort [OF assms] by simp

lemma foldl_min: "foldl min (b :: 'a :: linorder) bs = Min (set (b # bs))"
proof (induction bs arbitrary: b)
  case (Cons a bs)
  have "Min (set (min b a # bs)) = Min (set (b # a # bs))"
    by (cases "bs = []") (simp_all add: min.assoc)
  then show ?case using Cons by simp
qed simp

lemma TWO_MIB_dvd: "lo mod TWO_MIB = 0 \<longleftrightarrow> 2 ^ 21 dvd unat lo"
proof -
  have "unat (lo mod TWO_MIB) = unat lo mod 2 ^ 21" by (simp add: unat_mod TWO_MIB_def)
  then show ?thesis by (metis dvd_eq_mod_eq_0 unat_eq_zero)
qed

lemma island_problems_iff:
  assumes "filter (\<lambda>r. cr_kind r = Window) rs = opt_list mw"
  shows "island_problems (sort_key cr_base rs) = [] \<longleftrightarrow> island_sane rs"
proof -
  let ?is = "island (sort_key cr_base rs)"
  have set: "set ?is = set (island rs)" by (rule set_island_sort [OF assms])
  show ?thesis
  proof (cases "map cr_base ?is")
    case Nil
    then show ?thesis using set by (simp add: island_problems_def island_sane_def)
  next
    case (Cons b bs)
    then have "set (b # bs) = cr_base ` set (island rs)" by (metis list.set_map set)
    moreover have "island rs \<noteq> []" using Cons set by (metis list.simps(3,8) set_empty)
    ultimately show ?thesis
      by (simp add: island_problems_def island_sane_def Cons foldl_min TWO_MIB_dvd Let_def del: list.set)
  qed
qed

lemma window_problems_iff:
  assumes fits: "\<forall>r\<in>set rs. region_fits r" and apart: "sorted_wrt regions_apart rs"
    and w: "filter (\<lambda>r. cr_kind r = Window) rs = [w]" and top: "unat (cr_base w) + 2 * unat (cr_size w) < 2 ^ 64"
  shows "window_problems (sort_key cr_base rs) (cr_base w, cr_size w) = [] \<longleftrightarrow> window_sane rs w"
proof -
  let ?b = "unat (cr_base w)" let ?s = "unat (cr_size w)"
  have ut: "unat (cr_base w + 2 * cr_size w) = ?b + 2 * ?s"
    using top by (simp add: unat_word_ariths mod_add_right_eq)
  have win: "w \<in> set rs" "cr_kind w = Window" using arg_cong [OF w, of set] by auto
  have geo: "is_power_of_two (cr_size w) \<and> cr_base w mod cr_size w = 0 \<and> is_power_of_two (cr_base w + 2 * cr_size w)
      \<longleftrightarrow> (\<exists>b x. ?s = 2 ^ b \<and> ?b + 2 * 2 ^ b = 2 ^ x)" (is "?l \<longleftrightarrow> ?r")
  proof
    assume ?r
    then obtain b x where bx: "?s = 2 ^ b" "?b + 2 * 2 ^ b = 2 ^ x" by blast
    then have "(2::nat) ^ Suc b \<le> 2 ^ x" by (metis le_add2 power_Suc)
    then have "Suc b \<le> x" by (rule power_le_imp_le_exp [rotated]) simp
    then have "(2::nat) ^ b dvd 2 ^ x" by (simp add: le_imp_power_dvd)
    moreover have "(2::nat) ^ b dvd 2 * 2 ^ b" by simp
    ultimately have "2 ^ b dvd ?b" using bx(2) by (metis dvd_add_left_iff)
    then have "unat (cr_base w mod cr_size w) = 0" by (simp add: unat_mod bx(1))
    then show ?l using bx ut by (auto simp: is_power_of_two_iff unat_eq_zero)
  qed (auto simp: is_power_of_two_iff ut)
  have "concat (map (above_problems (cr_base w) (cr_base w + 2 * cr_size w)) (sort_key cr_base rs)) = []
    \<longleftrightarrow> (\<forall>r\<in>set rs. cr_kind r \<in> {Device, Payload} \<longrightarrow> unat (cr_base r) + unat (cr_size r) \<le> ?b)"
  proof -
    have "above_problems (cr_base w) (cr_base w + 2 * cr_size w) r = []
      \<longleftrightarrow> (cr_kind r \<in> {Device, Payload} \<longrightarrow> unat (cr_base r) + unat (cr_size r) \<le> ?b)" if r: "r \<in> set rs" for r
    proof (cases "cr_kind r \<in> {Device, Payload}")
      case True
      then have "r \<noteq> w" using win(2) by auto
      then have "regions_apart r w"
        using apart r win(1) by (metis (no_types, lifting) Int_commute in_set_conv_nth linorder_neqE_nat regions_apart_def sorted_wrt_nth_less)
      moreover have "region_fits r" "region_fits w" using fits r win(1) by simp_all
      ultimately show ?thesis using True ut unat_cr_end [of r]
        by (auto simp: above_problems_def regions_apart_def region_cells_def region_fits_def disjoint_iff word_le_nat_alt
            word_less_nat_alt)
    next
      case False
      then show ?thesis by (cases "cr_kind r") (simp_all add: above_problems_def)
    qed
    then show ?thesis by simp
  qed
  moreover have "window_problems (sort_key cr_base rs) (cr_base w, cr_size w) = [] \<longleftrightarrow>
      (is_power_of_two (cr_size w) \<and> cr_base w mod cr_size w = 0 \<and> is_power_of_two (cr_base w + 2 * cr_size w))
      \<and> concat (map (above_problems (cr_base w) (cr_base w + 2 * cr_size w)) (sort_key cr_base rs)) = []"
    unfolding window_problems_def Let_def prod.case append_is_Nil_conv by (simp del: concat_eq_Nil_conv)
  ultimately show ?thesis unfolding window_sane_def geo by blast
qed

lemma problems_Nil_iff:
  assumes "\<forall>r\<in>set rs. region_fits r" "filter (\<lambda>r. cr_kind r = Window) rs = opt_list mw"
    "\<forall>w\<in>set (opt_list mw). unat (cr_base w) + 2 * unat (cr_size w) < 2 ^ 64"
  shows "problems rs = [] \<longleftrightarrow>
    sorted_wrt regions_apart rs \<and> (\<forall>w\<in>set (opt_list mw). window_sane rs w) \<and> island_sane rs"
proof -
  note w = window_region_sort [OF assms(2)] and i = island_problems_iff [OF assms(2)]
  have "problems rs = [] \<longleftrightarrow> sorted_wrt regions_apart rs
      \<and> (case mw of None \<Rightarrow> True | Some w \<Rightarrow> window_problems (sort_key cr_base rs) (cr_base w, cr_size w) = [])
      \<and> island_sane rs"
    by (auto simp: problems_def Let_def overlap_problems_iff [OF assms(1)] i w split: option.splits)
  also have "\<dots> \<longleftrightarrow> sorted_wrt regions_apart rs \<and> (\<forall>w\<in>set (opt_list mw). window_sane rs w) \<and> island_sane rs"
    using assms window_problems_iff [OF assms(1)] by (cases mw) auto
  finally show ?thesis .
qed


definition demo_inputs :: dtb_inputs where
  "demo_inputs = \<lparr>in_arch = X86_64, in_cmdline = ''quiet'', in_initrd = Some (0x8000000, 0x200000),
     in_serial = Some (mk_range 0x3FFF000000 0x3FFF001000), in_virtio = [mk_range 0x3FFF001000 0x3FFF001200],
     in_ecam = Some (mk_range 0x3FFE000000 0x3FFF000000), in_pci_window = Some (mk_range 0x4000000000 0x6000000000)\<rparr>"

lemma base_dtb_declares_plan_witness:
  "\<exists>t. tree_of (base_dtb_calls demo_inputs) = Some t \<and>
    map region_shape (base_device_regions (dt_tree t)) =
      map (range_region Device) (x86_reserved @ [mk_range 0x3FFF000000 0x3FFF001000, mk_range 0x3FFF001000 0x3FFF001200,
        mk_range 0x3FFE000000 0x3FFF000000])
      @ [(0x4000000000, 0x2000000000, Window), (0x6000000000, 0x2000000000, Burned)]"
proof -
  have "inputs_ok demo_inputs" by (simp add: inputs_ok_def demo_inputs_def nonempty_def)
  from base_dtb_declares_plan [OF this] show ?thesis
    by (simp add: demo_inputs_def arch_reserved_def range_region_def burned_of_def)
qed

definition demo_regions :: "check_region list" where
  "demo_regions =
    [\<lparr>cr_name = ''.linux'', cr_base = 0x200000, cr_size = 0x1000, cr_kind = Payload\<rparr>,
     \<lparr>cr_name = ''ioapic'', cr_base = 0x400000, cr_size = 0x1000, cr_kind = Device\<rparr>,
     \<lparr>cr_name = ''.initrd'', cr_base = 0x200800, cr_size = 0x1000, cr_kind = Payload\<rparr>]"


end
