(* ===== verification/Sane.thy ===== *)
theory Sane
  imports Assemble Check
begin

text \<open>
  The layout of a built image passes \<open>arma check\<close>: the planner's placement, the sections of
  the output and the devices of the base devicetree taken together.
\<close>

section \<open>What the plan gives\<close>

lemma plan_linux:
  assumes "plan_bounded p" "plan p = Inr lay"
  shows "2 ^ 21 dvd unat (rstart (l_linux lay))"
    and "unat (rend (l_linux lay)) = unat (rstart (l_linux lay)) + unat (k_size (p_kernel p))"
proof -
  obtain occ where k: "plan_kernel (p_kernel p) occ = Inr (l_linux lay)"
    by (rule plan_InrE [OF assms(2)])
  obtain j where "k_align (p_kernel p) = 2 ^ j" "j \<le> 40" using assms(1) unfolding plan_bounded_def by blast
  then obtain n where n: "max (k_align (p_kernel p)) GRAN = 2 ^ n" "21 \<le> n" "n \<le> 40"
    using max_align_pow2 [of j] by auto
  have f: "first_fit (k_min_gpa (p_kernel p)) (k_size (p_kernel p)) (2 ^ n) occ ''kernel'' = Inr (l_linux lay)"
    using k n(1) by (simp add: plan_kernel_def)
  have "n < 64" using n(3) by simp
  from first_fit_fits [OF f this] show "unat (rend (l_linux lay)) = unat (rstart (l_linux lay)) + unat (k_size (p_kernel p))"
    by simp
  have "(2::nat) ^ 21 dvd 2 ^ n" using n(2) by (rule le_imp_power_dvd)
  with first_fit_fits(2) [OF f \<open>n < 64\<close>] show "2 ^ 21 dvd unat (rstart (l_linux lay))" by (rule dvd_trans [rotated])
qed

lemma plan_relocs_place:
  assumes "plan p = Inr lay" "l_relocs lay = Some r"
  obtains sz where "p_relocs_size p = Some sz" "0 < sz" "2 ^ 21 dvd unat (rstart r)"
    "unat (rend r) = unat (rstart r) + unat sz"
proof -
  obtain occ where "plan_relocs (p_relocs_size p) occ = Inr (l_relocs lay)" by (rule plan_InrE [OF assms(1)])
  then obtain sz where sz: "p_relocs_size p = Some sz" "0 < sz" "first_fit 0 sz (2 ^ 21) occ ''relocs'' = Inr r"
    using assms(2) by (auto simp: plan_relocs_def result_simps GRAN_pow2(1) split: option.splits if_splits)
  from first_fit_fits(2,3) [OF sz(3)] that [OF sz(1,2)] show ?thesis by simp
qed

lemma plan_archive:
  assumes "plan_bounded p" "plan p = Inr lay"
  shows "(case l_initrd lay of
      None \<Rightarrow> l_bootconfig lay = None
    | Some a \<Rightarrow> \<exists>sz. p_initrd_size p = Some sz \<and> 0 < sz \<and> 2 ^ 21 dvd unat (rstart a)
        \<and> unat (rend a) = unat (rstart a) + (unat sz + (2 ^ 21 - 1)) div 2 ^ 21 * 2 ^ 21
        \<and> (\<forall>f\<in>set (opt_list (l_bootconfig lay)). rstart f = rend a \<and> unat (rend f) = unat (rstart f) + 2 ^ 21))"
proof -
  let ?o1 = "occ_start p (l_pci_window lay)" let ?o2 = "?o1 @ [round_out (l_linux lay)]"
  obtain carved where W: "plan_window (p_args p) = Inr (l_pci_window lay)"
    and K: "plan_kernel (p_kernel p) ?o1 = Inr (l_linux lay)"
    and I: "plan_initrd (p_initrd_size p) (p_bootconfig p) ?o2 = Inr (l_initrd lay, l_bootconfig lay, carved)"
    by (rule plan_InrE [OF assms(2)]) (simp add: occ_start_def)
  have le: "(2::nat) ^ 62 + 2 ^ 61 \<le> 2 ^ 63" by simp
  show ?thesis
  proof (cases "p_initrd_size p = None \<or> p_initrd_size p = Some 0")
    case True
    then show ?thesis using I plan_initrd_None [OF True, of "p_bootconfig p" ?o2] by simp
  next
    case False
    then obtain sz where sz: "p_initrd_size p = Some sz" "0 < sz" by (auto simp: word_gt_0)
    have "unat sz \<le> 2 ^ 60" using bounded_initrd [OF assms(1)] sz(1) by simp
    have "\<exists>a (hull :: gpa_range). l_initrd lay = Some a \<and> 2 ^ 21 dvd unat (rstart a)
      \<and> unat (rend a) = unat (rstart a) + (unat sz + (2 ^ 21 - 1)) div 2 ^ 21 * 2 ^ 21
      \<and> l_bootconfig lay = (if p_bootconfig p then Some (mk_range (rend a) (rend hull)) else None)
      \<and> unat (rend hull) = unat (rend a) + (if p_bootconfig p then 2 ^ 21 else 0)"
      by (rule plan_initrd_Some [OF I [unfolded sz(1)] sz(2) \<open>unat sz \<le> 2 ^ 60\<close>
            kernel_footprint(3) [OF assms(1) W K] le]) (intro exI conjI, assumption+)
    then show ?thesis using sz by auto
  qed
qed

text \<open>The device band: a run of nonempty ranges from a granule on, below the window.\<close>

lemma carve_virtio_nonempty: "r \<in> set (carve_virtio n cur) \<Longrightarrow> rend r - rstart r = VIRTIO_SIZE"
  by (induction n cur rule: carve_virtio.induct) auto

lemma plan_devices:
  assumes "plan_bounded p" "plan p = Inr lay"
  defines "H \<equiv> (2::nat) ^ (unat (a_addr_space_bits (p_args p)) - 1)"
  shows "\<exists>base e. chain base (devices lay) e \<and> unat e \<le> H \<and> 2 ^ 21 dvd unat base
    \<and> (\<forall>d\<in>set (devices lay). rend d - rstart d \<noteq> 0)"
    and "l_ecam lay = None \<longleftrightarrow> l_pci_window lay = None"
proof -
  let ?a = "p_args p"
  obtain occ where W: "plan_window ?a = Inr (l_pci_window lay)"
    and B: "plan_band ?a occ = Inr (l_serial lay, l_virtio lay, l_ecam lay)"
    by (rule plan_InrE [OF assms(2)])
  let ?H = "shl64 1 (a_addr_space_bits ?a - 1)" let ?B = "fst (band_geometry ?a)"
  have H: "unat ?H = H"
    using bounded_addr(1,2) [OF assms(1)] unat_addr_minus_1 [of "a_addr_space_bits ?a"] by (simp add: unat_shl64_1 H_def)
  have ne: "SERIAL_SIZE \<noteq> 0" "VIRTIO_SIZE \<noteq> 0" "ECAM_SIZE \<noteq> 0"
    by (simp_all add: SERIAL_SIZE_def VIRTIO_SIZE_def ECAM_SIZE_def ECAM_BUSES_def ECAM_PER_BUS_def)
  have "(\<exists>base e. chain base (devices lay) e \<and> unat e \<le> H \<and> 2 ^ 21 dvd unat base
      \<and> (\<forall>d\<in>set (devices lay). rend d - rstart d \<noteq> 0)) \<and> (l_ecam lay = None \<longleftrightarrow> a_pci_slots ?a = 0)"
  proof (cases "?B > 0")
    case True
    then obtain base where base: "checked_sub ?H ?B = Some base"
      and carve: "carve_band ?a base = (l_serial lay, l_virtio lay, l_ecam lay)"
      using B by (auto simp: plan_band_def Let_def result_simps split: if_splits)
    from base have ub: "unat base = unat ?H - unat ?B" "unat ?B \<le> unat ?H" by (auto simp: checked_simps)
    have le: "band_bytes ?a \<le> unat ?B" unfolding unat_band_size by (rule round_up_nat_ge) simp
    have "unat base + band_bytes ?a < 2 ^ 64" using le ub unat_u64_less [of ?H] by linarith
    from carve_band_chain [OF carve this] obtain e where ch: "chain base (devices lay) e"
      and e: "unat e = unat base + band_bytes ?a" by (auto simp: devices_def)
    have "unat e \<le> H" using e le ub H by linarith
    moreover have "2 ^ 21 dvd unat base"
    proof -
      have "22 \<le> unat (a_addr_space_bits ?a)" using assms(1) unfolding plan_bounded_def by blast
      then have "(2::nat) ^ 21 dvd H" unfolding H_def by (intro le_imp_power_dvd) simp
      moreover have "2 ^ 21 dvd unat ?B" unfolding unat_band_size by simp
      ultimately show ?thesis using ub H by (simp add: dvd_diff_nat)
    qed
    moreover have "rend d - rstart d \<noteq> 0" if d: "d \<in> set (devices lay)" for d
    proof -
      define c where "c = (if a_pci_slots ?a > 0 then base + ECAM_SIZE else base)"
      define c' where "c' = (if a_serial ?a then c + SERIAL_SIZE else c)"
      have "l_ecam lay = (if a_pci_slots ?a > 0 then Some (mk_range base (base + ECAM_SIZE)) else None)"
        "l_serial lay = (if a_serial ?a then Some (mk_range c (c + SERIAL_SIZE)) else None)"
        "l_virtio lay = carve_virtio (unat (a_mmio_slots ?a)) c'"
        using carve by (auto simp: carve_band_def c_def c'_def split: if_splits)
      then consider "d = mk_range base (base + ECAM_SIZE)" | "d = mk_range c (c + SERIAL_SIZE)"
        | "d \<in> set (carve_virtio (unat (a_mmio_slots ?a)) c')"
        using d by (auto simp: devices_def split: if_splits)
      then show ?thesis using carve_virtio_nonempty ne by cases auto
    qed
    moreover have "l_ecam lay = None \<longleftrightarrow> a_pci_slots ?a = 0"
    proof -
      have "l_ecam lay = (if a_pci_slots ?a > 0 then Some (mk_range base (base + ECAM_SIZE)) else None)"
        using carve by (auto simp: carve_band_def split: if_splits)
      then show ?thesis by (simp add: word_gt_0)
    qed
    ultimately show ?thesis using ch by blast
  next
    case False
    then have d: "l_serial lay = None" "l_virtio lay = []" "l_ecam lay = None"
      using B by (simp_all add: plan_band_def Let_def)
    have "a_pci_slots ?a = 0"
    proof (rule ccontr)
      assume "a_pci_slots ?a \<noteq> 0"
      then have "2 ^ 24 \<le> band_bytes ?a" by (simp add: band_bytes_def word_neq_0_conv)
      also have "\<dots> \<le> unat ?B" unfolding unat_band_size by (rule round_up_nat_ge) simp
      finally show False using False by (simp add: word_less_nat_alt)
    qed
    moreover have "chain 0 (devices lay) 0" by (simp add: devices_def d)
    ultimately show ?thesis using d by (intro conjI exI [of _ 0]) (simp_all add: devices_def)
  qed
  moreover have "l_pci_window lay = None \<longleftrightarrow> a_pci_slots ?a = 0"
    using W by (cases "l_pci_window lay") (auto simp: plan_window_def Let_def word_gt_0 split: if_splits)
  ultimately show "\<exists>base e. chain base (devices lay) e \<and> unat e \<le> H \<and> 2 ^ 21 dvd unat base
    \<and> (\<forall>d\<in>set (devices lay). rend d - rstart d \<noteq> 0)" "l_ecam lay = None \<longleftrightarrow> l_pci_window lay = None"
    by blast+
qed

section \<open>What the header of a section says\<close>

definition data_pages :: "nat \<Rightarrow> nat" where
  "data_pages n = (n + 0xFFF) div 0x1000 * 0x1000"

definition header_size :: "pe_section \<Rightarrow> nat" where
  "header_size s = (if is_zero_shape s then unat (sec_virtual_size s)
     else max (unat (sec_virtual_size s)) (data_pages (length (sec_data s))))"

definition section_region :: "pe_section \<Rightarrow> check_region" where
  "section_region s = \<lparr>cr_name = sec_name s, cr_base = sec_vaddr s, cr_size = word_of_nat (header_size s),
     cr_kind = Payload\<rparr>"

definition loaded_sections :: "pe_section list \<Rightarrow> pe_section list" where
  "loaded_sections ss = filter (\<lambda>s. \<not> sec_non_loaded s) ss"

definition section_regions :: "pe_section list \<Rightarrow> check_region list" where
  "section_regions ss = map section_region (filter (\<lambda>s. sec_vaddr s \<noteq> 0) (loaded_sections ss))"

definition pe_fits :: "pe_section list \<Rightarrow> bool" where
  "pe_fits ss \<longleftrightarrow> (\<forall>s\<in>set (loaded_sections ss). unat (sec_vaddr s) < 2 ^ 32 \<and> header_size s < 2 ^ 32)"

definition section_extent :: "pe_section \<Rightarrow> nat set" where
  "section_extent s = {unat (sec_vaddr s)..<unat (sec_vaddr s) + header_size s}"

lemma section_region_cells: "header_size s < 2 ^ 32 \<Longrightarrow> region_cells (section_region s) = section_extent s"
  by (simp add: region_cells_def section_region_def section_extent_def unat_of_nat)

lemma data_pages_le: "0x1000 dvd m \<Longrightarrow> n \<le> m \<Longrightarrow> data_pages n \<le> m"
  using round_up_nat_least [where v = n and a = 4096 and g = m] by (simp add: data_pages_def)

text \<open>A payload in a range that starts on a granule stays in the granules of the range.\<close>

definition upright :: "gpa_range \<Rightarrow> bool" where
  "upright r \<longleftrightarrow> unat (rstart r) < unat (rend r) \<and> unat (rend r) \<le> 2 ^ 63"

lemma unat_extent: "unat (rstart r) \<le> unat (rend r) \<Longrightarrow> unat (rend r - rstart r) = unat (rend r) - unat (rstart r)"
  by (simp add: unat_sub word_le_nat_alt)

lemma payload_extent:
  assumes "upright r" "2 ^ 21 dvd unat (rstart r)" "length data \<le> unat (rend r) - unat (rstart r)"
  shows "section_extent (payload_section name r data ch) \<subseteq> cells (round_out r)"
proof -
  let ?a = "unat (rstart r)" let ?b = "unat (rend r)" let ?s = "payload_section name r data ch"
  have b: "?a < ?b" "?b \<le> 2 ^ 63" using assms(1) by (simp_all add: upright_def)
  define e where "e = unat (rend (round_out r))"
  have e: "e = (?b + (2 ^ 21 - 1)) div 2 ^ 21 * 2 ^ 21"
    unfolding e_def using b by (intro unat_rend_round_out) simp
  have start: "unat (rstart (round_out r)) = ?a" using assms(2) unat_rstart_round_out [of r] by simp
  have be: "?b \<le> e" unfolding e by (rule round_up_nat_ge) simp
  have "(2::nat) ^ 21 dvd e" by (simp add: e)
  then have "2 ^ 21 dvd e - ?a" using assms(2) by (simp add: dvd_diff_nat)
  moreover have "(0x1000::nat) dvd 2 ^ 21" by simp
  ultimately have "0x1000 dvd e - ?a" by (rule dvd_trans [rotated])
  then have "data_pages (length data) \<le> e - ?a" using assms(3) be by (intro data_pages_le) simp_all
  moreover have "unat (sec_virtual_size ?s) = ?b - ?a" using b(1) by (simp add: payload_section_def unat_extent)
  ultimately have "header_size ?s \<le> e - ?a" using be by (simp add: header_size_def payload_section_def)
  moreover have "?a \<le> e" using b(1) be by simp
  ultimately show ?thesis
    unfolding section_extent_def cells_def start e_def [symmetric] by (auto simp: payload_section_def)
qed

lemma empty_payload_extent:
  "upright r \<Longrightarrow> section_extent (payload_section name r [] ch) = cells r"
  by (auto simp: section_extent_def payload_section_def header_size_def is_zero_shape_def unat_extent upright_def cells_def)

lemma round_out_cells_aligned:
  assumes "upright r" "2 ^ 21 dvd unat (rstart r)" "2 ^ 21 dvd unat (rend r)"
  shows "cells (round_out r) = cells r"
proof -
  have "(unat (rend r) + (2 ^ 21 - 1)) div 2 ^ 21 * 2 ^ 21 = unat (rend r)"
    using assms(3) by (elim dvdE) simp
  then show ?thesis using assms(1,2) unat_rend_round_out [of r] unat_rstart_round_out [of r]
    by (simp add: cells_def upright_def)
qed

section \<open>The stub\<close>

definition stub_placed :: "arch \<Rightarrow> tatu_image \<Rightarrow> bool" where
  "stub_placed a tatu \<longleftrightarrow> sorted_wrt apart (tatu_reserved tatu @ arch_reserved a)
     \<and> (\<forall>s\<in>set (tg_sections tatu). 0x1000 dvd unat (ts_virtual_size s)
          \<and> unat (ts_vaddr s) + unat (ts_virtual_size s) \<le> 2 ^ 32)"

definition stub_room :: "bytes \<Rightarrow> bytes \<Rightarrow> bool \<Rightarrow> tatu_image \<Rightarrow> bool" where
  "stub_room bi dtb bundle tatu \<longleftrightarrow> length bi \<le> 0x1000
     \<and> (bundle \<longrightarrow> (\<forall>s\<in>set (tg_sections tatu). ts_name s = SECTION_DTB \<longrightarrow> length dtb \<le> unat (ts_virtual_size s)))"

lemma stub_extent:
  assumes "tatu_ok tatu" "stub_placed a tatu" "stub_room bi dtb b tatu" "s \<in> set (tg_sections tatu)"
  shows "section_extent (stub_section bi dtb b s) = cells (mk_range (ts_vaddr s) (ts_vaddr s + ts_virtual_size s))"
proof -
  let ?v = "unat (ts_virtual_size s)"
  have dvd: "0x1000 dvd ?v" and fit: "unat (ts_vaddr s) + ?v \<le> 2 ^ 32"
    using assms(2,4) by (simp_all add: stub_placed_def)
  have ok: "ts_virtual_size s \<noteq> 0" "length (ts_data s) = (if ts_is_nobits s then 0 else ?v)"
    "ts_is_dtb s \<longleftrightarrow> ts_name s = SECTION_DTB" using assms(1,4) by (simp_all add: tatu_ok_def names_differ(2))
  have "0 < ?v" using ok(1) by (simp add: unat_gt_0)
  then have "0x1000 \<le> ?v" using dvd by (simp add: dvd_imp_le)
  then have "length (stub_data bi dtb b s) \<le> ?v"
    using assms(3,4) ok by (auto simp: stub_data_def stub_room_def)
  then have "data_pages (length (stub_data bi dtb b s)) \<le> ?v" by (rule data_pages_le [OF dvd])
  then have "header_size (stub_section bi dtb b s) = ?v" by (simp add: header_size_def stub_section_def)
  moreover have "unat (ts_vaddr s + ts_virtual_size s) = unat (ts_vaddr s) + ?v" using fit by (intro unat_add_u64) simp
  ultimately show ?thesis by (simp add: section_extent_def cells_def) (simp add: stub_section_def)
qed


section \<open>Regions that are clean\<close>

definition shape_cells :: "u64 \<times> u64 \<times> region_kind \<Rightarrow> nat set" where
  "shape_cells s = {unat (fst s)..<unat (fst s) + unat (fst (snd s))}"

lemma region_cells_shape: "region_cells r = shape_cells (region_shape r)"
  by (simp add: region_cells_def shape_cells_def region_shape_def)

lemma range_region_cells: "upright g \<Longrightarrow> shape_cells (range_region k g) = cells g"
  by (simp add: shape_cells_def range_region_def cells_def upright_def unat_extent)

lemma regions_apart_shapes:
  "sorted_wrt regions_apart rs \<longleftrightarrow> sorted_wrt (\<lambda>x y. shape_cells x \<inter> shape_cells y = {}) (map region_shape rs)"
  by (simp add: sorted_wrt_map regions_apart_def [abs_def] region_cells_shape)

text \<open>The regions of a tree, split into devices and the window with its buddy.\<close>

lemma tree_shapes_split:
  assumes "map region_shape ds = map (range_region Device) gs
      @ concat (map (\<lambda>w. [range_region Window w, range_region Burned (burned_of w)]) (opt_list mw))"
  obtains dg dw where "ds = dg @ dw" "map region_shape dg = map (range_region Device) gs"
    "map region_shape dw = concat (map (\<lambda>w. [range_region Window w, range_region Burned (burned_of w)]) (opt_list mw))"
proof -
  from assms obtain dg dw where "ds = dg @ dw" "map (range_region Device) gs = map region_shape dg"
    "concat (map (\<lambda>w. [range_region Window w, range_region Burned (burned_of w)]) (opt_list mw)) = map region_shape dw"
    unfolding map_eq_append_conv by (elim exE conjE)
  then show ?thesis using that by metis
qed

lemma device_of_shapes:
  assumes "map region_shape dg = map (range_region Device) gs" "\<forall>g\<in>set gs. upright g" "r \<in> set dg"
  obtains g where "g \<in> set gs" "cr_kind r = Device" "cr_base r = rstart g" "region_cells r = cells g"
    "unat (cr_base r) + unat (cr_size r) = unat (rend g)" "0 < unat (cr_size r)"
proof -
  have "region_shape r \<in> range_region Device ` set gs" using assms(1,3) by (metis image_eqI image_set)
  then obtain g where g: "g \<in> set gs" "region_shape r = range_region Device g" by blast
  then have "upright g" using assms(2) by blast
  then show ?thesis
    using that [OF g(1)] g(2) range_region_cells [of g Device]
    by (simp add: region_cells_shape) (simp add: region_shape_def range_region_def unat_extent upright_def)
qed

lemma devices_apart:
  assumes "map region_shape dg = map (range_region Device) gs" "\<forall>g\<in>set gs. upright g" "sorted_wrt apart gs"
  shows "sorted_wrt regions_apart dg"
proof -
  have "sorted_wrt (\<lambda>x y. shape_cells (range_region Device x) \<inter> shape_cells (range_region Device y) = {}) gs"
    using assms(3) by (rule sorted_wrt_mono_rel [rotated]) (use assms(2) in \<open>simp add: range_region_cells apart_def\<close>)
  then show ?thesis by (simp add: regions_apart_shapes assms(1) sorted_wrt_map)
qed

definition window_top :: "gpa_range \<Rightarrow> u64" where
  "window_top w = rstart w + 2 * (rend w - rstart w)"

lemma window_of_shapes:
  assumes "map region_shape dw = [range_region Window w, range_region Burned (burned_of w)]"
    "unat (rstart w) = H" "unat (rend w) = H + 2 ^ b" "2 * 2 ^ b \<le> H" "H \<le> 2 ^ 62"
  obtains x y where "dw = [x, y]" "cr_kind x = Window" "cr_kind y = Burned" "region_fits x" "region_fits y"
    "unat (cr_base x) = H" "unat (cr_size x) = 2 ^ b" "unat (cr_base y) = H + 2 ^ b" "regions_apart x y"
    "cr_base x + 2 * cr_size x = window_top w"
proof -
  from assms(1) obtain x y where dw: "dw = [x, y]" "region_shape x = range_region Window w"
    "region_shape y = range_region Burned (burned_of w)" by (auto simp: map_eq_Cons_conv)
  have sz: "unat (rend w - rstart w) = 2 ^ b" using assms(2,3) by (subst unat_extent) simp_all
  have burned: "rend (burned_of w) - rstart (burned_of w) = rend w - rstart w" "rstart (burned_of w) = rend w"
    by (simp_all add: burned_of_def)
  have b: "(2::nat) ^ b \<le> 2 ^ 61" using assms(4,5) by simp
  show ?thesis
    using dw sz burned assms b
    by (intro that [of x y]) (simp_all add: region_shape_def range_region_def region_fits_def regions_apart_def region_cells_def window_top_def)
qed


lemma island_low:
  assumes "set (island rs) = set dg" "map region_shape dg = map (range_region Device) gs"
    "gs \<noteq> [] \<longrightarrow> (\<exists>m\<in>set gs. 2 ^ 21 dvd unat (rstart m) \<and> (\<forall>g\<in>set gs. rstart m \<le> rstart g))"
  shows "island_sane rs"
  unfolding island_sane_def
proof
  assume "island rs \<noteq> []"
  then have "dg \<noteq> []" using assms(1) by auto
  then have "gs \<noteq> []" using assms(2) by auto
  then obtain m where m: "m \<in> set gs" "2 ^ 21 dvd unat (rstart m)" "\<forall>g\<in>set gs. rstart m \<le> rstart g"
    using assms(3) by blast
  have "map fst (map region_shape dg) = map rstart gs" by (simp add: assms(2) range_region_def)
  then have "map cr_base dg = map rstart gs" by (simp add: region_shape_def comp_def)
  then have "cr_base ` set (island rs) = rstart ` set gs" by (metis assms(1) list.set_map)
  moreover have "Min (rstart ` set gs) = rstart m" using m by (intro Min_eqI) auto
  ultimately show "2 ^ 21 dvd unat (Min (cr_base ` set (island rs)))" using m(2) by simp
qed

text \<open>Payload and devices below \<open>H\<close>.\<close>

definition low_ok :: "nat \<Rightarrow> check_region list \<Rightarrow> check_region list \<Rightarrow> bool" where
  "low_ok H ps dg \<longleftrightarrow> sorted_wrt regions_apart (ps @ dg)
     \<and> (\<forall>r\<in>set (ps @ dg). region_fits r \<and> unat (cr_base r) + unat (cr_size r) \<le> H)
     \<and> (\<forall>r\<in>set ps. cr_kind r = Payload) \<and> (\<forall>r\<in>set dg. cr_kind r = Device)"

definition sections_low :: "nat \<Rightarrow> pe_section list \<Rightarrow> bool" where
  "sections_low H ss \<longleftrightarrow>
     (\<forall>s\<in>set ss. 0 < header_size s \<and> header_size s < 2 ^ 32 \<and> unat (sec_vaddr s) + header_size s \<le> H)
     \<and> sorted_wrt (\<lambda>s t. section_extent s \<inter> section_extent t = {}) ss"

definition devices_low :: "nat \<Rightarrow> gpa_range list \<Rightarrow> bool" where
  "devices_low H gs \<longleftrightarrow> (\<forall>g\<in>set gs. upright g \<and> unat (rend g) \<le> H) \<and> sorted_wrt apart gs
     \<and> (gs \<noteq> [] \<longrightarrow> (\<exists>m\<in>set gs. 2 ^ 21 dvd unat (rstart m) \<and> (\<forall>g\<in>set gs. rstart m \<le> rstart g)))"

lemma section_region_low:
  assumes "sections_low H ss" "H \<le> 2 ^ 62" "s \<in> set ss"
  shows "region_fits (section_region s)" "cr_kind (section_region s) = Payload"
    "unat (cr_base (section_region s)) + unat (cr_size (section_region s)) \<le> H"
    "region_cells (section_region s) = section_extent s"
proof -
  have h: "0 < header_size s" "header_size s < 2 ^ 32" "unat (sec_vaddr s) + header_size s \<le> H"
    using assms(1,3) unfolding sections_low_def by blast+
  moreover from h(2) have "unat (word_of_nat (header_size s) :: u64) = header_size s" by (simp add: unat_of_nat)
  ultimately show "region_fits (section_region s)" "cr_kind (section_region s) = Payload"
    "unat (cr_base (section_region s)) + unat (cr_size (section_region s)) \<le> H"
    "region_cells (section_region s) = section_extent s"
    using assms(2) section_region_cells [OF h(2)] by (simp_all add: region_fits_def section_region_def)
qed

lemma low_ok_regions:
  assumes secs: "sections_low H ss" and gs: "devices_low H gs" and H: "H \<le> 2 ^ 62"
    and dg: "map region_shape dg = map (range_region Device) gs"
    and cross: "\<forall>s\<in>set ss. \<forall>g\<in>set gs. section_extent s \<inter> cells g = {}"
  shows "low_ok H (map section_region ss) dg"
proof -
  let ?P = "map section_region ss"
  note P = section_region_low [OF secs H]
  have up: "\<forall>g\<in>set gs. upright g" and ga: "sorted_wrt apart gs" using gs by (simp_all add: devices_low_def)
  have D: "region_fits r \<and> cr_kind r = Device \<and> unat (cr_base r) + unat (cr_size r) \<le> H \<and>
      (\<exists>g\<in>set gs. region_cells r = cells g)" if r: "r \<in> set dg" for r
  proof (rule device_of_shapes [OF dg up r])
    fix g assume g: "g \<in> set gs" "cr_kind r = Device" "cr_base r = rstart g" "region_cells r = cells g"
      "unat (cr_base r) + unat (cr_size r) = unat (rend g)" "0 < unat (cr_size r)"
    then have "unat (rend g) \<le> H" using gs by (simp add: devices_low_def)
    then show ?thesis using g H by (auto simp: region_fits_def)
  qed
  have "sorted_wrt (\<lambda>s t. section_extent s \<inter> section_extent t = {}) ss" using secs by (simp add: sections_low_def)
  then have "sorted_wrt (\<lambda>s t. regions_apart (section_region s) (section_region t)) ss"
    by (rule sorted_wrt_mono_rel [rotated]) (simp add: regions_apart_def P(4))
  then have "sorted_wrt regions_apart ?P" by (simp add: sorted_wrt_map)
  moreover have "regions_apart (section_region s) y" if s: "s \<in> set ss" and y: "y \<in> set dg" for s y
  proof -
    obtain g where "g \<in> set gs" "region_cells y = cells g" using D [OF y] by blast
    then show ?thesis using cross s by (simp add: regions_apart_def P(4) [OF s])
  qed
  ultimately have "sorted_wrt regions_apart (?P @ dg)" using devices_apart [OF dg up ga] by (auto simp: sorted_wrt_append)
  then show ?thesis using P D by (auto simp: low_ok_def)
qed

lemma low_kinds:
  assumes "low_ok H ps dg"
  shows "filter (\<lambda>r. cr_kind r = Window) (ps @ dg) = []"
    and "{r \<in> set (ps @ dg). cr_kind r = Device} = set dg"
  using assms by (force simp: low_ok_def filter_empty_conv)+

lemma clean_low:
  assumes "low_ok H ps dg" "devices_low H gs" "map region_shape dg = map (range_region Device) gs"
  shows "problems (ps @ dg) = []"
proof -
  have "set (island (ps @ dg)) = set dg"
    using low_kinds(2) [OF assms(1)] by (simp add: island_def window_region_def find_filter low_kinds(1) [OF assms(1)] del: filter_append set_append)
  then have "island_sane (ps @ dg)" by (rule island_low [OF _ assms(3)]) (use assms(2) in \<open>simp add: devices_low_def\<close>)
  then show ?thesis
    using problems_Nil_iff [of "ps @ dg" None] assms(1) low_kinds(1) [OF assms(1)] by (simp add: low_ok_def)
qed

text \<open>
  A window that starts at \<open>H\<close>, with everything below it: all that the check can find is that the
  end of the window and its buddy is not a power of two.
\<close>

lemma window_list:
  assumes low: "\<forall>r\<in>set rs. cr_kind r \<in> {Device, Payload} \<longrightarrow>
      region_fits r \<and> unat (cr_base r) < unat (cr_base x) \<and> unat (cr_base r) + unat (cr_size r) \<le> unat (cr_base x)"
    and x: "unat (cr_base x) = H" "unat (cr_size x) = 2 ^ b"
    and H: "2 ^ b dvd H" "2 * 2 ^ b \<le> H" "H \<le> 2 ^ 62"
  shows "window_problems rs (cr_base x, cr_size x) =
    (if \<exists>k. H + 2 * 2 ^ b = 2 ^ k then [] else [WindowTop (cr_base x + 2 * cr_size x)])"
proof -
  let ?top = "cr_base x + 2 * cr_size x"
  have top: "unat ?top = H + 2 * 2 ^ b" using H x by (simp add: unat_word_ariths mod_add_right_eq)
  have "above_problems (cr_base x) ?top r = []" if r: "r \<in> set rs" for r
  proof (cases "cr_kind r \<in> {Device, Payload}")
    case True
    then have f: "region_fits r" "unat (cr_base r) < H" "unat (cr_base r) + unat (cr_size r) \<le> H" using low r x by auto
    then have "unat (cr_end r) \<le> unat ?top" by (simp add: unat_cr_end top)
    then show ?thesis using f(2) x(1) by (simp add: above_problems_def word_le_nat_alt word_less_nat_alt)
  next
    case False
    then show ?thesis by (cases "cr_kind r") (simp_all add: above_problems_def)
  qed
  then have above: "concat (map (above_problems (cr_base x) ?top) rs) = []" by simp
  have "unat (cr_base x mod cr_size x) = 0" using H(1) x by (simp add: unat_mod)
  then have "is_power_of_two (cr_size x)" "cr_base x mod cr_size x = 0" using x by (auto simp: is_power_of_two_iff unat_eq_zero)
  moreover have "is_power_of_two ?top \<longleftrightarrow> (\<exists>k. H + 2 * 2 ^ b = 2 ^ k)" by (simp add: is_power_of_two_iff top)
  ultimately show ?thesis using above by (simp add: window_problems_def Let_def)
qed

lemma window_found:
  assumes low: "low_ok H ps dg" "devices_low H gs" "map region_shape dg = map (range_region Device) gs"
    and x: "cr_kind x = Window" "region_fits x" "unat (cr_base x) = H" "unat (cr_size x) = 2 ^ b"
    and y: "cr_kind y = Burned" "region_fits y" "unat (cr_base y) = H + 2 ^ b" "regions_apart x y"
    and H: "2 ^ b dvd H" "2 * 2 ^ b \<le> H" "H \<le> 2 ^ 62"
  shows "problems (ps @ dg @ [x, y]) =
    (if \<exists>k. H + 2 * 2 ^ b = 2 ^ k then [] else [WindowTop (cr_base x + 2 * cr_size x)])"
proof -
  let ?low = "ps @ dg" and ?rs = "ps @ dg @ [x, y]"
  have L: "region_fits r \<and> cr_kind r \<in> {Device, Payload} \<and> unat (cr_base r) + unat (cr_size r) \<le> H \<and> cr_base r < cr_base x"
    if r: "r \<in> set ?low" for r
  proof -
    have f: "region_fits r" "cr_kind r \<in> {Device, Payload}" "unat (cr_base r) + unat (cr_size r) \<le> H"
      using r low(1) by (auto simp: low_ok_def)
    moreover from this have "unat (cr_base r) < unat (cr_base x)" using x(3) by (simp add: region_fits_def)
    ultimately show ?thesis by (simp add: word_less_nat_alt)
  qed
  have "regions_apart r z" if "r \<in> set ?low" "z \<in> {x, y}" for r z
    using L [OF that(1)] that(2) x(3) y(3) by (auto simp: regions_apart_def region_cells_def)
  moreover have "sorted_wrt regions_apart ?low" using low(1) by (simp add: low_ok_def)
  ultimately have "sorted_wrt regions_apart (?low @ [x, y])" using y(4) by (auto simp: sorted_wrt_append)
  then have apart: "sorted_wrt regions_apart ?rs" by simp
  have fits: "\<forall>r\<in>set ?rs. region_fits r" using L x(2) y(2) by auto
  have fw: "filter (\<lambda>r. cr_kind r = Window) ?rs = opt_list (Some x)"
    using low_kinds(1) [OF low(1)] x(1) y(1) by simp
  have "island_sane ?rs"
  proof (rule island_low [OF _ low(3)])
    have "set (island ?rs) = {r \<in> set ?rs. cr_kind r = Device \<and> cr_base r < cr_base x}"
      unfolding island_def window_region_def find_filter fw by (simp del: filter_append filter.simps)
    also have "\<dots> = {r \<in> set ?low. cr_kind r = Device}" using L x(1) y(1) by auto
    finally show "set (island ?rs) = set dg" by (simp only: low_kinds(2) [OF low(1)])
  qed (use low(2) in \<open>simp add: devices_low_def\<close>)
  then have "island_problems (sort_key cr_base ?rs) = []" using island_problems_iff [OF fw] by blast
  moreover have "overlap_problems (sort_key cr_base ?rs) = []" using overlap_problems_iff [OF fits] apart by blast
  moreover have "window_region (sort_key cr_base ?rs) = Some (cr_base x, cr_size x)"
    using window_region_sort(1) [OF fw] by simp
  moreover have "window_problems (sort_key cr_base ?rs) (cr_base x, cr_size x) =
    (if \<exists>k. H + 2 * 2 ^ b = 2 ^ k then [] else [WindowTop (cr_base x + 2 * cr_size x)])"
    by (rule window_list [OF _ x(3,4) H]) (use L x(1) y(1) in \<open>auto simp: word_less_nat_alt x(3)\<close>)
  ultimately show ?thesis unfolding problems_def Let_def by simp
qed

definition window_report :: "nat \<Rightarrow> nat \<Rightarrow> gpa_range option \<Rightarrow> problem list" where
  "window_report H b mw = (case mw of None \<Rightarrow> []
     | Some w \<Rightarrow> if \<exists>k. H + 2 * 2 ^ b = 2 ^ k then [] else [WindowTop (window_top w)])"

lemma problems_found:
  assumes shapes: "map region_shape ds = map (range_region Device) gs
      @ concat (map (\<lambda>w. [range_region Window w, range_region Burned (burned_of w)]) (opt_list mw))"
    and low: "sections_low H ss" "devices_low H gs" "H \<le> 2 ^ 62"
    and cross: "\<forall>s\<in>set ss. \<forall>g\<in>set gs. section_extent s \<inter> cells g = {}"
    and win: "\<forall>w\<in>set (opt_list mw). unat (rstart w) = H \<and> unat (rend w) = H + 2 ^ b \<and> 2 ^ b dvd H \<and> 2 * 2 ^ b \<le> H"
  shows "problems (map section_region ss @ ds) = window_report H b mw"
proof -
  obtain dg dw where ds: "ds = dg @ dw" and dg: "map region_shape dg = map (range_region Device) gs"
    and dw: "map region_shape dw = concat (map (\<lambda>w. [range_region Window w, range_region Burned (burned_of w)]) (opt_list mw))"
    by (rule tree_shapes_split [OF shapes])
  note lo = low_ok_regions [OF low(1,2,3) dg cross]
  show ?thesis
  proof (cases mw)
    case None
    then show ?thesis using clean_low [OF lo low(2) dg] dw by (simp add: ds window_report_def)
  next
    case (Some w)
    then have w: "unat (rstart w) = H" "unat (rend w) = H + 2 ^ b" "2 * 2 ^ b \<le> H" "2 ^ b dvd H" using win by simp_all
    have sh: "map region_shape dw = [range_region Window w, range_region Burned (burned_of w)]" using dw Some by simp
    obtain x y where xy: "dw = [x, y]" "cr_kind x = Window" "cr_kind y = Burned" "region_fits x" "region_fits y"
      "unat (cr_base x) = H" "unat (cr_size x) = 2 ^ b" "unat (cr_base y) = H + 2 ^ b" "regions_apart x y"
      "cr_base x + 2 * cr_size x = window_top w"
      by (rule window_of_shapes [OF sh w(1-3) low(3)])
    show ?thesis
      using window_found [OF lo low(2) dg xy(2,4,6,7,3,5,8,9) w(4,3) low(3)]
      by (simp add: ds xy(1,10) window_report_def Some)
  qed
qed


section \<open>The sections of an image\<close>

definition payload_list :: "layout \<Rightarrow> bytes \<Rightarrow> bytes option \<Rightarrow> bytes \<Rightarrow> pe_section list" where
  "payload_list lay img initrd relocs =
    [payload_section SECTION_LINUX (l_linux lay) img (IMAGE_SCN_CNT_INITIALIZED_DATA OR IMAGE_SCN_MEM_READ)]
    @ (case (initrd, l_initrd lay) of
         (Some bytes, Some r) \<Rightarrow>
           [payload_section SECTION_INITRD r bytes (IMAGE_SCN_CNT_INITIALIZED_DATA OR IMAGE_SCN_MEM_READ)]
       | _ \<Rightarrow> [])
    @ map (\<lambda>r. payload_section SECTION_BOOTCONFIG r [] (IMAGE_SCN_CNT_UNINITIALIZED_DATA OR IMAGE_SCN_MEM_READ))
        (opt_list (l_bootconfig lay))
    @ map (\<lambda>r. payload_section SECTION_RELOCS r relocs (IMAGE_SCN_CNT_INITIALIZED_DATA OR IMAGE_SCN_MEM_READ))
        (opt_list (l_relocs lay))"

lemma loaded_assemble:
  "loaded_sections (assemble_sections tatu bi img initrd relocs dtb lay cbor mode) =
    map (stub_section bi dtb (mode = Attached)) (tg_sections tatu) @ payload_list lay img initrd relocs"
proof -
  have "filter (\<lambda>s. \<not> sec_non_loaded s) (map (stub_section bi dtb b) xs) = map (stub_section bi dtb b) xs" for b xs
    by (induction xs) (simp_all add: stub_section_def)
  then show ?thesis
    by (cases "l_initrd lay"; cases "l_bootconfig lay"; cases "l_relocs lay"; cases initrd)
      (simp_all add: loaded_sections_def assemble_sections_def payload_list_def carried_section_def payload_section_def)
qed

definition inside :: "pe_section \<Rightarrow> gpa_range \<Rightarrow> bool" where
  "inside s f \<longleftrightarrow> section_extent s \<subseteq> cells f \<and> 0 < header_size s"

lemma list_all2_member: "list_all2 P xs ys \<Longrightarrow> x \<in> set xs \<Longrightarrow> \<exists>y\<in>set ys. P x y"
  by (induction rule: list_all2_induct) auto

lemma inside_apart:
  "list_all2 inside ss fs \<Longrightarrow> sorted_wrt apart fs \<Longrightarrow> sorted_wrt (\<lambda>s t. section_extent s \<inter> section_extent t = {}) ss"
proof (induction rule: list_all2_induct)
  case (Cons s ss f fs)
  have "section_extent s \<inter> section_extent t = {}" if t: "t \<in> set ss" for t
  proof -
    obtain g where "g \<in> set fs" "inside t g" using list_all2_member [OF Cons.hyps(2) t] by blast
    moreover from this have "apart f g" using Cons.prems by simp
    ultimately show ?thesis using Cons.hyps(1) by (auto simp: inside_def apart_def)
  qed
  with Cons show ?case by simp
qed simp

lemma header_size_ge: "unat (sec_virtual_size s) \<le> header_size s"
  by (simp add: header_size_def)

lemma payload_upright:
  assumes "unat (rstart r) < unat (rend r)" "unat (rstart r) < 2 ^ 32" "header_size (payload_section n r data c) < 2 ^ 32"
  shows "upright r"
proof -
  have "unat (rend r) - unat (rstart r) \<le> header_size (payload_section n r data c)"
    using header_size_ge [of "payload_section n r data c"] assms(1) by (simp add: payload_section_def unat_extent)
  then show ?thesis using assms by (simp add: upright_def)
qed

lemma payload_not_empty:
  assumes "upright r"
  shows "0 < header_size (payload_section n r data c)"
proof -
  have "0 < unat (sec_virtual_size (payload_section n r data c))"
    using assms by (simp add: payload_section_def unat_extent upright_def)
  then show ?thesis using header_size_ge [of "payload_section n r data c"] by linarith
qed

lemma payload_inside:
  assumes "upright r" "2 ^ 21 dvd unat (rstart r)" "length data \<le> unat (rend r) - unat (rstart r)"
  shows "inside (payload_section n r data c) (round_out r)"
    and "2 ^ 21 dvd unat (rend r) \<Longrightarrow> inside (payload_section n r data c) r"
  using payload_extent [OF assms] payload_not_empty [OF assms(1)] round_out_cells_aligned [OF assms(1,2)]
  by (simp_all add: inside_def)

definition footprints :: "layout \<Rightarrow> gpa_range list" where
  "footprints lay = [round_out (l_linux lay)] @ opt_list (l_initrd lay) @ opt_list (l_bootconfig lay)
     @ map round_out (opt_list (l_relocs lay))"

text \<open>The contents have the sizes that were planned for.\<close>

definition payload_sizes :: "planner \<Rightarrow> bytes \<Rightarrow> bytes option \<Rightarrow> bytes \<Rightarrow> bool" where
  "payload_sizes p img initrd relocs \<longleftrightarrow> word_of_nat (length img) \<le> k_size (p_kernel p)
     \<and> p_initrd_size p = map_option (\<lambda>b. word_of_nat (length b)) initrd
     \<and> p_relocs_size p = (if relocs = [] then None else Some (word_of_nat (length relocs)))"

lemma header_size_data: "length (sec_data s) \<le> header_size s"
  using round_up_nat_ge [of 4096 "length (sec_data s)"] by (simp add: header_size_def data_pages_def is_zero_shape_def le_max_iff_disj)

lemma payload_data_small:
  assumes "header_size (payload_section n r data c) < 2 ^ 32"
  shows "length data < 2 ^ 32" and "unat (word_of_nat (length data) :: u64) = length data"
proof -
  show "length data < 2 ^ 32" using assms header_size_data [of "payload_section n r data c"] by (simp add: payload_section_def)
  then show "unat (word_of_nat (length data) :: u64) = length data" by (simp add: unat_of_nat)
qed

definition archive_list :: "layout \<Rightarrow> bytes option \<Rightarrow> pe_section list" where
  "archive_list lay initrd =
    (case (initrd, l_initrd lay) of
       (Some bytes, Some r) \<Rightarrow>
         [payload_section SECTION_INITRD r bytes (IMAGE_SCN_CNT_INITIALIZED_DATA OR IMAGE_SCN_MEM_READ)]
     | _ \<Rightarrow> [])
    @ map (\<lambda>r. payload_section SECTION_BOOTCONFIG r [] (IMAGE_SCN_CNT_UNINITIALIZED_DATA OR IMAGE_SCN_MEM_READ))
        (opt_list (l_bootconfig lay))"

lemma archive_inside:
  assumes plan: "plan_bounded p" "plan p = Inr lay" and sizes: "payload_sizes p img initrd relocs"
    and fit: "\<forall>s\<in>set (archive_list lay initrd). unat (sec_vaddr s) < 2 ^ 32 \<and> header_size s < 2 ^ 32"
  shows "list_all2 inside (archive_list lay initrd) (opt_list (l_initrd lay) @ opt_list (l_bootconfig lay))"
proof (cases "l_initrd lay")
  case None
  then show ?thesis using plan_archive [OF plan] by (cases initrd) (simp_all add: archive_list_def)
next
  case (Some a)
  let ?s = "payload_section SECTION_INITRD a" and ?c = "IMAGE_SCN_CNT_INITIALIZED_DATA OR IMAGE_SCN_MEM_READ"
  obtain sz where sz: "p_initrd_size p = Some sz" "0 < sz" "2 ^ 21 dvd unat (rstart a)"
    and e: "unat (rend a) = unat (rstart a) + (unat sz + (2 ^ 21 - 1)) div 2 ^ 21 * 2 ^ 21"
    and boot: "\<And>f. l_bootconfig lay = Some f \<Longrightarrow> rstart f = rend a \<and> unat (rend f) = unat (rstart f) + 2 ^ 21"
    using plan_archive [OF plan] by (auto simp: Some)
  obtain b where b: "initrd = Some b" "length b = unat sz"
  proof -
    obtain b where b: "initrd = Some b" "sz = word_of_nat (length b)"
      using sizes sz(1) by (cases initrd) (auto simp: payload_sizes_def)
    then have "header_size (?s b ?c) < 2 ^ 32" using fit by (simp add: archive_list_def Some)
    from payload_data_small(2) [OF this] b that show ?thesis by simp
  qed
  have up: "unat sz \<le> (unat sz + (2 ^ 21 - 1)) div 2 ^ 21 * 2 ^ 21" by (rule round_up_nat_ge) simp
  have "0 < unat sz" using sz(2) by (simp add: word_less_nat_alt)
  with up e have lt: "unat (rstart a) < unat (rend a)" by linarith
  have "upright a"
    by (rule payload_upright [OF lt, of SECTION_INITRD b ?c])
      (use fit b(1) in \<open>auto simp: archive_list_def Some payload_section_def\<close>)
  moreover have "length b \<le> unat (rend a) - unat (rstart a)" using up e b(2) by linarith
  moreover have end_gran: "2 ^ 21 dvd unat (rend a)" unfolding e using sz(3) by (intro dvd_add) simp_all
  ultimately have ini: "inside (?s b ?c) a" using payload_inside(2) sz(3) by blast
  show ?thesis
  proof (cases "l_bootconfig lay")
    case None
    then show ?thesis using ini b(1) by (simp add: archive_list_def Some)
  next
    case boot': (Some f)
    let ?t = "payload_section SECTION_BOOTCONFIG f [] (IMAGE_SCN_CNT_UNINITIALIZED_DATA OR IMAGE_SCN_MEM_READ)"
    have "upright f"
      by (rule payload_upright [of f SECTION_BOOTCONFIG "[]" "IMAGE_SCN_CNT_UNINITIALIZED_DATA OR IMAGE_SCN_MEM_READ"])
        (use fit boot [OF boot'] boot' in \<open>auto simp: archive_list_def payload_section_def\<close>)
    then have "inside ?t f" by (simp add: inside_def empty_payload_extent payload_not_empty)
    then show ?thesis using ini b(1) by (simp add: archive_list_def Some boot')
  qed
qed

lemma payloads_inside:
  assumes plan: "plan_bounded p" "plan p = Inr lay" and sizes: "payload_sizes p img initrd relocs"
    and fit: "\<forall>s\<in>set (payload_list lay img initrd relocs). unat (sec_vaddr s) < 2 ^ 32 \<and> header_size s < 2 ^ 32"
  shows "list_all2 inside (payload_list lay img initrd relocs) (footprints lay)"
proof -
  let ?rw = "IMAGE_SCN_CNT_INITIALIZED_DATA OR IMAGE_SCN_MEM_READ"
  have up: "upright r" if "payload_section n r data c \<in> set (payload_list lay img initrd relocs)" "unat (rstart r) < unat (rend r)"
    for n r data c using fit that payload_upright [of r n data c] by (force simp: payload_section_def)
  have linux: "inside (payload_section SECTION_LINUX (l_linux lay) img ?rw) (round_out (l_linux lay))"
  proof (rule payload_inside(1) [OF up])
    have "0 < unat (k_size (p_kernel p))" using plan(1) unfolding plan_bounded_def by blast
    then show "unat (rstart (l_linux lay)) < unat (rend (l_linux lay))" using plan_linux(2) [OF plan] by simp
    have "header_size (payload_section SECTION_LINUX (l_linux lay) img ?rw) < 2 ^ 32" using fit by (simp add: payload_list_def)
    from payload_data_small(2) [OF this] show "length img \<le> unat (rend (l_linux lay)) - unat (rstart (l_linux lay))"
      using sizes plan_linux(2) [OF plan] by (simp add: payload_sizes_def word_le_nat_alt)
  qed (use plan_linux(1) [OF plan] in \<open>auto simp: payload_list_def\<close>)
  have relocs: "list_all2 inside (map (\<lambda>r. payload_section SECTION_RELOCS r relocs ?rw) (opt_list (l_relocs lay)))
      (map round_out (opt_list (l_relocs lay)))"
  proof (cases "l_relocs lay")
    case (Some r)
    obtain sz where sz: "p_relocs_size p = Some sz" "0 < sz" "2 ^ 21 dvd unat (rstart r)"
      "unat (rend r) = unat (rstart r) + unat sz"
      by (rule plan_relocs_place [OF plan(2) Some])
    have "header_size (payload_section SECTION_RELOCS r relocs ?rw) < 2 ^ 32" using fit by (simp add: payload_list_def Some)
    from payload_data_small(2) [OF this] have "length relocs = unat sz"
      using sizes sz(1) by (auto simp: payload_sizes_def split: if_splits)
    moreover have "upright r"
      by (rule up [of SECTION_RELOCS r relocs ?rw]) (use sz in \<open>auto simp: payload_list_def Some word_less_nat_alt\<close>)
    ultimately show ?thesis using payload_inside(1) [of r relocs] sz by (simp add: Some)
  qed simp
  have eq: "payload_list lay img initrd relocs = [payload_section SECTION_LINUX (l_linux lay) img ?rw] @ archive_list lay initrd
      @ map (\<lambda>r. payload_section SECTION_RELOCS r relocs ?rw) (opt_list (l_relocs lay))"
    by (simp add: payload_list_def archive_list_def)
  have "list_all2 inside (archive_list lay initrd) (opt_list (l_initrd lay) @ opt_list (l_bootconfig lay))"
    by (rule archive_inside [OF plan sizes]) (use fit in \<open>simp add: eq\<close>)
  from list_all2_appendI [OF this relocs] linux show ?thesis
    unfolding eq footprints_def by simp
qed


lemma sorted_apart_refine:
  assumes "sorted_wrt apart (ls @ hs @ rs)" "\<forall>x\<in>set xs. \<exists>h\<in>set hs. cells x \<subseteq> cells h" "sorted_wrt apart xs"
  shows "sorted_wrt apart (ls @ xs @ rs)"
proof -
  have "apart l x" if "l \<in> set ls" "x \<in> set xs" for l x
    using assms(1,2) that by (fastforce simp: sorted_wrt_append apart_def)
  moreover have "apart x r" if "x \<in> set xs" "r \<in> set rs" for r x
    using assms(1,2) that by (fastforce simp: sorted_wrt_append apart_def)
  ultimately show ?thesis using assms(1,3) by (auto simp: sorted_wrt_append)
qed

lemma archive_cells:
  assumes "plan_bounded p" "plan p = Inr lay" "x \<in> set (opt_list (l_initrd lay) @ opt_list (l_bootconfig lay))"
  shows "\<exists>h\<in>set (opt_list (archive_and_fill (l_initrd lay) (l_bootconfig lay))). cells x \<subseteq> cells h"
proof (cases "l_initrd lay")
  case None
  then show ?thesis using assms(3) plan_archive [OF assms(1,2)] by simp
next
  case (Some a)
  have "unat (rstart a) \<le> unat (rend a)" using plan_archive [OF assms(1,2)] by (auto simp: Some)
  then show ?thesis using assms(3) plan_archive [OF assms(1,2)]
    by (cases "l_bootconfig lay") (auto simp: Some archive_and_fill_def cells_def)
qed

lemma footprints_cover:
  assumes "plan_bounded p" "plan p = Inr lay" "f \<in> set (footprints lay)"
  shows "\<exists>h\<in>set (map round_out (ram_regions lay)). cells f \<subseteq> cells h"
proof -
  have steps: "\<forall>r\<in>set (ram_regions lay). cells r \<subseteq> cells (round_out r)"
    using plan_steps [OF assms(1,2)] by (simp add: Planner.memory_regions_def ram_regions_def)
  show ?thesis
  proof (cases "f \<in> set (opt_list (l_initrd lay) @ opt_list (l_bootconfig lay))")
    case True
    then obtain h where h: "h \<in> set (ram_regions lay)" "cells f \<subseteq> cells h"
      using archive_cells [OF assms(1,2)] by (auto simp: ram_regions_def)
    then have "cells f \<subseteq> cells (round_out h)" using steps by blast
    then show ?thesis using h(1) by auto
  next
    case False
    then have "f \<in> set (map round_out (ram_regions lay))" using assms(3) by (auto simp: footprints_def ram_regions_def)
    then show ?thesis by blast
  qed
qed

lemma footprints_apart:
  assumes "plan_bounded p" "plan p = Inr lay"
  shows "sorted_wrt apart (footprints lay @ devices lay)"
    and "f \<in> set (footprints lay) \<Longrightarrow> clear_of f (p_reserved p)"
proof -
  let ?hs = "map round_out (opt_list (archive_and_fill (l_initrd lay) (l_bootconfig lay)))"
  let ?xs = "opt_list (l_initrd lay) @ opt_list (l_bootconfig lay)"
  let ?rs = "map round_out (opt_list (l_relocs lay))"
  note steps = plan_steps [OF assms]
  have mem: "sorted_wrt apart ([round_out (l_linux lay)] @ ?hs @ ?rs @ devices lay)"
    using steps by (simp add: Planner.memory_regions_def sorted_wrt_append)
  have sub: "\<exists>h\<in>set ?hs. cells x \<subseteq> cells h" if x: "x \<in> set ?xs" for x
  proof -
    obtain h where h: "h \<in> set (opt_list (archive_and_fill (l_initrd lay) (l_bootconfig lay)))" "cells x \<subseteq> cells h"
      using archive_cells [OF assms x] by blast
    then have "cells h \<subseteq> cells (round_out h)" using steps by (simp add: Planner.memory_regions_def)
    with h show ?thesis by auto
  qed
  have "sorted_wrt apart ?xs"
    using plan_archive [OF assms] by (cases "l_initrd lay"; cases "l_bootconfig lay") (auto simp: apart_def cells_def)
  from sorted_apart_refine [OF mem _ this] sub
  show "sorted_wrt apart (footprints lay @ devices lay)" by (simp add: footprints_def)
  show "clear_of f (p_reserved p)" if f: "f \<in> set (footprints lay)"
  proof -
    obtain h where h: "h \<in> set (map round_out (ram_regions lay))" "cells f \<subseteq> cells h"
      using footprints_cover [OF assms f] by blast
    then have "clear_of h (p_reserved p)" using steps by simp
    with h(2) show ?thesis unfolding clear_of_def by (meson apart_mono order_refl)
  qed
qed

text \<open>None of them meets the BAR window.\<close>

lemma footprints_window:
  assumes "plan_bounded p" "plan p = Inr lay" "l_pci_window lay = Some w" "f \<in> set (footprints lay)"
  shows "cells w \<inter> cells f = {}"
proof -
  obtain h where h: "h \<in> set (map round_out (ram_regions lay))" "cells f \<subseteq> cells h"
    using footprints_cover [OF assms(1,2,4)] by blast
  have "apart (round_out w) h" "cells w \<subseteq> cells (round_out w)"
    using plan_steps [OF assms(1,2)] h(1) by (auto simp: Planner.memory_regions_def ram_regions_def assms(3))
  with h(2) show ?thesis by (auto simp: apart_def)
qed

lemma below_window:
  assumes "inside s f" "cells w \<inter> cells f = {}" "unat (sec_vaddr s) < H" "unat (rstart w) = H" "H < unat (rend w)"
  shows "unat (sec_vaddr s) + header_size s \<le> H"
proof (rule ccontr)
  assume "\<not> unat (sec_vaddr s) + header_size s \<le> H"
  then have "H \<in> section_extent s" using assms(3) by (simp add: section_extent_def)
  moreover have "H \<in> cells w" using assms(4,5) by (simp add: cells_def)
  ultimately show False using assms(1,2) by (auto simp: inside_def)
qed

section \<open>The devices\<close>

lemma arch_low:
  "\<forall>g\<in>set (arch_reserved a). upright g \<and> unat (rend g) \<le> 2 ^ 32"
  "\<exists>m\<in>set (arch_reserved a). 2 ^ 21 dvd unat (rstart m) \<and> (\<forall>g\<in>set (arch_reserved a). rstart m \<le> rstart g)"
  by (cases a; simp add: arch_reserved_def x86_reserved_def arm_reserved_def upright_def LAPIC_BASE_def LAPIC_SIZE_def
      IOAPIC_BASE_def IOAPIC_SIZE_def POWEROFF_BASE_def REBOOT_BASE_def SYSCON_REG_SIZE_def GIC_DIST_BASE_def
      GIC_DIST_SIZE_def GIC_REDIST_BASE_def GIC_REDIST_SIZE_def GIC_MSI_BASE_def GIC_MSI_SIZE_def)+

lemma chain_upright:
  assumes "chain base ds e" "\<forall>d\<in>set ds. rend d - rstart d \<noteq> 0" "unat e \<le> H" "H \<le> 2 ^ 62" "d \<in> set ds"
  shows "upright d" "unat (rend d) \<le> H" "base \<le> rstart d"
proof -
  have le: "base \<le> rstart d \<and> rstart d \<le> rend d \<and> rend d \<le> e" using assms(1,5)
  proof (induction ds arbitrary: base)
    case (Cons r ds)
    show ?case
    proof (cases "d = r")
      case True
      then show ?thesis using Cons.prems(1) chain_le by auto
    next
      case False
      then have "rend r \<le> rstart d \<and> rstart d \<le> rend d \<and> rend d \<le> e" using Cons by auto
      then show ?thesis using Cons.prems(1) by auto
    qed
  qed simp
  have "rstart d \<noteq> rend d" using assms(2,5) by auto
  then have "rstart d < rend d" using le by auto
  with le assms(3,4) show "upright d" "unat (rend d) \<le> H" "base \<le> rstart d"
    by (simp_all add: upright_def word_le_nat_alt word_less_nat_alt)
qed

lemma devices_are_low:
  assumes plan: "plan_bounded p" "plan p = Inr lay" and res: "set (arch_reserved a) \<subseteq> set (p_reserved p)"
    and arch: "sorted_wrt apart (arch_reserved a)"
    and gs: "set gs = set (devices lay)" "sorted_wrt apart (devices lay) \<Longrightarrow> sorted_wrt apart gs"
    and H: "2 ^ 32 \<le> H" "H \<le> 2 ^ 62" "(2::nat) ^ (unat (a_addr_space_bits (p_args p)) - 1) \<le> H"
  shows "devices_low H (arch_reserved a @ gs)"
proof -
  obtain base e where ch: "chain base (devices lay) e" "unat e \<le> H" "2 ^ 21 dvd unat base"
      "\<forall>d\<in>set (devices lay). rend d - rstart d \<noteq> 0"
    using plan_devices(1) [OF plan] H(3) order_trans by blast
  note up = chain_upright [OF ch(1,4,2) H(2)]
  have "\<forall>g\<in>set (arch_reserved a @ gs). upright g \<and> unat (rend g) \<le> H"
    using arch_low(1) [of a] up H(1) gs(1) by fastforce
  moreover have "sorted_wrt apart (arch_reserved a @ gs)"
  proof -
    have "clear_of d (p_reserved p)" if "d \<in> set gs" for d using plan_steps [OF plan] gs(1) that by simp
    then have "clear_of d (arch_reserved a)" if "d \<in> set gs" for d using res that by (auto simp: clear_of_def)
    then show ?thesis by (rule sorted_wrt_apart_append [OF arch gs(2) [OF chain_apart [OF ch(1)]]])
  qed
  moreover have "\<exists>m\<in>set (arch_reserved a @ gs). 2 ^ 21 dvd unat (rstart m) \<and> (\<forall>g\<in>set (arch_reserved a @ gs). rstart m \<le> rstart g)"
  proof -
    obtain m where m: "m \<in> set (arch_reserved a)" "2 ^ 21 dvd unat (rstart m)" "\<forall>g\<in>set (arch_reserved a). rstart m \<le> rstart g"
      using arch_low(2) by blast
    show ?thesis
    proof (cases "devices lay = [] \<or> rstart m \<le> base")
      case True
      then show ?thesis using m up(3) gs(1) by (intro bexI [of _ m]) (auto intro: order_trans)
    next
      case False
      then obtain d ds where "devices lay = d # ds" by (cases "devices lay") auto
      then have d: "d \<in> set (devices lay)" "rstart d = base" using ch(1) by auto
      then show ?thesis using False m ch(3) up(3) gs(1) by (intro bexI [of _ d]) (auto intro: order_trans)
    qed
  qed
  ultimately show ?thesis by (simp add: devices_low_def)
qed


section \<open>The whole layout\<close>

lemma stub_inside:
  assumes "tatu_ok tatu" "stub_placed a tatu" "stub_room bi dtb b tatu"
  shows "list_all2 inside (map (stub_section bi dtb b) (tg_sections tatu)) (tatu_reserved tatu)"
proof -
  have "inside (stub_section bi dtb b s) (mk_range (ts_vaddr s) (ts_vaddr s + ts_virtual_size s))"
    if s: "s \<in> set (tg_sections tatu)" for s
  proof -
    have "ts_virtual_size s \<noteq> 0" using assms(1) s by (simp add: tatu_ok_def)
    then have "0 < unat (sec_virtual_size (stub_section bi dtb b s))" by (simp add: stub_section_def unat_gt_0)
    then have "0 < header_size (stub_section bi dtb b s)" using header_size_ge [of "stub_section bi dtb b s"] by linarith
    then show ?thesis using stub_extent [OF assms s] by (simp add: inside_def)
  qed
  then show ?thesis by (auto simp: tatu_reserved_def list_all2_conv_all_nth)
qed

lemma sections_inside:
  assumes plan: "plan_bounded p" "plan p = Inr lay"
    and res: "p_reserved p = tatu_reserved tatu @ arch_reserved a"
    and stub: "tatu_ok tatu" "stub_placed a tatu" "stub_room bi dtb (mode = Attached) tatu"
    and sizes: "payload_sizes p img initrd relocs"
    and ss: "ss = assemble_sections tatu bi img initrd relocs dtb lay cbor mode" "pe_fits ss"
  shows "list_all2 inside (loaded_sections ss) (tatu_reserved tatu @ footprints lay)"
    and "sorted_wrt apart (tatu_reserved tatu @ footprints lay)"
    and "f \<in> set (tatu_reserved tatu @ footprints lay) \<Longrightarrow> clear_of f (arch_reserved a @ devices lay)"
proof -
  have fit: "\<forall>s\<in>set (payload_list lay img initrd relocs). unat (sec_vaddr s) < 2 ^ 32 \<and> header_size s < 2 ^ 32"
    using ss(2) unfolding pe_fits_def ss(1) loaded_assemble by simp
  show "list_all2 inside (loaded_sections ss) (tatu_reserved tatu @ footprints lay)"
    unfolding ss(1) loaded_assemble
    by (rule list_all2_appendI [OF stub_inside [OF stub] payloads_inside [OF plan sizes fit]])
  note fp = footprints_apart [OF plan]
  have st: "sorted_wrt apart (tatu_reserved tatu @ arch_reserved a)" using stub(2) by (simp add: stub_placed_def)
  show "sorted_wrt apart (tatu_reserved tatu @ footprints lay)"
    using st fp res by (intro sorted_wrt_apart_append) (auto simp: sorted_wrt_append)
  have dev: "clear_of d (p_reserved p)" if "d \<in> set (devices lay)" for d using plan_steps [OF plan] that by simp
  show "clear_of f (arch_reserved a @ devices lay)" if "f \<in> set (tatu_reserved tatu @ footprints lay)"
  proof (cases "f \<in> set (tatu_reserved tatu)")
    case True
    then have "apart f d" if "d \<in> set (devices lay)" for d
      using dev [OF that] res by (simp add: clear_of_def apart_sym [of f])
    with True show ?thesis using st by (auto simp: clear_of_def sorted_wrt_append)
  next
    case False
    then have "f \<in> set (footprints lay)" using that by simp
    then show ?thesis using fp res by (auto simp: clear_of_def sorted_wrt_append)
  qed
qed

lemma plan_window_place:
  assumes plan: "plan_bounded p" "plan p = Inr lay" and w: "l_pci_window lay = Some w"
  defines "H \<equiv> (2::nat) ^ (unat (a_addr_space_bits (p_args p)) - 1)" and "b \<equiv> unat (a_window_bits (p_args p))"
  shows "unat (rstart w) = H \<and> unat (rend w) = H + 2 ^ b \<and> 2 ^ b dvd H \<and> 2 * 2 ^ b \<le> H"
    and "(\<exists>k. H + 2 * 2 ^ b = 2 ^ k) \<longleftrightarrow> b + 2 = unat (a_addr_space_bits (p_args p))"
proof -
  let ?m = "unat (a_addr_space_bits (p_args p)) - 1"
  have W: "plan_window (p_args p) = Inr (Some w)"
    by (rule plan_InrE [OF plan(2)]) (simp add: w)
  note g = plan_window_Inr [OF W bounded_addr(2,3) [OF plan(1)], folded b_def]
  then have m: "Suc b \<le> ?m" by simp
  then have "(2::nat) ^ Suc b dvd H" "2 ^ Suc b \<le> H" unfolding H_def by (intro le_imp_power_dvd power_increasing; simp)+
  moreover from this(1) have "2 ^ b dvd H" by (metis dvd_mult_right power_Suc)
  ultimately show "unat (rstart w) = H \<and> unat (rend w) = H + 2 ^ b \<and> 2 ^ b dvd H \<and> 2 * 2 ^ b \<le> H"
    using g(1,2) by (simp add: H_def)
  have "Suc b = ?m" if k: "(2::nat) ^ ?m + 2 ^ Suc b = 2 ^ k" for k
  proof (rule ccontr)
    assume "Suc b \<noteq> ?m"
    then have "(2::nat) ^ Suc b < 2 ^ ?m" using m by (intro power_strict_increasing) simp_all
    then have "(2::nat) ^ k < 2 ^ Suc ?m" using k by simp
    moreover have "(2::nat) ^ ?m < 2 ^ k" unfolding k [symmetric] by simp
    ultimately have "k < Suc ?m" "?m < k" by (simp_all only: power_strict_increasing_iff one_less_numeral_iff semiring_norm)
    then show False by simp
  qed
  moreover have "(2::nat) ^ ?m + 2 ^ Suc b = 2 ^ Suc ?m" if "Suc b = ?m"
    unfolding that by (simp only: power_Suc mult_2)
  ultimately have "(\<exists>k. (2::nat) ^ ?m + 2 ^ Suc b = 2 ^ k) \<longleftrightarrow> Suc b = ?m" by blast
  then show "(\<exists>k. H + 2 * 2 ^ b = 2 ^ k) \<longleftrightarrow> b + 2 = unat (a_addr_space_bits (p_args p))"
    using m by (simp add: H_def) linarith
qed

lemma plan_inputs_ok:
  assumes plan: "plan_bounded p" "plan p = Inr lay"
    and inp: "in_serial inp = l_serial lay" "in_virtio inp = l_virtio lay" "in_ecam inp = l_ecam lay"
      "in_pci_window inp = l_pci_window lay"
  shows "inputs_ok inp"
proof -
  have "nonempty d" if "d \<in> set (devices lay)" for d
    using plan_devices(1) [OF plan] that by (auto simp: nonempty_def)
  moreover have "nonempty w" if w: "l_pci_window lay = Some w" for w
  proof -
    have "plan_window (p_args p) = Inr (Some w)" by (rule plan_InrE [OF plan(2)]) (simp add: w)
    from plan_window_Inr(2) [OF this bounded_addr(2,3) [OF plan(1)]] have "rend w \<noteq> rstart w" by auto
    then show ?thesis by (simp add: nonempty_def)
  qed
  ultimately show ?thesis using plan_devices(2) [OF plan]
    by (cases "l_pci_window lay") (auto simp: inputs_ok_def inp devices_def list_all_iff)
qed

text \<open>What the check finds in a planned image, with everything below \<open>H\<close>.\<close>

lemma layout_found:
  assumes plan: "plan_bounded p" "plan p = Inr lay"
    and res: "p_reserved p = tatu_reserved tatu @ arch_reserved a"
    and stub: "tatu_ok tatu" "stub_placed a tatu" "stub_room bi dtb (mode = Attached) tatu"
    and sizes: "payload_sizes p img initrd relocs"
    and ss: "ss = assemble_sections tatu bi img initrd relocs dtb lay cbor mode" "pe_fits ss"
    and H: "2 ^ 32 \<le> H" "H \<le> 2 ^ 62" "(2::nat) ^ (unat (a_addr_space_bits (p_args p)) - 1) \<le> H"
    and below: "\<forall>s\<in>set (loaded_sections ss). unat (sec_vaddr s) + header_size s \<le> H"
  shows "problems (section_regions ss) = []"
    and "inputs_ok inp \<Longrightarrow> in_arch inp = a \<Longrightarrow> in_serial inp = l_serial lay \<Longrightarrow> in_virtio inp = l_virtio lay \<Longrightarrow>
      in_ecam inp = l_ecam lay \<Longrightarrow> in_pci_window inp = l_pci_window lay \<Longrightarrow>
      \<forall>w\<in>set (opt_list (l_pci_window lay)). unat (rstart w) = H \<and> unat (rend w) = H + 2 ^ b \<and> 2 ^ b dvd H \<and> 2 * 2 ^ b \<le> H \<Longrightarrow>
      problems (section_regions ss @ base_device_regions (dt_tree (base_tree inp))) = window_report H b (l_pci_window lay)"
proof -
  let ?secs = "filter (\<lambda>s. sec_vaddr s \<noteq> 0) (loaded_sections ss)"
  let ?gs = "opt_list (l_serial lay) @ l_virtio lay @ opt_list (l_ecam lay)"
  note sec = sections_inside [OF plan res stub sizes ss]
  have ins: "\<exists>f\<in>set (tatu_reserved tatu @ footprints lay). inside s f" if "s \<in> set ?secs" for s
    using list_all2_member [OF sec(1)] that by simp
  have low: "sections_low H ?secs"
  proof -
    have "sorted_wrt (\<lambda>s t. section_extent s \<inter> section_extent t = {}) ?secs"
      by (rule sorted_wrt_filter [OF inside_apart [OF sec(1,2)]])
    then show ?thesis using ins ss(2) below by (auto simp: sections_low_def inside_def pe_fits_def)
  qed
  show "problems (section_regions ss) = []"
    using problems_found [of "[]" "[]" None H ?secs] low H(2)
    by (simp add: section_regions_def devices_low_def window_report_def)
  have gs: "set ?gs = set (devices lay)" by (auto simp: devices_def)
  have dev: "devices_low H (arch_reserved a @ ?gs)"
  proof (rule devices_are_low [OF plan _ _ gs _ H])
    show "sorted_wrt apart (arch_reserved a)" using stub(2) by (simp add: stub_placed_def sorted_wrt_append)
    show "sorted_wrt apart (devices lay) \<Longrightarrow> sorted_wrt apart ?gs"
      using apart_sym by (fastforce simp: devices_def sorted_wrt_append)
  qed (simp add: res)
  have cross: "\<forall>s\<in>set ?secs. \<forall>g\<in>set (arch_reserved a @ ?gs). section_extent s \<inter> cells g = {}"
  proof (intro ballI)
    fix s g assume s: "s \<in> set ?secs" and g: "g \<in> set (arch_reserved a @ ?gs)"
    obtain f where f: "f \<in> set (tatu_reserved tatu @ footprints lay)" "inside s f" using ins [OF s] by blast
    then have "apart f g" using sec(3) [OF f(1)] g gs by (auto simp: clear_of_def)
    then show "section_extent s \<inter> cells g = {}" using f(2) by (auto simp: inside_def apart_def)
  qed
  assume inp: "inputs_ok inp" "in_arch inp = a" "in_serial inp = l_serial lay" "in_virtio inp = l_virtio lay"
      "in_ecam inp = l_ecam lay" "in_pci_window inp = l_pci_window lay"
    and win: "\<forall>w\<in>set (opt_list (l_pci_window lay)). unat (rstart w) = H \<and> unat (rend w) = H + 2 ^ b \<and> 2 ^ b dvd H \<and> 2 * 2 ^ b \<le> H"
  have shapes: "map region_shape (base_device_regions (dt_tree (base_tree inp))) = map (range_region Device) (arch_reserved a @ ?gs)
      @ concat (map (\<lambda>w. [range_region Window w, range_region Burned (burned_of w)]) (opt_list (l_pci_window lay)))"
    using base_tree_regions [OF inp(1)] by (simp add: inp)
  show "problems (section_regions ss @ base_device_regions (dt_tree (base_tree inp))) = window_report H b (l_pci_window lay)"
    unfolding section_regions_def by (rule problems_found [OF shapes low dev H(2) cross win])
qed

lemma sections_below_window:
  assumes plan: "plan_bounded p" "plan p = Inr lay"
    and res: "p_reserved p = tatu_reserved tatu @ arch_reserved a"
    and stub: "tatu_ok tatu" "stub_placed a tatu" "stub_room bi dtb (mode = Attached) tatu"
    and sizes: "payload_sizes p img initrd relocs"
    and ss: "ss = assemble_sections tatu bi img initrd relocs dtb lay cbor mode" "pe_fits ss"
    and w: "l_pci_window lay = Some w" "unat (rstart w) = H" "H < unat (rend w)" "2 ^ 32 \<le> H"
    and s: "s \<in> set (loaded_sections ss)"
  shows "unat (sec_vaddr s) + header_size s \<le> H"
proof -
  obtain f where f: "f \<in> set (tatu_reserved tatu @ footprints lay)" "inside s f"
    using list_all2_member [OF sections_inside(1) [OF plan res stub sizes ss] s] by blast
  show ?thesis
  proof (cases "f \<in> set (footprints lay)")
    case True
    have "unat (sec_vaddr s) < H" using ss(2) s w(4) by (fastforce simp: pe_fits_def)
    from below_window [OF f(2) footprints_window [OF plan w(1) True] this w(2,3)] show ?thesis .
  next
    case False
    then have "f \<in> set (tatu_reserved tatu)" using f(1) by simp
    then have "unat (rend f) \<le> 2 ^ 32"
      using stub(2) by (auto simp: tatu_reserved_def stub_placed_def unat_add_u64)
    moreover have "unat (sec_vaddr s) + header_size s - 1 \<in> cells f" using f(2) by (auto simp: inside_def section_extent_def)
    then have "unat (sec_vaddr s) + header_size s - 1 < unat (rend f)" by (simp add: cells_def)
    ultimately show ?thesis using w(4) by linarith
  qed
qed

text \<open>
  The layout of an image: the window is all that the check can object to, when it is smaller than
  a quarter of the address space. A window starts above the fixed devices in a space of 8 GiB.
\<close>

lemma layout_problems:
  assumes plan: "plan_bounded p" "plan p = Inr lay"
    and res: "p_reserved p = tatu_reserved tatu @ arch_reserved a"
    and stub: "tatu_ok tatu" "stub_placed a tatu" "stub_room bi dtb (mode = Attached) tatu"
    and sizes: "payload_sizes p img initrd relocs"
    and ss: "ss = assemble_sections tatu bi img initrd relocs dtb lay cbor mode" "pe_fits ss"
  shows "problems (section_regions ss) = []"
    and "in_arch inp = a \<Longrightarrow> in_serial inp = l_serial lay \<Longrightarrow> in_virtio inp = l_virtio lay \<Longrightarrow>
      in_ecam inp = l_ecam lay \<Longrightarrow> in_pci_window inp = l_pci_window lay \<Longrightarrow>
      l_pci_window lay = None \<or> 33 \<le> unat (a_addr_space_bits (p_args p)) \<Longrightarrow>
      problems (section_regions ss @ base_device_regions (dt_tree (base_tree inp))) =
        (case l_pci_window lay of
           Some w \<Rightarrow> if unat (a_window_bits (p_args p)) + 2 = unat (a_addr_space_bits (p_args p)) then [] else [WindowTop (window_top w)]
         | None \<Rightarrow> [])"
proof -
  let ?X = "unat (a_addr_space_bits (p_args p))" let ?H = "(2::nat) ^ (?X - 1)"
  have X: "?X \<le> 62" using plan(1) unfolding plan_bounded_def by blast
  then have HX: "?H \<le> 2 ^ 62" by (intro power_increasing) simp_all
  have "\<forall>s\<in>set (loaded_sections ss). unat (sec_vaddr s) + header_size s \<le> 2 ^ 62" using ss(2) by (auto simp: pe_fits_def)
  note found = layout_found [OF plan res stub sizes ss _ _ HX this]
  show "problems (section_regions ss) = []" by (rule found(1)) simp_all
  assume inp: "in_arch inp = a" "in_serial inp = l_serial lay" "in_virtio inp = l_virtio lay"
      "in_ecam inp = l_ecam lay" "in_pci_window inp = l_pci_window lay"
    and space: "l_pci_window lay = None \<or> 33 \<le> ?X"
  note ok = plan_inputs_ok [OF plan inp(2-5)]
  show "problems (section_regions ss @ base_device_regions (dt_tree (base_tree inp))) =
        (case l_pci_window lay of
           Some w \<Rightarrow> if unat (a_window_bits (p_args p)) + 2 = ?X then [] else [WindowTop (window_top w)]
         | None \<Rightarrow> [])"
  proof (cases "l_pci_window lay")
    case None
    then show ?thesis using found(2) [OF _ _ ok inp, of 0] by (simp add: window_report_def)
  next
    case (Some w)
    note place = plan_window_place [OF plan Some]
    have H: "2 ^ 32 \<le> ?H" using space Some by (intro power_increasing) simp_all
    have "\<forall>s\<in>set (loaded_sections ss). unat (sec_vaddr s) + header_size s \<le> ?H"
      using sections_below_window [OF plan res stub sizes ss Some _ _ H] place(1) by simp
    from layout_found(2) [OF plan res stub sizes ss H HX order_refl this ok inp, of "unat (a_window_bits (p_args p))"] place(1) Some
    have "problems (section_regions ss @ base_device_regions (dt_tree (base_tree inp)))
      = window_report ?H (unat (a_window_bits (p_args p))) (l_pci_window lay)" by simp
    then show ?thesis by (simp only: window_report_def Some option.case place(2))
  qed
qed

end
