(* ===== verification/Build.thy ===== *)
theory Build
  imports Sane Modules TatuMain
begin

text \<open>
  The build pipeline (\<open>run\<close> in \<open>src/build.rs\<close>, and the options of \<open>src/main.rs\<close>), phase
  by phase in the order of the source, over the models of its components. File reads and writes,
  the embedded boot stub, the decoders and parsers and the writer of devicetrees are the parameter
  \<open>build_env\<close>; warnings and progress messages are left out. The outermost \<open>option\<close> is
  \<open>None\<close> when a decompression loop does not return.
\<close>

section \<open>Options\<close>

record build_args =
  ba_kernel_path :: string
  ba_initrd_path :: "string option"
  ba_module_names :: "string list"
  ba_module_tree :: "path option"
  ba_cmdline :: string
  ba_profile :: "string option"
  ba_serial :: bool
  ba_output_path :: string
  ba_config_path :: "string option"
  ba_mmio_slots :: "u32 option"
  ba_pci_slots :: "u32 option"
  ba_pci_window :: "u32 option"
  ba_min_addr_space :: "u32 option"
  ba_dtb_mode :: dtb_mode
  ba_dtb_out :: "string option"

text \<open>The options as the command line parser gives them.\<close>

record cli_args =
  cli_kernel :: string
  cli_initrd :: "string option"
  cli_modules :: "string list"
  cli_module_tree :: "path option"
  cli_cmdline :: string
  cli_profile :: "string option"
  cli_config :: "string option"
  cli_mmio_slots :: "u32 option"
  cli_pci_slots :: "u32 option"
  cli_pci_window :: "u32 option"
  cli_min_addr_space :: "u32 option"
  cli_serial :: bool
  cli_dtb :: "string option"
  cli_output :: string

definition resolve_dtb :: "string option \<Rightarrow> dtb_mode \<times> string option" where
  "resolve_dtb dtb = (case dtb of
     None \<Rightarrow> (Optional, None)
   | Some v \<Rightarrow> if v = ''attached'' then (Attached, None) else (Detached, Some v))"

definition args_of_cli :: "cli_args \<Rightarrow> build_args" where
  "args_of_cli a = (case resolve_dtb (cli_dtb a) of (mode, out) \<Rightarrow>
    \<lparr>ba_kernel_path = cli_kernel a, ba_initrd_path = cli_initrd a, ba_module_names = cli_modules a,
     ba_module_tree = cli_module_tree a, ba_cmdline = cli_cmdline a, ba_profile = cli_profile a,
     ba_serial = cli_serial a, ba_output_path = cli_output a, ba_config_path = cli_config a,
     ba_mmio_slots = cli_mmio_slots a, ba_pci_slots = cli_pci_slots a, ba_pci_window = cli_pci_window a,
     ba_min_addr_space = cli_min_addr_space a, ba_dtb_mode = mode, ba_dtb_out = out\<rparr>)"

section \<open>Environment and errors\<close>

record build_env =
  env_read :: "string \<Rightarrow> bytes option"
  env_read_text :: "string \<Rightarrow> string option"
  env_write :: "string \<Rightarrow> bytes \<Rightarrow> bool"
  env_goblin :: goblin
  env_wrappers :: wrappers
  env_ikconfig :: "bytes \<Rightarrow> string option"
  env_decoders :: decoders
  env_unpackers :: unpackers
  env_fs :: filesystem
  env_tatu :: "arch \<Rightarrow> bytes option"
  env_fdt :: "fdt_call list \<Rightarrow> bytes option"
  env_pmi :: pmi_api

datatype build_error =
    TreeWithoutModules
  | ModulesWithoutInitrd
  | ReadFailed string
  | WriteFailed string
  | NoKernelConfig
  | NoRelocationData
  | EmptyInitrd
  | ForeignArch arch
  | NoStubSection string
  | BaseDtbTooLarge nat u64
  | KernelFailed kernel_error
  | BootconfigFailed bootconfig_error
  | SlotsFailed slot_error
  | InitrdFailed initrd_error
  | ModulesFailed module_error
  | ModuleSupport module_config_error
  | ReleaseFailed release_error
  | StubFailed tatu_error
  | PlanFailed plan_error
  | BaseDtbFailed dtb_build_error
  | ManifestFailed manifest_error
  | PeFailed pe_error

text \<open>Sequencing of phases that may not return.\<close>

definition then_do :: "('e + 'a) option \<Rightarrow> ('a \<Rightarrow> ('e + 'b) option) \<Rightarrow> ('e + 'b) option" where
  "then_do m f = Option.bind m (\<lambda>r. case r of Inl e \<Rightarrow> Some (Inl e) | Inr a \<Rightarrow> f a)"

section \<open>Inputs (steps 1 and 2)\<close>

definition check_options :: "build_args \<Rightarrow> build_error + unit" where
  "check_options args =
    (if ba_module_tree args \<noteq> None \<and> ba_module_names args = [] then Inl TreeWithoutModules
     else if ba_module_names args \<noteq> [] \<and> ba_initrd_path args = None then Inl ModulesWithoutInitrd
     else try_fold (\<lambda>_ name. map_err ModulesFailed (rbind (validate_name name) (\<lambda>_. Inr ()))) () (ba_module_names args))"

definition read_input :: "build_env \<Rightarrow> string \<Rightarrow> build_error + bytes" where
  "read_input E p = ok_or (ReadFailed p) (env_read E p)"

definition read_kernel :: "build_env \<Rightarrow> build_args \<Rightarrow> build_error + bytes" where
  "read_kernel E args =
    rbind (read_input E (ba_kernel_path args)) (\<lambda>bytes.
    rbind (map_err KernelFailed (unwrap_uki (env_wrappers E) bytes)) (\<lambda>bytes.
    rbind (map_err KernelFailed (unwrap_zboot (env_wrappers E) bytes)) (\<lambda>bytes.
    map_err KernelFailed (extract_vmlinux (env_wrappers E) bytes))))"

definition read_initrd :: "build_env \<Rightarrow> build_args \<Rightarrow> build_error + bytes option" where
  "read_initrd E args = (case ba_initrd_path args of
     None \<Rightarrow> Inr None
   | Some p \<Rightarrow> rbind (read_input E p) (\<lambda>bytes. Inr (Some bytes)))"

record kernel_input =
  ki_bytes :: bytes
  ki_parsed :: parsed_kernel
  ki_image :: bytes
  ki_relocs :: relocs

definition ki_arch :: "kernel_input \<Rightarrow> arch" where
  "ki_arch k = pk_arch (ki_parsed k)"

definition lower_kernel :: "build_env \<Rightarrow> bytes \<Rightarrow> build_error + kernel_input" where
  "lower_kernel E bytes =
    rbind (map_err KernelFailed (parse_kernel (env_goblin E) bytes)) (\<lambda>parsed.
    rbind (case pk_elf parsed of
             Some _ \<Rightarrow> map_err KernelFailed (elf_load_image (env_goblin E) bytes)
           | None \<Rightarrow> Inr bytes) (\<lambda>img.
    rbind (case pk_elf parsed of
             Some _ \<Rightarrow>
               rbind (map_err KernelFailed (extract_relocs (env_goblin E) bytes)) (\<lambda>r.
               if relocs_is_empty r then Inl NoRelocationData else Inr r)
           | None \<Rightarrow> Inr no_relocs) (\<lambda>rl.
    Inr \<lparr>ki_bytes = bytes, ki_parsed = parsed, ki_image = img, ki_relocs = rl\<rparr>)))"

definition planned_size :: "bytes \<Rightarrow> u64 option" where
  "planned_size bytes = (if bytes = [] then None else Some (word_of_nat (length bytes)))"

section \<open>Settings\<close>

record settings =
  bs_space_bits :: u32
  bs_window_bits :: u32
  bs_config :: kernel_config
  bs_bootconfig :: bool
  bs_cmdline :: string
  bs_mmio_slots :: u32
  bs_pci_slots :: u32

definition load_kernel_config :: "build_env \<Rightarrow> build_args \<Rightarrow> bytes \<Rightarrow> build_error + kernel_config" where
  "load_kernel_config E args kbytes = (case ba_config_path args of
     Some p \<Rightarrow> rbind (ok_or (ReadFailed p) (env_read_text E p)) (\<lambda>t. Inr \<lparr>config_text = t\<rparr>)
   | None \<Rightarrow> ok_or NoKernelConfig (from_ikconfig (env_ikconfig E) kbytes))"

definition default_bits :: "arch \<Rightarrow> u32 \<times> u32" where
  "default_bits a = (case a of Aarch64 \<Rightarrow> (36, 34) | X86_64 \<Rightarrow> (39, 37))"

definition or_default :: "'a option \<Rightarrow> 'a \<Rightarrow> 'a" where
  "or_default m d = (case m of Some x \<Rightarrow> x | None \<Rightarrow> d)"

definition settings_of :: "build_env \<Rightarrow> build_args \<Rightarrow> arch \<Rightarrow> bytes \<Rightarrow> build_error + settings" where
  "settings_of E args a kbytes = (case default_bits a of (def_x, def_b) \<Rightarrow>
    rbind (load_kernel_config E args kbytes) (\<lambda>kcfg.
    let bootconfig = bootconfig_requested (str_bytes (ba_cmdline args));
        cmdline = serial_earlycon_cmdline (ba_serial args) (ba_cmdline args) in
    rbind (if bootconfig then map_err BootconfigFailed (check_bootconfig kcfg a cmdline) else Inr ()) (\<lambda>_.
    rbind (map_err SlotsFailed (infer_slots kcfg a (ba_mmio_slots args) (ba_pci_slots args))) (\<lambda>(mmio, pci).
    Inr \<lparr>bs_space_bits = or_default (ba_min_addr_space args) def_x,
      bs_window_bits = or_default (ba_pci_window args) def_b, bs_config = kcfg,
      bs_bootconfig = bootconfig, bs_cmdline = cmdline, bs_mmio_slots = mmio, bs_pci_slots = pci\<rparr>))))"

section \<open>Initramfs (step 3)\<close>

definition pack_module ::
  "build_env \<Rightarrow> kernel_config \<Rightarrow> module_file \<Rightarrow> (build_error + Modules.module_file) option" where
  "pack_module E kcfg f =
    then_do (Some (map_err ModuleSupport (check_module kcfg (posix_relative f)))) (\<lambda>packing.
    map_option (map_err ModulesFailed) (pack (env_unpackers E) packing f))"

fun pack_modules ::
  "build_env \<Rightarrow> kernel_config \<Rightarrow> module_file list \<Rightarrow> (build_error + module_file list) option" where
  "pack_modules E kcfg [] = Some (Inr [])"
| "pack_modules E kcfg (f # fs) =
    then_do (pack_module E kcfg f) (\<lambda>f'.
    then_do (pack_modules E kcfg fs) (\<lambda>fs'. Some (Inr (f' # fs'))))"

definition archive_result :: "(initrd_error + bytes) option \<Rightarrow> (build_error + bytes option) option" where
  "archive_result m = map_option (\<lambda>r. rbind (map_err InitrdFailed r) (\<lambda>b. Inr (Some b))) m"

definition prepare_initrd ::
  "build_env \<Rightarrow> build_args \<Rightarrow> kernel_config \<Rightarrow> bytes \<Rightarrow> bytes option \<Rightarrow> (build_error + bytes option) option" where
  "prepare_initrd E args kcfg kbytes initrd_bytes =
    (if ba_module_names args = [] then
       (case initrd_bytes of
          None \<Rightarrow> Some (Inr None)
        | Some b \<Rightarrow> archive_result (materialize (env_decoders E) (env_goblin E) b))
     else
     then_do (Some (ok_or ModulesWithoutInitrd initrd_bytes)) (\<lambda>input.
     then_do (Some (map_err InitrdFailed (check_module_init (env_goblin E) input))) (\<lambda>_.
     then_do (Some (map_err ReleaseFailed (detect (env_goblin E) kbytes))) (\<lambda>release.
     then_do (Some (map_err ModulesFailed (resolve (env_fs E) release (ba_module_tree args) (ba_module_names args)))) (\<lambda>sel.
     then_do (pack_modules E kcfg (sel_files sel)) (\<lambda>files.
     archive_result (materialize_modules (env_decoders E) (env_goblin E) input release
       (map (\<lambda>f. \<lparr>ms_path = posix_relative f, ms_bytes = mf_bytes f\<rparr>) files))))))))"

definition check_archive :: "bool \<Rightarrow> bytes option \<Rightarrow> build_error + unit" where
  "check_archive bootconfig initrd =
    (if bootconfig \<and> (case initrd of None \<Rightarrow> True | Some b \<Rightarrow> (word_of_nat (length b) :: u64) = 0)
     then Inl EmptyInitrd else Inr ())"


section \<open>Plan and base devicetree (steps 6 to 8)\<close>

definition kernel_alloc_size :: "kernel_input \<Rightarrow> u64" where
  "kernel_alloc_size k =
    compute_kernel_alloc_size (word_of_nat (length (ki_image k))) (pk_aarch64_image_size (ki_parsed k))
      (pk_elf (ki_parsed k))"

definition planner_of ::
  "build_args \<Rightarrow> settings \<Rightarrow> tatu_image \<Rightarrow> kernel_input \<Rightarrow> bytes option \<Rightarrow> bytes \<Rightarrow> planner" where
  "planner_of args st tatu k initrd relocs_bytes =
    \<lparr>p_args = \<lparr>a_serial = ba_serial args, a_mmio_slots = bs_mmio_slots st, a_pci_slots = bs_pci_slots st,
       a_window_bits = bs_window_bits st, a_addr_space_bits = bs_space_bits st\<rparr>,
     p_reserved = tatu_reserved tatu @ arch_reserved (ki_arch k),
     p_kernel = \<lparr>k_size = kernel_alloc_size k, k_align = 2 * 1024 * 1024,
       k_min_gpa = (case pk_elf (ki_parsed k) of None \<Rightarrow> 0 | Some e \<Rightarrow> em_min_paddr e)\<rparr>,
     p_initrd_size = map_option (\<lambda>b. word_of_nat (length b)) initrd,
     p_bootconfig = bs_bootconfig st,
     p_relocs_size = planned_size relocs_bytes\<rparr>"

definition initrd_extent :: "layout \<Rightarrow> (u64 \<times> u64) option" where
  "initrd_extent lay = map_option (\<lambda>r.
     let e = (case l_bootconfig lay of None \<Rightarrow> rend r | Some fill \<Rightarrow> rend fill) in (rstart r, e - rstart r))
     (l_initrd lay)"

definition dtb_inputs_of :: "arch \<Rightarrow> string \<Rightarrow> layout \<Rightarrow> dtb_inputs" where
  "dtb_inputs_of a cmdline lay =
    \<lparr>in_arch = a, in_cmdline = cmdline, in_initrd = initrd_extent lay, in_serial = l_serial lay,
     in_virtio = l_virtio lay, in_ecam = l_ecam lay, in_pci_window = l_pci_window lay\<rparr>"

definition stub_targets :: "tatu_image \<Rightarrow> bytes \<Rightarrow> build_error + tatu_section \<times> tatu_section" where
  "stub_targets tatu dtb =
    rbind (ok_or (NoStubSection ''.tatu.dtb'') (tatu_section_named tatu ''.tatu.dtb'')) (\<lambda>dtb_sec.
    if ts_virtual_size dtb_sec < word_of_nat (length dtb)
    then Inl (BaseDtbTooLarge (length dtb) (ts_virtual_size dtb_sec))
    else
    rbind (ok_or (NoStubSection ''.tatu.dtbo'') (tatu_section_named tatu ''.tatu.dtbo'')) (\<lambda>dtbo_sec.
    Inr (dtb_sec, dtbo_sec)))"

section \<open>Boot information and manifest (steps 9 and 10)\<close>

definition relocs_header_of :: "layout \<Rightarrow> relocs \<Rightarrow> relocs_header" where
  "relocs_header_of lay rl =
    \<lparr>rh_gpa = (case l_relocs lay of None \<Rightarrow> 0 | Some r \<Rightarrow> rstart r),
     rh_relocs64_count = word_of_nat (length (rl_relocs64 rl)),
     rh_relocs32neg_count = word_of_nat (length (rl_relocs32neg rl)),
     rh_relocs32_count = word_of_nat (length (rl_relocs32 rl))\<rparr>"

definition boot_info_of ::
  "layout \<Rightarrow> kernel_input \<Rightarrow> bytes \<Rightarrow> tatu_section \<times> tatu_section \<Rightarrow> arma_boot_info" where
  "boot_info_of lay k dtb targets = (case targets of (dtb_sec, dtbo_sec) \<Rightarrow>
    arma_boot_info_new (ts_vaddr dtb_sec) (word_of_nat (length dtb)) (ts_vaddr dtbo_sec)
      (ucast (ts_virtual_size dtbo_sec)) (rstart (l_linux lay)) (word_of_nat (length (ki_image k)))
      (rstart (l_linux lay) + (case pk_elf (ki_parsed k) of None \<Rightarrow> 0 | Some e \<Rightarrow> em_entry_offset e))
      (ucast (kernel_alloc_size k)) (relocs_header_of lay (ki_relocs k)))"

definition baseline_profile :: "arch \<Rightarrow> string" where
  "baseline_profile a = (case a of Aarch64 \<Rightarrow> ''armv8.0-a'' | X86_64 \<Rightarrow> ''x86-64-v2'')"

definition profile_of :: "build_args \<Rightarrow> kernel_config \<Rightarrow> arch \<Rightarrow> string" where
  "profile_of args kcfg a = raise_to_floor (or_default (ba_profile args) (baseline_profile a)) (isa_floor kcfg a) a"

section \<open>The image\<close>

text \<open>What the phases up to the manifest compute.\<close>

record built =
  bu_arch :: arch
  bu_kernel :: kernel_input
  bu_settings :: settings
  bu_initrd :: "bytes option"
  bu_stub :: tatu_image
  bu_planner :: planner
  bu_layout :: layout
  bu_inputs :: dtb_inputs
  bu_dtb :: bytes
  bu_boot_info :: bytes
  bu_cbor :: bytes

definition plan_image ::
  "build_env \<Rightarrow> build_args \<Rightarrow> settings \<Rightarrow> kernel_input \<Rightarrow> bytes option \<Rightarrow> build_error + built" where
  "plan_image E args st k initrd =
    (let a = ki_arch k; relocs_bytes = relocs_section_bytes (ki_relocs k) in
    rbind (ok_or (ForeignArch a) (env_tatu E a)) (\<lambda>tatu_elf.
    rbind (map_err StubFailed (parse_tatu (env_goblin E) tatu_elf a)) (\<lambda>tatu.
    let p = planner_of args st tatu k initrd relocs_bytes in
    rbind (map_err PlanFailed (plan p)) (\<lambda>lay.
    let inputs = dtb_inputs_of a (bs_cmdline st) lay in
    rbind (map_err BaseDtbFailed (build_base_dtb (env_fdt E) inputs)) (\<lambda>dtb.
    rbind (stub_targets tatu dtb) (\<lambda>targets.
    let bi = to_section_bytes (boot_info_of lay k dtb targets) in
    rbind (map_err ManifestFailed (build_pmi_vm (env_pmi E) a tatu (gpas_of lay)
        (profile_of args (bs_config st) a) (ba_dtb_mode args))) (\<lambda>cbor.
    Inr \<lparr>bu_arch = a, bu_kernel = k, bu_settings = st, bu_initrd = initrd, bu_stub = tatu, bu_planner = p,
      bu_layout = lay, bu_inputs = inputs, bu_dtb = dtb, bu_boot_info = bi, bu_cbor = cbor\<rparr>)))))))"

definition build_image :: "build_env \<Rightarrow> build_args \<Rightarrow> (build_error + built) option" where
  "build_image E args =
    then_do (Some (check_options args)) (\<lambda>_.
    then_do (Some (read_kernel E args)) (\<lambda>kbytes.
    then_do (Some (read_initrd E args)) (\<lambda>initrd_bytes.
    then_do (Some (lower_kernel E kbytes)) (\<lambda>k.
    then_do (Some (settings_of E args (ki_arch k) kbytes)) (\<lambda>st.
    then_do (prepare_initrd E args (bs_config st) kbytes initrd_bytes) (\<lambda>initrd.
    then_do (Some (check_archive (bs_bootconfig st) initrd)) (\<lambda>_.
    Some (plan_image E args st k initrd))))))))"

section \<open>Output (steps 11 and 12)\<close>

definition image_sections :: "dtb_mode \<Rightarrow> built \<Rightarrow> pe_section list" where
  "image_sections mode b =
    assemble_sections (bu_stub b) (bu_boot_info b) (ki_image (bu_kernel b)) (bu_initrd b)
      (relocs_section_bytes (ki_relocs (bu_kernel b))) (bu_dtb b) (bu_layout b) (bu_cbor b) mode"

type_synonym writes = "(string \<times> bytes) list"

definition write_file :: "build_env \<Rightarrow> string \<Rightarrow> bytes \<Rightarrow> writes \<times> (build_error + unit)" where
  "write_file E p bytes = (if env_write E p bytes then ([(p, bytes)], Inr ()) else ([], Inl (WriteFailed p)))"

definition write_base :: "build_env \<Rightarrow> build_args \<Rightarrow> built \<Rightarrow> writes \<times> (build_error + unit)" where
  "write_base E args b = (case (ba_dtb_mode args, ba_dtb_out args) of
     (Detached, Some p) \<Rightarrow> write_file E p (bu_dtb b)
   | _ \<Rightarrow> ([], Inr ()))"

definition write_image :: "build_env \<Rightarrow> build_args \<Rightarrow> built \<Rightarrow> writes \<times> (build_error + unit)" where
  "write_image E args b = (case write_base E args b of
     (ws, Inl e) \<Rightarrow> (ws, Inl e)
   | (ws, Inr _) \<Rightarrow>
      (case build_pe (pe_machine (bu_arch b)) (image_sections (ba_dtb_mode args) b) of
         Inl e \<Rightarrow> (ws, Inl (PeFailed e))
       | Inr pe \<Rightarrow> (case write_file E (ba_output_path args) pe of (ws', r) \<Rightarrow> (ws @ ws', r))))"

text \<open>The files that are replaced, in order, and the result.\<close>

definition build_run :: "build_env \<Rightarrow> build_args \<Rightarrow> (writes \<times> (build_error + unit)) option" where
  "build_run E args = map_option (\<lambda>r. case r of
     Inl e \<Rightarrow> ([], Inl e)
   | Inr b \<Rightarrow> write_image E args b) (build_image E args)"

end
