(* ===== verification/CheckedBuild.thy ===== *)
theory CheckedBuild
  imports Build
begin

text \<open>
  What a successful build has done: the files it has replaced, and what \<open>arma check\<close> says of
  the image. The checker reads the image through \<open>pe_view\<close>, the section table as the PE format
  lays it out.
\<close>

section \<open>The section table of a file\<close>

definition pe_view_at :: "bytes \<Rightarrow> nat \<Rightarrow> pe_view_section" where
  "pe_view_at buf i = (let p = section_at buf i in
    \<lparr>pv_name = Some (bytes_str (section_name (string_table buf) (byte_slice buf p 8))),
     pv_virtual_address = u32_at buf (p + 12), pv_virtual_size = u32_at buf (p + 8),
     pv_pointer_to_raw_data = u32_at buf (p + 20), pv_size_of_raw_data = u32_at buf (p + 16)\<rparr>)"

definition pe_view :: "bytes \<Rightarrow> pe_view_section list" where
  "pe_view buf = map (pe_view_at buf) [0..<unat (u16_at buf (coff_at buf + 2))]"

text \<open>An entry of the table stands for a section.\<close>

definition views :: "bytes \<Rightarrow> pe_view_section \<Rightarrow> pe_section \<Rightarrow> bool" where
  "views buf v s \<longleftrightarrow> pv_name v = Some (sec_name s) \<and> CHR 0x00 \<notin> set (sec_name s)
     \<and> unat (pv_virtual_address v) = (if sec_non_loaded s then 0 else unat (sec_vaddr s))
     \<and> (\<not> sec_non_loaded s \<longrightarrow> unat (pv_virtual_size v) = header_size s)
     \<and> (\<exists>k. get_range buf (unat (pv_pointer_to_raw_data v))
          (unat (pv_pointer_to_raw_data v) + unat (pv_size_of_raw_data v)) = Some (sec_data s @ replicate k 0))"

lemma data_pages_eq: "4096 dvd z \<Longrightarrow> n \<le> z \<Longrightarrow> z < n + 4096 \<Longrightarrow> z = data_pages n"
proof -
  assume z: "4096 dvd z" "n \<le> z" "z < n + 4096"
  then obtain k where k: "z = 4096 * k" by (elim dvdE)
  with z have "(n + 4095) div 4096 = k" by (intro div_nat_eqI) simp_all
  then show ?thesis by (simp add: data_pages_def k)
qed

lemma reads_section_views:
  assumes "reads_section buf n i s" "CHR 0x00 \<notin> set (sec_name s)" "plain_name s"
  shows "views buf (pe_view_at buf i) s"
proof -
  let ?p = "section_at buf i"
  let ?ptr = "unat (u32_at buf (?p + 20))" and ?sz = "unat (u32_at buf (?p + 16))"
  note r = assms(1) [unfolded reads_section_def Let_def]
  have "\<exists>k. get_range buf ?ptr (?ptr + ?sz) = Some (sec_data s @ replicate k 0)"
  proof (cases "is_zero_shape s")
    case True
    then show ?thesis using r by (simp add: get_range_def is_zero_shape_def)
  next
    case False
    then have "byte_slice buf ?ptr ?sz = sec_data s @ replicate (?sz - length (sec_data s)) 0" "?ptr + ?sz \<le> length buf"
      using r by simp_all
    then show ?thesis by (auto simp: get_range_def byte_slice_def)
  qed
  moreover have "unat (u32_at buf (?p + 8)) = header_size s" if "\<not> sec_non_loaded s"
  proof (cases "is_zero_shape s")
    case True
    then show ?thesis using r that by (simp add: header_size_def)
  next
    case False
    then have "?sz = data_pages (length (sec_data s))" using r by (intro data_pages_eq) simp_all
    then show ?thesis using r that False by (simp add: header_size_def)
  qed
  ultimately show ?thesis using r assms(2,3) by (simp add: views_def pe_view_at_def Let_def)
qed

lemma pe_view_sections:
  assumes "build_pe machine ss = Inr buf" "\<forall>s\<in>set ss. plain_name s"
  shows "list_all2 (views buf) (pe_view buf) ss"
proof -
  from build_pe_layout [OF assms(1)] obtain L where L: "layout_ok ss L"
    and buf: "buf = apply_writes (pe_writes machine ss L) (replicate (unat (pl_file_size L)) 0)" by blast
  note head = pe_file_headers [OF L buf]
  have n: "length (pe_view buf) = length ss" using head by (simp add: pe_view_def)
  have "views buf (pe_view_at buf i) (ss ! i)" if i: "i < length ss" for i
  proof (rule reads_section_views)
    show "reads_section buf (length ss) i (ss ! i)" by (rule pe_section_read(1) [OF L buf i])
    show "plain_name (ss ! i)" using assms(2) i by simp
    show "CHR 0x00 \<notin> set (sec_name (ss ! i))" using L i by (simp add: layout_ok_def)
  qed
  then show ?thesis using n by (simp add: list_all2_conv_all_nth pe_view_def)
qed

lemma trim_nul_id: "CHR 0x00 \<notin> set s \<Longrightarrow> trim_nul s = s"
  by (cases s rule: rev_cases) (auto simp: trim_nul_def)

lemma views_fits:
  assumes "list_all2 (views buf) vs ss"
  shows "pe_fits ss"
  unfolding pe_fits_def
proof
  fix s assume "s \<in> set (loaded_sections ss)"
  then have s: "s \<in> set ss" "\<not> sec_non_loaded s" by (auto simp: loaded_sections_def)
  then obtain v where "views buf v s" using assms by (auto simp: list_all2_conv_all_nth in_set_conv_nth)
  then have "unat (sec_vaddr s) = unat (pv_virtual_address v)" "header_size s = unat (pv_virtual_size v)"
    using s(2) by (simp_all add: views_def)
  then show "unat (sec_vaddr s) < 2 ^ 32 \<and> header_size s < 2 ^ 32" using unat_u32_less by simp
qed

lemma views_region:
  assumes "views buf v s"
  shows "payload_regions [v] = (if sec_non_loaded s \<or> sec_vaddr s = 0 then [] else [section_region s])"
proof (cases "sec_non_loaded s")
  case True
  then have "pv_virtual_address v = 0" using assms by (simp add: views_def unat_eq_zero)
  then show ?thesis using True by (simp add: payload_regions_def Let_def)
next
  case False
  then have u: "unat (pv_virtual_address v) = unat (sec_vaddr s)" "unat (pv_virtual_size v) = header_size s"
    using assms by (simp_all add: views_def)
  have a: "ucast (pv_virtual_address v) = sec_vaddr s" using u(1) by (simp add: word_unat_eq_iff unat_ucast_up)
  have z: "ucast (pv_virtual_size v) = (word_of_nat (header_size s) :: u64)" 
    by (simp add: u(2) [symmetric] word_unat_eq_iff unat_ucast_up unat_of_nat)
  have n: "pv_name v = Some (sec_name s)" "trim_nul (sec_name s) = sec_name s"
    using assms by (simp_all add: views_def trim_nul_id)
  show ?thesis using False by (simp add: payload_regions_def Let_def a z n section_region_def word_gt_0)
qed

lemma payload_regions_append: "payload_regions (vs @ ws) = payload_regions vs @ payload_regions ws"
  by (simp add: payload_regions_def)

lemma views_regions: "list_all2 (views buf) vs ss \<Longrightarrow> payload_regions vs = section_regions ss"
proof (induction rule: list_all2_induct)
  case (Cons v vs s ss)
  have "payload_regions (v # vs) = payload_regions [v] @ payload_regions vs"
    using payload_regions_append [of "[v]" vs] by simp
  then show ?case using Cons by (simp add: views_region section_regions_def loaded_sections_def)
qed (simp add: payload_regions_def section_regions_def loaded_sections_def)

lemma views_raw:
  assumes "list_all2 (views buf) vs ss" "find (\<lambda>s. sec_name s = name) ss = Some s"
  shows "\<exists>k. section_raw buf vs name = Some (sec_data s @ replicate k 0)"
  using assms
proof (induction rule: list_all2_induct)
  case (Cons v vs t ss)
  have n: "trim_nul (case pv_name v of Some n \<Rightarrow> n | None \<Rightarrow> []) = sec_name t"
    using Cons.hyps(1) by (simp add: views_def trim_nul_id)
  show ?case
  proof (cases "sec_name t = name")
    case True
    then show ?thesis using Cons.hyps(1) Cons.prems n by (simp add: section_raw_def Let_def views_def)
  next
    case False
    then show ?thesis using Cons n by (simp add: section_raw_def)
  qed
qed simp

section \<open>What a build computes\<close>

lemma then_do_Inr: "then_do m f = Some (Inr y) \<longleftrightarrow> (\<exists>x. m = Some (Inr x) \<and> f x = Some (Inr y))"
proof (cases m)
  case (Some r)
  then show ?thesis by (cases r) (simp_all add: then_do_def)
qed (simp add: then_do_def)

lemma build_image_planned:
  assumes "build_image E args = Some (Inr b)"
  shows "\<exists>st k initrd. plan_image E args st k initrd = Inr b"
  using assms by (auto simp: build_image_def then_do_Inr)

text \<open>The facts about a computed image that the rest needs.\<close>

definition image_ok :: "build_env \<Rightarrow> build_args \<Rightarrow> built \<Rightarrow> bool" where
  "image_ok E args b \<longleftrightarrow>
     plan (bu_planner b) = Inr (bu_layout b)
     \<and> p_reserved (bu_planner b) = tatu_reserved (bu_stub b) @ arch_reserved (bu_arch b)
     \<and> payload_sizes (bu_planner b) (ki_image (bu_kernel b)) (bu_initrd b) (relocs_section_bytes (ki_relocs (bu_kernel b)))
     \<and> k_size (p_kernel (bu_planner b)) = kernel_alloc_size (bu_kernel b)
     \<and> length (bu_boot_info b) = 0x1000
     \<and> (\<exists>targets. stub_targets (bu_stub b) (bu_dtb b) = Inr targets \<and>
          bu_boot_info b = to_section_bytes (boot_info_of (bu_layout b) (bu_kernel b) (bu_dtb b) targets))
     \<and> (\<forall>s. tatu_section_named (bu_stub b) SECTION_DTB = Some s \<longrightarrow> word_of_nat (length (bu_dtb b)) \<le> ts_virtual_size s)
     \<and> bu_inputs b = dtb_inputs_of (bu_arch b) (in_cmdline (bu_inputs b)) (bu_layout b)
     \<and> env_fdt E (base_dtb_calls (bu_inputs b)) = Some (bu_dtb b)
     \<and> (\<exists>profile. build_pmi_vm (env_pmi E) (bu_arch b) (bu_stub b) (gpas_of (bu_layout b)) profile (ba_dtb_mode args)
          = Inr (bu_cbor b))"

lemma compute_kernel_alloc_size_ge: "n \<le> compute_kernel_alloc_size n a e"
  by (simp add: compute_kernel_alloc_size_def split: option.splits)

lemma planner_sizes:
  "payload_sizes (planner_of args st tatu k initrd (relocs_section_bytes (ki_relocs k)))
    (ki_image k) initrd (relocs_section_bytes (ki_relocs k))"
  by (simp add: payload_sizes_def planner_of_def kernel_alloc_size_def compute_kernel_alloc_size_ge planned_size_def)

lemma section_bytes_length: "length (to_section_bytes (boot_info_of lay k dtb targets)) = 0x1000"
  by (cases targets) (simp add: to_section_bytes_def SECTION_SIZE_def arma_boot_info_bytes_def boot_info_of_def
      arma_boot_info_new_def MAGIC_def str_bytes_def)

lemma plan_image_ok:
  assumes "plan_image E args st k initrd = Inr b"
  shows "image_ok E args b"
proof -
  let ?relocs = "relocs_section_bytes (ki_relocs k)"
  from assms obtain tatu lay dtb targets cbor where s:
    "plan (planner_of args st tatu k initrd ?relocs) = Inr lay"
    "build_base_dtb (env_fdt E) (dtb_inputs_of (ki_arch k) (bs_cmdline st) lay) = Inr dtb"
    "stub_targets tatu dtb = Inr targets"
    "build_pmi_vm (env_pmi E) (ki_arch k) tatu (gpas_of lay) (profile_of args (bs_config st) (ki_arch k)) (ba_dtb_mode args) = Inr cbor"
    and b: "b = \<lparr>bu_arch = ki_arch k, bu_kernel = k, bu_settings = st, bu_initrd = initrd, bu_stub = tatu,
      bu_planner = planner_of args st tatu k initrd ?relocs, bu_layout = lay,
      bu_inputs = dtb_inputs_of (ki_arch k) (bs_cmdline st) lay, bu_dtb = dtb,
      bu_boot_info = to_section_bytes (boot_info_of lay k dtb targets), bu_cbor = cbor\<rparr>"
    unfolding plan_image_def Let_def rbind_eq_Inr map_err_eq_Inr ok_or_eq_Inr by blast
  have "word_of_nat (length dtb) \<le> ts_virtual_size d" if "tatu_section_named tatu SECTION_DTB = Some d" for d
    using s(3) that by (auto simp: stub_targets_def result_simps SECTION_DTB_def not_less split: if_splits)
  moreover have "env_fdt E (base_dtb_calls (dtb_inputs_of (ki_arch k) (bs_cmdline st) lay)) = Some dtb"
    using s(2) by (auto simp: build_base_dtb_def result_simps)
  moreover have "p_reserved (planner_of args st tatu k initrd ?relocs) = tatu_reserved tatu @ arch_reserved (ki_arch k)"
    by (simp add: planner_of_def)
  moreover have "k_size (p_kernel (planner_of args st tatu k initrd ?relocs)) = kernel_alloc_size k"
    by (simp add: planner_of_def)
  ultimately show ?thesis using s(1,3,4) planner_sizes section_bytes_length
    by (auto simp: image_ok_def b dtb_inputs_of_def)
qed

section \<open>Finding a section by its name\<close>

text \<open>The sections of the stub carry its prefix.\<close>

definition stub_named :: "tatu_image \<Rightarrow> bool" where
  "stub_named tatu \<longleftrightarrow> (\<forall>s\<in>set (tg_sections tatu). take 6 (ts_name s) = ''.tatu.'')"

lemmas SECTION_defs = SECTION_LINUX_def SECTION_INITRD_def SECTION_BOOTCONFIG_def SECTION_RELOCS_def SECTION_DTB_def
  SECTION_DTB_FALLBACK_def SECTION_PMI_VM_def

lemma assembled_names:
  assumes "s \<in> set (assemble_sections tatu bi img initrd relocs dtb lay cbor mode)"
  shows "(\<exists>t\<in>set (tg_sections tatu). sec_name s = ts_name t)
    \<or> sec_name s \<in> {SECTION_DTB_FALLBACK, SECTION_LINUX, SECTION_INITRD, SECTION_BOOTCONFIG, SECTION_RELOCS, SECTION_PMI_VM}"
  using assms
  by (auto simp: assemble_sections_def stub_section_def payload_section_def carried_section_def split: option.splits if_splits)

lemma assembled_plain:
  assumes "stub_named tatu" "s \<in> set (assemble_sections tatu bi img initrd relocs dtb lay cbor mode)"
  shows "plain_name s"
proof -
  have "take 1 n = ''.''" if "take 6 n = ''.tatu.''" for n :: string using that by (cases n) auto
  then show ?thesis using assembled_names [OF assms(2)] assms(1)
    by (auto simp: plain_name_def stub_named_def SECTION_defs)
qed

lemma find_appended:
  "(\<forall>x\<in>set xs. \<not> P x) \<Longrightarrow> find P (xs @ ys) = find P ys"
  by (induction xs) auto

lemma assembled_manifest:
  assumes "stub_named tatu"
  shows "find (\<lambda>s. sec_name s = SECTION_PMI_VM) (assemble_sections tatu bi img initrd relocs dtb lay cbor mode)
    = Some (carried_section SECTION_PMI_VM cbor)"
proof -
  obtain xs where xs: "assemble_sections tatu bi img initrd relocs dtb lay cbor mode = xs @ [carried_section SECTION_PMI_VM cbor]"
    and n: "\<forall>s\<in>set xs. sec_name s \<noteq> SECTION_PMI_VM"
  proof
    show "assemble_sections tatu bi img initrd relocs dtb lay cbor mode =
      butlast (assemble_sections tatu bi img initrd relocs dtb lay cbor mode) @ [carried_section SECTION_PMI_VM cbor]"
      by (simp add: assemble_sections_def butlast_append)
    show "\<forall>s\<in>set (butlast (assemble_sections tatu bi img initrd relocs dtb lay cbor mode)). sec_name s \<noteq> SECTION_PMI_VM"
      using assms
      by (auto simp: assemble_sections_def butlast_append stub_section_def payload_section_def carried_section_def stub_named_def
          SECTION_defs split: option.splits if_splits)
  qed
  show ?thesis unfolding xs find_appended [OF n] by (simp add: carried_section_def)
qed

lemma assembled_base:
  assumes "stub_ok tatu" "stub_named tatu" "dtb_attribute mode = Some name"
  shows "\<exists>s. find (\<lambda>s. sec_name s = name) (assemble_sections tatu bi img initrd relocs dtb lay cbor mode) = Some s \<and> sec_data s = dtb"
proof (cases mode)
  case Attached
  from assms(1) obtain d where d: "d \<in> set (tg_sections tatu)" "ts_name d = SECTION_DTB"
    and dist: "distinct (map ts_name (tg_sections tatu))" and ok: "tatu_ok tatu" by (auto simp: stub_ok_def)
  have "find (\<lambda>s. sec_name s = SECTION_DTB) (map (stub_section bi dtb True) (tg_sections tatu) @ ys) = Some (stub_section bi dtb True d)" for ys
  proof -
    have "find (\<lambda>s. sec_name s = SECTION_DTB) (map (stub_section bi dtb True) xs @ ys) =
      Some (stub_section bi dtb True d)" if "find (\<lambda>s. ts_name s = SECTION_DTB) xs = Some d" for xs
      using that by (induction xs) (auto simp: stub_section_def split: if_splits)
    then show ?thesis using filter_unique(2) [OF dist d(1), unfolded d(2)] by blast
  qed
  moreover have "sec_data (stub_section bi dtb True d) = dtb"
    using ok d names_differ by (simp add: stub_section_def stub_data_def tatu_ok_def)
  ultimately show ?thesis using assms(3) Attached by (simp add: dtb_attribute_def assemble_sections_def)
next
  case Optional
  have "\<forall>s\<in>set (map (stub_section bi dtb False) (tg_sections tatu)). sec_name s \<noteq> SECTION_DTB_FALLBACK"
    using assms(2) by (auto simp: stub_section_def stub_named_def SECTION_defs)
  from find_appended [OF this] show ?thesis
    using assms(3) Optional by (simp add: dtb_attribute_def assemble_sections_def carried_section_def)
qed (use assms(3) in \<open>simp add: dtb_attribute_def\<close>)

section \<open>The files that are written\<close>

text \<open>The base devicetree of a detached build.\<close>

definition base_write :: "build_args \<Rightarrow> built \<Rightarrow> writes" where
  "base_write args b = (case (ba_dtb_mode args, ba_dtb_out args) of (Detached, Some p) \<Rightarrow> [(p, bu_dtb b)] | _ \<Rightarrow> [])"

lemma write_file_cases:
  "write_file E p x = ([(p, x)], Inr ()) \<and> env_write E p x \<or> write_file E p x = ([], Inl (WriteFailed p)) \<and> \<not> env_write E p x"
  by (simp add: write_file_def)

lemma write_base_cases:
  "write_base E args b = (base_write args b, Inr ()) \<or> (\<exists>p. ba_dtb_out args = Some p \<and> write_base E args b = ([], Inl (WriteFailed p)))"
  using write_file_cases by (fastforce simp: write_base_def base_write_def split: dtb_mode.splits option.splits)

lemma write_image_cases:
  obtains (base) p where "write_image E args b = ([], Inl (WriteFailed p))"
    | (sections) e where "write_image E args b = (base_write args b, Inl (PeFailed e))"
    | (unwritten) "write_image E args b = (base_write args b, Inl (WriteFailed (ba_output_path args)))"
    | (written) pe where "build_pe (pe_machine (bu_arch b)) (image_sections (ba_dtb_mode args) b) = Inr pe"
        "write_image E args b = (base_write args b @ [(ba_output_path args, pe)], Inr ())"
proof (cases "write_base E args b = (base_write args b, Inr ())")
  case True
  show ?thesis
  proof (cases "build_pe (pe_machine (bu_arch b)) (image_sections (ba_dtb_mode args) b)")
    case (Inr pe)
    then show ?thesis using True write_file_cases [of E "ba_output_path args" pe] unwritten written
      by (auto simp: write_image_def)
  qed (use True sections in \<open>simp add: write_image_def\<close>)
next
  case False
  then obtain p where "write_base E args b = ([], Inl (WriteFailed p))" using write_base_cases by blast
  then show ?thesis using base by (simp add: write_image_def)
qed

lemma write_image_Inr:
  assumes "write_image E args b = (ws, Inr u)"
  shows "\<exists>pe. build_pe (pe_machine (bu_arch b)) (image_sections (ba_dtb_mode args) b) = Inr pe
    \<and> ws = base_write args b @ [(ba_output_path args, pe)]"
  using assms by (cases E args b rule: write_image_cases) auto

lemma write_image_Inl:
  assumes "write_image E args b = (ws, Inl e)"
  shows "ws = [] \<or> ws = base_write args b"
  using assms by (cases E args b rule: write_image_cases) auto

text \<open>A build returns when the decoders consume what they decode.\<close>

definition env_consumes :: "build_env \<Rightarrow> bool" where
  "env_consumes E \<longleftrightarrow> consuming (env_decoders E)
     \<and> (\<forall>bs d rest. zstd_stream (env_unpackers E) bs = Some (d, rest) \<longrightarrow> length rest < length bs)"

definition returns :: "'a option \<Rightarrow> bool" where
  "returns m \<longleftrightarrow> m \<noteq> None"

lemma returns_simps [simp]: "returns (Some x)" "\<not> returns None" "returns (map_option f m) \<longleftrightarrow> returns m"
  by (cases m; simp add: returns_def)+

lemma then_do_returns [intro]: "returns m \<Longrightarrow> (\<And>a. m = Some (Inr a) \<Longrightarrow> returns (f a)) \<Longrightarrow> returns (then_do m f)"
  by (auto simp: then_do_def returns_def split: sum.splits)

lemma materialize_total: "consuming D \<Longrightarrow> returns (materialize D G input)"
  using gzip_members_returns [of D "[]" input] zstd_frames_returns [of D "[]" input]
  by (auto simp: materialize_def)

lemma materialize_modules_total: "consuming D \<Longrightarrow> returns (materialize_modules D G input release ms)"
  using materialize_total by (simp add: materialize_modules_def split: sum.splits)

lemma pack_module_total: "env_consumes E \<Longrightarrow> returns (pack_module E kcfg f)"
  using zstd_loop_returns [of "env_unpackers E" MAX_DECOMPRESSED_SIZE "[]" "mf_bytes f"]
  by (auto simp: pack_module_def pack_def pack_with_limit_def unpack_def env_consumes_def intro!: then_do_returns split: module_packing.splits)

lemma pack_modules_total: "env_consumes E \<Longrightarrow> returns (pack_modules E kcfg fs)"
  by (induction fs) (auto intro!: then_do_returns pack_module_total)

lemma prepare_initrd_total:
  assumes "env_consumes E"
  shows "returns (prepare_initrd E args kcfg kbytes initrd)"
  using assms pack_modules_total [OF assms]
  by (auto simp: prepare_initrd_def archive_result_def env_consumes_def materialize_total materialize_modules_total
      intro!: then_do_returns split: option.splits)

lemma build_image_total: "env_consumes E \<Longrightarrow> returns (build_image E args)"
  unfolding build_image_def by (intro then_do_returns returns_simps prepare_initrd_total)

text \<open>
  C38. A build returns, when the decoders consume what they decode, and replaces the output only
  when it succeeds: then the files it has written are the base devicetree of a detached build and,
  last, the output, which holds the PE file of the assembled sections. A build that fails has
  replaced nothing, or the detached base devicetree of an image it had already computed.
\<close>

theorem build_run_outcome:
  assumes "env_consumes E"
  shows "\<exists>ws r. build_run E args = Some (ws, r) \<and> (case r of
     Inr _ \<Rightarrow> \<exists>b pe. build_image E args = Some (Inr b) \<and>
       build_pe (pe_machine (bu_arch b)) (image_sections (ba_dtb_mode args) b) = Inr pe \<and>
       ws = base_write args b @ [(ba_output_path args, pe)]
   | Inl e \<Rightarrow> ws = [] \<or> (\<exists>b. build_image E args = Some (Inr b) \<and> ws = base_write args b))"
proof -
  obtain x where x: "build_image E args = Some x" using build_image_total [OF assms] by (auto simp: returns_def)
  obtain ws r where w: "(ws, r) = (case x of Inl e \<Rightarrow> ([], Inl e) | Inr b \<Rightarrow> write_image E args b)"
    by (metis surj_pair)
  then have run: "build_run E args = Some (ws, r)" by (simp add: build_run_def x)
  show ?thesis
  proof (cases x)
    case (Inr b)
    then have "write_image E args b = (ws, r)" using w by simp
    then show ?thesis using x Inr run write_image_Inr write_image_Inl by (cases r) fastforce+
  qed (use w run in simp)
qed

section \<open>The image is clean\<close>

text \<open>
  What the parsers of the check are documented to do on what the writers of the build have written:
  the section table of a PE file whose section names are plain, a devicetree with bytes after its
  end, and the entries of an encoded manifest, of which only the attribute of the base devicetree
  matters.
\<close>

definition reads_manifest :: "('n, 'p) check_api \<Rightarrow> bytes \<Rightarrow> string option \<Rightarrow> bool" where
  "reads_manifest A out attr \<longleftrightarrow>
     (\<forall>k. \<exists>entries. decode_cbor A (out @ replicate k 0) = Some (CborMap entries) \<and> attribute_in entries = Inr attr)"

definition reads_outputs :: "(dnode, string \<times> bytes) check_api \<Rightarrow> build_env \<Rightarrow> bool" where
  "reads_outputs A E \<longleftrightarrow>
     (\<forall>machine ss buf. build_pe machine ss = Inr buf \<longrightarrow> (\<forall>s\<in>set ss. plain_name s) \<longrightarrow> view_pe A buf = Some (pe_view buf))
     \<and> (\<forall>calls out t k. env_fdt E calls = Some out \<longrightarrow> tree_of calls = Some t \<longrightarrow>
          view_dtb A (out @ replicate k 0) = Some (dt_tree t))
     \<and> (\<forall>s out. encode_x86 (env_pmi E) s = Some out \<longrightarrow> reads_manifest A out (spec_dt_dtb s))
     \<and> (\<forall>s out. encode_arm (env_pmi E) s = Some out \<longrightarrow> reads_manifest A out (spec_dt_dtb s))"

lemma manifest_read:
  assumes "reads_outputs A E" "build_pmi_vm (env_pmi E) a tatu gpas profile mode = Inr cbor"
  shows "reads_manifest A cbor (dtb_attribute mode)"
proof -
  have x86: "reads_manifest A out (spec_dt_dtb s)" if "encode_x86 (env_pmi E) s = Some out" for s out
    using assms(1) that unfolding reads_outputs_def by blast
  have arm: "reads_manifest A out (spec_dt_dtb s)" if "encode_arm (env_pmi E) s = Some out" for s out
    using assms(1) that unfolding reads_outputs_def by blast
  show ?thesis using assms(2)
    by (auto simp: build_pmi_vm_def build_spec_x86_def build_spec_arm_def result_simps dest!: x86 arm split: arch.splits)
qed

text \<open>What the embedded stub is relied on for.\<close>

definition stub_fits :: "built \<Rightarrow> bool" where
  "stub_fits b \<longleftrightarrow> stub_ok (bu_stub b) \<and> stub_placed (bu_arch b) (bu_stub b) \<and> stub_named (bu_stub b)"

lemma image_stub_room:
  assumes "image_ok E args b" "stub_ok (bu_stub b)" "pe_fits (image_sections (ba_dtb_mode args) b)"
  shows "stub_room (bu_boot_info b) (bu_dtb b) (ba_dtb_mode args = Attached) (bu_stub b)"
proof -
  let ?secs = "tg_sections (bu_stub b)"
  have "length (bu_dtb b) \<le> unat (ts_virtual_size s)"
    if m: "ba_dtb_mode args = Attached" and s: "s \<in> set ?secs" "ts_name s = SECTION_DTB" for s
  proof -
    have "tatu_section_named (bu_stub b) SECTION_DTB = Some s"
      using filter_unique(2) [of ts_name ?secs s] s assms(2) by (simp add: stub_ok_def tatu_section_named_def)
    then have le: "word_of_nat (length (bu_dtb b)) \<le> ts_virtual_size s" using assms(1) by (simp add: image_ok_def)
    let ?t = "stub_section (bu_boot_info b) (bu_dtb b) True s"
    have "?t \<in> set (loaded_sections (image_sections (ba_dtb_mode args) b))"
      using m s by (simp add: image_sections_def loaded_assemble)
    then have "header_size ?t < 2 ^ 32" using assms(3) by (simp add: pe_fits_def)
    moreover have "sec_data ?t = bu_dtb b"
      using assms(2) s names_differ by (simp add: stub_section_def stub_data_def tatu_ok_def stub_ok_def)
    ultimately have "length (bu_dtb b) < 2 ^ 32" using header_size_data [of ?t] by simp
    then show ?thesis using le by (simp add: word_le_nat_alt unat_of_nat)
  qed
  then show ?thesis using assms(1) by (simp add: stub_room_def image_ok_def)
qed

text \<open>The regions that the check finds in an image.\<close>

lemma image_regions_built:
  assumes "image_ok E args b" "reads_outputs A E" "stub_ok (bu_stub b)" "stub_named (bu_stub b)"
    and ss: "ss = image_sections (ba_dtb_mode args) b" and pe: "build_pe machine ss = Inr pe"
    and views: "list_all2 (views pe) (pe_view pe) ss"
  shows "image_regions A pe = Inr (section_regions ss @
    (if ba_dtb_mode args = Detached then [] else base_device_regions (dt_tree (base_tree (bu_inputs b)))))"
proof -
  let ?vs = "pe_view pe"
  note asm = ss [unfolded image_sections_def]
  have "\<forall>s\<in>set ss. plain_name s" using assembled_plain [OF assms(4)] unfolding asm by blast
  then have vp: "view_pe A pe = Some ?vs" using assms(2) pe unfolding reads_outputs_def by blast
  obtain k where k: "section_raw pe ?vs SECTION_PMI_VM = Some (bu_cbor b @ replicate k 0)"
    using views_raw [OF views, of SECTION_PMI_VM] assembled_manifest [OF assms(4)] unfolding asm
    by (fastforce simp: carried_section_def)
  have "reads_manifest A (bu_cbor b) (dtb_attribute (ba_dtb_mode args))"
    using manifest_read [OF assms(2)] assms(1) unfolding image_ok_def by blast
  then obtain entries where "decode_cbor A (bu_cbor b @ replicate k 0) = Some (CborMap entries)"
    "attribute_in entries = Inr (dtb_attribute (ba_dtb_mode args))" unfolding reads_manifest_def by blast
  then have attr: "dt_dtb_attribute A pe ?vs = Inr (dtb_attribute (ba_dtb_mode args))"
    using k by (simp add: dt_dtb_attribute_def SECTION_PMI_VM_def)
  show ?thesis
  proof (cases "dtb_attribute (ba_dtb_mode args)")
    case None
    then have "ba_dtb_mode args = Detached" by (simp add: dtb_attribute_def split: dtb_mode.splits)
    then show ?thesis using vp attr None by (simp add: image_regions_def bundled_dtb_bytes_def views_regions [OF views])
  next
    case (Some name)
    then have m: "ba_dtb_mode args \<noteq> Detached" by (auto simp: dtb_attribute_def)
    obtain j where j: "section_raw pe ?vs name = Some (bu_dtb b @ replicate j 0)"
      using views_raw [OF views, of name] assembled_base [OF assms(3,4) Some] unfolding asm by fastforce
    have "env_fdt E (base_dtb_calls (bu_inputs b)) = Some (bu_dtb b)" using assms(1) by (simp add: image_ok_def)
    then have "view_dtb A (bu_dtb b @ replicate j 0) = Some (dt_tree (base_tree (bu_inputs b)))"
      using assms(2) base_dtb_tree unfolding reads_outputs_def by blast
    then show ?thesis using vp attr Some j m by (simp add: image_regions_def bundled_dtb_bytes_def views_regions [OF views])
  qed
qed

text \<open>
  C1. What \<open>arma check\<close> says of the image that \<open>arma build\<close> has written, in every channel mode:
  nothing, or, when the base devicetree is bundled and declares a BAR window smaller than a quarter of
  the address space, only that the end of the window and its buddy is not the top of the space. So
  no section of the output overlaps another and, when the devicetree is bundled, none meets a device
  or the window, all sections and devices lie below the window, and the lowest device starts on a
  granule; the check sees no devices in an image without a devicetree. The conditions: the parsers
  of the check read what the writers of the build wrote, the stub has the layout it is relied on for,
  the planner's inputs are within its bounds, and a window that a bundled devicetree declares starts
  at 4 GiB or higher, that is, the address space has at least 33 bits; the fixed devices of the
  architecture lie above the window of a smaller one.
\<close>

theorem built_image_check_result:
  assumes "build_image E args = Some (Inr b)" "build_run E args = Some (ws, Inr ())"
    and "reads_outputs A E" "stub_fits b" "plan_bounded (bu_planner b)"
    and "ba_dtb_mode args = Detached \<or> l_pci_window (bu_layout b) = None \<or> 33 \<le> unat (a_addr_space_bits (p_args (bu_planner b)))"
  shows "\<exists>pe. last ws = (ba_output_path args, pe) \<and> run_check A pe = Inr
    (case l_pci_window (bu_layout b) of
       Some w \<Rightarrow>
         if ba_dtb_mode args = Detached \<or>
           unat (a_window_bits (p_args (bu_planner b))) + 2 = unat (a_addr_space_bits (p_args (bu_planner b)))
         then [] else [WindowTop (rstart w + 2 * (rend w - rstart w))]
     | None \<Rightarrow> [])"
proof -
  let ?ss = "image_sections (ba_dtb_mode args) b"
  have "write_image E args b = (ws, Inr ())" using assms(1,2) by (simp add: build_run_def)
  from write_image_Inr [OF this] obtain pe where pe: "build_pe (pe_machine (bu_arch b)) ?ss = Inr pe"
    and ws: "last ws = (ba_output_path args, pe)" by auto
  from build_image_planned [OF assms(1)] have ok: "image_ok E args b" using plan_image_ok by blast
  have stub: "stub_ok (bu_stub b)" "stub_placed (bu_arch b) (bu_stub b)" "stub_named (bu_stub b)"
    using assms(4) by (simp_all add: stub_fits_def)
  then have tatu: "tatu_ok (bu_stub b)" by (simp add: stub_ok_def)
  have "list_all2 (views pe) (pe_view pe) ?ss"
    by (rule pe_view_sections [OF pe]) (use assembled_plain [OF stub(3)] in \<open>auto simp: image_sections_def\<close>)
  note views = this views_fits [OF this]
  have plan: "plan (bu_planner b) = Inr (bu_layout b)"
    "p_reserved (bu_planner b) = tatu_reserved (bu_stub b) @ arch_reserved (bu_arch b)"
    "payload_sizes (bu_planner b) (ki_image (bu_kernel b)) (bu_initrd b) (relocs_section_bytes (ki_relocs (bu_kernel b)))"
    using ok by (simp_all add: image_ok_def)
  have inp: "in_arch (bu_inputs b) = bu_arch b" "in_serial (bu_inputs b) = l_serial (bu_layout b)"
    "in_virtio (bu_inputs b) = l_virtio (bu_layout b)" "in_ecam (bu_inputs b) = l_ecam (bu_layout b)"
    "in_pci_window (bu_inputs b) = l_pci_window (bu_layout b)"
    using ok unfolding image_ok_def dtb_inputs_of_def by (metis dtb_inputs.select_convs)+
  note found = layout_problems [OF assms(5) plan(1,2) tatu stub(2) image_stub_room [OF ok stub(1) views(2)] plan(3)
      image_sections_def views(2)]
  have "run_check A pe = Inr (problems (section_regions ?ss @ (if ba_dtb_mode args = Detached then []
      else base_device_regions (dt_tree (base_tree (bu_inputs b))))))"
    using image_regions_built [OF ok assms(3) stub(1,3) refl pe views(1)] by (simp add: run_check_def)
  then show ?thesis
    using ws found(1) found(2) [OF inp] assms(6)
    by (cases "ba_dtb_mode args = Detached") (simp_all add: window_top_def split: option.splits)
qed

section \<open>A concrete build\<close>

text \<open>An arm64 image of one header, a stub of three NOBITS sections, a bridge and two virtio slots.\<close>

definition demo_kernel :: bytes where
  "demo_kernel = replicate 16 0 @ [0, 0, 0x20, 0, 0, 0, 0, 0] @ replicate 32 0 @ [0x41, 0x52, 0x4D, 0x64] @ replicate 4 0"

definition demo_shdr :: "nat \<Rightarrow> u64 \<Rightarrow> u64 \<Rightarrow> elf_section" where
  "demo_shdr name addr sz = \<lparr>sh_name = name, sh_type = SHT_NOBITS, sh_flags = SHF_ALLOC, sh_addr = addr,
     sh_offset = 0, sh_size = sz, sh_link = 0, sh_info = 0, sh_entsize = 0\<rparr>"

definition stub_elf :: elf_file where
  "stub_elf = \<lparr>elf_is_64 = True, elf_little_endian = True, e_machine = ELF_MACHINE_AARCH64, e_shoff = 0, e_shnum = 3,
     e_shentsize = 64, e_entry = 0x10000, program_headers = [],
     section_headers = [demo_shdr 1 0x10000 0x1000, demo_shdr 2 0x20000 0x10000, demo_shdr 3 0x30000 0x10000],
     elf_syms = [], elf_strtab = (\<lambda>_. None), elf_dynsyms = [], elf_dynstrtab = (\<lambda>_. None),
     shdr_strtab = (\<lambda>n. Some (if n = 1 then BOOTINFO_SECTION else if n = 2 then SECTION_DTB else SECTION_DTBO)),
     shdr_relocs = [], elf_interpreter = None\<rparr>"

definition stub_goblin :: goblin where
  "stub_goblin = \<lparr>parse_elf = (\<lambda>b. if b = [1] then Some stub_elf else None),
     parse_symtab = (\<lambda>_ _ _ _ _. None), parse_strtab = (\<lambda>_ _ _. None)\<rparr>"

definition demo_kconfig :: kernel_config where
  "demo_kconfig = \<lparr>config_text = ''CONFIG_VIRTIO_MMIO=y'' @ [newline] @ ''CONFIG_PCI=y'' @ [newline] @
    ''CONFIG_VIRTIO_PCI=y'' @ [newline] @ ''CONFIG_PCI_HOST_GENERIC=y'' @ [newline]\<rparr>"

definition demo_args :: build_args where
  "demo_args = args_of_cli \<lparr>cli_kernel = ''Image'', cli_initrd = None, cli_modules = [], cli_module_tree = None,
     cli_cmdline = [], cli_profile = None, cli_config = Some ''config'', cli_mmio_slots = Some 2, cli_pci_slots = Some 1,
     cli_pci_window = None, cli_min_addr_space = None, cli_serial = True, cli_dtb = None, cli_output = ''out''\<rparr>"

definition demo_stub :: tatu_image where
  "demo_stub = \<lparr>tg_sections = [demo_section ''.tatu.bootinfo'' 0x10000 0x1000 True, demo_section ''.tatu.dtb'' 0x20000 0x10000 True,
     demo_section ''.tatu.dtbo'' 0x30000 0x10000 True], tg_entry = 0x10000\<rparr>"

definition demo_input :: kernel_input where
  "demo_input = \<lparr>ki_bytes = demo_kernel, ki_parsed = \<lparr>pk_arch = Aarch64, pk_aarch64_image_size = Some 0x200000, pk_elf = None\<rparr>,
     ki_image = demo_kernel, ki_relocs = no_relocs\<rparr>"

definition demo_settings :: settings where
  "demo_settings = \<lparr>bs_space_bits = 36, bs_window_bits = 34, bs_config = demo_kconfig, bs_bootconfig = False,
     bs_cmdline = ''earlycon'', bs_mmio_slots = 2, bs_pci_slots = 1\<rparr>"

lemma demo_stub_parsed: "parse_tatu stub_goblin [1] Aarch64 = Inr demo_stub"
  by code_simp

lemma demo_kernel_parsed: "parse_kernel stub_goblin demo_kernel = Inr (ki_parsed demo_input)"
  by code_simp

lemma demo_slots: "infer_slots demo_kconfig Aarch64 (Some 2) (Some 1) = Inr (2, 1)"
  by code_simp

lemma demo_profile: "profile_of demo_args demo_kconfig Aarch64 = ''armv8.0-a''"
  by code_simp

lemma demo_bootconfig: "bootconfig_requested (str_bytes []) = False"
  by (simp add: bootconfig_requested_def str_bytes_def bootconfig_loop.simps scan_round_def)

definition demo_image_layout :: layout where
  "demo_image_layout =
     \<lparr>l_serial = Some (mk_range 0x7FFE00000 0x7FFE01000),
      l_virtio = [mk_range 0x7FFE01000 0x7FFE01200, mk_range 0x7FFE01200 0x7FFE01400],
      l_ecam = Some (mk_range 0x7FEE00000 0x7FFE00000), l_pci_window = Some (mk_range 0x800000000 0xC00000000),
      l_linux = mk_range 0x200000 0x400000, l_initrd = None, l_bootconfig = None, l_relocs = None\<rparr>"

definition demo_planner :: planner where
  "demo_planner = planner_of demo_args demo_settings demo_stub demo_input None []"

lemma demo_plan: "plan demo_planner = Inr demo_image_layout"
  by code_simp

lemma demo_planner_value:
  "demo_planner = \<lparr>p_args = \<lparr>a_serial = True, a_mmio_slots = 2, a_pci_slots = 1, a_window_bits = 34, a_addr_space_bits = 36\<rparr>,
     p_reserved = tatu_reserved demo_stub @ arm_reserved,
     p_kernel = \<lparr>k_size = 0x200000, k_align = 0x200000, k_min_gpa = 0\<rparr>,
     p_initrd_size = None, p_bootconfig = False, p_relocs_size = None\<rparr>"
  by (simp add: demo_planner_def planner_of_def demo_args_def args_of_cli_def resolve_dtb_def demo_settings_def demo_input_def
      ki_arch_def arch_reserved_def kernel_alloc_size_def compute_kernel_alloc_size_def demo_kernel_def planned_size_def)

lemma demo_bounded: "plan_bounded demo_planner"
  by (auto simp: plan_bounded_def demo_planner_value demo_stub_def demo_section_def tatu_reserved_def arm_reserved_def
      GIC_DIST_BASE_def GIC_DIST_SIZE_def GIC_REDIST_BASE_def GIC_REDIST_SIZE_def GIC_MSI_BASE_def GIC_MSI_SIZE_def
      intro!: exI [of _ "21::nat"])

definition demo_dtb_inputs :: dtb_inputs where
  "demo_dtb_inputs = dtb_inputs_of Aarch64 ''earlycon'' demo_image_layout"

text \<open>A writer of this one devicetree, and an encoder that keeps the attribute of the fallback.\<close>

definition demo_env :: build_env where
  "demo_env = \<lparr>env_read = (\<lambda>_. Some demo_kernel), env_read_text = (\<lambda>_. Some (config_text demo_kconfig)),
     env_write = (\<lambda>_ _. True), env_goblin = stub_goblin,
     env_wrappers = \<lparr>parse_pe = (\<lambda>_. None), gunzip = (\<lambda>_. None), unzstd = (\<lambda>_. None)\<rparr>,
     env_ikconfig = (\<lambda>_. None), env_decoders = \<lparr>gunzip_member = (\<lambda>_. None), zstd_frame_at = (\<lambda>_. None)\<rparr>,
     env_unpackers = \<lparr>gzip_stream = (\<lambda>_. \<lparr>st_content = [], st_fails = True\<rparr>), xz_stream = (\<lambda>_. \<lparr>st_content = [], st_fails = True\<rparr>), zstd_stream = (\<lambda>_. None)\<rparr>,
     env_fs = \<lparr>fs_canonicalize = (\<lambda>_. None), fs_is_dir = (\<lambda>_. False), fs_stat = (\<lambda>_. NotFound),
       fs_symlink_metadata = (\<lambda>_. None), fs_open = (\<lambda>_. None)\<rparr>,
     env_tatu = (\<lambda>a. if a = Aarch64 then Some [1] else None),
     env_fdt = (\<lambda>calls. if calls = base_dtb_calls demo_dtb_inputs then Some [2] else None),
     env_pmi = demo_pmi\<lparr>encode_x86 := (\<lambda>_. None),
       encode_arm := (\<lambda>s. if spec_dt_dtb s = Some SECTION_DTB_FALLBACK then Some [3] else None)\<rparr>\<rparr>"

definition demo_api :: "(dnode, string \<times> bytes) check_api" where
  "demo_api = \<lparr>view_pe = (\<lambda>buf. Some (pe_view buf)),
     decode_cbor = (\<lambda>_. Some (CborMap [(CborText ''dt:dtb'', CborText SECTION_DTB_FALLBACK)])),
     view_dtb = (\<lambda>_. Some (dt_tree (base_tree demo_dtb_inputs)))\<rparr>"

lemma demo_reads: "reads_outputs demo_api demo_env"
  by (auto simp: reads_outputs_def reads_manifest_def demo_api_def demo_env_def base_dtb_tree split: if_splits)

definition demo_built :: built where
  "demo_built = \<lparr>bu_arch = Aarch64, bu_kernel = demo_input, bu_settings = demo_settings, bu_initrd = None,
     bu_stub = demo_stub, bu_planner = demo_planner, bu_layout = demo_image_layout, bu_inputs = demo_dtb_inputs,
     bu_dtb = [2],
     bu_boot_info = to_section_bytes (boot_info_of demo_image_layout demo_input [2]
       (demo_section ''.tatu.dtb'' 0x20000 0x10000 True, demo_section ''.tatu.dtbo'' 0x30000 0x10000 True)),
     bu_cbor = [3]\<rparr>"

lemma demo_no_relocs: "relocs_section_bytes (ki_relocs demo_input) = []"
  by code_simp

lemma demo_targets:
  "stub_targets demo_stub [2] = Inr (demo_section ''.tatu.dtb'' 0x20000 0x10000 True, demo_section ''.tatu.dtbo'' 0x30000 0x10000 True)"
  by (simp add: stub_targets_def tatu_section_named_def demo_stub_def demo_section_def)

lemma demo_manifest: "build_pmi_vm (env_pmi demo_env) Aarch64 demo_stub gpas profile Optional = Inr [3]"
  by (simp add: build_pmi_vm_def build_spec_arm_def arm_vcpu_def new_pstate_def demo_env_def demo_pmi_def dtb_attribute_def)

lemma demo_mode: "ba_dtb_mode demo_args = Optional" "ba_serial demo_args" "ba_initrd_path demo_args = None"
  "ba_module_names demo_args = []" "ba_module_tree demo_args = None" "ba_config_path demo_args = Some ''config''"
  "ba_cmdline demo_args = []" "ba_mmio_slots demo_args = Some 2" "ba_pci_slots demo_args = Some 1" "ba_profile demo_args = None"
  "ba_pci_window demo_args = None" "ba_min_addr_space demo_args = None" "ba_output_path demo_args = ''out''"
  "ba_dtb_out demo_args = None"
  by (simp_all add: demo_args_def args_of_cli_def resolve_dtb_def)

lemma demo_planned: "plan_image demo_env demo_args demo_settings demo_input None = Inr demo_built"
proof -
  have "env_tatu demo_env Aarch64 = Some [1]" "parse_tatu (env_goblin demo_env) [1] Aarch64 = Inr demo_stub"
    "ki_arch demo_input = Aarch64" "bs_cmdline demo_settings = ''earlycon''"
    "build_base_dtb (env_fdt demo_env) demo_dtb_inputs = Inr [2]"
    by (simp_all add: demo_env_def demo_stub_parsed demo_input_def ki_arch_def demo_settings_def build_base_dtb_def)
  then show ?thesis
    by (simp add: plan_image_def Let_def demo_no_relocs demo_planner_def [symmetric] demo_plan demo_dtb_inputs_def [symmetric]
        demo_targets demo_manifest demo_mode demo_built_def)
qed

lemma demo_wrapped: "read_kernel demo_env demo_args = Inr demo_kernel"
proof -
  have "\<not> RustText.starts_with (str_bytes ''MZ'') demo_kernel" "\<not> BZIMAGE_HDRS_OFFSET + 4 \<le> length demo_kernel"
    "byte_slice demo_kernel 0 2 \<noteq> str_bytes ''MZ''"
    by code_simp+
  then show ?thesis
    by (simp add: read_kernel_def read_input_def demo_env_def unwrap_uki_def unwrap_zboot_def extract_vmlinux_def)
qed

lemma demo_image: "build_image demo_env demo_args = Some (Inr demo_built)"
proof -
  have k: "lower_kernel demo_env demo_kernel = Inr demo_input" "ki_arch demo_input = Aarch64"
    using demo_kernel_parsed by (simp_all add: lower_kernel_def demo_env_def demo_input_def ki_arch_def)
  have "load_kernel_config demo_env demo_args demo_kernel = Inr demo_kconfig"
    by (simp add: load_kernel_config_def demo_env_def demo_mode)
  moreover have "serial_earlycon_cmdline True [] = ''earlycon''" by code_simp
  ultimately have s: "settings_of demo_env demo_args Aarch64 demo_kernel = Inr demo_settings"
    using demo_bootconfig demo_slots
    by (simp add: settings_of_def default_bits_def demo_mode or_default_def demo_settings_def)
  show ?thesis
    by (simp add: build_image_def then_do_def check_options_def demo_mode demo_wrapped read_initrd_def k s prepare_initrd_def
        check_archive_def demo_settings_def [THEN arg_cong [of _ _ bs_bootconfig]] demo_planned)
qed


definition demo_sections :: "bytes \<Rightarrow> pe_section list" where
  "demo_sections bi =
    [\<lparr>sec_name = ''.tatu.bootinfo'', sec_vaddr = 0x10000, sec_virtual_size = 0x1000, sec_data = bi,
       sec_characteristics = 0xC0000080, sec_non_loaded = False\<rparr>,
     \<lparr>sec_name = ''.tatu.dtb'', sec_vaddr = 0x20000, sec_virtual_size = 0x10000, sec_data = [],
       sec_characteristics = 0xC0000080, sec_non_loaded = False\<rparr>,
     \<lparr>sec_name = ''.tatu.dtbo'', sec_vaddr = 0x30000, sec_virtual_size = 0x10000, sec_data = [],
       sec_characteristics = 0xC0000080, sec_non_loaded = False\<rparr>,
     \<lparr>sec_name = ''.dtb'', sec_vaddr = 0, sec_virtual_size = 1, sec_data = [2],
       sec_characteristics = 0x42000040, sec_non_loaded = True\<rparr>,
     \<lparr>sec_name = ''.linux'', sec_vaddr = 0x200000, sec_virtual_size = 0x200000, sec_data = demo_kernel,
       sec_characteristics = 0x40000040, sec_non_loaded = False\<rparr>,
     \<lparr>sec_name = ''.pmi.vm'', sec_vaddr = 0, sec_virtual_size = 1, sec_data = [3],
       sec_characteristics = 0x42000040, sec_non_loaded = True\<rparr>]"

lemma demo_sections_assembled: "image_sections Optional demo_built = demo_sections (bu_boot_info demo_built)"
proof -
  have "tatu_section_characteristics ''.tatu.bootinfo'' True = 0xC0000080" "tatu_section_characteristics ''.tatu.dtb'' True = 0xC0000080"
    "tatu_section_characteristics ''.tatu.dtbo'' True = 0xC0000080"
    "IMAGE_SCN_CNT_INITIALIZED_DATA OR IMAGE_SCN_MEM_READ = 0x40000040"
    "IMAGE_SCN_CNT_INITIALIZED_DATA OR IMAGE_SCN_MEM_READ OR IMAGE_SCN_MEM_DISCARDABLE = 0x42000040"
    by code_simp+
  then show ?thesis
    by (simp add: image_sections_def assemble_sections_def demo_sections_def demo_built_def demo_stub_def demo_section_def stub_section_def
      stub_data_def payload_section_def carried_section_def demo_image_layout_def demo_input_def SECTION_defs BOOTINFO_SECTION_def
      DTB_SECTION_def)
qed

lemma demo_names:
  "try_fold pe_name_step (le_bytes 4 (0 :: u32), []) (demo_sections bi)
     = Inr ([0, 0, 0, 0] @ str_bytes ''.tatu.bootinfo'' @ [0] @ str_bytes ''.tatu.dtb'' @ [0] @ str_bytes ''.tatu.dtbo'' @ [0],
        map (pad_name \<circ> str_bytes) [''/4'', ''/19'', ''/29'', ''.dtb'', ''.linux'', ''.pmi.vm''])"
  "try_fold (\<lambda>_ s. guard_err (NulInName (sec_name s)) (0 \<notin> set (str_bytes (sec_name s)))) () (demo_sections bi) = Inr ()"
  by code_simp+

lemma demo_places:
  assumes "length bi = 4096"
  shows "\<exists>c raw. try_fold place_step (0x1000, []) (demo_sections bi) = Inr (c, raw) \<and> unat c \<le> 0x800000"
    and "\<exists>r. try_fold size_step (0, 0, 0) (demo_sections bi) = Inr r"
proof -
  have "bi \<noteq> []" using assms by auto
  then show "\<exists>c raw. try_fold place_step (0x1000, []) (demo_sections bi) = Inr (c, raw) \<and> unat c \<le> 0x800000"
    "\<exists>r. try_fold size_step (0, 0, 0) (demo_sections bi) = Inr r"
    using assms by (simp_all add: demo_sections_def pe_places LARGE_ALIGNMENT_def checked_add_def demo_kernel_def)
qed

lemma demo_pe:
  assumes "length bi = 4096"
  shows "\<exists>buf. build_pe m (demo_sections bi) = Inr buf"
proof -
  obtain c raw where p: "try_fold place_step (0x1000, []) (demo_sections bi) = Inr (c, raw)" "unat c \<le> 0x800000"
    using demo_places(1) [OF assms] by blast
  obtain x y z where z: "try_fold size_step (0, 0, 0) (demo_sections bi) = Inr (x, y, z)"
    using demo_places(2) [OF assms] by auto
  have "\<exists>h. section_header_of name r s = Inr h" if "s \<in> set (demo_sections bi)" for name r s
    using that by (cases r) (auto simp: demo_sections_def section_header_of_def u32_try_def)
  then have headers: "\<exists>b. try_fold header_step st (zip nfs (zip rs (demo_sections bi))) = Inr b" for st nfs rs
    by (intro header_fold_returns) (auto dest!: set_zip_rightD)
  have h: "\<exists>b. rbind (try_fold header_step st (zip nfs (zip rs (demo_sections bi)))) (\<lambda>(buf, off). Inr (f buf)) = Inr b"
    for st nfs rs and f :: "bytes \<Rightarrow> bytes" using headers [of st nfs rs] by (fastforce simp: rbind_eq_Inr)
  have l: "length (demo_sections bi) = 6" by (simp add: demo_sections_def)
  have a: "align_up_u32 (word_of_nat DOS_SIZE) 8 = Some 64"
    "u32_try (68 + COFF_SIZE + OPT_SIZE + 6 * SECTION_HDR_SIZE) = Inr 568"
    "align_up_u32 568 FILE_ALIGNMENT = Some 0x1000"
    by (simp_all add: align_up_u32_def checked_add_def DOS_SIZE_def u32_try_def COFF_SIZE_def OPT_SIZE_def
       SECTION_HDR_SIZE_def FILE_ALIGNMENT_def PE_SIGNATURE_def)
  define t where "t = [0, 0, 0, 0] @ str_bytes ''.tatu.bootinfo'' @ [0] @ str_bytes ''.tatu.dtb'' @ [0] @ str_bytes ''.tatu.dtbo'' @ [0]"
  have t: "length t = 40" by (simp add: t_def str_bytes_def)
  have c: "checked_add c 40 = Some (c + 40)" using p(2) by (simp add: checked_add_def word_le_nat_alt unat_word_ariths)
  have u: "u32_try 40 = Inr 40" by (simp add: u32_try_def)
  show ?thesis
    unfolding build_pe_def demo_names t_def [symmetric] l a Let_def
    by (simp add: demo_names t a p(1) z c u h del: zip_Cons_Cons)
qed

lemma demo_run: "\<exists>pe. build_run demo_env demo_args = Some ([(''out'', pe)], Inr ())"
proof -
  have w: "env_write demo_env p b" for p b by (simp add: demo_env_def)
  have "length (bu_boot_info demo_built) = 4096" by (simp add: demo_built_def section_bytes_length)
  from demo_pe [OF this] obtain pe
    where "build_pe (pe_machine (bu_arch demo_built)) (image_sections (ba_dtb_mode demo_args) demo_built) = Inr pe"
    unfolding demo_mode demo_sections_assembled by blast
  then show ?thesis
    by (simp add: build_run_def demo_image write_image_def write_base_def write_file_def demo_mode w)
qed

lemma build_run_outcome_witness:
  "\<exists>pe. build_run demo_env demo_args = Some ([(''out'', pe)], Inr ())
    \<and> build_pe (pe_machine Aarch64) (image_sections Optional demo_built) = Inr pe"
proof -
  obtain pe where pe: "build_run demo_env demo_args = Some ([(''out'', pe)], Inr ())" using demo_run by blast
  have "env_consumes demo_env" by (simp add: env_consumes_def consuming_def demo_env_def)
  from build_run_outcome [OF this, of demo_args] show ?thesis
    using pe by (auto simp: demo_image demo_mode base_write_def demo_built_def)
qed

lemma demo_stub_fits: "stub_fits demo_built"
proof -
  have "tatu_ok demo_stub" by (rule parse_tatu_ok [OF demo_stub_parsed])
  moreover have "stub_placed Aarch64 demo_stub"
    by (auto simp: stub_placed_def demo_stub_def demo_section_def tatu_reserved_def arch_reserved_def arm_reserved_def apart_def
        cells_def GIC_DIST_BASE_def GIC_DIST_SIZE_def GIC_REDIST_BASE_def GIC_REDIST_SIZE_def GIC_MSI_BASE_def GIC_MSI_SIZE_def)
  ultimately show ?thesis
    by (simp add: stub_fits_def stub_ok_def stub_named_def demo_built_def demo_stub_def demo_section_def SECTION_defs SECTION_DTBO_def
        BOOTINFO_SECTION_def)
qed

lemma built_image_check_result_witness:
  "\<exists>pe. build_run demo_env demo_args = Some ([(''out'', pe)], Inr ()) \<and> run_check demo_api pe = Inr []"
proof -
  obtain pe where pe: "build_run demo_env demo_args = Some ([(''out'', pe)], Inr ())" using demo_run by blast
  have p: "bu_planner demo_built = demo_planner" "l_pci_window (bu_layout demo_built) = Some (mk_range 0x800000000 0xC00000000)"
    by (simp_all add: demo_built_def demo_image_layout_def)
  from built_image_check_result [OF demo_image pe demo_reads demo_stub_fits] demo_bounded
  show ?thesis using pe by (simp add: p demo_mode demo_planner_value)
qed

end
