(* ===== verification/Handover.thy ===== *)
theory Handover
  imports CheckedBuild
begin

text \<open>
  What \<open>arma\<close> hands over to \<open>tatu\<close>: once the sections of an image are in guest memory, the stub
  reads back the base devicetree, the kernel, its relocations and the window of the host's overlay.
\<close>

section \<open>The memory of a launched guest\<close>

text \<open>What a launch does to guest memory: the data of every loaded section is at its address.\<close>

definition loads :: "memory \<Rightarrow> pe_section list \<Rightarrow> bool" where
  "loads mem ss \<longleftrightarrow> (\<forall>s\<in>set (loaded_sections ss). mem (sec_vaddr s) (length (sec_data s)) = sec_data s)"

text \<open>In the other channel modes the host puts the base devicetree into the stub's section.\<close>

definition base_given :: "memory \<Rightarrow> built \<Rightarrow> bool" where
  "base_given mem b \<longleftrightarrow>
    (\<forall>s. tatu_section_named (bu_stub b) SECTION_DTB = Some s \<longrightarrow> mem (ts_vaddr s) (length (bu_dtb b)) = bu_dtb b)"

section \<open>The places\<close>

lemma named_section:
  assumes "tatu_section_named tatu n = Some s"
  shows "s \<in> set (tg_sections tatu)" "ts_name s = n"
  using assms by (auto simp: tatu_section_named_def find_Some_iff)

lemma plan_relocs_Some:
  assumes "plan p = Inr lay" "p_relocs_size p = Some sz" "0 < sz"
  shows "\<exists>r. l_relocs lay = Some r"
proof -
  obtain occ where "plan_relocs (p_relocs_size p) occ = Inr (l_relocs lay)" by (rule plan_InrE [OF assms(1)])
  then show ?thesis using assms(2,3) by (cases "l_relocs lay") (auto simp: plan_relocs_def rbind_eq_Inr)
qed

lemma unat_u32_ucast: "unat w < 2 ^ 32 \<Longrightarrow> unat (ucast (w :: u64) :: u32) = unat w"
  by (simp add: unsigned_ucast_eq take_bit_nat_eq_self)

lemma length_relocs_section:
  "length (relocs_section_bytes r) = 4 * (length (rl_relocs64 r) + length (rl_relocs32neg r) + length (rl_relocs32 r))"
proof -
  have "length (concat (map (le_bytes 4) ws)) = 4 * length ws" for ws :: "u32 list" by (induction ws) simp_all
  then show ?thesis by (simp add: relocs_section_bytes_def)
qed

text \<open>The sections that matter are loaded, at the places that the boot information names.\<close>

lemma built_sections:
  assumes "image_ok E args b" "plan_bounded (bu_planner b)" "stub_fits b" "pe_fits ss" "ss = image_sections (ba_dtb_mode args) b"
  defines "k \<equiv> bu_kernel b"
  shows "payload_section SECTION_LINUX (l_linux (bu_layout b)) (ki_image k) (IMAGE_SCN_CNT_INITIALIZED_DATA OR IMAGE_SCN_MEM_READ)
      \<in> set (loaded_sections ss)" (is "?linux \<in> _")
    and "length (ki_image k) < 2 ^ 32" "unat (k_size (p_kernel (bu_planner b))) < 2 ^ 32"
    and "s \<in> set (tg_sections (bu_stub b)) \<Longrightarrow> unat (ts_virtual_size s) < 2 ^ 32"
    and "relocs_section_bytes (ki_relocs k) \<noteq> [] \<Longrightarrow> length (relocs_section_bytes (ki_relocs k)) < 2 ^ 60 \<Longrightarrow>
      \<exists>r. l_relocs (bu_layout b) = Some r \<and> payload_section SECTION_RELOCS r (relocs_section_bytes (ki_relocs k))
          (IMAGE_SCN_CNT_INITIALIZED_DATA OR IMAGE_SCN_MEM_READ) \<in> set (loaded_sections ss)"
proof -
  let ?relocs = "relocs_section_bytes (ki_relocs k)"
  have ok: "plan (bu_planner b) = Inr (bu_layout b)" "payload_sizes (bu_planner b) (ki_image k) (bu_initrd b) ?relocs"
    using assms(1) by (simp_all add: image_ok_def k_def)
  have loaded: "loaded_sections ss = map (stub_section (bu_boot_info b) (bu_dtb b) (ba_dtb_mode args = Attached)) (tg_sections (bu_stub b))
      @ payload_list (bu_layout b) (ki_image k) (bu_initrd b) ?relocs"
    by (simp add: assms(5) image_sections_def loaded_assemble k_def)
  show linux: "?linux \<in> set (loaded_sections ss)" by (simp add: loaded payload_list_def)
  then have h: "header_size ?linux < 2 ^ 32" using assms(4) by (simp add: pe_fits_def)
  then show "length (ki_image k) < 2 ^ 32" by (rule payload_data_small)
  have "unat (rend (l_linux (bu_layout b)) - rstart (l_linux (bu_layout b))) < 2 ^ 32"
    using h header_size_ge [of ?linux] by (simp add: payload_section_def)
  then show "unat (k_size (p_kernel (bu_planner b))) < 2 ^ 32"
    using plan_linux(2) [OF assms(2) ok(1)] by (simp add: unat_sub word_le_nat_alt)
  show "unat (ts_virtual_size s) < 2 ^ 32" if "s \<in> set (tg_sections (bu_stub b))"
  proof -
    let ?s = "stub_section (bu_boot_info b) (bu_dtb b) (ba_dtb_mode args = Attached) s"
    have "?s \<in> set (loaded_sections ss)" using that by (simp add: loaded)
    then have "header_size ?s < 2 ^ 32" using assms(4) by (simp add: pe_fits_def)
    then show ?thesis using header_size_ge [of ?s] by (simp add: stub_section_def)
  qed
  show "\<exists>r. l_relocs (bu_layout b) = Some r \<and> payload_section SECTION_RELOCS r ?relocs
      (IMAGE_SCN_CNT_INITIALIZED_DATA OR IMAGE_SCN_MEM_READ) \<in> set (loaded_sections ss)"
    if ne: "?relocs \<noteq> []" and small: "length ?relocs < 2 ^ 60"
  proof -
    have "unat (word_of_nat (length ?relocs) :: u64) = length ?relocs" using small by (simp add: unat_of_nat)
    then have "0 < (word_of_nat (length ?relocs) :: u64)" using ne by (simp add: word_less_nat_alt)
    moreover have "p_relocs_size (bu_planner b) = Some (word_of_nat (length ?relocs))" using ok(2) ne by (simp add: payload_sizes_def)
    ultimately obtain r where "l_relocs (bu_layout b) = Some r" using plan_relocs_Some [OF ok(1)] by blast
    then show ?thesis by (simp add: loaded payload_list_def)
  qed
qed

text \<open>The base devicetree is where the boot information says, whoever has put it there.\<close>

lemma base_in_memory:
  assumes "stub_fits b" "loads mem ss" "ss = image_sections (ba_dtb_mode args) b"
    and "ba_dtb_mode args \<noteq> Attached \<longrightarrow> base_given mem b" "tatu_section_named (bu_stub b) SECTION_DTB = Some d"
  shows "mem (ts_vaddr d) (length (bu_dtb b)) = bu_dtb b"
proof (cases "ba_dtb_mode args = Attached")
  case True
  note d = named_section [OF assms(5)]
  let ?s = "stub_section (bu_boot_info b) (bu_dtb b) True d"
  have "?s \<in> set (loaded_sections ss)" using d(1) True by (simp add: assms(3) image_sections_def loaded_assemble)
  moreover have "sec_data ?s = bu_dtb b" "sec_vaddr ?s = ts_vaddr d"
    using assms(1) d names_differ by (simp_all add: stub_section_def stub_data_def stub_fits_def stub_ok_def tatu_ok_def)
  ultimately show ?thesis using assms(2) unfolding loads_def by metis
qed (use assms(4,5) in \<open>simp add: base_given_def\<close>)

lemma boot_info_in_memory:
  assumes "image_ok E args b" "stub_fits b" "loads mem ss" "ss = image_sections (ba_dtb_mode args) b"
  shows "\<exists>s. tatu_section_named (bu_stub b) BOOTINFO_SECTION = Some s \<and> mem (ts_vaddr s) 0x1000 = bu_boot_info b"
proof -
  have ok: "stub_ok (bu_stub b)" using assms(2) by (simp add: stub_fits_def)
  then obtain s where s: "s \<in> set (tg_sections (bu_stub b))" "ts_name s = BOOTINFO_SECTION" by (auto simp: stub_ok_def)
  then have n: "tatu_section_named (bu_stub b) BOOTINFO_SECTION = Some s"
    using filter_unique(2) [of ts_name "tg_sections (bu_stub b)" s] ok by (simp add: stub_ok_def tatu_section_named_def)
  let ?s = "stub_section (bu_boot_info b) (bu_dtb b) (ba_dtb_mode args = Attached) s"
  have "?s \<in> set (loaded_sections ss)" using s(1) by (simp add: assms(4) image_sections_def loaded_assemble)
  moreover have "sec_data ?s = bu_boot_info b" "sec_vaddr ?s = ts_vaddr s"
    using ok s by (simp_all add: stub_section_def stub_data_def stub_ok_def tatu_ok_def)
  ultimately have "mem (ts_vaddr s) (length (bu_boot_info b)) = bu_boot_info b" using assms(3) unfolding loads_def by metis
  then show ?thesis using n assms(1) by (simp add: image_ok_def)
qed

text \<open>What \<open>tatu\<close> reads in a page that \<open>arma\<close> has filled.\<close>

lemma boot_info_fields:
  assumes "stub_targets tatu dtb = Inr targets"
  shows "\<exists>d h. tatu_section_named tatu SECTION_DTB = Some d \<and> tatu_section_named tatu SECTION_DTBO = Some h
    \<and> tatu_view (to_section_bytes (boot_info_of lay k dtb targets)) =
      \<lparr>ti_magic = MAGIC, ti_base_dtb_gpa = ts_vaddr d, ti_host_dtbo_gpa = ts_vaddr h, ti_kernel_gpa = rstart (l_linux lay),
       ti_kernel_entry_gpa = rstart (l_linux lay) + (case pk_elf (ki_parsed k) of None \<Rightarrow> 0 | Some e \<Rightarrow> em_entry_offset e),
       ti_relocs_gpa = (case l_relocs lay of None \<Rightarrow> 0 | Some r \<Rightarrow> rstart r), ti_base_dtb_size = word_of_nat (length dtb),
       ti_host_dtbo_size = ucast (ts_virtual_size h), ti_kernel_size = word_of_nat (length (ki_image k)),
       ti_kernel_alloc_size = ucast (kernel_alloc_size k),
       ti_relocs64_count = word_of_nat (length (rl_relocs64 (ki_relocs k))),
       ti_relocs32neg_count = word_of_nat (length (rl_relocs32neg (ki_relocs k))),
       ti_relocs32_count = word_of_nat (length (rl_relocs32 (ki_relocs k)))\<rparr>"
proof -
  obtain d h where t: "targets = (d, h)" by (cases targets)
  have "tatu_section_named tatu SECTION_DTB = Some d" "tatu_section_named tatu SECTION_DTBO = Some h"
    using assms by (auto simp: t stub_targets_def result_simps SECTION_DTB_def SECTION_DTBO_def split: if_splits)
  then show ?thesis using boot_info_roundtrip by (simp add: t boot_info_of_def relocs_header_of_def)
qed

lemma relocs_in_memory:
  assumes "loads mem ss" "payload_section SECTION_RELOCS r bytes c \<in> set (loaded_sections ss)" "bytes = relocs_section_bytes rl"
  shows "map from_le (chunks4 (mem (rstart r) (length bytes))) = rl_relocs64 rl @ rl_relocs32neg rl @ rl_relocs32 rl"
proof -
  have "mem (rstart r) (length bytes) = bytes" using assms(1,2) by (force simp: loads_def payload_section_def)
  then show ?thesis using section_words(1) [OF assms(3) refl refl] by simp
qed

text \<open>
  C2. Over the two halves of the program: in the memory that the sections of a built image make,
  \<open>tatu\<close> finds its magic, the base devicetree that was generated, the kernel image and its
  relocation lists with their counts, byte for byte; the entry point, the window of the host's
  overlay and the memory the kernel needs are those of the plan, none of them truncated.
\<close>

theorem built_image_hands_over:
  assumes "build_image E args = Some (Inr b)" "build_run E args = Some (ws, Inr ())"
    and "stub_fits b" "plan_bounded (bu_planner b)"
    and "loads mem (image_sections (ba_dtb_mode args) b)" "ba_dtb_mode args \<noteq> Attached \<longrightarrow> base_given mem b"
    and "length (bu_dtb b) < 2 ^ 64" "length (relocs_section_bytes (ki_relocs (bu_kernel b))) < 2 ^ 60"
  shows "\<exists>s h. tatu_section_named (bu_stub b) BOOTINFO_SECTION = Some s
    \<and> tatu_section_named (bu_stub b) SECTION_DTBO = Some h
    \<and> (let bi = tatu_view (mem (ts_vaddr s) 0x1000); k = bu_kernel b; rl = ki_relocs k; lay = bu_layout b in
        ti_magic bi = MAGIC
        \<and> base_dtb_bytes mem bi = bu_dtb b
        \<and> kernel_bytes mem bi = ki_image k
        \<and> relocs_words mem bi = rl_relocs64 rl @ rl_relocs32neg rl @ rl_relocs32 rl
        \<and> unat (ti_relocs64_count bi) = length (rl_relocs64 rl)
        \<and> unat (ti_relocs32neg_count bi) = length (rl_relocs32neg rl)
        \<and> unat (ti_relocs32_count bi) = length (rl_relocs32 rl)
        \<and> ti_kernel_gpa bi = rstart (l_linux lay)
        \<and> ti_kernel_entry_gpa bi = rstart (l_linux lay) + (case pk_elf (ki_parsed k) of None \<Rightarrow> 0 | Some e \<Rightarrow> em_entry_offset e)
        \<and> unat (ti_kernel_alloc_size bi) = unat (k_size (p_kernel (bu_planner b)))
        \<and> ti_host_dtbo_gpa bi = ts_vaddr h \<and> unat (ti_host_dtbo_size bi) = unat (ts_virtual_size h))"
proof -
  let ?ss = "image_sections (ba_dtb_mode args) b" and ?k = "bu_kernel b"
  let ?rl = "ki_relocs ?k" and ?rb = "relocs_section_bytes (ki_relocs (bu_kernel b))"
  have "write_image E args b = (ws, Inr ())" using assms(1,2) by (simp add: build_run_def)
  from write_image_Inr [OF this] obtain pe where pe: "build_pe (pe_machine (bu_arch b)) ?ss = Inr pe" by blast
  from build_image_planned [OF assms(1)] have ok: "image_ok E args b" using plan_image_ok by blast
  have "\<forall>s\<in>set ?ss. plain_name s" using assms(3) assembled_plain by (auto simp: image_sections_def stub_fits_def)
  then have fits: "pe_fits ?ss" using pe_view_sections [OF pe] views_fits by blast
  note placed = built_sections [OF ok assms(4,3) fits refl]
  obtain s where s: "tatu_section_named (bu_stub b) BOOTINFO_SECTION = Some s" "mem (ts_vaddr s) 0x1000 = bu_boot_info b"
    using boot_info_in_memory [OF ok assms(3,5) refl] by blast
  obtain targets where t: "stub_targets (bu_stub b) (bu_dtb b) = Inr targets"
    "bu_boot_info b = to_section_bytes (boot_info_of (bu_layout b) ?k (bu_dtb b) targets)" using ok by (auto simp: image_ok_def)
  obtain d h where dh: "tatu_section_named (bu_stub b) SECTION_DTB = Some d" "tatu_section_named (bu_stub b) SECTION_DTBO = Some h"
    and bi: "tatu_view (bu_boot_info b) =
      \<lparr>ti_magic = MAGIC, ti_base_dtb_gpa = ts_vaddr d, ti_host_dtbo_gpa = ts_vaddr h, ti_kernel_gpa = rstart (l_linux (bu_layout b)),
       ti_kernel_entry_gpa = rstart (l_linux (bu_layout b)) + (case pk_elf (ki_parsed ?k) of None \<Rightarrow> 0 | Some e \<Rightarrow> em_entry_offset e),
       ti_relocs_gpa = (case l_relocs (bu_layout b) of None \<Rightarrow> 0 | Some r \<Rightarrow> rstart r), ti_base_dtb_size = word_of_nat (length (bu_dtb b)),
       ti_host_dtbo_size = ucast (ts_virtual_size h), ti_kernel_size = word_of_nat (length (ki_image ?k)),
       ti_kernel_alloc_size = ucast (kernel_alloc_size ?k),
       ti_relocs64_count = word_of_nat (length (rl_relocs64 ?rl)),
       ti_relocs32neg_count = word_of_nat (length (rl_relocs32neg ?rl)),
       ti_relocs32_count = word_of_nat (length (rl_relocs32 ?rl))\<rparr>"
    using boot_info_fields [OF t(1)] unfolding t(2) by blast
  have dtb: "length (bu_dtb b) < 2 ^ 32"
  proof -
    have "word_of_nat (length (bu_dtb b)) \<le> ts_virtual_size d" using ok dh(1) by (simp add: image_ok_def)
    then have "length (bu_dtb b) \<le> unat (ts_virtual_size d)" using assms(7) by (simp add: word_le_nat_alt unat_of_nat)
    with placed(4) [OF named_section(1) [OF dh(1)]] show ?thesis by simp
  qed
  have base: "base_dtb_bytes mem (tatu_view (bu_boot_info b)) = bu_dtb b"
    using base_in_memory [OF assms(3,5) refl assms(6) dh(1)] dtb
    by (simp add: base_dtb_bytes_def guest_region_def bi unat_of_nat)
  have "mem (rstart (l_linux (bu_layout b))) (length (ki_image ?k)) = ki_image ?k"
    using placed(1) assms(5) by (force simp: loads_def payload_section_def)
  then have kernel: "kernel_bytes mem (tatu_view (bu_boot_info b)) = ki_image ?k"
    using placed(2) by (simp add: kernel_bytes_def guest_region_def bi unat_of_nat)
  have small: "length ?rb < 2 ^ 32"
  proof (cases "?rb = []")
    case False
    then obtain r where "payload_section SECTION_RELOCS r ?rb (IMAGE_SCN_CNT_INITIALIZED_DATA OR IMAGE_SCN_MEM_READ) \<in> set (loaded_sections ?ss)"
      using placed(5) assms(8) by blast
    then have "header_size (payload_section SECTION_RELOCS r ?rb (IMAGE_SCN_CNT_INITIALIZED_DATA OR IMAGE_SCN_MEM_READ)) < 2 ^ 32"
      using fits by (simp add: pe_fits_def)
    then show ?thesis by (rule payload_data_small)
  qed simp
  then have counts: "unat (word_of_nat (length (rl_relocs64 ?rl)) :: u32) = length (rl_relocs64 ?rl)"
    "unat (word_of_nat (length (rl_relocs32neg ?rl)) :: u32) = length (rl_relocs32neg ?rl)"
    "unat (word_of_nat (length (rl_relocs32 ?rl)) :: u32) = length (rl_relocs32 ?rl)"
    by (simp_all add: length_relocs_section unat_of_nat)
  have relocs: "relocs_words mem (tatu_view (bu_boot_info b)) = rl_relocs64 ?rl @ rl_relocs32neg ?rl @ rl_relocs32 ?rl"
  proof (cases "?rb = []")
    case True
    then have "length ?rb = 0" by simp
    then show ?thesis by (simp add: length_relocs_section relocs_words_def bi counts)
  next
    case False
    then obtain r where r: "l_relocs (bu_layout b) = Some r"
      "payload_section SECTION_RELOCS r ?rb (IMAGE_SCN_CNT_INITIALIZED_DATA OR IMAGE_SCN_MEM_READ) \<in> set (loaded_sections ?ss)"
      using placed(5) assms(8) by blast
    from False have "length ?rb \<noteq> 0" by simp
    then show ?thesis using relocs_in_memory [OF assms(5) r(2) refl]
      by (simp add: length_relocs_section relocs_words_def bi counts r(1))
  qed
  have "k_size (p_kernel (bu_planner b)) = kernel_alloc_size ?k" using ok by (simp add: image_ok_def)
  then have alloc: "unat (ucast (kernel_alloc_size ?k) :: u32) = unat (k_size (p_kernel (bu_planner b)))"
    using placed(3) by (simp add: unat_u32_ucast)
  have "unat (ucast (ts_virtual_size h) :: u32) = unat (ts_virtual_size h)"
    by (rule unat_u32_ucast [OF placed(4) [OF named_section(1) [OF dh(2)]]])
  then show ?thesis using s dh(2) base kernel relocs counts alloc by (simp add: Let_def s(2) bi)
qed

section \<open>A concrete launch\<close>

definition launched_memory :: memory where
  "launched_memory gpa n = take n (if gpa = 0x10000 then bu_boot_info demo_built else if gpa = 0x20000 then [2]
     else if gpa = 0x200000 then demo_kernel else [])"

lemma demo_loads: "loads launched_memory (demo_sections (bu_boot_info demo_built))"
  by (auto simp: loads_def loaded_sections_def demo_sections_def launched_memory_def)

lemma demo_base: "base_given launched_memory demo_built"
  by (simp add: base_given_def launched_memory_def demo_built_def demo_stub_def demo_section_def tatu_section_named_def SECTION_DTB_def)

lemma built_image_hands_over_witness:
  "let bi = tatu_view (launched_memory 0x10000 0x1000) in
     ti_magic bi = MAGIC \<and> base_dtb_bytes launched_memory bi = [2] \<and> kernel_bytes launched_memory bi = demo_kernel
     \<and> ti_kernel_entry_gpa bi = 0x200000 \<and> unat (ti_kernel_alloc_size bi) = 0x200000 \<and> ti_host_dtbo_gpa bi = 0x30000"
proof -
  obtain pe where pe: "build_run demo_env demo_args = Some ([(''out'', pe)], Inr ())" using demo_run by blast
  have b: "plan_bounded (bu_planner demo_built)" "length (bu_dtb demo_built) < 2 ^ 64"
    "length (relocs_section_bytes (ki_relocs (bu_kernel demo_built))) < 2 ^ 60"
    using demo_bounded demo_no_relocs by (simp_all add: demo_built_def)
  have l: "loads launched_memory (image_sections (ba_dtb_mode demo_args) demo_built)"
    unfolding demo_mode demo_sections_assembled by (rule demo_loads)
  from built_image_hands_over [OF demo_image pe demo_stub_fits b(1) l impI [OF demo_base] b(2,3)]
  show ?thesis
    by (auto simp: Let_def demo_built_def demo_stub_def demo_section_def tatu_section_named_def BOOTINFO_SECTION_def SECTION_DTBO_def
        demo_image_layout_def demo_input_def demo_planner_value)
qed

end
