(* ===== verification/Commands.thy ===== *)
theory Commands
  imports Build
begin

text \<open>
  The command \<open>arma cmdline\<close> (\<open>src/cmdline.rs\<close>) and the dispatch of the commands
  (\<open>main\<close> in \<open>src/main.rs\<close>). The owned trees of the \<open>devtree\<close> crate are the
  parameter \<open>owned_api\<close>; what an edit of the command line relies on is the locale
  \<open>owned_tree\<close>, interpreted on the trees of Devtree.
\<close>

section \<open>Owned trees\<close>

text \<open>
  \<open>Tree::parse\<close>, \<open>OwnedTree::materialize\<close>, \<open>child_mut\<close>, \<open>set_child\<close>,
  \<open>OwnedNode::new\<close>, \<open>set_property\<close> with \<open>with_str\<close>, and \<open>encode\<close>. A change through
  \<open>child_mut\<close> is put back with \<open>ow_set_child\<close>.
\<close>

record ('n, 'p, 'o) owned_api =
  ow_parse :: "bytes \<Rightarrow> ('n, 'p) dt_view option"
  ow_materialize :: "('n, 'p) dt_view \<Rightarrow> 'o"
  ow_child :: "'o \<Rightarrow> string \<Rightarrow> 'o option"
  ow_set_child :: "'o \<Rightarrow> 'o \<Rightarrow> 'o"
  ow_new :: "string \<Rightarrow> 'o"
  ow_set_str :: "'o \<Rightarrow> string \<Rightarrow> string \<Rightarrow> 'o"
  ow_encode :: "'o \<Rightarrow> bytes option"

datatype cmdline_error = DtbRead | DtbParse | DtbEncode | DtbWrite | NoChosen

definition read_bootargs :: "('n, 'p, 'o) owned_api \<Rightarrow> bytes \<Rightarrow> cmdline_error + string" where
  "read_bootargs A bytes =
    rbind (ok_or DtbParse (ow_parse A bytes)) (\<lambda>V.
    Inr (case Option.bind (find_path V ''/chosen'') (\<lambda>c. node_property V c ''bootargs'') of
           Some p \<Rightarrow> (case as_str V p of Some s \<Rightarrow> s | None \<Rightarrow> [])
         | None \<Rightarrow> []))"

text \<open>The edit of the tree; the \<open>expect\<close> is \<open>None\<close>.\<close>

definition set_bootargs :: "('n, 'p, 'o) owned_api \<Rightarrow> 'o \<Rightarrow> string \<Rightarrow> 'o option" where
  "set_bootargs A root new =
    (let root = (if ow_child A root ''chosen'' = None then ow_set_child A root (ow_new A ''chosen'') else root) in
     map_option (\<lambda>chosen. ow_set_child A root (ow_set_str A chosen ''bootargs'' new)) (ow_child A root ''chosen''))"

definition write_bootargs :: "('n, 'p, 'o) owned_api \<Rightarrow> bytes \<Rightarrow> string \<Rightarrow> cmdline_error + bytes" where
  "write_bootargs A bytes new =
    rbind (ok_or DtbParse (ow_parse A bytes)) (\<lambda>V.
    rbind (ok_or NoChosen (set_bootargs A (ow_materialize A V) new)) (\<lambda>root.
    ok_or DtbEncode (ow_encode A root)))"

text \<open>What the command does: a text that is printed, or a file that is replaced.\<close>

datatype cmdline_effect = Printed string | Replaced string bytes

definition cmdline_run ::
  "build_env \<Rightarrow> ('n, 'p, 'o) owned_api \<Rightarrow> string \<Rightarrow> string option \<Rightarrow> cmdline_error + cmdline_effect" where
  "cmdline_run E A p cmdline =
    rbind (ok_or DtbRead (env_read E p)) (\<lambda>bytes.
    case cmdline of
      None \<Rightarrow> rbind (read_bootargs A bytes) (\<lambda>s. Inr (Printed s))
    | Some new \<Rightarrow>
       rbind (write_bootargs A bytes new) (\<lambda>out.
       if env_write E p out then Inr (Replaced p out) else Inl DtbWrite))"

section \<open>The commands (main)\<close>

datatype command = BuildCommand cli_args | CheckCommand string | CmdlineCommand string "string option"

text \<open>True is \<open>ExitCode::SUCCESS\<close>; \<open>None\<close> when a build does not return.\<close>

definition check_succeeds :: "build_env \<Rightarrow> ('n, 'p) check_api \<Rightarrow> string \<Rightarrow> bool" where
  "check_succeeds E C pmi = (case env_read E pmi of None \<Rightarrow> False | Some bytes \<Rightarrow> run_check C bytes = Inr [])"

definition arma_main ::
  "build_env \<Rightarrow> ('n, 'p) check_api \<Rightarrow> ('n, 'p, 'o) owned_api \<Rightarrow> command \<Rightarrow> bool option" where
  "arma_main E C A cmd = (case cmd of
     BuildCommand a \<Rightarrow> map_option (\<lambda>(_, r). r = Inr ()) (build_run E (args_of_cli a))
   | CheckCommand pmi \<Rightarrow> Some (check_succeeds E C pmi)
   | CmdlineCommand p cmdline \<Rightarrow> Some (case cmdline_run E A p cmdline of Inl _ \<Rightarrow> False | Inr _ \<Rightarrow> True))"

section \<open>What an edit relies on\<close>

locale owned_tree =
  fixes child :: "'o \<Rightarrow> string \<Rightarrow> 'o option" and set_child :: "'o \<Rightarrow> 'o \<Rightarrow> 'o" and new_node :: "string \<Rightarrow> 'o"
    and set_text :: "'o \<Rightarrow> string \<Rightarrow> string \<Rightarrow> 'o" and title :: "'o \<Rightarrow> string" and attr :: "'o \<Rightarrow> string \<Rightarrow> bytes option"
  assumes child_set: "child (set_child t c) n = (if n = title c then Some c else child t n)"
    and prop_set_child: "attr (set_child t c) p = attr t p"
    and child_title: "child t n = Some c \<Longrightarrow> title c = n"
    and title_new: "title (new_node n) = n"
    and new_empty: "child (new_node n) m = None" "attr (new_node n) p = None"
    and title_set_text: "title (set_text c p s) = title c"
    and child_set_text: "child (set_text c p s) n = child c n"
    and prop_set_text: "attr (set_text c p s) q = (if q = p then Some (nul_str s) else attr c q)"
begin

definition edit :: "'o \<Rightarrow> string \<Rightarrow> 'o option" where
  "edit root new =
    (let root = (if child root ''chosen'' = None then set_child root (new_node ''chosen'') else root) in
     map_option (\<lambda>chosen. set_child root (set_text chosen ''bootargs'' new)) (child root ''chosen''))"

text \<open>The edit always finds a node to change, and changes nothing else.\<close>

lemma edit_returns: "\<exists>root'. edit root new = Some root'"
  using child_set [of root "new_node ''chosen''" "''chosen''"]
  by (auto simp: edit_def Let_def title_new)

lemma edit_effect:
  assumes "edit root new = Some root'"
  shows "\<exists>c. child root' ''chosen'' = Some c \<and> attr c ''bootargs'' = Some (nul_str new)
      \<and> (\<forall>q. q \<noteq> ''bootargs'' \<longrightarrow> attr c q = Option.bind (child root ''chosen'') (\<lambda>o'. attr o' q))
      \<and> (\<forall>n. child c n = Option.bind (child root ''chosen'') (\<lambda>o'. child o' n))"
    and "n \<noteq> ''chosen'' \<Longrightarrow> child root' n = child root n" and "attr root' p = attr root p"
proof -
  let ?r = "if child root ''chosen'' = None then set_child root (new_node ''chosen'') else root"
  from assms obtain c where c: "child ?r ''chosen'' = Some c" "root' = set_child ?r (set_text c ''bootargs'' new)"
    by (auto simp: edit_def Let_def)
  have t: "title (set_text c ''bootargs'' new) = ''chosen''" using child_title [OF c(1)] by (simp add: title_set_text)
  have o: "attr c q = Option.bind (child root ''chosen'') (\<lambda>o'. attr o' q)"
    "child c n = Option.bind (child root ''chosen'') (\<lambda>o'. child o' n)" for q n
    using c(1) by (auto simp: child_set title_new new_empty split: if_splits)
  show "\<exists>c. child root' ''chosen'' = Some c \<and> attr c ''bootargs'' = Some (nul_str new)
      \<and> (\<forall>q. q \<noteq> ''bootargs'' \<longrightarrow> attr c q = Option.bind (child root ''chosen'') (\<lambda>o'. attr o' q))
      \<and> (\<forall>n. child c n = Option.bind (child root ''chosen'') (\<lambda>o'. child o' n))"
    using o by (auto simp: c(2) child_set t prop_set_text child_set_text)
  show "attr root' p = attr root p" by (simp add: c(2) prop_set_child)
  show "child root' n = child root n" if "n \<noteq> ''chosen''" using that by (simp add: c(2) child_set t title_new)
qed

end

section \<open>The trees of Devtree as owned trees\<close>

definition dn_child :: "dnode \<Rightarrow> string \<Rightarrow> dnode option" where
  "dn_child t n = find_first (\<lambda>c. dnode_name c = n) (dnode_children t)"

definition dn_prop :: "dnode \<Rightarrow> string \<Rightarrow> bytes option" where
  "dn_prop t p = map_option snd (prop_of t p)"

text \<open>Replaces the first entry of the key, or adds one at the end.\<close>

fun put :: "('a \<Rightarrow> string) \<Rightarrow> 'a \<Rightarrow> 'a list \<Rightarrow> 'a list" where
  "put f x [] = [x]"
| "put f x (y # ys) = (if f y = f x then x # ys else y # put f x ys)"

definition dn_set_child :: "dnode \<Rightarrow> dnode \<Rightarrow> dnode" where
  "dn_set_child t c = DNode (dnode_name t) (dnode_props t) (put dnode_name c (dnode_children t))"

definition dn_set_str :: "dnode \<Rightarrow> string \<Rightarrow> string \<Rightarrow> dnode" where
  "dn_set_str t p s = DNode (dnode_name t) (put fst (p, nul_str s) (dnode_props t)) (dnode_children t)"

definition dn_new :: "string \<Rightarrow> dnode" where
  "dn_new n = DNode n [] []"

lemma find_put:
  "find_first (\<lambda>y. f y = k) (put f x ys) = (if k = f x then Some x else find_first (\<lambda>y. f y = k) ys)"
  by (induction ys) auto

lemma find_first_True: "find_first P xs = Some x \<Longrightarrow> P x"
  by (induction xs) (auto split: if_splits)

interpretation dn: owned_tree dn_child dn_set_child dn_new dn_set_str dnode_name dn_prop
  by unfold_locales
    (auto simp: dn_child_def dn_set_child_def dn_prop_def prop_of_def dn_new_def dn_set_str_def find_put dest: find_first_True)

definition owned_trees :: "(bytes \<Rightarrow> dnode option) \<Rightarrow> (dnode \<Rightarrow> bytes option) \<Rightarrow> (dnode, string \<times> bytes, dnode) owned_api" where
  "owned_trees parse encode = \<lparr>ow_parse = (\<lambda>b. map_option dt_tree (parse b)), ow_materialize = tree_root, ow_child = dn_child,
     ow_set_child = dn_set_child, ow_new = dn_new, ow_set_str = dn_set_str, ow_encode = encode\<rparr>"

lemma set_bootargs_edit: "set_bootargs (owned_trees parse encode) = dn.edit"
  by (simp add: fun_eq_iff set_bootargs_def dn.edit_def owned_trees_def)

lemma split_on_notin: "a \<notin> set xs \<Longrightarrow> split_on a xs = [xs]"
  by (induction xs) auto

lemma as_str_nul_str: "CHR 0x00 \<notin> set s \<Longrightarrow> as_str (dt_tree t) (p, nul_str s) = Some s"
  using bytes_str_str_bytes [of s]
  by (simp add: dt_tree_def nul_strings_def nul_str_def split_on_notin bytes_str_def)

lemma node_property_tree: "node_property (dt_tree t) = prop_of"
  by (simp add: dt_tree_def)

lemma find_chosen: "find_path (dt_tree t) ''/chosen'' = dn_child t ''chosen''"
  by (simp add: dt_tree_def dn_child_def split: option.splits)

text \<open>
  C39. Rewriting the command line and reading it back: the edit never fails for want of a
  \<open>/chosen\<close>, what is read is what was written, and the rest of the tree is as before.
\<close>

theorem cmdline_roundtrip:
  assumes "A = owned_trees parse encode" "\<forall>t b. encode t = Some b \<longrightarrow> parse b = Some t"
    and "parse bytes = Some t" "CHR 0x00 \<notin> set new"
  shows "case write_bootargs A bytes new of
     Inl e \<Rightarrow> e = DtbEncode
   | Inr out \<Rightarrow> read_bootargs A out = Inr new
      \<and> (\<exists>t' c. parse out = Some t' \<and> dnode_props t' = dnode_props t
        \<and> (\<forall>n. n \<noteq> ''chosen'' \<longrightarrow> dn_child t' n = dn_child t n) \<and> dn_child t' ''chosen'' = Some c
        \<and> (\<forall>p. p \<noteq> ''bootargs'' \<longrightarrow> dn_prop c p = Option.bind (dn_child t ''chosen'') (\<lambda>o'. dn_prop o' p))
        \<and> (\<forall>n. dn_child c n = Option.bind (dn_child t ''chosen'') (\<lambda>o'. dn_child o' n)))"
proof -
  obtain t' where e: "dn.edit t new = Some t'" using dn.edit_returns by blast
  have w: "write_bootargs A bytes new = ok_or DtbEncode (encode t')"
    using assms(1,3) e by (simp add: write_bootargs_def owned_trees_def dt_tree_def set_bootargs_edit [unfolded owned_trees_def])
  show ?thesis
  proof (cases "encode t'")
    case (Some out)
    then have p: "parse out = Some t'" using assms(2) by blast
    from dn.edit_effect(1) [OF e] obtain c where c: "dn_child t' ''chosen'' = Some c" "dn_prop c ''bootargs'' = Some (nul_str new)"
      "\<forall>q. q \<noteq> ''bootargs'' \<longrightarrow> dn_prop c q = Option.bind (dn_child t ''chosen'') (\<lambda>o'. dn_prop o' q)"
      "\<forall>n. dn_child c n = Option.bind (dn_child t ''chosen'') (\<lambda>o'. dn_child o' n)" by blast
    obtain k where k: "prop_of c ''bootargs'' = Some (k, nul_str new)" using c(2) by (auto simp: dn_prop_def)
    have "read_bootargs A out = Inr new"
      using c(1) k as_str_nul_str [OF assms(4), of t' k]
      by (simp add: read_bootargs_def assms(1) owned_trees_def p find_chosen node_property_tree)
    moreover have "dnode_props t' = dnode_props t"
      using e by (auto simp: dn.edit_def Let_def dn_set_child_def split: if_splits)
    ultimately show ?thesis using w Some p c(1,3,4) dn.edit_effect(2) [OF e] by auto
  qed (use w in simp)
qed

definition demo_chosen :: dnode where
  "demo_chosen = DNode [] [(''model'', nul_str ''x'')] [DNode ''chosen'' [(''bootargs'', nul_str ''quiet'')] [], DNode ''pci'' [] []]"

lemma cmdline_roundtrip_witness:
  "let A = owned_trees (\<lambda>b. if b = [1] then Some demo_chosen else if b = [2] then Some (the (dn.edit demo_chosen ''debug'')) else None)
      (\<lambda>t. if t = the (dn.edit demo_chosen ''debug'') then Some [2] else None)
   in write_bootargs A [1] ''debug'' = Inr [2] \<and> read_bootargs A [2] = Inr ''debug'' \<and> read_bootargs A [1] = Inr ''quiet''"
proof -
  obtain t where e: "dn.edit demo_chosen ''debug'' = Some t" using dn.edit_returns by blast
  let ?p = "\<lambda>b :: bytes. if b = [1] then Some demo_chosen else if b = [2] then Some t else None"
  let ?e = "\<lambda>u. if u = t then Some ([2] :: bytes) else None"
  let ?A = "owned_trees ?p ?e"
  have w: "write_bootargs ?A [1] ''debug'' = Inr [2]"
    using e by (simp add: write_bootargs_def owned_trees_def dt_tree_def set_bootargs_edit [unfolded owned_trees_def])
  have "case write_bootargs ?A [1] ''debug'' of Inl e \<Rightarrow> e = DtbEncode | Inr out \<Rightarrow> read_bootargs ?A out = Inr ''debug''"
    using cmdline_roundtrip [OF refl, of ?e ?p "[1]" demo_chosen "''debug''"] by (auto split: sum.splits if_splits)
  moreover have "read_bootargs ?A [1] = Inr ''quiet''"
    by (simp add: read_bootargs_def owned_trees_def find_chosen dn_child_def demo_chosen_def node_property_tree prop_of_def as_str_nul_str) 
  ultimately show ?thesis unfolding Let_def e option.sel using w by simp
qed

end
