(* ===== verification/AtomicWrite.thy ===== *)
theory AtomicWrite
  imports Build
begin

text \<open>
  Replacing a file (\<open>src/fs_ext.rs\<close>), as the steps a reader or a crash can come between: the
  sibling is created empty, filled piece by piece and renamed over the target, and every call may
  fail. The files are a map from paths; a rename is atomic, as the operating system documents it.
\<close>

section \<open>The sibling\<close>

definition parent_dir :: "path \<Rightarrow> path option" where
  "parent_dir p = (if p = [] \<or> last p = RootDir then None else Some (butlast p))"

definition file_name_of :: "path \<Rightarrow> string option" where
  "file_name_of p = (case rev p of Normal n # _ \<Rightarrow> Some n | _ \<Rightarrow> None)"

text \<open>\<open>to_string_lossy\<close> of a name that is no UTF-8 is the parameter \<open>lossy\<close>.\<close>

definition temp_name :: "(string \<Rightarrow> string) \<Rightarrow> path \<Rightarrow> string" where
  "temp_name lossy p = ''.'' @ (case file_name_of p of
     None \<Rightarrow> ''out''
   | Some n \<Rightarrow> if utf8_ok n then n else lossy n) @ ''.arma.tmp''"

definition temp_path :: "(string \<Rightarrow> string) \<Rightarrow> path \<Rightarrow> path" where
  "temp_path lossy p =
    (let dir = (case parent_dir p of None \<Rightarrow> [CurDir] | Some d \<Rightarrow> if d = [] then [CurDir] else d) in
     dir @ [Normal (temp_name lossy p)])"

section \<open>The steps\<close>

type_synonym files = "path \<Rightarrow> bytes option"

datatype write_phase = Begin | Filling nat | Replaced_all | GaveUp

inductive atomic_step :: "path \<Rightarrow> path \<Rightarrow> bytes \<Rightarrow> write_phase \<times> files \<Rightarrow> write_phase \<times> files \<Rightarrow> bool"
  for tmp p bytes where
  create: "atomic_step tmp p bytes (Begin, F) (Filling 0, F(tmp \<mapsto> []))"
| create_fails: "atomic_step tmp p bytes (Begin, F) (GaveUp, F)"
| fill: "n < k \<Longrightarrow> k \<le> length bytes \<Longrightarrow>
    atomic_step tmp p bytes (Filling n, F) (Filling k, F(tmp \<mapsto> take k bytes))"
| fill_fails: "n < length bytes \<Longrightarrow> atomic_step tmp p bytes (Filling n, F) (GaveUp, F)"
| rename: "atomic_step tmp p bytes (Filling (length bytes), F) (Replaced_all, F(p := F tmp, tmp := None))"
| rename_fails: "atomic_step tmp p bytes (Filling (length bytes), F) (GaveUp, F)"

inductive_simps stopped_steps [simp]:
  "atomic_step tmp p bytes (Replaced_all, F) y" "atomic_step tmp p bytes (GaveUp, F) y"

text \<open>A write that has ended, and its result.\<close>

definition write_result :: "write_phase \<Rightarrow> bool option" where
  "write_result ph = (case ph of Replaced_all \<Rightarrow> Some True | GaveUp \<Rightarrow> Some False | _ \<Rightarrow> None)"

section \<open>A reader never sees a half-written file\<close>

definition write_inv :: "path \<Rightarrow> path \<Rightarrow> bytes \<Rightarrow> files \<Rightarrow> write_phase \<times> files \<Rightarrow> bool" where
  "write_inv tmp p bytes F0 st \<longleftrightarrow> (case st of (ph, F) \<Rightarrow>
     (\<forall>q. q \<noteq> tmp \<longrightarrow> q \<noteq> p \<longrightarrow> F q = F0 q)
     \<and> (case ph of
          Begin \<Rightarrow> F = F0
        | Filling n \<Rightarrow> n \<le> length bytes \<and> F tmp = Some (take n bytes) \<and> F p = F0 p
        | Replaced_all \<Rightarrow> F p = Some bytes \<and> F tmp = None
        | GaveUp \<Rightarrow> F p = F0 p))"

lemma write_inv_step:
  assumes "atomic_step tmp p bytes st st'" "tmp \<noteq> p" "write_inv tmp p bytes F0 st"
  shows "write_inv tmp p bytes F0 st'"
  using assms by (cases rule: atomic_step.cases) (auto simp: write_inv_def)

lemma write_inv_reachable:
  assumes "(atomic_step tmp p bytes)\<^sup>*\<^sup>* (Begin, F0) st" "tmp \<noteq> p"
  shows "write_inv tmp p bytes F0 st"
  using assms by (induction rule: rtranclp_induct) (auto simp: write_inv_def [of _ _ _ _ "(Begin, F0)"] dest: write_inv_step)

lemma temp_path_last: "last (temp_path lossy p) = Normal (temp_name lossy p)"
  by (simp add: temp_path_def Let_def)

lemma file_name_last: "p \<noteq> [] \<Longrightarrow> last p = Normal n \<Longrightarrow> file_name_of p = Some n"
  by (cases p rule: rev_cases) (auto simp: file_name_of_def)

lemma temp_path_differs:
  assumes "\<forall>n. file_name_of p = Some n \<longrightarrow> utf8_ok n"
  shows "temp_path lossy p \<noteq> p"
proof
  assume eq: "temp_path lossy p = p"
  then have "last p = Normal (temp_name lossy p)" "p \<noteq> []" using temp_path_last [of lossy p] by (auto simp: temp_path_def Let_def)
  then have "file_name_of p = Some (temp_name lossy p)" by (intro file_name_last)
  moreover from this have "utf8_ok (temp_name lossy p)" using assms by blast
  ultimately have "temp_name lossy p = ''.'' @ temp_name lossy p @ ''.arma.tmp''"
    by (subst (1) temp_name_def) (simp del: append.simps)
  then have "length (temp_name lossy p) = length (''.'' @ temp_name lossy p @ ''.arma.tmp'')" by (rule arg_cong)
  then show False by simp
qed

text \<open>Progress: a write that has not ended can go on, and it ends.\<close>

definition steps_left :: "bytes \<Rightarrow> write_phase \<times> files \<Rightarrow> nat" where
  "steps_left bytes st = (case fst st of Begin \<Rightarrow> length bytes + 2 | Filling n \<Rightarrow> length bytes - n + 1 | _ \<Rightarrow> 0)"

lemma step_decreases:
  assumes "atomic_step tmp p bytes st st'"
  shows "steps_left bytes st' < steps_left bytes st"
  using assms by (cases rule: atomic_step.cases) (auto simp: steps_left_def)

lemma step_possible:
  assumes "write_inv tmp p bytes F0 st" "write_result (fst st) = None"
  shows "\<exists>st'. atomic_step tmp p bytes st st'"
proof (cases st)
  case (Pair ph F)
  show ?thesis
  proof (cases ph)
    case Begin
    then show ?thesis using Pair create by blast
  next
    case (Filling n)
    then have "n \<le> length bytes" using assms(1) Pair by (simp add: write_inv_def)
    then consider "n < length bytes" | "n = length bytes" by linarith
    then show ?thesis
    proof cases
      case 1
      then show ?thesis using Pair Filling fill_fails by blast
    next
      case 2
      then show ?thesis using Pair Filling rename by blast
    qed
  qed (use assms(2) Pair in \<open>simp_all add: write_result_def\<close>)
qed

text \<open>
  C40. At every moment of a write, the target holds all of its old content or all of the new one,
  and no file but the target and the sibling has changed; the new content is there exactly when the
  write has succeeded, and then the sibling is gone. A write takes at most as many steps as there
  are bytes, and two more, and stops only with a result.
\<close>

theorem atomic_write_safe:
  assumes "\<forall>n. file_name_of p = Some n \<longrightarrow> utf8_ok n" "tmp = temp_path lossy p"
    and "(atomic_step tmp p bytes ^^ k) (Begin, F0) (ph, F)"
  shows "(\<forall>q. q \<noteq> tmp \<longrightarrow> q \<noteq> p \<longrightarrow> F q = F0 q)
    \<and> (if write_result ph = Some True then F p = Some bytes \<and> F tmp = None else F p = F0 p)
    \<and> k \<le> length bytes + 2
    \<and> ((\<exists>st. atomic_step tmp p bytes (ph, F) st) \<longleftrightarrow> write_result ph = None)"
proof -
  have d: "tmp \<noteq> p" using temp_path_differs [OF assms(1)] by (simp add: assms(2))
  have inv: "write_inv tmp p bytes F0 (ph, F)"
    by (rule write_inv_reachable [OF relpowp_imp_rtranclp [OF assms(3)] d])
  have "k + steps_left bytes st \<le> steps_left bytes (Begin, F0)" if "(atomic_step tmp p bytes ^^ k) (Begin, F0) st" for st
    using that
  proof (induction k arbitrary: st)
    case (Suc k)
    then obtain st' where "(atomic_step tmp p bytes ^^ k) (Begin, F0) st'" "atomic_step tmp p bytes st' st"
      by (auto elim: relpowp_Suc_E)
    then show ?case using Suc.IH [of st'] step_decreases [of tmp p bytes st' st] by simp
  qed simp
  then have "k \<le> length bytes + 2" using assms(3) by (fastforce simp: steps_left_def)
  moreover have "(\<exists>st. atomic_step tmp p bytes (ph, F) st) \<longleftrightarrow> write_result ph = None"
    using step_possible [OF inv] by (cases ph) (auto simp: write_result_def)
  moreover have "F p = F0 p" if "write_result ph \<noteq> Some True"
    using inv that d by (cases ph) (auto simp: write_inv_def write_result_def)
  ultimately show ?thesis using inv by (auto simp: write_inv_def write_result_def split: write_phase.splits)
qed

lemma atomic_write_safe_witness:
  "let p = [Normal ''out'']; tmp = temp_path id p in
   tmp = [CurDir, Normal ''.out.arma.tmp''] \<and>
   (\<exists>F. (atomic_step tmp p [7, 8] ^^ 3) (Begin, [p \<mapsto> [1]]) (Replaced_all, F) \<and> F p = Some [7, 8] \<and> F tmp = None)"
proof -
  let ?p = "[Normal ''out'']"
  let ?tmp = "temp_path id ?p"
  let ?F0 = "[?p \<mapsto> [1 :: u8]]"
  have "utf8_ok ''out''" "?tmp = [CurDir, Normal ''.out.arma.tmp'']" by code_simp+
  then have u: "\<forall>n. file_name_of ?p = Some n \<longrightarrow> utf8_ok n" "?tmp = [CurDir, Normal ''.out.arma.tmp'']"
    by (simp_all add: file_name_of_def)
  let ?F1 = "?F0(?tmp \<mapsto> [])"
  let ?F2 = "?F1(?tmp \<mapsto> take 2 [7, 8])"
  have s: "atomic_step ?tmp ?p [7, 8] (Begin, ?F0) (Filling 0, ?F1)" by (rule create)
  have f: "atomic_step ?tmp ?p [7, 8] (Filling 0, ?F1) (Filling 2, ?F2)" by (rule fill) simp_all
  have r: "atomic_step ?tmp ?p [7, 8] (Filling 2, ?F2) (Replaced_all, ?F2(?p := ?F2 ?tmp, ?tmp := None))"
    using rename [of ?tmp ?p "[7, 8]" ?F2] by (simp add: numeral_2_eq_2)
  have run: "(atomic_step ?tmp ?p [7, 8] ^^ 3) (Begin, ?F0) (Replaced_all, ?F2(?p := ?F2 ?tmp, ?tmp := None))"
    using s f r by (auto simp: numeral_3_eq_3 relcompp.simps simp del: One_nat_def)
  from atomic_write_safe [OF u(1) refl run] show ?thesis
    using run u(2) by (auto simp: Let_def write_result_def)
qed

end
